(* ===== verification/Prelude.thy ===== *)
theory Prelude
  imports Main
begin

text \<open>
  What every component shares: the machine ranges of Rust's \<open>i64\<close> and \<open>u64\<close> with their
  saturating arithmetic written out over \<open>int\<close> and \<open>nat\<close>, the \<open>Result\<close> reading of a sum
  type, the collections of rewrite rules the component theories extend, and generic lemmas on
  lists and maps.
\<close>

named_theorems sat_simps \<open>saturating arithmetic: when a clamp does nothing\<close>
named_theorems ledger_simps \<open>what a ledger operation does to one run\<close>
named_theorems frame_simps \<open>what an operation leaves alone\<close>

section \<open>Machine ranges\<close>

definition I64_MIN :: int where
  "I64_MIN = - 9223372036854775808"

definition I64_MAX :: int where
  "I64_MAX = 9223372036854775807"

definition U64_MAX :: nat where
  "U64_MAX = 18446744073709551615"

definition U32_MAX :: nat where
  "U32_MAX = 4294967295"

definition I128_MIN :: int where
  "I128_MIN = - 170141183460469231731687303715884105728"

definition I128_MAX :: int where
  "I128_MAX = 170141183460469231731687303715884105727"

lemmas machine_bounds = I64_MIN_def I64_MAX_def U64_MAX_def U32_MAX_def I128_MIN_def I128_MAX_def

definition in_i64 :: "int \<Rightarrow> bool" where
  "in_i64 x \<longleftrightarrow> I64_MIN \<le> x \<and> x \<le> I64_MAX"

text \<open>Clamping into \<open>i64\<close>: what \<open>saturating_add\<close> and \<open>saturating_sub\<close> do to the exact result.\<close>

definition sat_i64 :: "int \<Rightarrow> int" where
  "sat_i64 x = max I64_MIN (min I64_MAX x)"

definition sat_u64 :: "nat \<Rightarrow> nat" where
  "sat_u64 x = min U64_MAX x"

definition sat_i128 :: "int \<Rightarrow> int" where
  "sat_i128 x = max I128_MIN (min I128_MAX x)"

text \<open>
  A release build of the workspace has no overflow checks (the root \<open>Cargo.toml\<close> sets none), so
  a plain \<open>+= 1\<close> wraps at the type's width.
\<close>

definition wrap_succ_u64 :: "nat \<Rightarrow> nat" where
  "wrap_succ_u64 n = (n + 1) mod 2 ^ 64"

definition wrap_succ_u32 :: "nat \<Rightarrow> nat" where
  "wrap_succ_u32 n = (n + 1) mod 2 ^ 32"

lemma I64_MAX_pos [simp]: "0 \<le> I64_MAX" "I64_MIN \<le> 0" "I64_MIN \<le> I64_MAX"
  by (simp_all add: machine_bounds)

lemma sat_i64_in [simp]: "in_i64 (sat_i64 x)"
  by (simp add: sat_i64_def in_i64_def)

lemma sat_i64_id [sat_simps]: "in_i64 x \<Longrightarrow> sat_i64 x = x"
  by (simp add: sat_i64_def in_i64_def)

lemma sat_i64_nonneg [simp]: "0 \<le> x \<Longrightarrow> 0 \<le> sat_i64 x"
  by (simp add: sat_i64_def machine_bounds)

lemma sat_i64_nonneg_le: "0 \<le> x \<Longrightarrow> sat_i64 x \<le> x"
  by (simp add: sat_i64_def machine_bounds)

lemma sat_i64_le_max [simp]: "sat_i64 x \<le> I64_MAX"
  by (simp add: sat_i64_def)

lemma sat_i64_mono: "x \<le> y \<Longrightarrow> sat_i64 x \<le> sat_i64 y"
  by (auto simp: sat_i64_def)

lemma in_i64_zero [simp]: "in_i64 0"
  by (simp add: in_i64_def machine_bounds)

lemma in_i64_between: "in_i64 a \<Longrightarrow> in_i64 b \<Longrightarrow> a \<le> x \<Longrightarrow> x \<le> b \<Longrightarrow> in_i64 x"
  by (simp add: in_i64_def)

lemma wrap_succ_u64_small [sat_simps]: "n < U64_MAX \<Longrightarrow> wrap_succ_u64 n = Suc n"
  by (simp add: wrap_succ_u64_def U64_MAX_def)

lemma wrap_succ_u32_small [sat_simps]: "n < U32_MAX \<Longrightarrow> wrap_succ_u32 n = Suc n"
  by (simp add: wrap_succ_u32_def U32_MAX_def)

lemma wrap_succ_u64_max: "wrap_succ_u64 U64_MAX = 0"
  by (simp add: wrap_succ_u64_def U64_MAX_def)

lemma sat_u64_id [sat_simps]: "n \<le> U64_MAX \<Longrightarrow> sat_u64 n = n"
  by (simp add: sat_u64_def)

lemma sat_u64_le [simp]: "sat_u64 n \<le> U64_MAX" "sat_u64 n \<le> n"
  by (simp_all add: sat_u64_def)

lemma sat_u64_mono: "m \<le> n \<Longrightarrow> sat_u64 m \<le> sat_u64 n"
  by (auto simp: sat_u64_def)

lemma sat_i128_id [sat_simps]: "I128_MIN \<le> x \<Longrightarrow> x \<le> I128_MAX \<Longrightarrow> sat_i128 x = x"
  by (simp add: sat_i128_def)

text \<open>Plain \<open>+\<close> on \<open>i64\<close> in a release build: two's complement wrap-around.\<close>

definition wrap_i64 :: "int \<Rightarrow> int" where
  "wrap_i64 x = (x + 2 ^ 63) mod 2 ^ 64 - 2 ^ 63"

lemma wrap_i64_id [sat_simps]: "in_i64 x \<Longrightarrow> wrap_i64 x = x"
  by (simp add: wrap_i64_def in_i64_def machine_bounds)

text \<open>A sum accumulated with wrap-around is exact as long as the exact total of magnitudes fits.\<close>

definition wrap_sum :: "int list \<Rightarrow> int" where
  "wrap_sum xs = fold (\<lambda>x acc. wrap_i64 (acc + x)) xs 0"

lemma wrap_sum_from:
  "(\<And>x. x \<in> set xs \<Longrightarrow> 0 \<le> x) \<Longrightarrow> 0 \<le> acc \<Longrightarrow> acc + sum_list xs \<le> I64_MAX \<Longrightarrow>
     fold (\<lambda>x acc. wrap_i64 (acc + x)) xs acc = acc + sum_list xs"
proof (induction xs arbitrary: acc)
  case Nil
  then show ?case by simp
next
  case (Cons x xs)
  have nn: "0 \<le> sum_list xs" using Cons.prems(1) by (intro sum_list_nonneg) auto
  have "0 \<le> acc + x" using Cons.prems(1) [of x] Cons.prems(2) by simp
  then have "in_i64 (acc + x)" using Cons.prems(3) nn by (simp add: in_i64_def I64_MIN_def)
  then have "wrap_i64 (acc + x) = acc + x" by (rule wrap_i64_id)
  moreover have "acc + x + sum_list xs \<le> I64_MAX" using Cons.prems by simp
  moreover have "fold (\<lambda>x acc. wrap_i64 (acc + x)) xs (acc + x) = acc + x + sum_list xs"
    using Cons.prems calculation \<open>0 \<le> acc + x\<close> by (intro Cons.IH) auto
  ultimately show ?case by (simp add: add.assoc)
qed

lemma wrap_sum_exact:
  "(\<And>x. x \<in> set xs \<Longrightarrow> 0 \<le> x) \<Longrightarrow> sum_list xs \<le> I64_MAX \<Longrightarrow> wrap_sum xs = sum_list xs"
  using wrap_sum_from [of xs 0] by (simp add: wrap_sum_def)

text \<open>Rust's \<open>/\<close> on signed integers truncates towards zero; \<open>div_euclid\<close> by a positive is \<open>div\<close>.\<close>

definition tdiv :: "int \<Rightarrow> int \<Rightarrow> int" where
  "tdiv a b = (if 0 \<le> a then a div b else - ((- a) div b))"

lemma tdiv_nonneg [simp]: "0 \<le> a \<Longrightarrow> tdiv a b = a div b"
  by (simp add: tdiv_def)

text \<open>Flooring division by way of a truncating one, as calendar code writes it.\<close>

lemma tdiv_floor:
  assumes "0 < b"
  shows "tdiv (if 0 \<le> z then z else z - (b - 1)) b = z div b"
proof (cases "0 \<le> z")
  case False
  have "b - 1 - z = (b - 1 - z mod b) + b * (- (z div b))"
    by (simp add: minus_div_mult_eq_mod [symmetric] algebra_simps)
  moreover have "(b - 1 - z mod b) div b = 0"
    using pos_mod_bound [OF assms, of z] pos_mod_sign [OF assms, of z] by simp
  ultimately have "(b - 1 - z) div b = - (z div b)"
    using assms by (simp only: div_mult_self2)
  with False assms show ?thesis by (simp add: tdiv_def algebra_simps)
qed simp

section \<open>Results\<close>

text \<open>Rust's \<open>Result<T, E>\<close> is \<open>'e + 't\<close>, \<open>Inl\<close> for \<open>Err\<close> and \<open>Inr\<close> for \<open>Ok\<close>.\<close>

type_synonym ('t, 'e) res = "'e + 't"

definition is_ok :: "('t, 'e) res \<Rightarrow> bool" where
  "is_ok r = (case r of Inl _ \<Rightarrow> False | Inr _ \<Rightarrow> True)"

lemma is_ok_simps [simp]: "is_ok (Inr x)" "\<not> is_ok (Inl e)"
  by (simp_all add: is_ok_def)

section \<open>Lists and maps\<close>

text \<open>Sums over the elements of a list that satisfy a predicate, the shape every total has.\<close>

definition sum_where :: "('a \<Rightarrow> bool) \<Rightarrow> ('a \<Rightarrow> int) \<Rightarrow> 'a list \<Rightarrow> int" where
  "sum_where P f xs = sum_list (map f (filter P xs))"

lemma sum_where_simps [simp]:
  "sum_where P f [] = 0"
  "sum_where P f (x # xs) = (if P x then f x else 0) + sum_where P f xs"
  "sum_where P f (xs @ ys) = sum_where P f xs + sum_where P f ys"
  by (simp_all add: sum_where_def)

lemma sum_where_nonneg: "(\<And>x. x \<in> set xs \<Longrightarrow> P x \<Longrightarrow> 0 \<le> f x) \<Longrightarrow> 0 \<le> sum_where P f xs"
  by (induction xs) auto

lemma sum_where_cong:
  "(\<And>x. x \<in> set xs \<Longrightarrow> P x = Q x) \<Longrightarrow> sum_where P f xs = sum_where Q f xs"
  by (induction xs) auto

lemma sum_where_none: "(\<And>x. x \<in> set xs \<Longrightarrow> \<not> P x) \<Longrightarrow> sum_where P f xs = 0"
  by (induction xs) auto

lemma sum_where_member:
  "(\<And>y. y \<in> set xs \<Longrightarrow> P y \<Longrightarrow> 0 \<le> f y) \<Longrightarrow> x \<in> set xs \<Longrightarrow> P x \<Longrightarrow> f x \<le> sum_where P f xs"
proof (induction xs)
  case Nil
  then show ?case by simp
next
  case (Cons y ys)
  have nn: "0 \<le> sum_where P f ys"
    using Cons.prems(1) by (intro sum_where_nonneg) auto
  show ?case
  proof (cases "x = y")
    case True
    with nn Cons.prems show ?thesis by simp
  next
    case False
    with Cons have "f x \<le> sum_where P f ys" by simp
    with Cons.prems(1)[of y] show ?thesis by auto
  qed
qed

text \<open>Taking one element, identified by a key that no other element carries, out of a total.\<close>

lemma sum_where_remove_key:
  assumes "distinct (map k xs)" and "x \<in> set xs" and "P x"
  shows "sum_where (\<lambda>y. P y \<and> k y \<noteq> k x) f xs = sum_where P f xs - f x"
  using assms
proof (induction xs)
  case Nil
  then show ?case by simp
next
  case (Cons y ys)
  show ?case
  proof (cases "x = y")
    case True
    have "sum_where (\<lambda>z. P z \<and> k z \<noteq> k x) f ys = sum_where P f ys"
    proof (rule sum_where_cong)
      fix z
      assume "z \<in> set ys"
      with Cons.prems(1) True show "(P z \<and> k z \<noteq> k x) = P z" by (auto simp: image_iff)
    qed
    with True Cons.prems(3) show ?thesis by simp
  next
    case False
    then have "x \<in> set ys" using Cons.prems(2) by simp
    then have "k y \<noteq> k x" using Cons.prems(1) by auto
    with Cons \<open>x \<in> set ys\<close> show ?thesis by auto
  qed
qed

text \<open>Decimal digits, as \<open>Display\<close> prints an unsigned integer.\<close>

fun show_nat :: "nat \<Rightarrow> string" where
  "show_nat n = (if n < 10 then [char_of (48 + n)] else show_nat (n div 10) @ [char_of (48 + n mod 10)])"

declare show_nat.simps [simp del]

text \<open>\<open>{x:0w}\<close>: zero-padded to a width that counts the sign.\<close>

definition zero_pad :: "nat \<Rightarrow> string \<Rightarrow> string" where
  "zero_pad w cs = replicate (w - length cs) (CHR ''0'') @ cs"

definition show_padded :: "nat \<Rightarrow> int \<Rightarrow> string" where
  "show_padded w x =
     (if x < 0 then CHR ''-'' # zero_pad (w - 1) (show_nat (nat (- x))) else zero_pad w (show_nat (nat x)))"

text \<open>
  A \<open>BTreeMap\<close> that the code iterates: its entries in ascending key order.
\<close>

fun bt_insert :: "'k::linorder \<Rightarrow> 'v \<Rightarrow> ('k \<times> 'v) list \<Rightarrow> ('k \<times> 'v) list" where
  "bt_insert k v [] = [(k, v)]"
| "bt_insert k v ((k', v') # xs) =
     (if k < k' then (k, v) # (k', v') # xs
      else if k = k' then (k, v) # xs
      else (k', v') # bt_insert k v xs)"

definition bt_ok :: "('k::linorder \<times> 'v) list \<Rightarrow> bool" where
  "bt_ok xs \<longleftrightarrow> sorted_wrt (<) (map fst xs)"

lemma bt_ok_simps [simp]:
  "bt_ok []" "bt_ok ((k, v) # xs) \<longleftrightarrow> (\<forall>j \<in> fst ` set xs. k < j) \<and> bt_ok xs"
  by (auto simp: bt_ok_def)

lemma fst_set_bt_insert [simp]: "fst ` set (bt_insert k v xs) = insert k (fst ` set xs)"
  by (induction k v xs rule: bt_insert.induct) auto

lemma bt_ok_insert [simp]: "bt_ok xs \<Longrightarrow> bt_ok (bt_insert k v xs)"
  by (induction k v xs rule: bt_insert.induct) auto

lemma bt_ok_filter [simp]: "bt_ok xs \<Longrightarrow> bt_ok (filter P xs)"
  by (induction xs) auto

lemma map_of_bt_insert [simp]: "bt_ok xs \<Longrightarrow> map_of (bt_insert k v xs) = (map_of xs)(k \<mapsto> v)"
proof (induction k v xs rule: bt_insert.induct)
  case (2 k v k' v' xs)
  then show ?case by (auto simp: fun_upd_twist map_of_eq_None_iff)
qed simp

lemma map_of_filter_key: "map_of (filter (\<lambda>(k, v). P k) xs) k = (if P k then map_of xs k else None)"
  by (induction xs) auto

lemma bt_insert_map:
  "bt_insert k (f v) (map (\<lambda>(k, v). (k, f v)) xs) = map (\<lambda>(k, v). (k, f v)) (bt_insert k v xs)"
  by (induction k v xs rule: bt_insert.induct) auto

text \<open>The last entry has the largest key.\<close>

lemma bt_last_max: "bt_ok xs \<Longrightarrow> xs \<noteq> [] \<Longrightarrow> j \<in> fst ` set xs \<Longrightarrow> j \<le> fst (last xs)"
proof (induction xs)
  case Nil
  then show ?case by simp
next
  case (Cons x xs)
  then show ?case by (cases x; cases "xs = []") (auto intro: less_imp_le)
qed

text \<open>Grouping by a key loses nothing: the totals of the groups add up to the total.\<close>

lemma sum_list_none_hot:
  "k \<notin> set rs \<Longrightarrow> sum_list (map (\<lambda>r. if k = r then (v :: 'a :: comm_monoid_add) else 0) rs) = 0"
  by (induction rs) auto

lemma sum_list_one_hot:
  "distinct rs \<Longrightarrow> k \<in> set rs \<Longrightarrow> sum_list (map (\<lambda>r. if k = r then (v :: 'a :: comm_monoid_add) else 0) rs) = v"
  by (induction rs) (auto simp: sum_list_none_hot)

lemma sum_by_group:
  fixes f :: "'a \<Rightarrow> 'b :: comm_monoid_add"
  assumes "distinct rs" and "k ` set xs \<subseteq> set rs"
  shows "sum_list (map (\<lambda>r. sum_list (map f (filter (\<lambda>c. k c = r) xs))) rs) = sum_list (map f xs)"
  using assms(2)
proof (induction xs)
  case Nil
  then show ?case by (simp add: sum_list_0)
next
  case (Cons x xs)
  have "sum_list (map (\<lambda>r. sum_list (map f (filter (\<lambda>c. k c = r) (x # xs)))) rs)
      = sum_list (map (\<lambda>r. (if k x = r then f x else 0) + sum_list (map f (filter (\<lambda>c. k c = r) xs))) rs)"
    by (intro arg_cong [where f = sum_list] map_cong) auto
  also have "\<dots> = sum_list (map (\<lambda>r. if k x = r then f x else 0) rs)
      + sum_list (map (\<lambda>r. sum_list (map f (filter (\<lambda>c. k c = r) xs))) rs)"
    by (rule sum_list_addf)
  also have "sum_list (map (\<lambda>r. if k x = r then f x else 0) rs) = f x"
    using assms(1) Cons.prems by (intro sum_list_one_hot) auto
  finally show ?case using Cons by simp
qed

text \<open>The position of the first element a predicate accepts, as \<open>Iterator::find\<close> scans.\<close>

lemma find_Some_split:
  "List.find P xs = Some x \<Longrightarrow> \<exists>ys zs. xs = ys @ x # zs \<and> P x \<and> (\<forall>y \<in> set ys. \<not> P y)"
proof (induction xs)
  case Nil
  then show ?case by simp
next
  case (Cons a xs)
  show ?case
  proof (cases "P a")
    case True
    with Cons.prems have "a # xs = [] @ x # xs \<and> P x \<and> (\<forall>y \<in> set []. \<not> P y)" by simp
    then show ?thesis by blast
  next
    case False
    with Cons obtain ys zs where "xs = ys @ x # zs" "P x" "\<forall>y \<in> set ys. \<not> P y" by auto
    with False have "a # xs = (a # ys) @ x # zs \<and> P x \<and> (\<forall>y \<in> set (a # ys). \<not> P y)" by simp
    then show ?thesis by blast
  qed
qed

end
