(* ===== verification/Money.thy ===== *)
theory Money
  imports Prelude
begin

text \<open>
  \<open>crates/core/src/money.rs\<close>: money is an \<open>i64\<close> count of microdollars. A value is an \<open>int\<close>
  that \<open>in_i64\<close> holds of; every operation clamps the exact result the way the Rust method does.
  The conversions to and from floating-point dollars are used only when configuration is read
  or a report is printed and are not modelled.
\<close>

type_synonym microusd = int

definition ZERO :: microusd where
  "ZERO = 0"

text \<open>\<open>Microusd::saturating_add\<close>, and the \<open>Add\<close> operator, which clamps the same way.\<close>

definition saturating_add :: "microusd \<Rightarrow> microusd \<Rightarrow> microusd" where
  "saturating_add a b = sat_i64 (a + b)"

definition money_add :: "microusd \<Rightarrow> microusd \<Rightarrow> microusd" where
  "money_add a b = sat_i64 (a + b)"

definition money_sub :: "microusd \<Rightarrow> microusd \<Rightarrow> microusd" where
  "money_sub a b = sat_i64 (a - b)"

definition checked_add :: "microusd \<Rightarrow> microusd \<Rightarrow> microusd option" where
  "checked_add a b = (if in_i64 (a + b) then Some (a + b) else None)"

text \<open>\<open>Microusd::saturating_sub\<close> clamps at zero, not at \<open>i64::MIN\<close>.\<close>

definition saturating_sub :: "microusd \<Rightarrow> microusd \<Rightarrow> microusd" where
  "saturating_sub a b = max 0 (sat_i64 (a - b))"

section \<open>What the operations give\<close>

lemma saturating_add_in [simp]: "in_i64 (saturating_add a b)"
  by (simp add: saturating_add_def)

lemma money_add_in [simp]: "in_i64 (money_add a b)"
  by (simp add: money_add_def)

lemma saturating_sub_nonneg [simp]: "0 \<le> saturating_sub a b"
  by (simp add: saturating_sub_def)

lemma saturating_sub_in [simp]: "in_i64 (saturating_sub a b)"
  by (simp add: saturating_sub_def sat_i64_def in_i64_def machine_bounds)

lemma saturating_add_exact [sat_simps]: "in_i64 (a + b) \<Longrightarrow> saturating_add a b = a + b"
  by (simp add: saturating_add_def sat_simps)

lemma money_add_exact [sat_simps]: "in_i64 (a + b) \<Longrightarrow> money_add a b = a + b"
  by (simp add: money_add_def sat_simps)

lemma saturating_add_nonneg [simp]: "0 \<le> a \<Longrightarrow> 0 \<le> b \<Longrightarrow> 0 \<le> saturating_add a b"
  by (simp add: saturating_add_def)

lemma money_add_nonneg [simp]: "0 \<le> a \<Longrightarrow> 0 \<le> b \<Longrightarrow> 0 \<le> money_add a b"
  by (simp add: money_add_def)

lemma saturating_sub_exact [sat_simps]:
  "0 \<le> b \<Longrightarrow> b \<le> a \<Longrightarrow> in_i64 a \<Longrightarrow> saturating_sub a b = a - b"
  by (simp add: saturating_sub_def sat_i64_def in_i64_def machine_bounds)

lemma saturating_add_mono: "a \<le> c \<Longrightarrow> b \<le> d \<Longrightarrow> saturating_add a b \<le> saturating_add c d"
  by (simp add: saturating_add_def sat_i64_mono)

lemma checked_add_Some_iff:
  "checked_add a b = Some c \<longleftrightarrow> in_i64 (a + b) \<and> c = a + b"
  by (auto simp: checked_add_def)

lemma checked_add_None_iff: "checked_add a b = None \<longleftrightarrow> \<not> in_i64 (a + b)"
  by (simp add: checked_add_def)

text \<open>
  Saturation is one-sided safe: on non-negative amounts an addition that leaves the range lands
  at the ceiling, never below either operand.
\<close>

lemma saturating_add_ge: "0 \<le> b \<Longrightarrow> in_i64 a \<Longrightarrow> a \<le> saturating_add a b"
  by (simp add: saturating_add_def sat_i64_def in_i64_def machine_bounds)

end
