(* ===== verification/Ledger.thy ===== *)
theory Ledger
  imports Money "HOL-Library.List_Lexorder" "HOL-Library.Char_ord"
begin

text \<open>
  \<open>crates/core/src/ledger.rs\<close>: the in-process reserve/settle ledger. The mutex makes every
  operation atomic, so an operation is a function from the state behind the lock (\<open>Inner\<close>,
  here the record \<open>ledger\<close>) to its result and the next state. The \<open>HashMap\<close> of runs is a
  partial function, the \<open>HashSet\<close> of outstanding ids a set, \<open>u64\<close> counters and the \<open>u32\<close>
  step count are natural numbers with their wrap-around written out.
\<close>

section \<open>Data\<close>

record run_snapshot =
  sn_budget :: microusd
  sn_reserved :: microusd
  sn_spent :: microusd
  sn_steps :: nat

definition in_flight :: "run_snapshot \<Rightarrow> microusd" where
  "in_flight s = money_add (sn_spent s) (sn_reserved s)"

definition remaining :: "run_snapshot \<Rightarrow> microusd" where
  "remaining s = saturating_sub (sn_budget s) (in_flight s)"

datatype budget_error =
    UnknownRun string
  | Exceeded (ex_run: string) (ex_budget: microusd) (ex_spent: microusd) (ex_would: microusd)
  | UnknownParent string string
  | ChainTooDeep string string string nat
  | RunClosed string

datatype open_error =
    ParentChanged string string string
  | AdoptedTooLate string string
  | SelfParent string

datatype parent_disposition = Kept | Set_parent | Adopted

record opened =
  op_generation :: nat
  op_parent :: "string option"
  op_parent_disposition :: parent_disposition
  op_reopened :: bool
  op_budget :: microusd
  op_raise_refused :: "microusd option"

datatype budget_basis = Operator | Caller

record chain_link =
  cl_run :: string
  cl_generation :: nat

record reservation =
  rv_id :: nat
  rv_run :: string
  rv_amount :: microusd
  rv_step :: nat
  rv_generation :: nat
  rv_chain :: "chain_link list"

datatype settlement = Applied nat nat | NotOutstanding

record outstanding_entry =
  oe_reservation :: reservation
  oe_tail_parent :: "string option"

record restored =
  rd_restored :: "nat list"
  rd_duplicate :: nat
  rd_invalid :: nat
  rd_links_dropped :: nat
  rd_runs_created :: "(string \<times> nat) list"

record run_info =
  ri_generation :: nat
  ri_parent :: "string option"
  ri_closed :: bool
  ri_admitted_ever :: bool

record run_state =
  rs_budget :: microusd
  rs_reserved :: microusd
  rs_spent :: microusd
  rs_steps :: nat
  rs_parent :: "string option"
  rs_generation :: nat
  rs_admitted_ever :: bool
  rs_closed :: bool

definition MAX_CHAIN_DEPTH :: nat where
  "MAX_CHAIN_DEPTH = 64"

datatype stop =
    StopUnknownParent string
  | StopClosed string
  | StopTooDeep string string

type_synonym run_map = "string \<rightharpoonup> run_state"

record ledger =
  runs :: run_map
  next_generation :: nat
  next_reservation :: nat
  outstanding :: "nat set"

definition new_ledger :: ledger where
  "new_ledger = \<lparr>runs = Map.empty, next_generation = 0, next_reservation = 0, outstanding = {}\<rparr>"

section \<open>The walk and the admission predicate\<close>

definition bump :: "nat \<Rightarrow> nat" where
  "bump c = wrap_succ_u64 c"

text \<open>
  The loop of \<open>walk\<close>: \<open>cur\<close> is the run still to visit and \<open>links\<close> the chain so far. The tests
  are in the source's order: a cycle ends the walk quietly, the depth cap, an unknown run and a
  closed run stop it with a reason. It ends because a link is added each time round and the cap
  bounds them.
\<close>

function walk_from :: "run_map \<Rightarrow> string option \<Rightarrow> chain_link list \<Rightarrow> chain_link list \<times> stop option" where
  "walk_from rm cur links =
     (case cur of
        None \<Rightarrow> (links, None)
      | Some i \<Rightarrow>
          if i \<in> set (map cl_run links) then (links, None)
          else if MAX_CHAIN_DEPTH \<le> length links
          then (links, Some (StopTooDeep (if links = [] then [] else cl_run (last links)) i))
          else case rm i of
              None \<Rightarrow> (links, Some (StopUnknownParent i))
            | Some s \<Rightarrow>
                if rs_closed s then (links, Some (StopClosed i))
                else walk_from rm (rs_parent s)
                       (links @ [\<lparr>cl_run = i, cl_generation = rs_generation s\<rparr>]))"
  by pat_completeness auto
termination
  by (relation "measure (\<lambda>(rm, cur, links). MAX_CHAIN_DEPTH - length links)") auto

declare walk_from.simps [simp del]

definition walk :: "run_map \<Rightarrow> string \<Rightarrow> chain_link list \<times> stop option" where
  "walk rm r = walk_from rm (Some r) []"

fun stop_to_error :: "stop \<Rightarrow> string \<Rightarrow> budget_error" where
  "stop_to_error (StopUnknownParent p) r = UnknownParent r p"
| "stop_to_error (StopClosed i) r = RunClosed i"
| "stop_to_error (StopTooDeep at nxt) r = ChainTooDeep r at nxt MAX_CHAIN_DEPTH"

text \<open>\<open>None\<close> fits; \<open>Some would\<close> does not. A sum outside \<open>i64\<close> fits no budget.\<close>

definition exceeds :: "run_state \<Rightarrow> microusd \<Rightarrow> microusd option" where
  "exceeds s estimate =
     (case Option.bind (checked_add (rs_spent s) (rs_reserved s)) (\<lambda>c. checked_add c estimate) of
        Some would \<Rightarrow> if would \<le> rs_budget s then None else Some would
      | None \<Rightarrow> Some (saturating_add (saturating_add (rs_spent s) (rs_reserved s)) estimate))"

text \<open>
  The check loop of \<open>reserve\<close> and \<open>would_exceed\<close>: the first link that does not fit. Indexing
  \<open>inner.runs\<close> cannot fail here, since the walk only returns links it looked up; the \<open>None\<close>
  branch is that unreachable panic and reports nothing.
\<close>

fun first_exceeded :: "run_map \<Rightarrow> chain_link list \<Rightarrow> microusd \<Rightarrow> budget_error option" where
  "first_exceeded rm [] estimate = None"
| "first_exceeded rm (l # ls) estimate =
     (case rm (cl_run l) of
        None \<Rightarrow> first_exceeded rm ls estimate
      | Some s \<Rightarrow>
          (case exceeds s estimate of
             Some would \<Rightarrow> Some (Exceeded (cl_run l) (rs_budget s) (rs_spent s) would)
           | None \<Rightarrow> first_exceeded rm ls estimate))"

section \<open>Opening a run\<close>

definition fresh_run :: "microusd \<Rightarrow> string option \<Rightarrow> nat \<Rightarrow> bool \<Rightarrow> run_state" where
  "fresh_run budget parent generation admitted =
     \<lparr>rs_budget = budget, rs_reserved = ZERO, rs_spent = ZERO, rs_steps = 0, rs_parent = parent,
      rs_generation = generation, rs_admitted_ever = admitted, rs_closed = False\<rparr>"

text \<open>The \<open>match\<close> over the held and the declared parent of an open run.\<close>

definition parent_decision ::
  "string \<Rightarrow> run_state \<Rightarrow> string option \<Rightarrow> (parent_disposition, open_error) res" where
  "parent_decision run_id s parent =
     (case (rs_parent s, parent) of
        (_, None) \<Rightarrow> Inr Kept
      | (Some h, Some d) \<Rightarrow> if h = d then Inr Kept else Inl (ParentChanged run_id h d)
      | (None, Some d) \<Rightarrow>
          if rs_admitted_ever s then Inl (AdoptedTooLate run_id d) else Inr Adopted)"

definition effective_budget ::
  "budget_basis \<Rightarrow> microusd \<Rightarrow> microusd \<Rightarrow> microusd \<times> microusd option" where
  "effective_budget basis held budget =
     (case basis of
        Operator \<Rightarrow> (budget, None)
      | Caller \<Rightarrow> if budget \<le> held then (budget, None) else (held, Some budget))"

definition open_run_as ::
  "ledger \<Rightarrow> string \<Rightarrow> microusd \<Rightarrow> string option \<Rightarrow> budget_basis
     \<Rightarrow> (opened, open_error) res \<times> ledger" where
  "open_run_as l run_id budget parent basis =
     (if parent = Some run_id then (Inl (SelfParent run_id), l)
      else
        let fresh = (\<lambda>reopened.
              let g = bump (next_generation l) in
              (Inr \<lparr>op_generation = g, op_parent = parent,
                    op_parent_disposition = (if parent \<noteq> None then Set_parent else Kept),
                    op_reopened = reopened, op_budget = budget, op_raise_refused = None\<rparr>,
               l\<lparr>runs := (runs l)(run_id \<mapsto> fresh_run budget parent g False),
                 next_generation := g\<rparr>))
        in case runs l run_id of
             None \<Rightarrow> fresh False
           | Some s \<Rightarrow>
               if rs_closed s then fresh True
               else case parent_decision run_id s parent of
                   Inl e \<Rightarrow> (Inl e, l)
                 | Inr disposition \<Rightarrow>
                     let s1 = (if disposition = Adopted then s\<lparr>rs_parent := parent\<rparr> else s);
                         (effective, refused) = effective_budget basis (rs_budget s1) budget;
                         s2 = s1\<lparr>rs_budget := effective\<rparr>
                     in (Inr \<lparr>op_generation = rs_generation s2, op_parent = rs_parent s2,
                             op_parent_disposition = disposition, op_reopened = False,
                             op_budget = effective, op_raise_refused = refused\<rparr>,
                         l\<lparr>runs := (runs l)(run_id \<mapsto> s2)\<rparr>))"

definition open_run ::
  "ledger \<Rightarrow> string \<Rightarrow> microusd \<Rightarrow> string option \<Rightarrow> (opened, open_error) res \<times> ledger" where
  "open_run l run_id budget parent = open_run_as l run_id budget parent Operator"

section \<open>Reserving\<close>

text \<open>\<open>reserve\<close>'s apply loop: the estimate lands on every link, and the link is marked.\<close>

definition hold_on :: "microusd \<Rightarrow> run_state \<Rightarrow> run_state" where
  "hold_on estimate s =
     s\<lparr>rs_reserved := saturating_add (rs_reserved s) estimate, rs_admitted_ever := True\<rparr>"

fun hold_all :: "microusd \<Rightarrow> chain_link list \<Rightarrow> run_map \<Rightarrow> run_map" where
  "hold_all estimate [] rm = rm"
| "hold_all estimate (l # ls) rm =
     hold_all estimate ls
       (case rm (cl_run l) of None \<Rightarrow> rm | Some s \<Rightarrow> rm(cl_run l \<mapsto> hold_on estimate s))"

text \<open>
  What follows the apply loop in \<open>reserve\<close> and \<open>reserve_unchecked\<close>: the leaf's step, a new id,
  and the reservation. Its caller passes the leaf's state.
\<close>

definition grant ::
  "ledger \<Rightarrow> string \<Rightarrow> run_state \<Rightarrow> microusd \<Rightarrow> nat \<Rightarrow> chain_link list \<Rightarrow> reservation \<times> ledger" where
  "grant l run_id leaf estimate generation links =
     (let step = wrap_succ_u32 (rs_steps leaf);
          i = bump (next_reservation l)
      in (\<lparr>rv_id = i, rv_run = run_id, rv_amount = estimate, rv_step = step,
           rv_generation = generation, rv_chain = links\<rparr>,
          l\<lparr>runs := (runs l)(run_id \<mapsto> leaf\<lparr>rs_steps := step\<rparr>),
            next_reservation := i, outstanding := insert i (outstanding l)\<rparr>))"

text \<open>
  \<open>links[0]\<close> and the leaf's entry exist whenever the walk did not stop, so the source's
  \<open>expect("leaf")\<close> cannot fail; the model's \<open>None\<close> branch keeps the state and refuses.
\<close>

definition reserve ::
  "ledger \<Rightarrow> string \<Rightarrow> microusd \<Rightarrow> (reservation, budget_error) res \<times> ledger" where
  "reserve l run_id estimate =
     (case runs l run_id of
        None \<Rightarrow> (Inl (UnknownRun run_id), l)
      | Some _ \<Rightarrow>
          (case walk (runs l) run_id of
             (links, Some st) \<Rightarrow> (Inl (stop_to_error st run_id), l)
           | (links, None) \<Rightarrow>
               (case first_exceeded (runs l) links estimate of
                  Some e \<Rightarrow> (Inl e, l)
                | None \<Rightarrow>
                    let l1 = l\<lparr>runs := hold_all estimate links (runs l)\<rparr> in
                    (case (links, runs l1 run_id) of
                       (lk # _, Some leaf) \<Rightarrow>
                         let (r, l2) = grant l1 run_id leaf estimate (cl_generation lk) links
                         in (Inr r, l2)
                     | _ \<Rightarrow> (Inl (UnknownRun run_id), l)))))"

definition would_exceed :: "ledger \<Rightarrow> string \<Rightarrow> microusd \<Rightarrow> budget_error option" where
  "would_exceed l run_id estimate =
     (case runs l run_id of
        None \<Rightarrow> None
      | Some _ \<Rightarrow>
          (case walk (runs l) run_id of
             (links, Some st) \<Rightarrow> Some (stop_to_error st run_id)
           | (links, None) \<Rightarrow> first_exceeded (runs l) links estimate))"

definition reserve_unchecked :: "ledger \<Rightarrow> string \<Rightarrow> microusd \<Rightarrow> reservation \<times> ledger" where
  "reserve_unchecked l run_id estimate =
     (let needs_fresh = (case runs l run_id of None \<Rightarrow> True | Some s \<Rightarrow> rs_closed s);
          l1 = (if needs_fresh
                then let g = bump (next_generation l)
                     in l\<lparr>runs := (runs l)(run_id \<mapsto> fresh_run ZERO None g False),
                          next_generation := g\<rparr>
                else l);
          links = fst (walk (runs l1) run_id);
          l2 = l1\<lparr>runs := hold_all estimate links (runs l1)\<rparr>;
          leaf = (case runs l2 run_id of Some s \<Rightarrow> s | None \<Rightarrow> fresh_run ZERO None 0 False)
      in grant l2 run_id leaf estimate (rs_generation leaf) links)"

section \<open>Settling, seeding, closing\<close>

definition charge :: "microusd \<Rightarrow> microusd \<Rightarrow> run_state \<Rightarrow> run_state" where
  "charge amount actual s =
     s\<lparr>rs_reserved := saturating_sub (rs_reserved s) amount,
       rs_spent := saturating_add (rs_spent s) actual\<rparr>"

fun settle_links ::
  "microusd \<Rightarrow> microusd \<Rightarrow> chain_link list \<Rightarrow> run_map \<Rightarrow> nat \<Rightarrow> nat \<Rightarrow> run_map \<times> nat \<times> nat" where
  "settle_links amount actual [] rm links dropped = (rm, links, dropped)"
| "settle_links amount actual (l # ls) rm links dropped =
     (case rm (cl_run l) of
        Some s \<Rightarrow>
          if rs_generation s = cl_generation l
          then settle_links amount actual ls (rm(cl_run l \<mapsto> charge amount actual s)) (Suc links) dropped
          else settle_links amount actual ls rm links (Suc dropped)
      | None \<Rightarrow> settle_links amount actual ls rm links (Suc dropped))"

definition settle :: "ledger \<Rightarrow> reservation \<Rightarrow> microusd \<Rightarrow> settlement \<times> ledger" where
  "settle l r actual =
     (if rv_id r \<notin> outstanding l then (NotOutstanding, l)
      else let (rm, links, dropped) = settle_links (rv_amount r) actual (rv_chain r) (runs l) 0 0
           in (Applied links dropped,
               l\<lparr>runs := rm, outstanding := outstanding l - {rv_id r}\<rparr>))"

definition seed_spend :: "ledger \<Rightarrow> string \<Rightarrow> microusd \<Rightarrow> nat \<Rightarrow> bool \<times> ledger" where
  "seed_spend l run_id amount generation =
     (if amount < ZERO then (False, l)
      else case runs l run_id of
          None \<Rightarrow> (False, l)
        | Some s \<Rightarrow>
            if rs_closed s \<or> rs_generation s \<noteq> generation then (False, l)
            else (True, l\<lparr>runs := (runs l)(run_id \<mapsto>
                            s\<lparr>rs_spent := sat_i64 (rs_spent s + amount)\<rparr>)\<rparr>))"

definition snapshot_of :: "run_state \<Rightarrow> run_snapshot" where
  "snapshot_of s =
     \<lparr>sn_budget = rs_budget s, sn_reserved = rs_reserved s, sn_spent = rs_spent s,
      sn_steps = rs_steps s\<rparr>"

definition snapshot :: "ledger \<Rightarrow> string \<Rightarrow> run_snapshot option" where
  "snapshot l run_id = map_option snapshot_of (runs l run_id)"

text \<open>\<open>list_runs\<close> returns the pairs of this map, in an order the \<open>HashMap\<close> leaves open.\<close>

definition list_runs :: "ledger \<Rightarrow> string \<rightharpoonup> run_snapshot" where
  "list_runs l = (\<lambda>i. map_option snapshot_of (runs l i))"

definition close_run :: "ledger \<Rightarrow> string \<Rightarrow> run_snapshot option \<times> ledger" where
  "close_run l run_id =
     (case runs l run_id of
        None \<Rightarrow> (None, l)
      | Some s \<Rightarrow>
          (Some (snapshot_of s), l\<lparr>runs := (runs l)(run_id \<mapsto> s\<lparr>rs_closed := True\<rparr>)\<rparr>))"

definition run_info_of :: "ledger \<Rightarrow> string \<Rightarrow> run_info option" where
  "run_info_of l run_id =
     map_option (\<lambda>s. \<lparr>ri_generation = rs_generation s, ri_parent = rs_parent s,
                      ri_closed = rs_closed s, ri_admitted_ever = rs_admitted_ever s\<rparr>)
       (runs l run_id)"

definition tail_parent :: "ledger \<Rightarrow> reservation \<Rightarrow> string option" where
  "tail_parent l r =
     (if rv_chain r = [] then None
      else let lk = last (rv_chain r) in
           case runs l (cl_run lk) of
             None \<Rightarrow> None
           | Some s \<Rightarrow> if rs_generation s = cl_generation lk then rs_parent s else None)"

section \<open>Restoring after a restart\<close>

definition well_formed_entry :: "outstanding_entry \<Rightarrow> bool" where
  "well_formed_entry e =
     (let r = oe_reservation e in
      rv_id r \<noteq> 0 \<and> rv_generation r \<noteq> 0 \<and> ZERO \<le> rv_amount r
      \<and> (case rv_chain r of
           [] \<Rightarrow> False
         | l # _ \<Rightarrow> cl_run l = rv_run r \<and> cl_generation l = rv_generation r)
      \<and> list_all (\<lambda>l. cl_generation l \<noteq> 0) (rv_chain r))"

text \<open>The first loop: invalid and duplicate entries are counted, the rest kept in order.\<close>

fun restore_select ::
  "nat set \<Rightarrow> nat set \<Rightarrow> outstanding_entry list \<Rightarrow> nat \<times> nat \<times> outstanding_entry list" where
  "restore_select held seen [] = (0, 0, [])"
| "restore_select held seen (e # es) =
     (if \<not> well_formed_entry e
      then let (i, d, v) = restore_select held seen es in (Suc i, d, v)
      else if rv_id (oe_reservation e) \<in> held \<or> rv_id (oe_reservation e) \<in> seen
      then let (i, d, v) = restore_select held seen es in (i, Suc d, v)
      else let (i, d, v) = restore_select held (insert (rv_id (oe_reservation e)) seen) es
           in (i, d, e # v))"

definition all_links :: "outstanding_entry list \<Rightarrow> chain_link list" where
  "all_links es = concat (map (\<lambda>e. rv_chain (oe_reservation e)) es)"

definition generation_of :: "chain_link list \<Rightarrow> string \<rightharpoonup> nat" where
  "generation_of links =
     fold (\<lambda>l g. g(cl_run l \<mapsto>
             max (case g (cl_run l) of None \<Rightarrow> 0 | Some n \<Rightarrow> n) (cl_generation l)))
       links Map.empty"

definition link_names :: "chain_link list \<Rightarrow> string list" where
  "link_names links = sort (remdups (map cl_run links))"

fun create_runs ::
  "(string \<rightharpoonup> nat) \<Rightarrow> string list \<Rightarrow> run_map \<Rightarrow> run_map \<times> (string \<times> nat) list" where
  "create_runs gen [] rm = (rm, [])"
| "create_runs gen (i # is) rm =
     (if rm i \<noteq> None then create_runs gen is rm
      else let g = (case gen i of None \<Rightarrow> 0 | Some n \<Rightarrow> n);
               (rm', cs) = create_runs gen is (rm(i \<mapsto> fresh_run ZERO None g True))
           in (rm', (i, g) # cs))"

text \<open>One link put back: the liability, the parent if none is known yet, the leaf's step.\<close>

definition restore_one ::
  "reservation \<Rightarrow> string option \<Rightarrow> bool \<Rightarrow> string \<Rightarrow> run_state \<Rightarrow> run_state" where
  "restore_one r parent first run_id s =
     (let s1 = s\<lparr>rs_reserved := saturating_add (rs_reserved s) (rv_amount r)\<rparr>;
          s2 = (if rs_parent s1 = None
                then s1\<lparr>rs_parent := (if parent = Some run_id then None else parent)\<rparr> else s1)
      in if first then s2\<lparr>rs_steps := max (rs_steps s2) (rv_step r)\<rparr> else s2)"

fun restore_links ::
  "string set \<Rightarrow> reservation \<Rightarrow> string option \<Rightarrow> bool \<Rightarrow> chain_link list \<Rightarrow> run_map \<Rightarrow> run_map \<times> nat" where
  "restore_links created r tail first [] rm = (rm, 0)"
| "restore_links created r tail first (l # ls) rm =
     (case (if cl_run l \<in> created then rm (cl_run l) else None) of
        Some s \<Rightarrow>
          if rs_generation s = cl_generation l
          then let parent = (case ls of nxt # _ \<Rightarrow> Some (cl_run nxt) | [] \<Rightarrow> tail)
               in restore_links created r tail False ls
                    (rm(cl_run l \<mapsto> restore_one r parent first (cl_run l) s))
          else let (rm', d) = restore_links created r tail False ls rm in (rm', Suc d)
      | None \<Rightarrow> let (rm', d) = restore_links created r tail False ls rm in (rm', Suc d))"

fun restore_entries ::
  "string set \<Rightarrow> outstanding_entry list \<Rightarrow> ledger \<Rightarrow> ledger \<times> nat" where
  "restore_entries created [] l = (l, 0)"
| "restore_entries created (e # es) l =
     (let r = oe_reservation e;
          (rm, d) = restore_links created r (oe_tail_parent e) True (rv_chain r) (runs l);
          (l', d') = restore_entries created es
             (l\<lparr>runs := rm, outstanding := insert (rv_id r) (outstanding l),
               next_reservation := max (next_reservation l) (rv_id r)\<rparr>)
      in (l', d + d'))"

definition restore_outstanding :: "ledger \<Rightarrow> outstanding_entry list \<Rightarrow> restored \<times> ledger" where
  "restore_outstanding l entries =
     (let (invalid, duplicate, valid) = restore_select (outstanding l) {} entries;
          links = all_links valid;
          gen = generation_of links;
          (rm, created) = create_runs gen (link_names links) (runs l);
          (l', dropped) = restore_entries (set (map fst created)) valid (l\<lparr>runs := rm\<rparr>);
          top = fold max (map cl_generation links) 0
      in (\<lparr>rd_restored = map (\<lambda>e. rv_id (oe_reservation e)) valid, rd_duplicate = duplicate,
           rd_invalid = invalid, rd_links_dropped = dropped, rd_runs_created = created\<rparr>,
          l'\<lparr>next_generation := max (next_generation l') top\<rparr>))"

end
