(* ===== verification/Interfaces.thy ===== *)
theory Interfaces
  imports Prelude
begin

text \<open>
  The contracts more than one component relies on. \<open>parent_chain\<close> is what a budget ledger needs
  of the walk up a run tree, and \<open>admission_control\<close> what the gateway needs of anything it
  reserves against. Each is stated once, its consequences are proved once, and it is
  interpreted on every implementation in the code: the in-process ledger, the replicated state
  machine and the per-unit monthly ledger.
\<close>

section \<open>The chain of budgets a call is admitted against\<close>

text \<open>
  \<open>parent_of s k\<close> is \<open>None\<close> where the walk may not enter \<open>k\<close>, and otherwise the parent \<open>k\<close> names.
\<close>

locale parent_chain =
  fixes parent_of :: "'s \<Rightarrow> 'k \<Rightarrow> 'k option option"
    and chain :: "'s \<Rightarrow> 'k \<Rightarrow> 'k list"
    and cap :: nat
  assumes chain_distinct: "distinct (chain s k)"
    and chain_capped: "length (chain s k) \<le> cap"
    and chain_head: "parent_of s k \<noteq> None \<Longrightarrow> \<exists>ks. chain s k = k # ks"
    and chain_enters: "i \<in> set (chain s k) \<Longrightarrow> parent_of s i \<noteq> None"
    and chain_linked:
      "Suc n < length (chain s k) \<Longrightarrow>
         parent_of s (chain s k ! n) = Some (Some (chain s k ! Suc n))"
begin

lemma chain_nth_ancestor:
  "n < length (chain s k) \<Longrightarrow>
     (\<lambda>i j. parent_of s i = Some (Some j))\<^sup>*\<^sup>* (chain s k ! 0) (chain s k ! n)"
proof (induction n)
  case 0
  show ?case by simp
next
  case (Suc n)
  then have "parent_of s (chain s k ! n) = Some (Some (chain s k ! Suc n))"
    by (intro chain_linked)
  with Suc show ?case by (auto intro: rtranclp.rtrancl_into_rtrancl)
qed

text \<open>Every run on the chain is the leaf or one of its ancestors.\<close>

lemma chain_ancestors:
  assumes "parent_of s k \<noteq> None" and "i \<in> set (chain s k)"
  shows "(\<lambda>i j. parent_of s i = Some (Some j))\<^sup>*\<^sup>* k i"
proof -
  from chain_head [OF assms(1)] have "chain s k ! 0 = k" by auto
  moreover from assms(2) obtain n where "n < length (chain s k)" "chain s k ! n = i"
    by (auto simp: in_set_conv_nth)
  ultimately show ?thesis using chain_nth_ancestor by metis
qed

end

section \<open>Admission\<close>

text \<open>
  A sequence of requests in the order they take the lock (or reach the log): a refused one
  changes nothing, an admitted one moves the state on. The result is the last state and the
  requests that were admitted.
\<close>

fun admit_all ::
  "('s \<Rightarrow> 'k \<Rightarrow> int \<Rightarrow> 's option) \<Rightarrow> 's \<Rightarrow> ('k \<times> int) list \<Rightarrow> 's \<times> ('k \<times> int) list" where
  "admit_all admit s [] = (s, [])"
| "admit_all admit s ((k, e) # xs) =
     (case admit s k e of
        None \<Rightarrow> admit_all admit s xs
      | Some s' \<Rightarrow> let (t, ys) = admit_all admit s' xs in (t, (k, e) # ys))"

locale admission_control =
  fixes admit :: "'s \<Rightarrow> 'k \<Rightarrow> int \<Rightarrow> 's option"
    and covers :: "'s \<Rightarrow> 'k \<Rightarrow> 'k set"
    and headroom :: "'s \<Rightarrow> 'k \<Rightarrow> int"
    and valid :: "'s \<Rightarrow> bool"
  assumes valid_admit: "valid s \<Longrightarrow> 0 \<le> e \<Longrightarrow> admit s k e = Some s' \<Longrightarrow> valid s'"
    and self_covered: "valid s \<Longrightarrow> admit s k e = Some s' \<Longrightarrow> k \<in> covers s k"
    and room_taken:
      "valid s \<Longrightarrow> 0 \<le> e \<Longrightarrow> admit s k e = Some s' \<Longrightarrow> i \<in> covers s k \<Longrightarrow>
         headroom s' i = headroom s i - e \<and> 0 \<le> headroom s' i"
    and room_kept:
      "valid s \<Longrightarrow> 0 \<le> e \<Longrightarrow> admit s k e = Some s' \<Longrightarrow> i \<notin> covers s k \<Longrightarrow>
         headroom s' i = headroom s i"
    and covers_kept: "valid s \<Longrightarrow> admit s k e = Some s' \<Longrightarrow> covers s' = covers s"
begin

text \<open>Whatever the order, headroom is spent exactly by what was admitted below a run.\<close>

lemma admit_all_headroom:
  "valid s \<Longrightarrow> list_all (\<lambda>(k, e). 0 \<le> e) xs \<Longrightarrow> admit_all admit s xs = (t, ys) \<Longrightarrow>
     headroom t i = headroom s i - sum_where (\<lambda>(k, e). i \<in> covers s k) snd ys"
proof (induction xs arbitrary: s ys)
  case Nil
  then show ?case by simp
next
  case (Cons x xs)
  obtain k e where x: "x = (k, e)" by force
  show ?case
  proof (cases "admit s k e")
    case None
    with Cons x show ?thesis by simp
  next
    case (Some s')
    with Cons.prems x obtain zs where zs: "admit_all admit s' xs = (t, zs)" "ys = (k, e) # zs"
      by (auto split: prod.splits)
    have e: "0 \<le> e" using Cons.prems(2) x by simp
    have "headroom t i = headroom s' i - sum_where (\<lambda>(k, e). i \<in> covers s' k) snd zs"
      using Cons.IH [OF valid_admit [OF Cons.prems(1) e Some]] Cons.prems(2) zs(1) by simp
    moreover have "covers s' = covers s" using Cons.prems(1) Some by (rule covers_kept)
    ultimately show ?thesis
      using room_taken [OF Cons.prems(1) e Some, of i] room_kept [OF Cons.prems(1) e Some, of i] zs(2)
      by auto
  qed
qed

lemma admit_all_room:
  "valid s \<Longrightarrow> list_all (\<lambda>(k, e). 0 \<le> e) xs \<Longrightarrow> admit_all admit s xs = (t, ys) \<Longrightarrow>
     0 \<le> headroom s i \<Longrightarrow> 0 \<le> headroom t i"
proof (induction xs arbitrary: s ys)
  case Nil
  then show ?case by simp
next
  case (Cons x xs)
  obtain k e where x: "x = (k, e)" by force
  show ?case
  proof (cases "admit s k e")
    case None
    with Cons x show ?thesis by simp
  next
    case (Some s')
    with Cons.prems x obtain zs where zs: "admit_all admit s' xs = (t, zs)"
      by (auto split: prod.splits)
    have e: "0 \<le> e" using Cons.prems(2) x by simp
    have "0 \<le> headroom s' i"
      using room_taken [OF Cons.prems(1) e Some, of i] room_kept [OF Cons.prems(1) e Some, of i] Cons.prems(4)
      by (cases "i \<in> covers s k") auto
    then show ?thesis
      using Cons.IH [OF valid_admit [OF Cons.prems(1) e Some] _ zs] Cons.prems(2) by simp
  qed
qed

text \<open>
  No oversubscription: in whatever order racing requests are decided, what is admitted below a
  run adds up to no more than the room the run had.
\<close>

lemma no_oversubscription:
  assumes "valid s" and "list_all (\<lambda>(k, e). 0 \<le> e) xs" and "admit_all admit s xs = (t, ys)"
    and "0 \<le> headroom s i"
  shows "sum_where (\<lambda>(k, e). i \<in> covers s k) snd ys \<le> headroom s i"
  using admit_all_headroom [OF assms(1-3), of i] admit_all_room [OF assms] by simp

end

section \<open>Prices\<close>

text \<open>
  What a chooser needs of whoever prices a call: for a book \<open>b\<close>, each model has at most one cost and
  it is not negative. \<open>min_by_cost\<close> is \<open>Iterator::min_by_key\<close>: the first of the cheapest.
\<close>

fun min_by_cost :: "('m \<times> int) list \<Rightarrow> ('m \<times> int) option" where
  "min_by_cost [] = None"
| "min_by_cost (x # xs) =
     (case min_by_cost xs of None \<Rightarrow> Some x | Some y \<Rightarrow> if snd y < snd x then Some y else Some x)"

fun priced :: "('m \<Rightarrow> int option) \<Rightarrow> 'm list \<Rightarrow> ('m \<times> int) list" where
  "priced cost [] = []"
| "priced cost (m # ms) =
     (case cost m of None \<Rightarrow> priced cost ms | Some c \<Rightarrow> (m, c) # priced cost ms)"

lemma min_by_cost_None [simp]: "min_by_cost xs = None \<longleftrightarrow> xs = []"
  by (cases xs) (auto split: option.splits)

lemma min_by_cost_Some:
  "min_by_cost xs = Some x \<Longrightarrow> x \<in> set xs \<and> (\<forall>y \<in> set xs. snd x \<le> snd y)"
  by (induction xs arbitrary: x) (fastforce split: option.splits if_splits)+

lemma set_priced: "(m, c) \<in> set (priced cost ms) \<longleftrightarrow> m \<in> set ms \<and> cost m = Some c"
  by (induction ms) (auto split: option.splits)

locale price_oracle =
  fixes cost_in :: "'b \<Rightarrow> 'm \<Rightarrow> int option"
  assumes cost_nonneg: "cost_in b m = Some c \<Longrightarrow> 0 \<le> c"
begin

text \<open>A choice strictly below a known cost saves between one and that whole cost.\<close>

lemma choice_saves:
  assumes "min_by_cost (filter (\<lambda>(m, c). c < limit) (priced (cost_in b) ms)) = Some (m, c)"
  shows "m \<in> set ms" and "cost_in b m = Some c" and "0 < limit - c" and "limit - c \<le> limit"
    and "m' \<in> set ms \<Longrightarrow> cost_in b m' = Some c' \<Longrightarrow> c \<le> c'"
proof -
  from min_by_cost_Some [OF assms] have mem: "(m, c) \<in> set (priced (cost_in b) ms)" "c < limit"
    and least: "\<And>y. y \<in> set (priced (cost_in b) ms) \<Longrightarrow> snd y < limit \<Longrightarrow> c \<le> snd y" by auto
  show "m \<in> set ms" and c: "cost_in b m = Some c" using mem by (simp_all add: set_priced)
  show "0 < limit - c" "limit - c \<le> limit" using mem(2) cost_nonneg [OF c] by simp_all
  show "m' \<in> set ms \<Longrightarrow> cost_in b m' = Some c' \<Longrightarrow> c \<le> c'"
    using least [of "(m', c')"] mem(2) by (cases "c' < limit") (auto simp: set_priced)
qed

lemma no_choice:
  assumes "min_by_cost (filter (\<lambda>(m, c). c < limit) (priced (cost_in b) ms)) = None"
    and "m \<in> set ms" and "cost_in b m = Some c"
  shows "limit \<le> c"
proof -
  have "(m, c) \<in> set (priced (cost_in b) ms)" using assms(2,3) by (simp add: set_priced)
  with assms(1) show ?thesis by (fastforce simp: filter_empty_conv)
qed

lemma choice_least:
  assumes "min_by_cost (priced (cost_in b) ms) = Some (m, c)"
  shows "m \<in> set ms" and "cost_in b m = Some c"
    and "m' \<in> set ms \<Longrightarrow> cost_in b m' = Some c' \<Longrightarrow> c \<le> c'"
  using min_by_cost_Some [OF assms] set_priced [of _ _ "cost_in b" ms] by fastforce+

end

end
