(* ===== verification/Ledger_Chain.thy ===== *)
theory Ledger_Chain
  imports Ledger Interfaces
begin

text \<open>
  The walk up a run tree (\<open>walk\<close> in \<open>crates/core/src/ledger.rs\<close>): which runs the chain holds,
  when it is complete, what it depends on, and what the apply and settle loops do to the runs
  of a chain.
\<close>

section \<open>Well-formed chains\<close>

definition chain_ok :: "run_map \<Rightarrow> chain_link list \<Rightarrow> bool" where
  "chain_ok rm links \<longleftrightarrow>
     distinct (map cl_run links) \<and> length links \<le> MAX_CHAIN_DEPTH
     \<and> (\<forall>l \<in> set links. \<exists>s. rm (cl_run l) = Some s \<and> \<not> rs_closed s \<and> rs_generation s = cl_generation l)
     \<and> (\<forall>n. Suc n < length links \<longrightarrow>
            map_option rs_parent (rm (cl_run (links ! n))) = Some (Some (cl_run (links ! Suc n))))"

lemma chain_ok_Nil [simp]: "chain_ok rm []"
  by (simp add: chain_ok_def)

lemma chain_ok_snoc:
  assumes "chain_ok rm links" and "rm i = Some s" and "\<not> rs_closed s"
    and "i \<notin> set (map cl_run links)" and "length links < MAX_CHAIN_DEPTH"
    and "links \<noteq> [] \<Longrightarrow> map_option rs_parent (rm (cl_run (last links))) = Some (Some i)"
  shows "chain_ok rm (links @ [\<lparr>cl_run = i, cl_generation = rs_generation s\<rparr>])"
proof -
  have "map_option rs_parent (rm (cl_run ((links @ [x]) ! n))) = Some (Some (cl_run ((links @ [x]) ! Suc n)))"
    if "Suc n < length (links @ [x])" and x: "cl_run x = i" for n x
  proof (cases "Suc n < length links")
    case True
    with assms(1) show ?thesis by (simp add: chain_ok_def nth_append)
  next
    case False
    with that have n: "Suc n = length links" by simp
    then have ne: "links \<noteq> []" by auto
    have "links ! n = last links" using n ne by (simp add: last_conv_nth flip: n)
    note ne this
    with assms(6) n x show ?thesis by (simp add: nth_append flip: n)
  qed
  with assms show ?thesis by (auto simp: chain_ok_def)
qed

text \<open>
  One pass over the loop: the chain stays well-formed and only grows; where it ends without a
  reason, the run after the last link is none or already on the chain.
\<close>

lemma walk_from_ok:
  "walk_from rm cur links = (ls, st) \<Longrightarrow> chain_ok rm links \<Longrightarrow>
   (links \<noteq> [] \<Longrightarrow> map_option rs_parent (rm (cl_run (last links))) = Some cur) \<Longrightarrow>
   chain_ok rm ls \<and> (\<exists>suf. ls = links @ suf)
   \<and> (st = None \<longrightarrow> ls \<noteq> [] \<longrightarrow>
        (\<exists>p. map_option rs_parent (rm (cl_run (last ls))) = Some p
            \<and> (\<forall>q. p = Some q \<longrightarrow> q \<in> set (map cl_run ls))))"
proof (induction rm cur links rule: walk_from.induct)
  case (1 rm cur links)
  show ?case
  proof (cases cur)
    case None
    with 1 show ?thesis by (auto simp: walk_from.simps [of rm None links])
  next
    case (Some i)
    show ?thesis
    proof (cases "i \<in> set (map cl_run links) \<or> MAX_CHAIN_DEPTH \<le> length links \<or> rm i = None
                  \<or> rs_closed (the (rm i))")
      case True
      with 1 Some show ?thesis
        by (auto simp: walk_from.simps [of rm "Some i" links] split: if_splits option.splits)
    next
      case False
      then obtain s where s: "rm i = Some s" "\<not> rs_closed s" "i \<notin> set (map cl_run links)"
        "\<not> MAX_CHAIN_DEPTH \<le> length links" by auto
      let ?l = "\<lparr>cl_run = i, cl_generation = rs_generation s\<rparr>"
      have step: "walk_from rm (rs_parent s) (links @ [?l]) = (ls, st)"
        using "1.prems"(1) Some s by (simp add: walk_from.simps [of rm "Some i" links])
      have "chain_ok rm (links @ [?l])"
        using chain_ok_snoc [OF "1.prems"(2) s(1,2,3)] s(4) "1.prems"(3) Some by simp
      then have "chain_ok rm ls \<and> (\<exists>suf. ls = (links @ [?l]) @ suf)
        \<and> (st = None \<longrightarrow> ls \<noteq> [] \<longrightarrow>
             (\<exists>p. map_option rs_parent (rm (cl_run (last ls))) = Some p
                 \<and> (\<forall>q. p = Some q \<longrightarrow> q \<in> set (map cl_run ls))))"
        using "1.IH" [OF Some s(3,4,1,2) step] s(1) by simp
      then show ?thesis by auto
    qed
  qed
qed

lemma walk_ok: "walk rm r = (ls, st) \<Longrightarrow> chain_ok rm ls"
  unfolding walk_def by (drule walk_from_ok) auto

text \<open>The leaf is the first link, whenever the walk may enter it.\<close>

lemma walk_head:
  assumes "rm r = Some s" and "\<not> rs_closed s" and "walk rm r = (ls, st)"
  shows "\<exists>suf. ls = \<lparr>cl_run = r, cl_generation = rs_generation s\<rparr> # suf"
proof -
  let ?l = "\<lparr>cl_run = r, cl_generation = rs_generation s\<rparr>"
  have ok: "chain_ok rm [?l]"
    using assms(1,2) by (simp add: chain_ok_def MAX_CHAIN_DEPTH_def)
  have "walk_from rm (rs_parent s) [?l] = (ls, st)"
    using assms by (simp add: walk_def walk_from.simps [of rm "Some r" "[]"] MAX_CHAIN_DEPTH_def)
  from walk_from_ok [OF this ok] assms(1) show ?thesis by auto
qed

lemma walk_Nil: "walk rm r = ([], st) \<Longrightarrow> rm r = None \<or> (\<exists>s. rm r = Some s \<and> rs_closed s)"
  using walk_head [of rm r _ "[]" st] by (cases "rm r") auto

lemma walk_no_stop_open:
  assumes "walk rm r = (ls, None)"
  shows "\<exists>s suf. rm r = Some s \<and> \<not> rs_closed s \<and> ls = \<lparr>cl_run = r, cl_generation = rs_generation s\<rparr> # suf"
proof (cases "rm r")
  case None
  with assms show ?thesis
    by (simp add: walk_def walk_from.simps [of rm "Some r" "[]"] MAX_CHAIN_DEPTH_def)
next
  case (Some s)
  show ?thesis
  proof (cases "rs_closed s")
    case True
    with Some assms show ?thesis
      by (simp add: walk_def walk_from.simps [of rm "Some r" "[]"] MAX_CHAIN_DEPTH_def)
  next
    case False
    with walk_head [OF Some False assms] Some show ?thesis by auto
  qed
qed

text \<open>A walk that did not stop early is complete: it is closed under "parent of".\<close>

lemma walk_complete:
  assumes "walk rm r = (ls, None)" and "l \<in> set ls"
    and "map_option rs_parent (rm (cl_run l)) = Some (Some p)"
  shows "p \<in> set (map cl_run ls)"
proof -
  obtain n where n: "n < length ls" "ls ! n = l" using assms(2) by (auto simp: in_set_conv_nth)
  show ?thesis
  proof (cases "Suc n < length ls")
    case True
    with walk_ok [OF assms(1)] n assms(3) have "p = cl_run (ls ! Suc n)"
      by (auto simp: chain_ok_def)
    with True show ?thesis by simp
  next
    case False
    then have len: "length ls = Suc n" using n by simp
    then have ne: "ls \<noteq> []" by auto
    have l: "last ls = l" using n len ne by (simp add: last_conv_nth)
    have w: "walk_from rm (Some r) [] = (ls, None)" using assms(1) by (simp add: walk_def)
    show ?thesis using walk_from_ok [OF w chain_ok_Nil] ne assms(3) by (simp add: l)
  qed
qed

section \<open>What the walk depends on\<close>

definition same_shape :: "run_state option \<Rightarrow> run_state option \<Rightarrow> bool" where
  "same_shape a b \<longleftrightarrow>
     map_option (\<lambda>s. (rs_parent s, rs_closed s, rs_generation s)) a
     = map_option (\<lambda>s. (rs_parent s, rs_closed s, rs_generation s)) b"

lemma same_shape_cases:
  "same_shape a b \<Longrightarrow>
     (a = None \<and> b = None)
     \<or> (\<exists>s t. a = Some s \<and> b = Some t \<and> rs_parent s = rs_parent t \<and> rs_closed s = rs_closed t
              \<and> rs_generation s = rs_generation t)"
  by (cases a; cases b) (auto simp: same_shape_def)

lemma walk_from_same_shape:
  "(\<And>i. same_shape (rm i) (rm' i)) \<Longrightarrow> walk_from rm' cur links = walk_from rm cur links"
proof (induction rm cur links rule: walk_from.induct)
  case (1 rm cur links)
  show ?case
  proof (cases cur)
    case None
    then show ?thesis by (simp add: walk_from.simps [of _ None links])
  next
    case (Some i)
    from same_shape_cases [OF "1.prems" [of i]] show ?thesis
    proof (elim disjE conjE exE)
      assume "rm i = None" "rm' i = None"
      with Some show ?thesis by (simp add: walk_from.simps [of _ "Some i" links])
    next
      fix s t
      assume st: "rm i = Some s" "rm' i = Some t" "rs_parent s = rs_parent t"
        "rs_closed s = rs_closed t" "rs_generation s = rs_generation t"
      show ?thesis
      proof (cases "i \<in> set (map cl_run links) \<or> MAX_CHAIN_DEPTH \<le> length links \<or> rs_closed s")
        case True
        with Some st show ?thesis by (auto simp: walk_from.simps [of _ "Some i" links])
      next
        case False
        then have "i \<notin> set (map cl_run links)" "\<not> MAX_CHAIN_DEPTH \<le> length links" "\<not> rs_closed s"
          by auto
        with Some st "1.IH" [OF Some this(1,2) st(1) this(3) "1.prems"] show ?thesis
          by (simp add: walk_from.simps [of _ "Some i" links])
      qed
    qed
  qed
qed

lemma walk_same_shape: "(\<And>i. same_shape (rm i) (rm' i)) \<Longrightarrow> walk rm' r = walk rm r"
  by (simp add: walk_def walk_from_same_shape)

section \<open>The apply and settle loops over a chain\<close>

lemma hold_all_apply:
  "distinct (map cl_run links) \<Longrightarrow>
     hold_all e links rm i =
       (if i \<in> set (map cl_run links) then map_option (hold_on e) (rm i) else rm i)"
  by (induction links arbitrary: rm) (auto split: option.splits)

lemma hold_all_same_shape: "same_shape (rm i) (hold_all e links rm i)"
proof (induction links arbitrary: rm)
  case Nil
  show ?case by (simp add: same_shape_def)
next
  case (Cons l ls)
  have "same_shape (rm i) ((case rm (cl_run l) of None \<Rightarrow> rm
          | Some s \<Rightarrow> rm(cl_run l \<mapsto> hold_on e s)) i)"
    by (auto simp: same_shape_def hold_on_def split: option.splits)
  with Cons [of "case rm (cl_run l) of None \<Rightarrow> rm | Some s \<Rightarrow> rm(cl_run l \<mapsto> hold_on e s)"]
  show ?case by (simp add: same_shape_def)
qed

lemma walk_hold_all [frame_simps]: "walk (hold_all e links rm) r = walk rm r"
  by (rule walk_same_shape) (rule hold_all_same_shape)

text \<open>Settling touches a run exactly where the chain names the generation it is in now.\<close>

definition names_now :: "chain_link list \<Rightarrow> string \<Rightarrow> run_state \<Rightarrow> bool" where
  "names_now links i s \<longleftrightarrow> (\<exists>l \<in> set links. cl_run l = i \<and> cl_generation l = rs_generation s)"

lemma settle_links_apply:
  "distinct (map cl_run links) \<Longrightarrow>
     fst (settle_links amount actual links rm n d) i =
       map_option (\<lambda>s. if names_now links i s then charge amount actual s else s) (rm i)"
proof (induction links arbitrary: rm n d)
  case Nil
  then show ?case by (simp add: names_now_def option.map_ident)
next
  case (Cons l ls)
  have off: "cl_run l \<notin> cl_run ` set ls" using Cons.prems by simp
  have "names_now (l # ls) i s = (if i = cl_run l then cl_generation l = rs_generation s else names_now ls i s)"
    for s
  proof (cases "i = cl_run l")
    case True
    with off show ?thesis by (auto simp: names_now_def image_iff)
  next
    case False
    then show ?thesis by (auto simp: names_now_def)
  qed
  moreover have "\<not> names_now ls (cl_run l) s" for s
    using off by (metis image_eqI names_now_def)
  ultimately show ?case
    using Cons by (auto split: option.splits simp: option.map_ident intro!: option.map_cong)
qed

lemma settle_links_counts:
  "settle_links amount actual links rm n d = (rm', n', d') \<Longrightarrow> n' + d' = n + d + length links"
  by (induction links arbitrary: rm n d) (fastforce split: option.splits if_splits)+

section \<open>The walk satisfies the chain contract\<close>

definition enterable :: "run_map \<Rightarrow> string \<Rightarrow> string option option" where
  "enterable rm i =
     (case rm i of None \<Rightarrow> None | Some s \<Rightarrow> if rs_closed s then None else Some (rs_parent s))"

definition chain_runs :: "run_map \<Rightarrow> string \<Rightarrow> string list" where
  "chain_runs rm r = map cl_run (fst (walk rm r))"

interpretation ledger_chain: parent_chain enterable chain_runs MAX_CHAIN_DEPTH
proof unfold_locales
  fix rm r
  obtain ls st where w: "walk rm r = (ls, st)" by force
  note ok = walk_ok [OF w]
  show "distinct (chain_runs rm r)" "length (chain_runs rm r) \<le> MAX_CHAIN_DEPTH"
    using ok w by (auto simp: chain_runs_def chain_ok_def)
  show "enterable rm r \<noteq> None \<Longrightarrow> \<exists>ks. chain_runs rm r = r # ks"
    using walk_head [of rm r _ ls st] w
    by (auto simp: chain_runs_def enterable_def split: option.splits if_splits)
  show "enterable rm i \<noteq> None" if "i \<in> set (chain_runs rm r)" for i
    using that ok w by (auto simp: chain_runs_def chain_ok_def enterable_def)
  show "enterable rm (chain_runs rm r ! n) = Some (Some (chain_runs rm r ! Suc n))"
    if "Suc n < length (chain_runs rm r)" for n
  proof -
    have n: "Suc n < length ls" using that w by (simp add: chain_runs_def)
    then have "ls ! n \<in> set ls" by simp
    with ok obtain s where s: "rm (cl_run (ls ! n)) = Some s" "\<not> rs_closed s"
      by (auto simp: chain_ok_def)
    moreover have "map_option rs_parent (rm (cl_run (ls ! n))) = Some (Some (cl_run (ls ! Suc n)))"
      using ok n by (simp add: chain_ok_def)
    ultimately show ?thesis using n w by (simp add: chain_runs_def enterable_def)
  qed
qed

end
