(* ===== verification/Ledger_Facts.thy ===== *)
theory Ledger_Facts
  imports Ledger_Chain
begin

text \<open>
  What each operation of the in-process ledger does, on every branch, and its interpretation as
  an admission control: the budget safety of \<open>reserve\<close> under any interleaving of callers.
\<close>

section \<open>When a call fits\<close>

definition fits :: "run_state \<Rightarrow> microusd \<Rightarrow> bool" where
  "fits s e \<longleftrightarrow>
     in_i64 (rs_spent s + rs_reserved s) \<and> in_i64 (rs_spent s + rs_reserved s + e)
     \<and> rs_spent s + rs_reserved s + e \<le> rs_budget s"

lemma exceeds_None_iff [ledger_simps]: "exceeds s e = None \<longleftrightarrow> fits s e"
  by (auto simp: exceeds_def fits_def checked_add_def)

lemma first_exceeded_None_iff [ledger_simps]:
  "first_exceeded rm ls e = None
     \<longleftrightarrow> (\<forall>lk \<in> set ls. \<forall>s. rm (cl_run lk) = Some s \<longrightarrow> fits s e)"
  by (induction ls) (auto simp: exceeds_None_iff [symmetric] split: option.splits)

lemma first_exceeded_Some:
  "first_exceeded rm ls e = Some err \<Longrightarrow>
     \<exists>i s w. i \<in> set (map cl_run ls) \<and> rm i = Some s \<and> \<not> fits s e
           \<and> err = Exceeded i (rs_budget s) (rs_spent s) w"
  by (induction ls) (auto simp: exceeds_None_iff [symmetric] split: option.splits)

section \<open>Reserve\<close>

definition reserved_run :: "ledger \<Rightarrow> string \<Rightarrow> microusd \<Rightarrow> string \<Rightarrow> run_state option" where
  "reserved_run l r e i =
     (if i \<in> set (chain_runs (runs l) r)
      then map_option (\<lambda>s. (hold_on e s)
             \<lparr>rs_steps := (if i = r then wrap_succ_u32 (rs_steps s) else rs_steps s)\<rparr>) (runs l i)
      else runs l i)"

lemma reserve_InrE:
  assumes "reserve l r e = (Inr rv, l')"
  obtains s ls where "runs l r = Some s" and "\<not> rs_closed s"
    and "walk (runs l) r = (\<lparr>cl_run = r, cl_generation = rs_generation s\<rparr> # ls, None)"
    and "first_exceeded (runs l) (\<lparr>cl_run = r, cl_generation = rs_generation s\<rparr> # ls) e = None"
    and "rv = \<lparr>rv_id = bump (next_reservation l), rv_run = r, rv_amount = e,
               rv_step = wrap_succ_u32 (rs_steps s), rv_generation = rs_generation s,
               rv_chain = \<lparr>cl_run = r, cl_generation = rs_generation s\<rparr> # ls\<rparr>"
    and "l' = l\<lparr>runs := reserved_run l r e, next_reservation := bump (next_reservation l),
                outstanding := insert (bump (next_reservation l)) (outstanding l)\<rparr>"
proof -
  obtain links st where w: "walk (runs l) r = (links, st)" by force
  have st: "st = None" and fe: "first_exceeded (runs l) links e = None"
    using assms w by (auto simp: reserve_def split: option.splits prod.splits)
  obtain s ls where s: "runs l r = Some s" "\<not> rs_closed s"
    and links: "links = \<lparr>cl_run = r, cl_generation = rs_generation s\<rparr> # ls"
    using walk_no_stop_open [of "runs l" r links] w st by auto
  have d: "distinct (map cl_run links)" using walk_ok [OF w] by (simp add: chain_ok_def)
  have leaf: "hold_all e links (runs l) r = Some (hold_on e s)"
    using hold_all_apply [OF d, of e "runs l" r] s(1) links by simp
  have upd: "(hold_all e links (runs l))(r \<mapsto> (hold_on e s)\<lparr>rs_steps := wrap_succ_u32 (rs_steps s)\<rparr>)
             = reserved_run l r e" (is "?a = _")
  proof
    fix i
    have "?a i = (if i = r then Some ((hold_on e s)\<lparr>rs_steps := wrap_succ_u32 (rs_steps s)\<rparr>)
                  else if i \<in> set (map cl_run links) then map_option (hold_on e) (runs l i) else runs l i)"
      by (simp add: hold_all_apply [OF d])
    also have "\<dots> = reserved_run l r e i"
      using s(1) links w
      by (cases "runs l i") (auto simp: reserved_run_def chain_runs_def hold_on_def)
    finally show "?a i = reserved_run l r e i" .
  qed
  have "rs_steps (hold_on e s) = rs_steps s" by (simp add: hold_on_def)
  then have "rv = \<lparr>rv_id = bump (next_reservation l), rv_run = r, rv_amount = e,
               rv_step = wrap_succ_u32 (rs_steps s), rv_generation = rs_generation s,
               rv_chain = \<lparr>cl_run = r, cl_generation = rs_generation s\<rparr> # ls\<rparr>"
    "l' = l\<lparr>runs := reserved_run l r e, next_reservation := bump (next_reservation l),
                outstanding := insert (bump (next_reservation l)) (outstanding l)\<rparr>"
    using assms w s(1) st fe links leaf upd
    by (auto simp: reserve_def grant_def Let_def split: option.splits)
  with that s w st fe links show thesis by simp
qed

lemma reserve_Inl_unchanged: "reserve l r e = (Inl err, l') \<Longrightarrow> l' = l"
  by (auto simp: reserve_def Let_def split: option.splits prod.splits list.splits)

lemma reserve_decides:
  "runs l r = Some s \<Longrightarrow>
     (case fst (reserve l r e) of Inl err \<Rightarrow> Some err | Inr _ \<Rightarrow> None) = would_exceed l r e"
proof -
  assume r: "runs l r = Some s"
  obtain links st where w: "walk (runs l) r = (links, st)" by force
  show ?thesis
  proof (cases "st = None \<and> first_exceeded (runs l) links e = None")
    case False
    with r w show ?thesis
      by (cases st; cases "first_exceeded (runs l) links e") (auto simp: reserve_def would_exceed_def)
  next
    case True
    with walk_no_stop_open [of "runs l" r links] w r obtain ls where
      links: "links = \<lparr>cl_run = r, cl_generation = rs_generation s\<rparr> # ls" by auto
    have d: "distinct (map cl_run links)" using walk_ok [OF w] by (simp add: chain_ok_def)
    have "hold_all e links (runs l) r = Some (hold_on e s)"
      using hold_all_apply [OF d, of e "runs l" r] r links by simp
    with r w True links show ?thesis
      by (auto simp: reserve_def would_exceed_def grant_def Let_def)
  qed
qed

lemma reserve_InrI:
  assumes "runs l r = Some s" and "would_exceed l r e = None"
  shows "\<exists>rv l'. reserve l r e = (Inr rv, l')"
  using reserve_decides [OF assms(1), of e] assms(2)
  by (cases "reserve l r e") (auto split: sum.splits)

section \<open>The ledger as an admission control\<close>

definition ledger_admit :: "ledger \<Rightarrow> string \<Rightarrow> microusd \<Rightarrow> ledger option" where
  "ledger_admit l r e = (case reserve l r e of (Inl _, _) \<Rightarrow> None | (Inr _, l') \<Rightarrow> Some l')"

definition ledger_covers :: "ledger \<Rightarrow> string \<Rightarrow> string set" where
  "ledger_covers l r = set (chain_runs (runs l) r)"

definition ledger_headroom :: "ledger \<Rightarrow> string \<Rightarrow> int" where
  "ledger_headroom l i =
     (case runs l i of None \<Rightarrow> 0 | Some s \<Rightarrow> rs_budget s - rs_spent s - rs_reserved s)"

definition ledger_sane :: "ledger \<Rightarrow> bool" where
  "ledger_sane l \<longleftrightarrow> (\<forall>i s. runs l i = Some s \<longrightarrow> 0 \<le> rs_spent s \<and> 0 \<le> rs_reserved s)"

lemma ledger_admit_SomeE:
  assumes "ledger_admit l r e = Some l'"
  obtains rv where "reserve l r e = (Inr rv, l')"
  using assms by (auto simp: ledger_admit_def split: prod.splits sum.splits)

text \<open>Under an admitted call every link holds the estimate exactly: nothing saturates.\<close>

lemma reserve_link:
  assumes "reserve l r e = (Inr rv, l')" and "ledger_sane l" and "0 \<le> e"
    and "i \<in> set (chain_runs (runs l) r)"
  obtains s s' where "runs l i = Some s" and "runs l' i = Some s'" and "fits s e"
    and "rs_reserved s' = rs_reserved s + e" and "rs_spent s' = rs_spent s"
    and "rs_budget s' = rs_budget s" and "rs_parent s' = rs_parent s"
    and "rs_generation s' = rs_generation s" and "rs_closed s' = rs_closed s"
    and "rs_admitted_ever s'"
proof -
  from reserve_InrE [OF assms(1)] obtain ls where
    w: "walk (runs l) r = (ls, None)" and fe: "first_exceeded (runs l) ls e = None"
    and l': "runs l' = reserved_run l r e" by (metis ledger.select_convs(1) ledger.update_convs(1,3,4) ledger.surjective)
  from assms(4) w obtain lk where lk: "lk \<in> set ls" "cl_run lk = i" by (auto simp: chain_runs_def)
  with walk_ok [OF w] obtain s where s: "runs l i = Some s" by (auto simp: chain_ok_def)
  have fit: "fits s e" using fe lk s by (auto simp: first_exceeded_None_iff)
  have "0 \<le> rs_spent s" "0 \<le> rs_reserved s" using assms(2) s by (simp_all add: ledger_sane_def)
  then have "in_i64 (rs_reserved s + e)"
    using fit assms(3) by (simp add: fits_def in_i64_def machine_bounds)
  then show thesis
    using that [OF s _ fit] assms(4) s
    by (simp add: l' reserved_run_def hold_on_def sat_simps)
qed

lemma reserve_off_chain:
  "reserve l r e = (Inr rv, l') \<Longrightarrow> i \<notin> set (chain_runs (runs l) r) \<Longrightarrow> runs l' i = runs l i"
  by (auto elim!: reserve_InrE simp: reserved_run_def)

lemma reserve_same_shape: "reserve l r e = (res, l') \<Longrightarrow> same_shape (runs l i) (runs l' i)"
proof (cases res)
  case (Inl a)
  then show "reserve l r e = (res, l') \<Longrightarrow> ?thesis"
    by (auto dest: reserve_Inl_unchanged simp: same_shape_def)
next
  case (Inr rv)
  then show "reserve l r e = (res, l') \<Longrightarrow> ?thesis"
    by (cases "runs l i") (auto elim!: reserve_InrE simp: same_shape_def reserved_run_def hold_on_def)
qed

lemma reserve_walk [frame_simps]: "reserve l r e = (res, l') \<Longrightarrow> walk (runs l') k = walk (runs l) k"
  by (rule walk_same_shape) (rule reserve_same_shape)

lemma reserve_sane:
  assumes "ledger_sane l" and "0 \<le> e" and "reserve l r e = (res, l')"
  shows "ledger_sane l'"
proof (cases res)
  case (Inl err)
  with assms show ?thesis by (auto dest: reserve_Inl_unchanged)
next
  case (Inr rv)
  show ?thesis
    unfolding ledger_sane_def
  proof (intro allI impI)
    fix i t
    assume t: "runs l' i = Some t"
    show "0 \<le> rs_spent t \<and> 0 \<le> rs_reserved t"
    proof (cases "i \<in> set (chain_runs (runs l) r)")
      case True
      then obtain s s' where "runs l i = Some s" "runs l' i = Some s'"
        "rs_reserved s' = rs_reserved s + e" "rs_spent s' = rs_spent s"
        using reserve_link [OF assms(3)[unfolded Inr] assms(1,2) True] by metis
      with t assms(1,2) show ?thesis by (simp add: ledger_sane_def)
    next
      case False
      from reserve_off_chain [OF assms(3)[unfolded Inr] False] t assms(1) show ?thesis
        by (auto simp: ledger_sane_def)
    qed
  qed
qed

interpretation ledger_adm: admission_control ledger_admit ledger_covers ledger_headroom ledger_sane
proof unfold_locales
  fix l :: ledger and k :: string and e :: int and l'
  assume sane: "ledger_sane l" and adm: "ledger_admit l k e = Some l'"
  from adm obtain rv where r: "reserve l k e = (Inr rv, l')" by (rule ledger_admit_SomeE)
  show "k \<in> ledger_covers l k"
    using r by (auto elim!: reserve_InrE simp: ledger_covers_def chain_runs_def)
  show "ledger_covers l' = ledger_covers l"
    using r by (auto simp: ledger_covers_def chain_runs_def frame_simps)
  assume e: "0 \<le> e"
  show "ledger_sane l'" using sane e r by (rule reserve_sane)
  fix i
  show "ledger_headroom l' i = ledger_headroom l i - e \<and> 0 \<le> ledger_headroom l' i"
    if "i \<in> ledger_covers l k"
  proof -
    from that have "i \<in> set (chain_runs (runs l) k)" by (simp add: ledger_covers_def)
    from reserve_link [OF r sane e this] obtain s s' where "runs l i = Some s" "runs l' i = Some s'"
      "fits s e" "rs_reserved s' = rs_reserved s + e" "rs_spent s' = rs_spent s"
      "rs_budget s' = rs_budget s" by metis
    then show ?thesis by (simp add: ledger_headroom_def fits_def)
  qed
  show "ledger_headroom l' i = ledger_headroom l i" if "i \<notin> ledger_covers l k"
    using reserve_off_chain [OF r, of i] that by (simp add: ledger_covers_def ledger_headroom_def)
qed

end
