(* ===== verification/Ledger_Reach.thy ===== *)
theory Ledger_Reach
  imports Ledger_Facts
begin

text \<open>
  The ledger over time. A state is the ledger together with the reservations it has handed out
  and not yet seen settled (a ghost: the code keeps only their ids). \<open>ledger_step\<close> is one locked
  operation; \<open>accounted\<close> is the invariant every operation keeps.
\<close>

section \<open>Steps\<close>

datatype ledger_call =
    Open_run string microusd "string option" budget_basis
  | Reserve string microusd
  | Reserve_unchecked string microusd
  | Settle reservation microusd
  | Seed_spend string microusd nat
  | Close_run string

text \<open>
  The guards are the model's assumptions on a run of the process: fewer than \<open>2^64 - 1\<close> opens and
  reservations so far, non-negative estimates and costs, a settle that is given the reservation
  the ledger issued under that id, and, for the shadow-mode reserve only, a hold that does not
  saturate \<open>i64\<close>.
\<close>

inductive ledger_step ::
  "ledger_call \<Rightarrow> ledger \<times> reservation list \<Rightarrow> ledger \<times> reservation list \<Rightarrow> bool" where
  opened:
    "next_generation l < U64_MAX \<Longrightarrow> open_run_as l r b p basis = (res, l') \<Longrightarrow>
       ledger_step (Open_run r b p basis) (l, iss) (l', iss)"
| reserved:
    "next_reservation l < U64_MAX \<Longrightarrow> 0 \<le> e \<Longrightarrow> reserve l r e = (Inr rv, l') \<Longrightarrow>
       ledger_step (Reserve r e) (l, iss) (l', rv # iss)"
| refused:
    "reserve l r e = (Inl err, l') \<Longrightarrow> ledger_step (Reserve r e) (l, iss) (l', iss)"
| shadowed:
    "next_reservation l < U64_MAX \<Longrightarrow> next_generation l < U64_MAX \<Longrightarrow> 0 \<le> e \<Longrightarrow> e \<le> I64_MAX \<Longrightarrow>
     (\<forall>i s. runs l i = Some s \<longrightarrow> rs_reserved s + e \<le> I64_MAX) \<Longrightarrow>
     reserve_unchecked l r e = (rv, l') \<Longrightarrow>
       ledger_step (Reserve_unchecked r e) (l, iss) (l', rv # iss)"
| settled:
    "0 \<le> a \<Longrightarrow> rv_id rv \<in> outstanding l \<longrightarrow> rv \<in> set iss \<Longrightarrow> settle l rv a = (st, l') \<Longrightarrow>
       ledger_step (Settle rv a) (l, iss) (l', filter (\<lambda>x. rv_id x \<noteq> rv_id rv) iss)"
| seeded:
    "seed_spend l r m g = (done, l') \<Longrightarrow> ledger_step (Seed_spend r m g) (l, iss) (l', iss)"
| closed:
    "close_run l r = (sn, l') \<Longrightarrow> ledger_step (Close_run r) (l, iss) (l', iss)"

inductive_cases ledger_stepE: "ledger_step c (l, iss) (l', iss')"

inductive ledger_run ::
  "ledger_call list \<Rightarrow> ledger \<times> reservation list \<Rightarrow> ledger \<times> reservation list \<Rightarrow> bool" where
  run_none: "ledger_run [] s s"
| run_step: "ledger_step c s t \<Longrightarrow> ledger_run cs t u \<Longrightarrow> ledger_run (c # cs) s u"

section \<open>The accounting invariant\<close>

text \<open>The amounts held on run \<open>i\<close> in its present generation by the given reservations.\<close>

definition held_for :: "reservation list \<Rightarrow> string \<Rightarrow> run_state \<Rightarrow> microusd" where
  "held_for iss i s = sum_where (\<lambda>r. names_now (rv_chain r) i s) rv_amount iss"

definition run_ok :: "nat \<Rightarrow> reservation list \<Rightarrow> string \<Rightarrow> run_state \<Rightarrow> bool" where
  "run_ok tg iss i s \<longleftrightarrow>
     rs_generation s \<le> tg \<and> 0 \<le> rs_spent s \<and> rs_reserved s \<le> I64_MAX
     \<and> rs_reserved s = held_for iss i s"

definition issued_ok :: "ledger \<Rightarrow> reservation \<Rightarrow> bool" where
  "issued_ok l r \<longleftrightarrow>
     0 \<le> rv_amount r \<and> distinct (map cl_run (rv_chain r)) \<and> rv_id r \<le> next_reservation l
     \<and> (\<forall>lk \<in> set (rv_chain r). cl_generation lk \<le> next_generation l)"

definition accounted :: "ledger \<times> reservation list \<Rightarrow> bool" where
  "accounted = (\<lambda>(l, iss).
     outstanding l = rv_id ` set iss \<and> distinct (map rv_id iss)
     \<and> (\<forall>r \<in> set iss. issued_ok l r)
     \<and> (\<forall>i s. runs l i = Some s \<longrightarrow> run_ok (next_generation l) iss i s))"

lemma accountedD:
  assumes "accounted (l, iss)"
  shows "outstanding l = rv_id ` set iss" and "distinct (map rv_id iss)"
    and "r \<in> set iss \<Longrightarrow> issued_ok l r"
    and "runs l i = Some s \<Longrightarrow> run_ok (next_generation l) iss i s"
  using assms by (auto simp: accounted_def)

lemma accountedI:
  assumes "outstanding l = rv_id ` set iss" and "distinct (map rv_id iss)"
    and "\<And>r. r \<in> set iss \<Longrightarrow> issued_ok l r"
    and "\<And>i s. runs l i = Some s \<Longrightarrow> run_ok (next_generation l) iss i s"
  shows "accounted (l, iss)"
  using assms by (auto simp: accounted_def)

lemma held_for_nonneg: "accounted (l, iss) \<Longrightarrow> 0 \<le> held_for iss i s"
  by (auto simp: held_for_def accounted_def issued_ok_def intro!: sum_where_nonneg)

lemma held_for_same_gen: "rs_generation s = rs_generation t \<Longrightarrow> held_for iss i s = held_for iss i t"
  by (simp add: held_for_def names_now_def)

lemma names_now_same_gen: "rs_generation s = rs_generation t \<Longrightarrow> names_now ls i s = names_now ls i t"
  by (simp add: names_now_def)

text \<open>Nothing yet holds on a generation newer than every one handed out.\<close>

lemma held_for_fresh:
  assumes "accounted (l, iss)" and "next_generation l < rs_generation s"
  shows "held_for iss i s = 0"
  unfolding held_for_def
  using assms by (intro sum_where_none) (fastforce simp: accounted_def issued_ok_def names_now_def)

lemma accounted_sane: "accounted (l, iss) \<Longrightarrow> ledger_sane l"
  using held_for_nonneg by (fastforce simp: ledger_sane_def accounted_def run_ok_def)

section \<open>Every step keeps it\<close>

text \<open>A step that changes no generation and no hold, and leaves the ids alone.\<close>

lemma accounted_frame:
  assumes "accounted (l, iss)"
    and "\<And>i s'. runs l' i = Some s' \<Longrightarrow>
           \<exists>s. runs l i = Some s \<and> rs_generation s' = rs_generation s
             \<and> rs_reserved s' = rs_reserved s \<and> (0 \<le> rs_spent s \<longrightarrow> 0 \<le> rs_spent s')"
    and "outstanding l' = outstanding l" and "next_generation l' = next_generation l"
    and "next_reservation l' = next_reservation l"
  shows "accounted (l', iss)"
proof (rule accountedI)
  show "outstanding l' = rv_id ` set iss" "distinct (map rv_id iss)"
    using assms accountedD(1,2) [OF assms(1)] by simp_all
  show "issued_ok l' r" if "r \<in> set iss" for r
    using accountedD(3) [OF assms(1) that] assms(4,5) by (simp add: issued_ok_def)
  fix i s'
  assume "runs l' i = Some s'"
  with assms(2) obtain s where s: "runs l i = Some s" "rs_generation s' = rs_generation s"
    "rs_reserved s' = rs_reserved s" "0 \<le> rs_spent s \<longrightarrow> 0 \<le> rs_spent s'" by blast
  with accountedD(4) [OF assms(1) s(1)] held_for_same_gen [OF s(2)] assms(4)
  show "run_ok (next_generation l') iss i s'" by (simp add: run_ok_def)
qed

text \<open>A run written with a fresh generation, as \<open>open_run_as\<close> and shadow mode create one.\<close>

lemma accounted_fresh:
  assumes "accounted (l, iss)" and "next_generation l < U64_MAX"
  shows "accounted (l\<lparr>runs := (runs l)(r \<mapsto> fresh_run b p (bump (next_generation l)) adm),
                      next_generation := bump (next_generation l)\<rparr>, iss)"
proof (rule accountedI)
  have g: "bump (next_generation l) = Suc (next_generation l)"
    using assms(2) by (simp add: bump_def sat_simps)
  note inv = accountedD [OF assms(1)]
  let ?l = "l\<lparr>runs := (runs l)(r \<mapsto> fresh_run b p (bump (next_generation l)) adm),
                      next_generation := bump (next_generation l)\<rparr>"
  show "outstanding ?l = rv_id ` set iss" "distinct (map rv_id iss)" using inv(1,2) by simp_all
  show "issued_ok ?l x" if "x \<in> set iss" for x
    using inv(3) [OF that] by (auto simp: issued_ok_def g)
  show "run_ok (next_generation ?l) iss i s" if s: "runs ?l i = Some s" for i s
  proof (cases "i = r")
    case True
    with s have "s = fresh_run b p (Suc (next_generation l)) adm" by (simp add: g)
    then show ?thesis
      using held_for_fresh [OF assms(1), of s i]
      by (simp add: run_ok_def fresh_run_def ZERO_def g)
  next
    case False
    with s inv(4) [of i s] show ?thesis by (simp add: run_ok_def g)
  qed
qed

lemma accounted_open:
  assumes "accounted (l, iss)" and "next_generation l < U64_MAX"
    and "open_run_as l r b p basis = (res, l')"
  shows "accounted (l', iss)"
proof (cases "p = Some r \<or> (\<exists>s. runs l r = Some s \<and> \<not> rs_closed s)")
  case False
  then have "l' = l\<lparr>runs := (runs l)(r \<mapsto> fresh_run b p (bump (next_generation l)) False),
                    next_generation := bump (next_generation l)\<rparr>"
    using assms(3) by (auto simp: open_run_as_def Let_def split: option.splits)
  with accounted_fresh [OF assms(1,2)] show ?thesis by simp
next
  case True
  show ?thesis
    by (rule accounted_frame [OF assms(1)])
      (use assms(3) True in
        \<open>auto simp: open_run_as_def Let_def split: if_splits option.splits sum.splits prod.splits\<close>)
qed

text \<open>A chain that the walk returned names exactly the runs it holds, as they are now.\<close>

lemma chain_ok_names_now:
  assumes "chain_ok rm ls" and "rm i = Some s"
  shows "names_now ls i s \<longleftrightarrow> i \<in> set (map cl_run ls)"
proof
  assume "i \<in> set (map cl_run ls)"
  then obtain lk where lk: "lk \<in> set ls" "cl_run lk = i" by auto
  with assms have "cl_generation lk = rs_generation s" by (auto simp: chain_ok_def)
  with lk show "names_now ls i s" by (auto simp: names_now_def)
qed (auto simp: names_now_def)

lemma accounted_hold:
  assumes "accounted (l, iss)" and "0 \<le> rv_amount rv" and "next_reservation l < U64_MAX"
    and chain: "chain_ok (runs l) (rv_chain rv)"
    and on: "\<And>i s'. i \<in> set (map cl_run (rv_chain rv)) \<Longrightarrow> runs l' i = Some s' \<Longrightarrow>
           \<exists>s. runs l i = Some s \<and> rs_generation s' = rs_generation s \<and> rs_spent s' = rs_spent s
             \<and> rs_reserved s' = rs_reserved s + rv_amount rv \<and> rs_reserved s' \<le> I64_MAX"
    and off: "\<And>i. i \<notin> set (map cl_run (rv_chain rv)) \<Longrightarrow> runs l' i = runs l i"
    and "rv_id rv = bump (next_reservation l)" and "next_reservation l' = rv_id rv"
    and "next_generation l' = next_generation l"
    and "outstanding l' = insert (rv_id rv) (outstanding l)"
  shows "accounted (l', rv # iss)"
proof (rule accountedI)
  note inv = accountedD [OF assms(1)]
  have i: "rv_id rv = Suc (next_reservation l)"
    using assms(3,7) by (simp add: bump_def sat_simps)
  show "outstanding l' = rv_id ` set (rv # iss)" using assms(10) inv(1) by simp
  show "distinct (map rv_id (rv # iss))"
    using inv(2,3) i by (fastforce simp: issued_ok_def)
  have gens: "cl_generation lk \<le> next_generation l" if lk: "lk \<in> set (rv_chain rv)" for lk
  proof -
    from chain lk obtain s where "runs l (cl_run lk) = Some s" "rs_generation s = cl_generation lk"
      by (auto simp: chain_ok_def)
    with inv(4) show ?thesis by (fastforce simp: run_ok_def)
  qed
  show "issued_ok l' x" if "x \<in> set (rv # iss)" for x
    using that inv(3) [of x] assms(2,8,9) i chain gens by (auto simp: issued_ok_def chain_ok_def)
  show "run_ok (next_generation l') (rv # iss) k s'" if s': "runs l' k = Some s'" for k s'
  proof (cases "k \<in> set (map cl_run (rv_chain rv))")
    case True
    from on [OF True s'] obtain s where s: "runs l k = Some s"
      "rs_generation s' = rs_generation s" "rs_spent s' = rs_spent s"
      "rs_reserved s' = rs_reserved s + rv_amount rv" "rs_reserved s' \<le> I64_MAX" by blast
    have "names_now (rv_chain rv) k s" using chain_ok_names_now [OF chain s(1)] True by simp
    then have "held_for (rv # iss) k s' = rv_amount rv + held_for iss k s"
      using names_now_same_gen [OF s(2)] held_for_same_gen [OF s(2)] by (simp add: held_for_def)
    with s inv(4) [OF s(1)] assms(9) show ?thesis by (simp add: run_ok_def)
  next
    case False
    with s' off have s: "runs l k = Some s'" by simp
    have "\<not> names_now (rv_chain rv) k s'" using chain_ok_names_now [OF chain s] False by simp
    then have "held_for (rv # iss) k s' = held_for iss k s'" by (simp add: held_for_def)
    with inv(4) [OF s] assms(9) show ?thesis by (simp add: run_ok_def)
  qed
qed

lemma accounted_reserve:
  assumes "accounted (l, iss)" and "next_reservation l < U64_MAX" and "0 \<le> e"
    and "reserve l r e = (Inr rv, l')"
  shows "accounted (l', rv # iss)"
proof -
  note sane = accounted_sane [OF assms(1)]
  from reserve_InrE [OF assms(4)] obtain ls where
    w: "walk (runs l) r = (ls, None)" and rv: "rv_chain rv = ls" "rv_amount rv = e"
      "rv_id rv = bump (next_reservation l)"
    and l': "next_reservation l' = bump (next_reservation l)" "next_generation l' = next_generation l"
      "outstanding l' = insert (bump (next_reservation l)) (outstanding l)"
    by (smt (verit) ledger.ext_inject ledger.surjective ledger.update_convs reservation.select_convs)
  have chain: "set (chain_runs (runs l) r) = set (map cl_run ls)" using w by (simp add: chain_runs_def)
  show ?thesis
  proof (rule accounted_hold [OF assms(1)])
    show "chain_ok (runs l) (rv_chain rv)" using walk_ok [OF w] rv by simp
    show "runs l' i = runs l i" if "i \<notin> set (map cl_run (rv_chain rv))" for i
      using reserve_off_chain [OF assms(4)] that chain rv by simp
    fix i s'
    assume i: "i \<in> set (map cl_run (rv_chain rv))" and s': "runs l' i = Some s'"
    have "i \<in> set (chain_runs (runs l) r)" using i chain rv by simp
    from reserve_link [OF assms(4) sane assms(3) this] obtain s t where
      s: "runs l i = Some s" "runs l' i = Some t" "fits s e" "rs_reserved t = rs_reserved s + e"
        "rs_spent t = rs_spent s" "rs_generation t = rs_generation s" by metis
    have "0 \<le> rs_spent s" using sane s(1) by (simp add: ledger_sane_def)
    with s have "rs_reserved t \<le> I64_MAX" by (simp add: fits_def in_i64_def)
    with s s' rv show "\<exists>s. runs l i = Some s \<and> rs_generation s' = rs_generation s \<and> rs_spent s' = rs_spent s
             \<and> rs_reserved s' = rs_reserved s + rv_amount rv \<and> rs_reserved s' \<le> I64_MAX" by simp
  qed (use assms rv l' in simp_all)
qed

text \<open>Taking a settled reservation out of the holds, and paying for it.\<close>

lemma accounted_settle:
  assumes "accounted (l, iss)" and "rv \<in> set iss" and "0 \<le> a" and "settle l rv a = (st, l')"
  shows "accounted (l', filter (\<lambda>x. rv_id x \<noteq> rv_id rv) iss)" (is "accounted (l', ?iss)")
proof (rule accountedI)
  note inv = accountedD [OF assms(1)]
  note rv = inv(3) [OF assms(2)]
  have out: "rv_id rv \<in> outstanding l" using assms(2) inv(1) by simp
  from assms(4) out obtain rm n d where
    sl: "settle_links (rv_amount rv) a (rv_chain rv) (runs l) 0 0 = (rm, n, d)"
    and l': "l' = l\<lparr>runs := rm, outstanding := outstanding l - {rv_id rv}\<rparr>"
    by (auto simp: settle_def split: prod.splits)
  have rm: "rm i = map_option (\<lambda>s. if names_now (rv_chain rv) i s then charge (rv_amount rv) a s else s)
      (runs l i)" for i
    using settle_links_apply [of "rv_chain rv" "rv_amount rv" a "runs l" 0 0 i] sl rv
    by (simp add: issued_ok_def)
  show "outstanding l' = rv_id ` set ?iss" using l' inv(1) by auto
  show "distinct (map rv_id ?iss)" using inv(2) by (simp add: distinct_map_filter)
  show "issued_ok l' x" if "x \<in> set ?iss" for x using that inv(3) [of x] l' by (auto simp: issued_ok_def)
  show "run_ok (next_generation l') ?iss i s'" if s': "runs l' i = Some s'" for i s'
  proof -
    from s' l' rm [of i] obtain s where s: "runs l i = Some s"
      and s's: "s' = (if names_now (rv_chain rv) i s then charge (rv_amount rv) a s else s)" by auto
    note ok = inv(4) [OF s]
    show ?thesis
    proof (cases "names_now (rv_chain rv) i s")
      case True
      have "held_for ?iss i s = held_for iss i s - rv_amount rv"
        using sum_where_remove_key [OF inv(2) assms(2), of "\<lambda>r. names_now (rv_chain r) i s" rv_amount] True
        by (simp add: held_for_def sum_where_def conj_commute)
      moreover have "rv_amount rv \<le> held_for iss i s"
        unfolding held_for_def using inv(3) assms(2) True
        by (intro sum_where_member) (auto simp: issued_ok_def)
      ultimately show ?thesis
        using ok rv assms(3) True s's l' held_for_same_gen [of s' s ?iss i]
        by (simp add: run_ok_def charge_def issued_ok_def sat_simps in_i64_def I64_MIN_def)
    next
      case False
      have "held_for ?iss i s = held_for iss i s"
      proof -
        have "rv_id x \<noteq> rv_id rv" if "x \<in> set iss" "names_now (rv_chain x) i s" for x
          using that False inv(2) assms(2) by (metis distinct_map inj_onD)
        then have "filter (\<lambda>r. names_now (rv_chain r) i s) ?iss = filter (\<lambda>r. names_now (rv_chain r) i s) iss"
          by (auto intro!: filter_cong)
        then show ?thesis by (simp add: held_for_def sum_where_def)
      qed
      with ok False s's l' show ?thesis by (simp add: run_ok_def)
    qed
  qed
qed

text \<open>Shadow mode: the run is created when it must be, and the walk may stop early.\<close>

definition shadow_opened :: "ledger \<Rightarrow> string \<Rightarrow> ledger" where
  "shadow_opened l r =
     (if case runs l r of None \<Rightarrow> True | Some s \<Rightarrow> rs_closed s
      then l\<lparr>runs := (runs l)(r \<mapsto> fresh_run ZERO None (bump (next_generation l)) False),
             next_generation := bump (next_generation l)\<rparr>
      else l)"

lemma shadow_opened_leaf: "\<exists>s. runs (shadow_opened l r) r = Some s \<and> \<not> rs_closed s"
  by (auto simp: shadow_opened_def fresh_run_def split: option.splits)

lemma reserve_uncheckedE:
  assumes "reserve_unchecked l r e = (rv, l')"
  obtains ls st where "walk (runs (shadow_opened l r)) r = (ls, st)"
    and "rv_chain rv = ls" and "rv_amount rv = e" and "rv_id rv = bump (next_reservation l)"
    and "r \<in> set (map cl_run ls)"
    and "l' = (shadow_opened l r)\<lparr>runs := reserved_run (shadow_opened l r) r e,
               next_reservation := bump (next_reservation l),
               outstanding := insert (bump (next_reservation l)) (outstanding l)\<rparr>"
proof -
  let ?l = "shadow_opened l r"
  obtain s where s: "runs ?l r = Some s" "\<not> rs_closed s" using shadow_opened_leaf by blast
  obtain ls st where w: "walk (runs ?l) r = (ls, st)" by force
  have d: "distinct (map cl_run ls)" using walk_ok [OF w] by (simp add: chain_ok_def)
  have mem: "r \<in> set (map cl_run ls)" using walk_head [OF s w] by auto
  have leaf: "hold_all e ls (runs ?l) r = Some (hold_on e s)"
    using hold_all_apply [OF d, of e "runs ?l" r] s(1) mem by simp
  have upd: "(hold_all e ls (runs ?l))(r \<mapsto> (hold_on e s)\<lparr>rs_steps := wrap_succ_u32 (rs_steps s)\<rparr>)
             = reserved_run ?l r e" (is "?a = _")
  proof
    fix i
    show "?a i = reserved_run ?l r e i"
      using s(1) mem w hold_all_apply [OF d, of e "runs ?l" i]
      by (cases "runs ?l i") (auto simp: reserved_run_def chain_runs_def hold_on_def)
  qed
  have "reserve_unchecked l r e
      = grant (?l\<lparr>runs := hold_all e ls (runs ?l)\<rparr>) r (hold_on e s) e (rs_generation (hold_on e s)) ls"
    unfolding reserve_unchecked_def Let_def shadow_opened_def [of l r, symmetric] w fst_conv
    using leaf by simp
  moreover have "next_reservation ?l = next_reservation l" "outstanding ?l = outstanding l"
    by (simp_all add: shadow_opened_def)
  moreover have "rs_steps (hold_on e s) = rs_steps s" by (simp add: hold_on_def)
  ultimately show thesis
    using that [OF w] assms mem upd by (auto simp: grant_def Let_def)
qed

lemma accounted_unchecked:
  assumes "accounted (l, iss)" and "next_reservation l < U64_MAX" and "next_generation l < U64_MAX"
    and "0 \<le> e" and "e \<le> I64_MAX"
    and room: "\<forall>i s. runs l i = Some s \<longrightarrow> rs_reserved s + e \<le> I64_MAX"
    and "reserve_unchecked l r e = (rv, l')"
  shows "accounted (l', rv # iss)"
proof -
  let ?l = "shadow_opened l r"
  have acc: "accounted (?l, iss)"
    using assms(1) accounted_fresh [OF assms(1,3)] by (simp add: shadow_opened_def)
  from reserve_uncheckedE [OF assms(7)] obtain ls st where
    w: "walk (runs ?l) r = (ls, st)" and rv: "rv_chain rv = ls" "rv_amount rv = e"
      "rv_id rv = bump (next_reservation l)"
    and l': "l' = ?l\<lparr>runs := reserved_run ?l r e, next_reservation := bump (next_reservation l),
               outstanding := insert (bump (next_reservation l)) (outstanding l)\<rparr>" by metis
  have nr: "next_reservation ?l = next_reservation l" by (simp add: shadow_opened_def)
  have room': "rs_reserved s + e \<le> I64_MAX" if "runs ?l i = Some s" for i s
    using that room assms(5)
    by (auto simp: shadow_opened_def fresh_run_def ZERO_def split: if_splits)
  have chain: "set (chain_runs (runs ?l) r) = set (map cl_run ls)" using w by (simp add: chain_runs_def)
  show ?thesis
  proof (rule accounted_hold [OF acc])
    show "chain_ok (runs ?l) (rv_chain rv)" using walk_ok [OF w] rv by simp
    show "runs l' i = runs ?l i" if "i \<notin> set (map cl_run (rv_chain rv))" for i
      using that chain rv by (simp add: l' reserved_run_def)
    fix i s'
    assume i: "i \<in> set (map cl_run (rv_chain rv))" and s': "runs l' i = Some s'"
    from i s' chain rv obtain s where s: "runs ?l i = Some s"
      and s's: "rs_generation s' = rs_generation s" "rs_spent s' = rs_spent s"
        "rs_reserved s' = saturating_add (rs_reserved s) e"
      by (auto simp: l' reserved_run_def hold_on_def)
    have "0 \<le> rs_reserved s" using accounted_sane [OF acc] s by (simp add: ledger_sane_def)
    then have "saturating_add (rs_reserved s) e = rs_reserved s + e"
      using room' [OF s] assms(4) by (simp add: sat_simps in_i64_def I64_MIN_def)
    with s s's rv room' [OF s] show "\<exists>s. runs ?l i = Some s \<and> rs_generation s' = rs_generation s \<and>
        rs_spent s' = rs_spent s \<and> rs_reserved s' = rs_reserved s + rv_amount rv \<and>
        rs_reserved s' \<le> I64_MAX" by simp
  qed (use assms rv l' nr in \<open>simp_all add: shadow_opened_def\<close>)
qed

lemma accounted_seed:
  "accounted (l, iss) \<Longrightarrow> seed_spend l r m g = (done, l') \<Longrightarrow> accounted (l', iss)"
  by (rule accounted_frame [of l])
    (auto simp: seed_spend_def ZERO_def split: if_splits option.splits)

lemma accounted_close:
  "accounted (l, iss) \<Longrightarrow> close_run l r = (sn, l') \<Longrightarrow> accounted (l', iss)"
  by (rule accounted_frame [of l]) (auto simp: close_run_def split: if_splits option.splits)

lemma accounted_step: "ledger_step c (l, iss) (l', iss') \<Longrightarrow> accounted (l, iss) \<Longrightarrow> accounted (l', iss')"
proof (elim ledger_stepE)
  fix rv a st
  assume acc: "accounted (l, iss)" and s: "settle l rv a = (st, l')" "0 \<le> a"
    "rv_id rv \<in> outstanding l \<longrightarrow> rv \<in> set iss" "iss' = filter (\<lambda>x. rv_id x \<noteq> rv_id rv) iss"
  show "accounted (l', iss')"
  proof (cases "rv_id rv \<in> outstanding l")
    case True
    with acc s show ?thesis by (simp add: accounted_settle)
  next
    case False
    with accountedD(1) [OF acc] have "filter (\<lambda>x. rv_id x \<noteq> rv_id rv) iss = iss"
      by (metis (mono_tags, lifting) filter_True image_eqI)
    with False acc s show ?thesis by (simp add: settle_def)
  qed
qed (blast intro: accounted_open accounted_reserve accounted_unchecked accounted_seed accounted_close
      dest: reserve_Inl_unchanged)+

lemma accounted_run: "ledger_run cs s t \<Longrightarrow> accounted s \<Longrightarrow> accounted t"
  by (induction rule: ledger_run.induct) (auto intro: accounted_step)

lemma accounted_new: "accounted (new_ledger, [])"
  by (simp add: accounted_def new_ledger_def)

section \<open>Budgets over time\<close>

text \<open>
  The discipline under which a budget is a hard limit: every reserve is enforced, no call costs
  more than it reserved, a budget is not lowered below what it was, and no monthly seed is folded
  in.
\<close>

fun disciplined :: "ledger_call \<Rightarrow> ledger \<Rightarrow> bool" where
  "disciplined (Open_run r b p basis) l \<longleftrightarrow>
     0 \<le> b \<and> (case runs l r of None \<Rightarrow> True | Some s \<Rightarrow> rs_closed s \<or> rs_budget s \<le> b)"
| "disciplined (Reserve r e) l \<longleftrightarrow> True"
| "disciplined (Reserve_unchecked r e) l \<longleftrightarrow> False"
| "disciplined (Settle rv a) l \<longleftrightarrow> a \<le> rv_amount rv"
| "disciplined (Seed_spend r m g) l \<longleftrightarrow> False"
| "disciplined (Close_run r) l \<longleftrightarrow> True"

inductive enforced_run :: "ledger \<times> reservation list \<Rightarrow> bool" where
  enforced_new: "enforced_run (new_ledger, [])"
| enforced_step: "enforced_run s \<Longrightarrow> ledger_step c s t \<Longrightarrow> disciplined c (fst s) \<Longrightarrow> enforced_run t"

lemma enforced_accounted: "enforced_run s \<Longrightarrow> accounted s"
proof (induction rule: enforced_run.induct)
  case enforced_new
  show ?case by (rule accounted_new)
next
  case (enforced_step s c t)
  obtain l iss l' iss' where "s = (l, iss)" "t = (l', iss')" by force
  with enforced_step show ?case by (simp add: accounted_step)
qed

definition within_budget :: "ledger \<Rightarrow> bool" where
  "within_budget l \<longleftrightarrow> (\<forall>i s. runs l i = Some s \<longrightarrow> rs_spent s + rs_reserved s \<le> rs_budget s)"

lemma within_budget_frame:
  assumes "within_budget l"
    and "\<And>i s'. runs l' i = Some s' \<Longrightarrow>
       rs_spent s' + rs_reserved s' \<le> rs_budget s' \<or>
       (\<exists>s. runs l i = Some s \<and> rs_spent s' + rs_reserved s' \<le> rs_spent s + rs_reserved s
          \<and> rs_budget s \<le> rs_budget s')"
  shows "within_budget l'"
  unfolding within_budget_def
proof (intro allI impI)
  fix i s'
  assume "runs l' i = Some s'"
  from assms(2) [OF this] show "rs_spent s' + rs_reserved s' \<le> rs_budget s'"
  proof (elim disjE exE conjE)
    fix s
    assume "runs l i = Some s" "rs_spent s' + rs_reserved s' \<le> rs_spent s + rs_reserved s"
      "rs_budget s \<le> rs_budget s'"
    with assms(1) show ?thesis by (fastforce simp: within_budget_def)
  qed
qed

lemma within_budget_open:
  assumes "within_budget l" and "open_run_as l r b p basis = (res, l')"
    and "disciplined (Open_run r b p basis) l"
  shows "within_budget l'"
  by (rule within_budget_frame [OF assms(1)])
    (use assms(2,3) in \<open>auto simp: open_run_as_def Let_def fresh_run_def ZERO_def effective_budget_def
       split: if_splits option.splits sum.splits prod.splits budget_basis.splits\<close>)

lemma within_budget_reserve:
  assumes "within_budget l" and "ledger_sane l" and "0 \<le> e" and r: "reserve l r e = (Inr rv, l')"
  shows "within_budget l'"
proof (rule within_budget_frame [OF assms(1)])
  fix i s'
  assume s': "runs l' i = Some s'"
  show "rs_spent s' + rs_reserved s' \<le> rs_budget s' \<or>
       (\<exists>s. runs l i = Some s \<and> rs_spent s' + rs_reserved s' \<le> rs_spent s + rs_reserved s
          \<and> rs_budget s \<le> rs_budget s')"
  proof (cases "i \<in> set (chain_runs (runs l) r)")
    case True
    from reserve_link [OF r assms(2,3) True] s' show ?thesis
      by (metis add.assoc fits_def option.inject)
  next
    case False
    have "runs l i = Some s'" using reserve_off_chain [OF r False] s' by simp
    then show ?thesis by auto
  qed
qed

lemma within_budget_settle:
  assumes "within_budget l" and acc: "accounted (l, iss)" and "rv \<in> set iss" and "0 \<le> a"
    and "a \<le> rv_amount rv" and "settle l rv a = (st, l')"
  shows "within_budget l'"
proof (rule within_budget_frame [OF assms(1)])
  fix i s'
  assume s': "runs l' i = Some s'"
  note inv = accountedD [OF acc]
  note rv = inv(3) [OF assms(3)]
  have "rv_id rv \<in> outstanding l" using assms(3) inv(1) by simp
  with assms(6) have "runs l' = fst (settle_links (rv_amount rv) a (rv_chain rv) (runs l) 0 0)"
    by (auto simp: settle_def split: prod.splits)
  with s' have at: "fst (settle_links (rv_amount rv) a (rv_chain rv) (runs l) 0 0) i = Some s'" by simp
  have d: "distinct (map cl_run (rv_chain rv))" using rv by (simp add: issued_ok_def)
  from at settle_links_apply [OF d, of "rv_amount rv" a "runs l" 0 0 i]
  obtain s where s: "runs l i = Some s"
    and s's: "s' = (if names_now (rv_chain rv) i s then charge (rv_amount rv) a s else s)"
    by (cases "runs l i") auto
  have "rs_spent s' + rs_reserved s' \<le> rs_spent s + rs_reserved s \<and> rs_budget s' = rs_budget s"
  proof (cases "names_now (rv_chain rv) i s")
    case True
    have "rv_amount rv \<le> held_for iss i s"
      unfolding held_for_def using inv(3) assms(3) True
      by (intro sum_where_member) (auto simp: issued_ok_def)
    then have le: "rv_amount rv \<le> rs_reserved s" using inv(4) [OF s] by (simp add: run_ok_def)
    have "saturating_add (rs_spent s) a \<le> rs_spent s + a"
      using inv(4) [OF s] assms(4) by (simp add: saturating_add_def run_ok_def sat_i64_nonneg_le)
    moreover have "saturating_sub (rs_reserved s) (rv_amount rv) = rs_reserved s - rv_amount rv"
      using le inv(4) [OF s] rv
      by (intro saturating_sub_exact) (auto simp: run_ok_def issued_ok_def in_i64_def I64_MIN_def)
    ultimately show ?thesis using True assms(5) s's by (simp add: charge_def)
  qed (simp add: s's)
  with s show "rs_spent s' + rs_reserved s' \<le> rs_budget s' \<or>
       (\<exists>s. runs l i = Some s \<and> rs_spent s' + rs_reserved s' \<le> rs_spent s + rs_reserved s
          \<and> rs_budget s \<le> rs_budget s')" by auto
qed

lemma within_budget_close: "within_budget l \<Longrightarrow> close_run l r = (sn, l') \<Longrightarrow> within_budget l'"
  by (erule within_budget_frame) (auto simp: close_run_def split: option.splits if_splits)

lemma enforced_within: "enforced_run s \<Longrightarrow> within_budget (fst s)"
proof (induction rule: enforced_run.induct)
  case enforced_new
  show ?case by (simp add: within_budget_def new_ledger_def)
next
  case (enforced_step s c t)
  obtain l iss where s: "s = (l, iss)" by force
  have acc: "accounted (l, iss)" using enforced_accounted [OF enforced_step.hyps(1)] s by simp
  have wb: "within_budget l" using enforced_step.IH s by simp
  show ?case
  proof (cases rule: ledger_step.cases [OF enforced_step.hyps(2)])
    case (1 l r b p basis res l' iss)
    then show ?thesis using within_budget_open wb s enforced_step.hyps(3) by simp
  next
    case (2 l e r rv l' iss)
    then show ?thesis using within_budget_reserve wb s accounted_sane [OF acc] by simp
  next
    case (3 l r e err l' iss)
    then show ?thesis using reserve_Inl_unchanged [OF 3(4)] wb s by simp
  next
    case (4 l e r rv l' iss)
    then show ?thesis using enforced_step.hyps(3) by simp
  next
    case (5 a rv l iss st l')
    then show ?thesis
      using within_budget_settle [OF wb acc, of rv a st l'] wb s enforced_step.hyps(3)
      by (cases "rv_id rv \<in> outstanding l") (auto simp: settle_def)
  next
    case (6 l r m g don l' iss)
    then show ?thesis using enforced_step.hyps(3) by simp
  next
    case (7 l r sn l' iss)
    then show ?thesis using within_budget_close wb s by simp
  qed
qed

end
