(* ===== verification/Ledger_Restore.thy ===== *)
theory Ledger_Restore
  imports Ledger_Reach
begin

text \<open>
  Recovery: what \<open>restore_outstanding\<close> selects, what it writes to each run, and that what it
  rebuilds satisfies the same accounting invariant as a ledger that never restarted.
\<close>

section \<open>Which entries are restored\<close>

abbreviation entry_id :: "outstanding_entry \<Rightarrow> nat" where
  "entry_id e \<equiv> rv_id (oe_reservation e)"

lemma restore_select_valid:
  "restore_select held seen es = (i, d, v) \<Longrightarrow>
     (\<forall>e \<in> set v. e \<in> set es \<and> well_formed_entry e \<and> entry_id e \<notin> held \<and> entry_id e \<notin> seen)
     \<and> distinct (map entry_id v)
     \<and> (\<forall>e \<in> set es. well_formed_entry e \<longrightarrow> entry_id e \<in> held \<union> seen \<union> entry_id ` set v)
     \<and> i + d + length v = length es"
proof (induction es arbitrary: seen i d v)
  case Nil
  then show ?case by simp
next
  case (Cons e es)
  show ?case
  proof (cases "well_formed_entry e \<and> entry_id e \<notin> held \<and> entry_id e \<notin> seen")
    case True
    with Cons.prems obtain v' where v: "v = e # v'"
      "restore_select held (insert (entry_id e) seen) es = (i, d, v')"
      by (auto split: prod.splits)
    from Cons.IH [OF v(2)] v(1) True show ?thesis by (auto simp: image_iff)
  next
    case False
    with Cons.prems obtain i' d' where r: "restore_select held seen es = (i', d', v)"
      "i + d = Suc (i' + d')" "\<not> well_formed_entry e \<or> entry_id e \<in> held \<union> seen"
      by (auto split: prod.splits if_splits)
    from Cons.IH [OF r(1)] r(2,3) show ?thesis by auto
  qed
qed

lemma restore_select_again:
  assumes "\<forall>e \<in> set es. well_formed_entry e \<longrightarrow> entry_id e \<in> held"
  shows "restore_select held seen es =
     (length (filter (\<lambda>e. \<not> well_formed_entry e) es), length (filter well_formed_entry es), [])"
  using assms by (induction es) auto

section \<open>What is written\<close>

lemma create_runs_keeps: "create_runs gen is rm = (rm', cs) \<Longrightarrow> rm i = Some s \<Longrightarrow> rm' i = Some s"
proof (induction "is" arbitrary: rm cs)
  case Nil
  then show ?case by simp
next
  case (Cons j js)
  then show ?case by (cases "rm j"; cases "i = j") (auto simp: Let_def split: prod.splits)
qed

lemma create_runs_new:
  "create_runs gen is rm = (rm', cs) \<Longrightarrow> rm i = None \<Longrightarrow>
     rm' i = (if i \<in> set is then Some (fresh_run ZERO None (case gen i of None \<Rightarrow> 0 | Some n \<Rightarrow> n) True) else None)
     \<and> (i \<in> set is \<longleftrightarrow> i \<in> fst ` set cs)"
proof (induction "is" arbitrary: rm cs)
  case Nil
  then show ?case by simp
next
  case (Cons j js)
  show ?case
  proof (cases "rm j")
    case (Some s)
    with Cons show ?thesis by (cases "i = j") auto
  next
    case None
    let ?f = "fresh_run ZERO None (case gen j of None \<Rightarrow> 0 | Some n \<Rightarrow> n) True"
    from None Cons.prems obtain cs' where
      cs: "create_runs gen js (rm(j \<mapsto> ?f)) = (rm', cs')" "fst ` set cs = insert j (fst ` set cs')"
      by (auto simp: Let_def split: prod.splits)
    show ?thesis
    proof (cases "i = j")
      case True
      with create_runs_keeps [OF cs(1), of j ?f] cs(2) show ?thesis by simp
    next
      case False
      with Cons.IH [OF cs(1)] Cons.prems(2) cs(2) show ?thesis by simp
    qed
  qed
qed

text \<open>Restoring one reservation's links.\<close>

lemma restore_links_run:
  assumes "distinct (map cl_run ls)"
  shows "restore_links created r tail first ls rm = (rm', d) \<Longrightarrow>
     (rm i = None \<longleftrightarrow> rm' i = None)
     \<and> (\<forall>s s'. rm i = Some s \<longrightarrow> rm' i = Some s' \<longrightarrow>
          rs_generation s' = rs_generation s \<and> rs_spent s' = rs_spent s
          \<and> rs_budget s' = rs_budget s \<and> rs_closed s' = rs_closed s
          \<and> rs_reserved s' =
              (if i \<in> created \<and> names_now ls i s then saturating_add (rs_reserved s) (rv_amount r)
               else rs_reserved s))"
  using assms
proof (induction ls arbitrary: first rm rm' d)
  case Nil
  then show ?case by (simp add: names_now_def)
next
  case (Cons l ls)
  have off: "\<not> names_now ls (cl_run l) s" for s
    using Cons.prems(2) by (auto simp: names_now_def image_iff)
  have cons: "names_now (l # ls) i s \<longleftrightarrow> cl_run l = i \<and> cl_generation l = rs_generation s \<or> names_now ls i s"
    for s by (auto simp: names_now_def)
  have d: "distinct (map cl_run ls)" using Cons.prems(2) by simp
  show ?case
  proof (cases "cl_run l \<in> created \<and> (\<exists>s. rm (cl_run l) = Some s \<and> rs_generation s = cl_generation l)")
    case True
    then obtain s where s: "rm (cl_run l) = Some s" "rs_generation s = cl_generation l"
      "cl_run l \<in> created" by blast
    define p where "p = (case ls of nxt # _ \<Rightarrow> Some (cl_run nxt) | [] \<Rightarrow> tail)"
    define s1 where "s1 = restore_one r p first (cl_run l) s"
    have one: "rs_generation s1 = rs_generation s" "rs_spent s1 = rs_spent s"
      "rs_budget s1 = rs_budget s" "rs_closed s1 = rs_closed s"
      "rs_reserved s1 = saturating_add (rs_reserved s) (rv_amount r)"
      by (auto simp: s1_def restore_one_def Let_def)
    have r: "restore_links created r tail False ls (rm(cl_run l \<mapsto> s1)) = (rm', d)"
      using Cons.prems(1) s by (simp add: s1_def p_def)
    show ?thesis
    proof (cases "i = cl_run l")
      case True
      have rm: "(rm(cl_run l \<mapsto> s1)) i = Some s1" "rm i = Some s" using True s by simp_all
      have n: "names_now (l # ls) i s" "\<not> names_now ls i s1" "i \<in> created"
        using True s cons [of s] off [of s1] by simp_all
      note ih = Cons.IH [OF r d]
      have "rm' i \<noteq> None" using conjunct1 [OF ih] rm(1) by simp
      then obtain s' where s': "rm' i = Some s'" by blast
      from conjunct2 [OF ih, rule_format, OF rm(1) s'] n(2)
      have "rs_generation s' = rs_generation s1 \<and> rs_spent s' = rs_spent s1
          \<and> rs_budget s' = rs_budget s1 \<and> rs_closed s' = rs_closed s1 \<and> rs_reserved s' = rs_reserved s1"
        by simp
      with one n rm(2) s' show ?thesis by simp
    next
      case False
      then have rm: "(rm(cl_run l \<mapsto> s1)) i = rm i" and n: "names_now (l # ls) i t = names_now ls i t" for t
        using cons by auto
      show ?thesis using Cons.IH [OF r d] unfolding rm n .
    qed
  next
    case False
    then obtain d' where r: "restore_links created r tail False ls rm = (rm', d')"
      using Cons.prems(1) by (auto split: option.splits if_splits prod.splits)
    have same: "i \<in> created \<and> names_now (l # ls) i s \<longleftrightarrow> i \<in> created \<and> names_now ls i s"
      if "rm i = Some s" for s
      using False cons that by auto
    show ?thesis
    proof (intro conjI [of "(rm i = None) = (rm' i = None)"] allI impI)
      show "(rm i = None) = (rm' i = None)" using conjunct1 [OF Cons.IH [OF r d]] .
      fix s s'
      assume s: "rm i = Some s" and s': "rm' i = Some s'"
      show "rs_generation s' = rs_generation s \<and> rs_spent s' = rs_spent s
          \<and> rs_budget s' = rs_budget s \<and> rs_closed s' = rs_closed s
          \<and> rs_reserved s' = (if i \<in> created \<and> names_now (l # ls) i s
               then saturating_add (rs_reserved s) (rv_amount r) else rs_reserved s)"
        unfolding same [OF s] using conjunct2 [OF Cons.IH [OF r d], rule_format, OF s s'] .
    qed
  qed
qed

text \<open>Restoring the reservations one after the other.\<close>

lemma restore_entries_ids:
  "restore_entries created es l = (l', d) \<Longrightarrow>
     outstanding l' = outstanding l \<union> entry_id ` set es \<and> next_generation l' = next_generation l
     \<and> next_reservation l \<le> next_reservation l' \<and> (\<forall>e \<in> set es. entry_id e \<le> next_reservation l')"
proof (induction es arbitrary: l l' d)
  case Nil
  then show ?case by simp
next
  case (Cons e es)
  from Cons.prems obtain l1 d1 where
    l1: "restore_entries created es l1 = (l', d1)" "outstanding l1 = insert (entry_id e) (outstanding l)"
      "next_generation l1 = next_generation l" "next_reservation l1 = max (next_reservation l) (entry_id e)"
    by (fastforce simp: Let_def split: prod.splits)
  from Cons.IH [OF l1(1)] l1(2-4) show ?case by auto
qed

definition restorable :: "reservation \<Rightarrow> bool" where
  "restorable r \<longleftrightarrow> 0 \<le> rv_amount r \<and> distinct (map cl_run (rv_chain r))"

lemma restore_entries_run:
  assumes "\<forall>e \<in> set es. restorable (oe_reservation e)"
    and "restore_entries created es l = (l', d)" and "i \<in> created" and "runs l i = Some s"
    and "0 \<le> rs_reserved s"
    and "rs_reserved s + sum_list (map (\<lambda>e. rv_amount (oe_reservation e)) es) \<le> I64_MAX"
  shows "\<exists>s'. runs l' i = Some s' \<and> rs_generation s' = rs_generation s \<and> rs_spent s' = rs_spent s
     \<and> rs_reserved s' = rs_reserved s + held_for (map oe_reservation es) i s"
  using assms
proof (induction es arbitrary: l d s)
  case Nil
  then show ?case by (simp add: held_for_def)
next
  case (Cons e es)
  let ?r = "oe_reservation e"
  obtain rm n where rl: "restore_links created ?r (oe_tail_parent e) True (rv_chain ?r) (runs l) = (rm, n)"
    by force
  from Cons.prems(2) rl obtain d1 where
    re: "restore_entries created es (l\<lparr>runs := rm, outstanding := insert (entry_id e) (outstanding l),
               next_reservation := max (next_reservation l) (entry_id e)\<rparr>) = (l', d1)"
    by (auto simp: Let_def split: prod.splits)
  have rest: "0 \<le> sum_list (map (\<lambda>e. rv_amount (oe_reservation e)) es)" "restorable ?r"
    using Cons.prems(1) by (auto simp: restorable_def intro!: sum_list_nonneg)
  have dist: "distinct (map cl_run (rv_chain ?r))" using rest(2) by (simp add: restorable_def)
  note step = restore_links_run [OF dist rl, of i]
  have "rm i \<noteq> None" using conjunct1 [OF step] Cons.prems(4) by simp
  then obtain s1 where s1: "rm i = Some s1" by blast
  from conjunct2 [OF step, rule_format, OF Cons.prems(4) s1] Cons.prems(3)
  have one: "rs_generation s1 = rs_generation s" "rs_spent s1 = rs_spent s"
    "rs_reserved s1 = (if names_now (rv_chain ?r) i s then saturating_add (rs_reserved s) (rv_amount ?r)
       else rs_reserved s)" by simp_all
  have exact: "saturating_add (rs_reserved s) (rv_amount ?r) = rs_reserved s + rv_amount ?r"
    using Cons.prems(5,6) rest by (simp add: sat_simps in_i64_def I64_MIN_def restorable_def)
  have "\<exists>s'. runs l' i = Some s' \<and> rs_generation s' = rs_generation s1 \<and> rs_spent s' = rs_spent s1
     \<and> rs_reserved s' = rs_reserved s1 + held_for (map oe_reservation es) i s1"
    by (rule Cons.IH [OF _ re Cons.prems(3)])
      (use Cons.prems(1,5,6) rest one exact s1 in \<open>auto simp: restorable_def\<close>)
  then show ?case
    using one exact held_for_same_gen [OF one(1), of "map oe_reservation es" i]
    by (auto simp: held_for_def)
qed

lemma restore_entries_dom:
  assumes "\<forall>e \<in> set es. restorable (oe_reservation e)"
    and "restore_entries created es l = (l', d)"
  shows "runs l' i = None \<longleftrightarrow> runs l i = None"
  using assms
proof (induction es arbitrary: l d)
  case Nil
  then show ?case by simp
next
  case (Cons e es)
  let ?r = "oe_reservation e"
  obtain rm n where rl: "restore_links created ?r (oe_tail_parent e) True (rv_chain ?r) (runs l) = (rm, n)"
    by force
  from Cons.prems(2) rl obtain d1 where
    re: "restore_entries created es (l\<lparr>runs := rm, outstanding := insert (entry_id e) (outstanding l),
               next_reservation := max (next_reservation l) (entry_id e)\<rparr>) = (l', d1)"
    by (auto simp: Let_def split: prod.splits)
  have "distinct (map cl_run (rv_chain ?r))" using Cons.prems(1) by (simp add: restorable_def)
  from conjunct1 [OF restore_links_run [OF this rl, of i]] Cons.IH [OF _ re] Cons.prems(1)
  show ?case by simp
qed

lemma sum_where_le_sum: "(\<And>x. x \<in> set xs \<Longrightarrow> 0 \<le> f x) \<Longrightarrow> sum_where P f xs \<le> sum_list (map f xs)"
  by (induction xs) (auto intro: add_increasing)

lemma fold_max_ge: "(m :: nat) \<le> fold max xs m"
proof (induction xs arbitrary: m)
  case Nil
  then show ?case by simp
next
  case (Cons y ys)
  have "m \<le> max y m" by simp
  also have "\<dots> \<le> fold max ys (max y m)" by (rule Cons.IH)
  finally show ?case by simp
qed

lemma fold_max_mem: "x \<in> set xs \<Longrightarrow> (x :: nat) \<le> fold max xs m"
proof (induction xs arbitrary: m)
  case Nil
  then show ?case by simp
next
  case (Cons y ys)
  show ?case
  proof (cases "x = y")
    case True
    then have "x \<le> max y m" by simp
    also have "\<dots> \<le> fold max ys (max y m)" by (rule fold_max_ge)
    finally show ?thesis by simp
  next
    case False
    with Cons show ?thesis by simp
  qed
qed

text \<open>The generation a created run gets is the newest any entry names it with.\<close>

definition note_generation :: "chain_link \<Rightarrow> (string \<rightharpoonup> nat) \<Rightarrow> string \<rightharpoonup> nat" where
  "note_generation l g =
     g(cl_run l \<mapsto> max (case g (cl_run l) of None \<Rightarrow> 0 | Some n \<Rightarrow> n) (cl_generation l))"

lemma generation_of_fold: "generation_of links = fold note_generation links Map.empty"
  by (simp add: generation_of_def note_generation_def [abs_def])

lemma note_generations_le:
  "(\<And>i g. G i = Some g \<Longrightarrow> g \<le> m) \<Longrightarrow> fold note_generation links G i = Some g \<Longrightarrow>
     g \<le> fold max (map cl_generation links) m"
proof (induction links arbitrary: G m)
  case Nil
  then show ?case by simp
next
  case (Cons l ls)
  have "fold note_generation ls (note_generation l G) i = Some g" using Cons.prems(2) by simp
  moreover have "k \<le> max (cl_generation l) m" if k: "note_generation l G j = Some k" for j k
  proof (cases "j = cl_run l")
    case True
    with k Cons.prems(1) [of j] show ?thesis
      by (cases "G j") (auto simp: note_generation_def max.coboundedI2 max.coboundedI1)
  next
    case False
    with k have "G j = Some k" by (simp add: note_generation_def)
    then show ?thesis using Cons.prems(1) by (simp add: max.coboundedI2)
  qed
  ultimately show ?case using Cons.IH [of "note_generation l G" "max (cl_generation l) m"] by simp
qed

lemma generation_of_le: "generation_of links i = Some g \<Longrightarrow> g \<le> fold max (map cl_generation links) 0"
  unfolding generation_of_fold by (rule note_generations_le [rotated]) auto

text \<open>
  A restart: restoring entries into an empty ledger establishes the accounting invariant, for the
  entries it reports as restored.
\<close>

lemma restore_accounted:
  assumes r: "restore_outstanding new_ledger es = (res, l')"
    and v: "restore_select {} {} es = (i0, d0, v)"
    and ok: "\<forall>e \<in> set v. restorable (oe_reservation e)"
    and room: "sum_list (map (\<lambda>e. rv_amount (oe_reservation e)) v) \<le> I64_MAX"
  shows "accounted (l', map oe_reservation v)"
proof -
  let ?links = "all_links v" and ?tg = "fold max (map cl_generation (all_links v)) 0"
  obtain rm cs where c: "create_runs (generation_of ?links) (link_names ?links) Map.empty = (rm, cs)"
    by force
  obtain l1 n where e: "restore_entries (set (map fst cs)) v (new_ledger\<lparr>runs := rm\<rparr>) = (l1, n)"
    by force
  have l': "l' = l1\<lparr>next_generation := max (next_generation l1) ?tg\<rparr>"
    using r v c e by (auto simp: restore_outstanding_def new_ledger_def Let_def)
  note ids = restore_entries_ids [OF e]
  note sel = restore_select_valid [OF v]
  have ng: "next_generation l' = ?tg" using l' ids by (simp add: new_ledger_def)
  show ?thesis
  proof (rule accountedI)
    show "outstanding l' = rv_id ` set (map oe_reservation v)"
      using ids l' by (auto simp: new_ledger_def)
    show "distinct (map rv_id (map oe_reservation v))" using sel by (simp add: comp_def)
    show "issued_ok l' x" if "x \<in> set (map oe_reservation v)" for x
    proof -
      from that obtain en where en: "en \<in> set v" "oe_reservation en = x" by auto
      have "cl_generation lk \<le> ?tg" if "lk \<in> set (rv_chain x)" for lk
        using en that by (intro fold_max_mem) (auto simp: all_links_def)
      moreover have "rv_id x \<le> next_reservation l1" using ids en by auto
      moreover have "next_reservation l' = next_reservation l1" using l' by simp
      ultimately show ?thesis using ok en by (auto simp: issued_ok_def restorable_def ng)
    qed
    fix i s'
    assume s': "runs l' i = Some s'"
    show "run_ok (next_generation l') (map oe_reservation v) i s'"
    proof -
      have "runs l1 i \<noteq> None" using s' l' by simp
      then have "rm i \<noteq> None" using restore_entries_dom [OF ok e, of i] by simp
      then have i: "i \<in> fst ` set cs"
        and rm: "rm i = Some (fresh_run ZERO None (case generation_of ?links i of None \<Rightarrow> 0 | Some n \<Rightarrow> n) True)"
          (is "_ = Some ?f")
        using create_runs_new [OF c, of i] by (simp_all split: if_splits)
      obtain t where t: "runs l1 i = Some t" "rs_generation t = rs_generation ?f"
        "rs_spent t = rs_spent ?f"
        "rs_reserved t = rs_reserved ?f + held_for (map oe_reservation v) i ?f"
        using restore_entries_run [OF ok e, of i ?f] i rm room
        by (auto simp: fresh_run_def ZERO_def)
      have s't: "s' = t" using s' t(1) l' by simp
      have "rs_generation ?f \<le> ?tg"
        using generation_of_le [of ?links i] by (auto simp: fresh_run_def split: option.splits)
      moreover have "held_for (map oe_reservation v) i ?f \<le> I64_MAX"
      proof -
        have "held_for (map oe_reservation v) i ?f \<le> sum_list (map rv_amount (map oe_reservation v))"
          unfolding held_for_def using ok
          by (intro sum_where_le_sum) (auto simp: restorable_def)
        then show ?thesis using room by (simp add: comp_def)
      qed
      ultimately show ?thesis
        using t held_for_same_gen [OF t(2), of "map oe_reservation v" i]
        by (simp add: s't run_ok_def ng) (simp add: fresh_run_def ZERO_def)
    qed
  qed
qed

text \<open>Restoring the same entries again finds every one of them outstanding.\<close>

lemma restore_again:
  assumes "restore_outstanding l es = (res, l')"
  shows "restore_outstanding l' es =
     (\<lparr>rd_restored = [], rd_duplicate = length (filter well_formed_entry es),
       rd_invalid = length (filter (\<lambda>e. \<not> well_formed_entry e) es), rd_links_dropped = 0,
       rd_runs_created = []\<rparr>, l')"
proof -
  obtain i0 d0 v where v: "restore_select (outstanding l) {} es = (i0, d0, v)" by (metis surj_pair)
  obtain rm cs where c: "create_runs (generation_of (all_links v)) (link_names (all_links v)) (runs l) = (rm, cs)"
    by force
  obtain l1 n where e: "restore_entries (set (map fst cs)) v (l\<lparr>runs := rm\<rparr>) = (l1, n)" by force
  have l': "outstanding l' = outstanding l1"
    using assms v c e by (auto simp: restore_outstanding_def Let_def)
  have "\<forall>e \<in> set es. well_formed_entry e \<longrightarrow> entry_id e \<in> outstanding l'"
    using restore_select_valid [OF v] restore_entries_ids [OF e] by (auto simp: l')
  note again = restore_select_again [OF this, of "{}"]
  show ?thesis
    unfolding restore_outstanding_def again
    by (simp add: all_links_def link_names_def generation_of_def)
qed

end
