(* ===== verification/Ledger_Props.thy ===== *)
theory Ledger_Props
  imports Ledger_Restore
begin

text \<open>
  The properties of the in-process ledger, with an application of each at a concrete ledger: a
  parent run with a budget of 100 and a child run with 60.
\<close>

definition two_level :: ledger where
  "two_level =
     \<lparr>runs = [''root'' \<mapsto> fresh_run 100 None 1 False, ''leaf'' \<mapsto> fresh_run 60 (Some ''root'') 2 False],
      next_generation = 2, next_reservation = 0, outstanding = {}\<rparr>"

lemma two_level_runs [simp]:
  "runs two_level ''root'' = Some (fresh_run 100 None 1 False)"
  "runs two_level ''leaf'' = Some (fresh_run 60 (Some ''root'') 2 False)"
  "next_generation two_level = 2" "next_reservation two_level = 0" "outstanding two_level = {}"
  by (simp_all add: two_level_def)

lemma fresh_run_simps [simp]:
  "rs_budget (fresh_run b p g a) = b" "rs_reserved (fresh_run b p g a) = 0"
  "rs_spent (fresh_run b p g a) = 0" "rs_steps (fresh_run b p g a) = 0"
  "rs_parent (fresh_run b p g a) = p" "rs_generation (fresh_run b p g a) = g"
  "rs_admitted_ever (fresh_run b p g a) = a" "\<not> rs_closed (fresh_run b p g a)"
  by (simp_all add: fresh_run_def ZERO_def)

lemma two_level_opened:
  "open_run (snd (open_run new_ledger ''root'' 100 None)) ''leaf'' 60 (Some ''root'')
     = (Inr \<lparr>op_generation = 2, op_parent = Some ''root'', op_parent_disposition = Set_parent,
            op_reopened = False, op_budget = 60, op_raise_refused = None\<rparr>, two_level)"
  by (simp add: two_level_def open_run_def open_run_as_def new_ledger_def bump_def
      wrap_succ_u64_def Let_def flip: One_nat_def)

lemma two_level_reached: "ledger_run
     [Open_run ''root'' 100 None Operator, Open_run ''leaf'' 60 (Some ''root'') Operator]
     (new_ledger, []) (two_level, [])"
proof -
  let ?l = "snd (open_run new_ledger ''root'' 100 None)"
  have "next_generation ?l = 1"
    by (simp add: open_run_def open_run_as_def new_ledger_def bump_def wrap_succ_u64_def Let_def)
  then have "ledger_step (Open_run ''leaf'' 60 (Some ''root'') Operator) (?l, []) (two_level, [])"
    using two_level_opened by (intro opened) (auto simp: open_run_def U64_MAX_def)
  moreover have "ledger_step (Open_run ''root'' 100 None Operator) (new_ledger, []) (?l, [])"
    by (intro opened [where res = "fst (open_run new_ledger ''root'' 100 None)"])
      (simp_all add: open_run_def new_ledger_def U64_MAX_def)
  ultimately show ?thesis by (blast intro: run_step run_none)
qed

lemma two_level_sane: "ledger_sane two_level"
  using accounted_sane [OF accounted_run [OF two_level_reached accounted_new]] .

lemma two_level_walk:
  "walk (runs two_level) ''leaf'' =
     ([\<lparr>cl_run = ''leaf'', cl_generation = 2\<rparr>, \<lparr>cl_run = ''root'', cl_generation = 1\<rparr>], None)"
  by (simp add: walk_def walk_from.simps MAX_CHAIN_DEPTH_def)

definition two_level_hold :: reservation where
  "two_level_hold =
     \<lparr>rv_id = 1, rv_run = ''leaf'', rv_amount = 25, rv_step = 1, rv_generation = 2,
      rv_chain = [\<lparr>cl_run = ''leaf'', cl_generation = 2\<rparr>, \<lparr>cl_run = ''root'', cl_generation = 1\<rparr>]\<rparr>"

lemma two_level_reserve: "reserve two_level ''leaf'' 25 = (Inr two_level_hold, snd (reserve two_level ''leaf'' 25))"
  by (simp add: reserve_def two_level_walk two_level_hold_def exceeds_def checked_add_def
      in_i64_def machine_bounds hold_on_def grant_def bump_def wrap_succ_u64_def wrap_succ_u32_def)

lemma two_level_reserved:
  "runs (snd (reserve two_level ''leaf'' 25)) ''root''
     = Some ((fresh_run 100 None 1 True)\<lparr>rs_reserved := 25\<rparr>)"
  "runs (snd (reserve two_level ''leaf'' 25)) ''leaf''
     = Some ((fresh_run 60 (Some ''root'') 2 True)\<lparr>rs_reserved := 25, rs_steps := 1\<rparr>)"
  "outstanding (snd (reserve two_level ''leaf'' 25)) = {1}"
  by (simp_all add: reserve_def two_level_walk exceeds_def checked_add_def
      in_i64_def machine_bounds hold_on_def grant_def bump_def wrap_succ_u64_def wrap_succ_u32_def
      saturating_add_def sat_i64_def)

text \<open>C1. No oversubscription: however racing callers are ordered, the estimates admitted for runs
  whose chain passes through a run add up to no more than the room that run had left.\<close>

theorem ledger_no_oversubscription:
  assumes "ledger_sane l" and "list_all (\<lambda>(r, e). 0 \<le> e) calls"
    and "admit_all ledger_admit l calls = (l', admitted)"
    and "runs l i = Some s" and "rs_spent s + rs_reserved s \<le> rs_budget s"
  shows "sum_where (\<lambda>(r, e). i \<in> set (chain_runs (runs l) r)) snd admitted
           \<le> rs_budget s - rs_spent s - rs_reserved s"
  using ledger_adm.no_oversubscription [OF assms(1-3), of i] assms(4,5)
  by (simp add: ledger_headroom_def ledger_covers_def)

theorem ledger_no_oversubscription_witness:
  "\<exists>l' admitted.
     admit_all ledger_admit two_level [(''leaf'', 25), (''root'', 80)] = (l', admitted)
     \<and> sum_where (\<lambda>(r, e). ''root'' \<in> set (chain_runs (runs two_level) r)) snd admitted \<le> 100"
proof -
  obtain l' admitted where a: "admit_all ledger_admit two_level [(''leaf'', 25), (''root'', 80)] = (l', admitted)"
    by force
  from ledger_no_oversubscription [OF two_level_sane _ a, of "''root''" "fresh_run 100 None 1 False"] a
  show ?thesis by auto
qed

text \<open>On a known run, reserve refuses exactly when would_exceed reports an error, with that very
  error, and a refusal leaves the whole ledger as it was.\<close>

lemma reserve_refusal:
  "(case reserve l r e of
      (Inl err, l') \<Rightarrow>
         l' = l \<and> (if runs l r = None then err = UnknownRun r else would_exceed l r e = Some err)
    | (Inr rv, l') \<Rightarrow> runs l r \<noteq> None \<and> would_exceed l r e = None)"
proof (cases "runs l r")
  case None
  then show ?thesis by (simp add: reserve_def)
next
  case (Some s)
  from reserve_decides [OF this, of e] Some show ?thesis
    by (cases "reserve l r e"; cases "fst (reserve l r e)") (auto dest: reserve_Inl_unchanged)
qed

text \<open>An admitted call fits every budget on its chain exactly, with no clamping, and holds its
  estimate on every run of the chain and on nothing else; the reservation it returns carries a new
  id and the generations the chain was admitted in.\<close>

lemma reserve_effect:
  assumes "ledger_sane l" and "0 \<le> e" and "reserve l r e = (Inr rv, l')"
  shows "list_all (\<lambda>i. case (runs l i, runs l' i) of
            (Some s, Some s') \<Rightarrow>
               rs_spent s + rs_reserved s + e \<le> rs_budget s
               \<and> s' = s\<lparr>rs_reserved := rs_reserved s + e, rs_admitted_ever := True,
                        rs_steps := (if i = r then wrap_succ_u32 (rs_steps s) else rs_steps s)\<rparr>
          | _ \<Rightarrow> False) (chain_runs (runs l) r)
     \<and> (\<lambda>i. if i \<in> set (chain_runs (runs l) r) then None else runs l' i)
         = (\<lambda>i. if i \<in> set (chain_runs (runs l) r) then None else runs l i)
     \<and> map cl_run (rv_chain rv) = chain_runs (runs l) r \<and> rv_run rv = r \<and> rv_amount rv = e
     \<and> chain_ok (runs l) (rv_chain rv)
     \<and> rv_id rv = bump (next_reservation l) \<and> outstanding l' = insert (rv_id rv) (outstanding l)"
proof -
  from reserve_InrE [OF assms(3)] obtain s ls where
    w: "walk (runs l) r = (rv_chain rv, None)"
    and rv: "rv_run rv = r" "rv_amount rv = e" "rv_id rv = bump (next_reservation l)"
    and l': "runs l' = reserved_run l r e" "outstanding l' = insert (rv_id rv) (outstanding l)"
    by (metis ledger.select_convs(1,4) ledger.update_convs ledger.surjective reservation.select_convs(1,2,3,6))
  have chain: "chain_runs (runs l) r = map cl_run (rv_chain rv)" using w by (simp add: chain_runs_def)
  have "list_all (\<lambda>i. case (runs l i, runs l' i) of
            (Some s, Some s') \<Rightarrow>
               rs_spent s + rs_reserved s + e \<le> rs_budget s
               \<and> s' = s\<lparr>rs_reserved := rs_reserved s + e, rs_admitted_ever := True,
                        rs_steps := (if i = r then wrap_succ_u32 (rs_steps s) else rs_steps s)\<rparr>
          | _ \<Rightarrow> False) (chain_runs (runs l) r)"
    unfolding list_all_iff
  proof
    fix i
    assume i: "i \<in> set (chain_runs (runs l) r)"
    from reserve_link [OF assms(3,1,2) i] obtain s s' where
      s: "runs l i = Some s" "runs l' i = Some s'" "fits s e" "rs_reserved s' = rs_reserved s + e"
      by metis
    with l' i have "s' = s\<lparr>rs_reserved := rs_reserved s + e, rs_admitted_ever := True,
                        rs_steps := (if i = r then wrap_succ_u32 (rs_steps s) else rs_steps s)\<rparr>"
      by (auto simp: reserved_run_def hold_on_def)
    with s show "case (runs l i, runs l' i) of
            (Some s, Some s') \<Rightarrow>
               rs_spent s + rs_reserved s + e \<le> rs_budget s
               \<and> s' = s\<lparr>rs_reserved := rs_reserved s + e, rs_admitted_ever := True,
                        rs_steps := (if i = r then wrap_succ_u32 (rs_steps s) else rs_steps s)\<rparr>
          | _ \<Rightarrow> False"
      by (simp add: fits_def)
  qed
  moreover have "(\<lambda>i. if i \<in> set (chain_runs (runs l) r) then None else runs l' i)
         = (\<lambda>i. if i \<in> set (chain_runs (runs l) r) then None else runs l i)"
    using reserve_off_chain [OF assms(3)] by auto
  ultimately show ?thesis using chain walk_ok [OF w] rv l'(2) by simp
qed

theorem reserve_effect_witness:
  "\<exists>rv l'. reserve two_level ''leaf'' 25 = (Inr rv, l')
     \<and> map cl_run (rv_chain rv) = chain_runs (runs two_level) ''leaf'' \<and> outstanding l' = {rv_id rv}"
proof (intro exI conjI)
  show "reserve two_level ''leaf'' 25 = (Inr two_level_hold, snd (reserve two_level ''leaf'' 25))"
    by (rule two_level_reserve)
  show "map cl_run (rv_chain two_level_hold) = chain_runs (runs two_level) ''leaf''"
    "outstanding (snd (reserve two_level ''leaf'' 25)) = {rv_id two_level_hold}"
    using reserve_effect [OF two_level_sane _ two_level_reserve] by simp_all
qed

text \<open>C2. In every state a new ledger reaches, what a run has reserved is exactly the sum of the
  amounts of the outstanding reservations whose chain names the run in its present generation: no
  hold is lost and none is left behind.\<close>

theorem ledger_holds_are_outstanding:
  assumes "ledger_run calls (new_ledger, []) (l, iss)" and "runs l i = Some s"
  shows "rs_reserved s = held_for iss i s \<and> 0 \<le> rs_reserved s
     \<and> outstanding l = rv_id ` set iss \<and> distinct (map rv_id iss)"
proof -
  have acc: "accounted (l, iss)" using accounted_run [OF assms(1) accounted_new] .
  show ?thesis
    using accountedD(1,2) [OF acc] accountedD(4) [OF acc assms(2)] held_for_nonneg [OF acc]
    by (simp add: run_ok_def)
qed

lemma ledger_run_snoc: "ledger_run cs s t \<Longrightarrow> ledger_step c t u \<Longrightarrow> ledger_run (cs @ [c]) s u"
  by (induction rule: ledger_run.induct) (auto intro: ledger_run.intros)

lemma two_level_reserve_step:
  "ledger_step (Reserve ''leaf'' 25) (two_level, []) (snd (reserve two_level ''leaf'' 25), [two_level_hold])"
  by (rule reserved [OF _ _ two_level_reserve]) (simp_all add: U64_MAX_def)

theorem ledger_holds_are_outstanding_witness:
  "\<exists>calls l s. ledger_run calls (new_ledger, []) (l, [two_level_hold]) \<and> runs l ''root'' = Some s
     \<and> rs_reserved s = held_for [two_level_hold] ''root'' s \<and> rs_reserved s = 25"
proof -
  note r = ledger_run_snoc [OF two_level_reached two_level_reserve_step]
  from ledger_holds_are_outstanding [OF r two_level_reserved(1)] r two_level_reserved(1)
  show ?thesis by fastforce
qed


lemma two_level_enforced: "enforced_run (two_level, [])"
proof -
  let ?l = "snd (open_run new_ledger ''root'' 100 None)"
  have step: "ledger_step (Open_run ''root'' 100 None Operator) (new_ledger, []) (?l, [])"
    by (intro opened [where res = "fst (open_run new_ledger ''root'' 100 None)"])
      (simp_all add: open_run_def new_ledger_def U64_MAX_def)
  have one: "enforced_run (?l, [])"
    by (rule enforced_step [OF enforced_new step]) (simp add: new_ledger_def)
  have "next_generation ?l = 1" "runs ?l ''leaf'' = None"
    by (simp_all add: open_run_def open_run_as_def new_ledger_def bump_def wrap_succ_u64_def Let_def)
  then have "ledger_step (Open_run ''leaf'' 60 (Some ''root'') Operator) (?l, []) (two_level, [])"
    "disciplined (Open_run ''leaf'' 60 (Some ''root'') Operator) ?l"
    using two_level_opened by (auto intro!: opened simp: open_run_def U64_MAX_def)
  then show ?thesis using enforced_step [OF one] by simp
qed


text \<open>A reservation settles at most once: a second settle of the same id, at any cost, reports
  that it is not outstanding and changes nothing.\<close>

lemma settle_once:
  "settle (snd (settle l r a)) (r\<lparr>rv_amount := m\<rparr>) b = (NotOutstanding, snd (settle l r a))"
  by (auto simp: settle_def split: prod.splits)

text \<open>Settling an outstanding reservation moves exactly its amount out of reserved, and the
  actual cost into spent, on each run its admitted chain still names; every other run is untouched
  and every link is either charged or counted as dropped.\<close>

lemma settle_effect:
  assumes "accounted (l, iss)" and "rv \<in> set iss" and "settle l rv a = (st, l')"
  shows "runs l' = (\<lambda>i. map_option (\<lambda>s. if names_now (rv_chain rv) i s
              then s\<lparr>rs_reserved := rs_reserved s - rv_amount rv, rs_spent := saturating_add (rs_spent s) a\<rparr>
              else s) (runs l i))
     \<and> outstanding l' = outstanding l - {rv_id rv}
     \<and> (\<exists>n d. st = Applied n d \<and> n + d = length (rv_chain rv))"
proof -
  note inv = accountedD [OF assms(1)]
  note rv = inv(3) [OF assms(2)]
  have out: "rv_id rv \<in> outstanding l" using assms(2) inv(1) by simp
  from assms(3) out obtain rm n d where
    sl: "settle_links (rv_amount rv) a (rv_chain rv) (runs l) 0 0 = (rm, n, d)"
    and l': "l' = l\<lparr>runs := rm, outstanding := outstanding l - {rv_id rv}\<rparr>" and st: "st = Applied n d"
    by (auto simp: settle_def split: prod.splits)
  have dist: "distinct (map cl_run (rv_chain rv))" using rv by (simp add: issued_ok_def)
  have "rm i = map_option (\<lambda>s. if names_now (rv_chain rv) i s
              then s\<lparr>rs_reserved := rs_reserved s - rv_amount rv, rs_spent := saturating_add (rs_spent s) a\<rparr>
              else s) (runs l i)" for i
  proof (cases "runs l i")
    case None
    with settle_links_apply [OF dist, of "rv_amount rv" a "runs l" 0 0 i] sl show ?thesis by simp
  next
    case (Some s)
    have "saturating_sub (rs_reserved s) (rv_amount rv) = rs_reserved s - rv_amount rv"
      if "names_now (rv_chain rv) i s"
    proof -
      have "rv_amount rv \<le> held_for iss i s"
        unfolding held_for_def using inv(3) assms(2) that
        by (intro sum_where_member) (auto simp: issued_ok_def)
      then show ?thesis
        using inv(4) [OF Some] rv
        by (intro saturating_sub_exact) (auto simp: run_ok_def issued_ok_def in_i64_def I64_MIN_def)
    qed
    with settle_links_apply [OF dist, of "rv_amount rv" a "runs l" 0 0 i] sl Some
    show ?thesis by (simp add: charge_def)
  qed
  moreover have "n + d = length (rv_chain rv)" using settle_links_counts [OF sl] by simp
  ultimately show ?thesis using l' st by auto
qed

theorem settle_effect_witness:
  "\<exists>l' n d. settle (snd (reserve two_level ''leaf'' 25)) two_level_hold 10 = (Applied n d, l')
     \<and> n + d = 2 \<and> outstanding l' = {}
     \<and> runs l' ''root'' = Some ((fresh_run 100 None 1 True)\<lparr>rs_spent := 10\<rparr>)"
proof -
  let ?l = "snd (reserve two_level ''leaf'' 25)"
  have acc: "accounted (?l, [two_level_hold])"
    using accounted_run [OF ledger_run_snoc [OF two_level_reached two_level_reserve_step] accounted_new] .
  obtain st l' where s: "settle ?l two_level_hold 10 = (st, l')" by force
  from settle_effect [OF acc _ s] obtain n d where
    "st = Applied n d" "n + d = 2" "outstanding l' = {}"
    and r: "runs l' ''root'' = map_option (\<lambda>s. if names_now (rv_chain two_level_hold) ''root'' s
              then s\<lparr>rs_reserved := rs_reserved s - 25, rs_spent := saturating_add (rs_spent s) 10\<rparr>
              else s) (runs ?l ''root'')"
    by (auto simp: two_level_hold_def two_level_reserved)
  then show ?thesis
    using s by (auto simp: two_level_reserved two_level_hold_def names_now_def saturating_add_def
        sat_i64_def machine_bounds fresh_run_def ZERO_def)
qed

text \<open>A run that is closed and opened again starts clean, and a call of its previous life that
  settles late is charged to nothing of the new one, whatever it cost.\<close>

lemma settle_after_reopen:
  assumes "accounted (l, iss)" and "next_generation l < U64_MAX" and "rv \<in> set iss"
    and "runs l i = Some s" and "p \<noteq> Some i"
    and "open_run_as (snd (close_run l i)) i b p basis = (res, l1)"
    and "settle l1 rv a = (st, l2)"
  shows "runs l2 i = runs l1 i
     \<and> runs l1 i = Some (fresh_run b p (next_generation l + 1) False)"
proof -
  have acc: "accounted (snd (close_run l i), iss)"
    using accounted_close [OF assms(1)] by (cases "close_run l i") auto
  have g: "bump (next_generation l) = Suc (next_generation l)"
    using assms(2) by (simp add: bump_def sat_simps)
  have l1: "runs l1 i = Some (fresh_run b p (Suc (next_generation l)) False)"
    "outstanding l1 = outstanding l"
    using assms(4,5,6) by (auto simp: close_run_def open_run_as_def Let_def g)
  note rv = accountedD(3) [OF assms(1,3)]
  have "cl_generation lk \<noteq> Suc (next_generation l)" if "lk \<in> set (rv_chain rv)" for lk
    using rv that by (auto simp: issued_ok_def)
  then have "\<not> names_now (rv_chain rv) i (fresh_run b p (Suc (next_generation l)) False)"
    by (auto simp: names_now_def fresh_run_def)
  then have "runs l2 i = runs l1 i"
    using assms(7) settle_links_apply [of "rv_chain rv" "rv_amount rv" a "runs l1" 0 0 i] rv l1
    by (auto simp: settle_def issued_ok_def split: if_splits prod.splits)
  with l1 show ?thesis by simp
qed

theorem settle_after_reopen_witness:
  "let l = snd (reserve two_level ''leaf'' 25);
       l1 = snd (open_run_as (snd (close_run l ''leaf'')) ''leaf'' 60 None Operator);
       l2 = snd (settle l1 two_level_hold 99)
   in runs l2 ''leaf'' = Some (fresh_run 60 None 3 False)"
proof -
  let ?l = "snd (reserve two_level ''leaf'' 25)"
  let ?o = "open_run_as (snd (close_run ?l ''leaf'')) ''leaf'' 60 None Operator"
  have acc: "accounted (?l, [two_level_hold])"
    using accounted_run [OF ledger_run_snoc [OF two_level_reached two_level_reserve_step] accounted_new] .
  have ng: "next_generation ?l = 2"
    by (simp add: reserve_def two_level_walk exceeds_def checked_add_def in_i64_def machine_bounds
        hold_on_def grant_def Let_def)
  show ?thesis
    using settle_after_reopen [OF acc _ _ two_level_reserved(2), of two_level_hold None 60 Operator
        "fst ?o" "snd ?o" 99 "fst (settle (snd ?o) two_level_hold 99)" "snd (settle (snd ?o) two_level_hold 99)"]
    by (simp add: ng U64_MAX_def)
qed

text \<open>Opening a run: a refusal changes nothing; a new or closed run starts with empty accounts
  in a new generation; a live run keeps its generation, accounts and parent (a parent is only ever
  adopted, and only before the run was first admitted), and its budget becomes what an operator
  asks but never rises above what it was when a caller asks.\<close>

lemma open_run_as_contract:
  "(case open_run_as l r b p basis of
      (Inl err, l') \<Rightarrow> l' = l
    | (Inr opd, l') \<Rightarrow>
        (\<exists>s'. runs l' = (runs l)(r \<mapsto> s') \<and> op_budget opd = rs_budget s'
           \<and> op_generation opd = rs_generation s' \<and> op_parent opd = rs_parent s'
           \<and> outstanding l' = outstanding l \<and> p \<noteq> Some r
           \<and> (case runs l r of
                None \<Rightarrow> s' = fresh_run b p (bump (next_generation l)) False
              | Some s \<Rightarrow>
                  if rs_closed s then s' = fresh_run b p (bump (next_generation l)) False
                  else s' = s\<lparr>rs_parent := rs_parent s',
                              rs_budget := (case basis of Operator \<Rightarrow> b | Caller \<Rightarrow> min b (rs_budget s))\<rparr>
                     \<and> (rs_parent s' = rs_parent s
                        \<or> (rs_parent s = None \<and> rs_admitted_ever s = False \<and> rs_parent s' = p))
                     \<and> next_generation l' = next_generation l)))"
  by (auto simp: open_run_as_def parent_decision_def effective_budget_def Let_def fresh_run_def min_def
      split: if_splits option.splits sum.splits prod.splits budget_basis.splits)

text \<open>Recovery restores the books: after a restart, the ledger rebuilt from the outstanding
  entries accounts for exactly the reservations it reports restored, and its counters are past
  every id and generation they name, so neither is issued again.\<close>

lemma restore_accounts:
  assumes "restore_outstanding new_ledger es = (res, l')"
    and "restore_select {} {} es = (invalid, duplicate, valid)"
    and "list_all (\<lambda>e. restorable (oe_reservation e)) valid"
    and "sum_list (map (\<lambda>e. rv_amount (oe_reservation e)) valid) \<le> I64_MAX"
  shows "accounted (l', map oe_reservation valid)
     \<and> rd_restored res = map (\<lambda>e. rv_id (oe_reservation e)) valid
     \<and> length (rd_restored res) + rd_duplicate res + rd_invalid res = length es"
proof -
  have "accounted (l', map oe_reservation valid)"
    by (rule restore_accounted [OF assms(1,2) _ assms(4)]) (use assms(3) in \<open>simp add: list_all_iff\<close>)
  moreover have "rd_restored res = map (\<lambda>e. rv_id (oe_reservation e)) valid"
    "rd_duplicate res = duplicate" "rd_invalid res = invalid"
    using assms(1,2) by (auto simp: restore_outstanding_def new_ledger_def Let_def split: prod.splits)
  moreover have "invalid + duplicate + length valid = length es"
    using restore_select_valid [OF assms(2)] by simp
  ultimately show ?thesis by simp
qed

theorem restore_accounts_witness:
  "\<exists>l'. restore_outstanding new_ledger [\<lparr>oe_reservation = two_level_hold, oe_tail_parent = None\<rparr>]
        = (\<lparr>rd_restored = [1], rd_duplicate = 0, rd_invalid = 0, rd_links_dropped = 0,
            rd_runs_created = [(''leaf'', 2), (''root'', 1)]\<rparr>, l')
     \<and> accounted (l', [two_level_hold])"
proof -
  let ?e = "\<lparr>oe_reservation = two_level_hold, oe_tail_parent = None\<rparr>"
  have sel: "restore_select {} {} [?e] = (0, 0, [?e])"
    by (simp add: well_formed_entry_def two_level_hold_def Let_def ZERO_def)
  have names: "link_names (all_links [?e]) = [''leaf'', ''root'']"
    by (simp add: link_names_def all_links_def two_level_hold_def less_eq_char_def)
  have r: "restore_outstanding new_ledger [?e] =
      (\<lparr>rd_restored = [1], rd_duplicate = 0, rd_invalid = 0, rd_links_dropped = 0,
        rd_runs_created = [(''leaf'', 2), (''root'', 1)]\<rparr>,
       snd (restore_outstanding new_ledger [?e]))"
    using sel names
    by (simp add: restore_outstanding_def new_ledger_def Let_def)
      (simp add: all_links_def generation_of_def two_level_hold_def Let_def well_formed_entry_def)
  from restore_accounts [OF r sel] show ?thesis
    using r by (auto simp: restorable_def two_level_hold_def I64_MAX_def)
qed

text \<open>Recovery is idempotent: restoring the same entries again finds every well-formed one a
  duplicate and leaves the ledger as it is.\<close>

lemma restore_idempotent:
  "restore_outstanding (snd (restore_outstanding l es)) es =
     (\<lparr>rd_restored = [], rd_duplicate = length (filter well_formed_entry es),
       rd_invalid = length (filter (\<lambda>e. \<not> well_formed_entry e) es), rd_links_dropped = 0,
       rd_runs_created = []\<rparr>, snd (restore_outstanding l es))"
  by (rule restore_again [where res = "fst (restore_outstanding l es)"]) simp

section \<open>The walk ends\<close>

text \<open>One pass through the loop of \<open>walk\<close>, and the loop run for a number of passes.\<close>

definition walk_pass ::
  "run_map \<Rightarrow> string option \<times> chain_link list \<Rightarrow> (string option \<times> chain_link list) + (chain_link list \<times> stop option)" where
  "walk_pass rm = (\<lambda>(cur, links).
     (case cur of
        None \<Rightarrow> Inr (links, None)
      | Some i \<Rightarrow>
          if i \<in> set (map cl_run links) then Inr (links, None)
          else if MAX_CHAIN_DEPTH \<le> length links
          then Inr (links, Some (StopTooDeep (if links = [] then [] else cl_run (last links)) i))
          else (case rm i of
                  None \<Rightarrow> Inr (links, Some (StopUnknownParent i))
                | Some s \<Rightarrow>
                    if rs_closed s then Inr (links, Some (StopClosed i))
                    else Inl (rs_parent s, links @ [\<lparr>cl_run = i, cl_generation = rs_generation s\<rparr>]))))"

fun walk_loop :: "run_map \<Rightarrow> nat \<Rightarrow> string option \<times> chain_link list \<Rightarrow> (chain_link list \<times> stop option) option" where
  "walk_loop rm 0 c = None"
| "walk_loop rm (Suc n) c = (case walk_pass rm c of Inr out \<Rightarrow> Some out | Inl c' \<Rightarrow> walk_loop rm n c')"

lemma walk_loop_from:
  "MAX_CHAIN_DEPTH - length links < n \<Longrightarrow> walk_loop rm n (cur, links) = Some (walk_from rm cur links)"
proof (induction n arbitrary: cur links)
  case (Suc n)
  show ?case
  proof (cases "walk_pass rm (cur, links)")
    case (Inr out)
    then show ?thesis
      by (auto simp: walk_pass_def walk_from.simps [of rm cur links] split: option.splits if_splits)
  next
    case (Inl c')
    obtain cur' links' where c: "c' = (cur', links')" by (rule prod.exhaust)
    have "walk_from rm cur links = walk_from rm cur' links'" "length links' = Suc (length links)" "length links < MAX_CHAIN_DEPTH"
      using Inl by (auto simp: c walk_pass_def walk_from.simps [of rm cur links] split: option.splits if_splits)
    with Suc Inl show ?thesis by (simp add: c)
  qed
qed simp

text \<open>C33. The walk up a run's ancestors ends on every table of runs, one with a cycle of parents included: at most 65
  passes of its loop give its result, and the chain it returns names each run once, links each to its parent, and
  holds no closed run and no more than 64.\<close>

theorem walk_ends:
  shows "walk_loop rm (Suc MAX_CHAIN_DEPTH) (Some r, []) = Some (walk rm r)
    \<and> length (fst (walk rm r)) \<le> MAX_CHAIN_DEPTH \<and> distinct (map cl_run (fst (walk rm r)))
    \<and> chain_ok rm (fst (walk rm r))"
proof -
  have "chain_ok rm (fst (walk rm r))" by (rule walk_ok) (rule prod.collapse [symmetric])
  then show ?thesis
    using walk_loop_from [of "[]" "Suc MAX_CHAIN_DEPTH" rm "Some r"] by (simp add: walk_def chain_ok_def)
qed

end
