(* ===== verification/Raft_Ledger.thy ===== *)
theory Raft_Ledger
  imports Prelude Interfaces
begin

text \<open>
  \<open>crates/cluster/src/types.rs\<close>: the replicated budget ledger, as the state machine every raft
  node applies the committed log to. Amounts are \<open>u64\<close> microdollars, natural numbers here with
  the saturation at \<open>u64::MAX\<close> written out. The \<open>BTreeMap\<close> of runs is a partial function: nothing
  in \<open>apply\<close> iterates it.
\<close>

section \<open>Data\<close>

datatype request =
    ROpen (ro_run: string) (ro_budget: nat) (ro_parent: "string option")
  | RReserve (rr_run: string) (rr_micros: nat)
  | RSettle (rt_run: string) (rt_reserved: nat) (rt_actual: nat)

record response =
  rp_accepted :: bool
  rp_spent :: nat
  rp_reserved :: nat
  rp_budget :: nat
  rp_step :: nat
  rp_blocked :: "string option"
  rp_reason :: string

record raft_run =
  rr_budget :: nat
  rr_reserved :: nat
  rr_spent :: nat
  rr_steps :: nat
  rr_parent :: "string option"

type_synonym raft_state = "string \<rightharpoonup> raft_run"

definition RAFT_MAX_CHAIN_DEPTH :: nat where
  "RAFT_MAX_CHAIN_DEPTH = 64"

definition raft_default :: raft_run where
  "raft_default = \<lparr>rr_budget = 0, rr_reserved = 0, rr_spent = 0, rr_steps = 0, rr_parent = None\<rparr>"

definition default_response :: response where
  "default_response =
     \<lparr>rp_accepted = False, rp_spent = 0, rp_reserved = 0, rp_budget = 0, rp_step = 0,
      rp_blocked = None, rp_reason = []\<rparr>"

definition committed :: "raft_run \<Rightarrow> nat" where
  "committed s = sat_u64 (rr_spent s + rr_reserved s)"

section \<open>The chain\<close>

text \<open>The \<open>while let\<close> loop of \<open>LedgerState::chain\<close>: a cycle, the cap and a missing run all end it.\<close>

function raft_chain_from :: "raft_state \<Rightarrow> string option \<Rightarrow> string list \<Rightarrow> string list" where
  "raft_chain_from st cur ids =
     (case cur of
        None \<Rightarrow> ids
      | Some i \<Rightarrow>
          if i \<in> set ids \<or> RAFT_MAX_CHAIN_DEPTH \<le> length ids then ids
          else case st i of
              None \<Rightarrow> ids
            | Some s \<Rightarrow> raft_chain_from st (rr_parent s) (ids @ [i]))"
  by pat_completeness auto
termination
  by (relation "measure (\<lambda>(st, cur, ids). RAFT_MAX_CHAIN_DEPTH - length ids)") auto

declare raft_chain_from.simps [simp del]

definition raft_chain :: "raft_state \<Rightarrow> string \<Rightarrow> string list" where
  "raft_chain st r = raft_chain_from st (Some r) []"

section \<open>Applying one request\<close>

definition leaf_response :: "raft_state \<Rightarrow> string \<Rightarrow> bool \<Rightarrow> response" where
  "leaf_response st r accepted =
     (let s = (case st r of None \<Rightarrow> raft_default | Some s \<Rightarrow> s)
      in \<lparr>rp_accepted = accepted, rp_spent = rr_spent s, rp_reserved = rr_reserved s,
          rp_budget = rr_budget s, rp_step = rr_steps s, rp_blocked = None, rp_reason = []\<rparr>)"

definition would_commit :: "raft_run \<Rightarrow> nat \<Rightarrow> nat" where
  "would_commit s micros = sat_u64 (committed s + micros)"

text \<open>\<open>format!("budget_exceeded on '{id}': need {would} uUSD > budget {} uUSD", ...)\<close>, in UTF-8.\<close>

definition micro_usd :: string where
  "micro_usd = CHR 0xC2 # CHR 0xB5 # ''USD''"

definition exceeded_reason :: "string \<Rightarrow> nat \<Rightarrow> nat \<Rightarrow> string" where
  "exceeded_reason i would budget =
     ''budget_exceeded on '' @ [CHR 0x27] @ i @ [CHR 0x27] @ '': need '' @ show_nat would @ '' ''
     @ micro_usd @ '' > budget '' @ show_nat budget @ '' '' @ micro_usd"

text \<open>The check loop: the first run on the chain the estimate does not fit.\<close>

fun raft_blocked :: "raft_state \<Rightarrow> string list \<Rightarrow> nat \<Rightarrow> (string \<times> raft_run) option" where
  "raft_blocked st [] micros = None"
| "raft_blocked st (i # is) micros =
     (case st i of
        None \<Rightarrow> raft_blocked st is micros
      | Some s \<Rightarrow> if rr_budget s < would_commit s micros then Some (i, s) else raft_blocked st is micros)"

definition raft_hold :: "nat \<Rightarrow> raft_run \<Rightarrow> raft_run" where
  "raft_hold micros s = s\<lparr>rr_reserved := sat_u64 (rr_reserved s + micros)\<rparr>"

definition raft_charge :: "nat \<Rightarrow> nat \<Rightarrow> raft_run \<Rightarrow> raft_run" where
  "raft_charge held actual s =
     s\<lparr>rr_reserved := rr_reserved s - held, rr_spent := sat_u64 (rr_spent s + actual)\<rparr>"

text \<open>\<open>for id in &ids { if let Some(s) = self.runs.get_mut(id) { ... } }\<close>\<close>

fun update_all :: "(raft_run \<Rightarrow> raft_run) \<Rightarrow> string list \<Rightarrow> raft_state \<Rightarrow> raft_state" where
  "update_all f [] st = st"
| "update_all f (i # is) st =
     update_all f is (case st i of None \<Rightarrow> st | Some s \<Rightarrow> st(i \<mapsto> f s))"

definition bump_step :: "raft_run \<Rightarrow> raft_run" where
  "bump_step s = s\<lparr>rr_steps := wrap_succ_u32 (rr_steps s)\<rparr>"

fun raft_apply :: "raft_state \<Rightarrow> request \<Rightarrow> response \<times> raft_state" where
  "raft_apply st (ROpen r budget parent) =
     (let st' = (case st r of
                   Some s \<Rightarrow> st(r \<mapsto> s\<lparr>rr_budget := budget\<rparr>)
                 | None \<Rightarrow> st(r \<mapsto> raft_default\<lparr>rr_budget := budget, rr_parent := parent\<rparr>))
      in (leaf_response st' r True, st'))"
| "raft_apply st (RReserve r micros) =
     (case st r of
        None \<Rightarrow> ((leaf_response st r False)\<lparr>rp_blocked := Some r, rp_reason := ''unknown_run: '' @ r\<rparr>, st)
      | Some leaf \<Rightarrow>
          (case raft_blocked st (raft_chain st r) micros of
             Some (i, s) \<Rightarrow>
               (\<lparr>rp_accepted = False, rp_spent = rr_spent s, rp_reserved = rr_reserved s,
                 rp_budget = rr_budget s, rp_step = rr_steps leaf, rp_blocked = Some i,
                 rp_reason = exceeded_reason i (would_commit s micros) (rr_budget s)\<rparr>, st)
           | None \<Rightarrow>
               let st1 = update_all (raft_hold micros) (raft_chain st r) st;
                   st2 = update_all bump_step [r] st1
               in (leaf_response st2 r True, st2)))"
| "raft_apply st (RSettle r held actual) =
     (let st' = update_all (raft_charge held actual) (raft_chain st r) st
      in (leaf_response st' r True, st'))"

section \<open>The chain satisfies the chain contract\<close>

definition raft_enterable :: "raft_state \<Rightarrow> string \<Rightarrow> string option option" where
  "raft_enterable st i = map_option rr_parent (st i)"

definition raft_chain_ok :: "raft_state \<Rightarrow> string list \<Rightarrow> bool" where
  "raft_chain_ok st ids \<longleftrightarrow>
     distinct ids \<and> length ids \<le> RAFT_MAX_CHAIN_DEPTH \<and> (\<forall>i \<in> set ids. st i \<noteq> None)
     \<and> (\<forall>n. Suc n < length ids \<longrightarrow> raft_enterable st (ids ! n) = Some (Some (ids ! Suc n)))"

lemma raft_chain_ok_snoc:
  assumes "raft_chain_ok st ids" and "st i = Some s" and "i \<notin> set ids"
    and "length ids < RAFT_MAX_CHAIN_DEPTH"
    and "ids \<noteq> [] \<Longrightarrow> raft_enterable st (last ids) = Some (Some i)"
  shows "raft_chain_ok st (ids @ [i])"
proof -
  have "raft_enterable st ((ids @ [i]) ! n) = Some (Some ((ids @ [i]) ! Suc n))"
    if "Suc n < length (ids @ [i])" for n
  proof (cases "Suc n < length ids")
    case True
    with assms(1) show ?thesis by (simp add: raft_chain_ok_def nth_append)
  next
    case False
    with that have n: "length ids = Suc n" by simp
    then have ne: "ids \<noteq> []" by auto
    have "ids ! n = last ids" using n ne by (simp add: last_conv_nth)
    with assms(5) ne n show ?thesis by (simp add: nth_append)
  qed
  with assms show ?thesis by (auto simp: raft_chain_ok_def)
qed

lemma raft_chain_from_ok:
  "raft_chain_ok st ids \<Longrightarrow> (ids \<noteq> [] \<Longrightarrow> raft_enterable st (last ids) = Some cur) \<Longrightarrow>
     raft_chain_ok st (raft_chain_from st cur ids) \<and> (\<exists>suf. raft_chain_from st cur ids = ids @ suf)"
proof (induction st cur ids rule: raft_chain_from.induct)
  case (1 st cur ids)
  show ?case
  proof (cases "\<exists>i s. cur = Some i \<and> i \<notin> set ids \<and> \<not> RAFT_MAX_CHAIN_DEPTH \<le> length ids \<and> st i = Some s")
    case False
    then have "raft_chain_from st cur ids = ids"
      by (auto simp: raft_chain_from.simps [of st cur ids] split: option.splits)
    with "1.prems" show ?thesis by simp
  next
    case True
    then obtain i s where i: "cur = Some i" "i \<notin> set ids" "\<not> RAFT_MAX_CHAIN_DEPTH \<le> length ids" "st i = Some s"
      by blast
    have step: "raft_chain_from st cur ids = raft_chain_from st (rr_parent s) (ids @ [i])"
      using i by (simp add: raft_chain_from.simps [of st "Some i" ids])
    have "raft_chain_ok st (ids @ [i])"
      using raft_chain_ok_snoc [OF "1.prems"(1) i(4,2)] i(3) "1.prems"(2) i(1) by simp
    with "1.IH" [OF i(1) _ i(4)] i show ?thesis
      unfolding step by (auto simp: raft_enterable_def)
  qed
qed

lemma raft_chain_is_ok: "raft_chain_ok st (raft_chain st r)"
  unfolding raft_chain_def
  using raft_chain_from_ok [of st "[]" "Some r"] by (simp add: raft_chain_ok_def)

lemma raft_chain_head:
  assumes "st r = Some s"
  shows "\<exists>suf. raft_chain st r = r # suf"
proof -
  have "raft_chain st r = raft_chain_from st (rr_parent s) [r]"
    using assms by (simp add: raft_chain_def raft_chain_from.simps [of st "Some r" "[]"] RAFT_MAX_CHAIN_DEPTH_def)
  moreover have "raft_chain_ok st [r]"
    using assms by (simp add: raft_chain_ok_def RAFT_MAX_CHAIN_DEPTH_def)
  ultimately show ?thesis
    using raft_chain_from_ok [of st "[r]" "rr_parent s"] assms by (auto simp: raft_enterable_def)
qed

interpretation raft_parents: parent_chain raft_enterable raft_chain RAFT_MAX_CHAIN_DEPTH
proof unfold_locales
  fix st r
  note ok = raft_chain_is_ok [of st r]
  show "distinct (raft_chain st r)" "length (raft_chain st r) \<le> RAFT_MAX_CHAIN_DEPTH"
    using ok by (simp_all add: raft_chain_ok_def)
  show "raft_enterable st r \<noteq> None \<Longrightarrow> \<exists>ks. raft_chain st r = r # ks"
    using raft_chain_head [of st r] by (auto simp: raft_enterable_def)
  show "raft_enterable st i \<noteq> None" if "i \<in> set (raft_chain st r)" for i
    using ok that by (auto simp: raft_chain_ok_def raft_enterable_def)
  show "raft_enterable st (raft_chain st r ! n) = Some (Some (raft_chain st r ! Suc n))"
    if "Suc n < length (raft_chain st r)" for n
    using ok that by (simp add: raft_chain_ok_def)
qed

end
