(* ===== verification/Raft_Facts.thy ===== *)
theory Raft_Facts
  imports Raft_Ledger
begin

text \<open>
  What the replicated ledger's \<open>apply\<close> does on every branch, its interpretation as an admission
  control, and the properties of the log order.
\<close>

lemma update_all_apply:
  "distinct is \<Longrightarrow> update_all f is st k = (if k \<in> set is then map_option f (st k) else st k)"
  by (induction "is" arbitrary: st) (auto split: option.splits)

lemma raft_blocked_None_iff:
  "raft_blocked st ids m = None \<longleftrightarrow>
     (\<forall>i \<in> set ids. \<forall>s. st i = Some s \<longrightarrow> would_commit s m \<le> rr_budget s)"
  by (induction ids) (auto split: option.splits simp: not_less)

lemma raft_blocked_SomeD:
  "raft_blocked st ids m = Some (i, s) \<Longrightarrow>
     i \<in> set ids \<and> st i = Some s \<and> rr_budget s < would_commit s m"
  by (induction ids) (auto split: option.splits if_splits)

lemma raft_chain_from_same_parents:
  "(\<And>i. map_option rr_parent (st i) = map_option rr_parent (st' i)) \<Longrightarrow>
     raft_chain_from st' cur ids = raft_chain_from st cur ids"
proof (induction st cur ids rule: raft_chain_from.induct)
  case (1 st cur ids)
  show ?case
  proof (cases "\<exists>i s. cur = Some i \<and> i \<notin> set ids \<and> \<not> RAFT_MAX_CHAIN_DEPTH \<le> length ids \<and> st i = Some s")
    case False
    have "st' i = None" if "st i = None" for i
      using "1.prems" [of i] that by simp
    with False show ?thesis
      by (auto simp: raft_chain_from.simps [of _ cur ids] split: option.splits)
  next
    case True
    then obtain i s where i: "cur = Some i" "i \<notin> set ids" "\<not> RAFT_MAX_CHAIN_DEPTH \<le> length ids" "st i = Some s"
      by blast
    then obtain s' where s': "st' i = Some s'" "rr_parent s' = rr_parent s"
      using "1.prems" [of i] by (cases "st' i") auto
    have "\<not> (i \<in> set ids \<or> RAFT_MAX_CHAIN_DEPTH \<le> length ids)" using i by simp
    note ih = "1.IH" [OF i(1) this i(4) "1.prems"]
    show ?thesis
      unfolding raft_chain_from.simps [of st cur ids] raft_chain_from.simps [of st' cur ids]
      using i s' ih by simp
  qed
qed

lemma raft_chain_same_parents:
  "(\<And>i. map_option rr_parent (st i) = map_option rr_parent (st' i)) \<Longrightarrow> raft_chain st' r = raft_chain st r"
  unfolding raft_chain_def by (rule raft_chain_from_same_parents)

section \<open>Reserve\<close>

definition raft_fits :: "nat \<Rightarrow> raft_run \<Rightarrow> bool" where
  "raft_fits m s \<longleftrightarrow> would_commit s m \<le> rr_budget s"

lemma raft_reserve_accepts:
  assumes "raft_apply st (RReserve r m) = (rsp, st')"
  shows "rp_accepted rsp \<longleftrightarrow>
     st r \<noteq> None \<and> (\<forall>i \<in> set (raft_chain st r). \<forall>s. st i = Some s \<longrightarrow> raft_fits m s)"
proof (cases "raft_blocked st (raft_chain st r) m")
  case None
  with assms show ?thesis
    unfolding raft_fits_def raft_blocked_None_iff [symmetric]
    by (auto simp: leaf_response_def Let_def split: option.splits)
next
  case (Some p)
  obtain i s where "p = (i, s)" by force
  with Some assms show ?thesis
    unfolding raft_fits_def raft_blocked_None_iff [symmetric]
    by (auto simp: leaf_response_def Let_def split: option.splits)
qed

lemma raft_reserve_rejected: "raft_apply st (RReserve r m) = (rsp, st') \<Longrightarrow> \<not> rp_accepted rsp \<Longrightarrow> st' = st"
  by (auto simp: leaf_response_def Let_def split: option.splits prod.splits)

lemma raft_reserve_accepted:
  assumes "raft_apply st (RReserve r m) = (rsp, st')" and "rp_accepted rsp"
  shows "st' k = (if k \<in> set (raft_chain st r)
      then map_option (\<lambda>s. if k = r then bump_step (raft_hold m s) else raft_hold m s) (st k) else st k)"
proof -
  from assms raft_reserve_accepts [OF assms(1)] obtain leaf where leaf: "st r = Some leaf" by auto
  have d: "distinct (raft_chain st r)" by (rule raft_parents.chain_distinct)
  have mem: "r \<in> set (raft_chain st r)" using raft_chain_head [of st r] leaf by fastforce
  have "raft_blocked st (raft_chain st r) m = None"
    using assms raft_reserve_accepts [OF assms(1)]
    by (simp add: raft_blocked_None_iff raft_fits_def)
  then have "st' = update_all bump_step [r] (update_all (raft_hold m) (raft_chain st r) st)"
    using assms(1) leaf by (simp add: Let_def)
  then show ?thesis
    using leaf mem update_all_apply [OF d, of "raft_hold m" st]
    by (auto split: option.splits)
qed

lemma raft_reserve_parents: "raft_apply st (RReserve r m) = (rsp, st') \<Longrightarrow>
    map_option rr_parent (st i) = map_option rr_parent (st' i)"
  using raft_reserve_rejected [of st r m rsp st'] raft_reserve_accepted [of st r m rsp st' i]
  by (cases "rp_accepted rsp"; cases "st i") (auto simp: raft_hold_def bump_step_def)

section \<open>The replicated ledger as an admission control\<close>

definition raft_admit :: "raft_state \<Rightarrow> string \<Rightarrow> int \<Rightarrow> raft_state option" where
  "raft_admit st r e =
     (case raft_apply st (RReserve r (nat e)) of (rsp, st') \<Rightarrow> if rp_accepted rsp then Some st' else None)"

definition raft_covers :: "raft_state \<Rightarrow> string \<Rightarrow> string set" where
  "raft_covers st r = set (raft_chain st r)"

definition raft_headroom :: "raft_state \<Rightarrow> string \<Rightarrow> int" where
  "raft_headroom st i =
     (case st i of None \<Rightarrow> 0 | Some s \<Rightarrow> int (rr_budget s) - int (rr_spent s) - int (rr_reserved s))"

text \<open>No budget is the largest \<open>u64\<close>, where a saturated sum would still fit.\<close>

definition raft_bounded :: "raft_state \<Rightarrow> bool" where
  "raft_bounded st \<longleftrightarrow> (\<forall>i s. st i = Some s \<longrightarrow> rr_budget s < U64_MAX)"

lemma raft_fits_exact:
  assumes "raft_fits m s" and "rr_budget s < U64_MAX"
  shows "rr_spent s + rr_reserved s + m \<le> rr_budget s"
    and "rr_reserved (raft_hold m s) = rr_reserved s + m"
  using assms by (auto simp: raft_fits_def would_commit_def committed_def sat_u64_def raft_hold_def
      min_def split: if_splits)

interpretation raft_adm: admission_control raft_admit raft_covers raft_headroom raft_bounded
proof unfold_locales
  fix st :: raft_state and r :: string and e :: int and st'
  assume v: "raft_bounded st" and adm: "raft_admit st r e = Some st'"
  obtain rsp where a: "raft_apply st (RReserve r (nat e)) = (rsp, st')" "rp_accepted rsp"
    using adm by (auto simp: raft_admit_def split: prod.splits if_splits)
  note acc = raft_reserve_accepts [OF a(1)] a(2)
  note eff = raft_reserve_accepted [OF a]
  obtain leaf where leaf: "st r = Some leaf" using acc by auto
  show "r \<in> raft_covers st r" using raft_chain_head [of st r] leaf by (auto simp: raft_covers_def)
  show "raft_covers st' = raft_covers st"
    using raft_chain_same_parents [of st st'] raft_reserve_parents [OF a(1)]
    by (auto simp: raft_covers_def)
  assume e: "0 \<le> e"
  show "raft_bounded st'"
    unfolding raft_bounded_def
  proof (intro allI impI)
    fix i t
    assume t: "st' i = Some t"
    obtain s where "st i = Some s" "rr_budget t = rr_budget s"
      using eff [of i] t by (cases "st i") (auto simp: raft_hold_def bump_step_def split: if_splits)
    with v show "rr_budget t < U64_MAX" by (simp add: raft_bounded_def)
  qed
  fix i
  show "raft_headroom st' i = raft_headroom st i" if "i \<notin> raft_covers st r"
    using eff [of i] that by (simp add: raft_headroom_def raft_covers_def)
  show "raft_headroom st' i = raft_headroom st i - e \<and> 0 \<le> raft_headroom st' i"
    if i: "i \<in> raft_covers st r"
  proof -
    from i have mem: "i \<in> set (raft_chain st r)" by (simp add: raft_covers_def)
    then obtain s where s: "st i = Some s"
      using raft_parents.chain_enters [of i st r] by (auto simp: raft_enterable_def)
    have fit: "raft_fits (nat e) s" using acc mem s by blast
    have b: "rr_budget s < U64_MAX" using v s by (simp add: raft_bounded_def)
    note ex = raft_fits_exact [OF fit b]
    obtain t where t: "st' i = Some t" "rr_budget t = rr_budget s" "rr_spent t = rr_spent s"
      "rr_reserved t = rr_reserved s + nat e"
      using eff [of i] mem s ex(2) by (auto simp: bump_step_def raft_hold_def)
    show ?thesis
      using s t ex(1) e by (simp add: raft_headroom_def)
  qed
qed

end
