(* ===== verification/Raft_Store.thy ===== *)
theory Raft_Store
  imports Raft_Ledger
begin

text \<open>
  \<open>crates/cluster/src/store.rs\<close>: the in-memory raft log and the state-machine store. The types
  of the raft library are parameters: \<open>'n\<close> is a leader id, \<open>'v\<close> a vote, \<open>'m\<close> a membership, and
  the JSON encoding of a snapshot is a pair of functions \<open>ser\<close> and \<open>deser\<close> over bytes \<open>'b\<close>. The
  log is a \<open>BTreeMap\<close> the code iterates, kept as its entries in key order.
\<close>

section \<open>Data\<close>

record 'n log_id =
  lid_leader :: 'n
  lid_index :: nat

datatype 'm payload = Blank | Normal request | Membership 'm

record ('n, 'm) log_entry =
  en_id :: "'n log_id"
  en_payload :: "'m payload"

record ('n, 'm, 'v) log_inner =
  lg_vote :: "'v option"
  lg_log :: "(nat \<times> ('n, 'm) log_entry) list"
  lg_committed :: "'n log_id option"
  lg_purged :: "'n log_id option"

type_synonym ('n, 'm) stored_membership = "'n log_id option \<times> 'm"

record ('n, 'm) snapshot_meta =
  sm_last_log_id :: "'n log_id option"
  sm_last_membership :: "('n, 'm) stored_membership"
  sm_snapshot_id :: string

record ('n, 'm, 'b) stored_snapshot =
  ss_meta :: "('n, 'm) snapshot_meta"
  ss_data :: 'b

record ('n, 'm, 'b) sm_inner =
  si_last_applied :: "'n log_id option"
  si_last_membership :: "('n, 'm) stored_membership"
  si_ledger :: raft_state
  si_snapshot_idx :: nat
  si_current_snapshot :: "('n, 'm, 'b) stored_snapshot option"

section \<open>The log store\<close>

text \<open>\<open>bounds\<close> is membership in the \<open>RangeBounds\<close> argument.\<close>

definition try_get_log_entries ::
  "('n, 'm, 'v) log_inner \<Rightarrow> (nat \<Rightarrow> bool) \<Rightarrow> ('n, 'm) log_entry list" where
  "try_get_log_entries lg bounds = map snd (filter (\<lambda>(k, e). bounds k) (lg_log lg))"

definition get_log_state :: "('n, 'm, 'v) log_inner \<Rightarrow> 'n log_id option \<times> 'n log_id option" where
  "get_log_state lg =
     (lg_purged lg,
      if lg_log lg = [] then lg_purged lg else Some (en_id (snd (last (lg_log lg)))))"

definition save_vote :: "('n, 'm, 'v) log_inner \<Rightarrow> 'v \<Rightarrow> ('n, 'm, 'v) log_inner" where
  "save_vote lg v = lg\<lparr>lg_vote := Some v\<rparr>"

definition read_vote :: "('n, 'm, 'v) log_inner \<Rightarrow> 'v option" where
  "read_vote lg = lg_vote lg"

definition save_committed ::
  "('n, 'm, 'v) log_inner \<Rightarrow> 'n log_id option \<Rightarrow> ('n, 'm, 'v) log_inner" where
  "save_committed lg c = lg\<lparr>lg_committed := c\<rparr>"

definition read_committed :: "('n, 'm, 'v) log_inner \<Rightarrow> 'n log_id option" where
  "read_committed lg = lg_committed lg"

definition log_append ::
  "('n, 'm, 'v) log_inner \<Rightarrow> ('n, 'm) log_entry list \<Rightarrow> ('n, 'm, 'v) log_inner" where
  "log_append lg es =
     lg\<lparr>lg_log := fold (\<lambda>e m. bt_insert (lid_index (en_id e)) e m) es (lg_log lg)\<rparr>"

definition log_truncate :: "('n, 'm, 'v) log_inner \<Rightarrow> 'n log_id \<Rightarrow> ('n, 'm, 'v) log_inner" where
  "log_truncate lg i = lg\<lparr>lg_log := filter (\<lambda>(k, e). \<not> lid_index i \<le> k) (lg_log lg)\<rparr>"

definition log_purge :: "('n, 'm, 'v) log_inner \<Rightarrow> 'n log_id \<Rightarrow> ('n, 'm, 'v) log_inner" where
  "log_purge lg i =
     lg\<lparr>lg_purged := Some i, lg_log := filter (\<lambda>(k, e). \<not> k \<le> lid_index i) (lg_log lg)\<rparr>"

section \<open>The state machine store\<close>

fun apply_entries ::
  "('n, 'm, 'b) sm_inner \<Rightarrow> ('n, 'm) log_entry list \<Rightarrow> response list \<times> ('n, 'm, 'b) sm_inner" where
  "apply_entries sm [] = ([], sm)"
| "apply_entries sm (e # es) =
     (let sm1 = sm\<lparr>si_last_applied := Some (en_id e)\<rparr>;
          (rsp, sm2) =
            (case en_payload e of
               Blank \<Rightarrow> (default_response, sm1)
             | Normal req \<Rightarrow>
                 let (r, l) = raft_apply (si_ledger sm1) req in (r, sm1\<lparr>si_ledger := l\<rparr>)
             | Membership m \<Rightarrow>
                 (default_response, sm1\<lparr>si_last_membership := (Some (en_id e), m)\<rparr>));
          (rsps, sm3) = apply_entries sm2 es
      in (rsp # rsps, sm3))"

definition applied_state ::
  "('n, 'm, 'b) sm_inner \<Rightarrow> 'n log_id option \<times> ('n, 'm) stored_membership" where
  "applied_state sm = (si_last_applied sm, si_last_membership sm)"

text \<open>\<open>show_leader\<close> is the raft library's \<open>Display\<close> of a leader id.\<close>

definition snapshot_name :: "('n \<Rightarrow> string) \<Rightarrow> 'n log_id option \<Rightarrow> nat \<Rightarrow> string" where
  "snapshot_name show_leader applied idx =
     (case applied of
        Some i \<Rightarrow> show_leader (lid_leader i) @ ''-'' @ show_nat (lid_index i) @ ''-'' @ show_nat idx
      | None \<Rightarrow> ''--'' @ show_nat idx)"

definition build_snapshot ::
  "(raft_state \<Rightarrow> 'b) \<Rightarrow> ('n \<Rightarrow> string) \<Rightarrow> ('n, 'm, 'b) sm_inner
     \<Rightarrow> ('n, 'm, 'b) stored_snapshot \<times> ('n, 'm, 'b) sm_inner" where
  "build_snapshot ser show_leader sm =
     (let idx = wrap_succ_u64 (si_snapshot_idx sm);
          meta = \<lparr>sm_last_log_id = si_last_applied sm, sm_last_membership = si_last_membership sm,
                  sm_snapshot_id = snapshot_name show_leader (si_last_applied sm) idx\<rparr>;
          snap = \<lparr>ss_meta = meta, ss_data = ser (si_ledger sm)\<rparr>
      in (snap, sm\<lparr>si_snapshot_idx := idx, si_current_snapshot := Some snap\<rparr>))"

text \<open>\<open>None\<close> is the panic of \<open>expect("snapshot deserializes")\<close>.\<close>

definition install_snapshot ::
  "('b \<Rightarrow> raft_state option) \<Rightarrow> ('n, 'm, 'b) sm_inner \<Rightarrow> ('n, 'm) snapshot_meta \<Rightarrow> 'b
     \<Rightarrow> ('n, 'm, 'b) sm_inner option" where
  "install_snapshot deser sm meta bytes =
     (case deser bytes of
        None \<Rightarrow> None
      | Some l \<Rightarrow>
          Some (sm\<lparr>si_ledger := l, si_last_applied := sm_last_log_id meta,
                  si_last_membership := sm_last_membership meta,
                  si_current_snapshot := Some \<lparr>ss_meta = meta, ss_data = bytes\<rparr>\<rparr>))"

definition get_current_snapshot :: "('n, 'm, 'b) sm_inner \<Rightarrow> ('n, 'm, 'b) stored_snapshot option" where
  "get_current_snapshot sm = si_current_snapshot sm"

definition read_run :: "('n, 'm, 'b) sm_inner \<Rightarrow> string \<Rightarrow> raft_run option" where
  "read_run sm r = si_ledger sm r"

text \<open>\<open>list_runs\<close> returns the pairs of this map, in key order.\<close>

definition raft_list_runs :: "('n, 'm, 'b) sm_inner \<Rightarrow> string \<rightharpoonup> raft_run" where
  "raft_list_runs sm = si_ledger sm"

section \<open>Lemmas\<close>

lemma log_append_ok: "bt_ok (lg_log lg) \<Longrightarrow> bt_ok (lg_log (log_append lg es))"
proof -
  have "bt_ok m \<Longrightarrow> bt_ok (fold (\<lambda>e m. bt_insert (lid_index (en_id e)) e m) es m)" for m
    by (induction es arbitrary: m) auto
  then show "bt_ok (lg_log lg) \<Longrightarrow> ?thesis" by (simp add: log_append_def)
qed

lemma log_append_lookup:
  "bt_ok (lg_log lg) \<Longrightarrow>
     map_of (lg_log (log_append lg es)) =
       fold (\<lambda>e m. m(lid_index (en_id e) \<mapsto> e)) es (map_of (lg_log lg))"
proof -
  have "bt_ok m \<Longrightarrow> map_of (fold (\<lambda>e m. bt_insert (lid_index (en_id e)) e m) es m)
      = fold (\<lambda>e m. m(lid_index (en_id e) \<mapsto> e)) es (map_of m)" for m
    by (induction es arbitrary: m) auto
  then show "bt_ok (lg_log lg) \<Longrightarrow> ?thesis" by (simp add: log_append_def)
qed

lemma apply_entries_append:
  "apply_entries sm (es @ fs) =
     (let (r1, sm1) = apply_entries sm es; (r2, sm2) = apply_entries sm1 fs in (r1 @ r2, sm2))"
  by (induction es arbitrary: sm) (auto simp: Let_def split: prod.splits)

text \<open>The three fields \<open>apply\<close> reads and writes; the snapshot fields it neither reads nor writes.\<close>

definition sm_core :: "('n, 'm, 'b) sm_inner \<Rightarrow> 'n log_id option \<times> ('n, 'm) stored_membership \<times> raft_state" where
  "sm_core sm = (si_last_applied sm, si_last_membership sm, si_ledger sm)"

lemma apply_entries_core:
  fixes sm :: "('n, 'm, 'b) sm_inner" and sm' :: "('n, 'm, 'c) sm_inner"
  shows "sm_core sm = sm_core sm' \<Longrightarrow>
     fst (apply_entries sm es) = fst (apply_entries sm' es)
     \<and> sm_core (snd (apply_entries sm es)) = sm_core (snd (apply_entries sm' es))"
proof (induction es arbitrary: sm sm')
  case Nil
  then show ?case by simp
next
  case (Cons e es)
  let ?n = "\<lambda>s. s\<lparr>si_last_applied := Some (en_id e)\<rparr>"
  show ?case
  proof (cases "en_payload e")
    case Blank
    with Cons.IH [of "?n sm" "?n sm'"] Cons.prems show ?thesis
      by (auto simp: sm_core_def Let_def split: prod.splits)
  next
    case (Normal req)
    obtain r l where a: "raft_apply (si_ledger sm) req = (r, l)" by force
    then have a': "raft_apply (si_ledger sm') req = (r, l)" using Cons.prems by (simp add: sm_core_def)
    with Cons.IH [of "(?n sm)\<lparr>si_ledger := l\<rparr>" "(?n sm')\<lparr>si_ledger := l\<rparr>"] Cons.prems Normal a show ?thesis
      by (auto simp: sm_core_def Let_def split: prod.splits)
  next
    case (Membership m)
    with Cons.IH [of "(?n sm)\<lparr>si_last_membership := (Some (en_id e), m)\<rparr>"
        "(?n sm')\<lparr>si_last_membership := (Some (en_id e), m)\<rparr>"] Cons.prems show ?thesis
      by (auto simp: sm_core_def Let_def split: prod.splits)
  qed
qed

end
