(* ===== verification/Redb_Store.thy ===== *)
theory Redb_Store
  imports Raft_Store
begin

text \<open>
  \<open>crates/cluster/src/redbstore.rs\<close>: the durable raft storage. The embedded database is a
  parameter seen through its documented contract: three tables, and transactions that commit all
  their writes or none. Each transaction takes a flag saying whether the database let it through;
  when it did not, the operation returns its storage error and the tables are as before. The JSON
  codec is a record of functions, and \<open>codec_ok\<close> states that decoding inverts encoding.
\<close>

section \<open>Data\<close>

datatype storage_error = Write_logs | Read_logs | Write_vote | Write_sm | Read_sm

record 'b redb =
  db_log :: "(nat \<times> 'b) list"
  db_meta :: "string \<rightharpoonup> 'b"
  db_sm :: "string \<rightharpoonup> 'b"

record ('n, 'm) sm_persist =
  ps_last_applied :: "'n log_id option"
  ps_last_membership :: "('n, 'm) stored_membership"
  ps_ledger :: raft_state

record ('n, 'm, 'b) sm_mem =
  mm_persist :: "('n, 'm) sm_persist"
  mm_snapshot :: "('n, 'm, 'b) stored_snapshot option"
  mm_snapshot_idx :: nat

record ('n, 'm, 'v, 'b) codec =
  c_entry :: "('n, 'm) log_entry \<Rightarrow> 'b"
  d_entry :: "'b \<Rightarrow> ('n, 'm) log_entry option"
  c_vote :: "'v \<Rightarrow> 'b"
  d_vote :: "'b \<Rightarrow> 'v option"
  c_opt_id :: "'n log_id option \<Rightarrow> 'b"
  d_id :: "'b \<Rightarrow> 'n log_id option"
  d_opt_id :: "'b \<Rightarrow> 'n log_id option option"
  c_ledger :: "raft_state \<Rightarrow> 'b"
  d_ledger :: "'b \<Rightarrow> raft_state option"
  c_persist :: "('n, 'm) sm_persist \<Rightarrow> 'b"
  d_persist :: "'b \<Rightarrow> ('n, 'm) sm_persist option"
  c_snapshot :: "('n, 'm, 'b) stored_snapshot \<Rightarrow> 'b"
  d_snapshot :: "'b \<Rightarrow> ('n, 'm, 'b) stored_snapshot option"

text \<open>An \<open>Option\<close> that is \<open>Some\<close> is encoded as its content, so \<open>d_id\<close> reads it back.\<close>

definition codec_ok :: "('n, 'm, 'v, 'b) codec \<Rightarrow> bool" where
  "codec_ok c \<longleftrightarrow>
     (\<forall>e. d_entry c (c_entry c e) = Some e) \<and> (\<forall>v. d_vote c (c_vote c v) = Some v)
     \<and> (\<forall>i. d_id c (c_opt_id c (Some i)) = Some i) \<and> (\<forall>i. d_opt_id c (c_opt_id c i) = Some i)
     \<and> (\<forall>l. d_ledger c (c_ledger c l) = Some l) \<and> (\<forall>p. d_persist c (c_persist c p) = Some p)
     \<and> (\<forall>s. d_snapshot c (c_snapshot c s) = Some s)"

section \<open>The log store\<close>

text \<open>A value that is absent is \<open>Ok(None)\<close>; one that does not decode is a read error.\<close>

definition get_meta :: "bool \<Rightarrow> 'b redb \<Rightarrow> ('b \<Rightarrow> 'a option) \<Rightarrow> string \<Rightarrow> ('a option, storage_error) res" where
  "get_meta ok db dec key =
     (if \<not> ok then Inl Read_logs
      else case db_meta db key of
          None \<Rightarrow> Inr None
        | Some b \<Rightarrow> (case dec b of None \<Rightarrow> Inl Read_logs | Some x \<Rightarrow> Inr (Some x)))"

definition put_meta :: "bool \<Rightarrow> 'b redb \<Rightarrow> string \<Rightarrow> 'b \<Rightarrow> (unit, storage_error) res \<times> 'b redb" where
  "put_meta ok db key b =
     (if ok then (Inr (), db\<lparr>db_meta := (db_meta db)(key \<mapsto> b)\<rparr>) else (Inl Write_vote, db))"

datatype bound = Included nat | Excluded nat | Unbounded

definition range_start :: "bound \<Rightarrow> nat" where
  "range_start b = (case b of Included x \<Rightarrow> x | Excluded x \<Rightarrow> wrap_succ_u64 x | Unbounded \<Rightarrow> 0)"

definition range_end :: "bound \<Rightarrow> nat" where
  "range_end b = (case b of Included x \<Rightarrow> wrap_succ_u64 x | Excluded x \<Rightarrow> x | Unbounded \<Rightarrow> U64_MAX)"

fun collect_options :: "'a option list \<Rightarrow> 'a list option" where
  "collect_options [] = Some []"
| "collect_options (None # xs) = None"
| "collect_options (Some x # xs) = map_option (Cons x) (collect_options xs)"

definition redb_try_get ::
  "bool \<Rightarrow> ('n, 'm, 'v, 'b) codec \<Rightarrow> 'b redb \<Rightarrow> bound \<Rightarrow> bound \<Rightarrow> (('n, 'm) log_entry list, storage_error) res" where
  "redb_try_get ok c db lo hi =
     (if \<not> ok then Inl Read_logs
      else case collect_options (map (\<lambda>(k, b). d_entry c b)
                  (filter (\<lambda>(k, b). range_start lo \<le> k \<and> k < range_end hi) (db_log db))) of
          None \<Rightarrow> Inl Read_logs
        | Some es \<Rightarrow> Inr es)"

definition redb_log_state ::
  "bool \<Rightarrow> ('n, 'm, 'v, 'b) codec \<Rightarrow> 'b redb
     \<Rightarrow> ('n log_id option \<times> 'n log_id option, storage_error) res" where
  "redb_log_state ok c db =
     (case get_meta ok db (d_id c) ''purged'' of
        Inl e \<Rightarrow> Inl e
      | Inr purged \<Rightarrow>
          if db_log db = [] then Inr (purged, purged)
          else case d_entry c (snd (last (db_log db))) of
              None \<Rightarrow> Inl Read_logs
            | Some e \<Rightarrow> Inr (purged, Some (en_id e)))"

definition redb_save_vote ::
  "bool \<Rightarrow> ('n, 'm, 'v, 'b) codec \<Rightarrow> 'b redb \<Rightarrow> 'v \<Rightarrow> (unit, storage_error) res \<times> 'b redb" where
  "redb_save_vote ok c db v = put_meta ok db ''vote'' (c_vote c v)"

definition redb_read_vote ::
  "bool \<Rightarrow> ('n, 'm, 'v, 'b) codec \<Rightarrow> 'b redb \<Rightarrow> ('v option, storage_error) res" where
  "redb_read_vote ok c db = get_meta ok db (d_vote c) ''vote''"

definition redb_save_committed ::
  "bool \<Rightarrow> ('n, 'm, 'v, 'b) codec \<Rightarrow> 'b redb \<Rightarrow> 'n log_id option \<Rightarrow> (unit, storage_error) res \<times> 'b redb" where
  "redb_save_committed ok c db i = put_meta ok db ''committed'' (c_opt_id c i)"

definition redb_read_committed ::
  "bool \<Rightarrow> ('n, 'm, 'v, 'b) codec \<Rightarrow> 'b redb \<Rightarrow> ('n log_id option, storage_error) res" where
  "redb_read_committed ok c db =
     (case get_meta ok db (d_opt_id c) ''committed'' of
        Inl e \<Rightarrow> Inl e
      | Inr None \<Rightarrow> Inr None
      | Inr (Some i) \<Rightarrow> Inr i)"

definition redb_append ::
  "bool \<Rightarrow> ('n, 'm, 'v, 'b) codec \<Rightarrow> 'b redb \<Rightarrow> ('n, 'm) log_entry list
     \<Rightarrow> (unit, storage_error) res \<times> 'b redb" where
  "redb_append ok c db es =
     (if ok
      then (Inr (), db\<lparr>db_log :=
              fold (\<lambda>e m. bt_insert (lid_index (en_id e)) (c_entry c e) m) es (db_log db)\<rparr>)
      else (Inl Write_logs, db))"

definition redb_truncate ::
  "bool \<Rightarrow> 'b redb \<Rightarrow> 'n log_id \<Rightarrow> (unit, storage_error) res \<times> 'b redb" where
  "redb_truncate ok db i =
     (if ok then (Inr (), db\<lparr>db_log := filter (\<lambda>(k, b). \<not> lid_index i \<le> k) (db_log db)\<rparr>)
      else (Inl Write_logs, db))"

text \<open>Two transactions: the mark first, then the removal.\<close>

definition redb_purge ::
  "bool \<Rightarrow> bool \<Rightarrow> ('n, 'm, 'v, 'b) codec \<Rightarrow> 'b redb \<Rightarrow> 'n log_id \<Rightarrow> (unit, storage_error) res \<times> 'b redb" where
  "redb_purge ok1 ok2 c db i =
     (case put_meta ok1 db ''purged'' (c_opt_id c (Some i)) of
        (Inl e, db1) \<Rightarrow> (Inl e, db1)
      | (Inr _, db1) \<Rightarrow>
          if ok2 then (Inr (), db1\<lparr>db_log := filter (\<lambda>(k, b). \<not> k \<le> lid_index i) (db_log db1)\<rparr>)
          else (Inl Write_logs, db1))"

section \<open>The state machine store\<close>

definition sm_persist_default :: "('n, 'm) stored_membership \<Rightarrow> ('n, 'm) sm_persist" where
  "sm_persist_default none = \<lparr>ps_last_applied = None, ps_last_membership = none, ps_ledger = Map.empty\<rparr>"

definition redb_sm_new ::
  "bool \<Rightarrow> ('n, 'm) stored_membership \<Rightarrow> ('n, 'm, 'v, 'b) codec \<Rightarrow> 'b redb
     \<Rightarrow> (('n, 'm, 'b) sm_mem, storage_error) res" where
  "redb_sm_new ok none c db =
     (if \<not> ok then Inl Read_sm
      else case (case db_sm db ''state'' of None \<Rightarrow> Some (sm_persist_default none) | Some b \<Rightarrow> d_persist c b) of
          None \<Rightarrow> Inl Read_sm
        | Some p \<Rightarrow>
            (case (case db_sm db ''snapshot'' of None \<Rightarrow> Some None
                   | Some b \<Rightarrow> map_option Some (d_snapshot c b)) of
               None \<Rightarrow> Inl Read_sm
             | Some s \<Rightarrow> Inr \<lparr>mm_persist = p, mm_snapshot = s, mm_snapshot_idx = 0\<rparr>))"

definition put_sm :: "bool \<Rightarrow> 'b redb \<Rightarrow> string \<Rightarrow> 'b \<Rightarrow> (unit, storage_error) res \<times> 'b redb" where
  "put_sm ok db key b =
     (if ok then (Inr (), db\<lparr>db_sm := (db_sm db)(key \<mapsto> b)\<rparr>) else (Inl Write_sm, db))"

definition persist_state ::
  "bool \<Rightarrow> ('n, 'm, 'v, 'b) codec \<Rightarrow> 'b redb \<Rightarrow> ('n, 'm) sm_persist \<Rightarrow> (unit, storage_error) res \<times> 'b redb" where
  "persist_state ok c db p = put_sm ok db ''state'' (c_persist c p)"

definition persist_snapshot ::
  "bool \<Rightarrow> ('n, 'm, 'v, 'b) codec \<Rightarrow> 'b redb \<Rightarrow> ('n, 'm, 'b) stored_snapshot
     \<Rightarrow> (unit, storage_error) res \<times> 'b redb" where
  "persist_snapshot ok c db s = put_sm ok db ''snapshot'' (c_snapshot c s)"

fun persist_entries ::
  "('n, 'm) sm_persist \<Rightarrow> ('n, 'm) log_entry list \<Rightarrow> response list \<times> ('n, 'm) sm_persist" where
  "persist_entries p [] = ([], p)"
| "persist_entries p (e # es) =
     (let p1 = p\<lparr>ps_last_applied := Some (en_id e)\<rparr>;
          (rsp, p2) =
            (case en_payload e of
               Blank \<Rightarrow> (default_response, p1)
             | Normal req \<Rightarrow>
                 let (r, l) = raft_apply (ps_ledger p1) req in (r, p1\<lparr>ps_ledger := l\<rparr>)
             | Membership m \<Rightarrow>
                 (default_response, p1\<lparr>ps_last_membership := (Some (en_id e), m)\<rparr>));
          (rsps, p3) = persist_entries p2 es
      in (rsp # rsps, p3))"

text \<open>The memory is updated before the write; a failed write leaves it ahead of the disk.\<close>

definition redb_apply ::
  "bool \<Rightarrow> ('n, 'm, 'v, 'b) codec \<Rightarrow> 'b redb \<Rightarrow> ('n, 'm, 'b) sm_mem \<Rightarrow> ('n, 'm) log_entry list
     \<Rightarrow> (response list, storage_error) res \<times> 'b redb \<times> ('n, 'm, 'b) sm_mem" where
  "redb_apply ok c db mem es =
     (let (rsps, p) = persist_entries (mm_persist mem) es;
          mem' = mem\<lparr>mm_persist := p\<rparr>
      in case persist_state ok c db p of
           (Inl e, db') \<Rightarrow> (Inl e, db', mem')
         | (Inr _, db') \<Rightarrow> (Inr rsps, db', mem'))"

definition redb_build_snapshot ::
  "bool \<Rightarrow> ('n \<Rightarrow> string) \<Rightarrow> ('n, 'm, 'v, 'b) codec \<Rightarrow> 'b redb \<Rightarrow> ('n, 'm, 'b) sm_mem
     \<Rightarrow> (('n, 'm, 'b) stored_snapshot, storage_error) res \<times> 'b redb \<times> ('n, 'm, 'b) sm_mem" where
  "redb_build_snapshot ok show_leader c db mem =
     (let p = mm_persist mem;
          idx = wrap_succ_u64 (mm_snapshot_idx mem);
          mem1 = mem\<lparr>mm_snapshot_idx := idx\<rparr>;
          snap = \<lparr>ss_meta = \<lparr>sm_last_log_id = ps_last_applied p,
                            sm_last_membership = ps_last_membership p,
                            sm_snapshot_id = snapshot_name show_leader (ps_last_applied p) idx\<rparr>,
                  ss_data = c_ledger c (ps_ledger p)\<rparr>
      in case persist_snapshot ok c db snap of
           (Inl e, db') \<Rightarrow> (Inl e, db', mem1)
         | (Inr _, db') \<Rightarrow> (Inr snap, db', mem1\<lparr>mm_snapshot := Some snap\<rparr>))"

definition redb_install_snapshot ::
  "bool \<Rightarrow> bool \<Rightarrow> ('n, 'm, 'v, 'b) codec \<Rightarrow> 'b redb \<Rightarrow> ('n, 'm, 'b) sm_mem \<Rightarrow> ('n, 'm) snapshot_meta \<Rightarrow> 'b
     \<Rightarrow> (unit, storage_error) res \<times> 'b redb \<times> ('n, 'm, 'b) sm_mem" where
  "redb_install_snapshot ok1 ok2 c db mem meta bytes =
     (case d_ledger c bytes of
        None \<Rightarrow> (Inl Write_sm, db, mem)
      | Some l \<Rightarrow>
          let p = \<lparr>ps_last_applied = sm_last_log_id meta, ps_last_membership = sm_last_membership meta,
                   ps_ledger = l\<rparr>;
              mem1 = mem\<lparr>mm_persist := p\<rparr>
          in case persist_state ok1 c db p of
               (Inl e, db1) \<Rightarrow> (Inl e, db1, mem1)
             | (Inr _, db1) \<Rightarrow>
                 let snap = \<lparr>ss_meta = meta, ss_data = bytes\<rparr>
                 in case persist_snapshot ok2 c db1 snap of
                      (Inl e, db2) \<Rightarrow> (Inl e, db2, mem1)
                    | (Inr _, db2) \<Rightarrow> (Inr (), db2, mem1\<lparr>mm_snapshot := Some snap\<rparr>))"

end
