(* ===== verification/Raft_Props.thy ===== *)
theory Raft_Props
  imports Raft_Facts Redb_Store
begin

text \<open>
  The properties of the replicated ledger and of its two storage backends: budget safety of the
  log order, catch-up by snapshot, and the durable store as a refinement of the in-memory one.
\<close>

section \<open>The durable log refines the in-memory log\<close>

definition log_rel ::
  "('n, 'm, 'v, 'b) codec \<Rightarrow> 'b redb \<Rightarrow> ('n, 'm, 'v) log_inner \<Rightarrow> bool" where
  "log_rel c db lg \<longleftrightarrow>
     db_log db = map (\<lambda>(k, e). (k, c_entry c e)) (lg_log lg)
     \<and> db_meta db ''vote'' = map_option (c_vote c) (lg_vote lg)
     \<and> db_meta db ''purged'' = map_option (\<lambda>i. c_opt_id c (Some i)) (lg_purged lg)
     \<and> (case db_meta db ''committed'' of
          None \<Rightarrow> lg_committed lg = None | Some b \<Rightarrow> b = c_opt_id c (lg_committed lg))"

lemma filter_map_key:
  "filter (\<lambda>(k, b). P k) (map (\<lambda>(k, e). (k, f e)) xs) = map (\<lambda>(k, e). (k, f e)) (filter (\<lambda>(k, e). P k) xs)"
  by (induction xs) auto

lemma log_rel_append: "log_rel c db lg \<Longrightarrow> log_rel c (snd (redb_append True c db es)) (log_append lg es)"
proof -
  have "fold (\<lambda>e m. bt_insert (lid_index (en_id e)) (c_entry c e) m) es (map (\<lambda>(k, e). (k, c_entry c e)) xs)
      = map (\<lambda>(k, e). (k, c_entry c e)) (fold (\<lambda>e m. bt_insert (lid_index (en_id e)) e m) es xs)" for xs
    by (induction es arbitrary: xs) (simp_all add: bt_insert_map)
  then show "log_rel c db lg \<Longrightarrow> ?thesis"
    by (simp add: log_rel_def redb_append_def log_append_def split: option.splits)
qed

lemma log_rel_truncate: "log_rel c db lg \<Longrightarrow> log_rel c (snd (redb_truncate True db i)) (log_truncate lg i)"
  by (simp add: log_rel_def redb_truncate_def log_truncate_def filter_map_key split: option.splits)

lemma log_rel_purge: "log_rel c db lg \<Longrightarrow> log_rel c (snd (redb_purge True True c db i)) (log_purge lg i)"
  by (simp add: log_rel_def redb_purge_def put_meta_def log_purge_def filter_map_key split: option.splits)

lemma log_rel_save_vote: "log_rel c db lg \<Longrightarrow> log_rel c (snd (redb_save_vote True c db v)) (save_vote lg v)"
  by (simp add: log_rel_def redb_save_vote_def put_meta_def save_vote_def split: option.splits)

lemma log_rel_save_committed:
  "log_rel c db lg \<Longrightarrow> log_rel c (snd (redb_save_committed True c db i)) (save_committed lg i)"
  by (simp add: log_rel_def redb_save_committed_def put_meta_def save_committed_def)

lemmas log_rel_writes =
  log_rel_append log_rel_truncate log_rel_purge log_rel_save_vote log_rel_save_committed

lemma redb_reads:
  assumes "codec_ok c" and "log_rel c db lg"
  shows "redb_log_state True c db = Inr (get_log_state lg)"
    and "redb_read_vote True c db = Inr (read_vote lg)"
    and "redb_read_committed True c db = Inr (read_committed lg)"
    and "redb_try_get True c db lo hi
           = Inr (try_get_log_entries lg (\<lambda>k. range_start lo \<le> k \<and> k < range_end hi))"
proof -
  show "redb_log_state True c db = Inr (get_log_state lg)"
    using assms by (auto simp: redb_log_state_def get_log_state_def get_meta_def log_rel_def codec_ok_def
        last_map split: option.splits prod.splits)
  show "redb_read_vote True c db = Inr (read_vote lg)"
    using assms by (auto simp: redb_read_vote_def read_vote_def get_meta_def log_rel_def codec_ok_def
        split: option.splits)
  show "redb_read_committed True c db = Inr (read_committed lg)"
    using assms by (auto simp: redb_read_committed_def read_committed_def get_meta_def log_rel_def
        codec_ok_def split: option.splits)
  have decode: "collect_options (map ((\<lambda>(k, b). d_entry c b) \<circ> (\<lambda>(k, e). (k, c_entry c e))) xs)
      = Some (map snd xs)" for xs
    using assms(1) by (induction xs) (auto simp: codec_ok_def)
  show "redb_try_get True c db lo hi
           = Inr (try_get_log_entries lg (\<lambda>k. range_start lo \<le> k \<and> k < range_end hi))"
    using assms(2) by (simp add: redb_try_get_def try_get_log_entries_def log_rel_def
        filter_map_key [of "\<lambda>k. range_start lo \<le> k \<and> k < range_end hi"] decode)
qed

section \<open>The durable state machine refines the in-memory one\<close>

definition persist_core :: "('n, 'm) sm_persist \<Rightarrow> 'n log_id option \<times> ('n, 'm) stored_membership \<times> raft_state" where
  "persist_core p = (ps_last_applied p, ps_last_membership p, ps_ledger p)"

lemma persist_entries_core:
  fixes sm :: "('n, 'm, 'b) sm_inner"
  shows "persist_core p = sm_core sm \<Longrightarrow>
     fst (persist_entries p es) = fst (apply_entries sm es)
     \<and> persist_core (snd (persist_entries p es)) = sm_core (snd (apply_entries sm es))"
proof (induction es arbitrary: p sm)
  case Nil
  then show ?case by simp
next
  case (Cons e es)
  let ?p = "p\<lparr>ps_last_applied := Some (en_id e)\<rparr>" and ?s = "sm\<lparr>si_last_applied := Some (en_id e)\<rparr>"
  show ?case
  proof (cases "en_payload e")
    case Blank
    with Cons.IH [of ?p ?s] Cons.prems show ?thesis
      by (auto simp: sm_core_def persist_core_def Let_def split: prod.splits)
  next
    case (Normal req)
    obtain r l where a: "raft_apply (si_ledger sm) req = (r, l)" by force
    then have a': "raft_apply (ps_ledger p) req = (r, l)"
      using Cons.prems by (simp add: sm_core_def persist_core_def)
    with Cons.IH [of "?p\<lparr>ps_ledger := l\<rparr>" "?s\<lparr>si_ledger := l\<rparr>"] Cons.prems Normal a show ?thesis
      by (auto simp: sm_core_def persist_core_def Let_def split: prod.splits)
  next
    case (Membership m)
    with Cons.IH [of "?p\<lparr>ps_last_membership := (Some (en_id e), m)\<rparr>"
        "?s\<lparr>si_last_membership := (Some (en_id e), m)\<rparr>"] Cons.prems show ?thesis
      by (auto simp: sm_core_def persist_core_def Let_def split: prod.splits)
  qed
qed

text \<open>What the disk holds is what the memory holds.\<close>

definition on_disk ::
  "('n, 'm) stored_membership \<Rightarrow> ('n, 'm, 'v, 'b) codec \<Rightarrow> 'b redb \<Rightarrow> ('n, 'm, 'b) sm_mem \<Rightarrow> bool" where
  "on_disk none c db mem \<longleftrightarrow>
     (case db_sm db ''state'' of
        None \<Rightarrow> mm_persist mem = sm_persist_default none
      | Some b \<Rightarrow> b = c_persist c (mm_persist mem))
     \<and> db_sm db ''snapshot'' = map_option (c_snapshot c) (mm_snapshot mem)"

lemma on_disk_reopen:
  assumes "codec_ok c" and "on_disk none c db mem"
  shows "redb_sm_new True none c db = Inr (mem\<lparr>mm_snapshot_idx := 0\<rparr>)"
  using assms by (cases mem) (auto simp: on_disk_def redb_sm_new_def codec_ok_def split: option.splits)

lemma on_disk_apply:
  assumes "on_disk none c db mem" and "redb_apply True c db mem es = (Inr rsps, db', mem')"
  shows "on_disk none c db' mem'"
  using assms by (auto simp: on_disk_def redb_apply_def persist_state_def put_sm_def Let_def
      split: prod.splits)

lemma on_disk_install:
  assumes "on_disk none c db mem"
    and "redb_install_snapshot True True c db mem meta bytes = (Inr u, db', mem')"
  shows "on_disk none c db' mem'"
  using assms by (auto simp: on_disk_def redb_install_snapshot_def persist_state_def persist_snapshot_def
      put_sm_def Let_def split: option.splits)

lemma on_disk_build:
  assumes "on_disk none c db mem" and "redb_build_snapshot True sl c db mem = (Inr s, db', mem')"
  shows "on_disk none c db' mem'"
  using assms by (auto simp: on_disk_def redb_build_snapshot_def persist_snapshot_def
      put_sm_def Let_def split: option.splits)

section \<open>Budget safety in log order\<close>

definition raft_two_level :: raft_state where
  "raft_two_level =
     [''root'' \<mapsto> raft_default\<lparr>rr_budget := 100\<rparr>,
      ''leaf'' \<mapsto> raft_default\<lparr>rr_budget := 60, rr_parent := Some ''root''\<rparr>]"

lemma raft_two_level_simps [simp]:
  "raft_two_level ''root'' = Some (raft_default\<lparr>rr_budget := 100\<rparr>)"
  "raft_two_level ''leaf'' = Some (raft_default\<lparr>rr_budget := 60, rr_parent := Some ''root''\<rparr>)"
  "raft_bounded raft_two_level"
  by (auto simp: raft_two_level_def raft_bounded_def raft_default_def U64_MAX_def)

lemma raft_two_level_chain: "raft_chain raft_two_level ''leaf'' = [''leaf'', ''root'']"
  by (simp add: raft_chain_def raft_chain_from.simps RAFT_MAX_CHAIN_DEPTH_def) (simp add: raft_default_def)

text \<open>C14. No node, leader or interleaving oversubscribes a budget: over any sequence of reserve
  entries in the log, what is accepted for runs below a given run fits the room it had.\<close>

theorem raft_no_oversubscription:
  assumes "raft_bounded st" and "list_all (\<lambda>(r, e). 0 \<le> e) calls"
    and "admit_all raft_admit st calls = (st', admitted)"
    and "st i = Some s" and "rr_spent s + rr_reserved s \<le> rr_budget s"
  shows "sum_where (\<lambda>(r, e). i \<in> set (raft_chain st r)) snd admitted
           \<le> int (rr_budget s) - int (rr_spent s) - int (rr_reserved s)"
  using raft_adm.no_oversubscription [OF assms(1-3), of i] assms(4,5)
  by (simp add: raft_headroom_def raft_covers_def)

theorem raft_no_oversubscription_witness:
  "\<exists>st' admitted. admit_all raft_admit raft_two_level [(''leaf'', 30), (''root'', 90)] = (st', admitted)
     \<and> sum_where (\<lambda>(r, e). ''root'' \<in> set (raft_chain raft_two_level r)) snd admitted \<le> 100"
proof -
  obtain st' admitted where a:
    "admit_all raft_admit raft_two_level [(''leaf'', 30), (''root'', 90)] = (st', admitted)" by force
  from raft_no_oversubscription [OF _ _ a, of "''root''" "raft_default\<lparr>rr_budget := 100\<rparr>"] a
  show ?thesis by (auto simp: raft_default_def)
qed

text \<open>A reserve entry is all-or-nothing: it is accepted exactly when the run exists and the
  estimate fits every run of its chain; then exactly the chain holds it; otherwise the state is
  unchanged and the response names a run of the chain it does not fit.\<close>

lemma raft_reserve_all_or_nothing:
  "(case raft_apply st (RReserve r m) of (rsp, st') \<Rightarrow>
      rp_accepted rsp =
        (st r \<noteq> None \<and> list_all (\<lambda>i. case st i of None \<Rightarrow> False | Some s \<Rightarrow> raft_fits m s) (raft_chain st r))
      \<and> (if rp_accepted rsp
         then st' = (\<lambda>k. if k \<in> set (raft_chain st r)
                then map_option (\<lambda>s. if k = r then bump_step (raft_hold m s) else raft_hold m s) (st k)
                else st k) \<and> rp_blocked rsp = None
         else st' = st \<and> (case rp_blocked rsp of
                None \<Rightarrow> False
              | Some i \<Rightarrow> (case st i of None \<Rightarrow> i = r | Some s \<Rightarrow> i \<in> set (raft_chain st r) \<and> \<not> raft_fits m s))))"
proof -
  obtain rsp st' where a: "raft_apply st (RReserve r m) = (rsp, st')" by force
  have on: "st i \<noteq> None" if "i \<in> set (raft_chain st r)" for i
    using raft_parents.chain_enters [OF that] by (simp add: raft_enterable_def)
  have acc: "rp_accepted rsp =
        (st r \<noteq> None \<and> list_all (\<lambda>i. case st i of None \<Rightarrow> False | Some s \<Rightarrow> raft_fits m s) (raft_chain st r))"
    using raft_reserve_accepts [OF a] on by (fastforce simp: list_all_iff split: option.splits)
  show ?thesis
  proof (cases "rp_accepted rsp")
    case True
    have "rp_blocked rsp = None"
      using a True by (auto simp: leaf_response_def Let_def split: option.splits prod.splits)
    with True a acc raft_reserve_accepted [OF a True] show ?thesis by auto
  next
    case False
    have "case rp_blocked rsp of None \<Rightarrow> False
        | Some i \<Rightarrow> (case st i of None \<Rightarrow> i = r | Some s \<Rightarrow> i \<in> set (raft_chain st r) \<and> \<not> raft_fits m s)"
      using a False raft_blocked_SomeD [of st "raft_chain st r" m]
      by (fastforce simp: leaf_response_def raft_fits_def Let_def split: option.splits prod.splits)
    then show ?thesis
      unfolding a prod.case acc [symmetric] using False raft_reserve_rejected [OF a False] by simp
  qed
qed

text \<open>Reserving and then settling returns every hold: each run of the chain is as before, with
  the actual cost added to what it spent and one more step on the leaf.\<close>

lemma raft_reserve_settle:
  assumes "raft_bounded st" and "raft_apply st (RReserve r m) = (rsp, st1)" and "rp_accepted rsp"
    and "raft_apply st1 (RSettle r m a) = (rsp2, st2)"
  shows "st2 = (\<lambda>k. if k \<in> set (raft_chain st r)
      then map_option (\<lambda>s. s\<lparr>rr_spent := sat_u64 (rr_spent s + a),
             rr_steps := (if k = r then wrap_succ_u32 (rr_steps s) else rr_steps s)\<rparr>) (st k)
      else st k)"
proof
  fix k
  have ch: "raft_chain st1 r = raft_chain st r"
    by (rule raft_chain_same_parents) (rule raft_reserve_parents [OF assms(2)])
  have st2: "st2 k = (if k \<in> set (raft_chain st r) then map_option (raft_charge m a) (st1 k) else st1 k)"
    using assms(4) update_all_apply [OF raft_parents.chain_distinct [of st r]] by (auto simp: Let_def ch)
  show "st2 k = (if k \<in> set (raft_chain st r)
      then map_option (\<lambda>s. s\<lparr>rr_spent := sat_u64 (rr_spent s + a),
             rr_steps := (if k = r then wrap_succ_u32 (rr_steps s) else rr_steps s)\<rparr>) (st k)
      else st k)"
  proof (cases "k \<in> set (raft_chain st r)")
    case True
    then obtain s where s: "st k = Some s"
      using raft_parents.chain_enters [of k st r] by (auto simp: raft_enterable_def)
    have "raft_fits m s" using raft_reserve_accepts [OF assms(2)] assms(3) True s by blast
    then have "rr_reserved (raft_hold m s) = rr_reserved s + m"
      using assms(1) s by (intro raft_fits_exact(2)) (auto simp: raft_bounded_def)
    with True s st2 raft_reserve_accepted [OF assms(2,3), of k] show ?thesis
      by (simp add: raft_charge_def bump_step_def raft_hold_def)
  next
    case False
    with st2 raft_reserve_accepted [OF assms(2,3), of k] show ?thesis by simp
  qed
qed

theorem raft_reserve_settle_witness:
  "\<exists>rsp st1 rsp2 st2. raft_apply raft_two_level (RReserve ''leaf'' 30) = (rsp, st1) \<and> rp_accepted rsp
     \<and> raft_apply st1 (RSettle ''leaf'' 30 10) = (rsp2, st2)
     \<and> st2 ''root'' = Some (raft_default\<lparr>rr_budget := 100, rr_spent := 10\<rparr>)"
proof -
  obtain rsp st1 where a: "raft_apply raft_two_level (RReserve ''leaf'' 30) = (rsp, st1)" by force
  obtain rsp2 st2 where b: "raft_apply st1 (RSettle ''leaf'' 30 10) = (rsp2, st2)" by force
  have acc: "rp_accepted rsp"
    using a by (simp add: raft_reserve_accepts [OF a] raft_two_level_chain)
      (simp add: raft_fits_def would_commit_def committed_def raft_default_def sat_u64_def U64_MAX_def)
  from raft_reserve_settle [OF _ a acc b] a b acc show ?thesis
    by (auto simp: raft_two_level_chain raft_default_def sat_u64_def U64_MAX_def)
qed

section \<open>Replicas and backends\<close>

text \<open>A follower that installs a leader's snapshot and then applies the rest of the log is in the
  leader's state: the ledger, the last applied entry and the membership agree, and so do the
  responses to the entries it applied itself.\<close>

lemma snapshot_catches_up:
  fixes lead :: "('n, 'm, 'b) sm_inner" and follower :: "('n, 'm, 'b) sm_inner"
  assumes serde: "\<And>l. deser (ser l) = Some l"
    and "apply_entries lead es = (r1, lead1)"
    and "build_snapshot ser show_leader lead1 = (snap, lead2)"
    and "install_snapshot deser follower (ss_meta snap) (ss_data snap) = Some follower1"
    and "apply_entries lead2 fs = (r2, lead3)" and "apply_entries follower1 fs = (r2', follower2)"
  shows "sm_core follower2 = sm_core lead3 \<and> r2' = r2
     \<and> apply_entries lead (es @ fs) = (r1 @ r2, lead3\<lparr>si_snapshot_idx := si_snapshot_idx lead1,
          si_current_snapshot := si_current_snapshot lead1\<rparr>)"
proof -
  have l2: "lead2 = lead1\<lparr>si_snapshot_idx := si_snapshot_idx lead2,
      si_current_snapshot := si_current_snapshot lead2\<rparr>"
    using assms(3) by (auto simp: build_snapshot_def Let_def)
  have core: "sm_core lead2 = sm_core lead1" by (subst l2) (simp add: sm_core_def)
  have "sm_core follower1 = sm_core lead2"
    using assms(3,4) serde by (auto simp: build_snapshot_def install_snapshot_def sm_core_def Let_def)
  from apply_entries_core [OF this, of fs] assms(5,6)
  have A: "sm_core follower2 = sm_core lead3" "r2' = r2" by simp_all
  obtain r3 lead4 where l4: "apply_entries lead1 fs = (r3, lead4)" by force
  from apply_entries_core [OF core, of fs] assms(5) l4
  have B: "sm_core lead4 = sm_core lead3" "r3 = r2" by simp_all
  have frame: "si_snapshot_idx (snd (apply_entries sm xs)) = si_snapshot_idx sm
      \<and> si_current_snapshot (snd (apply_entries sm xs)) = si_current_snapshot sm" for sm xs
    by (induction xs arbitrary: sm) (simp_all add: Let_def case_prod_beta split: payload.splits)
  have "lead4 = lead3\<lparr>si_snapshot_idx := si_snapshot_idx lead1,
          si_current_snapshot := si_current_snapshot lead1\<rparr>"
    using B(1) frame [of lead1 fs] l4 by (simp add: sm_core_def)
  then have "apply_entries lead (es @ fs) = (r1 @ r2, lead3\<lparr>si_snapshot_idx := si_snapshot_idx lead1,
          si_current_snapshot := si_current_snapshot lead1\<rparr>)"
    using apply_entries_append [of lead es fs] assms(2) l4 B(2) by simp
  with A show ?thesis by simp
qed

definition demo_sm :: "(nat, nat, raft_state) sm_inner" where
  "demo_sm = \<lparr>si_last_applied = None, si_last_membership = (None, 0), si_ledger = Map.empty,
     si_snapshot_idx = 0, si_current_snapshot = None\<rparr>"

definition demo_entry :: "nat \<Rightarrow> request \<Rightarrow> (nat, nat) log_entry" where
  "demo_entry i r = \<lparr>en_id = \<lparr>lid_leader = 1, lid_index = i\<rparr>, en_payload = Normal r\<rparr>"

theorem snapshot_catches_up_witness:
  "\<exists>lead1 snap lead2 follower1 follower2.
     apply_entries demo_sm [demo_entry 1 (ROpen ''a'' 10 None)] = lead1
     \<and> build_snapshot id show_nat (snd lead1) = (snap, lead2)
     \<and> install_snapshot Some demo_sm (ss_meta snap) (ss_data snap) = Some follower1
     \<and> apply_entries follower1 [demo_entry 2 (RReserve ''a'' 4)] = follower2
     \<and> sm_core (snd follower2) = sm_core (snd (apply_entries lead2 [demo_entry 2 (RReserve ''a'' 4)]))"
proof -
  let ?es = "[demo_entry 1 (ROpen ''a'' 10 None)]" and ?fs = "[demo_entry 2 (RReserve ''a'' 4)]"
  obtain r1 lead1 where l1: "apply_entries demo_sm ?es = (r1, lead1)" by force
  obtain snap lead2 where b: "build_snapshot id show_nat lead1 = (snap, lead2)" by force
  obtain follower1 where i: "install_snapshot Some demo_sm (ss_meta snap) (ss_data snap) = Some follower1"
    by (simp add: install_snapshot_def)
  obtain r2 lead3 where l3: "apply_entries lead2 ?fs = (r2, lead3)" by force
  obtain r2' follower2 where f2: "apply_entries follower1 ?fs = (r2', follower2)" by force
  have "sm_core follower2 = sm_core lead3"
    using snapshot_catches_up [where deser = Some and ser = id, OF _ l1 b i l3 f2] by simp
  then show ?thesis using l1 b i l3 f2 by auto
qed

text \<open>The durable log is the in-memory log: every write that the database lets through keeps the
  two in step, and every read then returns the same entries, state, vote and commit mark.\<close>

lemma redb_log_refines:
  assumes "codec_ok c" and "log_rel c db lg"
  shows "log_rel c (snd (redb_append True c db es)) (log_append lg es)
     \<and> log_rel c (snd (redb_truncate True db i)) (log_truncate lg i)
     \<and> log_rel c (snd (redb_purge True True c db i)) (log_purge lg i)
     \<and> log_rel c (snd (redb_save_vote True c db v)) (save_vote lg v)
     \<and> log_rel c (snd (redb_save_committed True c db j)) (save_committed lg j)
     \<and> redb_log_state True c db = Inr (get_log_state lg)
     \<and> redb_read_vote True c db = Inr (read_vote lg)
     \<and> redb_read_committed True c db = Inr (read_committed lg)
     \<and> redb_try_get True c db lo hi
           = Inr (try_get_log_entries lg (\<lambda>k. range_start lo \<le> k \<and> k < range_end hi))"
  using log_rel_writes [OF assms(2)] redb_reads [OF assms] by simp

datatype demo_bytes =
    Bentry "(nat, nat) log_entry" | Bvote nat | Bid "nat log_id option" | Bledger raft_state
  | Bpersist "(nat, nat) sm_persist" | Bsnap "(nat, nat) snapshot_meta" demo_bytes

definition demo_codec :: "(nat, nat, nat, demo_bytes) codec" where
  "demo_codec =
     \<lparr>c_entry = Bentry, d_entry = (\<lambda>b. case b of Bentry e \<Rightarrow> Some e | _ \<Rightarrow> None),
      c_vote = Bvote, d_vote = (\<lambda>b. case b of Bvote v \<Rightarrow> Some v | _ \<Rightarrow> None),
      c_opt_id = Bid, d_id = (\<lambda>b. case b of Bid i \<Rightarrow> i | _ \<Rightarrow> None),
      d_opt_id = (\<lambda>b. case b of Bid i \<Rightarrow> Some i | _ \<Rightarrow> None),
      c_ledger = Bledger, d_ledger = (\<lambda>b. case b of Bledger l \<Rightarrow> Some l | _ \<Rightarrow> None),
      c_persist = Bpersist, d_persist = (\<lambda>b. case b of Bpersist p \<Rightarrow> Some p | _ \<Rightarrow> None),
      c_snapshot = (\<lambda>s. Bsnap (ss_meta s) (ss_data s)),
      d_snapshot = (\<lambda>b. case b of Bsnap m x \<Rightarrow> Some \<lparr>ss_meta = m, ss_data = x\<rparr> | _ \<Rightarrow> None)\<rparr>"

lemma demo_codec_ok: "codec_ok demo_codec"
  by (simp add: codec_ok_def demo_codec_def)

definition demo_db :: "demo_bytes redb" where
  "demo_db = \<lparr>db_log = [], db_meta = Map.empty, db_sm = Map.empty\<rparr>"

definition demo_log :: "(nat, nat, nat) log_inner" where
  "demo_log = \<lparr>lg_vote = None, lg_log = [], lg_committed = None, lg_purged = None\<rparr>"

theorem redb_log_refines_witness:
  "redb_log_state True demo_codec demo_db = Inr (get_log_state demo_log)
     \<and> log_rel demo_codec (snd (redb_append True demo_codec demo_db [demo_entry 1 (RReserve ''a'' 4)]))
         (log_append demo_log [demo_entry 1 (RReserve ''a'' 4)])"
proof -
  have "log_rel demo_codec demo_db demo_log" by (simp add: log_rel_def demo_db_def demo_log_def)
  from redb_log_refines [OF demo_codec_ok this] show ?thesis by blast
qed

text \<open>C21. What a node acknowledged survives its restart: while memory and disk are in step, applying
  entries answers as the in-memory store does and leaves them in step, and so does installing a
  snapshot; and reopening the database then yields the very same state machine, with only the
  snapshot counter reset.\<close>

theorem redb_survives_restart:
  fixes sm :: "('n, 'm, 'b) sm_inner"
  assumes "codec_ok c" and "on_disk none c db mem" and "persist_core (mm_persist mem) = sm_core sm"
    and "redb_apply True c db mem es = (Inr rsps, db1, mem1)"
    and "redb_install_snapshot True True c db1 mem1 meta bytes = (Inr u, db2, mem2)"
  shows "rsps = fst (apply_entries sm es)
     \<and> persist_core (mm_persist mem1) = sm_core (snd (apply_entries sm es))
     \<and> redb_sm_new True none c db1 = Inr (mem1\<lparr>mm_snapshot_idx := 0\<rparr>)
     \<and> redb_sm_new True none c db2 = Inr (mem2\<lparr>mm_snapshot_idx := 0\<rparr>)"
proof -
  have d1: "on_disk none c db1 mem1" using on_disk_apply [OF assms(2,4)] .
  have d2: "on_disk none c db2 mem2" using on_disk_install [OF d1 assms(5)] .
  have "rsps = fst (persist_entries (mm_persist mem) es)"
    "mm_persist mem1 = snd (persist_entries (mm_persist mem) es)"
    using assms(4) by (auto simp: redb_apply_def persist_state_def put_sm_def Let_def split: prod.splits)
  with persist_entries_core [OF assms(3), of es] on_disk_reopen [OF assms(1) d1]
    on_disk_reopen [OF assms(1) d2] show ?thesis by simp
qed

definition demo_mem :: "(nat, nat, demo_bytes) sm_mem" where
  "demo_mem = \<lparr>mm_persist = sm_persist_default (None, 0), mm_snapshot = None, mm_snapshot_idx = 0\<rparr>"

theorem redb_survives_restart_witness:
  "\<exists>rsps db1 mem1. redb_apply True demo_codec demo_db demo_mem [demo_entry 1 (ROpen ''a'' 10 None)]
        = (Inr rsps, db1, mem1)
     \<and> redb_sm_new True (None, 0) demo_codec db1 = Inr (mem1\<lparr>mm_snapshot_idx := 0\<rparr>)"
proof -
  let ?es = "[demo_entry 1 (ROpen ''a'' 10 None)]"
  let ?meta = "\<lparr>sm_last_log_id = None, sm_last_membership = (None, 0), sm_snapshot_id = ''--1''\<rparr>"
  let ?sm = "\<lparr>si_last_applied = None, si_last_membership = (None, 0 :: nat), si_ledger = Map.empty,
     si_snapshot_idx = 0, si_current_snapshot = None\<rparr> :: (nat, nat, demo_bytes) sm_inner"
  obtain rsps db1 mem1 where a: "redb_apply True demo_codec demo_db demo_mem ?es = (Inr rsps, db1, mem1)"
    by (simp add: redb_apply_def persist_state_def put_sm_def demo_db_def case_prod_beta Let_def)
  obtain db2 mem2 where b:
    "redb_install_snapshot True True demo_codec db1 mem1 ?meta (Bledger Map.empty) = (Inr (), db2, mem2)"
    by (simp add: redb_install_snapshot_def persist_state_def persist_snapshot_def put_sm_def
        demo_codec_def Let_def)
  have d: "on_disk (None, 0) demo_codec demo_db demo_mem"
    by (simp add: on_disk_def demo_db_def demo_mem_def)
  have p: "persist_core (mm_persist demo_mem) = sm_core ?sm"
    by (simp add: persist_core_def sm_core_def demo_mem_def sm_persist_default_def)
  from redb_survives_restart [OF demo_codec_ok d p a b] a show ?thesis by blast
qed

end
