(* ===== verification/Raft_Core.thy ===== *)
theory Raft_Core
  imports Raft_Facts Ledger_Reach
begin

text \<open>
  The replicated ledger against the in-process one. \<open>replica\<close> reads a core run map as the raft
  state it stands for. Where the core ledger can check a chain to its end the two agree on every
  reserve; where it cannot, and on repeated settlements, they differ.
\<close>

definition replica_run :: "run_state \<Rightarrow> raft_run" where
  "replica_run s =
     \<lparr>rr_budget = nat (rs_budget s), rr_reserved = nat (rs_reserved s), rr_spent = nat (rs_spent s),
      rr_steps = rs_steps s, rr_parent = rs_parent s\<rparr>"

definition replica :: "run_map \<Rightarrow> raft_state" where
  "replica rm = (\<lambda>i. map_option replica_run (rm i))"

text \<open>Every account is a non-negative \<open>i64\<close>, as the microdollar amounts of both ledgers are.\<close>

definition replicable :: "run_map \<Rightarrow> bool" where
  "replicable rm \<longleftrightarrow>
     (\<forall>i s. rm i = Some s \<longrightarrow> 0 \<le> rs_spent s \<and> 0 \<le> rs_reserved s \<and> 0 \<le> rs_budget s
        \<and> rs_budget s \<le> I64_MAX)"

lemma replica_chain_from:
  "walk_from rm cur links = (ls, None) \<Longrightarrow>
     raft_chain_from (replica rm) cur (map cl_run links) = map cl_run ls"
proof (induction rm cur links rule: walk_from.induct)
  case (1 rm cur links)
  show ?case
  proof (cases cur)
    case None
    with "1.prems" show ?thesis
      by (simp add: walk_from.simps [of rm None] raft_chain_from.simps [of _ None])
  next
    case (Some i)
    show ?thesis
    proof (cases "i \<in> set (map cl_run links)")
      case True
      with "1.prems" Some show ?thesis
        by (simp add: walk_from.simps [of rm "Some i"] raft_chain_from.simps [of _ "Some i"])
    next
      case False
      with "1.prems" Some obtain s where s: "rm i = Some s" "\<not> rs_closed s"
        "\<not> MAX_CHAIN_DEPTH \<le> length links"
        by (auto simp: walk_from.simps [of rm "Some i"] split: if_splits option.splits)
      let ?l = "\<lparr>cl_run = i, cl_generation = rs_generation s\<rparr>"
      have step: "walk_from rm (rs_parent s) (links @ [?l]) = (ls, None)"
        using "1.prems" Some False s by (simp add: walk_from.simps [of rm "Some i"])
      have "raft_chain_from (replica rm) (rs_parent s) (map cl_run links @ [i]) = map cl_run ls"
        using "1.IH" [OF Some False s(3,1,2) step] by simp
      then show ?thesis
        using Some False s
        by (simp add: raft_chain_from.simps [of _ "Some i"] replica_def replica_run_def
            RAFT_MAX_CHAIN_DEPTH_def MAX_CHAIN_DEPTH_def)
    qed
  qed
qed

lemma replica_chain: "walk rm r = (ls, None) \<Longrightarrow> raft_chain (replica rm) r = map cl_run ls"
  using replica_chain_from [of rm "Some r" "[]" ls] by (simp add: walk_def raft_chain_def)

lemma replica_fits:
  assumes "0 \<le> rs_spent s" "0 \<le> rs_reserved s" "0 \<le> rs_budget s" "rs_budget s \<le> I64_MAX" "0 \<le> e"
  shows "raft_fits (nat e) (replica_run s) \<longleftrightarrow> fits s e"
  using assms
  by (auto simp: raft_fits_def fits_def would_commit_def committed_def replica_run_def sat_u64_def
      in_i64_def machine_bounds min_def)

lemma replica_hold:
  assumes "0 \<le> rs_spent s" "0 \<le> rs_reserved s" "rs_budget s \<le> I64_MAX" "0 \<le> e" "fits s e"
  shows "replica_run (hold_on e s) = raft_hold (nat e) (replica_run s)"
  using assms
  by (auto simp: replica_run_def hold_on_def raft_hold_def fits_def saturating_add_def sat_i64_def
      in_i64_def machine_bounds sat_u64_def nat_add_distrib)

lemma replica_decides:
  assumes "replicable (runs l)" and "0 \<le> e" and "snd (walk (runs l) r) = None"
  shows "is_ok (fst (reserve l r e)) \<longleftrightarrow> rp_accepted (fst (raft_apply (replica (runs l)) (RReserve r (nat e))))"
proof -
  obtain ls where w: "walk (runs l) r = (ls, None)" using assms(3) by (cases "walk (runs l) r") auto
  from walk_no_stop_open [OF w] obtain s where s: "runs l r = Some s" by blast
  have "is_ok (fst (reserve l r e)) \<longleftrightarrow> first_exceeded (runs l) ls e = None"
    using reserve_decides [OF s, of e] w s
    by (cases "fst (reserve l r e)") (auto simp: would_exceed_def dest: sym)
  also have "\<dots> \<longleftrightarrow> (\<forall>i \<in> set (map cl_run ls). \<forall>t. runs l i = Some t \<longrightarrow> fits t e)"
    by (auto simp: first_exceeded_None_iff)
  also have "\<dots> \<longleftrightarrow> (\<forall>i \<in> set (raft_chain (replica (runs l)) r). \<forall>t. replica (runs l) i = Some t
      \<longrightarrow> raft_fits (nat e) t)"
  proof -
    have "(\<forall>t. runs l i = Some t \<longrightarrow> fits t e)
        \<longleftrightarrow> (\<forall>t. replica (runs l) i = Some t \<longrightarrow> raft_fits (nat e) t)" for i
      using assms(1,2) replica_fits by (cases "runs l i") (auto simp: replica_def replicable_def)
    then show ?thesis by (simp add: replica_chain [OF w])
  qed
  also have "\<dots> \<longleftrightarrow> rp_accepted (fst (raft_apply (replica (runs l)) (RReserve r (nat e))))"
  proof -
    obtain rsp st' where a: "raft_apply (replica (runs l)) (RReserve r (nat e)) = (rsp, st')" by force
    have "replica (runs l) r \<noteq> None" using s by (simp add: replica_def)
    with raft_reserve_accepts [OF a] show ?thesis unfolding a fst_conv by blast
  qed
  finally show ?thesis .
qed

lemma replica_step:
  assumes "replicable (runs l)" and "0 \<le> e" and "reserve l r e = (Inr rv, l')"
  shows "replica (runs l') = snd (raft_apply (replica (runs l)) (RReserve r (nat e)))"
proof -
  from reserve_InrE [OF assms(3)] obtain ls where w: "walk (runs l) r = (ls, None)"
    and l': "runs l' = reserved_run l r e"
    by (metis ledger.select_convs(1) ledger.update_convs(1,3,4) ledger.surjective)
  obtain rsp st' where a: "raft_apply (replica (runs l)) (RReserve r (nat e)) = (rsp, st')" by force
  have "rp_accepted rsp"
    using replica_decides [OF assms(1,2), of r] w assms(3) a by simp
  note eff = raft_reserve_accepted [OF a this]
  have sane: "ledger_sane l" using assms(1) by (simp add: replicable_def ledger_sane_def)
  have "replica (runs l') k = st' k" for k
  proof (cases "k \<in> set (chain_runs (runs l) r)")
    case True
    from reserve_link [OF assms(3) sane assms(2) True] obtain s where s: "runs l k = Some s" "fits s e"
      by metis
    have h: "replica_run (hold_on e s) = raft_hold (nat e) (replica_run s)"
      using assms(1,2) s by (intro replica_hold) (auto simp: replicable_def)
    have "replica_run ((hold_on e s)\<lparr>rs_steps := wrap_succ_u32 (rs_steps s)\<rparr>)
        = bump_step (replica_run (hold_on e s))"
      by (simp add: replica_run_def bump_step_def hold_on_def)
    moreover have "(hold_on e s)\<lparr>rs_steps := rs_steps s\<rparr> = hold_on e s" by (simp add: hold_on_def)
    moreover have "reserved_run l r e k = Some ((hold_on e s)
        \<lparr>rs_steps := (if k = r then wrap_succ_u32 (rs_steps s) else rs_steps s)\<rparr>)"
      using True s(1) by (simp add: reserved_run_def)
    moreover have "st' k = Some (if k = r then bump_step (raft_hold (nat e) (replica_run s))
        else raft_hold (nat e) (replica_run s))"
      using True s(1) w eff [of k, unfolded replica_chain [OF w]]
      by (simp add: chain_runs_def) (auto simp: replica_def)
    ultimately show ?thesis using h by (simp add: l' replica_def)
  next
    case False
    moreover from False have "runs l' k = runs l k" by (simp add: l' reserved_run_def)
    ultimately show ?thesis
      using eff [of k, unfolded replica_chain [OF w]] w
      by (simp add: chain_runs_def) (simp add: replica_def)
  qed
  then show ?thesis using a by (simp add: fun_eq_iff)
qed

text \<open>Where the core ledger can follow a chain to its end, the replicated ledger takes the same
  decision on every reserve, and an admitted one leads both to the same books.\<close>

lemma raft_mirrors_core:
  assumes "replicable (runs l)" and "0 \<le> e" and "snd (walk (runs l) r) = None"
  shows "(case reserve l r e of
      (Inl _, l') \<Rightarrow> \<not> rp_accepted (fst (raft_apply (replica (runs l)) (RReserve r (nat e))))
         \<and> snd (raft_apply (replica (runs l)) (RReserve r (nat e))) = replica (runs l')
    | (Inr _, l') \<Rightarrow> rp_accepted (fst (raft_apply (replica (runs l)) (RReserve r (nat e))))
         \<and> snd (raft_apply (replica (runs l)) (RReserve r (nat e))) = replica (runs l'))"
proof -
  obtain res l' where r: "reserve l r e = (res, l')" by force
  note d = replica_decides [OF assms]
  show ?thesis
  proof (cases res)
    case (Inl err)
    obtain rsp st' where a: "raft_apply (replica (runs l)) (RReserve r (nat e)) = (rsp, st')" by force
    have "\<not> rp_accepted rsp" using d r Inl a by simp
    moreover have "st' = replica (runs l)" using raft_reserve_rejected [OF a calculation] .
    moreover have "l' = l" using reserve_Inl_unchanged r Inl by simp
    ultimately show ?thesis unfolding r a Inl by simp
  next
    case (Inr rv)
    with replica_step [OF assms(1,2)] d r show ?thesis by auto
  qed
qed

definition orphan :: ledger where
  "orphan = snd (open_run new_ledger ''leaf'' 60 (Some ''root''))"

theorem raft_mirrors_core_witness:
  "let l = snd (open_run new_ledger ''leaf'' 60 None)
   in rp_accepted (fst (raft_apply (replica (runs l)) (RReserve ''leaf'' (nat 25))))"
proof -
  let ?l = "snd (open_run new_ledger ''leaf'' 60 None)"
  have rm: "runs ?l = [''leaf'' \<mapsto> fresh_run 60 None 1 False]"
    by (simp add: open_run_def open_run_as_def new_ledger_def bump_def wrap_succ_u64_def Let_def)
  have rep: "replicable (runs ?l)" by (simp add: rm replicable_def fresh_run_def ZERO_def I64_MAX_def)
  have w: "walk (runs ?l) ''leaf'' = ([\<lparr>cl_run = ''leaf'', cl_generation = 1\<rparr>], None)"
    by (simp add: rm walk_def walk_from.simps MAX_CHAIN_DEPTH_def fresh_run_def)
  have "fst (reserve ?l ''leaf'' 25) \<noteq> Inl err" for err
    using reserve_decides [of ?l "''leaf''" _ 25] w
    by (auto simp: would_exceed_def rm exceeds_def checked_add_def fresh_run_def ZERO_def in_i64_def
        machine_bounds split: sum.splits)
  then show ?thesis
    using raft_mirrors_core [OF rep, of 25 "''leaf''"] w
    by (cases "reserve ?l ''leaf'' 25"; cases "fst (reserve ?l ''leaf'' 25)") (auto simp: Let_def)
qed

text \<open>The two ledgers differ where a chain cannot be checked and on repeated settlement: a call of
  a run whose declared parent was never opened is refused by the core ledger and accepted by the
  replicated one, and the replicated ledger charges a settlement again each time it is applied.\<close>

lemma raft_differs_from_core:
  "fst (reserve orphan ''leaf'' 25) = Inl (UnknownParent ''leaf'' ''root'')
   \<and> rp_accepted (fst (raft_apply (replica (runs orphan)) (RReserve ''leaf'' 25)))
   \<and> (let settled = snd (raft_apply (replica (runs orphan)) (RSettle ''leaf'' 25 10))
      in rp_spent (fst (raft_apply settled (RSettle ''leaf'' 25 10))) = 20)"
proof -
  have rm: "runs orphan = [''leaf'' \<mapsto> fresh_run 60 (Some ''root'') 1 False]"
    by (simp add: orphan_def open_run_def open_run_as_def new_ledger_def bump_def wrap_succ_u64_def Let_def)
  have w: "walk (runs orphan) ''leaf'' =
      ([\<lparr>cl_run = ''leaf'', cl_generation = 1\<rparr>], Some (StopUnknownParent ''root''))"
    by (simp add: rm walk_def walk_from.simps MAX_CHAIN_DEPTH_def fresh_run_def)
  have rep: "replica (runs orphan) = [''leaf'' \<mapsto>
      \<lparr>rr_budget = 60, rr_reserved = 0, rr_spent = 0, rr_steps = 0, rr_parent = Some ''root''\<rparr>]"
    by (auto simp: rm replica_def replica_run_def fresh_run_def ZERO_def)
  have "fst (reserve orphan ''leaf'' 25) = Inl (UnknownParent ''leaf'' ''root'')"
    unfolding reserve_def w by (simp add: rm)
  moreover have "rp_accepted (fst (raft_apply (replica (runs orphan)) (RReserve ''leaf'' 25)))"
    by (simp add: rep raft_chain_def raft_chain_from.simps RAFT_MAX_CHAIN_DEPTH_def would_commit_def
        committed_def sat_u64_def U64_MAX_def leaf_response_def Let_def)
  moreover have "let settled = snd (raft_apply (replica (runs orphan)) (RSettle ''leaf'' 25 10))
      in rp_spent (fst (raft_apply settled (RSettle ''leaf'' 25 10))) = 20"
    by (simp add: rep raft_chain_def raft_chain_from.simps RAFT_MAX_CHAIN_DEPTH_def raft_charge_def
        sat_u64_def U64_MAX_def leaf_response_def Let_def)
  ultimately show ?thesis by blast
qed

end
