(* ===== verification/Timefmt.thy ===== *)
theory Timefmt
  imports Prelude
begin

text \<open>
  \<open>crates/core/src/timefmt.rs\<close>: calendar arithmetic and RFC 3339 formatting. The inputs the code
  passes are milliseconds in \<open>i64\<close>, whose day numbers stay far from the ends of \<open>i64\<close>, so the
  sums are exact integers.
\<close>

definition civil_from_days :: "int \<Rightarrow> int \<times> int \<times> int" where
  "civil_from_days z0 =
     (let z = z0 + 719468;
          era = z div 146097;
          doe = z mod 146097;
          yoe = tdiv (doe - tdiv doe 1460 + tdiv doe 36524 - tdiv doe 146096) 365;
          y = yoe + era * 400;
          doy = doe - (365 * yoe + tdiv yoe 4 - tdiv yoe 100);
          mp = tdiv (5 * doy + 2) 153;
          d = doy - tdiv (153 * mp + 2) 5 + 1;
          m = (if mp < 10 then mp + 3 else mp - 9)
      in (if m \<le> 2 then y + 1 else y, m, d))"

definition days_from_civil :: "int \<Rightarrow> int \<Rightarrow> int \<Rightarrow> int" where
  "days_from_civil y0 m d =
     (let y = (if m \<le> 2 then y0 - 1 else y0);
          era = y div 400;
          yoe = y mod 400;
          mp = (m + 9) mod 12;
          doy = tdiv (153 * mp + 2) 5 + d - 1;
          doe = yoe * 365 + tdiv yoe 4 - tdiv yoe 100 + doy
      in era * 146097 + doe - 719468)"

definition rfc3339_prefix :: "int \<Rightarrow> string" where
  "rfc3339_prefix ms =
     (let secs = ms div 1000;
          days = secs div 86400;
          sod = secs mod 86400;
          (y, m, d) = civil_from_days days
      in show_padded 4 y @ ''-'' @ show_padded 2 m @ ''-'' @ show_padded 2 d @ ''T''
         @ show_padded 2 (tdiv sod 3600) @ '':'' @ show_padded 2 (tdiv (sod mod 3600) 60) @ '':''
         @ show_padded 2 (sod mod 60))"

definition ts_millis_to_rfc3339 :: "int \<Rightarrow> string" where
  "ts_millis_to_rfc3339 ms = rfc3339_prefix ms @ ''Z''"

definition ts_millis_to_rfc3339_millis :: "int \<Rightarrow> string" where
  "ts_millis_to_rfc3339_millis ms =
     rfc3339_prefix ms @ ''.'' @ show_padded 3 (ms mod 1000) @ ''Z''"

lemma mod_le_146096: "x mod 146097 \<le> (146096 :: int)"
  using pos_mod_bound [of 146097 x] by simp

section \<open>The day of an era\<close>

text \<open>
  Everything rests on the ranges the comments claim: for a day \<open>doe\<close> of a 400-year era, the year
  of era is below 400 and the day of year within 0 to 365.
\<close>

definition year_of_era :: "int \<Rightarrow> int" where
  "year_of_era doe = (doe - doe div 1460 + doe div 36524 - doe div 146096) div 365"

definition day_of_year :: "int \<Rightarrow> int" where
  "day_of_year doe =
     doe - (365 * year_of_era doe + year_of_era doe div 4 - year_of_era doe div 100)"

lemma era_bounds:
  assumes "0 \<le> doe" and "doe \<le> 146096"
  shows "0 \<le> doe - doe div 1460 + doe div 36524 - doe div 146096"
    and "0 \<le> year_of_era doe" and "year_of_era doe \<le> 399"
    and "0 \<le> day_of_year doe" and "day_of_year doe \<le> 365"
proof -
  define a b c Y where "a = doe div 1460" and "b = doe div 36524" and "c = doe div 146096"
    and "Y = year_of_era doe"
  define n where "n = doe - a + b - c"
  define q h where "q = Y div 4" and "h = Y div 100"
  have a: "1460 * a \<le> doe" "doe \<le> 1460 * a + 1459" by (simp_all add: a_def)
  have b: "36524 * b \<le> doe" "doe \<le> 36524 * b + 36523" by (simp_all add: b_def)
  have c: "146096 * c \<le> doe" "doe \<le> 146096 * c + 146095" by (simp_all add: c_def)
  have Y: "365 * Y \<le> n" "n \<le> 365 * Y + 364"
    by (simp_all add: Y_def n_def year_of_era_def a_def b_def c_def)
  have q: "4 * q \<le> Y" "Y \<le> 4 * q + 3" by (simp_all add: q_def)
  have h: "100 * h \<le> Y" "Y \<le> 100 * h + 99" by (simp_all add: h_def)
  have bs: "b \<in> {0, 1, 2, 3, 4}" and cs: "c \<in> {0, 1}" and a0: "0 \<le> a" "a \<le> 100"
    using a b c assms by auto
  have cb: "c = 1 \<longleftrightarrow> b = 4" using a b c cs assms by auto
  show n0: "0 \<le> doe - doe div 1460 + doe div 36524 - doe div 146096"
    using a b c bs cs cb a0 assms unfolding a_def [symmetric] b_def [symmetric] c_def [symmetric] by auto
  have "0 \<le> n" using n0 by (simp add: n_def a_def b_def c_def)
  with Y show Y0: "0 \<le> year_of_era doe" by (simp add: Y_def)
  have "n \<le> 145999" using a b c bs cs cb a0 assms by (auto simp: n_def)
  with Y show Y399: "year_of_era doe \<le> 399" by (simp add: Y_def)
  have qa: "q \<le> a"
  proof (rule ccontr)
    assume "\<not> q \<le> a"
    then have "4 * a + 4 \<le> Y" using q by linarith
    then have "a + 1 \<le> b - c" using Y a by (simp add: n_def)
    with a b bs cs show False by auto
  qed
  have aq: "a \<le> q + 1"
  proof (rule ccontr)
    assume "\<not> a \<le> q + 1"
    then have "Y \<le> 4 * a - 5" using q by linarith
    then have "n \<le> 1460 * a - 1461" using Y by linarith
    then have "doe \<le> 1461 * a - b + c - 1461" by (simp add: n_def)
    with a a0 bs cs show False by auto
  qed
  have hb: "b - c \<le> h"
  proof (rule ccontr)
    assume "\<not> b - c \<le> h"
    then have "Y \<le> 100 * (b - c) - 1" using h by (simp add: algebra_simps)
    then have "n \<le> 36500 * (b - c) - 1" using Y by (simp add: algebra_simps)
    with a b c bs cs cb show False by (auto simp: n_def)
  qed
  have bh: "h \<le> b - c"
  proof (rule ccontr)
    assume "\<not> h \<le> b - c"
    then have "100 * (b - c) + 100 \<le> Y" using h by (simp add: algebra_simps)
    then have "36500 * (b - c) + 36500 \<le> n" using Y by (simp add: algebra_simps)
    with a b c bs cs cb assms Y399 show False by (auto simp: n_def)
  qed
  have doy: "day_of_year doe = n - 365 * Y + a - q + (h - (b - c))"
    by (simp add: day_of_year_def n_def q_def h_def Y_def)
  show "0 \<le> day_of_year doe" using doy Y qa hb bh by linarith
  show "day_of_year doe \<le> 365" using doy Y aq hb bh by linarith
qed

lemma month_bounds:
  assumes "0 \<le> doy" and "doy \<le> (365 :: int)"
  shows "0 \<le> (5 * doy + 2) div 153" and "(5 * doy + 2) div 153 \<le> 11"
    and "1 \<le> doy - (153 * ((5 * doy + 2) div 153) + 2) div 5 + 1"
    and "doy - (153 * ((5 * doy + 2) div 153) + 2) div 5 + 1 \<le> 31"
proof -
  define mp where "mp = (5 * doy + 2) div 153"
  define k where "k = (153 * mp + 2) div 5"
  have mp: "153 * mp \<le> 5 * doy + 2" "5 * doy + 2 \<le> 153 * mp + 152"
    by (simp_all add: mp_def)
  have k: "5 * k \<le> 153 * mp + 2" "153 * mp + 2 \<le> 5 * k + 4"
    by (simp_all add: k_def)
  show "0 \<le> (5 * doy + 2) div 153" "(5 * doy + 2) div 153 \<le> 11"
    using mp assms by (simp_all flip: mp_def)
  show "1 \<le> doy - (153 * ((5 * doy + 2) div 153) + 2) div 5 + 1"
    "doy - (153 * ((5 * doy + 2) div 153) + 2) div 5 + 1 \<le> 31"
    unfolding mp_def [symmetric] k_def [symmetric] using mp k by simp_all
qed

text \<open>The code's arithmetic with its truncating divisions, on these ranges.\<close>

lemma civil_from_days_unfold:
  "civil_from_days z =
     (let doe = (z + 719468) mod 146097; era = (z + 719468) div 146097;
          doy = day_of_year doe; mp = (5 * doy + 2) div 153;
          m = (if mp < 10 then mp + 3 else mp - 9)
      in (if m \<le> 2 then year_of_era doe + era * 400 + 1 else year_of_era doe + era * 400, m,
          doy - (153 * mp + 2) div 5 + 1))"
proof -
  define doe where "doe = (z + 719468) mod 146097"
  have doe: "0 \<le> doe" "doe \<le> 146096" by (simp_all add: doe_def mod_le_146096)
  note e = era_bounds [OF doe]
  note m = month_bounds [OF e(4,5)]
  have yoe: "tdiv (doe - tdiv doe 1460 + tdiv doe 36524 - tdiv doe 146096) 365 = year_of_era doe"
    using doe e(1) by (simp add: year_of_era_def)
  have doy: "doe - (365 * year_of_era doe + tdiv (year_of_era doe) 4 - tdiv (year_of_era doe) 100)
      = day_of_year doe"
    using e(2) by (simp add: day_of_year_def)
  have mp: "tdiv (5 * day_of_year doe + 2) 153 = (5 * day_of_year doe + 2) div 153"
    "tdiv (153 * ((5 * day_of_year doe + 2) div 153) + 2) 5
       = (153 * ((5 * day_of_year doe + 2) div 153) + 2) div 5"
    using e(4) m(1) by simp_all
  show ?thesis
    unfolding civil_from_days_def Let_def doe_def [symmetric] yoe doy mp ..
qed

text \<open>The calendar conversions are inverse on every day, and the month and day they give are in
  range.\<close>

lemma civil_days_roundtrip:
  "(case civil_from_days z of (y, m, d) \<Rightarrow>
      days_from_civil y m d = z \<and> 1 \<le> m \<and> m \<le> 12 \<and> 1 \<le> d \<and> d \<le> 31)"
proof -
  define doe era where "doe = (z + 719468) mod 146097" and "era = (z + 719468) div 146097"
  have z: "z = era * 146097 + doe - 719468" by (simp add: doe_def era_def)
  have doe: "0 \<le> doe" "doe \<le> 146096" by (simp_all add: doe_def mod_le_146096)
  note e = era_bounds [OF doe]
  note m = month_bounds [OF e(4,5)]
  define Y where "Y = year_of_era doe"
  define mp where "mp = (5 * day_of_year doe + 2) div 153"
  define mo where "mo = (if mp < 10 then mp + 3 else mp - 9)"
  define y where "y = (if mo \<le> 2 then Y + era * 400 + 1 else Y + era * 400)"
  define d where "d = day_of_year doe - (153 * mp + 2) div 5 + 1"
  have c: "civil_from_days z = (y, mo, d)"
    unfolding civil_from_days_unfold Let_def doe_def [symmetric] era_def [symmetric]
      Y_def [symmetric] mp_def [symmetric] mo_def [symmetric] y_def [symmetric] d_def [symmetric] ..
  have mp: "0 \<le> mp" "mp \<le> 11" using m by (simp_all add: mp_def)
  have mo: "1 \<le> mo" "mo \<le> 12" "(mo + 9) mod 12 = mp" using mp by (auto simp: mo_def)
  have y0: "(if mo \<le> 2 then y - 1 else y) = Y + era * 400" by (simp add: y_def)
  have Y: "0 \<le> Y" "Y < 400" using e by (simp_all add: Y_def)
  have doy: "day_of_year doe = doe - (365 * Y + Y div 4 - Y div 100)" by (simp add: day_of_year_def Y_def)
  have "days_from_civil y mo d = z"
  proof -
    have "(Y + era * 400) div 400 = era" "(Y + era * 400) mod 400 = Y" using Y by simp_all
    moreover have "tdiv (153 * mp + 2) 5 = (153 * mp + 2) div 5" "tdiv Y 4 = Y div 4"
      "tdiv Y 100 = Y div 100" using Y mp by simp_all
    moreover have "Y * 365 + Y div 4 - Y div 100 + ((153 * mp + 2) div 5 + d - 1) = doe"
      using doy by (simp add: d_def)
    ultimately show ?thesis
      unfolding days_from_civil_def Let_def y0 mo(3) z by (simp only:)
  qed
  moreover have "1 \<le> d" "d \<le> 31" using m(3,4) unfolding d_def mp_def .
  ultimately show ?thesis using mo(1,2) unfolding c prod.case by (intro conjI)
qed

end
