(* ===== verification/Unit_Ledger.thy ===== *)
theory Unit_Ledger
  imports Timefmt Money
begin

text \<open>
  \<open>crates/gateway/src/unitledger.rs\<close>: the per-unit monthly ledger. Every operation holds the state
  lock throughout, so it is a function on the record; time is an argument. A window is the UTC
  month key of a timestamp.
\<close>

definition DAY_MILLIS :: int where
  "DAY_MILLIS = 86400000"

definition month_key :: "int \<Rightarrow> string" where
  "month_key ts_millis =
     (let days = ts_millis div DAY_MILLIS;
          z = days + 719468;
          era = tdiv (if 0 \<le> z then z else z - 146096) 146097;
          doe = z - era * 146097;
          yoe = tdiv (doe - tdiv doe 1460 + tdiv doe 36524 - tdiv doe 146096) 365;
          y = yoe + era * 400;
          doy = doe - (365 * yoe + tdiv yoe 4 - tdiv yoe 100);
          mp = tdiv (5 * doy + 2) 153;
          m = (if mp < 10 then mp + 3 else mp - 9);
          y' = (if m \<le> 2 then y + 1 else y)
      in show_padded 4 y' @ ''-'' @ show_padded 2 m)"

record unit_reservation =
  ur_unit :: string
  ur_amount :: microusd
  ur_window :: string

record unit_exceeded =
  ue_unit :: string
  ue_budget :: microusd
  ue_spent :: microusd

datatype seed_outcome = Seed_applied | Seed_other_month | Seed_already_counting | Seed_negative

datatype restore_outcome = Restore_applied | Restore_other_month | Restore_negative

record unit_state =
  us_window :: string
  us_reserved :: microusd
  us_spent :: microusd

record unit_ledger =
  ul_base :: "string \<rightharpoonup> microusd"
  ul_overrides :: "string \<rightharpoonup> microusd"
  ul_state :: "string \<rightharpoonup> unit_state"

definition unit_ledger_new :: "(string \<rightharpoonup> microusd) \<Rightarrow> unit_ledger" where
  "unit_ledger_new base = \<lparr>ul_base = base, ul_overrides = Map.empty, ul_state = Map.empty\<rparr>"

definition set_overrides :: "unit_ledger \<Rightarrow> (string \<rightharpoonup> microusd) \<Rightarrow> unit_ledger" where
  "set_overrides u ov = u\<lparr>ul_overrides := ov\<rparr>"

definition effective_cap :: "unit_ledger \<Rightarrow> string \<Rightarrow> microusd option" where
  "effective_cap u k =
     (case ul_overrides u k of Some v \<Rightarrow> Some v | None \<Rightarrow> ul_base u k)"

text \<open>\<open>rolled\<close>: the unit's entry in the current window, as it is left in the map.\<close>

definition rolled :: "(string \<rightharpoonup> unit_state) \<Rightarrow> string \<Rightarrow> string \<Rightarrow> unit_state" where
  "rolled st k now_window =
     (let s = (case st k of
                 None \<Rightarrow> \<lparr>us_window = now_window, us_reserved = ZERO, us_spent = ZERO\<rparr>
               | Some s \<Rightarrow> s)
      in if us_window s \<noteq> now_window
         then s\<lparr>us_window := now_window, us_reserved := ZERO, us_spent := ZERO\<rparr> else s)"

definition put_unit :: "unit_ledger \<Rightarrow> string \<Rightarrow> unit_state \<Rightarrow> unit_ledger" where
  "put_unit u k s = u\<lparr>ul_state := (ul_state u)(k \<mapsto> s)\<rparr>"

definition seed_month ::
  "unit_ledger \<Rightarrow> string \<Rightarrow> microusd \<Rightarrow> string \<Rightarrow> int \<Rightarrow> seed_outcome \<times> unit_ledger" where
  "seed_month u k spent window now_millis =
     (if spent < ZERO then (Seed_negative, u)
      else let now_window = month_key now_millis
      in if window \<noteq> now_window then (Seed_other_month, u)
      else let s = rolled (ul_state u) k now_window
      in if us_spent s \<noteq> ZERO then (Seed_already_counting, put_unit u k s)
         else (Seed_applied, put_unit u k (s\<lparr>us_spent := spent\<rparr>)))"

definition restore :: "unit_ledger \<Rightarrow> unit_reservation \<Rightarrow> int \<Rightarrow> restore_outcome \<times> unit_ledger" where
  "restore u r now_millis =
     (if ur_amount r < ZERO then (Restore_negative, u)
      else let now_window = month_key now_millis
      in if ur_window r \<noteq> now_window then (Restore_other_month, u)
      else let s = rolled (ul_state u) (ur_unit r) now_window
      in (Restore_applied,
          put_unit u (ur_unit r) (s\<lparr>us_reserved := saturating_add (us_reserved s) (ur_amount r)\<rparr>)))"

definition window_of :: "unit_reservation \<Rightarrow> string" where
  "window_of r = ur_window r"

definition try_reserve ::
  "unit_ledger \<Rightarrow> string \<Rightarrow> microusd \<Rightarrow> int \<Rightarrow> (unit_reservation option, unit_exceeded) res \<times> unit_ledger" where
  "try_reserve u k estimate now_millis =
     (case effective_cap u k of
        None \<Rightarrow> (Inr None, u)
      | Some cap \<Rightarrow>
          let window = month_key now_millis;
              s = rolled (ul_state u) k window;
              u1 = put_unit u k s
          in case Option.bind (checked_add (us_spent s) (us_reserved s)) (\<lambda>c. checked_add c estimate) of
               None \<Rightarrow> (Inl \<lparr>ue_unit = k, ue_budget = cap, ue_spent = us_spent s\<rparr>, u1)
             | Some would \<Rightarrow>
                 if would \<le> cap
                 then (Inr (Some \<lparr>ur_unit = k, ur_amount = estimate, ur_window = window\<rparr>),
                       put_unit u1 k (s\<lparr>us_reserved := money_add (us_reserved s) estimate\<rparr>))
                 else (Inl \<lparr>ue_unit = k, ue_budget = cap, ue_spent = us_spent s\<rparr>, u1))"

definition unit_reserve_unchecked ::
  "unit_ledger \<Rightarrow> string \<Rightarrow> microusd \<Rightarrow> int \<Rightarrow> unit_reservation option \<times> unit_ledger" where
  "unit_reserve_unchecked u k estimate now_millis =
     (case effective_cap u k of
        None \<Rightarrow> (None, u)
      | Some _ \<Rightarrow>
          let window = month_key now_millis;
              s = rolled (ul_state u) k window
          in (Some \<lparr>ur_unit = k, ur_amount = estimate, ur_window = window\<rparr>,
              put_unit u k (s\<lparr>us_reserved := money_add (us_reserved s) estimate\<rparr>)))"

definition unit_settle :: "unit_ledger \<Rightarrow> unit_reservation \<Rightarrow> microusd \<Rightarrow> int \<Rightarrow> unit_ledger" where
  "unit_settle u r actual now_millis =
     (let now_window = month_key now_millis
      in if ur_window r \<noteq> now_window then u
      else case ul_state u (ur_unit r) of
          None \<Rightarrow> u
        | Some s \<Rightarrow>
            if us_window s \<noteq> ur_window r then u
            else put_unit u (ur_unit r)
                   (s\<lparr>us_reserved := saturating_sub (us_reserved s) (ur_amount r),
                     us_spent := money_add (us_spent s) actual\<rparr>))"

definition unit_spent :: "unit_ledger \<Rightarrow> string \<Rightarrow> int \<Rightarrow> microusd" where
  "unit_spent u k now_millis =
     (case ul_state u k of
        Some s \<Rightarrow> if us_window s = month_key now_millis then us_spent s else ZERO
      | None \<Rightarrow> ZERO)"

definition unit_reserved :: "unit_ledger \<Rightarrow> string \<Rightarrow> int \<Rightarrow> microusd" where
  "unit_reserved u k now_millis =
     (case ul_state u k of
        Some s \<Rightarrow> if us_window s = month_key now_millis then us_reserved s else ZERO
      | None \<Rightarrow> ZERO)"

section \<open>Lemmas\<close>

lemma us_update_order:
  "s\<lparr>us_spent := b, us_reserved := a\<rparr> = s\<lparr>us_reserved := a, us_spent := b\<rparr>"
  by simp

lemma rolled_view:
  "us_window (rolled (ul_state u) k (month_key t)) = month_key t"
  "us_spent (rolled (ul_state u) k (month_key t)) = unit_spent u k t"
  "us_reserved (rolled (ul_state u) k (month_key t)) = unit_reserved u k t"
  by (auto simp: rolled_def unit_spent_def unit_reserved_def Let_def split: option.splits)

lemma put_unit_view:
  assumes "us_window s = month_key t"
  shows "unit_spent (put_unit u k s) j t = (if j = k then us_spent s else unit_spent u j t)"
    and "unit_reserved (put_unit u k s) j t = (if j = k then us_reserved s else unit_reserved u j t)"
  using assms by (simp_all add: put_unit_def unit_spent_def unit_reserved_def)

text \<open>The unit ledger's own calendar code names the month that the shared calendar conversion
  gives for the same instant.\<close>

lemma month_key_is_civil_month:
  "month_key ts =
     (case civil_from_days (ts div 86400000) of (y, m, d) \<Rightarrow> show_padded 4 y @ ''-'' @ show_padded 2 m)"
proof -
  define z where "z = ts div 86400000 + 719468"
  have "tdiv (if 0 \<le> z then z else z - 146096) 146097 = z div 146097"
    using tdiv_floor [of 146097 z] by (cases "0 \<le> z") simp_all
  moreover have "z - (z div 146097) * 146097 = z mod 146097"
    by (simp add: minus_div_mult_eq_mod)
  ultimately show ?thesis
    unfolding month_key_def civil_from_days_def Let_def DAY_MILLIS_def z_def [symmetric]
    by (simp only: prod.case)
qed

text \<open>C39. A unit's monthly cap is hard: a reserve is granted exactly when spend, holds and the
  estimate of the current month fit the cap as exact integers, and then only the holds of that unit
  grow, by the estimate; a refusal leaves every unit's figures for the month as they were.\<close>

theorem unit_cap_is_hard:
  "(case try_reserve u k e t of
      (Inr None, u') \<Rightarrow> effective_cap u k = None \<and> u' = u
    | (Inl ex, u') \<Rightarrow>
        ue_spent ex = unit_spent u k t \<and> effective_cap u k = Some (ue_budget ex)
        \<and> \<not> (in_i64 (unit_spent u k t + unit_reserved u k t)
             \<and> in_i64 (unit_spent u k t + unit_reserved u k t + e)
             \<and> unit_spent u k t + unit_reserved u k t + e \<le> ue_budget ex)
        \<and> (\<lambda>j. unit_spent u' j t) = (\<lambda>j. unit_spent u j t)
        \<and> (\<lambda>j. unit_reserved u' j t) = (\<lambda>j. unit_reserved u j t)
    | (Inr (Some r), u') \<Rightarrow>
        r = \<lparr>ur_unit = k, ur_amount = e, ur_window = month_key t\<rparr>
        \<and> (\<exists>cap. effective_cap u k = Some cap \<and> unit_spent u k t + unit_reserved u k t + e \<le> cap)
        \<and> (\<lambda>j. unit_spent u' j t) = (\<lambda>j. unit_spent u j t)
        \<and> (\<lambda>j. unit_reserved u' j t)
            = (\<lambda>j. if j = k then money_add (unit_reserved u k t) e else unit_reserved u j t))"
proof (cases "effective_cap u k")
  case None
  then show ?thesis by (simp add: try_reserve_def)
next
  case (Some cap)
  let ?s = "rolled (ul_state u) k (month_key t)"
  have v: "unit_spent (put_unit u k ?s) j t = unit_spent u j t"
    "unit_reserved (put_unit u k ?s) j t = unit_reserved u j t" for j
    using put_unit_view [of ?s t u k j] rolled_view [of u k t] by auto
  have w: "unit_spent (put_unit (put_unit u k ?s) k (?s\<lparr>us_reserved := x\<rparr>)) j t = unit_spent u j t"
    "unit_reserved (put_unit (put_unit u k ?s) k (?s\<lparr>us_reserved := x\<rparr>)) j t
       = (if j = k then x else unit_reserved u j t)" for j x
    using put_unit_view [of "?s\<lparr>us_reserved := x\<rparr>" t "put_unit u k ?s" k j] rolled_view [of u k t] v
    by auto
  let ?c = "unit_spent u k t + unit_reserved u k t"
  consider "in_i64 ?c" "in_i64 (?c + e)" "?c + e \<le> cap"
    | "\<not> (in_i64 ?c \<and> in_i64 (?c + e) \<and> ?c + e \<le> cap)" by blast
  then show ?thesis
  proof cases
    case 1
    then have "try_reserve u k e t = (Inr (Some \<lparr>ur_unit = k, ur_amount = e, ur_window = month_key t\<rparr>),
        put_unit (put_unit u k ?s) k (?s\<lparr>us_reserved := money_add (unit_reserved u k t) e\<rparr>))"
      using Some by (simp add: try_reserve_def Let_def checked_add_def rolled_view)
    with 1 Some w show ?thesis by simp
  next
    case 2
    then have "try_reserve u k e t =
        (Inl \<lparr>ue_unit = k, ue_budget = cap, ue_spent = unit_spent u k t\<rparr>, put_unit u k ?s)"
      using Some by (auto simp: try_reserve_def Let_def checked_add_def rolled_view)
    with 2 Some v show ?thesis by simp
  qed
qed

text \<open>A settlement in its month releases the hold and adds the cost; one that arrives in another
  month, or after the unit's counters rolled over, changes nothing.\<close>

lemma unit_settle_window:
  "(if ur_window r = month_key t \<and> map_option us_window (ul_state u (ur_unit r)) = Some (month_key t)
    then (\<lambda>j. unit_spent (unit_settle u r a t) j t)
           = (\<lambda>j. if j = ur_unit r then money_add (unit_spent u j t) a else unit_spent u j t)
         \<and> (\<lambda>j. unit_reserved (unit_settle u r a t) j t)
           = (\<lambda>j. if j = ur_unit r then saturating_sub (unit_reserved u j t) (ur_amount r)
                  else unit_reserved u j t)
    else unit_settle u r a t = u)"
  by (auto simp: unit_settle_def unit_spent_def unit_reserved_def put_unit_def fun_eq_iff
      split: option.splits)

text \<open>Startup order does not matter: seeding a unit's month-to-date and putting a retained
  reservation back give the same ledger and the same two outcomes in either order.\<close>

lemma seed_and_restore_commute:
  "(let (o1, u1) = seed_month u k spent w t; (o2, u2) = restore u1 r t in (o1, o2, u2))
   = (let (o2, u1) = restore u r t; (o1, u2) = seed_month u1 k spent w t in (o1, o2, u2))"
  by (auto simp: seed_month_def restore_def put_unit_def rolled_def Let_def ZERO_def
      fun_upd_twist us_update_order split: option.splits)

end
