(* ===== verification/Pricing.thy ===== *)
theory Pricing
  imports Money
begin

text \<open>
  \<open>crates/core/src/pricing.rs\<close>: token usage, per-model prices and the price book. Token counts are
  \<open>u64\<close> (natural numbers), prices microdollars per million tokens. The \<open>i128\<close> saturation of the
  sum is written out; the constructors from floating-point dollars and the sorted listings are
  not modelled.
\<close>

record usage =
  us_input :: nat
  us_output :: nat
  us_cache_read :: nat
  us_cache_write :: nat
  us_cache_write_1h :: nat
  us_tool_calls :: "nat option"

definition carries_priced_tokens :: "usage \<Rightarrow> bool" where
  "carries_priced_tokens u \<longleftrightarrow>
     0 < us_input u \<or> 0 < us_output u \<or> 0 < us_cache_read u \<or> 0 < us_cache_write u
     \<or> 0 < us_cache_write_1h u"

definition prompt_tokens :: "usage \<Rightarrow> nat" where
  "prompt_tokens u = sat_u64 (sat_u64 (us_input u + us_cache_read u) + us_cache_write u)"

record model_price =
  mp_input :: microusd
  mp_output :: microusd
  mp_cache_read :: microusd
  mp_cache_write :: microusd
  mp_cache_write_1h :: microusd

definition numerator :: "nat \<Rightarrow> microusd \<Rightarrow> int" where
  "numerator tokens price = sat_i128 (int tokens * price)"

definition five_minute :: "usage \<Rightarrow> nat" where
  "five_minute u = us_cache_write u - us_cache_write_1h u"

definition total_numerator :: "model_price \<Rightarrow> usage \<Rightarrow> int" where
  "total_numerator p u =
     sat_i128 (sat_i128 (sat_i128 (sat_i128 (numerator (us_input u) (mp_input p)
       + numerator (us_output u) (mp_output p))
       + numerator (us_cache_read u) (mp_cache_read p))
       + numerator (five_minute u) (mp_cache_write p))
       + numerator (us_cache_write_1h u) (mp_cache_write_1h p))"

definition model_cost :: "model_price \<Rightarrow> usage \<Rightarrow> microusd" where
  "model_cost p u =
     (let clamped = max 0 (min I128_MAX (total_numerator p u));
          quotient = clamped div 1000000;
          remainder = clamped mod 1000000;
          ceiled = (if 0 < remainder then quotient + 1 else quotient)
      in max 0 (min I64_MAX ceiled))"

record long_context =
  lc_above_prompt_tokens :: nat
  lc_price :: model_price

record price_book =
  pb_prices :: "string \<rightharpoonup> model_price"
  pb_long_context :: "string \<rightharpoonup> long_context"
  pb_fallback :: "model_price option"

definition price_book_new :: price_book where
  "price_book_new = \<lparr>pb_prices = Map.empty, pb_long_context = Map.empty, pb_fallback = None\<rparr>"

definition pb_insert :: "price_book \<Rightarrow> string \<Rightarrow> model_price \<Rightarrow> price_book" where
  "pb_insert b m p =
     b\<lparr>pb_long_context := (pb_long_context b)(m := None), pb_prices := (pb_prices b)(m \<mapsto> p)\<rparr>"

definition pb_insert_long_context :: "price_book \<Rightarrow> string \<Rightarrow> long_context \<Rightarrow> bool \<times> price_book" where
  "pb_insert_long_context b m t =
     (if pb_prices b m = None then (False, b)
      else (True, b\<lparr>pb_long_context := (pb_long_context b)(m \<mapsto> t)\<rparr>))"

definition pb_with_long_context :: "price_book \<Rightarrow> string \<Rightarrow> nat \<Rightarrow> model_price \<Rightarrow> price_book" where
  "pb_with_long_context b m threshold p =
     snd (pb_insert_long_context b m \<lparr>lc_above_prompt_tokens = threshold, lc_price = p\<rparr>)"

definition pb_long_context_of :: "price_book \<Rightarrow> string \<Rightarrow> long_context option" where
  "pb_long_context_of b m = pb_long_context b m"

definition pb_with :: "price_book \<Rightarrow> string \<Rightarrow> model_price \<Rightarrow> price_book" where
  "pb_with b m p = pb_insert b m p"

definition pb_with_fallback :: "price_book \<Rightarrow> model_price \<Rightarrow> price_book" where
  "pb_with_fallback b p = b\<lparr>pb_fallback := Some p\<rparr>"

definition pb_price :: "price_book \<Rightarrow> string \<Rightarrow> model_price option" where
  "pb_price b m = (case pb_prices b m of Some p \<Rightarrow> Some p | None \<Rightarrow> pb_fallback b)"

definition pb_is_known :: "price_book \<Rightarrow> string \<Rightarrow> bool" where
  "pb_is_known b m = (pb_prices b m \<noteq> None)"

definition price_for :: "price_book \<Rightarrow> string \<Rightarrow> usage \<Rightarrow> model_price option" where
  "price_for b m u =
     (case pb_long_context b m of
        Some t \<Rightarrow> if lc_above_prompt_tokens t < prompt_tokens u then Some (lc_price t) else pb_price b m
      | None \<Rightarrow> pb_price b m)"

definition book_cost :: "price_book \<Rightarrow> string \<Rightarrow> usage \<Rightarrow> microusd option" where
  "book_cost b m u = map_option (\<lambda>p. model_cost p u) (price_for b m u)"

section \<open>The exact sum\<close>

definition exact_numerator :: "model_price \<Rightarrow> usage \<Rightarrow> int" where
  "exact_numerator p u =
     int (us_input u) * mp_input p + int (us_output u) * mp_output p
     + int (us_cache_read u) * mp_cache_read p + int (five_minute u) * mp_cache_write p
     + int (us_cache_write_1h u) * mp_cache_write_1h p"

definition rates_ok :: "model_price \<Rightarrow> bool" where
  "rates_ok p \<longleftrightarrow>
     0 \<le> mp_input p \<and> 0 \<le> mp_output p \<and> 0 \<le> mp_cache_read p \<and> 0 \<le> mp_cache_write p
     \<and> 0 \<le> mp_cache_write_1h p"

text \<open>On non-negative amounts a chain of saturating additions is the saturated exact sum.\<close>

lemma sat_i128_nonneg: "0 \<le> x \<Longrightarrow> sat_i128 x = min I128_MAX x"
  by (simp add: sat_i128_def machine_bounds)

lemma sat_i128_add:
  "0 \<le> x \<Longrightarrow> 0 \<le> y \<Longrightarrow> sat_i128 (sat_i128 x + sat_i128 y) = sat_i128 (x + y)"
  by (simp add: sat_i128_def machine_bounds)

lemma total_numerator_exact:
  assumes "rates_ok p"
  shows "total_numerator p u = min I128_MAX (exact_numerator p u)" and "0 \<le> exact_numerator p u"
proof -
  note r = assms [unfolded rates_ok_def]
  show nn: "0 \<le> exact_numerator p u" using r by (simp add: exact_numerator_def)
  have "total_numerator p u = sat_i128 (exact_numerator p u)"
    unfolding total_numerator_def numerator_def exact_numerator_def
    using r by (simp add: sat_i128_add)
  with nn show "total_numerator p u = min I128_MAX (exact_numerator p u)" by (simp add: sat_i128_nonneg)
qed

lemma ceil_div:
  "0 < d \<Longrightarrow> (if 0 < x mod d then x div d + 1 else x div d) = (x + (d - 1)) div (d :: int)"
proof -
  assume d: "0 < d"
  show ?thesis
  proof (cases "x mod d = 0")
    case True
    then obtain q where "x = d * q" by auto
    with d show ?thesis by simp
  next
    case False
    then have m: "0 < x mod d" using d by (simp add: order_less_le)
    have "x + (d - 1) = (x mod d - 1) + d * (x div d + 1)"
      using mult_div_mod_eq [of d x] by (simp add: ring_distribs)
    then have "(x + (d - 1)) div d = ((x mod d - 1) + d * (x div d + 1)) div d" by (simp only:)
    also have "\<dots> = (x div d + 1) + (x mod d - 1) div d" using d by (simp only: div_mult_self2)
    also have "(x mod d - 1) div d = 0" using m pos_mod_bound [OF d, of x] by simp
    finally show ?thesis using m by simp
  qed
qed

lemma ceil_million:
  "(if 0 < x mod 1000000 then x div 1000000 + 1 else x div 1000000) = (x + 999999) div (1000000 :: int)"
proof -
  have e: "(1000000 :: int) - 1 = 999999" by simp
  show ?thesis using ceil_div [of 1000000 x, unfolded e] by (simp only: zero_less_numeral)
qed

lemma ceil_bounds:
  assumes "0 < (d :: int)"
  shows "x \<le> d * ((x + (d - 1)) div d)" and "d * ((x + (d - 1)) div d) < x + d"
  using mult_div_mod_eq [of d "x + (d - 1)"] pos_mod_bound [OF assms, of "x + (d - 1)"]
    pos_mod_sign [OF assms, of "x + (d - 1)"] by linarith+

lemma model_cost_range: "0 \<le> model_cost p u \<and> model_cost p u \<le> I64_MAX"
  unfolding model_cost_def Let_def
  by (intro conjI max.cobounded1 max.boundedI min.cobounded1 I64_MAX_pos(1))

lemma model_cost_exact:
  assumes "rates_ok p"
  shows "model_cost p u = min I64_MAX ((exact_numerator p u + 999999) div 1000000)"
proof -
  note t = total_numerator_exact [OF assms, of u]
  let ?x = "min I128_MAX (exact_numerator p u)"
  have c: "max 0 (min I128_MAX (total_numerator p u)) = ?x"
    using t by (simp add: machine_bounds)
  have m: "model_cost p u = max 0 (min I64_MAX ((?x + 999999) div 1000000))"
    unfolding model_cost_def Let_def c ceil_million ..
  have nn: "0 \<le> (exact_numerator p u + 999999) div 1000000"
    using t(2) by (simp add: pos_imp_zdiv_nonneg_iff)
  have big: "I64_MAX \<le> (I128_MAX + 999999) div 1000000" by (simp add: machine_bounds)
  show ?thesis
  proof (cases "exact_numerator p u \<le> I128_MAX")
    case True
    then have "?x = exact_numerator p u" by (rule min_absorb2)
    with m nn I64_MAX_pos(1) show ?thesis by (simp only: max_absorb2 min.boundedI)
  next
    case False
    then have x: "?x = I128_MAX" by simp
    have "(I128_MAX + 999999) div 1000000 \<le> (exact_numerator p u + 999999) div 1000000"
      using False by (intro zdiv_mono1) simp_all
    with big have "I64_MAX \<le> (exact_numerator p u + 999999) div 1000000" by (rule order.trans)
    then show ?thesis using m big I64_MAX_pos(1) unfolding x by (simp only: min_absorb1 max_absorb2)
  qed
qed

text \<open>A call costs the exact sum of its parts rounded up once, at most the largest \<open>i64\<close>: below
  that ceiling it is never under-charged and over-charged by less than one micro-dollar; in
  particular no intermediate saturation shows, however large the token counts.\<close>

lemma cost_rounds_once:
  assumes "rates_ok p"
  shows "model_cost p u = min I64_MAX ((exact_numerator p u + 999999) div 1000000)
     \<and> (model_cost p u < I64_MAX \<longrightarrow>
          exact_numerator p u \<le> 1000000 * model_cost p u
          \<and> 1000000 * model_cost p u < exact_numerator p u + 1000000)"
proof -
  have "exact_numerator p u \<le> 1000000 * ((exact_numerator p u + 999999) div 1000000)"
    "1000000 * ((exact_numerator p u + 999999) div 1000000) < exact_numerator p u + 1000000"
    using ceil_bounds [of 1000000 "exact_numerator p u"] by simp_all
  with model_cost_exact [OF assms, of u] show ?thesis by (simp add: min_def)
qed

definition mini_price :: model_price where
  "mini_price = \<lparr>mp_input = 150000, mp_output = 600000, mp_cache_read = 75000, mp_cache_write = 0,
     mp_cache_write_1h = 0\<rparr>"

definition short_call :: usage where
  "short_call = \<lparr>us_input = 13, us_output = 2, us_cache_read = 0, us_cache_write = 0,
     us_cache_write_1h = 0, us_tool_calls = None\<rparr>"

theorem cost_rounds_once_witness: "rates_ok mini_price \<and> model_cost mini_price short_call = 4"
  using cost_rounds_once [of mini_price short_call]
  by (simp add: rates_ok_def mini_price_def short_call_def exact_numerator_def five_minute_def machine_bounds)

text \<open>The rate a call is priced at: the long-prompt tier strictly above its threshold, the base
  rate at or below it, the fallback for an unknown model; and inserting a base row drops the tier,
  so the inserted rate applies at every prompt length.\<close>

lemma price_selection:
  "price_for b m u =
     (case pb_long_context b m of
        Some t \<Rightarrow> if prompt_tokens u \<le> lc_above_prompt_tokens t then pb_price b m else Some (lc_price t)
      | None \<Rightarrow> pb_price b m)
   \<and> (pb_prices b m = None \<and> pb_long_context b m = None \<longrightarrow> price_for b m u = pb_fallback b)
   \<and> book_cost (pb_insert b m p) m u = Some (model_cost p u)
   \<and> (pb_prices b m' = None \<longrightarrow> pb_insert_long_context b m' t' = (False, b))
   \<and> (m' \<noteq> m \<longrightarrow> book_cost (pb_insert b m p) m' u = book_cost b m' u)"
  by (auto simp: price_for_def pb_price_def book_cost_def pb_insert_def pb_insert_long_context_def
      split: option.splits)

end
