(* ===== verification/Estimate.thy ===== *)
theory Estimate
  imports Pricing Interfaces
begin

text \<open>
  \<open>crates/gateway/src/estimate.rs\<close>: the pre-flight cost estimate. The margin is applied in \<open>f64\<close>.
  On the values that occur (a non-negative \<open>i64\<close> times a constant near one) a \<open>f64\<close> operation is
  the exact result rounded to 53 significant bits, ties to even; \<open>round53\<close> is that rounding on a
  natural number, and a product is kept as a multiple of \<open>2^-52\<close>.
\<close>

definition CHARS_PER_TOKEN :: nat where
  "CHARS_PER_TOKEN = 4"

definition DEFAULT_MAX_TOKENS :: nat where
  "DEFAULT_MAX_TOKENS = 1024"

fun bit_length :: "nat \<Rightarrow> nat" where
  "bit_length n = (if n = 0 then 0 else Suc (bit_length (n div 2)))"

declare bit_length.simps [simp del]

definition round53 :: "nat \<Rightarrow> nat" where
  "round53 n =
     (if bit_length n \<le> 53 then n
      else let s = bit_length n - 53; q = n div 2 ^ s; r = n mod 2 ^ s
           in (if 2 ^ s < 2 * r \<or> (2 ^ s = 2 * r \<and> odd q) then q + 1 else q) * 2 ^ s)"

text \<open>The \<open>f64\<close> nearest to 1.15, as a multiple of \<open>2^-52\<close>.\<close>

definition MARGIN :: nat where
  "MARGIN = 5179139571476070"

text \<open>\<open>(raw as f64 * MARGIN).ceil() as i64\<close>; the cast saturates.\<close>

definition with_margin :: "microusd \<Rightarrow> microusd" where
  "with_margin raw =
     min I64_MAX (int ((round53 (round53 (nat raw) * MARGIN) + (2 ^ 52 - 1)) div 2 ^ 52))"

definition output_cap_tokens :: "nat option \<Rightarrow> nat \<Rightarrow> nat" where
  "output_cap_tokens max_tokens completions =
     sat_u64 ((case max_tokens of None \<Rightarrow> DEFAULT_MAX_TOKENS | Some t \<Rightarrow> t) * max completions 1)"

definition estimate_usage :: "nat \<Rightarrow> nat option \<Rightarrow> nat \<Rightarrow> usage" where
  "estimate_usage body_len max_tokens completions =
     \<lparr>us_input = body_len div CHARS_PER_TOKEN, us_output = output_cap_tokens max_tokens completions,
      us_cache_read = 0, us_cache_write = 0, us_cache_write_1h = 0, us_tool_calls = None\<rparr>"

definition estimate_cost ::
  "price_book \<Rightarrow> string \<Rightarrow> nat \<Rightarrow> nat option \<Rightarrow> nat \<Rightarrow> microusd option" where
  "estimate_cost prices model body_len max_tokens completions =
     map_option with_margin (book_cost prices model (estimate_usage body_len max_tokens completions))"

section \<open>Rounding\<close>

lemma bit_length_bounds: "0 < n \<Longrightarrow> 2 ^ (bit_length n - 1) \<le> n \<and> n < 2 ^ bit_length n \<and> 0 < bit_length n"
proof (induction n rule: bit_length.induct)
  case (1 n)
  show ?case
  proof (cases "n div 2 = 0")
    case True
    with 1 have "n = 1" by presburger
    then show ?thesis by (simp add: bit_length.simps)
  next
    case False
    let ?b = "bit_length (n div 2)"
    have ih: "2 ^ (?b - 1) \<le> n div 2" "n div 2 < 2 ^ ?b" "0 < ?b" using 1 False by auto
    have b: "bit_length n = Suc ?b" using 1 by (simp add: bit_length.simps [of n])
    have "(2 :: nat) ^ ?b = 2 * 2 ^ (?b - 1)" using ih(3) by (metis Suc_diff_1 power_Suc)
    then have "2 ^ ?b \<le> 2 * (n div 2)" using ih(1) by simp
    also have "\<dots> \<le> n" by simp
    finally have "2 ^ ?b \<le> n" .
    moreover have "n < 2 * 2 ^ ?b" using ih(2) by presburger
    ultimately show ?thesis using b by simp
  qed
qed

text \<open>Rounding to 53 bits loses at most one part in \<open>2^53\<close>.\<close>

lemma round53_lower: "(2 ^ 53 - 1) * n \<le> 2 ^ 53 * round53 n"
proof (cases "bit_length n \<le> 53")
  case True
  then show ?thesis by (simp add: round53_def)
next
  case False
  define s q r where "s = bit_length n - 53" and "q = n div 2 ^ s" and "r = n mod 2 ^ s"
  have n: "n = q * 2 ^ s + r" unfolding q_def r_def by (rule div_mult_mod_eq [symmetric])
  have n0: "0 < n" using False by (cases n) (auto simp: bit_length.simps)
  have "bit_length n - 1 = s + 52" using False by (simp add: s_def)
  with bit_length_bounds [OF n0] have big: "2 ^ s * 2 ^ 52 \<le> n" by (simp add: power_add)
  have rlt: "r < 2 ^ s" by (simp add: r_def)
  have rd: "round53 n = (if 2 ^ s < 2 * r \<or> (2 ^ s = 2 * r \<and> odd q) then q + 1 else q) * 2 ^ s"
    using False by (simp add: round53_def Let_def s_def q_def r_def)
  have low: "q * 2 ^ s \<le> round53 n" unfolding rd by (rule mult_right_mono) simp_all
  have up: "n \<le> round53 n" if "2 ^ s < 2 * r"
  proof -
    have "n \<le> (q + 1) * 2 ^ s" using n rlt by simp
    then show ?thesis using that unfolding rd by simp
  qed
  show ?thesis
  proof (cases "2 ^ s < 2 * r")
    case True
    with up have "n \<le> round53 n" by simp
    then have "(2 ^ 53 - 1) * n \<le> 2 ^ 53 * n" by simp
    also have "\<dots> \<le> 2 ^ 53 * round53 n" using \<open>n \<le> round53 n\<close> by (rule mult_left_mono) simp
    finally show ?thesis .
  next
    case False
    then have "2 ^ 53 * r \<le> 2 ^ 52 * 2 ^ s" by simp
    also have "\<dots> \<le> n" using big by (simp add: mult.commute)
    finally have "2 ^ 53 * r \<le> n" .
    then have "2 ^ 53 * n - n \<le> 2 ^ 53 * (q * 2 ^ s)" using n by (simp add: algebra_simps)
    also have "\<dots> \<le> 2 ^ 53 * round53 n" using low by (rule mult_left_mono) simp
    finally show ?thesis by (simp add: diff_mult_distrib)
  qed
qed

lemma with_margin_ge:
  assumes "0 \<le> raw" and "raw \<le> I64_MAX"
  shows "raw \<le> with_margin raw"
proof -
  define n where "n = nat raw"
  define m where "m = round53 n"
  define p where "p = round53 (m * MARGIN)"
  have A: "(2 ^ 53 - 1) * n \<le> 2 ^ 53 * m" unfolding m_def by (rule round53_lower)
  have B: "(2 ^ 53 - 1) * (m * MARGIN) \<le> 2 ^ 53 * p" unfolding p_def by (rule round53_lower)
  have "2 ^ 106 * (2 ^ 52 * n) \<le> (2 ^ 53 - 1) * ((2 ^ 53 - 1) * n) * MARGIN"
    by (simp add: MARGIN_def)
  also have "\<dots> \<le> (2 ^ 53 - 1) * (2 ^ 53 * m) * MARGIN"
    using A by (intro mult_right_mono mult_left_mono) simp_all
  also have "\<dots> = 2 ^ 53 * ((2 ^ 53 - 1) * (m * MARGIN))" by simp
  also have "\<dots> \<le> 2 ^ 53 * (2 ^ 53 * p)" using B by (rule mult_left_mono) simp
  finally have "2 ^ 52 * n \<le> p" by simp
  then have "n \<le> (p + (2 ^ 52 - 1)) div 2 ^ 52" by (simp add: less_eq_div_iff_mult_less_eq)
  then have "raw \<le> int ((p + (2 ^ 52 - 1)) div 2 ^ 52)" using assms(1) by (simp add: n_def)
  with assms(2) show ?thesis by (simp add: with_margin_def p_def m_def n_def)
qed

text \<open>The estimate reserved before a call is never below what the call would cost at the
  estimated usage, despite two roundings in floating point, and it is a valid amount.\<close>

lemma estimate_covers_cost:
  "(case (book_cost b m (estimate_usage len mt n), estimate_cost b m len mt n) of
      (None, None) \<Rightarrow> True
    | (Some raw, Some e) \<Rightarrow> 0 \<le> raw \<and> raw \<le> e \<and> e \<le> I64_MAX
    | _ \<Rightarrow> False)"
proof (cases "book_cost b m (estimate_usage len mt n)")
  case None
  then show ?thesis by (simp add: estimate_cost_def)
next
  case (Some raw)
  then have "0 \<le> raw \<and> raw \<le> I64_MAX"
    using model_cost_range by (auto simp: book_cost_def)
  with Some with_margin_ge [of raw] show ?thesis by (simp add: estimate_cost_def with_margin_def)
qed

lemma estimate_nonneg: "estimate_cost b m len mt n = Some e \<Longrightarrow> 0 \<le> e"
  by (auto simp: estimate_cost_def with_margin_def)

text \<open>The request shape is part of the book the router prices against.\<close>

definition priced_request :: "price_book \<times> nat \<times> nat option \<times> nat \<Rightarrow> string \<Rightarrow> microusd option" where
  "priced_request = (\<lambda>(b, len, mt, n) m. estimate_cost b m len mt n)"

interpretation estimates: price_oracle priced_request
  by unfold_locales (auto simp: priced_request_def dest: estimate_nonneg)

end
