(* ===== verification/Router.thy ===== *)
theory Router
  imports Estimate
begin

text \<open>
  \<open>crates/gateway/src/router.rs\<close>: the model router. The rules table's \<open>HashMap\<close> of classes is a
  partial function; building the tier index iterates it, in an order that is an argument here.
  Reading the mode and the rules file from the environment is not modelled.
\<close>

datatype router_mode = Router_off | Router_shadow | Router_on

datatype tier = Haiku | Sonnet | Opus

fun tier_rank :: "tier \<Rightarrow> nat" where
  "tier_rank Haiku = 0"
| "tier_rank Sonnet = 1"
| "tier_rank Opus = 2"

instantiation tier :: linorder
begin

definition less_eq_tier :: "tier \<Rightarrow> tier \<Rightarrow> bool" where
  "less_eq_tier a b \<longleftrightarrow> tier_rank a \<le> tier_rank b"

definition less_tier :: "tier \<Rightarrow> tier \<Rightarrow> bool" where
  "less_tier a b \<longleftrightarrow> tier_rank a < tier_rank b"

instance
proof
  fix a b :: tier
  show "a \<le> b \<Longrightarrow> b \<le> a \<Longrightarrow> a = b" by (cases a; cases b) (simp_all add: less_eq_tier_def)
qed (auto simp: less_eq_tier_def less_tier_def)

end

record candidate =
  ca_model :: string
  ca_tier :: tier

record class_rule =
  cr_required_tier :: tier
  cr_candidates :: "candidate list"

record router_rules =
  rl_default_class :: string
  rl_classes :: "string \<rightharpoonup> class_rule"

definition default_rules :: router_rules where
  "default_rules =
     (let cheap = \<lparr>cr_required_tier = Haiku,
                   cr_candidates = [\<lparr>ca_model = ''claude-haiku-4-5'', ca_tier = Haiku\<rparr>]\<rparr>;
          hard = \<lparr>cr_required_tier = Sonnet,
                  cr_candidates = [\<lparr>ca_model = ''claude-sonnet-4-5'', ca_tier = Sonnet\<rparr>,
                                   \<lparr>ca_model = ''claude-opus-4-5'', ca_tier = Opus\<rparr>]\<rparr>
      in \<lparr>rl_default_class = ''default'',
          rl_classes = [''cheap'' \<mapsto> cheap, ''default'' \<mapsto> cheap, ''hard'' \<mapsto> hard, ''reasoning'' \<mapsto> hard]\<rparr>)"

record route_decision =
  de_original :: string
  de_chosen :: string

definition kept :: "string \<Rightarrow> route_decision" where
  "kept m = \<lparr>de_original = m, de_chosen = m\<rparr>"

definition routed :: "route_decision \<Rightarrow> bool" where
  "routed d \<longleftrightarrow> de_original d \<noteq> de_chosen d"

definition header_value :: "route_decision \<Rightarrow> string" where
  "header_value d =
     (if routed d then de_original d @ ''->'' @ de_chosen d else de_original d @ ''=kept'')"

record router =
  ro_mode :: router_mode
  ro_rules :: router_rules
  ro_tier_index :: "string \<rightharpoonup> tier"

text \<open>\<open>order\<close> is the order the table's classes are iterated in; a later entry replaces an earlier.\<close>

definition router_new :: "router_mode \<Rightarrow> router_rules \<Rightarrow> string list \<Rightarrow> router" where
  "router_new mode rules order =
     \<lparr>ro_mode = mode, ro_rules = rules,
      ro_tier_index =
        map_of (rev (map (\<lambda>c. (ca_model c, ca_tier c))
          (concat (map (\<lambda>k. case rl_classes rules k of None \<Rightarrow> [] | Some r \<Rightarrow> cr_candidates r) order))))\<rparr>"

definition router_disabled :: router where
  "router_disabled =
     router_new Router_off default_rules [''cheap'', ''default'', ''hard'', ''reasoning'']"

definition resolve_class :: "router \<Rightarrow> string \<Rightarrow> class_rule option" where
  "resolve_class r cls =
     (case rl_classes (ro_rules r) cls of
        Some c \<Rightarrow> Some c
      | None \<Rightarrow> rl_classes (ro_rules r) (rl_default_class (ro_rules r)))"

definition eligible :: "class_rule \<Rightarrow> candidate list" where
  "eligible rule = filter (\<lambda>c. cr_required_tier rule \<le> ca_tier c) (cr_candidates rule)"

definition must_upgrade :: "router \<Rightarrow> class_rule \<Rightarrow> string \<Rightarrow> bool" where
  "must_upgrade r rule requested =
     (case ro_tier_index r requested of None \<Rightarrow> False | Some t \<Rightarrow> t < cr_required_tier rule)"

definition route ::
  "router \<Rightarrow> string \<Rightarrow> string \<Rightarrow> price_book \<Rightarrow> nat \<Rightarrow> nat option \<Rightarrow> nat \<Rightarrow> route_decision" where
  "route r requested cls prices body_len max_tokens completions =
     (case resolve_class r cls of
        None \<Rightarrow> kept requested
      | Some rule \<Rightarrow>
          if eligible rule = [] then kept requested
          else
            let cost_of = (\<lambda>m. estimate_cost prices m body_len max_tokens completions);
                ms = map ca_model (eligible rule);
                chosen =
                  (if must_upgrade r rule requested
                   then map_option fst (min_by_cost (priced cost_of ms))
                   else case cost_of requested of
                       Some rc \<Rightarrow>
                         map_option fst (min_by_cost (filter (\<lambda>(m, c). c < rc) (priced cost_of ms)))
                     | None \<Rightarrow> None)
            in case chosen of
                 Some m \<Rightarrow>
                   if m \<noteq> requested then \<lparr>de_original = requested, de_chosen = m\<rparr> else kept requested
               | None \<Rightarrow> kept requested)"

section \<open>Properties\<close>

text \<open>The router never raises a call's cost by its own choice: a different model is always an
  eligible candidate of the class, priced, and the cheapest such; and it is strictly cheaper than
  the requested one, unless the rules say the requested model is below the class's tier.\<close>

lemma router_never_pricier:
  assumes "d = route r requested cls prices len mt n" and "routed d"
  shows "de_original d = requested
     \<and> (\<exists>rule c. resolve_class r cls = Some rule \<and> de_chosen d \<in> ca_model ` set (eligible rule)
         \<and> estimate_cost prices (de_chosen d) len mt n = Some c
         \<and> list_all (\<lambda>x. case estimate_cost prices (ca_model x) len mt n of
                            None \<Rightarrow> True | Some c' \<Rightarrow> c \<le> c') (eligible rule)
         \<and> (must_upgrade r rule requested
            \<or> (case estimate_cost prices requested len mt n of
                 None \<Rightarrow> False | Some rc \<Rightarrow> c < rc \<and> 0 < rc - c \<and> rc - c \<le> rc)))"
proof -
  obtain rule where rule: "resolve_class r cls = Some rule" "eligible rule \<noteq> []"
    using assms by (auto simp: route_def kept_def routed_def split: option.splits if_splits)
  let ?cost = "priced_request (prices, len, mt, n)" and ?ms = "map ca_model (eligible rule)"
  have cost: "?cost m = estimate_cost prices m len mt n" for m by (simp add: priced_request_def)
  have costf: "?cost = (\<lambda>m. estimate_cost prices m len mt n)" by (simp add: fun_eq_iff cost)
  have least: "list_all (\<lambda>x. case estimate_cost prices (ca_model x) len mt n of
      None \<Rightarrow> True | Some c' \<Rightarrow> c \<le> c') (eligible rule)"
    if "\<And>m' c'. m' \<in> set ?ms \<Longrightarrow> ?cost m' = Some c' \<Longrightarrow> c \<le> c'" for c
    using that by (auto simp: list_all_iff cost split: option.splits)
  show ?thesis
  proof (cases "must_upgrade r rule requested")
    case True
    then obtain m c where m: "min_by_cost (priced ?cost ?ms) = Some (m, c)" "de_chosen d = m"
      "de_original d = requested"
      using assms rule unfolding costf
      by (auto simp: route_def kept_def routed_def Let_def split: option.splits if_splits)
    note ch = estimates.choice_least [OF m(1)]
    show ?thesis using m rule True ch(1,2) least [of c] ch(3) by (auto simp: cost)
  next
    case False
    obtain rc m c where rc: "?cost requested = Some rc"
      and m: "min_by_cost (filter (\<lambda>(m, c). c < rc) (priced ?cost ?ms)) = Some (m, c)"
        "de_chosen d = m" "de_original d = requested"
      using assms rule False unfolding costf
      by (auto simp: route_def kept_def routed_def Let_def split: option.splits if_splits)
    note ch = estimates.choice_saves [OF m(1)]
    show ?thesis using m rule rc ch(1,2,3,4) least [of c] ch(5) by (auto simp: cost)
  qed
qed

definition flat_rate :: "microusd \<Rightarrow> model_price" where
  "flat_rate x = \<lparr>mp_input = x, mp_output = x, mp_cache_read = x, mp_cache_write = x, mp_cache_write_1h = x\<rparr>"

definition demo_book :: price_book where
  "demo_book = pb_with (pb_with price_book_new ''claude-haiku-4-5'' (flat_rate 0)) ''big'' (flat_rate 1000000)"

lemma demo_estimates:
  "estimate_cost demo_book ''claude-haiku-4-5'' 0 (Some 5) 2 = Some (with_margin 0)"
  "estimate_cost demo_book ''big'' 0 (Some 5) 2 = Some (with_margin 10)"
  "with_margin 0 < with_margin 10"
proof -
  let ?u = "estimate_usage 0 (Some 5) 2"
  have u: "us_input ?u = 0" "us_output ?u = 10" "us_cache_read ?u = 0" "five_minute ?u = 0"
    "us_cache_write_1h ?u = 0"
    by (simp_all add: estimate_usage_def output_cap_tokens_def sat_u64_def U64_MAX_def five_minute_def)
  have "model_cost (flat_rate 0) ?u = 0" "model_cost (flat_rate 1000000) ?u = 10"
    by (subst model_cost_exact; simp add: rates_ok_def flat_rate_def exact_numerator_def u I64_MAX_def)+
  moreover have "price_for demo_book ''claude-haiku-4-5'' u = Some (flat_rate 0)"
    "price_for demo_book ''big'' u = Some (flat_rate 1000000)" for u
    by (simp_all add: price_for_def pb_price_def demo_book_def pb_with_def pb_insert_def price_book_new_def)
  ultimately show "estimate_cost demo_book ''claude-haiku-4-5'' 0 (Some 5) 2 = Some (with_margin 0)"
    "estimate_cost demo_book ''big'' 0 (Some 5) 2 = Some (with_margin 10)"
    by (simp_all add: estimate_cost_def book_cost_def)
  have "round53 0 = 0" by (simp add: round53_def bit_length.simps)
  then have "with_margin 0 = 0" by (simp add: with_margin_def I64_MAX_def)
  moreover have "10 \<le> with_margin 10" by (rule with_margin_ge) (simp_all add: I64_MAX_def)
  ultimately show "with_margin 0 < with_margin 10" by simp
qed

lemma demo_route:
  "route router_disabled ''big'' ''cheap'' demo_book 0 (Some 5) 2
     = \<lparr>de_original = ''big'', de_chosen = ''claude-haiku-4-5''\<rparr>"
  "must_upgrade router_disabled \<lparr>cr_required_tier = Haiku,
      cr_candidates = [\<lparr>ca_model = ''claude-haiku-4-5'', ca_tier = Haiku\<rparr>]\<rparr> ''big'' = False"
  using demo_estimates
  by (simp_all add: route_def resolve_class_def router_disabled_def router_new_def default_rules_def
      eligible_def must_upgrade_def Let_def)

theorem router_never_pricier_witness:
  "routed (route router_disabled ''big'' ''cheap'' demo_book 0 (Some 5) 2)
   \<and> de_original (route router_disabled ''big'' ''cheap'' demo_book 0 (Some 5) 2) = ''big''"
proof -
  have "routed (route router_disabled ''big'' ''cheap'' demo_book 0 (Some 5) 2)"
    by (simp add: demo_route routed_def)
  from router_never_pricier [OF refl this] this show ?thesis by blast
qed

text \<open>It does save when it can: where the rules do not force an upgrade and the requested model
  has a price, keeping it means that no eligible candidate is strictly cheaper.\<close>

lemma router_keeps_only_cheapest:
  assumes "\<not> routed (route r requested cls prices len mt n)" and "resolve_class r cls = Some rule"
    and "\<not> must_upgrade r rule requested" and "estimate_cost prices requested len mt n = Some rc"
  shows "list_all (\<lambda>x. case estimate_cost prices (ca_model x) len mt n of
            None \<Rightarrow> True | Some c \<Rightarrow> rc \<le> c) (eligible rule)"
proof -
  let ?cost = "priced_request (prices, len, mt, n)" and ?ms = "map ca_model (eligible rule)"
  have cost: "?cost m = estimate_cost prices m len mt n" for m by (simp add: priced_request_def)
  have costf: "?cost = (\<lambda>m. estimate_cost prices m len mt n)" by (simp add: fun_eq_iff cost)
  show ?thesis
  proof (cases "min_by_cost (filter (\<lambda>(m, c). c < rc) (priced ?cost ?ms))")
    case None
    from estimates.no_choice [OF None] show ?thesis by (auto simp: list_all_iff cost split: option.splits)
  next
    case (Some p)
    obtain m c where p: "p = (m, c)" by force
    note ch = estimates.choice_saves [OF Some [unfolded p]]
    have "m \<noteq> requested" using ch(2,3) assms(4) by (auto simp: cost)
    then have "route r requested cls prices len mt n = \<lparr>de_original = requested, de_chosen = m\<rparr>"
      using assms(2-4) Some p ch(1) unfolding costf by (auto simp: route_def Let_def)
    with assms(1) \<open>m \<noteq> requested\<close> show ?thesis by (simp add: routed_def)
  qed
qed

theorem router_keeps_only_cheapest_witness:
  "\<exists>rule. resolve_class router_disabled ''cheap'' = Some rule
     \<and> list_all (\<lambda>x. case estimate_cost demo_book (ca_model x) 0 (Some 5) 2 of
            None \<Rightarrow> True | Some c \<Rightarrow> with_margin 0 \<le> c) (eligible rule)"
proof -
  let ?rule = "\<lparr>cr_required_tier = Haiku,
      cr_candidates = [\<lparr>ca_model = ''claude-haiku-4-5'', ca_tier = Haiku\<rparr>]\<rparr>"
  have r: "resolve_class router_disabled ''cheap'' = Some ?rule"
    "\<not> must_upgrade router_disabled ?rule ''claude-haiku-4-5''"
    by (simp_all add: resolve_class_def router_disabled_def router_new_def default_rules_def
        must_upgrade_def less_tier_def Let_def)
  have "\<not> routed (route router_disabled ''claude-haiku-4-5'' ''cheap'' demo_book 0 (Some 5) 2)"
    using r demo_estimates by (simp add: route_def eligible_def routed_def kept_def)
  from router_keeps_only_cheapest [OF this r demo_estimates(1)] r show ?thesis by blast
qed

end
