(* ===== verification/Json.thy ===== *)
theory Json
  imports Prelude
begin

text \<open>
  A parsed JSON document as the code sees it through \<open>serde_json::Value\<close>, with the accessors it
  uses. The number type is left open: the modelled code only asks whether a value is a number.
\<close>

datatype 'n json =
    JNull
  | JBool bool
  | JNum 'n
  | JStr string
  | JArr "'n json list"
  | JObj "(string \<times> 'n json) list"

fun get_field :: "string \<Rightarrow> 'n json \<Rightarrow> 'n json option" where
  "get_field k (JObj fs) = map_of fs k"
| "get_field k _ = None"

fun as_array :: "'n json \<Rightarrow> 'n json list option" where
  "as_array (JArr xs) = Some xs"
| "as_array _ = None"

fun as_str :: "'n json \<Rightarrow> string option" where
  "as_str (JStr s) = Some s"
| "as_str _ = None"

definition or_else :: "'a option \<Rightarrow> 'a \<Rightarrow> 'a" where
  "or_else x d = (case x of None \<Rightarrow> d | Some v \<Rightarrow> v)"

definition field_array :: "string \<Rightarrow> 'n json \<Rightarrow> 'n json list option" where
  "field_array k v = Option.bind (get_field k v) as_array"

definition field_str :: "string \<Rightarrow> 'n json \<Rightarrow> string option" where
  "field_str k v = Option.bind (get_field k v) as_str"

end
