(* ===== verification/Loops.thy ===== *)
theory Loops
  imports Json
begin

text \<open>
  \<open>crates/core/src/loops.rs\<close>: runaway detection. The hash of a tool call is a parameter (the
  standard library's hasher), and so are the rendering of a JSON value as text and the
  floating-point comparison with the growth factor.
\<close>

record window =
  wi_window :: nat
  wi_threshold :: nat

record 'g growth =
  gr_factor :: 'g
  gr_consecutive :: nat

record 'g anomaly_config =
  an_identical :: "window option"
  an_pingpong :: "window option"
  an_growth :: "'g growth option"

definition anomaly_default :: "'g anomaly_config" where
  "anomaly_default = \<lparr>an_identical = None, an_pingpong = None, an_growth = None\<rparr>"

definition anomaly_is_empty :: "'g anomaly_config \<Rightarrow> bool" where
  "anomaly_is_empty c \<longleftrightarrow> an_identical c = None \<and> an_pingpong c = None \<and> an_growth c = None"

section \<open>Tool-call signatures\<close>

definition anthropic_signatures ::
  "(string \<Rightarrow> string \<Rightarrow> nat) \<Rightarrow> ('n json \<Rightarrow> string) \<Rightarrow> 'n json \<Rightarrow> nat list" where
  "anthropic_signatures sig render msg =
     (case field_array ''content'' msg of
        None \<Rightarrow> []
      | Some content \<Rightarrow>
          map (\<lambda>b. sig (or_else (field_str ''name'' b) [])
                       (or_else (map_option render (get_field ''input'' b)) []))
            (filter (\<lambda>b. field_str ''type'' b = Some ''tool_use'') content))"

definition openai_signatures ::
  "(string \<Rightarrow> string \<Rightarrow> nat) \<Rightarrow> ('n json \<Rightarrow> string) \<Rightarrow> 'n json \<Rightarrow> nat list" where
  "openai_signatures sig render msg =
     (case field_array ''tool_calls'' msg of
        None \<Rightarrow> []
      | Some calls \<Rightarrow>
          map (\<lambda>c. let func = get_field ''function'' c in
                   sig (or_else (Option.bind func (field_str ''name'')) [])
                       (or_else (map_option render (Option.bind func (get_field ''arguments''))) []))
            calls)"

definition tool_call_signatures ::
  "(string \<Rightarrow> string \<Rightarrow> nat) \<Rightarrow> ('n json \<Rightarrow> string) \<Rightarrow> 'n json \<Rightarrow> nat list" where
  "tool_call_signatures sig render request =
     (case field_array ''messages'' request of
        None \<Rightarrow> []
      | Some messages \<Rightarrow>
          concat (map (\<lambda>m. anthropic_signatures sig render m @ openai_signatures sig render m) messages))"

section \<open>Detectors\<close>

definition tail_of :: "nat \<Rightarrow> 'a list \<Rightarrow> 'a list" where
  "tail_of n xs = drop (length xs - n) xs"

text \<open>The largest count of the \<open>HashMap\<close>, zero when it is empty.\<close>

definition max_count :: "nat list \<Rightarrow> nat" where
  "max_count xs = fold max (map (\<lambda>s. count_list xs s) xs) 0"

definition detect_identical :: "nat list \<Rightarrow> window \<Rightarrow> string option" where
  "detect_identical sigs cfg =
     (let m = max_count (tail_of (wi_window cfg) sigs)
      in if wi_threshold cfg \<le> m \<and> 0 < wi_threshold cfg
         then Some (''identical tool call repeated '' @ show_nat m @ ''x within the last ''
                    @ show_nat (wi_window cfg) @ '' calls'')
         else None)"

definition pingpong_at :: "nat list \<Rightarrow> nat \<Rightarrow> bool" where
  "pingpong_at w i \<longleftrightarrow> w ! i = w ! (i + 2) \<and> w ! (i + 1) = w ! (i + 3) \<and> w ! i \<noteq> w ! (i + 1)"

definition pingpong_cycles :: "nat list \<Rightarrow> nat" where
  "pingpong_cycles w = length (filter (pingpong_at w) [0..<length w - 3])"

definition detect_pingpong :: "nat list \<Rightarrow> window \<Rightarrow> string option" where
  "detect_pingpong sigs cfg =
     (let cycles = pingpong_cycles (tail_of (wi_window cfg) sigs)
      in if wi_threshold cfg \<le> cycles \<and> 0 < wi_threshold cfg
         then Some (''ping-pong tool alternation detected ('' @ show_nat cycles
                    @ '' cycles) within the last '' @ show_nat (wi_window cfg) @ '' calls'')
         else None)"

text \<open>
  \<open>grows f a b\<close> is \<open>(b as f64) >= (a as f64) * f\<close>. The loop over \<open>windows(2)\<close> with its running
  count; \<open>True\<close> is the early return.
\<close>

fun growth_loop :: "('g \<Rightarrow> nat \<Rightarrow> nat \<Rightarrow> bool) \<Rightarrow> 'g growth \<Rightarrow> nat \<Rightarrow> nat list \<Rightarrow> bool" where
  "growth_loop grows cfg run (a # b # xs) =
     (if 0 < a \<and> grows (gr_factor cfg) a b
      then (if gr_consecutive cfg \<le> run + 1 then True else growth_loop grows cfg (run + 1) (b # xs))
      else growth_loop grows cfg 0 (b # xs))"
| "growth_loop grows cfg run _ = False"

text \<open>The reason starts with the three UTF-8 bytes of the sign for "at least".\<close>

definition at_least_sign :: string where
  "at_least_sign = [CHR 0xE2, CHR 0x89, CHR 0xA5]"

definition detect_context_growth ::
  "('g \<Rightarrow> nat \<Rightarrow> nat \<Rightarrow> bool) \<Rightarrow> ('g \<Rightarrow> string) \<Rightarrow> nat list \<Rightarrow> 'g growth \<Rightarrow> string option" where
  "detect_context_growth grows show_factor sizes cfg =
     (if gr_consecutive cfg = 0 \<or> length sizes \<le> gr_consecutive cfg then None
      else if growth_loop grows cfg 0 sizes
      then Some (''context grew '' @ at_least_sign @ show_factor (gr_factor cfg) @ ''x for ''
                 @ show_nat (gr_consecutive cfg) @ '' consecutive steps'')
      else None)"

definition detect ::
  "('g \<Rightarrow> nat \<Rightarrow> nat \<Rightarrow> bool) \<Rightarrow> ('g \<Rightarrow> string) \<Rightarrow> nat list \<Rightarrow> nat list \<Rightarrow> 'g anomaly_config
     \<Rightarrow> string option" where
  "detect grows show_factor sigs sizes cfg =
     (case Option.bind (an_identical cfg) (detect_identical sigs) of
        Some r \<Rightarrow> Some r
      | None \<Rightarrow>
          (case Option.bind (an_pingpong cfg) (detect_pingpong sigs) of
             Some r \<Rightarrow> Some r
           | None \<Rightarrow> Option.bind (an_growth cfg) (detect_context_growth grows show_factor sizes)))"

section \<open>What the loops compute\<close>

lemma fold_max_le_iff: "(k :: nat) \<le> fold max xs m \<longleftrightarrow> k \<le> m \<or> (\<exists>x \<in> set xs. k \<le> x)"
  by (induction xs arbitrary: m) (auto simp: le_max_iff_disj)

lemma max_count_iff: "0 < k \<Longrightarrow> k \<le> max_count xs \<longleftrightarrow> (\<exists>s. k \<le> count_list xs s)"
proof -
  assume k: "0 < k"
  have "k \<le> max_count xs \<longleftrightarrow> (\<exists>s \<in> set xs. k \<le> count_list xs s)"
    using k by (auto simp: max_count_def fold_max_le_iff)
  also have "\<dots> \<longleftrightarrow> (\<exists>s. k \<le> count_list xs s)"
    using k by (metis count_list_0_iff leD)
  finally show ?thesis .
qed

text \<open>The growth loop hits exactly when some stretch of consecutive growing steps is long enough.\<close>

definition grows_at :: "('g \<Rightarrow> nat \<Rightarrow> nat \<Rightarrow> bool) \<Rightarrow> 'g \<Rightarrow> nat list \<Rightarrow> nat \<Rightarrow> bool" where
  "grows_at grows f xs i \<longleftrightarrow> Suc i < length xs \<and> 0 < xs ! i \<and> grows f (xs ! i) (xs ! Suc i)"

definition stretch :: "('g \<Rightarrow> nat \<Rightarrow> nat \<Rightarrow> bool) \<Rightarrow> 'g \<Rightarrow> nat list \<Rightarrow> nat \<Rightarrow> nat \<Rightarrow> bool" where
  "stretch grows f xs i n \<longleftrightarrow> (\<forall>j < n. grows_at grows f xs (i + j))"

lemma grows_at_Cons [simp]: "grows_at grows f (a # xs) (Suc i) = grows_at grows f xs i"
  by (simp add: grows_at_def)

lemma stretch_Cons [simp]: "stretch grows f (a # xs) (Suc i) n = stretch grows f xs i n"
  by (simp add: stretch_def)

lemma stretch_0_Cons:
  "stretch grows f (a # xs) 0 (Suc n) \<longleftrightarrow> grows_at grows f (a # xs) 0 \<and> stretch grows f xs 0 n"
proof -
  have "(\<forall>j < Suc n. grows_at grows f (a # xs) j) \<longleftrightarrow>
      grows_at grows f (a # xs) 0 \<and> (\<forall>j < n. grows_at grows f (a # xs) (Suc j))"
    by (auto simp: less_Suc_eq_0_disj)
  then show ?thesis by (simp add: stretch_def)
qed

lemma stretch_ex_Cons:
  "(\<exists>i. stretch grows f (a # xs) i n) \<longleftrightarrow> stretch grows f (a # xs) 0 n \<or> (\<exists>i. stretch grows f xs i n)"
  by (metis stretch_Cons not0_implies_Suc)

lemma stretch_le: "stretch grows f xs i n \<Longrightarrow> m \<le> n \<Longrightarrow> stretch grows f xs i m"
  by (simp add: stretch_def)

lemma stretch_short: "length xs \<le> 1 \<Longrightarrow> 0 < n \<Longrightarrow> \<not> stretch grows f xs i n"
  by (auto simp: stretch_def grows_at_def)

lemma growth_loop_iff:
  "run < gr_consecutive cfg \<Longrightarrow>
     growth_loop grows cfg run xs \<longleftrightarrow>
       stretch grows (gr_factor cfg) xs 0 (gr_consecutive cfg - run)
       \<or> (\<exists>i. stretch grows (gr_factor cfg) xs i (gr_consecutive cfg))"
proof (induction grows cfg run xs rule: growth_loop.induct)
  case (1 grows cfg run a b xs)
  define K S where "K = gr_consecutive cfg" and "S = stretch grows (gr_factor cfg)"
  note ex = stretch_ex_Cons [of grows "gr_factor cfg" a "b # xs", folded S_def]
  have run: "run < K" using "1.prems" by (simp add: K_def)
  have at: "0 < a \<and> grows (gr_factor cfg) a b \<longleftrightarrow> grows_at grows (gr_factor cfg) (a # b # xs) 0"
    by (simp add: grows_at_def)
  have first: "S (a # b # xs) 0 n \<longleftrightarrow> (0 < a \<and> grows (gr_factor cfg) a b) \<and> S (b # xs) 0 (n - 1)"
    if "0 < n" for n
    using that stretch_0_Cons [of grows "gr_factor cfg" a "b # xs" "n - 1"] at by (simp add: S_def)
  show ?case
  proof (cases "0 < a \<and> grows (gr_factor cfg) a b")
    case grow: True
    show ?thesis
    proof (cases "K \<le> run + 1")
      case True
      then have "K - run = 1" using run by simp
      with first [of 1] grow True show ?thesis by (simp add: K_def S_def stretch_def)
    next
      case False
      have "growth_loop grows cfg run (a # b # xs) \<longleftrightarrow> growth_loop grows cfg (run + 1) (b # xs)"
        using grow False by (simp add: K_def)
      also have "\<dots> \<longleftrightarrow> S (b # xs) 0 (K - (run + 1)) \<or> (\<exists>i. S (b # xs) i K)"
        using "1.IH"(1) [OF grow] False by (simp add: K_def S_def)
      also have "\<dots> \<longleftrightarrow> S (a # b # xs) 0 (K - run) \<or> (\<exists>i. S (a # b # xs) i K)"
      proof -
        have "K - (run + 1) \<le> K - 1" by simp
        then have "S (b # xs) 0 (K - 1) \<Longrightarrow> S (b # xs) 0 (K - (run + 1))"
          unfolding S_def by (rule stretch_le [rotated])
        then show ?thesis using first [of "K - run"] first [of K] ex [of K] grow run by auto
      qed
      finally show ?thesis by (simp add: K_def S_def)
    qed
  next
    case False
    have "growth_loop grows cfg run (a # b # xs) \<longleftrightarrow> growth_loop grows cfg 0 (b # xs)"
      unfolding growth_loop.simps using False by (simp only: if_False)
    also have "\<dots> \<longleftrightarrow> (\<exists>i. S (b # xs) i K)"
      using "1.IH"(2) [OF False] run by (auto simp: K_def S_def)
    also have "\<dots> \<longleftrightarrow> S (a # b # xs) 0 (K - run) \<or> (\<exists>i. S (a # b # xs) i K)"
      using first [of "K - run"] first [of K] ex [of K] False run by auto
    finally show ?thesis by (simp add: K_def S_def)
  qed
qed (simp_all add: stretch_short)

section \<open>Properties\<close>

text \<open>The detectors fire exactly on what they describe: one tool call occurring at least the
  threshold number of times in the window, at least the threshold number of alternation cycles in
  it, and a stretch of the configured number of consecutive growing steps anywhere in the history.
  A detector configured with zero never fires.\<close>

lemma detectors_exact:
  "(detect_identical sigs w \<noteq> None \<longleftrightarrow>
      0 < wi_threshold w \<and> (\<exists>s. wi_threshold w \<le> count_list (tail_of (wi_window w) sigs) s))
   \<and> (detect_pingpong sigs w \<noteq> None \<longleftrightarrow>
      0 < wi_threshold w \<and> wi_threshold w \<le> card {i. i + 3 < length (tail_of (wi_window w) sigs)
                                                \<and> pingpong_at (tail_of (wi_window w) sigs) i})
   \<and> (detect_context_growth grows sf sizes g \<noteq> None \<longleftrightarrow>
      0 < gr_consecutive g \<and> (\<exists>i. stretch grows (gr_factor g) sizes i (gr_consecutive g)))"
proof -
  let ?t = "tail_of (wi_window w) sigs"
  have "pingpong_cycles ?t = card (set (filter (pingpong_at ?t) [0..<length ?t - 3]))"
    by (simp add: pingpong_cycles_def distinct_card [symmetric])
  moreover have "set (filter (pingpong_at ?t) [0..<length ?t - 3])
      = {i. i + 3 < length ?t \<and> pingpong_at ?t i}" by auto
  ultimately have pp: "pingpong_cycles ?t = card {i. i + 3 < length ?t \<and> pingpong_at ?t i}" by simp
  have short: "gr_consecutive g < length sizes"
    if "0 < gr_consecutive g" "stretch grows (gr_factor g) sizes i (gr_consecutive g)" for i
    using that by (auto simp: stretch_def grows_at_def dest!: spec [of _ "gr_consecutive g - 1"])
  have "detect_context_growth grows sf sizes g \<noteq> None \<longleftrightarrow>
      0 < gr_consecutive g \<and> gr_consecutive g < length sizes \<and> growth_loop grows g 0 sizes"
    by (auto simp: detect_context_growth_def)
  then have "detect_context_growth grows sf sizes g \<noteq> None \<longleftrightarrow>
      0 < gr_consecutive g \<and> (\<exists>i. stretch grows (gr_factor g) sizes i (gr_consecutive g))"
    using growth_loop_iff [of 0 g grows sizes] short by auto
  then show ?thesis
    using max_count_iff [of "wi_threshold w" ?t] pp
    by (auto simp: detect_identical_def detect_pingpong_def Let_def)
qed

end
