(* ===== verification/Policy.thy ===== *)
theory Policy
  imports Ledger Loops
begin

text \<open>
  \<open>crates/core/src/policy.rs\<close> and \<open>crates/core/src/breaker.rs\<close>: the non-budget limits with their
  rollout mode, and the facade that renders a block on the wire. How an amount is printed in a
  reason is a parameter (\<open>show_usd\<close>), as are the floating-point dollars of the error body.
\<close>

section \<open>Policy\<close>

datatype mode = Shadow | Warn_mode | Enforce

record 'g policy =
  po_mode :: mode
  po_budget_per_run :: "microusd option"
  po_budget_per_step :: "microusd option"
  po_max_steps :: "nat option"
  po_anomalies :: "'g anomaly_config"

definition policy_default :: "'g policy" where
  "policy_default =
     \<lparr>po_mode = Shadow, po_budget_per_run = None, po_budget_per_step = None, po_max_steps = None,
      po_anomalies = anomaly_default\<rparr>"

datatype decision = Allow | Warn string | Block string

fun is_blocking :: "decision \<Rightarrow> bool" where
  "is_blocking (Block _) = True"
| "is_blocking _ = False"

record evaluation =
  ev_decision :: decision
  ev_violated :: "string option"

definition first_violation ::
  "(microusd \<Rightarrow> string) \<Rightarrow> 'g policy \<Rightarrow> run_snapshot \<Rightarrow> microusd \<Rightarrow> string option" where
  "first_violation show_usd p s estimate =
     (case po_max_steps p of
        Some m \<Rightarrow>
          if m \<le> sn_steps s
          then Some (''max steps reached: '' @ show_nat (sn_steps s) @ '' of '' @ show_nat m @ '' already taken'')
          else (case po_budget_per_step p of
                  Some cap \<Rightarrow>
                    if cap < estimate
                    then Some (''per-step budget exceeded: estimate '' @ show_usd estimate @ '' over cap '' @ show_usd cap)
                    else None
                | None \<Rightarrow> None)
      | None \<Rightarrow>
          (case po_budget_per_step p of
             Some cap \<Rightarrow>
               if cap < estimate
               then Some (''per-step budget exceeded: estimate '' @ show_usd estimate @ '' over cap '' @ show_usd cap)
               else None
           | None \<Rightarrow> None))"

definition evaluate ::
  "(microusd \<Rightarrow> string) \<Rightarrow> 'g policy \<Rightarrow> run_snapshot \<Rightarrow> microusd \<Rightarrow> evaluation" where
  "evaluate show_usd p s estimate =
     (let violated = first_violation show_usd p s estimate
      in \<lparr>ev_decision =
            (case violated of
               None \<Rightarrow> Allow
             | Some reason \<Rightarrow>
                 (case po_mode p of Shadow \<Rightarrow> Allow | Warn_mode \<Rightarrow> Warn reason | Enforce \<Rightarrow> Block reason)),
          ev_violated = violated\<rparr>)"

section \<open>Breaker\<close>

datatype breaker_reason =
    Budget_exceeded | Policy_violation | Loop_detected | Killed | Wasm_policy | Taint_blocked
  | Dlp_blocked | Unit_budget_exceeded | Identity_mismatch

fun as_wire_str :: "breaker_reason \<Rightarrow> string" where
  "as_wire_str Budget_exceeded = ''budget_exceeded''"
| "as_wire_str Policy_violation = ''policy_violation''"
| "as_wire_str Loop_detected = ''loop_detected''"
| "as_wire_str Killed = ''killed''"
| "as_wire_str Wasm_policy = ''wasm_policy''"
| "as_wire_str Taint_blocked = ''taint_blocked''"
| "as_wire_str Dlp_blocked = ''dlp_blocked''"
| "as_wire_str Unit_budget_exceeded = ''unit_budget_exceeded''"
| "as_wire_str Identity_mismatch = ''identity_mismatch''"

definition http_status :: "breaker_reason \<Rightarrow> nat" where
  "http_status r =
     (case r of Taint_blocked \<Rightarrow> 403 | Dlp_blocked \<Rightarrow> 403 | Identity_mismatch \<Rightarrow> 403 | _ \<Rightarrow> 402)"

record 'f breaker_verdict =
  bv_tripped :: bool
  bv_reason :: "breaker_reason option"
  bv_detail :: "string option"
  bv_budget_usd :: "'f option"
  bv_spent_usd :: "'f option"
  bv_policy_id :: "string option"
  bv_would_trip_only :: bool

definition breaker_allow :: "'f breaker_verdict" where
  "breaker_allow =
     \<lparr>bv_tripped = False, bv_reason = None, bv_detail = None, bv_budget_usd = None, bv_spent_usd = None,
      bv_policy_id = None, bv_would_trip_only = False\<rparr>"

text \<open>The \<open>WireError\<close> struct: an absent optional field is left out, not \<open>null\<close>.\<close>

definition optional_field :: "string \<Rightarrow> ('a \<Rightarrow> 'f json) \<Rightarrow> 'a option \<Rightarrow> (string \<times> 'f json) list" where
  "optional_field k f x = (case x of None \<Rightarrow> [] | Some v \<Rightarrow> [(k, f v)])"

definition to_error_json :: "'f breaker_verdict \<Rightarrow> string \<Rightarrow> 'f json" where
  "to_error_json v run_id =
     JObj [(''error'', JObj
       ([(''type'', JStr (case bv_reason v of None \<Rightarrow> [] | Some r \<Rightarrow> as_wire_str r)),
         (''run_id'', JStr run_id)]
        @ optional_field ''budget_usd'' JNum (bv_budget_usd v)
        @ optional_field ''spent_usd'' JNum (bv_spent_usd v)
        @ optional_field ''policy_id'' JStr (bv_policy_id v)
        @ [(''reason'', JStr (or_else (bv_detail v) [])), (''retryable'', JBool False)]))]"

section \<open>Properties\<close>

definition over_limit :: "'g policy \<Rightarrow> run_snapshot \<Rightarrow> microusd \<Rightarrow> bool" where
  "over_limit p s e \<longleftrightarrow>
     (case po_max_steps p of None \<Rightarrow> False | Some m \<Rightarrow> m \<le> sn_steps s)
     \<or> (case po_budget_per_step p of None \<Rightarrow> False | Some cap \<Rightarrow> cap < e)"

lemma first_violation_iff: "first_violation f p s e \<noteq> None \<longleftrightarrow> over_limit p s e"
  by (auto simp: first_violation_def over_limit_def split: option.splits)

text \<open>The policy blocks a call exactly when it enforces and the call is over a step or cost limit;
  the violation it records is the same in every mode, and a larger estimate or a later step that
  was over a limit stays over it.\<close>

lemma policy_blocks_iff:
  "(is_blocking (ev_decision (evaluate f p s e)) \<longleftrightarrow> po_mode p = Enforce \<and> over_limit p s e)
   \<and> (ev_violated (evaluate f p s e) \<noteq> None \<longleftrightarrow> over_limit p s e)
   \<and> (po_mode p = Shadow \<longrightarrow> ev_decision (evaluate f p s e) = Allow)
   \<and> ev_violated (evaluate f (p\<lparr>po_mode := m\<rparr>) s e) = ev_violated (evaluate f p s e)
   \<and> (over_limit p s e \<longrightarrow> over_limit p (s\<lparr>sn_steps := sn_steps s + n\<rparr>) (e + int k))"
proof -
  have "is_blocking (ev_decision (evaluate f p s e)) \<longleftrightarrow> po_mode p = Enforce \<and> over_limit p s e"
    using first_violation_iff [of f p s e]
    by (auto simp: evaluate_def Let_def split: option.splits mode.splits)
  moreover have "ev_violated (evaluate f p s e) \<noteq> None \<longleftrightarrow> over_limit p s e"
    using first_violation_iff [of f p s e] by (simp add: evaluate_def Let_def)
  moreover have "po_mode p = Shadow \<longrightarrow> ev_decision (evaluate f p s e) = Allow"
    by (auto simp: evaluate_def Let_def split: option.splits)
  moreover have "first_violation f (p\<lparr>po_mode := m\<rparr>) s e = first_violation f p s e"
    by (simp add: first_violation_def split: option.splits)
  moreover have "over_limit p s e \<longrightarrow> over_limit p (s\<lparr>sn_steps := sn_steps s + n\<rparr>) (e + int k)"
    by (auto simp: over_limit_def split: option.splits)
  ultimately show ?thesis by (simp add: evaluate_def Let_def)
qed

theorem policy_blocks_iff_witness:
  "is_blocking (ev_decision (evaluate (\<lambda>_. []) (policy_default\<lparr>po_mode := Enforce, po_max_steps := Some 2\<rparr>)
      \<lparr>sn_budget = 9, sn_reserved = 0, sn_spent = 0, sn_steps = 2\<rparr> 5))"
  by (rule policy_blocks_iff [THEN conjunct1, THEN iffD2]) (simp add: over_limit_def)

text \<open>A block on the wire names its reason unambiguously, with a status that separates budget
  trips (402) from security ones (403), and its error object carries the run and exactly the
  optional fields that are set.\<close>

lemma breaker_wire_contract:
  "(as_wire_str r = as_wire_str r' \<longleftrightarrow> r = r')
   \<and> http_status r \<in> {402, 403}
   \<and> (http_status r = 403 \<longleftrightarrow> r = Taint_blocked \<or> r = Dlp_blocked \<or> r = Identity_mismatch)
   \<and> Option.bind (get_field ''error'' (to_error_json v run)) (field_str ''run_id'') = Some run
   \<and> Option.bind (get_field ''error'' (to_error_json v run)) (field_str ''type'')
       = Some (case bv_reason v of None \<Rightarrow> [] | Some r \<Rightarrow> as_wire_str r)
   \<and> Option.bind (get_field ''error'' (to_error_json v run)) (get_field ''budget_usd'')
       = map_option JNum (bv_budget_usd v)
   \<and> Option.bind (get_field ''error'' (to_error_json v run)) (get_field ''spent_usd'')
       = map_option JNum (bv_spent_usd v)
   \<and> Option.bind (get_field ''error'' (to_error_json v run)) (get_field ''policy_id'')
       = map_option JStr (bv_policy_id v)"
proof -
  have "as_wire_str r = as_wire_str r' \<longleftrightarrow> r = r'" by (cases r; cases r') simp_all
  moreover have "http_status r \<in> {402, 403}"
    "http_status r = 403 \<longleftrightarrow> r = Taint_blocked \<or> r = Dlp_blocked \<or> r = Identity_mismatch"
    by (cases r; simp add: http_status_def)+
  ultimately show ?thesis
    by (simp add: to_error_json_def field_str_def optional_field_def split: option.splits)
qed

end
