(* ===== verification/Backtest.thy ===== *)
theory Backtest
  imports Prelude "HOL-Library.Multiset" "HOL-Library.List_Lexorder" "HOL-Library.Char_ord"
begin

text \<open>
  \<open>crates/core/src/backtest.rs\<close>: replaying a candidate policy over the recorded calls. The grouping
  \<open>BTreeMap\<close> visits the runs in name order; the stable \<open>sort_by_key\<close> is \<open>sort_key\<close>. Sums are plain
  \<open>i64\<close> additions, which wrap in a release build. Counts of calls in memory fit their \<open>u64\<close>.
\<close>

record bt_call =
  bc_run :: string
  bc_step :: nat
  bc_cost :: int

record backtest_policy =
  bp_budget_per_run :: "int option"
  bp_budget_per_step :: "int option"
  bp_max_steps :: "nat option"

definition backtest_policy_is_empty :: "backtest_policy \<Rightarrow> bool" where
  "backtest_policy_is_empty p \<longleftrightarrow>
     bp_budget_per_run p = None \<and> bp_budget_per_step p = None \<and> bp_max_steps p = None"

record backtest_report =
  br_runs_total :: nat
  br_runs_affected :: nat
  br_calls_total :: nat
  br_calls_blocked :: nat
  br_spent :: int
  br_saved :: int

definition projected_microusd :: "backtest_report \<Rightarrow> int" where
  "projected_microusd r = wrap_i64 (br_spent r - br_saved r)"

text \<open>The variables of the inner loop, with the two report fields it adds to.\<close>

record replay =
  ry_running :: int
  ry_steps :: nat
  ry_stopped :: bool
  ry_affected :: bool
  ry_blocked :: nat
  ry_saved :: int

definition block_call :: "bt_call \<Rightarrow> bool \<Rightarrow> replay \<Rightarrow> replay" where
  "block_call c stop r =
     r\<lparr>ry_stopped := (ry_stopped r \<or> stop), ry_affected := True, ry_blocked := Suc (ry_blocked r),
       ry_saved := wrap_i64 (ry_saved r + bc_cost c)\<rparr>"

definition replay_call :: "backtest_policy \<Rightarrow> bt_call \<Rightarrow> replay \<Rightarrow> replay" where
  "replay_call p c r =
     (if ry_stopped r then block_call c False r
      else if (case bp_max_steps p of None \<Rightarrow> False | Some m \<Rightarrow> m \<le> ry_steps r) then block_call c True r
      else if (case bp_budget_per_run p of None \<Rightarrow> False
               | Some b \<Rightarrow> b < wrap_i64 (ry_running r + bc_cost c)) then block_call c True r
      else if (case bp_budget_per_step p of None \<Rightarrow> False | Some s \<Rightarrow> s < bc_cost c) then block_call c False r
      else r\<lparr>ry_running := wrap_i64 (ry_running r + bc_cost c), ry_steps := wrap_succ_u32 (ry_steps r)\<rparr>)"

definition replay_run ::
  "backtest_policy \<Rightarrow> bt_call list \<Rightarrow> nat \<times> nat \<times> int \<Rightarrow> nat \<times> nat \<times> int" where
  "replay_run p cs = (\<lambda>(affected, blocked, saved).
     let r = fold (replay_call p) (sort_key bc_step cs)
               \<lparr>ry_running = 0, ry_steps = 0, ry_stopped = False, ry_affected = False,
                ry_blocked = blocked, ry_saved = saved\<rparr>
     in (if ry_affected r then Suc affected else affected, ry_blocked r, ry_saved r))"

definition run_names :: "bt_call list \<Rightarrow> string list" where
  "run_names calls = sort (remdups (map bc_run calls))"

definition backtest :: "bt_call list \<Rightarrow> backtest_policy \<Rightarrow> backtest_report" where
  "backtest calls p =
     (let names = run_names calls;
          (affected, blocked, saved) =
            fold (\<lambda>n. replay_run p (filter (\<lambda>c. bc_run c = n) calls)) names (0, 0, 0)
      in \<lparr>br_runs_total = length names, br_runs_affected = affected, br_calls_total = length calls,
          br_calls_blocked = blocked, br_spent = wrap_sum (map bc_cost calls), br_saved = saved\<rparr>)"

section \<open>One run\<close>

lemma replay_calls_inv:
  assumes "\<forall>c \<in> set cs. 0 \<le> bc_cost c" and "0 \<le> ry_running r" and "0 \<le> ry_saved r"
    and "ry_running r + ry_saved r + sum_list (map bc_cost cs) \<le> I64_MAX"
    and "fold (replay_call p) cs r = r'"
  shows "ry_running r' + ry_saved r' = ry_running r + ry_saved r + sum_list (map bc_cost cs)
     \<and> 0 \<le> ry_running r' \<and> ry_saved r \<le> ry_saved r'
     \<and> ry_blocked r \<le> ry_blocked r' \<and> ry_blocked r' \<le> ry_blocked r + length cs
     \<and> (\<forall>b. bp_budget_per_run p = Some b \<longrightarrow> ry_running r \<le> b \<longrightarrow> ry_running r' \<le> b)
     \<and> (backtest_policy_is_empty p \<longrightarrow> \<not> ry_stopped r \<longrightarrow>
          ry_saved r' = ry_saved r \<and> ry_blocked r' = ry_blocked r)
     \<and> (ry_affected r' \<longrightarrow> ry_affected r \<or> ry_blocked r < ry_blocked r')"
  using assms
proof (induction cs arbitrary: r)
  case Nil
  then show ?case by simp
next
  case (Cons c cs)
  define s where "s = replay_call p c r"
  have c0: "0 \<le> bc_cost c" and cs0: "\<forall>c \<in> set cs. 0 \<le> bc_cost c" using Cons.prems(1) by simp_all
  have nn: "0 \<le> sum_list (map bc_cost cs)" using cs0 by (intro sum_list_nonneg) auto
  have "in_i64 (ry_running r + bc_cost c)" "in_i64 (ry_saved r + bc_cost c)"
    using Cons.prems c0 nn by (simp_all add: in_i64_def I64_MIN_def)
  then have exact: "wrap_i64 (ry_running r + bc_cost c) = ry_running r + bc_cost c"
    "wrap_i64 (ry_saved r + bc_cost c) = ry_saved r + bc_cost c" by (simp_all add: sat_simps)
  have cases: "(ry_running s = ry_running r \<and> ry_saved s = ry_saved r + bc_cost c
        \<and> ry_blocked s = Suc (ry_blocked r) \<and> \<not> (backtest_policy_is_empty p \<and> \<not> ry_stopped r))
      \<or> (ry_running s = ry_running r + bc_cost c \<and> ry_saved s = ry_saved r \<and> ry_blocked s = ry_blocked r
        \<and> ry_stopped s = ry_stopped r \<and> ry_affected s = ry_affected r
        \<and> (\<forall>b. bp_budget_per_run p = Some b \<longrightarrow> ry_running r + bc_cost c \<le> b))"
    unfolding s_def replay_call_def block_call_def exact backtest_policy_is_empty_def
    by (auto split: option.splits)
  have fold': "fold (replay_call p) cs s = r'" using Cons.prems(5) by (simp add: s_def)
  have sums: "ry_running s + ry_saved s = ry_running r + ry_saved r + bc_cost c" using cases by auto
  have pos: "0 \<le> ry_running s" "0 \<le> ry_saved s" using cases c0 Cons.prems(2,3) by auto
  have room: "ry_running s + ry_saved s + sum_list (map bc_cost cs) \<le> I64_MAX"
    using Cons.prems(4) sums by simp
  note ih = Cons.IH [OF cs0 pos room fold']
  from cases show ?case
  proof (elim disjE conjE)
    assume s: "ry_running s = ry_running r" "ry_saved s = ry_saved r + bc_cost c"
      "ry_blocked s = Suc (ry_blocked r)" "\<not> (backtest_policy_is_empty p \<and> \<not> ry_stopped r)"
    show ?thesis using ih s c0 sums by auto
  next
    assume s: "ry_running s = ry_running r + bc_cost c" "ry_saved s = ry_saved r"
      "ry_blocked s = ry_blocked r" "ry_stopped s = ry_stopped r" "ry_affected s = ry_affected r"
      "\<forall>b. bp_budget_per_run p = Some b \<longrightarrow> ry_running r + bc_cost c \<le> b"
    show ?thesis using ih s c0 sums by auto
  qed
qed

lemma sum_list_sort_key: "sum_list (map f (sort_key k xs)) = sum_list (map (f :: _ \<Rightarrow> int) xs)"
  by (metis mset_map mset_sort sum_mset_sum_list)

lemma replay_run_inv:
  assumes "\<forall>c \<in> set cs. 0 \<le> bc_cost c" and "0 \<le> saved"
    and "saved + sum_list (map bc_cost cs) \<le> I64_MAX"
    and "replay_run p cs (affected, blocked, saved) = (affected', blocked', saved')"
  shows "\<exists>kept. saved' + kept = saved + sum_list (map bc_cost cs) \<and> 0 \<le> kept \<and> saved \<le> saved'
     \<and> blocked' \<le> blocked + length cs \<and> affected' \<le> Suc affected
     \<and> (\<forall>b. bp_budget_per_run p = Some b \<longrightarrow> 0 \<le> b \<longrightarrow> kept \<le> b)
     \<and> (backtest_policy_is_empty p \<longrightarrow> saved' = saved \<and> blocked' = blocked)"
proof -
  let ?r = "\<lparr>ry_running = 0, ry_steps = 0, ry_stopped = False, ry_affected = False,
                ry_blocked = blocked, ry_saved = saved\<rparr>"
  define r' where "r' = fold (replay_call p) (sort_key bc_step cs) ?r"
  have "ry_running r' + ry_saved r' = saved + sum_list (map bc_cost cs)
     \<and> 0 \<le> ry_running r' \<and> saved \<le> ry_saved r' \<and> ry_blocked r' \<le> blocked + length cs
     \<and> (\<forall>b. bp_budget_per_run p = Some b \<longrightarrow> 0 \<le> b \<longrightarrow> ry_running r' \<le> b)
     \<and> (backtest_policy_is_empty p \<longrightarrow> ry_saved r' = saved \<and> ry_blocked r' = blocked)"
    using replay_calls_inv [of "sort_key bc_step cs" ?r p r'] assms(1-3)
    by (auto simp: r'_def sum_list_sort_key)
  moreover have "saved' = ry_saved r'" "blocked' = ry_blocked r'" "affected' \<le> Suc affected"
    using assms(4) by (auto simp: replay_run_def r'_def Let_def)
  ultimately show ?thesis by (intro exI [of _ "ry_running r'"]) auto
qed

section \<open>All runs\<close>

abbreviation calls_of :: "bt_call list \<Rightarrow> string \<Rightarrow> bt_call list" where
  "calls_of calls n \<equiv> filter (\<lambda>c. bc_run c = n) calls"

lemma replay_runs_inv:
  assumes "\<forall>c \<in> set calls. 0 \<le> bc_cost c" and "0 \<le> saved"
    and "saved + sum_list (map (\<lambda>n. sum_list (map bc_cost (calls_of calls n))) names) \<le> I64_MAX"
    and "fold (\<lambda>n. replay_run p (calls_of calls n)) names (affected, blocked, saved)
       = (affected', blocked', saved')"
  shows "\<exists>kept. saved' + kept = saved + sum_list (map (\<lambda>n. sum_list (map bc_cost (calls_of calls n))) names)
     \<and> 0 \<le> kept \<and> saved \<le> saved'
     \<and> blocked' \<le> blocked + sum_list (map (\<lambda>n. length (calls_of calls n)) names)
     \<and> affected' \<le> affected + length names
     \<and> (\<forall>b. bp_budget_per_run p = Some b \<longrightarrow> 0 \<le> b \<longrightarrow> kept \<le> int (length names) * b)
     \<and> (backtest_policy_is_empty p \<longrightarrow> saved' = saved \<and> blocked' = blocked)"
  using assms(2-4)
proof (induction names arbitrary: affected blocked saved)
  case Nil
  then show ?case by simp
next
  case (Cons n names)
  let ?cost = "\<lambda>n. sum_list (map bc_cost (calls_of calls n))"
  obtain a b s where run: "replay_run p (calls_of calls n) (affected, blocked, saved) = (a, b, s)"
    by (metis prod_cases3)
  have nonneg: "\<forall>c \<in> set (calls_of calls m). 0 \<le> bc_cost c" for m using assms(1) by simp
  have costs: "0 \<le> ?cost m" for m using nonneg [of m] by (intro sum_list_nonneg) auto
  have rest: "0 \<le> sum_list (map ?cost names)" using costs by (intro sum_list_nonneg) auto
  obtain k where k: "s + k = saved + ?cost n" "0 \<le> k" "saved \<le> s"
    "b \<le> blocked + length (calls_of calls n)" "a \<le> Suc affected"
    "\<forall>b. bp_budget_per_run p = Some b \<longrightarrow> 0 \<le> b \<longrightarrow> k \<le> b"
    "backtest_policy_is_empty p \<longrightarrow> s = saved \<and> b = blocked"
    using replay_run_inv [OF nonneg Cons.prems(1) _ run] Cons.prems(2) rest by auto
  have "fold (\<lambda>n. replay_run p (calls_of calls n)) names (a, b, s) = (affected', blocked', saved')"
    using Cons.prems(3) run by simp
  moreover have "0 \<le> s" "s + sum_list (map ?cost names) \<le> I64_MAX" using k Cons.prems by simp_all
  ultimately obtain k' where "saved' + k' = s + sum_list (map ?cost names)" "0 \<le> k'" "s \<le> saved'"
    "blocked' \<le> b + sum_list (map (\<lambda>n. length (calls_of calls n)) names)" "affected' \<le> a + length names"
    "\<forall>b. bp_budget_per_run p = Some b \<longrightarrow> 0 \<le> b \<longrightarrow> k' \<le> int (length names) * b"
    "backtest_policy_is_empty p \<longrightarrow> saved' = s \<and> blocked' = b"
    using Cons.IH by metis
  with k show ?case by (intro exI [of _ "k + k'"]) (auto simp: distrib_right intro: add_mono)
qed

lemma run_names_facts: "distinct (run_names calls)" "bc_run ` set calls \<subseteq> set (run_names calls)"
  by (auto simp: run_names_def)

lemmas sum_by_run = sum_by_group [OF run_names_facts]

lemma length_by_run: "sum_list (map (\<lambda>n. length (calls_of calls n)) (run_names calls)) = length calls"
  using sum_by_run [of "\<lambda>_. 1 :: nat"] by (simp add: sum_list_triv)

text \<open>A backtest accounts for every recorded call: with non-negative costs whose total fits
  \<open>i64\<close>, what the candidate policy saves and what is projected to remain add up to what was
  spent, neither is negative, no more calls or runs are counted as hit than there are, a per-run
  budget bounds the projected spend by that budget for each run, and an empty policy saves and
  blocks nothing.\<close>

lemma backtest_accounts:
  assumes "\<forall>c \<in> set calls. 0 \<le> bc_cost c" and "sum_list (map bc_cost calls) \<le> I64_MAX"
  shows "br_spent (backtest calls p) = sum_list (map bc_cost calls)
     \<and> br_saved (backtest calls p) + projected_microusd (backtest calls p) = br_spent (backtest calls p)
     \<and> 0 \<le> br_saved (backtest calls p) \<and> 0 \<le> projected_microusd (backtest calls p)
     \<and> br_calls_blocked (backtest calls p) \<le> br_calls_total (backtest calls p)
     \<and> br_runs_affected (backtest calls p) \<le> br_runs_total (backtest calls p)
     \<and> (\<forall>b. bp_budget_per_run p = Some b \<longrightarrow> 0 \<le> b \<longrightarrow>
          projected_microusd (backtest calls p) \<le> int (br_runs_total (backtest calls p)) * b)
     \<and> (backtest_policy_is_empty p \<longrightarrow>
          br_saved (backtest calls p) = 0 \<and> br_calls_blocked (backtest calls p) = 0)"
proof -
  obtain a b s where f: "fold (\<lambda>n. replay_run p (calls_of calls n)) (run_names calls) (0, 0, 0) = (a, b, s)"
    by (metis prod_cases3)
  have spent: "wrap_sum (map bc_cost calls) = sum_list (map bc_cost calls)"
    using assms by (intro wrap_sum_exact) auto
  obtain kept where kept: "s + kept = sum_list (map bc_cost calls)" "0 \<le> kept" "0 \<le> s"
    "b \<le> length calls" "a \<le> length (run_names calls)"
    "\<forall>b. bp_budget_per_run p = Some b \<longrightarrow> 0 \<le> b \<longrightarrow> kept \<le> int (length (run_names calls)) * b"
    "backtest_policy_is_empty p \<longrightarrow> s = 0 \<and> b = 0"
    using replay_runs_inv [OF assms(1) order_refl _ f] assms(2) by (auto simp: sum_by_run length_by_run)
  have eq: "backtest calls p = \<lparr>br_runs_total = length (run_names calls), br_runs_affected = a,
      br_calls_total = length calls, br_calls_blocked = b, br_spent = sum_list (map bc_cost calls), br_saved = s\<rparr>"
    by (simp add: backtest_def Let_def f spent)
  have "in_i64 kept" using kept(1-3) assms(2) by (simp add: in_i64_def I64_MIN_def)
  then have "projected_microusd (backtest calls p) = kept"
    using kept(1) by (simp add: eq projected_microusd_def sat_simps flip: kept(1))
  then show ?thesis using kept by (simp add: eq)
qed

definition bt_sample :: "bt_call list" where
  "bt_sample =
     [\<lparr>bc_run = ''r'', bc_step = 2, bc_cost = 10\<rparr>, \<lparr>bc_run = ''q'', bc_step = 1, bc_cost = 7\<rparr>,
      \<lparr>bc_run = ''r'', bc_step = 1, bc_cost = 10\<rparr>, \<lparr>bc_run = ''r'', bc_step = 3, bc_cost = 10\<rparr>]"

definition bt_policy :: backtest_policy where
  "bt_policy = \<lparr>bp_budget_per_run = Some 20, bp_budget_per_step = None, bp_max_steps = None\<rparr>"

lemma bt_sample_names: "run_names bt_sample = [''q'', ''r'']"
  by (simp add: run_names_def bt_sample_def)

lemma bt_sample_run: "br_saved (backtest bt_sample bt_policy) = 10"
  by (simp add: backtest_def bt_sample_names Let_def)
    (simp add: bt_sample_def bt_policy_def replay_run_def Let_def replay_call_def block_call_def
      wrap_i64_def wrap_succ_u32_def)

theorem backtest_accounts_witness:
  "br_spent (backtest bt_sample bt_policy) = 37 \<and> projected_microusd (backtest bt_sample bt_policy) = 27"
  using backtest_accounts [of bt_sample bt_policy] bt_sample_run
  by (simp add: bt_sample_def I64_MAX_def)

end
