(* ===== verification/Reports.thy ===== *)
theory Reports
  imports Policy "HOL-Library.Multiset" "HOL-Library.List_Lexorder" "HOL-Library.Char_ord"
    "HOL-Library.Product_Lexorder" "HOL-Library.Option_ord"
begin

text \<open>
  The read side of the trace: \<open>crates/core/src/savings.rs\<close> (what budget protection saved) and
  \<open>crates/core/src/outcomes.rs\<close> (what one outcome tag costs). Both are folds over the recorded
  rows; sums are \<open>i64\<close> additions that wrap in a release build. A \<open>BTreeSet\<close> of which only the
  size is read is a duplicate-free list.
\<close>

section \<open>Wrapping sums\<close>

lemma wrap_i64_mod: "wrap_i64 x mod 2 ^ 64 = x mod 2 ^ 64"
proof -
  have "(x + 2 ^ 63) mod 2 ^ 64 - 2 ^ 63 = x - 2 ^ 64 * ((x + 2 ^ 63) div 2 ^ 64)"
    by (simp only: minus_mult_div_eq_mod [symmetric])
  then have "wrap_i64 x = x + 2 ^ 64 * (- ((x + 2 ^ 63) div 2 ^ 64))" by (simp add: wrap_i64_def)
  then show ?thesis by (simp only: mod_mult_self2)
qed

lemma wrap_i64_cong: "x mod 2 ^ 64 = y mod 2 ^ 64 \<Longrightarrow> wrap_i64 x = wrap_i64 y"
  unfolding wrap_i64_def by (metis mod_add_left_eq)

lemma wrap_wrap_add [simp]: "wrap_i64 (wrap_i64 x + y) = wrap_i64 (x + y)"
  by (rule wrap_i64_cong) (metis mod_add_left_eq wrap_i64_mod)

lemma wrap_add_wrap [simp]: "wrap_i64 (x + wrap_i64 y) = wrap_i64 (x + y)"
  by (metis add.commute wrap_wrap_add)

lemma wrap_i64_zero [simp]: "wrap_i64 0 = 0"
  by (simp add: wrap_i64_def)

lemma wrap_sum_list: "wrap_i64 (sum_list (map (\<lambda>x. wrap_i64 (f x)) xs)) = wrap_i64 (sum_list (map f xs))"
proof (induction xs)
  case (Cons x xs)
  have "wrap_i64 (f x + sum_list (map (\<lambda>x. wrap_i64 (f x)) xs)) = wrap_i64 (f x + sum_list (map f xs))"
    using Cons by (metis wrap_add_wrap)
  then show ?case by simp
qed simp

section \<open>Savings\<close>

record savings_call =
  sc_run :: string
  sc_decision :: string
  sc_cost :: int
  sc_saved :: int

definition BUDGET_PROTECTION_REASONS :: "string list" where
  "BUDGET_PROTECTION_REASONS =
     [''budget_exceeded'', ''loop_detected'', ''policy_violation'', ''wasm_policy'', ''killed'']"

definition is_budget_protection :: "string \<Rightarrow> bool" where
  "is_budget_protection d \<longleftrightarrow> d \<in> set BUDGET_PROTECTION_REASONS"

record savings_report =
  sr_blocked_spend :: int
  sr_breaks_prevented :: nat
  sr_blocked_calls :: nat
  sr_by_reason :: "(string \<times> int) list"
  sr_cache_saved :: int
  sr_router_saved :: int

text \<open>The accumulators of the loop, then one row of it.\<close>

record savings_acc =
  sa_blocked_spend :: int
  sa_blocked_calls :: nat
  sa_breaks :: "string list"
  sa_by_reason :: "(string \<times> int) list"
  sa_cache :: int
  sa_router :: int

definition savings_step :: "savings_call \<Rightarrow> savings_acc \<Rightarrow> savings_acc" where
  "savings_step c a =
     (let a = (if sc_decision c = ''cache_hit'' then a\<lparr>sa_cache := wrap_i64 (sa_cache a + sc_saved c)\<rparr>
               else if sc_decision c = ''allow'' then a\<lparr>sa_router := wrap_i64 (sa_router a + sc_saved c)\<rparr>
               else a)
      in if is_budget_protection (sc_decision c)
         then a\<lparr>sa_blocked_spend := wrap_i64 (sa_blocked_spend a + sc_cost c),
                sa_blocked_calls := Suc (sa_blocked_calls a),
                sa_breaks := List.insert (sc_run c) (sa_breaks a),
                sa_by_reason := bt_insert (sc_decision c)
                  (wrap_i64 ((case map_of (sa_by_reason a) (sc_decision c) of None \<Rightarrow> 0 | Some v \<Rightarrow> v) + sc_cost c))
                  (sa_by_reason a)\<rparr>
         else a)"

definition savings_start :: savings_acc where
  "savings_start = \<lparr>sa_blocked_spend = 0, sa_blocked_calls = 0, sa_breaks = [], sa_by_reason = [],
     sa_cache = 0, sa_router = 0\<rparr>"

definition compute_savings :: "savings_call list \<Rightarrow> savings_report" where
  "compute_savings calls =
     (let a = fold savings_step calls savings_start
      in \<lparr>sr_blocked_spend = sa_blocked_spend a, sr_breaks_prevented = length (sa_breaks a),
          sr_blocked_calls = sa_blocked_calls a, sr_by_reason = sa_by_reason a,
          sr_cache_saved = sa_cache a, sr_router_saved = sa_router a\<rparr>)"

abbreviation protected_calls :: "savings_call list \<Rightarrow> savings_call list" where
  "protected_calls calls \<equiv> filter (\<lambda>c. is_budget_protection (sc_decision c)) calls"

abbreviation calls_with :: "string \<Rightarrow> savings_call list \<Rightarrow> savings_call list" where
  "calls_with d calls \<equiv> filter (\<lambda>c. sc_decision c = d) calls"

lemma not_protection: "\<not> is_budget_protection ''cache_hit''" "\<not> is_budget_protection ''allow''"
  by (simp_all add: is_budget_protection_def BUDGET_PROTECTION_REASONS_def)

lemma member_protected:
  "x \<in> set calls \<Longrightarrow> is_budget_protection (sc_decision x) \<Longrightarrow>
     sc_decision x \<in> sc_decision ` set (protected_calls calls)"
  by simp

lemma savings_fold:
  fixes calls
  defines "a \<equiv> fold savings_step calls savings_start"
  shows "sa_blocked_spend a = wrap_i64 (sum_list (map sc_cost (protected_calls calls)))
     \<and> sa_blocked_calls a = length (protected_calls calls)
     \<and> distinct (sa_breaks a) \<and> set (sa_breaks a) = sc_run ` set (protected_calls calls)
     \<and> bt_ok (sa_by_reason a)
     \<and> fst ` set (sa_by_reason a) = sc_decision ` set (protected_calls calls)
     \<and> (\<forall>d. map_of (sa_by_reason a) d =
          (if d \<in> sc_decision ` set (protected_calls calls)
           then Some (wrap_i64 (sum_list (map sc_cost (calls_with d calls)))) else None))
     \<and> sa_cache a = wrap_i64 (sum_list (map sc_saved (calls_with ''cache_hit'' calls)))
     \<and> sa_router a = wrap_i64 (sum_list (map sc_saved (calls_with ''allow'' calls)))"
  unfolding a_def
proof (induction calls rule: rev_induct)
  case Nil
  then show ?case by (simp add: savings_start_def)
next
  case (snoc c calls)
  define a where "a = fold savings_step calls savings_start"
  note ih = snoc.IH [folded a_def]
  have fresh: "sc_decision c \<notin> sc_decision ` set (protected_calls calls) \<Longrightarrow>
      is_budget_protection (sc_decision c) \<Longrightarrow> calls_with (sc_decision c) calls = []"
    using member_protected [of _ calls] by (metis (mono_tags, lifting) filter_False)
  have step: "fold savings_step (calls @ [c]) savings_start = savings_step c a" by (simp add: a_def)
  show ?case
  proof (cases "is_budget_protection (sc_decision c)")
    case True
    then have "sc_decision c \<noteq> ''cache_hit''" "sc_decision c \<noteq> ''allow''" using not_protection by auto
    with True ih fresh show ?thesis unfolding step by (auto simp: savings_step_def)
  next
    case False
    with ih show ?thesis unfolding step by (auto simp: savings_step_def)
  qed
qed

text \<open>The totals by reason add up to the blocked spend.\<close>

lemma by_reason_total:
  assumes "bt_ok xs" and "fst ` set xs = sc_decision ` set (protected_calls calls)"
    and "\<And>d. map_of xs d = (if d \<in> sc_decision ` set (protected_calls calls)
           then Some (wrap_i64 (sum_list (map sc_cost (calls_with d calls)))) else None)"
  shows "wrap_i64 (sum_list (map snd xs)) = wrap_i64 (sum_list (map sc_cost (protected_calls calls)))"
proof -
  let ?ps = "protected_calls calls"
  have dist: "distinct (map fst xs)" using assms(1) by (simp add: bt_ok_def strict_sorted_iff)
  have at_reason: "snd x = wrap_i64 (sum_list (map sc_cost (calls_with (fst x) ?ps)))" if "x \<in> set xs" for x
  proof -
    have "map_of xs (fst x) = Some (snd x)" using that dist by simp
    moreover have d: "fst x \<in> sc_decision ` set ?ps" using that assms(2) by blast
    moreover have "calls_with (fst x) ?ps = calls_with (fst x) calls" using d by (auto intro: filter_cong)
    ultimately show ?thesis using assms(3) [of "fst x"] by simp
  qed
  have "map snd xs = map (\<lambda>d. wrap_i64 (sum_list (map sc_cost (calls_with d ?ps)))) (map fst xs)"
    using at_reason by simp
  moreover have "sum_list (map (\<lambda>d. sum_list (map sc_cost (calls_with d ?ps))) (map fst xs))
      = sum_list (map sc_cost ?ps)"
    using dist assms(2) by (intro sum_by_group) auto
  ultimately show ?thesis by (simp only: wrap_sum_list)
qed

text \<open>The savings report is exact on every trace, modulo the wrap-around of \<open>i64\<close>: the blocked
  spend is the total over the budget-protection rows and no other row, the breaks are the distinct
  runs among them, each reason carries exactly its rows' total and the reasons add up to the
  blocked spend, and cache and router savings are read off their own rows.\<close>

lemma savings_exact:
  "sr_blocked_spend (compute_savings calls) = wrap_i64 (sum_list (map sc_cost (protected_calls calls)))
   \<and> sr_blocked_calls (compute_savings calls) = length (protected_calls calls)
   \<and> sr_breaks_prevented (compute_savings calls) = card (sc_run ` set (protected_calls calls))
   \<and> map_of (sr_by_reason (compute_savings calls)) d =
       (if is_budget_protection d \<and> calls_with d calls \<noteq> []
        then Some (wrap_i64 (sum_list (map sc_cost (calls_with d calls)))) else None)
   \<and> wrap_i64 (sum_list (map snd (sr_by_reason (compute_savings calls))))
       = sr_blocked_spend (compute_savings calls)
   \<and> sr_cache_saved (compute_savings calls) = wrap_i64 (sum_list (map sc_saved (calls_with ''cache_hit'' calls)))
   \<and> sr_router_saved (compute_savings calls) = wrap_i64 (sum_list (map sc_saved (calls_with ''allow'' calls)))"
proof -
  let ?a = "fold savings_step calls savings_start"
  note inv = savings_fold [of calls]
  have "d \<in> sc_decision ` set (protected_calls calls) \<longleftrightarrow> is_budget_protection d \<and> calls_with d calls \<noteq> []"
    by (auto simp: filter_empty_conv)
  moreover have "wrap_i64 (sum_list (map snd (sa_by_reason ?a)))
      = wrap_i64 (sum_list (map sc_cost (protected_calls calls)))"
    using inv by (intro by_reason_total) blast+
  moreover have "length (sa_breaks ?a) = card (sc_run ` set (protected_calls calls))"
    using inv by (metis distinct_card)
  ultimately show ?thesis using inv by (simp add: compute_savings_def Let_def)
qed

section \<open>Outcomes\<close>

record outcome_call =
  oc_run :: string
  oc_decision :: string
  oc_cost :: int
  oc_outcome :: string
  oc_step :: nat

definition BLOCKED_DECISIONS :: "breaker_reason list" where
  "BLOCKED_DECISIONS =
     [Budget_exceeded, Policy_violation, Loop_detected, Killed, Wasm_policy, Taint_blocked,
      Dlp_blocked, Unit_budget_exceeded, Identity_mismatch]"

definition is_blocked_decision :: "string \<Rightarrow> bool" where
  "is_blocked_decision d = list_ex (\<lambda>r. as_wire_str r = d) BLOCKED_DECISIONS"

record outcome_row =
  or_outcome :: "string option"
  or_runs :: nat
  or_total_cost :: int
  or_calls :: nat
  or_blocked_calls :: nat

definition mean_cost_microusd :: "outcome_row \<Rightarrow> int" where
  "mean_cost_microusd r = (if or_runs r = 0 then 0 else tdiv (or_total_cost r) (int (or_runs r)))"

text \<open>Pass 1: the last non-empty tag of each run, in step order.\<close>

definition winners :: "outcome_call list \<Rightarrow> string \<rightharpoonup> string" where
  "winners calls =
     fold (\<lambda>c w. if oc_outcome c \<noteq> [] then w(oc_run c \<mapsto> oc_outcome c) else w)
       (sort_key (\<lambda>c. (oc_run c, oc_step c)) calls) Map.empty"

text \<open>Pass 2: one accumulator per tag.\<close>

record outcome_acc =
  oa_runs :: "string list"
  oa_cost :: int
  oa_calls :: nat
  oa_blocked :: nat

definition outcome_add :: "outcome_call \<Rightarrow> outcome_acc \<Rightarrow> outcome_acc" where
  "outcome_add c acc =
     (let acc = acc\<lparr>oa_runs := List.insert (oc_run c) (oa_runs acc), oa_calls := Suc (oa_calls acc)\<rparr>
      in if is_blocked_decision (oc_decision c) then acc\<lparr>oa_blocked := Suc (oa_blocked acc)\<rparr>
         else acc\<lparr>oa_cost := wrap_i64 (oa_cost acc + oc_cost c)\<rparr>)"

definition outcome_step ::
  "(string \<rightharpoonup> string) \<Rightarrow> outcome_call \<Rightarrow> (string option \<times> outcome_acc) list \<Rightarrow>
     (string option \<times> outcome_acc) list" where
  "outcome_step winner c buckets =
     (let tag = winner (oc_run c);
          acc = (case map_of buckets tag of Some a \<Rightarrow> a
                 | None \<Rightarrow> \<lparr>oa_runs = [], oa_cost = 0, oa_calls = 0, oa_blocked = 0\<rparr>)
      in bt_insert tag (outcome_add c acc) buckets)"

text \<open>The final comparison puts the untagged row last.\<close>

definition compute_outcomes :: "outcome_call list \<Rightarrow> outcome_row list" where
  "compute_outcomes calls =
     sort_key (\<lambda>r. (or_outcome r = None, or_outcome r))
       (map (\<lambda>(tag, a). \<lparr>or_outcome = tag, or_runs = length (oa_runs a), or_total_cost = oa_cost a,
                          or_calls = oa_calls a, or_blocked_calls = oa_blocked a\<rparr>)
         (fold (outcome_step (winners calls)) calls []))"

subsection \<open>The winning tag\<close>

abbreviation of_run :: "string \<Rightarrow> outcome_call list \<Rightarrow> outcome_call list" where
  "of_run n calls \<equiv> filter (\<lambda>c. oc_run c = n) calls"

definition last_tag :: "outcome_call list \<Rightarrow> string \<Rightarrow> string option" where
  "last_tag calls n =
     (let tags = filter (\<lambda>t. t \<noteq> []) (map oc_outcome (sort_key oc_step (of_run n calls)))
      in if tags = [] then None else Some (last tags))"

lemma sort_by_run_then_step:
  "of_run n (sort_key (\<lambda>c. (oc_run c, oc_step c)) calls) = sort_key oc_step (of_run n calls)"
proof (rule properties_for_sort_key [symmetric])
  let ?s = "sort_key (\<lambda>c. (oc_run c, oc_step c)) calls"
  show "mset (of_run n ?s) = mset (of_run n calls)" by (simp add: mset_filter)
  show "filter (\<lambda>x. oc_step k = oc_step x) (of_run n ?s) = filter (\<lambda>x. oc_step k = oc_step x) (of_run n calls)"
    if "k \<in> set (of_run n ?s)" for k
  proof -
    have "filter (\<lambda>x. oc_step k = oc_step x) (of_run n xs)
        = filter (\<lambda>x. (oc_run x, oc_step x) = (n, oc_step k)) xs" for xs
      by (auto intro: filter_cong)
    then show ?thesis by (simp only: sort_key_stable)
  qed
  have "sorted (map (\<lambda>c. (oc_run c, oc_step c)) (of_run n ?s))"
    by (rule sorted_filter) simp
  then show "sorted (map oc_step (of_run n ?s))"
    unfolding sorted_wrt_map by (rule sorted_wrt_mono_rel [rotated]) auto
qed

lemma winners_fold:
  "fold (\<lambda>c w. if oc_outcome c \<noteq> [] then w(oc_run c \<mapsto> oc_outcome c) else w) xs m n
     = (let tags = filter (\<lambda>t. t \<noteq> []) (map oc_outcome (of_run n xs))
        in if tags = [] then m n else Some (last tags))"
  by (induction xs rule: rev_induct) (auto simp: Let_def)

lemma winners_last_tag: "winners calls = last_tag calls"
  by (rule ext) (simp add: winners_def winners_fold last_tag_def sort_by_run_then_step)

subsection \<open>The buckets\<close>

abbreviation tagged :: "(string \<rightharpoonup> string) \<Rightarrow> string option \<Rightarrow> outcome_call list \<Rightarrow> outcome_call list" where
  "tagged w t calls \<equiv> filter (\<lambda>c. w (oc_run c) = t) calls"

abbreviation settled_calls :: "outcome_call list \<Rightarrow> outcome_call list" where
  "settled_calls calls \<equiv> filter (\<lambda>c. \<not> is_blocked_decision (oc_decision c)) calls"

abbreviation blocked_rows :: "outcome_call list \<Rightarrow> outcome_call list" where
  "blocked_rows calls \<equiv> filter (\<lambda>c. is_blocked_decision (oc_decision c)) calls"

definition acc_ok :: "outcome_call list \<Rightarrow> outcome_acc \<Rightarrow> bool" where
  "acc_ok calls a \<longleftrightarrow>
     distinct (oa_runs a) \<and> set (oa_runs a) = oc_run ` set calls
     \<and> oa_cost a = wrap_i64 (sum_list (map oc_cost (settled_calls calls)))
     \<and> oa_calls a = length calls \<and> oa_blocked a = length (blocked_rows calls)"

lemma acc_ok_start: "acc_ok [] \<lparr>oa_runs = [], oa_cost = 0, oa_calls = 0, oa_blocked = 0\<rparr>"
  by (simp add: acc_ok_def)

lemma acc_ok_add: "acc_ok calls a \<Longrightarrow> acc_ok (calls @ [c]) (outcome_add c a)"
  by (auto simp: acc_ok_def outcome_add_def Let_def)

lemma buckets_ok:
  "bt_ok (fold (outcome_step w) calls []) \<and>
   fst ` set (fold (outcome_step w) calls []) = (\<lambda>c. w (oc_run c)) ` set calls \<and>
   (\<forall>t a. map_of (fold (outcome_step w) calls []) t = Some a \<longrightarrow> acc_ok (tagged w t calls) a)"
proof (induction calls rule: rev_induct)
  case (snoc c calls)
  define b where "b = fold (outcome_step w) calls []"
  note ih = snoc.IH [folded b_def]
  let ?tag = "w (oc_run c)"
  define a where "a = (case map_of b ?tag of Some a \<Rightarrow> a
    | None \<Rightarrow> \<lparr>oa_runs = [], oa_cost = 0, oa_calls = 0, oa_blocked = 0\<rparr>)"
  have "acc_ok (tagged w ?tag calls) a"
  proof (cases "map_of b ?tag")
    case None
    then have "?tag \<notin> (\<lambda>c. w (oc_run c)) ` set calls" using ih by (metis map_of_eq_None_iff)
    then have "tagged w ?tag calls = []" by (intro filter_False) (metis image_eqI)
    then show ?thesis using None acc_ok_start by (simp add: a_def)
  next
    case (Some a')
    with ih show ?thesis by (simp add: a_def)
  qed
  then have grown: "acc_ok (tagged w ?tag (calls @ [c])) (outcome_add c a)" by (simp add: acc_ok_add)
  have step: "fold (outcome_step w) (calls @ [c]) [] = bt_insert ?tag (outcome_add c a) b"
    by (simp add: b_def outcome_step_def Let_def a_def)
  have "tagged w t (calls @ [c]) = tagged w t calls" if "t \<noteq> ?tag" for t using that by simp
  with ih grown show ?case unfolding step by auto
qed simp

text \<open>A row as it should read, and the rows that should appear.\<close>

definition outcome_spec :: "outcome_call list \<Rightarrow> string option \<Rightarrow> outcome_row" where
  "outcome_spec calls t =
     (let cs = tagged (last_tag calls) t calls
      in \<lparr>or_outcome = t, or_runs = card (oc_run ` set cs),
          or_total_cost = wrap_i64 (sum_list (map oc_cost (settled_calls cs))),
          or_calls = length cs, or_blocked_calls = length (blocked_rows cs)\<rparr>)"

lemma outcome_rows:
  "\<exists>tags. sorted_wrt (<) tags \<and> set tags = (\<lambda>c. last_tag calls (oc_run c)) ` set calls
     \<and> compute_outcomes calls = sort_key (\<lambda>r. (or_outcome r = None, or_outcome r)) (map (outcome_spec calls) tags)"
proof -
  define b where "b = fold (outcome_step (last_tag calls)) calls []"
  note ok = buckets_ok [of "last_tag calls" calls, folded b_def]
  have dist: "distinct (map fst b)" using ok by (simp add: bt_ok_def strict_sorted_iff)
  have "(\<lambda>(tag, a). \<lparr>or_outcome = tag, or_runs = length (oa_runs a), or_total_cost = oa_cost a,
           or_calls = oa_calls a, or_blocked_calls = oa_blocked a\<rparr>) x = outcome_spec calls (fst x)"
    if "x \<in> set b" for x
  proof -
    have "map_of b (fst x) = Some (snd x)" using that dist by simp
    then have "acc_ok (tagged (last_tag calls) (fst x) calls) (snd x)" using ok by blast
    then show ?thesis
      by (simp add: acc_ok_def outcome_spec_def Let_def split_beta flip: distinct_card)
  qed
  then have "compute_outcomes calls
      = sort_key (\<lambda>r. (or_outcome r = None, or_outcome r)) (map (outcome_spec calls) (map fst b))"
    unfolding compute_outcomes_def winners_last_tag b_def [symmetric] map_map o_def
    by (intro arg_cong [where f = "sort_key _"] map_cong) auto
  then show ?thesis using ok by (intro exI [of _ "map fst b"]) (auto simp: bt_ok_def)
qed

lemma runs_of_tag:
  "card (oc_run ` set (tagged w t calls)) = length (filter (\<lambda>n. w n = t) (remdups (map oc_run calls)))"
proof -
  have "oc_run ` set (tagged w t calls) = set (filter (\<lambda>n. w n = t) (remdups (map oc_run calls)))" by auto
  then show ?thesis by (metis distinct_card distinct_filter distinct_remdups)
qed

lemma outcome_totals:
  assumes "distinct tags" and "set tags = (\<lambda>c. last_tag calls (oc_run c)) ` set calls"
  defines "rows \<equiv> map (outcome_spec calls) tags"
  shows "sum_list (map or_calls rows) = length calls"
    and "sum_list (map or_runs rows) = card (oc_run ` set calls)"
    and "sum_list (map or_blocked_calls rows) = length (blocked_rows calls)"
    and "wrap_i64 (sum_list (map or_total_cost rows)) = wrap_i64 (sum_list (map oc_cost (settled_calls calls)))"
proof -
  let ?w = "last_tag calls"
  have cover: "(\<lambda>c. ?w (oc_run c)) ` set xs \<subseteq> set tags" if "set xs \<subseteq> set calls" for xs using that assms(2) by auto
  note group = sum_by_group [OF assms(1) cover]
  have count: "sum_list (map (\<lambda>t. length (tagged ?w t xs)) tags) = length xs" if "set xs \<subseteq> set calls" for xs
    using group [of xs "\<lambda>_. 1 :: nat"] that by (simp add: sum_list_triv)
  show "sum_list (map or_calls rows) = length calls"
    using count [of calls] by (simp add: rows_def o_def outcome_spec_def Let_def)
  show "sum_list (map or_blocked_calls rows) = length (blocked_rows calls)"
    using count [OF filter_is_subset, of "\<lambda>c. is_blocked_decision (oc_decision c)"]
    by (simp add: rows_def o_def outcome_spec_def Let_def conj_commute)
  have runs: "?w ` set (remdups (map oc_run calls)) \<subseteq> set tags" using assms(2) by auto
  have "sum_list (map or_runs rows) = length (remdups (map oc_run calls))"
    using sum_by_group [OF assms(1) runs, of "\<lambda>_. 1 :: nat"]
    by (simp add: rows_def o_def outcome_spec_def Let_def runs_of_tag [unfolded set_filter] sum_list_triv)
  then show "sum_list (map or_runs rows) = card (oc_run ` set calls)" by (simp add: length_remdups_card_conv)
  have "sum_list (map (\<lambda>t. sum_list (map oc_cost (settled_calls (tagged ?w t calls)))) tags)
      = sum_list (map oc_cost (settled_calls calls))"
    using group [OF filter_is_subset, of oc_cost "\<lambda>c. \<not> is_blocked_decision (oc_decision c)"] by (simp add: conj_commute)
  then show "wrap_i64 (sum_list (map or_total_cost rows)) = wrap_i64 (sum_list (map oc_cost (settled_calls calls)))"
    by (simp add: rows_def o_def outcome_spec_def Let_def wrap_sum_list)
qed

text \<open>The outcome report partitions the trace: its rows are exactly the ones the specification
  asks for, one for each winning tag, where a run's tag is the last non-empty one in step order;
  they are ordered by tag with the untagged row last; and calls, blocked calls, distinct runs and
  (modulo \<open>i64\<close>) the cost of the calls that were not blocked add up to those of the whole trace,
  so no call and no run is lost or counted twice.\<close>

lemma outcomes_partition:
  "set (compute_outcomes calls) = (\<lambda>c. outcome_spec calls (last_tag calls (oc_run c))) ` set calls
   \<and> distinct (map or_outcome (compute_outcomes calls))
   \<and> sorted (map (\<lambda>r. (or_outcome r = None, or_outcome r)) (compute_outcomes calls))
   \<and> sum_list (map or_calls (compute_outcomes calls)) = length calls
   \<and> sum_list (map or_runs (compute_outcomes calls)) = card (oc_run ` set calls)
   \<and> sum_list (map or_blocked_calls (compute_outcomes calls)) = length (blocked_rows calls)
   \<and> wrap_i64 (sum_list (map or_total_cost (compute_outcomes calls)))
       = wrap_i64 (sum_list (map oc_cost (settled_calls calls)))"
proof -
  obtain tags where tags: "sorted_wrt (<) tags" "set tags = (\<lambda>c. last_tag calls (oc_run c)) ` set calls"
    "compute_outcomes calls = sort_key (\<lambda>r. (or_outcome r = None, or_outcome r)) (map (outcome_spec calls) tags)"
    using outcome_rows by blast
  have dist: "distinct tags" using tags(1) by (simp add: strict_sorted_iff)
  note sums = outcome_totals [OF dist tags(2)]
  have same: "mset (map f (compute_outcomes calls)) = mset (map f (map (outcome_spec calls) tags))" for f :: "_ \<Rightarrow> 'x"
    unfolding tags(3) by (simp only: mset_map mset_sort)
  have sum_same: "sum_list (map f (compute_outcomes calls)) = sum_list (map f (map (outcome_spec calls) tags))"
    for f :: "_ \<Rightarrow> 'x :: comm_monoid_add"
    using same [of f] by (metis sum_mset_sum_list)
  have "map or_outcome (map (outcome_spec calls) tags) = tags"
    by (simp add: o_def outcome_spec_def Let_def)
  then have "distinct (map or_outcome (compute_outcomes calls))"
    using same [of or_outcome] dist by (metis mset_eq_imp_distinct_iff)
  moreover have "set (compute_outcomes calls) = (\<lambda>c. outcome_spec calls (last_tag calls (oc_run c))) ` set calls"
    unfolding tags(3) using tags(2) by (simp add: image_image)
  moreover have "sorted (map (\<lambda>r. (or_outcome r = None, or_outcome r)) (compute_outcomes calls))"
    unfolding tags(3) by simp
  ultimately show ?thesis unfolding sum_same using sums by blast
qed

text \<open>
  The two reports read the same decision column differently: a unit-budget refusal is a block to
  the outcome report, and its avoided estimate is missing from the savings report.
\<close>

lemma savings_omit_unit_budget:
  "is_blocked_decision (as_wire_str Unit_budget_exceeded)
   \<and> compute_savings [\<lparr>sc_run = r, sc_decision = as_wire_str Unit_budget_exceeded, sc_cost = k, sc_saved = 0\<rparr>]
     = compute_savings []"
  by (simp add: is_blocked_decision_def BLOCKED_DECISIONS_def compute_savings_def savings_step_def
      is_budget_protection_def BUDGET_PROTECTION_REASONS_def Let_def)

end
