(* ===== verification/Audit_Trail.thy ===== *)
theory Audit_Trail
  imports Text
begin

text \<open>
  \<open>crates/core/src/audit.rs\<close>: the hash-chained audit trail. Strings are UTF-8 bytes. SHA-256 comes
  from a crate: \<open>sha\<close>, from the bytes hashed to the digest's bytes, is an argument of every
  definition that uses it. Storing the chain and signing the manifest are done elsewhere.
\<close>

definition SEP :: char where
  "SEP = CHR 0x1F"

record audit_entry =
  ae_seq :: nat
  ae_ts_millis :: int
  ae_actor :: string
  ae_action :: string
  ae_subject :: string
  ae_detail :: string
  ae_prev_hash :: string
  ae_entry_hash :: string

definition control_byte :: "char \<Rightarrow> bool" where
  "control_byte c \<longleftrightarrow> (of_char c :: nat) < 32"

text \<open>U+FFFD is the three bytes \<open>EF BF BD\<close>.\<close>

definition sanitize_field :: "string \<Rightarrow> string" where
  "sanitize_field s =
     (if list_ex control_byte s
      then concat (map (\<lambda>c. if control_byte c then [CHR 0xEF, CHR 0xBF, CHR 0xBD] else [c]) s)
      else s)"

definition hex_digit :: "nat \<Rightarrow> char" where
  "hex_digit n = char_of (if n < 10 then 48 + n else 87 + n)"

definition hex_lower :: "nat list \<Rightarrow> string" where
  "hex_lower bytes = concat (map (\<lambda>b. [hex_digit (b div 16), hex_digit (b mod 16)]) bytes)"

definition show_int :: "int \<Rightarrow> string" where
  "show_int x = (if x < 0 then CHR ''-'' # show_nat (nat (- x)) else show_nat (nat x))"

fun join_sep :: "string list \<Rightarrow> string" where
  "join_sep [] = []"
| "join_sep [f] = f"
| "join_sep (f # fs) = f @ SEP # join_sep fs"

definition pre_image :: "nat \<Rightarrow> int \<Rightarrow> string \<Rightarrow> string \<Rightarrow> string \<Rightarrow> string \<Rightarrow> string \<Rightarrow> string" where
  "pre_image sq ts actor action subject detail prev_hash =
     join_sep [show_nat sq, show_int ts, actor, action, subject, detail, prev_hash]"

definition compute_hash ::
  "(string \<Rightarrow> nat list) \<Rightarrow> nat \<Rightarrow> int \<Rightarrow> string \<Rightarrow> string \<Rightarrow> string \<Rightarrow> string \<Rightarrow> string \<Rightarrow> string" where
  "compute_hash sha sq ts actor action subject detail prev_hash =
     hex_lower (sha (pre_image sq ts actor action subject detail prev_hash))"

text \<open>\<open>append\<close>: sanitise, then hash what is stored.\<close>

definition audit_append ::
  "(string \<Rightarrow> nat list) \<Rightarrow> audit_entry option \<Rightarrow> int \<Rightarrow> string \<Rightarrow> string \<Rightarrow> string \<Rightarrow> string \<Rightarrow> audit_entry" where
  "audit_append sha prev ts actor action subject detail =
     (let sq = (case prev of None \<Rightarrow> 0 | Some p \<Rightarrow> wrap_succ_u64 (ae_seq p));
          prev_hash = (case prev of None \<Rightarrow> [] | Some p \<Rightarrow> ae_entry_hash p);
          actor = sanitize_field actor;
          action = sanitize_field action;
          subject = sanitize_field subject;
          detail = sanitize_field detail
      in \<lparr>ae_seq = sq, ae_ts_millis = ts, ae_actor = actor, ae_action = action, ae_subject = subject,
          ae_detail = detail, ae_prev_hash = prev_hash,
          ae_entry_hash = compute_hash sha sq ts actor action subject detail prev_hash\<rparr>)"

definition manifest_signing_bytes :: "string \<Rightarrow> nat \<Rightarrow> string \<Rightarrow> nat \<Rightarrow> int \<Rightarrow> string" where
  "manifest_signing_bytes org tip_seq tip_hash entry_count signed_at =
     join_sep [org, show_nat tip_seq, tip_hash, show_nat entry_count, show_int signed_at]"

text \<open>The body of the verifying loop for one entry, then the loop with its index.\<close>

definition entry_ok :: "(string \<Rightarrow> nat list) \<Rightarrow> audit_entry option \<Rightarrow> audit_entry \<Rightarrow> bool" where
  "entry_ok sha prev e \<longleftrightarrow>
     ae_seq e = (case prev of None \<Rightarrow> 0 | Some p \<Rightarrow> wrap_succ_u64 (ae_seq p))
     \<and> ae_prev_hash e = (case prev of None \<Rightarrow> [] | Some p \<Rightarrow> ae_entry_hash p)
     \<and> compute_hash sha (ae_seq e) (ae_ts_millis e) (ae_actor e) (ae_action e) (ae_subject e) (ae_detail e)
         (ae_prev_hash e) = ae_entry_hash e"

fun verify_from ::
  "(string \<Rightarrow> nat list) \<Rightarrow> audit_entry option \<Rightarrow> nat \<Rightarrow> audit_entry list \<Rightarrow> (unit, nat) res" where
  "verify_from sha prev i [] = Inr ()"
| "verify_from sha prev i (e # es) =
     (if entry_ok sha prev e then verify_from sha (Some e) (Suc i) es else Inl i)"

definition verify_chain :: "(string \<Rightarrow> nat list) \<Rightarrow> audit_entry list \<Rightarrow> (unit, nat) res" where
  "verify_chain sha es = verify_from sha None 0 es"

section \<open>Printed numbers\<close>

lemma show_nat_digits: "c \<in> set (show_nat n) \<Longrightarrow> 48 \<le> (of_char c :: nat) \<and> (of_char c :: nat) \<le> 57"
proof (induction n rule: show_nat.induct)
  case (1 n)
  have "n mod 10 < 10" by simp
  with 1 show ?case by (cases "n < 10") (auto simp: show_nat.simps [of n] of_char_of)
qed

lemma read_show_nat: "read_digits (show_nat n) = n"
proof (induction n rule: show_nat.induct)
  case (1 n)
  have "n mod 10 < 10" by simp
  with 1 show ?case by (cases "n < 10") (auto simp: show_nat.simps [of n] read_digits_def of_char_of)
qed

lemma show_nat_inject [simp]: "show_nat m = show_nat n \<longleftrightarrow> m = n"
  by (metis read_show_nat)

lemma show_nat_no_minus: "show_nat n \<noteq> CHR ''-'' # cs"
  using show_nat_digits [of "CHR ''-''" n] by auto

lemma show_int_inject [simp]: "show_int x = show_int y \<longleftrightarrow> x = y"
  using show_nat_no_minus by (auto simp: show_int_def dest: sym)

section \<open>Separators\<close>

definition seps :: "string \<Rightarrow> nat" where
  "seps s = length (filter (\<lambda>c. c = SEP) s)"

lemma seps_zero: "seps s = 0 \<longleftrightarrow> SEP \<notin> set s"
  by (auto simp: seps_def filter_empty_conv)

lemma SEP_not_digit: "SEP \<notin> set (show_nat n)" "SEP \<notin> set (show_int x)"
  using show_nat_digits [of SEP] by (auto simp: show_int_def SEP_def)

lemma seps_join: "fs \<noteq> [] \<Longrightarrow> seps (join_sep fs) + 1 = length fs + sum_list (map seps fs)"
  by (induction fs rule: join_sep.induct) (auto simp: seps_def)

lemma split_at_sep: "SEP \<notin> set a \<Longrightarrow> SEP \<notin> set b \<Longrightarrow> a @ SEP # x = b @ SEP # y \<Longrightarrow> a = b \<and> x = y"
  by (auto simp: append_eq_append_conv2 Cons_eq_append_conv append_eq_Cons_conv)

lemma join_sep_inject:
  "\<forall>f \<in> set fs. SEP \<notin> set f \<Longrightarrow> \<forall>g \<in> set gs. SEP \<notin> set g \<Longrightarrow> length fs = length gs \<Longrightarrow>
     join_sep fs = join_sep gs \<Longrightarrow> fs = gs"
proof (induction fs arbitrary: gs rule: join_sep.induct)
  case (3 f f' fs)
  then obtain g g' gs' where gs: "gs = g # g' # gs'" by (auto simp: Suc_length_conv length_Suc_conv)
  have "f = g \<and> join_sep (f' # fs) = join_sep (g' # gs')"
    using 3(2-5) by (intro split_at_sep) (simp_all add: gs)
  moreover from this have "f' # fs = g' # gs'"
    using 3(2-4) by (intro 3(1)) (simp_all add: gs)
  ultimately show ?case by (simp add: gs)
next
  case (2 f)
  then obtain g where "gs = [g]" by (auto simp: Suc_length_conv length_Suc_conv)
  with 2 show ?case by simp
qed simp

text \<open>Fields that hold no separator can only have been joined one way, whoever joined the others.\<close>

lemma join_sep_clean:
  assumes "\<forall>f \<in> set fs. SEP \<notin> set f" and "length fs = length gs" and "fs \<noteq> []" and "join_sep fs = join_sep gs"
  shows "fs = gs"
proof -
  have none: "sum_list (map seps fs) = 0" using assms(1) by (auto simp: seps_zero)
  have "gs \<noteq> []" using assms(2,3) by auto
  then have "sum_list (map seps gs) = sum_list (map seps fs)"
    using seps_join [of fs] seps_join [of gs] assms by simp
  with none have "sum_list (map seps gs) = 0" by (rule trans [rotated])
  then have "\<forall>g \<in> set gs. SEP \<notin> set g" by (simp add: sum_list_eq_0_iff seps_zero)
  with assms show ?thesis by (intro join_sep_inject)
qed

lemma sanitize_no_sep: "SEP \<notin> set (sanitize_field s)"
  by (auto simp: sanitize_field_def SEP_def control_byte_def list_ex_iff)

section \<open>Digests\<close>

lemma of_char_hex: "n < 16 \<Longrightarrow> of_char (hex_digit n) = (if n < 10 then 48 + n else 87 + n)"
  by (simp add: hex_digit_def of_char_of)

lemma hex_digit_inject:
  assumes "m < 16" and "n < 16" and "hex_digit m = hex_digit n"
  shows "m = n"
proof -
  have "(of_char (hex_digit m) :: nat) = of_char (hex_digit n)" using assms(3) by simp
  then show ?thesis unfolding of_char_hex [OF assms(1)] of_char_hex [OF assms(2)]
    by (auto split: if_splits)
qed

lemma hex_digit_no_sep:
  assumes "n < 16"
  shows "hex_digit n \<noteq> SEP"
proof
  assume "hex_digit n = SEP"
  then have "(of_char (hex_digit n) :: nat) = 31" by (simp add: SEP_def)
  then show False unfolding of_char_hex [OF assms] by (auto split: if_splits)
qed

lemma hex_lower_inject:
  "\<forall>b \<in> set xs. b < 256 \<Longrightarrow> \<forall>b \<in> set ys. b < 256 \<Longrightarrow> hex_lower xs = hex_lower ys \<Longrightarrow> xs = ys"
proof (induction xs arbitrary: ys)
  case Nil
  then show ?case by (cases ys) (auto simp: hex_lower_def)
next
  case (Cons x xs)
  then obtain y ys' where ys: "ys = y # ys'" by (cases ys) (auto simp: hex_lower_def)
  have "hex_digit (x div 16) = hex_digit (y div 16)" "hex_digit (x mod 16) = hex_digit (y mod 16)"
    "hex_lower xs = hex_lower ys'"
    using Cons.prems(3) by (simp_all add: ys hex_lower_def)
  moreover have "x div 16 < 16" "y div 16 < 16" using Cons.prems(1,2) by (auto simp: ys)
  ultimately have "x div 16 = y div 16" "x mod 16 = y mod 16" by (simp_all add: hex_digit_inject)
  then have "x = y" by (metis div_mult_mod_eq)
  moreover have "xs = ys'" using Cons.prems(1,2) \<open>hex_lower xs = hex_lower ys'\<close> by (intro Cons.IH) (auto simp: ys)
  ultimately show ?case by (simp add: ys)
qed

lemma hex_lower_no_sep: "\<forall>b \<in> set xs. b < 256 \<Longrightarrow> SEP \<notin> set (hex_lower xs)"
proof (induction xs)
  case (Cons x xs)
  then have "x div 16 < 16" by (simp add: less_mult_imp_div_less)
  then have "SEP \<noteq> hex_digit (x div 16)" "SEP \<noteq> hex_digit (x mod 16)"
    using hex_digit_no_sep [of "x div 16"] hex_digit_no_sep [of "x mod 16"] by auto
  with Cons show ?case by (simp add: hex_lower_def)
qed (simp add: hex_lower_def)

section \<open>The chain\<close>

abbreviation entry_pre :: "audit_entry \<Rightarrow> string" where
  "entry_pre e \<equiv> pre_image (ae_seq e) (ae_ts_millis e) (ae_actor e) (ae_action e) (ae_subject e)
     (ae_detail e) (ae_prev_hash e)"

text \<open>What a digest function returns: bytes, and at least one.\<close>

definition digest_ok :: "(string \<Rightarrow> nat list) \<Rightarrow> bool" where
  "digest_ok sha \<longleftrightarrow> (\<forall>s. sha s \<noteq> [] \<and> (\<forall>b \<in> set (sha s). b < 256))"

definition clean_entry :: "audit_entry \<Rightarrow> bool" where
  "clean_entry e \<longleftrightarrow>
     (\<forall>f \<in> {ae_actor e, ae_action e, ae_subject e, ae_detail e, ae_prev_hash e}. SEP \<notin> set f)"

text \<open>A trail that only ever grew by \<open>append\<close>: one record of the caller's arguments per entry.\<close>

type_synonym audit_action = "int \<times> string \<times> string \<times> string \<times> string"

fun audit_trail :: "(string \<Rightarrow> nat list) \<Rightarrow> audit_entry option \<Rightarrow> audit_action list \<Rightarrow> audit_entry list" where
  "audit_trail sha prev [] = []"
| "audit_trail sha prev ((ts, actor, action, subject, detail) # acts) =
     (let e = audit_append sha prev ts actor action subject detail
      in e # audit_trail sha (Some e) acts)"

lemma append_entry_ok: "entry_ok sha prev (audit_append sha prev ts actor action subject detail)"
  by (simp add: entry_ok_def audit_append_def Let_def)

lemma append_clean:
  "digest_ok sha \<Longrightarrow> (\<forall>p. prev = Some p \<longrightarrow> SEP \<notin> set (ae_entry_hash p)) \<Longrightarrow>
     clean_entry (audit_append sha prev ts actor action subject detail)"
  by (auto simp: clean_entry_def audit_append_def Let_def sanitize_no_sep split: option.splits)

lemma entry_hash_clean:
  "digest_ok sha \<Longrightarrow> entry_ok sha prev e \<Longrightarrow> SEP \<notin> set (ae_entry_hash e)"
  unfolding entry_ok_def digest_ok_def compute_hash_def by (metis hex_lower_no_sep)

lemma verify_trail: "verify_from sha prev i (audit_trail sha prev acts) = Inr ()"
proof (induction acts arbitrary: prev i)
  case (Cons a acts)
  then show ?case by (cases a) (simp add: Let_def append_entry_ok)
qed simp

lemma trail_clean:
  "digest_ok sha \<Longrightarrow> (\<forall>p. prev = Some p \<longrightarrow> SEP \<notin> set (ae_entry_hash p)) \<Longrightarrow>
     e \<in> set (audit_trail sha prev acts) \<Longrightarrow> clean_entry e"
proof (induction acts arbitrary: prev)
  case (Cons a acts)
  obtain ts actor action subject detail where a: "a = (ts, actor, action, subject, detail)"
    by (cases a) auto
  let ?e = "audit_append sha prev ts actor action subject detail"
  have "clean_entry ?e" using Cons.prems by (intro append_clean)
  moreover have "\<forall>p. Some ?e = Some p \<longrightarrow> SEP \<notin> set (ae_entry_hash p)"
    using entry_hash_clean [OF Cons.prems(1) append_entry_ok] by simp
  ultimately show ?case using Cons.prems Cons.IH [of "Some ?e"] by (auto simp: a Let_def)
qed simp

text \<open>Verification splits at any point, and the entry after it is checked against the one before.\<close>

definition tip_of :: "audit_entry option \<Rightarrow> audit_entry list \<Rightarrow> audit_entry option" where
  "tip_of prev es = (if es = [] then prev else Some (last es))"

lemma verify_append:
  "verify_from sha prev i (es @ fs) =
     (case verify_from sha prev i es of
        Inl j \<Rightarrow> Inl j
      | Inr _ \<Rightarrow> verify_from sha (tip_of prev es) (i + length es) fs)"
  by (induction sha prev i es rule: verify_from.induct) (auto simp: tip_of_def split: sum.splits)

lemma verify_index_ge: "verify_from sha prev i es = Inl j \<Longrightarrow> i \<le> j"
  by (induction sha prev i es rule: verify_from.induct) (auto split: if_splits)

lemma verify_snoc:
  "verify_from sha None i (es @ [e]) = Inr () \<longleftrightarrow>
     verify_from sha None i es = Inr () \<and> entry_ok sha (tip_of None es) e"
  by (auto simp: verify_append split: sum.splits)

text \<open>Without a collision among the two pre-images, a hash determines its entry.\<close>

lemma entry_hash_of: "entry_ok sha p e \<Longrightarrow> ae_entry_hash e = hex_lower (sha (entry_pre e))"
  unfolding entry_ok_def compute_hash_def by metis

lemma same_hash_same_entry:
  assumes "digest_ok sha" and "clean_entry e" and "entry_ok sha p e" and "entry_ok sha q e'"
    and "ae_entry_hash e = ae_entry_hash e'"
    and "sha (entry_pre e) = sha (entry_pre e') \<Longrightarrow> entry_pre e = entry_pre e'"
  shows "e = e'"
proof -
  have "hex_lower (sha (entry_pre e)) = hex_lower (sha (entry_pre e'))"
    using entry_hash_of [OF assms(3)] entry_hash_of [OF assms(4)] assms(5) by simp
  then have "sha (entry_pre e) = sha (entry_pre e')"
    using assms(1) by (intro hex_lower_inject) (simp_all add: digest_ok_def)
  then have "entry_pre e = entry_pre e'" by (rule assms(6))
  then have "[show_nat (ae_seq e), show_int (ae_ts_millis e), ae_actor e, ae_action e, ae_subject e,
       ae_detail e, ae_prev_hash e]
     = [show_nat (ae_seq e'), show_int (ae_ts_millis e'), ae_actor e', ae_action e', ae_subject e',
       ae_detail e', ae_prev_hash e']"
    using assms(2) unfolding pre_image_def by (intro join_sep_clean) (auto simp: clean_entry_def SEP_not_digit)
  then show ?thesis using assms(5) by simp
qed

definition tip_hash :: "audit_entry list \<Rightarrow> string" where
  "tip_hash es = (case tip_of None es of None \<Rightarrow> [] | Some e \<Rightarrow> ae_entry_hash e)"

lemma tip_hash_snoc [simp]: "tip_hash [] = []" "tip_hash (es @ [e]) = ae_entry_hash e"
  by (simp_all add: tip_hash_def tip_of_def)

lemma entry_hash_nonempty: "digest_ok sha \<Longrightarrow> entry_ok sha p e \<Longrightarrow> ae_entry_hash e \<noteq> []"
  using entry_hash_of [of sha p e] by (auto simp: digest_ok_def hex_lower_def)

lemma prev_hash_of: "entry_ok sha (tip_of None es) e \<Longrightarrow> ae_prev_hash e = tip_hash es"
  by (simp add: entry_ok_def tip_hash_def)

lemma same_tip_same_chain:
  assumes "digest_ok sha"
  shows "verify_chain sha es = Inr () \<Longrightarrow> verify_chain sha es' = Inr () \<Longrightarrow> tip_hash es = tip_hash es' \<Longrightarrow>
     \<forall>e \<in> set es. clean_entry e \<Longrightarrow> inj_on sha (entry_pre ` (set es \<union> set es')) \<Longrightarrow> es = es'"
proof (induction es arbitrary: es' rule: rev_induct)
  case Nil
  show ?case
  proof (cases es' rule: rev_cases)
    case (snoc fs f)
    then have "entry_ok sha (tip_of None fs) f" "ae_entry_hash f = []"
      using Nil(2,3) by (simp_all add: verify_chain_def verify_snoc)
    then show ?thesis using entry_hash_nonempty [OF assms] by blast
  qed simp
next
  case (snoc e es)
  have e: "verify_chain sha es = Inr ()" "entry_ok sha (tip_of None es) e"
    using snoc.prems(1) by (simp_all add: verify_chain_def verify_snoc)
  obtain fs f where es': "es' = fs @ [f]"
    using snoc.prems(3) entry_hash_nonempty [OF assms e(2)] by (cases es' rule: rev_cases) auto
  have f: "verify_chain sha fs = Inr ()" "entry_ok sha (tip_of None fs) f"
    using snoc.prems(2) by (simp_all add: es' verify_chain_def verify_snoc)
  have "sha (entry_pre e) = sha (entry_pre f) \<Longrightarrow> entry_pre e = entry_pre f"
    by (rule inj_onD [OF snoc.prems(5)]) (simp_all add: es')
  then have "e = f"
    using snoc.prems(3,4) by (intro same_hash_same_entry [OF assms _ e(2) f(2)]) (simp_all add: es')
  then have "tip_hash es = tip_hash fs" using prev_hash_of [OF e(2)] prev_hash_of [OF f(2)] by simp
  moreover have "inj_on sha (entry_pre ` (set es \<union> set fs))"
    using snoc.prems(5) by (rule inj_on_subset) (auto simp: es')
  ultimately have "es = fs" using e(1) f(1) snoc.prems(4) by (intro snoc.IH) auto
  with \<open>e = f\<close> show ?case by (simp add: es')
qed

section \<open>Properties\<close>

text \<open>An audit trail that grew only by appending always verifies, whatever was recorded in it;
  and verification stops exactly at the first entry that does not follow from the chain before
  it.\<close>

lemma audit_verify_exact:
  "verify_chain sha (audit_trail sha None acts) = Inr ()
   \<and> (verify_chain sha es = Inl i \<longleftrightarrow>
        i < length es \<and> verify_chain sha (take i es) = Inr () \<and> \<not> entry_ok sha (tip_of None (take i es)) (es ! i))"
proof -
  have "verify_from sha prev j es = Inl (j + i) \<longleftrightarrow>
      i < length es \<and> verify_from sha prev j (take i es) = Inr () \<and> \<not> entry_ok sha (tip_of prev (take i es)) (es ! i)"
    for prev j
  proof (induction es arbitrary: prev j i)
    case (Cons e es)
    have tips: "tip_of prev (e # take k es) = tip_of (Some e) (take k es)" for k by (simp add: tip_of_def)
    show ?case
    proof (cases i)
      case 0
      have "verify_from sha (Some e) (Suc j) es \<noteq> Inl j" using verify_index_ge by fastforce
      then show ?thesis by (simp add: 0 tip_of_def)
    next
      case (Suc k)
      then show ?thesis using Cons.IH [of "Some e" "Suc j" k] by (simp add: tips)
    qed
  qed simp
  from this [of None 0] show ?thesis by (simp add: verify_chain_def verify_trail)
qed

text \<open>C36. The trail is tamper-evident: whatever chain is presented in place of one built by
  appending, if it verifies and ends in the same hash it is that chain, entry for entry, unless
  the digest function has a collision among the hashed texts. No field of a presented entry can
  be shifted across a separator, because what was recorded holds none.\<close>

theorem audit_tamper_evident:
  assumes "digest_ok sha" and "verify_chain sha es = Inr ()"
    and "tip_hash es = tip_hash (audit_trail sha None acts)"
    and "inj_on sha (entry_pre ` (set (audit_trail sha None acts) \<union> set es))"
  shows "es = audit_trail sha None acts"
  using same_tip_same_chain [OF assms(1) _ assms(2) assms(3) [symmetric] _ assms(4)]
    trail_clean [OF assms(1)] verify_trail by (auto simp: verify_chain_def)

definition toy_digest :: "string \<Rightarrow> nat list" where
  "toy_digest s = [length s mod 256]"

definition sample_acts :: "audit_action list" where
  "sample_acts = [(5, ''op'', ''kill'', ''r'', []), (7, ''op'', ''ack'', ''r'', [])]"

lemma toy_hash_length: "length (compute_hash toy_digest sq ts a b c d p) = 2"
  by (simp add: compute_hash_def toy_digest_def hex_lower_def)

lemma sample_clean: "sanitize_field ''op'' = ''op''" "sanitize_field ''kill'' = ''kill''"
  "sanitize_field ''ack'' = ''ack''" "sanitize_field ''r'' = ''r''" "sanitize_field [] = []"
  by (simp_all add: sanitize_field_def control_byte_def)

definition sample_chain :: "audit_entry list" where
  "sample_chain =
     (let e = audit_append toy_digest None 5 ''op'' ''kill'' ''r'' []
      in [e, audit_append toy_digest (Some e) 7 ''op'' ''ack'' ''r'' []])"

lemma sample_digests:
  "inj_on toy_digest (entry_pre ` (set (audit_trail toy_digest None sample_acts) \<union> set sample_chain))"
  by (simp add: sample_acts_def sample_chain_def audit_append_def Let_def sample_clean)
    (simp add: toy_digest_def pre_image_def toy_hash_length wrap_succ_u64_def show_int_def show_nat.simps)

theorem audit_tamper_evident_witness:
  "verify_chain toy_digest sample_chain = Inr () \<and> sample_chain = audit_trail toy_digest None sample_acts"
proof
  show ok: "verify_chain toy_digest sample_chain = Inr ()"
    by (simp add: verify_chain_def sample_chain_def Let_def append_entry_ok)
  have "tip_hash sample_chain = tip_hash (audit_trail toy_digest None sample_acts)"
    by (simp add: tip_hash_def tip_of_def sample_chain_def sample_acts_def Let_def)
  moreover have "digest_ok toy_digest" by (simp add: digest_ok_def toy_digest_def)
  ultimately show "sample_chain = audit_trail toy_digest None sample_acts"
    using ok sample_digests by (intro audit_tamper_evident)
qed

end
