(* ===== verification/Taint.thy ===== *)
theory Taint
  imports Json Text "HOL-Library.List_Lexorder" "HOL-Library.Char_ord"
begin

text \<open>
  \<open>crates/core/src/taint.rs\<close>: the agent firewall. A \<open>BTreeSet<String>\<close> is a set, listed in byte
  order where the code lists it; the two configuration maps are partial functions. Three things
  come from crates and are arguments: parsing a JSON text, rendering one, and the kinds that the
  regular-expression scanners of \<open>dlp.rs\<close> find in a text.
\<close>

type_synonym labels = "string set"

datatype firewall_mode = Firewall_off | Firewall_shadow | Firewall_enforce

record taint_rule =
  tr_name :: string
  tr_when_any :: "string list"
  tr_deny :: "string list"

record taint_verdict =
  tv_rule :: string
  tv_labels :: "string list"
  tv_requested :: "string list"
  tv_denied :: "string list"

fun join_with :: "string \<Rightarrow> string list \<Rightarrow> string" where
  "join_with sep [] = []"
| "join_with sep [x] = x"
| "join_with sep (x # xs) = x @ sep @ join_with sep xs"

definition verdict_reason :: "taint_verdict \<Rightarrow> string" where
  "verdict_reason v =
     ''tainted context ['' @ join_with '', '' (tv_labels v) @ ''] denies capability [''
     @ join_with '', '' (tv_denied v) @ '']''"

section \<open>Reading a body\<close>

record tool_use =
  tu_id :: "string option"
  tu_name :: string

text \<open>\<open>.get("id").and_then(as_str).filter(|i| !i.is_empty())\<close>\<close>

definition block_id :: "'n json \<Rightarrow> string option" where
  "block_id b = (case field_str ''id'' b of Some i \<Rightarrow> if i = [] then None else Some i | None \<Rightarrow> None)"

definition elements :: "'n json option \<Rightarrow> 'n json list" where
  "elements v = or_else (Option.bind v as_array) []"

definition push_tool_use_from_content :: "'n json option \<Rightarrow> tool_use list" where
  "push_tool_use_from_content content =
     concat (map (\<lambda>b. if field_str ''type'' b = Some ''tool_use''
                       then (case field_str ''name'' b of
                               Some n \<Rightarrow> [\<lparr>tu_id = block_id b, tu_name = n\<rparr>] | None \<Rightarrow> [])
                       else [])
       (elements content))"

definition push_openai_tool_calls :: "'n json option \<Rightarrow> tool_use list" where
  "push_openai_tool_calls calls =
     concat (map (\<lambda>tc. case Option.bind (get_field ''function'' tc) (field_str ''name'') of
                         Some n \<Rightarrow> [\<lparr>tu_id = block_id tc, tu_name = n\<rparr>] | None \<Rightarrow> [])
       (elements calls))"

definition tool_uses_in :: "'n json \<Rightarrow> tool_use list" where
  "tool_uses_in v =
     push_tool_use_from_content (get_field ''content'' v)
     @ concat (map (\<lambda>m. push_tool_use_from_content (get_field ''content'' m)
                          @ push_openai_tool_calls (get_field ''tool_calls'' m))
         (elements (get_field ''messages'' v)))
     @ concat (map (\<lambda>ch. push_openai_tool_calls
                            (Option.bind (get_field ''message'' ch) (get_field ''tool_calls'')))
         (elements (get_field ''choices'' v)))"

definition tool_names_in :: "'n json \<Rightarrow> string list" where
  "tool_names_in v = map tu_name (tool_uses_in v)"

definition PROVIDER_TOOL_BLOCKS :: "string list" where
  "PROVIDER_TOOL_BLOCKS = [''server_tool_use'', ''mcp_tool_use'']"

definition OPENAI_SEARCH_TOOL :: string where
  "OPENAI_SEARCH_TOOL = ''web_search''"

definition is_provider_citation :: "'n json \<Rightarrow> bool" where
  "is_provider_citation a \<longleftrightarrow> field_str ''type'' a = Some ''url_citation''"

definition is_provider_tool_block :: "'n json \<Rightarrow> bool" where
  "is_provider_tool_block b =
     (case field_str ''type'' b of None \<Rightarrow> False | Some t \<Rightarrow> t \<in> set PROVIDER_TOOL_BLOCKS)"

definition provider_tools_in :: "'n json \<Rightarrow> string list" where
  "provider_tools_in v =
     List.map_filter (field_str ''name'') (filter is_provider_tool_block (elements (get_field ''content'' v)))
     @ (if list_ex is_provider_citation
             (concat (map (\<lambda>c. elements (Option.bind (get_field ''message'' c) (get_field ''annotations'')))
               (elements (get_field ''choices'' v))))
        then [OPENAI_SEARCH_TOOL] else [])"

text \<open>A declared tool is named at \<open>name\<close>, at \<open>function.name\<close>, or at both.\<close>

definition declared_names :: "'n json \<Rightarrow> string list" where
  "declared_names t =
     (case field_str ''name'' t of Some n \<Rightarrow> [n] | None \<Rightarrow> [])
     @ (case Option.bind (get_field ''function'' t) (field_str ''name'') of Some n \<Rightarrow> [n] | None \<Rightarrow> [])"

definition declared_tool_names_in :: "'n json \<Rightarrow> string list" where
  "declared_tool_names_in v = concat (map declared_names (elements (get_field ''tools'' v)))"

definition declared_tool_defs_in :: "('n json \<Rightarrow> string option) \<Rightarrow> 'n json \<Rightarrow> (string \<times> nat) list" where
  "declared_tool_defs_in render v =
     concat (map (\<lambda>t. let len = or_else (map_option length (render t)) 0
                       in map (\<lambda>n. (n, len)) (declared_names t))
       (elements (get_field ''tools'' v)))"

definition tool_arguments_in :: "(string \<Rightarrow> 'n json option) \<Rightarrow> 'n json \<Rightarrow> 'n json list" where
  "tool_arguments_in parse v =
     map (\<lambda>b. or_else (get_field ''input'' b) JNull)
       (filter (\<lambda>b. field_str ''type'' b = Some ''tool_use'') (elements (get_field ''content'' v)))
     @ concat (map (\<lambda>ch.
         map (\<lambda>tc. or_else (parse (or_else
                      (Option.bind (get_field ''function'' tc) (field_str ''arguments'')) [])) JNull)
           (elements (Option.bind (get_field ''message'' ch) (get_field ''tool_calls''))))
         (elements (get_field ''choices'' v)))"

section \<open>Labels and capabilities\<close>

definition is_unclassified :: "string \<Rightarrow> (string \<rightharpoonup> string list) \<Rightarrow> bool" where
  "is_unclassified n sources \<longleftrightarrow> (case sources n of Some mapped \<Rightarrow> mapped = [] | None \<Rightarrow> True)"

fun labels_for_tools :: "string list \<Rightarrow> (string \<rightharpoonup> string list) \<Rightarrow> labels" where
  "labels_for_tools [] sources = {}"
| "labels_for_tools (n # ns) sources =
     (if is_unclassified n sources then {''unclassified''}
      else (case sources n of Some mapped \<Rightarrow> set mapped | None \<Rightarrow> {}))
     \<union> labels_for_tools ns sources"

definition UNCLASSIFIED_CAPABILITY :: string where
  "UNCLASSIFIED_CAPABILITY = ''unclassified''"

definition capability_of :: "(string \<rightharpoonup> string) \<Rightarrow> (string \<rightharpoonup> string list) \<Rightarrow> string \<Rightarrow> string option" where
  "capability_of capabilities sources n =
     (case capabilities n of
        Some c \<Rightarrow> Some c
      | None \<Rightarrow> if is_unclassified n sources then Some UNCLASSIFIED_CAPABILITY else None)"

definition capabilities_for_tools ::
  "string list \<Rightarrow> (string \<rightharpoonup> string) \<Rightarrow> (string \<rightharpoonup> string list) \<Rightarrow> string set" where
  "capabilities_for_tools names capabilities sources =
     set (List.map_filter (capability_of capabilities sources) names)"

section \<open>Rules\<close>

definition NETWORK_READ_CAPABILITY :: string where
  "NETWORK_READ_CAPABILITY = ''network_read''"

definition READ_TOOL_RULE :: string where
  "READ_TOOL_RULE = ''read-tool-carries-data''"

definition label_hit :: "taint_rule \<Rightarrow> labels \<Rightarrow> bool" where
  "label_hit r labels = list_ex (\<lambda>l. l \<in> labels) (tr_when_any r)"

definition denied_by :: "taint_rule \<Rightarrow> string set \<Rightarrow> string list" where
  "denied_by r requested =
     filter (\<lambda>c. c \<in> requested \<and> \<not> (tr_name r = READ_TOOL_RULE \<and> c = NETWORK_READ_CAPABILITY)) (tr_deny r)"

definition verdict :: "taint_rule \<Rightarrow> labels \<Rightarrow> string set \<Rightarrow> string list \<Rightarrow> taint_verdict" where
  "verdict r labels requested denied =
     \<lparr>tv_rule = tr_name r, tv_labels = sorted_list_of_set labels,
      tv_requested = sorted_list_of_set requested, tv_denied = denied\<rparr>"

fun taint_evaluate :: "labels \<Rightarrow> string set \<Rightarrow> taint_rule list \<Rightarrow> taint_verdict option" where
  "taint_evaluate labels requested [] = None"
| "taint_evaluate labels requested (r # rs) =
     (if \<not> label_hit r labels then taint_evaluate labels requested rs
      else if denied_by r requested \<noteq> [] then Some (verdict r labels requested (denied_by r requested))
      else taint_evaluate labels requested rs)"

section \<open>The arguments of a read\<close>

definition READ_URL_CAP_BYTES :: nat where
  "READ_URL_CAP_BYTES = 512"

definition READ_ENCODED_RUN_CHARS :: nat where
  "READ_ENCODED_RUN_CHARS = 64"

definition READ_QUERY_PARAMS_CAP :: nat where
  "READ_QUERY_PARAMS_CAP = 8"

fun strings_in :: "'n json \<Rightarrow> string list" where
  "strings_in (JStr s) = [s]"
| "strings_in (JArr xs) = concat (map strings_in xs)"
| "strings_in (JObj fs) = concat (map (\<lambda>f. strings_in (snd f)) fs)"
| "strings_in _ = []"

definition from_slash :: "string \<Rightarrow> string" where
  "from_slash s = dropWhile (\<lambda>c. c \<noteq> CHR ''/'') s"

definition path_and_query :: "string \<Rightarrow> string option" where
  "path_and_query text =
     (let trimmed = trim_start text;
          head = to_ascii_lowercase (take 8 trimmed)
      in if starts_with ''https://'' head then Some (from_slash (drop 8 trimmed))
         else if starts_with ''http://'' head then Some (from_slash (drop 7 trimmed))
         else None)"

definition query_params :: "string \<Rightarrow> nat" where
  "query_params pq =
     (case split_once (CHR ''?'') pq of
        Some (_, query) \<Rightarrow> length (filter (\<lambda>p. p \<noteq> []) (split_on (CHR ''&'') query))
      | None \<Rightarrow> 0)"

definition run_char :: "char \<Rightarrow> bool" where
  "run_char c \<longleftrightarrow> ascii_alphanumeric c \<or> c = CHR ''+'' \<or> c = CHR ''/''"

fun encoded_run_from :: "nat \<Rightarrow> string \<Rightarrow> bool" where
  "encoded_run_from run [] = False"
| "encoded_run_from run (c # cs) =
     (if run_char c
      then (if READ_ENCODED_RUN_CHARS \<le> Suc run then True else encoded_run_from (Suc run) cs)
      else encoded_run_from 0 cs)"

definition has_encoded_run :: "string \<Rightarrow> bool" where
  "has_encoded_run text = encoded_run_from 0 text"

definition text_findings ::
  "(string \<Rightarrow> string list) \<Rightarrow> (string \<Rightarrow> string list) \<Rightarrow> bool \<Rightarrow> string \<Rightarrow> string set" where
  "text_findings scan scan_pii pii_blocks text =
     set (scan text)
     \<union> (if pii_blocks then set (scan_pii text) else {})
     \<union> (case path_and_query text of
          Some pq \<Rightarrow> (if READ_URL_CAP_BYTES < length pq then {''url_too_long''} else {})
                   \<union> (if READ_QUERY_PARAMS_CAP < query_params pq then {''too_many_params''} else {})
        | None \<Rightarrow> {})
     \<union> (if has_encoded_run text then {''encoded_run''} else {})"

definition argument_findings ::
  "(string \<Rightarrow> string list) \<Rightarrow> (string \<Rightarrow> string list) \<Rightarrow> 'n json \<Rightarrow> bool \<Rightarrow> string list" where
  "argument_findings scan scan_pii args pii_blocks =
     sorted_list_of_set (\<Union> (set (map (text_findings scan scan_pii pii_blocks) (strings_in args))))"

definition read_argument_verdict ::
  "(string \<Rightarrow> string list) \<Rightarrow> (string \<Rightarrow> string list) \<Rightarrow> labels \<Rightarrow> string set \<Rightarrow> 'n json \<Rightarrow> bool
     \<Rightarrow> taint_rule list \<Rightarrow> taint_verdict option" where
  "read_argument_verdict scan scan_pii labels requested args pii_blocks rules =
     (if NETWORK_READ_CAPABILITY \<notin> requested then None
      else (case List.find (\<lambda>r. tr_name r = READ_TOOL_RULE \<and> label_hit r labels
                               \<and> NETWORK_READ_CAPABILITY \<in> set (tr_deny r)) rules of
              None \<Rightarrow> None
            | Some r \<Rightarrow>
                if argument_findings scan scan_pii args pii_blocks = [] then None
                else Some (verdict r labels requested [NETWORK_READ_CAPABILITY])))"

section \<open>Facts\<close>

definition labels_of :: "(string \<rightharpoonup> string list) \<Rightarrow> string \<Rightarrow> labels" where
  "labels_of sources n =
     (if is_unclassified n sources then {''unclassified''}
      else (case sources n of Some mapped \<Rightarrow> set mapped | None \<Rightarrow> {}))"

lemma labels_for_tools_Union: "labels_for_tools ns sources = (\<Union>n \<in> set ns. labels_of sources n)"
  by (induction ns) (auto simp: labels_of_def)

lemma capabilities_for_tools_iff:
  "c \<in> capabilities_for_tools ns caps sources \<longleftrightarrow> (\<exists>n \<in> set ns. capability_of caps sources n = Some c)"
  by (force simp: capabilities_for_tools_def List.map_filter_def)

definition fires :: "labels \<Rightarrow> string set \<Rightarrow> taint_rule \<Rightarrow> bool" where
  "fires labels requested r \<longleftrightarrow> label_hit r labels \<and> denied_by r requested \<noteq> []"

lemma taint_evaluate_find:
  "taint_evaluate labels requested rules =
     map_option (\<lambda>r. verdict r labels requested (denied_by r requested)) (List.find (fires labels requested) rules)"
  by (induction rules) (auto simp: fires_def)

lemma taint_evaluate_iff: "taint_evaluate labels requested rules \<noteq> None \<longleftrightarrow> list_ex (fires labels requested) rules"
  by (auto simp: taint_evaluate_find find_None_iff list_ex_iff)

lemma fires_mono: "labels \<subseteq> labels' \<Longrightarrow> requested \<subseteq> requested' \<Longrightarrow> fires labels requested r \<Longrightarrow> fires labels' requested' r"
  by (fastforce simp: fires_def label_hit_def denied_by_def list_ex_iff filter_empty_conv)

text \<open>The longest stretch of such characters that starts a text.\<close>

abbreviation run_length :: "string \<Rightarrow> nat" where
  "run_length s \<equiv> length (takeWhile run_char s)"

lemma exists_drop_Cons: "(\<exists>k. P (drop k (c # cs))) \<longleftrightarrow> P (c # cs) \<or> (\<exists>k. P (drop k cs))"
proof
  assume "\<exists>k. P (drop k (c # cs))"
  then obtain k where "P (drop k (c # cs))" by blast
  then show "P (c # cs) \<or> (\<exists>k. P (drop k cs))" by (cases k) auto
next
  assume "P (c # cs) \<or> (\<exists>k. P (drop k cs))"
  then show "\<exists>k. P (drop k (c # cs))" by (metis drop0 drop_Suc_Cons)
qed

lemma encoded_run_iff:
  "run < READ_ENCODED_RUN_CHARS \<Longrightarrow>
   encoded_run_from run s \<longleftrightarrow>
     READ_ENCODED_RUN_CHARS \<le> run + run_length s \<or> (\<exists>k. READ_ENCODED_RUN_CHARS \<le> run_length (drop k s))"
proof (induction run s rule: encoded_run_from.induct)
  case (2 run c cs)
  note split = exists_drop_Cons [of "\<lambda>s. READ_ENCODED_RUN_CHARS \<le> run_length s"]
  have later: "READ_ENCODED_RUN_CHARS \<le> run_length cs \<Longrightarrow> \<exists>k. READ_ENCODED_RUN_CHARS \<le> run_length (drop k cs)"
    by (metis drop0)
  show ?case
  proof (cases "run_char c")
    case True
    with 2 show ?thesis unfolding split by auto
  next
    case False
    with 2(2) have "encoded_run_from 0 cs \<longleftrightarrow> (\<exists>k. READ_ENCODED_RUN_CHARS \<le> run_length (drop k cs))"
      using later by (auto simp: READ_ENCODED_RUN_CHARS_def)
    with False 2(3) show ?thesis unfolding split by simp
  qed
qed auto

lemma has_encoded_run_iff:
  "has_encoded_run s \<longleftrightarrow> (\<exists>k. READ_ENCODED_RUN_CHARS \<le> run_length (drop k s))"
  using encoded_run_iff [of 0 s] by (auto simp: has_encoded_run_def READ_ENCODED_RUN_CHARS_def) (metis drop0)

definition url_flaw :: "string \<Rightarrow> bool" where
  "url_flaw t \<longleftrightarrow>
     (case path_and_query t of
        Some pq \<Rightarrow> READ_URL_CAP_BYTES < length pq \<or> READ_QUERY_PARAMS_CAP < query_params pq
      | None \<Rightarrow> False)"

lemma text_findings_empty:
  "text_findings scan scan_pii pii t = {} \<longleftrightarrow>
     scan t = [] \<and> (pii \<longrightarrow> scan_pii t = []) \<and> \<not> url_flaw t \<and> \<not> has_encoded_run t"
  by (auto simp: text_findings_def url_flaw_def split: option.splits)

lemma finite_text_findings: "finite (text_findings scan scan_pii pii t)"
  by (auto simp: text_findings_def split: option.splits)

lemma argument_findings_empty:
  "argument_findings scan scan_pii args pii = [] \<longleftrightarrow>
     list_all (\<lambda>t. text_findings scan scan_pii pii t = {}) (strings_in args)"
  by (simp add: argument_findings_def sorted_list_of_set_eq_Nil_iff finite_text_findings list_all_iff)

section \<open>Properties\<close>

text \<open>C38. A refusal cannot be laundered: a run that has used more tools, or asks for more, stays
  refused whatever else it used or asks for, in whatever order, and whatever further rules are
  configured around the ones that refused it. And the firewall fails closed: where a rule denies
  unclassified actions after unclassified output, output of a tool nobody classified is enough to
  refuse a call of a tool nobody classified.\<close>

theorem taint_never_laundered:
  assumes "set seen \<subseteq> set seen'" and "set asked \<subseteq> set asked'" and "set rules \<subseteq> set rules'"
    and "taint_evaluate (labels_for_tools seen sources) (capabilities_for_tools asked caps sources) rules \<noteq> None
      \<or> (\<exists>n \<in> set seen. is_unclassified n sources)
        \<and> (\<exists>m \<in> set asked. is_unclassified m sources \<and> caps m = None)
        \<and> (\<exists>r \<in> set rules. ''unclassified'' \<in> set (tr_when_any r) \<and> UNCLASSIFIED_CAPABILITY \<in> set (tr_deny r))"
  shows "taint_evaluate (labels_for_tools seen' sources) (capabilities_for_tools asked' caps sources) rules' \<noteq> None"
proof -
  let ?l = "labels_for_tools seen sources" and ?c = "capabilities_for_tools asked caps sources"
  have fired: "\<exists>r \<in> set rules. fires ?l ?c r"
    using assms(4)
  proof
    assume "taint_evaluate ?l ?c rules \<noteq> None"
    then show ?thesis unfolding taint_evaluate_iff list_ex_iff .
  next
    assume unclassified: "(\<exists>n \<in> set seen. is_unclassified n sources)
        \<and> (\<exists>m \<in> set asked. is_unclassified m sources \<and> caps m = None)
        \<and> (\<exists>r \<in> set rules. ''unclassified'' \<in> set (tr_when_any r) \<and> UNCLASSIFIED_CAPABILITY \<in> set (tr_deny r))"
    then obtain r where r: "r \<in> set rules" "''unclassified'' \<in> set (tr_when_any r)"
      "UNCLASSIFIED_CAPABILITY \<in> set (tr_deny r)" by blast
    have "''unclassified'' \<in> ?l" using unclassified by (auto simp: labels_for_tools_Union labels_of_def)
    moreover have "UNCLASSIFIED_CAPABILITY \<in> ?c"
      using unclassified by (force simp: capabilities_for_tools_iff capability_of_def)
    moreover have "UNCLASSIFIED_CAPABILITY \<noteq> NETWORK_READ_CAPABILITY"
      by (simp add: UNCLASSIFIED_CAPABILITY_def NETWORK_READ_CAPABILITY_def)
    ultimately have "fires ?l ?c r"
      using r by (auto simp: fires_def label_hit_def denied_by_def list_ex_iff filter_empty_conv)
    with r show ?thesis by blast
  qed
  moreover have "?l \<subseteq> labels_for_tools seen' sources" using assms(1) by (auto simp: labels_for_tools_Union)
  moreover have "?c \<subseteq> capabilities_for_tools asked' caps sources"
    using assms(2) unfolding capabilities_for_tools_iff subset_iff by blast
  ultimately have "\<exists>r \<in> set rules'. fires (labels_for_tools seen' sources) (capabilities_for_tools asked' caps sources) r"
    using assms(3) fires_mono by blast
  then show ?thesis unfolding taint_evaluate_iff list_ex_iff .
qed

definition starter_rule :: taint_rule where
  "starter_rule = \<lparr>tr_name = ''unclassified-tools'', tr_when_any = [''unclassified''], tr_deny = [''unclassified'']\<rparr>"

theorem taint_never_laundered_witness:
  "taint_evaluate (labels_for_tools [''web_search'', ''mystery'', ''read_upload''] [''web_search'' \<mapsto> [''web'']])
     (capabilities_for_tools [''http_request'', ''web_search''] Map.empty [''web_search'' \<mapsto> [''web'']]) [starter_rule] \<noteq> None"
  using taint_never_laundered [of "[''mystery'']" "[''web_search'', ''mystery'', ''read_upload'']"
      "[''http_request'']" "[''http_request'', ''web_search'']" "[starter_rule]" "[starter_rule]"
      "[''web_search'' \<mapsto> [''web'']]" Map.empty]
  by (simp add: is_unclassified_def starter_rule_def UNCLASSIFIED_CAPABILITY_def)

text \<open>A network read is refused for its arguments exactly when the read rule applies to what the
  run carries and some string of the arguments, at any depth, holds a secret, refused personal
  data, an over-long or over-parameterised URL, or at least 64 consecutive base64 characters; the
  read rule's own network-read denial never refuses a call on labels alone.\<close>

lemma read_arguments_exact:
  "(read_argument_verdict scan scan_pii labels requested args pii rules \<noteq> None \<longleftrightarrow>
      NETWORK_READ_CAPABILITY \<in> requested
      \<and> list_ex (\<lambda>r. tr_name r = READ_TOOL_RULE \<and> label_hit r labels
                     \<and> NETWORK_READ_CAPABILITY \<in> set (tr_deny r)) rules
      \<and> list_ex (\<lambda>t. (\<exists>f. f \<in> set (scan t)) \<or> pii \<and> (\<exists>f. f \<in> set (scan_pii t)) \<or> url_flaw t
                     \<or> (\<exists>k. READ_ENCODED_RUN_CHARS \<le> run_length (drop k t))) (strings_in args))
   \<and> taint_evaluate labels {NETWORK_READ_CAPABILITY}
        (filter (\<lambda>r. tr_name r = READ_TOOL_RULE) rules) = None"
proof -
  have "argument_findings scan scan_pii args pii \<noteq> [] \<longleftrightarrow>
      list_ex (\<lambda>t. (\<exists>f. f \<in> set (scan t)) \<or> pii \<and> (\<exists>f. f \<in> set (scan_pii t)) \<or> url_flaw t
                     \<or> (\<exists>k. READ_ENCODED_RUN_CHARS \<le> run_length (drop k t))) (strings_in args)"
    unfolding argument_findings_empty
    by (simp add: text_findings_empty has_encoded_run_iff list_all_iff list_ex_iff ex_in_conv)
  moreover have "\<not> fires labels {NETWORK_READ_CAPABILITY} r" if "tr_name r = READ_TOOL_RULE" for r
    using that by (auto simp: fires_def denied_by_def filter_empty_conv)
  then have "\<not> list_ex (fires labels {NETWORK_READ_CAPABILITY}) (filter (\<lambda>r. tr_name r = READ_TOOL_RULE) rules)"
    by (auto simp: list_ex_iff)
  then have "taint_evaluate labels {NETWORK_READ_CAPABILITY} (filter (\<lambda>r. tr_name r = READ_TOOL_RULE) rules) = None"
    using taint_evaluate_iff by blast
  ultimately show ?thesis
    by (auto simp: read_argument_verdict_def find_None_iff list_ex_iff split: option.splits dest: find_Some_split)
qed

end
