(* ===== verification/Stream_Gate.thy ===== *)
theory Stream_Gate
  imports Taint "HOL-Library.Product_Lexorder"
begin

text \<open>
  \<open>crates/gateway/src/streamgate.rs\<close>, with the event splitter of \<open>provider.rs\<close> it reads events by:
  the gate that holds a streamed answer's tool calls back until they are judged. What comes from
  crates or from the UTF-8 decoder is in the record \<open>wire\<close>: the lossy decoding of bytes, the
  parsing and rendering of JSON, and reading a JSON number as \<open>u64\<close>.
\<close>

record 'n wire =
  wi_lossy :: "string \<Rightarrow> string"
  wi_parse :: "string \<Rightarrow> 'n json option"
  wi_render :: "'n json \<Rightarrow> string"
  wi_u64 :: "'n \<Rightarrow> nat option"

section \<open>Server-sent events\<close>

record sse_events =
  se_events :: "string list"
  se_saw_data_field :: bool

abbreviation line_end :: "char \<Rightarrow> bool" where
  "line_end c \<equiv> c = CR \<or> c = LF"

text \<open>One line and what follows its terminator; no terminator, no next.\<close>

definition split_line :: "string \<Rightarrow> string \<times> string option" where
  "split_line rest =
     (takeWhile (\<lambda>c. \<not> line_end c) rest,
      (case dropWhile (\<lambda>c. \<not> line_end c) rest of
         [] \<Rightarrow> None
       | b # after \<Rightarrow> Some (if b = CR \<and> after \<noteq> [] \<and> hd after = LF then tl after else after)))"

definition sse_dispatch :: "string \<Rightarrow> sse_events \<Rightarrow> string \<times> sse_events" where
  "sse_dispatch data acc =
     (if data = [] then (data, acc)
      else if butlast data = [] then ([], acc)
      else ([], acc\<lparr>se_events := se_events acc @ [butlast data]\<rparr>))"

definition strip_space :: "string \<Rightarrow> string" where
  "strip_space v = (case v of c # cs \<Rightarrow> if c = CHR '' '' then cs else v | [] \<Rightarrow> [])"

definition sse_line :: "string \<Rightarrow> string \<Rightarrow> sse_events \<Rightarrow> string \<times> sse_events" where
  "sse_line line data acc =
     (if line = [] then sse_dispatch data acc
      else if starts_with '':'' line then (data, acc)
      else let (field, val) = (case split_once (CHR '':'') line of
                                 Some (f, v) \<Rightarrow> (f, strip_space v) | None \<Rightarrow> (line, []))
           in if trim_start field = ''data''
              then (data @ val @ [LF], acc\<lparr>se_saw_data_field := True\<rparr>)
              else (data, acc))"

lemma split_line_shorter: "snd (split_line rest) = Some n \<Longrightarrow> length n < length rest"
proof -
  assume "snd (split_line rest) = Some n"
  moreover have "length (dropWhile (\<lambda>c. \<not> line_end c) rest) \<le> length rest" by (rule length_dropWhile_le)
  ultimately show ?thesis by (auto simp: split_line_def split: list.splits if_splits)
qed

function sse_from :: "string \<Rightarrow> string \<Rightarrow> sse_events \<Rightarrow> string \<times> sse_events" where
  "sse_from rest data acc =
     (let line = fst (split_line rest)
      in if snd (split_line rest) = None \<and> line = [] then (data, acc)
         else let (data', acc') = sse_line line data acc
              in case snd (split_line rest) of
                   Some n \<Rightarrow> sse_from n data' acc'
                 | None \<Rightarrow> (data', acc'))"
  by pat_completeness auto
termination
  by (relation "measure (\<lambda>(rest, _). length rest)") (auto simp: split_line_shorter)

definition split_sse_events :: "string \<Rightarrow> sse_events" where
  "split_sse_events s =
     (let (data, acc) = sse_from s [] \<lparr>se_events = [], se_saw_data_field = False\<rparr>
      in snd (sse_dispatch data acc))"

declare sse_from.simps [simp del]

section \<open>The gate\<close>

record held_back =
  hb_tail :: string
  hb_held :: string
  hb_tools :: "string list"
  hb_provider_tools :: "string list"

type_synonym openai_calls = "((nat \<times> nat) \<times> (string option \<times> string)) list"

record 'n tool_call_hold =
  th_buf :: string
  th_scan_pos :: nat
  th_line_start :: nat
  th_holding :: bool
  th_held :: string
  th_anthropic_blocks :: "'n json list"
  th_provider_blocks :: "'n json list"
  th_openai_citations :: "'n json list"
  th_openai_calls :: openai_calls

definition hold_new :: "'n tool_call_hold" where
  "hold_new = \<lparr>th_buf = [], th_scan_pos = 0, th_line_start = 0, th_holding = False, th_held = [],
     th_anthropic_blocks = [], th_provider_blocks = [], th_openai_citations = [], th_openai_calls = []\<rparr>"

text \<open>
  The scan loop of \<open>next_event_end\<close>: the end of the first complete event, if there is one, and
  where the scan and its line stand otherwise.
\<close>

function scan :: "string \<Rightarrow> nat \<Rightarrow> nat \<Rightarrow> nat option \<times> nat \<times> nat" where
  "scan buf i line_start =
     (if length buf \<le> i then (None, i, line_start)
      else if \<not> line_end (buf ! i) then scan buf (i + 1) line_start
      else if buf ! i = CR \<and> length buf \<le> i + 1 then (None, i, line_start)
      else let after = i + (if buf ! i = CR \<and> buf ! (i + 1) = LF then 2 else 1)
           in if i = line_start then (Some after, i, line_start) else scan buf after after)"
  by pat_completeness auto
termination
  by (relation "measure (\<lambda>(buf, i, _). length buf - i)") (auto simp: Let_def)

declare scan.simps [simp del]

definition next_event_end :: "'n tool_call_hold \<Rightarrow> nat option \<times> 'n tool_call_hold" where
  "next_event_end h =
     (case scan (th_buf h) (th_scan_pos h) (th_line_start h) of
        (Some e, _, ls) \<Rightarrow> (Some e, h\<lparr>th_line_start := ls\<rparr>)
      | (None, i, ls) \<Rightarrow> (None, h\<lparr>th_scan_pos := i, th_line_start := ls\<rparr>))"

text \<open>\<open>observe\<close>: the Anthropic shape, then the OpenAI one.\<close>

definition observe_anthropic :: "'n json \<Rightarrow> 'n tool_call_hold \<Rightarrow> bool \<times> 'n tool_call_hold" where
  "observe_anthropic v h =
     (if field_str ''type'' v = Some ''content_block_start''
      then (case get_field ''content_block'' v of
              Some b \<Rightarrow>
                if field_str ''type'' b = Some ''tool_use''
                then (True, h\<lparr>th_anthropic_blocks := th_anthropic_blocks h @ [b]\<rparr>)
                else if is_provider_tool_block b
                then (False, h\<lparr>th_provider_blocks := th_provider_blocks h @ [b]\<rparr>)
                else (False, h)
            | None \<Rightarrow> (False, h))
      else (False, h))"

definition index_of :: "('n \<Rightarrow> nat option) \<Rightarrow> nat \<Rightarrow> 'n json \<Rightarrow> nat" where
  "index_of u64 pos v = (case get_field ''index'' v of Some (JNum n) \<Rightarrow> or_else (u64 n) pos | _ \<Rightarrow> pos)"

definition observe_call ::
  "('n \<Rightarrow> nat option) \<Rightarrow> nat \<Rightarrow> string \<Rightarrow> nat \<times> 'n json \<Rightarrow> openai_calls \<Rightarrow> openai_calls" where
  "observe_call u64 ci side = (\<lambda>(k, tc) calls.
     let key = (ci, index_of u64 k tc);
         (i, name) = or_else (map_of calls key) (None, []);
         i = (case field_str ''id'' tc of Some x \<Rightarrow> if x \<noteq> [] then Some x else i | None \<Rightarrow> i);
         name = (case Option.bind (get_field ''function'' tc) (field_str ''name'') of
                   Some part \<Rightarrow> if side = ''message'' then part else name @ part
                 | None \<Rightarrow> name)
     in bt_insert key (i, name) calls)"

definition observe_side ::
  "('n \<Rightarrow> nat option) \<Rightarrow> nat \<Rightarrow> 'n json \<Rightarrow> string \<Rightarrow> bool \<times> 'n tool_call_hold \<Rightarrow> bool \<times> 'n tool_call_hold" where
  "observe_side u64 ci choice side = (\<lambda>(carried, h).
     let notes = elements (Option.bind (get_field side choice) (get_field ''annotations''));
         calls = elements (Option.bind (get_field side choice) (get_field ''tool_calls''))
     in (carried \<or> calls \<noteq> [],
         h\<lparr>th_openai_citations := th_openai_citations h @ filter is_provider_citation notes,
           th_openai_calls := fold (observe_call u64 ci side) (List.enumerate 0 calls) (th_openai_calls h)\<rparr>))"

definition observe_choice ::
  "('n \<Rightarrow> nat option) \<Rightarrow> nat \<times> 'n json \<Rightarrow> bool \<times> 'n tool_call_hold \<Rightarrow> bool \<times> 'n tool_call_hold" where
  "observe_choice u64 = (\<lambda>(pos, choice) s.
     fold (observe_side u64 (index_of u64 pos choice) choice) [''delta'', ''message''] s)"

definition observe :: "('n \<Rightarrow> nat option) \<Rightarrow> 'n json \<Rightarrow> 'n tool_call_hold \<Rightarrow> bool \<times> 'n tool_call_hold" where
  "observe u64 v h =
     fold (observe_choice u64) (List.enumerate 0 (elements (get_field ''choices'' v))) (observe_anthropic v h)"

text \<open>\<open>route\<close>: read one complete event, then forward or hold it.\<close>

definition observe_data :: "'n wire \<Rightarrow> string \<Rightarrow> bool \<times> 'n tool_call_hold \<Rightarrow> bool \<times> 'n tool_call_hold" where
  "observe_data w d = (\<lambda>(opens, h).
     case wi_parse w d of
       Some v \<Rightarrow> let (c, h') = observe (wi_u64 w) v h in (opens \<or> c, h')
     | None \<Rightarrow> (opens, h))"

definition route_event ::
  "'n wire \<Rightarrow> string \<Rightarrow> 'n tool_call_hold \<times> string \<Rightarrow> 'n tool_call_hold \<times> string" where
  "route_event w raw = (\<lambda>(h, out).
     let (opens, h) = fold (observe_data w) (se_events (split_sse_events (wi_lossy w raw))) (False, h)
     in if th_holding h \<or> opens
        then (h\<lparr>th_holding := True, th_held := th_held h @ raw\<rparr>, out)
        else (h, out @ raw))"

section \<open>The gate's bytes\<close>

text \<open>Reading an event touches the record of what was seen, never the bytes.\<close>

definition same_bytes :: "'n tool_call_hold \<Rightarrow> 'n tool_call_hold \<Rightarrow> bool" where
  "same_bytes h h' \<longleftrightarrow>
     th_buf h' = th_buf h \<and> th_scan_pos h' = th_scan_pos h \<and> th_line_start h' = th_line_start h
     \<and> th_holding h' = th_holding h \<and> th_held h' = th_held h"

lemma same_bytes_refl [simp]: "same_bytes h h"
  by (simp add: same_bytes_def)

lemma same_bytes_trans: "same_bytes h h' \<Longrightarrow> same_bytes h' h'' \<Longrightarrow> same_bytes h h''"
  by (simp add: same_bytes_def)

lemma fold_same_bytes:
  "(\<And>x s. x \<in> set xs \<Longrightarrow> same_bytes (snd s) (snd (f x s))) \<Longrightarrow> same_bytes (snd s) (snd (fold f xs s))"
proof (induction xs arbitrary: s)
  case (Cons x xs)
  have "same_bytes (snd s) (snd (f x s))" using Cons.prems by simp
  moreover have "same_bytes (snd (f x s)) (snd (fold f xs (f x s)))" using Cons by simp
  ultimately show ?case by (auto intro: same_bytes_trans)
qed simp

lemma observe_anthropic_bytes: "same_bytes h (snd (observe_anthropic v h))"
  by (auto simp: observe_anthropic_def same_bytes_def split: option.splits)

lemma observe_side_bytes: "same_bytes (snd s) (snd (observe_side u64 ci c side s))"
  by (simp add: observe_side_def same_bytes_def Let_def case_prod_beta)

lemma observe_choice_bytes: "same_bytes (snd s) (snd (observe_choice u64 x s))"
  unfolding observe_choice_def case_prod_beta by (rule fold_same_bytes) (rule observe_side_bytes)

lemma observe_bytes: "same_bytes h (snd (observe u64 v h))"
proof -
  have "same_bytes (snd (observe_anthropic v h)) (snd (observe u64 v h))"
    unfolding observe_def by (rule fold_same_bytes) (rule observe_choice_bytes)
  then show ?thesis using observe_anthropic_bytes same_bytes_trans by blast
qed

lemma observe_data_bytes: "same_bytes (snd s) (snd (observe_data w d s))"
  using observe_bytes by (auto simp: observe_data_def Let_def case_prod_beta split: option.splits)

definition observe_event :: "'n wire \<Rightarrow> string \<Rightarrow> 'n tool_call_hold \<Rightarrow> bool \<times> 'n tool_call_hold" where
  "observe_event w raw h = fold (observe_data w) (se_events (split_sse_events (wi_lossy w raw))) (False, h)"

lemma observe_event_bytes: "same_bytes h (snd (observe_event w raw h))"
  unfolding observe_event_def
  by (rule fold_same_bytes [where s = "(False, h)", simplified]) (metis observe_data_bytes)

lemma route_event_eq:
  "route_event w raw (h, out) =
     (let (opens, h') = observe_event w raw h
      in if th_holding h \<or> opens
         then (h'\<lparr>th_holding := True, th_held := th_held h @ raw\<rparr>, out)
         else (h', out @ raw))"
  using observe_event_bytes [of h w raw]
  by (simp add: route_event_def observe_event_def same_bytes_def Let_def case_prod_beta)

lemma route_event_buf [simp]: "th_buf (fst (route_event w raw s)) = th_buf (fst s)"
  using observe_event_bytes [of "fst s" w raw]
  by (cases s) (simp add: route_event_eq same_bytes_def Let_def case_prod_beta)

section \<open>Scanning\<close>

lemma scan_some: "scan buf i ls = (Some e, j, k) \<Longrightarrow> i < e \<and> e \<le> length buf"
proof (induction buf i ls rule: scan.induct)
  case (1 buf i ls)
  show ?case
    using "1.prems" "1.IH"
    by (subst (asm) scan.simps) (force simp: Let_def split: if_splits)
qed

lemma scan_none: "scan buf i ls = (None, j, k) \<Longrightarrow> i \<le> length buf \<Longrightarrow> j \<le> length buf"
proof (induction buf i ls rule: scan.induct)
  case (1 buf i ls)
  show ?case
    using "1.prems" "1.IH"
    by (subst (asm) scan.simps) (force simp: Let_def split: if_splits)
qed

text \<open>More bytes do not change an event end already found.\<close>

lemma scan_extend: "scan buf i ls = (Some e, j, k) \<Longrightarrow> scan (buf @ x) i ls = (Some e, j, k)"
proof (induction buf i ls rule: scan.induct)
  case (1 buf i ls)
  show ?case
    using "1.prems" "1.IH"
    by (subst (asm) scan.simps, subst scan.simps) (auto simp: Let_def nth_append split: if_splits)
qed

text \<open>And a scan that ran out of bytes can be taken up where it stood.\<close>

lemma scan_resume: "scan buf i ls = (None, j, k) \<Longrightarrow> scan (buf @ x) i ls = scan (buf @ x) j k"
proof (induction buf i ls rule: scan.induct)
  case (1 buf i ls)
  note here = "1.prems" [unfolded scan.simps [of buf i ls]]
  consider "length buf \<le> i \<or> buf ! i = CR \<and> length buf \<le> i + 1"
    | "\<not> length buf \<le> i" "\<not> line_end (buf ! i)"
    | "\<not> length buf \<le> i" "line_end (buf ! i)" "\<not> (buf ! i = CR \<and> length buf \<le> i + 1)"
    by blast
  then show ?case
  proof cases
    case 1
    with here have "j = i \<and> k = ls" by (auto split: if_splits)
    then show ?thesis by simp
  next
    case 2
    with here have "scan buf (i + 1) ls = (None, j, k)" by simp
    with 2 have "scan (buf @ x) (i + 1) ls = scan (buf @ x) j k" using "1.IH"(1) by blast
    with 2 show ?thesis by (simp add: scan.simps [of "buf @ x" i ls] nth_append)
  next
    case 3
    define after where "after = i + (if buf ! i = CR \<and> buf ! (i + 1) = LF then 2 else 1)"
    from 3 here have s: "i \<noteq> ls" "scan buf after after = (None, j, k)"
      by (auto simp: Let_def after_def split: if_splits)
    with 3 have ih: "scan (buf @ x) after after = scan (buf @ x) j k" using "1.IH"(2) after_def by blast
    have "buf ! i = CR \<Longrightarrow> i + 1 < length buf" using 3(3) by simp
    then have "(buf @ x) ! i = buf ! i" "buf ! i = CR \<Longrightarrow> (buf @ x) ! (i + 1) = buf ! (i + 1)"
      using 3(1) by (auto simp: nth_append)
    then have "scan (buf @ x) i ls = scan (buf @ x) after after"
      using 3 s(1) by (subst scan.simps) (auto simp: Let_def after_def)
    with ih show ?thesis by simp
  qed
qed

section \<open>Pushing and finishing\<close>

lemma next_event_end_some: "next_event_end h = (Some e, h') \<Longrightarrow> 0 < e \<and> e \<le> length (th_buf h) \<and> th_buf h' = th_buf h"
  by (auto simp: next_event_end_def split: prod.splits option.splits dest: scan_some)

function push_loop :: "'n wire \<Rightarrow> 'n tool_call_hold \<times> string \<Rightarrow> 'n tool_call_hold \<times> string" where
  "push_loop w s =
     (case next_event_end (fst s) of
        (None, h) \<Rightarrow> (h, snd s)
      | (Some e, h) \<Rightarrow>
          push_loop w (route_event w (take e (th_buf h))
            (h\<lparr>th_buf := drop e (th_buf h), th_scan_pos := 0, th_line_start := 0\<rparr>, snd s)))"
  by pat_completeness auto
termination
  by (relation "measure (\<lambda>(w, h, out). length (th_buf h))")
    (auto simp: case_prod_beta dest!: next_event_end_some [OF sym])

declare push_loop.simps [simp del]

definition push :: "'n wire \<Rightarrow> 'n tool_call_hold \<Rightarrow> string \<Rightarrow> 'n tool_call_hold \<times> string" where
  "push w h chunk = push_loop w (h\<lparr>th_buf := th_buf h @ chunk\<rparr>, [])"

text \<open>The two documents rebuilt from what was seen, as the buffered path would read them.\<close>

definition take_provider_tools :: "'n tool_call_hold \<Rightarrow> string list \<times> 'n tool_call_hold" where
  "take_provider_tools h =
     (provider_tools_in (JObj
        [(''content'', JArr (th_provider_blocks h)),
         (''choices'', JArr [JObj [(''message'', JObj [(''annotations'', JArr (th_openai_citations h))])]])]),
      h\<lparr>th_provider_blocks := [], th_openai_citations := []\<rparr>)"

definition rebuilt_call :: "string option \<times> string \<Rightarrow> 'n json" where
  "rebuilt_call = (\<lambda>(i, name).
     JObj [(''id'', case i of Some x \<Rightarrow> JStr x | None \<Rightarrow> JNull), (''type'', JStr ''function''),
           (''function'', JObj [(''name'', JStr name)])])"

definition tool_names :: "'n tool_call_hold \<Rightarrow> string list" where
  "tool_names h =
     (let calls = map rebuilt_call (filter (\<lambda>c. snd c \<noteq> []) (map snd (th_openai_calls h)))
      in tool_names_in (JObj
        [(''content'', JArr (th_anthropic_blocks h)),
         (''choices'', JArr [JObj [(''message'', JObj [(''tool_calls'', JArr calls)])]])]))"

definition finish :: "'n wire \<Rightarrow> 'n tool_call_hold \<Rightarrow> held_back" where
  "finish w h =
     (let (h1, tail) = (if th_buf h \<noteq> [] then route_event w (th_buf h) (h\<lparr>th_buf := []\<rparr>, []) else (h, []));
          tools = tool_names h1;
          (provider_tools, h2) = take_provider_tools h1
      in \<lparr>hb_tail = tail, hb_held = th_held h2, hb_tools = tools, hb_provider_tools = provider_tools\<rparr>)"

definition refusal_event :: "'n wire \<Rightarrow> bool \<Rightarrow> string \<Rightarrow> string \<Rightarrow> string" where
  "refusal_event w openai run_id reason =
     (let error = [(''type'', JStr ''taint_blocked''), (''run_id'', JStr run_id), (''reason'', JStr reason),
                   (''message'', JStr reason), (''retryable'', JBool False)]
      in if openai
         then ''data: '' @ wi_render w (JObj [(''error'',
                JObj (error @ [(''code'', JStr ''taint_blocked''), (''param'', JNull)]))]) @ [LF, LF]
         else ''event: error'' @ [LF] @ ''data: ''
              @ wi_render w (JObj [(''type'', JStr ''error''), (''error'', JObj error)]) @ [LF, LF])"

text \<open>
  The proxy's loop over the provider's chunks: forward what each push returns, and collect the
  provider's tools after each. At the end the firewall judges the held names, given the provider
  tools seen: \<open>judge\<close> is its answer, a reason to refuse or none.
\<close>

definition stream_chunk ::
  "'n wire \<Rightarrow> string \<Rightarrow> 'n tool_call_hold \<times> string \<times> string list \<Rightarrow> 'n tool_call_hold \<times> string \<times> string list" where
  "stream_chunk w chunk = (\<lambda>(h, sent, seen).
     let (h1, now) = push w h chunk;
         (provider_tools, h2) = take_provider_tools h1
     in (h2, sent @ now, seen @ provider_tools))"

definition judged_stream ::
  "'n wire \<Rightarrow> (string set \<Rightarrow> string list \<Rightarrow> string option) \<Rightarrow> bool \<Rightarrow> string \<Rightarrow> string list \<Rightarrow> string" where
  "judged_stream w judge openai run_id chunks =
     (let (h, sent, seen) = fold (stream_chunk w) chunks (hold_new, [], []);
          b = finish w h
      in case judge (set (seen @ hb_provider_tools b)) (hb_tools b) of
           Some reason \<Rightarrow> sent @ refusal_event w openai run_id reason
         | None \<Rightarrow> sent @ hb_held b @ hb_tail b)"

end
