(* ===== verification/Stream_Facts.thy ===== *)
theory Stream_Facts
  imports Stream_Gate
begin

text \<open>
  What the streaming gate does, event by event: what one event shows, where the events of a body
  end however its bytes are cut into chunks, and what the client is sent in the end.
\<close>

section \<open>What one event shows\<close>

definition opened_blocks :: "'n json \<Rightarrow> 'n json list" where
  "opened_blocks v =
     (if field_str ''type'' v = Some ''content_block_start''
      then filter (\<lambda>b. field_str ''type'' b = Some ''tool_use'')
        (case get_field ''content_block'' v of Some b \<Rightarrow> [b] | None \<Rightarrow> [])
      else [])"

definition provider_block :: "'n json \<Rightarrow> 'n json list" where
  "provider_block v =
     (if field_str ''type'' v = Some ''content_block_start''
      then filter (\<lambda>b. field_str ''type'' b \<noteq> Some ''tool_use'' \<and> is_provider_tool_block b)
        (case get_field ''content_block'' v of Some b \<Rightarrow> [b] | None \<Rightarrow> [])
      else [])"

definition choice_sides :: "'n json \<Rightarrow> 'n json option list" where
  "choice_sides v = concat (map (\<lambda>c. [get_field ''delta'' c, get_field ''message'' c])
     (elements (get_field ''choices'' v)))"

definition citations :: "'n json \<Rightarrow> 'n json list" where
  "citations v = concat (map (\<lambda>d. filter is_provider_citation (elements (Option.bind d (get_field ''annotations''))))
     (choice_sides v))"

definition choice_calls :: "('n \<Rightarrow> nat option) \<Rightarrow> nat \<times> 'n json \<Rightarrow> openai_calls \<Rightarrow> openai_calls" where
  "choice_calls u64 = (\<lambda>(pos, c).
     fold (\<lambda>side. fold (observe_call u64 (index_of u64 pos c) side)
             (List.enumerate 0 (elements (Option.bind (get_field side c) (get_field ''tool_calls'')))))
       [''delta'', ''message''])"

definition calls_update :: "('n \<Rightarrow> nat option) \<Rightarrow> 'n json \<Rightarrow> openai_calls \<Rightarrow> openai_calls" where
  "calls_update u64 v calls =
     fold (choice_calls u64) (List.enumerate 0 (elements (get_field ''choices'' v))) calls"

definition opens_call :: "'n json \<Rightarrow> bool" where
  "opens_call v \<longleftrightarrow> opened_blocks v \<noteq> []
     \<or> list_ex (\<lambda>d. elements (Option.bind d (get_field ''tool_calls'')) \<noteq> []) (choice_sides v)"

lemma observe_anthropic_eq:
  "observe_anthropic v h =
     (opened_blocks v \<noteq> [],
      h\<lparr>th_anthropic_blocks := th_anthropic_blocks h @ opened_blocks v,
        th_provider_blocks := th_provider_blocks h @ provider_block v\<rparr>)"
  by (simp add: observe_anthropic_def opened_blocks_def provider_block_def split: option.splits)

lemma observe_choice_eq:
  "observe_choice u64 (n, c) (b, h) =
     (b \<or> elements (Option.bind (get_field ''delta'' c) (get_field ''tool_calls'')) \<noteq> []
        \<or> elements (Option.bind (get_field ''message'' c) (get_field ''tool_calls'')) \<noteq> [],
      h\<lparr>th_openai_citations := th_openai_citations h
          @ filter is_provider_citation (elements (Option.bind (get_field ''delta'' c) (get_field ''annotations'')))
          @ filter is_provider_citation (elements (Option.bind (get_field ''message'' c) (get_field ''annotations''))),
        th_openai_calls := choice_calls u64 (n, c) (th_openai_calls h)\<rparr>)"
  by (simp add: observe_choice_def observe_side_def choice_calls_def Let_def)

lemma observe_choices_eq:
  "fold (observe_choice u64) (List.enumerate n cs) (b, h) =
     (b \<or> list_ex (\<lambda>d. elements (Option.bind d (get_field ''tool_calls'')) \<noteq> [])
            (concat (map (\<lambda>c. [get_field ''delta'' c, get_field ''message'' c]) cs)),
      h\<lparr>th_openai_citations := th_openai_citations h
          @ concat (map (\<lambda>d. filter is_provider_citation (elements (Option.bind d (get_field ''annotations''))))
              (concat (map (\<lambda>c. [get_field ''delta'' c, get_field ''message'' c]) cs))),
        th_openai_calls :=
fold (choice_calls u64) (List.enumerate n cs) (th_openai_calls h)\<rparr>)"
proof (induction cs arbitrary: n b h)
  case (Cons c cs)
  show ?case
    by (simp add: Cons.IH observe_choice_eq) blast
qed simp

lemma observe_eq:
  "observe u64 v h =
     (opens_call v,
      h\<lparr>th_anthropic_blocks := th_anthropic_blocks h @ opened_blocks v,
        th_provider_blocks := th_provider_blocks h @ provider_block v,
        th_openai_citations := th_openai_citations h @ citations v,
        th_openai_calls := calls_update u64 v (th_openai_calls h)\<rparr>)"
  by (simp add: observe_def observe_anthropic_eq observe_choices_eq opens_call_def citations_def
      calls_update_def choice_sides_def)

text \<open>The JSON values an event carries, and what it does to the gate.\<close>

definition event_values :: "'n wire \<Rightarrow> string \<Rightarrow> 'n json list" where
  "event_values w raw = List.map_filter (wi_parse w) (se_events (split_sse_events (wi_lossy w raw)))"

definition opens_event :: "'n wire \<Rightarrow> string \<Rightarrow> bool" where
  "opens_event w raw = list_ex opens_call (event_values w raw)"

definition saw :: "'n wire \<Rightarrow> 'n json list \<Rightarrow> 'n tool_call_hold \<Rightarrow> 'n tool_call_hold" where
  "saw w vs h =
     h\<lparr>th_anthropic_blocks := th_anthropic_blocks h @ concat (map opened_blocks vs),
       th_provider_blocks := th_provider_blocks h @ concat (map provider_block vs),
       th_openai_citations := th_openai_citations h @ concat (map citations vs),
       th_openai_calls := fold (calls_update (wi_u64 w)) vs (th_openai_calls h)\<rparr>"

lemma observe_data_fold:
  "fold (observe_data w) ds (b, h) =
     (b \<or> list_ex opens_call (List.map_filter (wi_parse w) ds), saw w (List.map_filter (wi_parse w) ds) h)"
proof (induction ds arbitrary: b h)
  case Nil
  then show ?case by (simp add: saw_def map_filter_simps)
next
  case (Cons d ds)
  then show ?case
    by (simp add: observe_data_def observe_eq map_filter_simps saw_def split: option.splits)
qed

lemma observe_event_eq: "observe_event w raw h = (opens_event w raw, saw w (event_values w raw) h)"
  by (simp add: observe_event_def observe_data_fold opens_event_def event_values_def)

section \<open>The events of a body\<close>

function split_events :: "string \<Rightarrow> string list \<times> string" where
  "split_events bs =
     (case scan bs 0 0 of
        (Some e, _) \<Rightarrow> let (es, r) = split_events (drop e bs) in (take e bs # es, r)
      | (None, _) \<Rightarrow> ([], bs))"
  by pat_completeness auto
termination
  by (relation "measure length") (auto dest!: scan_some [OF sym])

declare split_events.simps [simp del]

lemma split_events_none: "scan bs 0 0 = (None, j, k) \<Longrightarrow> split_events bs = ([], bs)"
  by (simp add: split_events.simps [of bs])

lemma split_events_some:
  "scan bs 0 0 = (Some e, j, k) \<Longrightarrow>
     split_events bs = (take e bs # fst (split_events (drop e bs)), snd (split_events (drop e bs)))"
  by (simp add: split_events.simps [of bs] case_prod_beta Let_def)

lemma split_events_rest: "split_events bs = (es, r) \<Longrightarrow> bs = concat es @ r \<and> fst (scan r 0 0) = None"
proof (induction bs arbitrary: es r rule: split_events.induct)
  case (1 bs)
  obtain m j k where s: "scan bs 0 0 = (m, j, k)" by (cases "scan bs 0 0") auto
  show ?case
  proof (cases m)
    case None
    with "1.prems" s show ?thesis by (simp add: split_events_none)
  next
    case (Some e)
    have ih: "\<And>es' r'. split_events (drop e bs) = (es', r') \<Longrightarrow> drop e bs = concat es' @ r' \<and> fst (scan r' 0 0) = None"
      using "1.IH" s Some by simp
    have "drop e bs = concat (fst (split_events (drop e bs))) @ snd (split_events (drop e bs))
      \<and> fst (scan (snd (split_events (drop e bs))) 0 0) = None"
      by (rule ih) simp
    with "1.prems" split_events_some [of bs e j k] s Some show ?thesis
      by (auto simp: append_assoc [symmetric])
  qed
qed

text \<open>Splitting is incremental: later bytes only add events after those already complete.\<close>

lemma split_events_append:
  "split_events (bs @ x) =
     (fst (split_events bs) @ fst (split_events (snd (split_events bs) @ x)),
      snd (split_events (snd (split_events bs) @ x)))"
proof (induction bs rule: split_events.induct)
  case (1 bs)
  obtain m j k where s: "scan bs 0 0 = (m, j, k)" by (cases "scan bs 0 0") auto
  show ?case
  proof (cases m)
    case None
    with s show ?thesis by (simp add: split_events_none)
  next
    case (Some e)
    have e: "e \<le> length bs" using s Some scan_some by blast
    have "scan (bs @ x) 0 0 = (Some e, j, k)" using s Some scan_extend by blast
    then have "split_events (bs @ x) = (take e bs # fst (split_events (drop e bs @ x)), snd (split_events (drop e bs @ x)))"
      using e by (simp add: split_events_some)
    moreover have "split_events (drop e bs @ x) =
       (fst (split_events (drop e bs)) @ fst (split_events (snd (split_events (drop e bs)) @ x)),
        snd (split_events (snd (split_events (drop e bs)) @ x)))"
      using "1.IH" s Some by simp
    ultimately show ?thesis using s Some by (simp add: split_events_some)
  qed
qed

section \<open>What the gate has seen\<close>

definition names_seen :: "'n wire \<Rightarrow> 'n json list \<Rightarrow> string list" where
  "names_seen w vs =
     List.map_filter (field_str ''name'') (concat (map opened_blocks vs))
     @ filter (\<lambda>n. n \<noteq> []) (map (\<lambda>c. snd (snd c)) (fold (calls_update (wi_u64 w)) vs []))"

definition provider_names :: "'n json list \<Rightarrow> 'n json list \<Rightarrow> string list" where
  "provider_names blocks notes =
     List.map_filter (field_str ''name'') (filter is_provider_tool_block blocks)
     @ (if list_ex is_provider_citation notes then [OPENAI_SEARCH_TOOL] else [])"

definition provider_seen :: "'n json list \<Rightarrow> string set" where
  "provider_seen vs = set (provider_names (concat (map provider_block vs)) (concat (map citations vs)))"

lemma provider_names_append:
  "set (provider_names (xs @ ys) (ms @ ns)) = set (provider_names xs ms) \<union> set (provider_names ys ns)"
  by (auto simp: provider_names_def map_filter_def)

lemma take_provider_tools_eq:
  "take_provider_tools h =
     (provider_names (th_provider_blocks h) (th_openai_citations h),
      h\<lparr>th_provider_blocks := [], th_openai_citations := []\<rparr>)"
  by (simp add: take_provider_tools_def provider_tools_in_def provider_names_def elements_def or_else_def)

lemma rebuilt_call_name:
  "Option.bind (get_field ''function'' (rebuilt_call c)) (field_str ''name'') = Some (snd c)"
  by (cases c) (simp add: rebuilt_call_def field_str_def)

lemma opened_block_type: "b \<in> set (opened_blocks v) \<Longrightarrow> field_str ''type'' b = Some ''tool_use''"
  by (auto simp: opened_blocks_def split: if_splits)

lemma push_tool_use_names:
  "(\<And>b. b \<in> set bs \<Longrightarrow> field_str ''type'' b = Some ''tool_use'') \<Longrightarrow>
     map tu_name (push_tool_use_from_content (Some (JArr bs))) = List.map_filter (field_str ''name'') bs"
  by (induction bs) (auto simp: push_tool_use_from_content_def elements_def or_else_def map_filter_simps
      split: option.splits)

lemma push_call_names:
  "map tu_name (push_openai_tool_calls (Some (JArr (map rebuilt_call cs)))) = map snd cs"
  by (induction cs) (auto simp: push_openai_tool_calls_def elements_def or_else_def rebuilt_call_name)

lemma tool_names_eq:
  assumes "\<And>b. b \<in> set (th_anthropic_blocks h) \<Longrightarrow> field_str ''type'' b = Some ''tool_use''"
  shows "tool_names h = List.map_filter (field_str ''name'') (th_anthropic_blocks h)
     @ filter (\<lambda>n. n \<noteq> []) (map (\<lambda>c. snd (snd c)) (th_openai_calls h))"
proof -
  have "map snd (filter (\<lambda>c. snd c \<noteq> []) (map snd (th_openai_calls h)))
     = filter (\<lambda>n. n \<noteq> []) (map (\<lambda>c. snd (snd c)) (th_openai_calls h))"
    by (simp add: filter_map o_def)
  then show ?thesis
    by (simp add: tool_names_def Let_def tool_names_in_def tool_uses_in_def
        push_tool_use_names [OF assms] push_call_names elements_def or_else_def)
qed

section \<open>Streams\<close>

text \<open>
  The gate after the events \<open>es\<close>, with \<open>sent\<close> forwarded and the provider tools \<open>seen\<close> taken;
  its buffer is apart.
\<close>

definition gated :: "'n wire \<Rightarrow> string list \<Rightarrow> 'n tool_call_hold \<Rightarrow> string \<Rightarrow> string list \<Rightarrow> bool" where
  "gated w es h sent seen \<longleftrightarrow>
     (let vs = concat (map (event_values w) es)
      in th_holding h = list_ex (opens_event w) es
         \<and> sent = concat (takeWhile (\<lambda>e. \<not> opens_event w e) es)
         \<and> th_held h = concat (dropWhile (\<lambda>e. \<not> opens_event w e) es)
         \<and> th_anthropic_blocks h = concat (map opened_blocks vs)
         \<and> th_openai_calls h = fold (calls_update (wi_u64 w)) vs []
         \<and> set seen \<union> set (provider_names (th_provider_blocks h) (th_openai_citations h)) = provider_seen vs)"

lemma gated_new: "gated w [] hold_new [] []"
  by (simp add: gated_def hold_new_def provider_seen_def)

lemma gated_buf:
  "gated w es (h\<lparr>th_buf := b\<rparr>) sent seen = gated w es h sent seen"
  "gated w es (h\<lparr>th_scan_pos := i\<rparr>) sent seen = gated w es h sent seen"
  "gated w es (h\<lparr>th_line_start := l\<rparr>) sent seen = gated w es h sent seen"
  by (simp_all add: gated_def)

lemma provider_names_nil [simp]: "provider_names [] [] = []"
  by (simp add: provider_names_def map_filter_simps)

lemma gated_take:
  "gated w es h sent seen \<Longrightarrow> take_provider_tools h = (ps, h') \<Longrightarrow>
     gated w es h' sent (seen @ ps) \<and> th_buf h' = th_buf h \<and> th_scan_pos h' = th_scan_pos h
     \<and> th_line_start h' = th_line_start h"
  unfolding gated_def take_provider_tools_eq Let_def by clarsimp

lemma takeWhile_snoc: "takeWhile P (xs @ [x]) = (if list_ex (\<lambda>y. \<not> P y) xs then takeWhile P xs else xs @ takeWhile P [x])"
  by (induction xs) auto

lemma dropWhile_snoc: "dropWhile P (xs @ [x]) = (if list_ex (\<lambda>y. \<not> P y) xs then dropWhile P xs @ [x] else dropWhile P [x])"
  by (induction xs) auto

lemma none_opens:
  "\<not> list_ex P xs \<Longrightarrow> takeWhile (\<lambda>x. \<not> P x) xs = xs"
  "\<not> list_ex P xs \<Longrightarrow> dropWhile (\<lambda>x. \<not> P x) xs = []"
  by (induction xs) auto

lemma gated_route:
  assumes "gated w es h sent seen" and "route_event w raw (h, out) = (h', out')"
  shows "\<exists>more. out' = out @ more \<and> gated w (es @ [raw]) h' (sent @ more) seen
     \<and> th_scan_pos h' = th_scan_pos h \<and> th_line_start h' = th_line_start h"
proof -
  let ?vs = "concat (map (event_values w) es)" and ?v = "event_values w raw"
  have prov: "set seen \<union> set (provider_names (th_provider_blocks h @ concat (map provider_block ?v))
        (th_openai_citations h @ concat (map citations ?v))) = provider_seen (?vs @ ?v)"
    using assms(1) by (auto simp: gated_def Let_def provider_seen_def provider_names_append)
  define g where "g = saw w ?v h"
  have g: "th_anthropic_blocks g = concat (map opened_blocks (?vs @ ?v))"
    "th_openai_calls g = fold (calls_update (wi_u64 w)) (?vs @ ?v) []"
    "set seen \<union> set (provider_names (th_provider_blocks g) (th_openai_citations g)) = provider_seen (?vs @ ?v)"
    "th_holding g = th_holding h" "th_held g = th_held h" "th_scan_pos g = th_scan_pos h"
    "th_line_start g = th_line_start h"
    using assms(1) prov by (simp_all add: gated_def Let_def saw_def g_def)
  show ?thesis
  proof (cases "th_holding h \<or> opens_event w raw")
    case True
    then have h': "h' = g\<lparr>th_holding := True, th_held := th_held h @ raw\<rparr>" "out' = out"
      using assms(2) by (simp_all add: route_event_eq observe_event_eq g_def)
    have "gated w (es @ [raw]) h' sent seen"
      using assms(1) True g unfolding gated_def Let_def h'
      by (cases "list_ex (opens_event w) es") (simp_all add: takeWhile_snoc dropWhile_snoc none_opens)
    with h' g show ?thesis by (intro exI [of _ "[]"]) simp
  next
    case False
    then have h': "h' = g" "out' = out @ raw"
      using assms(2) by (simp_all add: route_event_eq observe_event_eq g_def)
    have "gated w (es @ [raw]) h' (sent @ raw) seen"
      using assms(1) False g unfolding gated_def Let_def h'
      by (simp add: takeWhile_snoc dropWhile_snoc none_opens)
    with h' g show ?thesis by (intro exI [of _ raw]) simp
  qed
qed

text \<open>A push routes exactly the events its bytes complete, and keeps the rest.\<close>

definition resumable :: "'n tool_call_hold \<Rightarrow> bool" where
  "resumable h \<longleftrightarrow> (\<forall>x. scan (th_buf h @ x) (th_scan_pos h) (th_line_start h) = scan (th_buf h @ x) 0 0)"

lemma resumable_cong:
  "th_buf h = th_buf g \<Longrightarrow> th_scan_pos h = th_scan_pos g \<Longrightarrow> th_line_start h = th_line_start g \<Longrightarrow>
     resumable h = resumable g"
  by (simp add: resumable_def)

lemma hold_new_buf: "th_buf hold_new = []"
  by (simp add: hold_new_def)

lemma resumable_new: "resumable hold_new"
  by (simp add: resumable_def hold_new_def)

lemma gated_push_loop:
  assumes "gated w es h sent seen" and "scan (th_buf h) (th_scan_pos h) (th_line_start h) = scan (th_buf h) 0 0"
    and "push_loop w (h, out) = (h', out')"
  shows "\<exists>more. out' = out @ more
     \<and> gated w (es @ fst (split_events (th_buf h))) h' (sent @ more) seen
     \<and> th_buf h' = snd (split_events (th_buf h)) \<and> resumable h'"
  using assms
proof (induction "length (th_buf h)" arbitrary: h es sent out rule: less_induct)
  case less
  obtain m j k where s: "scan (th_buf h) 0 0 = (m, j, k)" by (cases "scan (th_buf h) 0 0") auto
  show ?case
  proof (cases m)
    case None
    then have n: "next_event_end h = (None, h\<lparr>th_scan_pos := j, th_line_start := k\<rparr>)"
      using less.prems(2) s by (simp add: next_event_end_def)
    then have h': "h' = h\<lparr>th_scan_pos := j, th_line_start := k\<rparr>" "out' = out"
      using less.prems(3) by (simp_all add: push_loop.simps [of w "(h, out)"])
    have "resumable h'" using scan_resume [of "th_buf h" 0 0 j k] s None by (simp add: h' resumable_def)
    with less.prems(1) s None show ?thesis
      by (intro exI [of _ "[]"]) (simp add: h' gated_buf split_events_none)
  next
    case (Some e)
    have e: "0 < e" "e \<le> length (th_buf h)" using s Some scan_some [of "th_buf h" 0 0 e j k] by auto
    define h1 where "h1 = h\<lparr>th_line_start := k, th_buf := drop e (th_buf h), th_scan_pos := 0\<rparr>\<lparr>th_line_start := 0\<rparr>"
    obtain h2 out2 where r: "route_event w (take e (th_buf h)) (h1, out) = (h2, out2)" by fastforce
    have "next_event_end h = (Some e, h\<lparr>th_line_start := k\<rparr>)"
      using less.prems(2) s Some by (simp add: next_event_end_def)
    then have loop: "push_loop w (h2, out2) = (h', out')"
      using less.prems(3) r by (simp add: push_loop.simps [of w "(h, out)"] h1_def)
    have "gated w es h1 sent seen" using less.prems(1) by (simp add: h1_def gated_buf)
    from gated_route [OF this r] obtain m1 where m1: "out2 = out @ m1"
      "gated w (es @ [take e (th_buf h)]) h2 (sent @ m1) seen" "th_scan_pos h2 = 0" "th_line_start h2 = 0"
      by (auto simp: h1_def)
    have buf: "th_buf h2 = drop e (th_buf h)"
      using route_event_buf [of w "take e (th_buf h)" "(h1, out)"] unfolding r by (simp add: h1_def)
    have "length (th_buf h2) < length (th_buf h)" using e buf by simp
    from less.hyps [OF this m1(2) _ loop] obtain m2 where m2: "out' = out2 @ m2"
      "gated w ((es @ [take e (th_buf h)]) @ fst (split_events (th_buf h2))) h' ((sent @ m1) @ m2) seen"
      "th_buf h' = snd (split_events (th_buf h2))" "resumable h'"
      using m1(3,4) by auto
    then show ?thesis using s Some
      by (intro exI [of _ "m1 @ m2"]) (simp add: m1(1) buf split_events_some [of "th_buf h" e j k])
  qed
qed

lemma gated_push:
  assumes "gated w es h sent seen" and "resumable h" and "push w h chunk = (h', now)"
  shows "gated w (es @ fst (split_events (th_buf h @ chunk))) h' (sent @ now) seen
     \<and> th_buf h' = snd (split_events (th_buf h @ chunk)) \<and> resumable h'"
proof -
  have "scan (th_buf h @ chunk) (th_scan_pos h) (th_line_start h) = scan (th_buf h @ chunk) 0 0"
    using assms(2) by (simp add: resumable_def)
  then show ?thesis
    using gated_push_loop [of w es "h\<lparr>th_buf := th_buf h @ chunk\<rparr>" sent seen "[]" h' now] assms(1,3)
    by (simp add: push_def gated_buf)
qed

lemma stream_chunk_eq:
  "push w h c = (h1, now) \<Longrightarrow> take_provider_tools h1 = (ps, h2) \<Longrightarrow>
     stream_chunk w c (h, sent, seen) = (h2, sent @ now, seen @ ps)"
  by (simp add: stream_chunk_def)

lemma gated_stream:
  assumes "fold (stream_chunk w) chunks (h, sent, seen) = (h', sent', seen')"
    and "gated w (fst (split_events b)) h sent seen" and "resumable h" and "th_buf h = snd (split_events b)"
  shows "gated w (fst (split_events (b @ concat chunks))) h' sent' seen'
     \<and> th_buf h' = snd (split_events (b @ concat chunks))"
  using assms
proof (induction chunks arbitrary: h sent seen b)
  case Nil
  then show ?case by simp
next
  case (Cons c cs)
  obtain h1 now where p: "push w h c = (h1, now)" by fastforce
  obtain ps h2 where t: "take_provider_tools h1 = (ps, h2)" by fastforce
  have whole: "split_events (b @ c) = (fst (split_events b) @ fst (split_events (th_buf h @ c)), snd (split_events (th_buf h @ c)))"
    unfolding Cons.prems(4) by (rule split_events_append)
  note g1 = gated_push [OF Cons.prems(2,3) p]
  note g2 = gated_take [OF conjunct1 [OF g1] t]
  have "resumable h2" using g1 g2 resumable_cong [of h2 h1] by blast
  moreover have "fold (stream_chunk w) cs (h2, sent @ now, seen @ ps) = (h', sent', seen')"
    using Cons.prems(1) stream_chunk_eq [OF p t] by simp
  ultimately show ?case
    using Cons.IH [of h2 "sent @ now" "seen @ ps" "b @ c"] g1 g2 whole by simp
qed

text \<open>An unterminated rest at the end of the body is an event too.\<close>

definition events_of :: "string \<Rightarrow> string list" where
  "events_of body =
     (let (es, r) = split_events body in if r = [] then es else es @ [r])"

lemma concat_events_of: "concat (events_of body) = body"
  using split_events_rest [of body] by (cases "split_events body") (simp add: events_of_def)

lemma gated_blocks: "gated w es h sent seen \<Longrightarrow> b \<in> set (th_anthropic_blocks h) \<Longrightarrow> field_str ''type'' b = Some ''tool_use''"
  by (auto simp: gated_def Let_def dest: opened_block_type)

lemma gated_names: "gated w es h sent seen \<Longrightarrow> tool_names h = names_seen w (concat (map (event_values w) es))"
  by (subst tool_names_eq) (auto simp: gated_blocks gated_def Let_def names_seen_def)

lemma gated_finish:
  assumes "gated w es h sent seen" and "finish w h = b"
  defines "all \<equiv> (if th_buf h = [] then es else es @ [th_buf h])"
  shows "sent @ hb_held b @ hb_tail b = concat all
     \<and> hb_tools b = names_seen w (concat (map (event_values w) all))
     \<and> set (seen @ hb_provider_tools b) = provider_seen (concat (map (event_values w) all))
     \<and> sent = concat (takeWhile (\<lambda>e. \<not> opens_event w e) es)"
proof -
  obtain h1 tail where r: "(if th_buf h \<noteq> [] then route_event w (th_buf h) (h\<lparr>th_buf := []\<rparr>, []) else (h, [])) = (h1, tail)"
    by fastforce
  have sent: "sent = concat (takeWhile (\<lambda>e. \<not> opens_event w e) es)" using assms(1) by (simp add: gated_def Let_def)
  have g1: "gated w all h1 (sent @ tail) seen"
  proof (cases "th_buf h = []")
    case True
    with r assms(1) show ?thesis by (simp add: all_def)
  next
    case False
    with r have "route_event w (th_buf h) (h\<lparr>th_buf := []\<rparr>, []) = (h1, tail)" by simp
    from gated_route [OF _ this, of es sent seen] assms(1) False show ?thesis
      by (auto simp: gated_buf all_def)
  qed
  then have parts: "sent @ tail = concat (takeWhile (\<lambda>e. \<not> opens_event w e) all)"
    "th_held h1 = concat (dropWhile (\<lambda>e. \<not> opens_event w e) all)"
    by (simp_all add: gated_def Let_def)
  have either: "tail = [] \<or> th_held h1 = []"
  proof (cases "list_ex (opens_event w) all")
    case True
    then have "takeWhile (\<lambda>e. \<not> opens_event w e) all = takeWhile (\<lambda>e. \<not> opens_event w e) es"
      by (auto simp: all_def takeWhile_snoc none_opens split: if_splits)
    then show ?thesis using parts(1) sent by simp
  next
    case False
    then show ?thesis using parts(2) by (simp add: none_opens)
  qed
  have whole: "sent @ tail @ th_held h1 = concat all"
    using parts by (metis append_assoc concat_append takeWhile_dropWhile_id)
  obtain ps h2 where t: "take_provider_tools h1 = (ps, h2)" by fastforce
  have b: "b = \<lparr>hb_tail = tail, hb_held = th_held h2, hb_tools = tool_names h1, hb_provider_tools = ps\<rparr>"
    using assms(2) r t by (simp add: finish_def Let_def)
  have g2: "gated w all h2 (sent @ tail) (seen @ ps)" using gated_take [OF g1 t] by simp
  have empty: "th_provider_blocks h2 = []" "th_openai_citations h2 = []" "th_held h2 = th_held h1"
    using t by (auto simp: take_provider_tools_eq)
  have "set (seen @ ps) = provider_seen (concat (map (event_values w) all))"
    using g2 empty by (simp add: gated_def Let_def)
  then show ?thesis using either whole sent gated_names [OF g1] empty by (auto simp: b)
qed

section \<open>Properties\<close>

text \<open>C35. What the client of a streamed answer is sent does not depend on how the provider's bytes
  were cut into chunks. If the firewall accepts the tools the whole stream names, the client gets
  the provider's bytes, every one and unchanged; if it refuses them, the client gets the complete
  events before the first one that opens a tool call, and then the refusal: no byte of a refused
  tool call. The names judged are all that any event of the stream carries, a last unterminated
  one included.\<close>

theorem streamed_answer_is_judged:
  "judged_stream w judge openai run_id chunks =
     (let body = concat chunks;
          vs = concat (map (event_values w) (events_of body))
      in case judge (provider_seen vs) (names_seen w vs) of
           Some reason \<Rightarrow> concat (takeWhile (\<lambda>e. \<not> opens_event w e) (fst (split_events body)))
                            @ refusal_event w openai run_id reason
         | None \<Rightarrow> body)"
proof -
  obtain h sent seen where f: "fold (stream_chunk w) chunks (hold_new, [], []) = (h, sent, seen)"
    by (metis prod_cases3)
  have start: "split_events [] = ([], [])" by (simp add: split_events_none scan.simps)
  have g: "gated w (fst (split_events (concat chunks))) h sent seen" "th_buf h = snd (split_events (concat chunks))"
    using gated_stream [OF f, of "[]", unfolded start, simplified, OF gated_new resumable_new hold_new_buf]
    by blast+
  have "(if th_buf h = [] then fst (split_events (concat chunks))
      else fst (split_events (concat chunks)) @ [th_buf h]) = events_of (concat chunks)"
    using g(2) by (simp add: events_of_def case_prod_beta)
  note fin = gated_finish [OF g(1) refl, unfolded this concat_events_of]
  then have whole: "sent @ hb_held (finish w h) @ hb_tail (finish w h) = concat chunks" by blast
  from fin have "sent = concat (takeWhile (\<lambda>e. \<not> opens_event w e) (fst (split_events (concat chunks))))" by blast
  note sent = this [symmetric]
  from fin have judged: "hb_tools (finish w h) = names_seen w (concat (map (event_values w) (events_of (concat chunks))))"
    "set (seen @ hb_provider_tools (finish w h)) = provider_seen (concat (map (event_values w) (events_of (concat chunks))))"
    by blast+
  show ?thesis
    unfolding judged_stream_def f Let_def prod.case judged sent using whole by (simp split: option.splits)
qed

end
