(* ===== verification/Retained_Journal.thy ===== *)
theory Retained_Journal
  imports Ledger Unit_Ledger Text Audit_Trail
begin

text \<open>
  \<open>crates/gateway/src/retainedjournal.rs\<close>: the append-only file that makes a retained reservation
  survive a restart, and the reservation type of \<open>settle.rs\<close> it records. The file is its bytes. A
  write either succeeds or fails after some of its bytes have reached the file; which of the two is
  an argument. JSON is serde's: a \<open>line_codec\<close> holds its readings and writings of a line. SHA-256 is
  the argument \<open>sha\<close>.
\<close>

section \<open>Records\<close>

record row_attribution =
  ra_agent_id :: string
  ra_key_id :: string
  ra_unit :: string
  ra_parent_run_id :: string
  ra_on_behalf_of :: string
  ra_outcome :: string
  ra_identity_reason :: "string option"

record retained_reservation =
  re_run :: reservation
  re_unit :: "unit_reservation option"
  re_model :: string
  re_retained_at :: int
  re_revision :: string
  re_attribution :: "row_attribution option"

definition MAX_LINE_BYTES :: nat where
  "MAX_LINE_BYTES = 16 * 1024 * 1024"

definition KIND_RETAINED :: string where
  "KIND_RETAINED = ''retained''"

definition KIND_CLOSURE :: string where
  "KIND_CLOSURE = ''closure''"

record journal_record =
  jr_v :: nat
  jr_kind :: string
  jr_run :: reservation
  jr_tail_parent :: "string option"
  jr_unit :: "unit_reservation option"
  jr_model :: string
  jr_retained_at :: int
  jr_attribution :: "row_attribution option"

record closure_record =
  cr_v :: nat
  cr_kind :: string
  cr_reservation_id :: nat
  cr_revision :: string
  cr_operation_id :: string
  cr_evidence_kind :: string
  cr_observed :: "int option"
  cr_evidence_ref :: string
  cr_settled :: int
  cr_run_id :: string
  cr_unit :: "string option"
  cr_closed_at :: int

record line_codec =
  lc_record :: "journal_record \<Rightarrow> string option"
  lc_closure :: "closure_record \<Rightarrow> string option"
  lc_kind_of :: "string \<Rightarrow> string option"
  lc_read_record :: "string \<Rightarrow> journal_record option"
  lc_read_closure :: "string \<Rightarrow> closure_record option"

definition record_retained :: "retained_reservation \<Rightarrow> string option \<Rightarrow> journal_record" where
  "record_retained entry tail =
     \<lparr>jr_v = 1, jr_kind = KIND_RETAINED, jr_run = re_run entry, jr_tail_parent = tail,
      jr_unit = re_unit entry, jr_model = re_model entry, jr_retained_at = re_retained_at entry,
      jr_attribution = re_attribution entry\<rparr>"

text \<open>\<open>unwrap_or_default\<close>: a record that did not serialize would hash as the empty text.\<close>

definition revision_of :: "(string \<Rightarrow> nat list) \<Rightarrow> line_codec \<Rightarrow> journal_record \<Rightarrow> string" where
  "revision_of sha codec r =
     (let canonical = (case lc_record codec r of None \<Rightarrow> [] | Some s \<Rightarrow> s)
      in hex_lower (take 8 (sha (''tokenfuse-retained-revision-v1'' @ LF # canonical))))"

section \<open>Writing\<close>

text \<open>What the disk does with a write: all of it, or a failure after the first \<open>n\<close> bytes.\<close>

datatype disk = Disk_ok | Disk_fails nat

datatype io_error = Serialize_failed | Line_too_long nat | Write_failed | Read_failed

definition write_all :: "disk \<Rightarrow> string \<Rightarrow> string \<Rightarrow> (unit, io_error) res \<times> string" where
  "write_all d bytes file =
     (case d of
        Disk_ok \<Rightarrow> (Inr (), file @ bytes)
      | Disk_fails n \<Rightarrow> (Inl Write_failed, file @ take n bytes))"

definition journal_open :: "disk \<Rightarrow> string \<Rightarrow> (unit, io_error) res \<times> string" where
  "journal_open d file =
     (if file \<noteq> [] \<and> last file \<noteq> LF then write_all d [LF] file else (Inr (), file))"

definition append_line :: "disk \<Rightarrow> string option \<Rightarrow> string \<Rightarrow> (unit, io_error) res \<times> string" where
  "append_line d serialized file =
     (case serialized of
        None \<Rightarrow> (Inl Serialize_failed, file)
      | Some s \<Rightarrow>
          let line = s @ [LF]
          in if MAX_LINE_BYTES < length line then (Inl (Line_too_long (length line)), file)
             else write_all d line file)"

definition append_record ::
  "disk \<Rightarrow> line_codec \<Rightarrow> journal_record \<Rightarrow> string \<Rightarrow> (unit, io_error) res \<times> string" where
  "append_record d codec r file = append_line d (lc_record codec r) file"

definition append_closure ::
  "disk \<Rightarrow> line_codec \<Rightarrow> closure_record \<Rightarrow> string \<Rightarrow> (unit, io_error) res \<times> string" where
  "append_closure d codec c file = append_line d (lc_closure codec c) file"

text \<open>
  The rewrite builds a temporary file and renames it over the journal: the new contents are in
  place exactly when every step up to the rename succeeded, and the old contents are otherwise.
\<close>

definition rewrite :: "bool \<Rightarrow> string list \<Rightarrow> string \<Rightarrow> (unit, io_error) res \<times> string" where
  "rewrite ok kept file =
     (if ok then (Inr (), concat (map (\<lambda>l. l @ [LF]) kept)) else (Inl Write_failed, file))"

section \<open>Reading\<close>

record read_report =
  rp_records :: "journal_record list"
  rp_closures :: "closure_record list"
  rp_other_lines :: "string list"
  rp_malformed :: nat
  rp_oversized :: nat
  rp_other_kind :: nat

definition empty_report :: read_report where
  "empty_report = \<lparr>rp_records = [], rp_closures = [], rp_other_lines = [], rp_malformed = 0,
     rp_oversized = 0, rp_other_kind = 0\<rparr>"

text \<open>
  A buffered reader: what each \<open>fill_buf\<close> finds. An empty buffer is the end of the input;
  \<open>consume\<close> leaves the rest of a chunk for the next call.
\<close>

datatype fill = Chunk string | Interrupted | Broken

fun next_line_from :: "fill list \<Rightarrow> string \<Rightarrow> bool \<Rightarrow> bool \<Rightarrow> (bool option, io_error) res \<times> string \<times> fill list" where
  "next_line_from [] buf oversized any = (Inr (if any then Some oversized else None), buf, [])"
| "next_line_from (Interrupted # fs) buf oversized any = next_line_from fs buf oversized any"
| "next_line_from (Broken # fs) buf oversized any = (Inl Read_failed, buf, fs)"
| "next_line_from (Chunk avail # fs) buf oversized any =
     (if avail = [] then (Inr (if any then Some oversized else None), buf, fs)
      else
        let (chunk, rest) =
              (case split_once LF avail of Some (a, b) \<Rightarrow> (a, Some b) | None \<Rightarrow> (avail, None));
            over = (oversized \<or> MAX_LINE_BYTES < length buf + length chunk);
            buf' = (if oversized then buf
                    else if MAX_LINE_BYTES < length buf + length chunk then [] else buf @ chunk)
        in case rest of
             Some b \<Rightarrow> (Inr (Some over), buf', if b = [] then fs else Chunk b # fs)
           | None \<Rightarrow> next_line_from fs buf' over True)"

definition next_line :: "fill list \<Rightarrow> (bool option, io_error) res \<times> string \<times> fill list" where
  "next_line fs = next_line_from fs [] False False"

text \<open>\<open>u8::is_ascii_whitespace\<close> and \<open>trim_ascii\<close>.\<close>

definition ascii_white :: "char \<Rightarrow> bool" where
  "ascii_white c \<longleftrightarrow> c \<in> {CHR 0x20, CHR 0x09, CHR 0x0A, CHR 0x0C, CHR 0x0D}"

definition trim_ascii :: "string \<Rightarrow> string" where
  "trim_ascii s = rev (dropWhile ascii_white (rev (dropWhile ascii_white s)))"

text \<open>The body of \<open>parse\<close>'s loop.\<close>

definition add_line :: "line_codec \<Rightarrow> bool \<Rightarrow> string \<Rightarrow> read_report \<Rightarrow> read_report" where
  "add_line codec oversized line report =
     (if oversized then report\<lparr>rp_oversized := Suc (rp_oversized report)\<rparr>
      else let trimmed = trim_ascii line
      in if trimmed = [] then report
      else case lc_kind_of codec trimmed of
          None \<Rightarrow> report\<lparr>rp_malformed := Suc (rp_malformed report)\<rparr>
        | Some k \<Rightarrow>
            if k = KIND_RETAINED
            then (case lc_read_record codec trimmed of
                Some r \<Rightarrow> report\<lparr>rp_records := rp_records report @ [r]\<rparr>
              | None \<Rightarrow> report\<lparr>rp_malformed := Suc (rp_malformed report)\<rparr>)
            else if k = KIND_CLOSURE
            then (case lc_read_closure codec trimmed of
                Some c \<Rightarrow> report\<lparr>rp_closures := rp_closures report @ [c]\<rparr>
              | None \<Rightarrow> report\<lparr>rp_malformed := Suc (rp_malformed report)\<rparr>)
            else report\<lparr>rp_other_kind := Suc (rp_other_kind report),
                        rp_other_lines := rp_other_lines report @ [trimmed]\<rparr>)"

fun fill_size :: "fill \<Rightarrow> nat" where
  "fill_size (Chunk s) = Suc (length s)"
| "fill_size Interrupted = 1"
| "fill_size Broken = 1"

lemma next_line_from_shrinks:
  "next_line_from fs buf o' any = (Inr (Some ov), line, fs') \<Longrightarrow>
     sum_list (map fill_size fs') < sum_list (map fill_size fs) \<or> (any \<and> fs = [] \<and> fs' = [])"
proof (induction fs arbitrary: buf o' any)
  case (Cons f fs)
  show ?case
  proof (cases f)
    case (Chunk avail)
    show ?thesis
    proof (cases "split_once LF avail")
      case None
      then show ?thesis using Cons.prems Cons.IH
        unfolding Chunk by (fastforce simp: Let_def split: if_splits)
    next
      case (Some ab)
      then obtain a b where ab: "split_once LF avail = Some (a, b)" by force
      from split_once_some [OF this] have "length b < length avail" by simp
      with Cons.prems ab show ?thesis by (auto simp: Chunk Let_def split: if_splits)
    qed
  next
    case Interrupted
    then show ?thesis using Cons.prems Cons.IH by fastforce
  qed (use Cons.prems in auto)
qed (auto split: if_splits)

lemma next_line_shrinks:
  "next_line fs = (Inr (Some ov), line, fs') \<Longrightarrow>
     sum_list (map fill_size fs') < sum_list (map fill_size fs)"
  using next_line_from_shrinks unfolding next_line_def by fastforce

function parse_from :: "line_codec \<Rightarrow> fill list \<Rightarrow> read_report \<Rightarrow> (read_report, io_error) res" where
  "parse_from codec fs report =
     (case next_line fs of
        (Inl e, _, _) \<Rightarrow> Inl e
      | (Inr None, _, _) \<Rightarrow> Inr report
      | (Inr (Some oversized), line, fs') \<Rightarrow> parse_from codec fs' (add_line codec oversized line report))"
  by pat_completeness auto
termination
  by (relation "measure (\<lambda>(codec, fs, report). sum_list (map fill_size fs))")
    (auto dest!: next_line_shrinks [OF sym])

declare parse_from.simps [simp del]

definition parse :: "line_codec \<Rightarrow> fill list \<Rightarrow> (read_report, io_error) res" where
  "parse codec fs = parse_from codec fs empty_report"

end
