(* ===== verification/Settle.thy ===== *)
theory Settle
  imports Retained_Journal Pricing Policy
begin

text \<open>
  \<open>crates/gateway/src/settle.rs\<close>: the guard that owns a managed call's two reservations and decides
  what each outcome is charged, and the registry of retained reservations. The guard's shared
  references become one record, \<open>gateway\<close>: the in-process ledger, the unit ledger, the registry with
  its journal, the rows handed to the sink, the truncation counter and the events handed to the
  exporter. Time (\<open>now\<close> at the transition and \<open>ts\<close> when the row is written), SHA-256, the JSON
  codec and what the disk does are arguments.
\<close>

section \<open>What a call is charged\<close>

datatype cost_basis = Parsed | Estimate_no_usage | Estimate_truncated | Partial_usage

record parsed_usage =
  pu_usage :: usage
  pu_truncated :: bool
  pu_complete :: bool

definition default_usage :: usage where
  "default_usage = \<lparr>us_input = 0, us_output = 0, us_cache_read = 0, us_cache_write = 0,
     us_cache_write_1h = 0, us_tool_calls = None\<rparr>"

definition settle_amount ::
  "price_book \<Rightarrow> string \<Rightarrow> parsed_usage option \<Rightarrow> microusd \<Rightarrow> nat \<Rightarrow> microusd \<times> usage \<times> cost_basis" where
  "settle_amount prices model parsed unmeasured unmeasured_output =
     (let truncated = (case parsed of None \<Rightarrow> False | Some p \<Rightarrow> pu_truncated p);
          complete = (case parsed of None \<Rightarrow> False | Some p \<Rightarrow> pu_complete p);
          u = (case parsed of None \<Rightarrow> default_usage | Some p \<Rightarrow> pu_usage p);
          full = (case book_cost prices model u of
                    Some cost \<Rightarrow> if carries_priced_tokens u then (cost, u, Parsed)
                                else (unmeasured, u, Estimate_no_usage)
                  | None \<Rightarrow> (unmeasured, u, Estimate_no_usage))
      in if truncated then (unmeasured, default_usage, Estimate_truncated)
         else if \<not> complete \<and> 0 < unmeasured_output \<and> carries_priced_tokens u
         then (case book_cost prices model (u\<lparr>us_output := max (us_output u) unmeasured_output\<rparr>) of
                 Some cost \<Rightarrow> (cost, default_usage\<lparr>us_tool_calls := us_tool_calls u\<rparr>, Partial_usage)
               | None \<Rightarrow> full)
         else full)"

section \<open>The states of a call\<close>

datatype call_outcome = Not_dispatched | Unknown | Not_sent | Refused | Started

datatype disposition = Release | Retain | Charge bool

fun disposition_of :: "call_outcome \<Rightarrow> disposition" where
  "disposition_of Not_dispatched = Release"
| "disposition_of Not_sent = Release"
| "disposition_of Unknown = Retain"
| "disposition_of Refused = Charge False"
| "disposition_of Started = Charge True"

datatype terminal =
    Released
  | Retained_terminal microusd bool
  | Settled microusd usage cost_basis

record call_attribution =
  ca_model :: string
  ca_agent_id :: string
  ca_parent_run_id :: string
  ca_on_behalf_of :: string
  ca_outcome :: string
  ca_key_id :: string
  ca_unit :: string
  ca_router_route :: "(string \<times> string) option"
  ca_tools_offered :: "nat option"
  ca_tools_would_prune :: "nat option"
  ca_pruned_schema_tokens :: "nat option"
  ca_identity_reason :: "string option"
  ca_pii_findings :: "string option"
  ca_price_basis :: "string option"

definition default_attribution :: call_attribution where
  "default_attribution = \<lparr>ca_model = [], ca_agent_id = [], ca_parent_run_id = [], ca_on_behalf_of = [],
     ca_outcome = [], ca_key_id = [], ca_unit = [], ca_router_route = None, ca_tools_offered = None,
     ca_tools_would_prune = None, ca_pruned_schema_tokens = None, ca_identity_reason = None,
     ca_pii_findings = None, ca_price_basis = None\<rparr>"

definition row_attribution_of :: "call_attribution \<Rightarrow> row_attribution" where
  "row_attribution_of a =
     \<lparr>ra_agent_id = ca_agent_id a, ra_key_id = ca_key_id a, ra_unit = ca_unit a,
      ra_parent_run_id = ca_parent_run_id a, ra_on_behalf_of = ca_on_behalf_of a,
      ra_outcome = ca_outcome a, ra_identity_reason = ca_identity_reason a\<rparr>"

text \<open>\<open>CallRecord\<close> of \<open>sink.rs\<close>: the row the trace and the control plane read.\<close>

record call_record =
  cd_ts_millis :: int
  cd_run_id :: string
  cd_model :: string
  cd_decision :: string
  cd_input_tokens :: nat
  cd_output_tokens :: nat
  cd_cost :: int
  cd_step :: nat
  cd_agent_id :: string
  cd_saved :: int
  cd_parent_run_id :: string
  cd_on_behalf_of :: string
  cd_outcome :: string
  cd_key_id :: string
  cd_unit :: string
  cd_tool_calls :: "nat option"
  cd_tools_offered :: "nat option"
  cd_tools_would_prune :: "nat option"
  cd_pruned_schema_tokens :: "nat option"
  cd_identity_reason :: "string option"
  cd_pii_findings :: "string option"
  cd_price_basis :: "string option"

definition allow_record ::
  "reservation \<Rightarrow> call_attribution \<Rightarrow> microusd \<Rightarrow> usage \<Rightarrow> microusd \<Rightarrow> int \<Rightarrow> call_record" where
  "allow_record run a actual u saved ts =
     \<lparr>cd_ts_millis = ts, cd_run_id = rv_run run, cd_model = ca_model a, cd_decision = ''allow'',
      cd_input_tokens = us_input u, cd_output_tokens = us_output u, cd_cost = actual,
      cd_step = rv_step run, cd_agent_id = ca_agent_id a, cd_saved = saved,
      cd_parent_run_id = ca_parent_run_id a, cd_on_behalf_of = ca_on_behalf_of a,
      cd_outcome = ca_outcome a, cd_key_id = ca_key_id a, cd_unit = ca_unit a,
      cd_tool_calls = us_tool_calls u, cd_tools_offered = ca_tools_offered a,
      cd_tools_would_prune = ca_tools_would_prune a,
      cd_pruned_schema_tokens = ca_pruned_schema_tokens a,
      cd_identity_reason = ca_identity_reason a, cd_pii_findings = ca_pii_findings a,
      cd_price_basis = ca_price_basis a\<rparr>"

section \<open>The registry\<close>

definition MAX_RETAINED :: nat where
  "MAX_RETAINED = 8192"

text \<open>
  \<open>by_run\<close> is a \<open>HashMap\<close> of non-empty vectors; the order of the keys stands for the iteration order
  the map leaves open. \<open>journal\<close> holds the journal file's bytes when there is one.
\<close>

record retained =
  rt_by_run :: "(string \<times> retained_reservation list) list"
  rt_total :: nat
  rt_unlisted :: nat
  rt_journal :: "string option"
  rt_journal_failures :: nat

definition retained_new :: retained where
  "retained_new = \<lparr>rt_by_run = [], rt_total = 0, rt_unlisted = 0, rt_journal = None, rt_journal_failures = 0\<rparr>"

definition with_journal :: "string \<Rightarrow> retained" where
  "with_journal bytes = retained_new\<lparr>rt_journal := Some bytes\<rparr>"

text \<open>\<open>entry(run).or_default().push(entry)\<close>.\<close>

fun push_entry ::
  "string \<Rightarrow> retained_reservation \<Rightarrow> (string \<times> retained_reservation list) list
     \<Rightarrow> (string \<times> retained_reservation list) list" where
  "push_entry k e [] = [(k, [e])]"
| "push_entry k e ((j, es) # rest) =
     (if j = k then (j, es @ [e]) # rest else (j, es) # push_entry k e rest)"

definition retained_push :: "retained_reservation \<Rightarrow> retained \<Rightarrow> bool \<times> retained" where
  "retained_push e rt =
     (if MAX_RETAINED \<le> rt_total rt
      then (False, rt\<lparr>rt_unlisted := wrap_succ_u64 (rt_unlisted rt)\<rparr>)
      else (True, rt\<lparr>rt_total := Suc (rt_total rt),
                     rt_by_run := push_entry (rv_run (re_run e)) e (rt_by_run rt)\<rparr>))"

definition retained_all :: "retained \<Rightarrow> retained_reservation list" where
  "retained_all rt = concat (map snd (rt_by_run rt))"

definition retained_find :: "nat \<Rightarrow> retained \<Rightarrow> retained_reservation option" where
  "retained_find i rt = List.find (\<lambda>e. rv_id (re_run e) = i) (retained_all rt)"

text \<open>The \<open>position\<close> of a match in one run's vector, removed; a vector left empty goes with its key.\<close>

fun remove_first :: "('a \<Rightarrow> bool) \<Rightarrow> 'a list \<Rightarrow> ('a \<times> 'a list) option" where
  "remove_first p [] = None"
| "remove_first p (x # xs) =
     (if p x then Some (x, xs) else map_option (\<lambda>(y, ys). (y, x # ys)) (remove_first p xs))"

fun take_entry ::
  "(retained_reservation \<Rightarrow> bool) \<Rightarrow> (string \<times> retained_reservation list) list
     \<Rightarrow> (retained_reservation \<times> (string \<times> retained_reservation list) list) option" where
  "take_entry p [] = None"
| "take_entry p ((k, es) # rest) =
     (case remove_first p es of
        Some (e, es') \<Rightarrow> Some (e, if es' = [] then rest else (k, es') # rest)
      | None \<Rightarrow> map_option (\<lambda>(e, rest'). (e, (k, es) # rest')) (take_entry p rest))"

definition retained_take :: "nat \<Rightarrow> string \<Rightarrow> retained \<Rightarrow> (retained_reservation \<times> retained) option" where
  "retained_take i revision rt =
     map_option (\<lambda>(e, by_run). (e, rt\<lparr>rt_by_run := by_run, rt_total := rt_total rt - 1\<rparr>))
       (take_entry (\<lambda>e. rv_id (re_run e) = i \<and> re_revision e = revision) (rt_by_run rt))"

definition retained_for_run :: "string \<Rightarrow> retained \<Rightarrow> retained_reservation list" where
  "retained_for_run k rt = (case map_of (rt_by_run rt) k of None \<Rightarrow> [] | Some es \<Rightarrow> es)"

definition retained_len :: "retained \<Rightarrow> nat" where
  "retained_len rt = rt_total rt"

definition journal_retained ::
  "disk \<Rightarrow> line_codec \<Rightarrow> journal_record \<Rightarrow> retained \<Rightarrow> bool option \<times> retained" where
  "journal_retained d codec r rt =
     (case rt_journal rt of
        None \<Rightarrow> (None, rt)
      | Some bytes \<Rightarrow>
          (case append_record d codec r bytes of
             (Inr _, bytes') \<Rightarrow> (Some True, rt\<lparr>rt_journal := Some bytes'\<rparr>)
           | (Inl _, bytes') \<Rightarrow>
               (Some False, rt\<lparr>rt_journal := Some bytes',
                              rt_journal_failures := wrap_succ_u64 (rt_journal_failures rt)\<rparr>)))"

section \<open>The guard\<close>

record chain_on_record =
  cn_chain :: "string list"
  cn_proof :: "string option"

text \<open>
  What was handed to the event exporter; the proof of a chain rides along unread. A breaker event
  carries its name on the wire and the verdict, whose dollar figures are the amounts they are
  rendered from, the unit and, in shadow and warn, the mode.
\<close>

datatype bus_event =
    Call_retained (ev_ts: int) (ev_agent: string) (ev_run: string) (ev_chain: "chain_on_record option")
      (ev_id: nat) (ev_amount: microusd) (ev_unit: string) (ev_model: string) (ev_journaled: bool) (ev_listed: bool)
  | Retained_closed int "string option" string closure_record
  | Breaker_event string int string string "chain_on_record option" "microusd breaker_verdict" string "string option"
  | Specific_event string int string string "chain_on_record option" "breaker_reason option" "string option"
      "string option" string
  | Dependency_failed int string string "chain_on_record option"

record gateway =
  gw_ledger :: ledger
  gw_units :: unit_ledger
  gw_prices :: price_book
  gw_retained :: retained
  gw_rows :: "call_record list"
  gw_truncated :: nat
  gw_events :: "bus_event list"

record retained_report =
  rr_on_behalf_of :: "string list"
  rr_proof :: "string option"

record settle_guard =
  sg_run_id :: string
  sg_estimate :: microusd
  sg_output_cap :: nat
  sg_attribution :: call_attribution
  sg_state :: call_outcome
  sg_step :: nat
  sg_run :: "reservation option"
  sg_unit :: "unit_reservation option"
  sg_usage :: "parsed_usage option option"
  sg_report :: "retained_report option"

definition guard_new ::
  "string \<Rightarrow> microusd \<Rightarrow> nat \<Rightarrow> call_attribution \<Rightarrow> unit_reservation option \<Rightarrow> settle_guard" where
  "guard_new run_id estimate cap a u =
     \<lparr>sg_run_id = run_id, sg_estimate = estimate, sg_output_cap = cap, sg_attribution = a,
      sg_state = Not_dispatched, sg_step = 0, sg_run = None, sg_unit = u, sg_usage = None, sg_report = None\<rparr>"

definition reporting_retained_to ::
  "bool \<Rightarrow> string list \<Rightarrow> string option \<Rightarrow> settle_guard \<Rightarrow> settle_guard" where
  "reporting_retained_to enabled on_behalf_of proof g =
     (if enabled then g\<lparr>sg_report := Some \<lparr>rr_on_behalf_of = on_behalf_of, rr_proof = proof\<rparr>\<rparr> else g)"

definition hold_run :: "reservation \<Rightarrow> settle_guard \<Rightarrow> settle_guard" where
  "hold_run r g = g\<lparr>sg_step := rv_step r, sg_run := Some r\<rparr>"

definition dispatching :: "settle_guard \<Rightarrow> settle_guard" where
  "dispatching g = g\<lparr>sg_state := Unknown\<rparr>"

definition not_sent :: "settle_guard \<Rightarrow> settle_guard" where
  "not_sent g = g\<lparr>sg_state := Not_sent\<rparr>"

text \<open>A status outside 100 to 999 does not parse and is no success; 200 to 299 is one.\<close>

definition answered :: "nat \<Rightarrow> parsed_usage option \<Rightarrow> settle_guard \<Rightarrow> settle_guard" where
  "answered status slot g =
     (let ok = (100 \<le> status \<and> status \<le> 999 \<and> 200 \<le> status \<and> status < 300)
      in g\<lparr>sg_state := (if ok then Started else Refused), sg_usage := Some slot\<rparr>)"

text \<open>The provider fills the slot it handed over, at the end of the body.\<close>

definition publish_usage :: "parsed_usage \<Rightarrow> settle_guard \<Rightarrow> settle_guard" where
  "publish_usage p g = (if sg_usage g = None then g else g\<lparr>sg_usage := Some (Some p)\<rparr>)"

definition guard_release ::
  "reservation option \<Rightarrow> unit_reservation option \<Rightarrow> int \<Rightarrow> gateway \<Rightarrow> terminal \<times> gateway" where
  "guard_release run u now w =
     (let w1 = (case run of None \<Rightarrow> w | Some r \<Rightarrow> w\<lparr>gw_ledger := snd (settle (gw_ledger w) r ZERO)\<rparr>);
          w2 = (case u of None \<Rightarrow> w1 | Some ur \<Rightarrow> w1\<lparr>gw_units := unit_settle (gw_units w1) ur ZERO now\<rparr>)
      in (Released, w2))"

definition report_retained ::
  "settle_guard \<Rightarrow> nat \<Rightarrow> microusd \<Rightarrow> string \<Rightarrow> bool \<Rightarrow> bool \<Rightarrow> int \<Rightarrow> gateway \<Rightarrow> gateway" where
  "report_retained g i amount unit_name journaled listed now w =
     (case sg_report g of
        None \<Rightarrow> w
      | Some rep \<Rightarrow>
          let chain = (if rr_on_behalf_of rep = [] then None
                       else Some \<lparr>cn_chain = rr_on_behalf_of rep, cn_proof = rr_proof rep\<rparr>)
          in w\<lparr>gw_events := gw_events w @
                 [Call_retained now (ca_agent_id (sg_attribution g)) (sg_run_id g) chain i amount unit_name
                    (ca_model (sg_attribution g)) journaled listed]\<rparr>)"

definition guard_retain ::
  "(string \<Rightarrow> nat list) \<Rightarrow> line_codec \<Rightarrow> disk \<Rightarrow> settle_guard \<Rightarrow> reservation option \<Rightarrow> unit_reservation option
     \<Rightarrow> int \<Rightarrow> gateway \<Rightarrow> terminal \<times> gateway" where
  "guard_retain sha codec d g run u now w =
     (case run of
        None \<Rightarrow> guard_release None u now w
      | Some r \<Rightarrow>
          let entry = \<lparr>re_run = r, re_unit = u, re_model = ca_model (sg_attribution g), re_retained_at = now,
                       re_revision = [], re_attribution = Some (row_attribution_of (sg_attribution g))\<rparr>;
              line = record_retained entry (tail_parent (gw_ledger w) r);
              entry' = entry\<lparr>re_revision := revision_of sha codec line\<rparr>;
              (journaled, rt) = journal_retained d codec line (gw_retained w);
              (listed, rt') = retained_push entry' rt;
              unit_name = (case u of None \<Rightarrow> [] | Some ur \<Rightarrow> ur_unit ur)
          in (Retained_terminal (rv_amount r) listed,
              report_retained g (rv_id r) (rv_amount r) unit_name (journaled = Some True) listed now
                (w\<lparr>gw_retained := rt'\<rparr>)))"

definition record_row ::
  "settle_guard \<Rightarrow> reservation \<Rightarrow> microusd \<Rightarrow> usage \<Rightarrow> int \<Rightarrow> gateway \<Rightarrow> gateway" where
  "record_row g r actual u ts w =
     (let a = sg_attribution g;
          saved = (case ca_router_route a of
                     Some (original, chosen) \<Rightarrow>
                       (case (book_cost (gw_prices w) original u, book_cost (gw_prices w) chosen u) of
                          (Some would_have_cost, Some did_cost) \<Rightarrow> saturating_sub would_have_cost did_cost
                        | _ \<Rightarrow> ZERO)
                   | None \<Rightarrow> ZERO)
      in w\<lparr>gw_rows := gw_rows w @ [allow_record r a actual u saved ts]\<rparr>)"

definition guard_charge ::
  "settle_guard \<Rightarrow> reservation option \<Rightarrow> unit_reservation option \<Rightarrow> bool \<Rightarrow> int \<Rightarrow> int \<Rightarrow> gateway \<Rightarrow> terminal \<times> gateway" where
  "guard_charge g run u unmeasured_is_estimate now ts w =
     (let parsed = (case sg_usage g of None \<Rightarrow> None | Some slot \<Rightarrow> slot);
          (unmeasured, unmeasured_output) =
             (if unmeasured_is_estimate then (sg_estimate g, sg_output_cap g) else (ZERO, 0));
          (actual, usage, basis) =
             settle_amount (gw_prices w) (ca_model (sg_attribution g)) parsed unmeasured unmeasured_output;
          w0 = (if basis = Estimate_truncated
                then w\<lparr>gw_truncated := wrap_succ_u64 (gw_truncated w)\<rparr> else w);
          w1 = (case run of None \<Rightarrow> w0 | Some r \<Rightarrow> w0\<lparr>gw_ledger := snd (settle (gw_ledger w0) r actual)\<rparr>);
          w2 = (case u of None \<Rightarrow> w1 | Some ur \<Rightarrow> w1\<lparr>gw_units := unit_settle (gw_units w1) ur actual now\<rparr>);
          w3 = (case run of None \<Rightarrow> w2 | Some r \<Rightarrow> record_row g r actual usage ts w2)
      in (Settled actual usage basis, w3))"

definition settle_now ::
  "(string \<Rightarrow> nat list) \<Rightarrow> line_codec \<Rightarrow> disk \<Rightarrow> int \<Rightarrow> int \<Rightarrow> settle_guard \<Rightarrow> gateway
     \<Rightarrow> terminal option \<times> settle_guard \<times> gateway" where
  "settle_now sha codec d now ts g w =
     (let run = sg_run g; u = sg_unit g; g' = g\<lparr>sg_run := None, sg_unit := None\<rparr>
      in if run = None \<and> u = None then (None, g, w)
         else let (t, w') =
                (case disposition_of (sg_state g) of
                   Release \<Rightarrow> guard_release run u now w
                 | Retain \<Rightarrow> guard_retain sha codec d g' run u now w
                 | Charge est \<Rightarrow> guard_charge g' run u est now ts w)
              in (Some t, g', w'))"

text \<open>Dropping the guard, and \<open>complete\<close>, which settles and then drops it.\<close>

definition guard_drop ::
  "(string \<Rightarrow> nat list) \<Rightarrow> line_codec \<Rightarrow> disk \<Rightarrow> int \<Rightarrow> int \<Rightarrow> settle_guard \<Rightarrow> gateway \<Rightarrow> gateway" where
  "guard_drop sha codec d now ts g w = (let (_, _, w') = settle_now sha codec d now ts g w in w')"

definition guard_complete ::
  "(string \<Rightarrow> nat list) \<Rightarrow> line_codec \<Rightarrow> disk \<Rightarrow> int \<Rightarrow> int \<Rightarrow> settle_guard \<Rightarrow> gateway \<Rightarrow> gateway" where
  "guard_complete sha codec d now ts g w =
     (let (_, g', w') = settle_now sha codec d now ts g w in guard_drop sha codec d now ts g' w')"

end
