(* ===== verification/Closure.thy ===== *)
theory Closure
  imports Settle Text
begin

text \<open>
  \<open>crates/gateway/src/closure.rs\<close>: closing one retained reservation with evidence. HMAC-SHA256 is the
  argument \<open>hmac\<close>, from a key and a message to the signature's bytes; reading a request from JSON is
  the argument of \<open>close\<close>. Texts that are only shown to the caller are left out of a refusal.
\<close>

definition MAX_TOKEN_TTL_MILLIS :: int where "MAX_TOKEN_TTL_MILLIS = 300000"
definition MAX_OPERATION_ID_BYTES :: nat where "MAX_OPERATION_ID_BYTES = 128"
definition MAX_EVIDENCE_REF_BYTES :: nat where "MAX_EVIDENCE_REF_BYTES = 512"
definition MAX_TOKEN_BYTES :: nat where "MAX_TOKEN_BYTES = 256"
definition MIN_SECRET_BYTES :: nat where "MIN_SECRET_BYTES = 32"
definition MAC_DOMAIN :: string where "MAC_DOMAIN = ''tokenfuse-closure-v1''"

datatype evidence_kind = Observed | No_charge

fun evidence_str :: "evidence_kind \<Rightarrow> string" where
  "evidence_str Observed = ''observed''"
| "evidence_str No_charge = ''no_charge''"

record close_request =
  rq_reservation_id :: nat
  rq_expected_revision :: string
  rq_operation_id :: string
  rq_evidence_kind :: evidence_kind
  rq_observed :: "int option"
  rq_evidence_ref :: string

record closure_content =
  cc_reservation_id :: nat
  cc_revision :: string
  cc_evidence_kind :: string
  cc_observed :: "int option"
  cc_evidence_ref :: string

definition content_of :: "close_request \<Rightarrow> closure_content" where
  "content_of r =
     \<lparr>cc_reservation_id = rq_reservation_id r, cc_revision = rq_expected_revision r,
      cc_evidence_kind = evidence_str (rq_evidence_kind r), cc_observed = rq_observed r,
      cc_evidence_ref = rq_evidence_ref r\<rparr>"

definition content_of_record :: "closure_record \<Rightarrow> closure_content" where
  "content_of_record c =
     \<lparr>cc_reservation_id = cr_reservation_id c, cc_revision = cr_revision c,
      cc_evidence_kind = cr_evidence_kind c, cc_observed = cr_observed c,
      cc_evidence_ref = cr_evidence_ref c\<rparr>"

record books =
  bk_by_operation :: "string \<rightharpoonup> closure_content \<times> closure_record"
  bk_closed :: "nat \<times> string \<rightharpoonup> string"

definition books_new :: books where
  "books_new = \<lparr>bk_by_operation = Map.empty, bk_closed = Map.empty\<rparr>"

definition note_closure :: "closure_record \<Rightarrow> books \<Rightarrow> books" where
  "note_closure c b =
     b\<lparr>bk_closed := (bk_closed b)((cr_reservation_id c, cr_revision c) \<mapsto> cr_operation_id c),
       bk_by_operation := (bk_by_operation b)(cr_operation_id c \<mapsto> (content_of_record c, c))\<rparr>"

definition remember :: "closure_record list \<Rightarrow> books \<Rightarrow> books" where
  "remember cs b = fold note_closure cs b"

text \<open>\<open>None\<close>: the variable is unset, and the route is off.\<close>

definition door_from_value :: "string option \<Rightarrow> (string option, nat) res" where
  "door_from_value v =
     (case v of
        None \<Rightarrow> Inr None
      | Some s \<Rightarrow> if s = [] then Inr None
                  else if length s < MIN_SECRET_BYTES then Inl (length s) else Inr (Some s))"

section \<open>The token\<close>

datatype token_error = Token_invalid | Token_expired

definition lower_hex :: "char \<Rightarrow> bool" where
  "lower_hex c \<longleftrightarrow> (let n = of_char c :: nat in 48 \<le> n \<and> n \<le> 57 \<or> 97 \<le> n \<and> n \<le> 102)"

definition is_decimal :: "string \<Rightarrow> bool" where
  "is_decimal s \<longleftrightarrow> s \<noteq> [] \<and> length s \<le> 19 \<and> list_all ascii_digit s"

definition is_revision :: "string \<Rightarrow> bool" where
  "is_revision s \<longleftrightarrow> length s = 16 \<and> list_all lower_hex s"

definition hex_value :: "char \<Rightarrow> nat" where
  "hex_value c = (let n = of_char c in if n \<le> 57 then n - 48 else n - 87)"

fun decode_hex :: "string \<Rightarrow> nat list option" where
  "decode_hex [] = Some []"
| "decode_hex [a] = None"
| "decode_hex (a # b # s) =
     (if lower_hex a \<and> lower_hex b
      then map_option (\<lambda>xs. (16 * hex_value a + hex_value b) # xs) (decode_hex s) else None)"

text \<open>\<open>str::parse\<close> on a text of digits; a number outside the type is an error.\<close>

definition parse_u64 :: "string \<Rightarrow> nat option" where
  "parse_u64 s = (if read_digits s \<le> U64_MAX then Some (read_digits s) else None)"

definition parse_i64 :: "string \<Rightarrow> int option" where
  "parse_i64 s = (if int (read_digits s) \<le> I64_MAX then Some (int (read_digits s)) else None)"

definition mac_message :: "string \<Rightarrow> string \<Rightarrow> string \<Rightarrow> string" where
  "mac_message i revision expiry = MAC_DOMAIN @ LF # i @ LF # revision @ LF # expiry"

definition verify_token ::
  "(string \<Rightarrow> string \<Rightarrow> nat list) \<Rightarrow> string \<Rightarrow> string \<Rightarrow> int \<Rightarrow> (nat \<times> string, token_error) res" where
  "verify_token hmac secret token now =
     (if MAX_TOKEN_BYTES < length token then Inl Token_invalid
      else case split_on (CHR ''.'') token of
          [version, i, revision, expiry, sig] \<Rightarrow>
            if version \<noteq> ''v1'' \<or> \<not> is_decimal i \<or> \<not> is_decimal expiry \<or> \<not> is_revision revision
            then Inl Token_invalid
            else (case decode_hex sig of
                None \<Rightarrow> Inl Token_invalid
              | Some s \<Rightarrow>
                  if length s \<noteq> 32 then Inl Token_invalid
                  else if hmac secret (mac_message i revision expiry) \<noteq> s then Inl Token_invalid
                  else (case (parse_u64 i, parse_i64 expiry) of
                      (Some n, Some e) \<Rightarrow>
                        if e \<le> now then Inl Token_expired
                        else if MAX_TOKEN_TTL_MILLIS < sat_i64 (e - now) then Inl Token_invalid
                        else Inr (n, revision)
                    | _ \<Rightarrow> Inl Token_invalid))
        | _ \<Rightarrow> Inl Token_invalid)"

definition mint :: "(string \<Rightarrow> string \<Rightarrow> nat list) \<Rightarrow> string \<Rightarrow> nat \<Rightarrow> string \<Rightarrow> int \<Rightarrow> string" where
  "mint hmac secret i revision expiry =
     ''v1.'' @ show_nat i @ ''.'' @ revision @ ''.'' @ show_int expiry @ ''.''
       @ hex_lower (hmac secret (mac_message (show_nat i) revision (show_int expiry)))"

section \<open>The request\<close>

definition ascii_graphic :: "char \<Rightarrow> bool" where
  "ascii_graphic c \<longleftrightarrow> (let n = of_char c :: nat in 33 \<le> n \<and> n \<le> 126)"

text \<open>\<open>char::is_control\<close>: U+0000 to U+001F, and U+007F to U+009F, whose last 32 are \<open>C2 80\<close> to \<open>C2 9F\<close>.\<close>

fun has_control :: "string \<Rightarrow> bool" where
  "has_control [] = False"
| "has_control (c # s) =
     ((of_char c :: nat) < 32 \<or> (of_char c :: nat) = 127
      \<or> (of_char c :: nat) = 194 \<and> (case s of [] \<Rightarrow> False | d # _ \<Rightarrow> 128 \<le> (of_char d :: nat) \<and> (of_char d :: nat) \<le> 159)
      \<or> has_control s)"

definition valid_request :: "close_request \<Rightarrow> bool" where
  "valid_request r \<longleftrightarrow>
     rq_operation_id r \<noteq> [] \<and> length (rq_operation_id r) \<le> MAX_OPERATION_ID_BYTES
     \<and> list_all ascii_graphic (rq_operation_id r)
     \<and> trim_start (rq_evidence_ref r) \<noteq> [] \<and> length (rq_evidence_ref r) \<le> MAX_EVIDENCE_REF_BYTES
     \<and> \<not> has_control (rq_evidence_ref r)
     \<and> is_revision (rq_expected_revision r)
     \<and> (case (rq_evidence_kind r, rq_observed r) of
          (Observed, None) \<Rightarrow> False
        | (Observed, Some c) \<Rightarrow> 0 \<le> c
        | (No_charge, Some _) \<Rightarrow> False
        | (No_charge, None) \<Rightarrow> True)"

section \<open>Closing\<close>

text \<open>An answer: the record of the closure and whether it is a replay, or a status and its kind.\<close>

datatype close_answer = Closed_ok closure_record bool | Close_refused nat string

definition closure_row :: "retained_reservation \<Rightarrow> microusd \<Rightarrow> int \<Rightarrow> call_record" where
  "closure_row e settled now =
     (let j = (case re_attribution e of
                 None \<Rightarrow> \<lparr>ra_agent_id = [], ra_key_id = [], ra_unit = [], ra_parent_run_id = [],
                          ra_on_behalf_of = [], ra_outcome = [], ra_identity_reason = None\<rparr>
               | Some a \<Rightarrow> a);
          u = (if ra_unit j = [] then (case re_unit e of None \<Rightarrow> [] | Some ur \<Rightarrow> ur_unit ur) else ra_unit j);
          a = default_attribution\<lparr>ca_model := re_model e, ca_agent_id := ra_agent_id j,
                ca_parent_run_id := ra_parent_run_id j, ca_on_behalf_of := ra_on_behalf_of j,
                ca_outcome := ra_outcome j, ca_key_id := ra_key_id j, ca_unit := u,
                ca_identity_reason := ra_identity_reason j\<rparr>
      in allow_record (re_run e) a settled default_usage ZERO now)"

definition evidence_amount :: "close_request \<Rightarrow> microusd" where
  "evidence_amount r =
     (case rq_evidence_kind r of
        Observed \<Rightarrow> (case rq_observed r of None \<Rightarrow> 0 | Some c \<Rightarrow> c)
      | No_charge \<Rightarrow> ZERO)"

definition closure_of :: "close_request \<Rightarrow> retained_reservation \<Rightarrow> int \<Rightarrow> closure_record" where
  "closure_of r current now =
     \<lparr>cr_v = 1, cr_kind = KIND_CLOSURE, cr_reservation_id = rq_reservation_id r,
      cr_revision = rq_expected_revision r, cr_operation_id = rq_operation_id r,
      cr_evidence_kind = evidence_str (rq_evidence_kind r), cr_observed = rq_observed r,
      cr_evidence_ref = rq_evidence_ref r, cr_settled = evidence_amount r,
      cr_run_id = rv_run (re_run current), cr_unit = map_option ur_unit (re_unit current),
      cr_closed_at = now\<rparr>"

text \<open>The journal half: no journal counts as written.\<close>

definition journal_closure ::
  "disk \<Rightarrow> line_codec \<Rightarrow> closure_record \<Rightarrow> retained \<Rightarrow> bool \<times> retained" where
  "journal_closure d codec c rt =
     (case rt_journal rt of
        None \<Rightarrow> (True, rt)
      | Some bytes \<Rightarrow>
          (case append_closure d codec c bytes of
             (res, bytes') \<Rightarrow> (is_ok res, rt\<lparr>rt_journal := Some bytes'\<rparr>)))"

text \<open>What follows \<open>take\<close>: both halves, the row, the event.\<close>

definition settle_closed ::
  "close_request \<Rightarrow> closure_record \<Rightarrow> retained_reservation \<Rightarrow> int \<Rightarrow> gateway \<Rightarrow> gateway" where
  "settle_closed r c e now w =
     (let amount = evidence_amount r;
          w1 = w\<lparr>gw_ledger := snd (settle (gw_ledger w) (re_run e) amount)\<rparr>;
          w2 = (case re_unit e of None \<Rightarrow> w1 | Some ur \<Rightarrow> w1\<lparr>gw_units := unit_settle (gw_units w1) ur amount now\<rparr>);
          w3 = (if rq_evidence_kind r = Observed then w2\<lparr>gw_rows := gw_rows w2 @ [closure_row e amount now]\<rparr> else w2)
      in w3\<lparr>gw_events := gw_events w3 @
              [Retained_closed now (map_option ra_agent_id (re_attribution e)) (cr_run_id c) c]\<rparr>)"

definition apply_closure ::
  "disk \<Rightarrow> line_codec \<Rightarrow> close_request \<Rightarrow> int \<Rightarrow> books \<Rightarrow> gateway \<Rightarrow> close_answer \<times> books \<times> gateway" where
  "apply_closure d codec r now b w =
     (case bk_by_operation b (rq_operation_id r) of
        Some (recorded, c) \<Rightarrow>
          if recorded = content_of r then (Closed_ok c True, b, w)
          else (Close_refused 409 ''closure_conflict'', b, w)
      | None \<Rightarrow>
      case bk_closed b (rq_reservation_id r, rq_expected_revision r) of
        Some _ \<Rightarrow> (Close_refused 409 ''already_closed'', b, w)
      | None \<Rightarrow>
      case retained_find (rq_reservation_id r) (gw_retained w) of
        None \<Rightarrow> (Close_refused 404 ''not_retained'', b, w)
      | Some current \<Rightarrow>
          if re_revision current \<noteq> rq_expected_revision r
          then (Close_refused 409 ''stale_revision'', b, w)
          else
            let c = closure_of r current now;
                (ok, rt) = journal_closure d codec c (gw_retained w);
                w1 = w\<lparr>gw_retained := rt\<rparr>
            in if \<not> ok then (Close_refused 500 ''journal_write_failed'', b, w1)
               else (case retained_take (rq_reservation_id r) (rq_expected_revision r) rt of
                   None \<Rightarrow> (Close_refused 409 ''already_closed'', b, w1)
                 | Some (e, rt') \<Rightarrow>
                     (Closed_ok c False, note_closure c b, settle_closed r c e now (w1\<lparr>gw_retained := rt'\<rparr>))))"

text \<open>
  The handler: \<open>door\<close> is the secret when the route is on, \<open>read\<close> reads the body, \<open>header\<close> is the token
  header when it is present and visible ASCII.
\<close>

definition close ::
  "(string \<Rightarrow> string \<Rightarrow> nat list) \<Rightarrow> (string \<Rightarrow> close_request option) \<Rightarrow> disk \<Rightarrow> line_codec \<Rightarrow> string option
     \<Rightarrow> string \<Rightarrow> string option \<Rightarrow> int \<Rightarrow> books \<Rightarrow> gateway \<Rightarrow> close_answer \<times> books \<times> gateway" where
  "close hmac read d codec door body header now b w =
     (case door of
        None \<Rightarrow> (Close_refused 404 [], b, w)
      | Some secret \<Rightarrow>
      case read body of
        None \<Rightarrow> (Close_refused 400 ''invalid_request'', b, w)
      | Some r \<Rightarrow>
          if \<not> valid_request r then (Close_refused 400 ''invalid_request'', b, w)
          else case header of
            None \<Rightarrow> (Close_refused 401 ''closure_token_required'', b, w)
          | Some token \<Rightarrow>
              (case verify_token hmac secret (trim_ascii token) now of
                 Inl Token_expired \<Rightarrow> (Close_refused 401 ''closure_token_expired'', b, w)
               | Inl Token_invalid \<Rightarrow> (Close_refused 401 ''closure_token_invalid'', b, w)
               | Inr (i, revision) \<Rightarrow>
                   if i \<noteq> rq_reservation_id r \<or> revision \<noteq> rq_expected_revision r
                   then (Close_refused 403 ''closure_token_mismatch'', b, w)
                   else apply_closure d codec r now b w))"

text \<open>\<open>GET /v1/retained\<close>: every listed reservation, by id.\<close>

record retained_view =
  vw_reservation_id :: nat
  vw_revision :: string
  vw_run_id :: string
  vw_chain :: "string list"
  vw_amount :: microusd
  vw_unit :: "string option"
  vw_model :: string
  vw_retained_at :: int

definition view_of :: "retained_reservation \<Rightarrow> retained_view" where
  "view_of e =
     \<lparr>vw_reservation_id = rv_id (re_run e), vw_revision = re_revision e, vw_run_id = rv_run (re_run e),
      vw_chain = map cl_run (rv_chain (re_run e)), vw_amount = rv_amount (re_run e),
      vw_unit = map_option ur_unit (re_unit e), vw_model = re_model e, vw_retained_at = re_retained_at e\<rparr>"

definition list_retained :: "gateway \<Rightarrow> retained_view list" where
  "list_retained w = sort_key vw_reservation_id (map view_of (retained_all (gw_retained w)))"

end
