(* ===== verification/Replay.thy ===== *)
theory Replay
  imports Settle Ledger
begin

text \<open>
  The startup half of \<open>crates/gateway/src/retainedjournal.rs\<close>: \<open>replay\<close> puts the reservations of a read
  journal back on the in-process ledger, the unit ledger and the registry, and the journal is
  rewritten with what is still open. Crediting staged Cloud seeds to the runs it created is not
  modelled.
\<close>

record replay_report =
  rx_runs :: "restored option"
  rx_units_restored :: nat
  rx_units_other_month :: nat
  rx_units_refused :: nat
  rx_unlisted :: nat
  rx_closed :: nat
  rx_keep :: "string list"

definition closed_keys :: "closure_record list \<Rightarrow> (nat \<times> string) set" where
  "closed_keys cs = set (map (\<lambda>c. (cr_reservation_id c, cr_revision c)) cs)"

text \<open>
  The first loop: how many records a closure names, what the rewrite keeps, and the records still
  open. A record that was read serializes; \<open>[]\<close> stands for the \<open>expect\<close> that cannot fail.
\<close>

fun select_open ::
  "(string \<Rightarrow> nat list) \<Rightarrow> line_codec \<Rightarrow> (nat \<times> string) set \<Rightarrow> string set \<Rightarrow> journal_record list
     \<Rightarrow> nat \<times> string list \<times> journal_record list" where
  "select_open sha codec closed kept [] = (0, [], [])"
| "select_open sha codec closed kept (r # rs) =
     (let revision = revision_of sha codec r
      in if (rv_id (jr_run r), revision) \<in> closed
         then let (n, keep, opn) = select_open sha codec closed kept rs in (Suc n, keep, opn)
         else let (n, keep, opn) = select_open sha codec closed (insert revision kept) rs;
                  line = (case lc_record codec r of None \<Rightarrow> [] | Some s \<Rightarrow> s)
              in (n, if revision \<in> kept then keep else line # keep, r # opn))"

definition outstanding_of :: "journal_record \<Rightarrow> outstanding_entry" where
  "outstanding_of r = \<lparr>oe_reservation = jr_run r, oe_tail_parent = jr_tail_parent r\<rparr>"

definition entry_of :: "(string \<Rightarrow> nat list) \<Rightarrow> line_codec \<Rightarrow> journal_record \<Rightarrow> retained_reservation" where
  "entry_of sha codec r =
     \<lparr>re_run = jr_run r, re_unit = jr_unit r, re_model = jr_model r, re_retained_at = jr_retained_at r,
      re_revision = revision_of sha codec r, re_attribution = jr_attribution r\<rparr>"

text \<open>One record of the second loop: its unit half, then the registry.\<close>

definition credit_unit ::
  "journal_record \<Rightarrow> int \<Rightarrow> unit_ledger \<Rightarrow> replay_report \<Rightarrow> unit_ledger \<times> replay_report" where
  "credit_unit r now units rx =
     (case jr_unit r of
        None \<Rightarrow> (units, rx)
      | Some u \<Rightarrow>
          (case restore units u now of
             (Restore_applied, units') \<Rightarrow> (units', rx\<lparr>rx_units_restored := Suc (rx_units_restored rx)\<rparr>)
           | (Restore_other_month, units') \<Rightarrow> (units', rx\<lparr>rx_units_other_month := Suc (rx_units_other_month rx)\<rparr>)
           | (Restore_negative, units') \<Rightarrow> (units', rx\<lparr>rx_units_refused := Suc (rx_units_refused rx)\<rparr>)))"

fun list_open ::
  "(string \<Rightarrow> nat list) \<Rightarrow> line_codec \<Rightarrow> nat set \<Rightarrow> nat set \<Rightarrow> int \<Rightarrow> journal_record list
     \<Rightarrow> unit_ledger \<Rightarrow> retained \<Rightarrow> replay_report \<Rightarrow> unit_ledger \<times> retained \<times> replay_report" where
  "list_open sha codec restored_ids seen now [] units rt rx = (units, rt, rx)"
| "list_open sha codec restored_ids seen now (r # rs) units rt rx =
     (if rv_id (jr_run r) \<notin> restored_ids \<or> rv_id (jr_run r) \<in> seen
      then list_open sha codec restored_ids seen now rs units rt rx
      else
        let (units', rx1) = credit_unit r now units rx;
            (listed, rt') = retained_push (entry_of sha codec r) rt;
            rx2 = (if listed then rx1 else rx1\<lparr>rx_unlisted := Suc (rx_unlisted rx1)\<rparr>)
        in list_open sha codec restored_ids (insert (rv_id (jr_run r)) seen) now rs units' rt' rx2)"

text \<open>\<open>can_restore\<close> is false for the replicated backend, whose \<open>restore_outstanding\<close> answers \<open>None\<close>.\<close>

definition replay ::
  "(string \<Rightarrow> nat list) \<Rightarrow> line_codec \<Rightarrow> bool \<Rightarrow> read_report \<Rightarrow> int \<Rightarrow> ledger \<Rightarrow> unit_ledger \<Rightarrow> retained
     \<Rightarrow> replay_report \<times> ledger \<times> unit_ledger \<times> retained" where
  "replay sha codec can_restore report now l units rt =
     (let (n, keep, opn) = select_open sha codec (closed_keys (rp_closures report)) {} (rp_records report);
          rx = \<lparr>rx_runs = None, rx_units_restored = 0, rx_units_other_month = 0, rx_units_refused = 0,
                rx_unlisted = 0, rx_closed = n, rx_keep = keep @ rp_other_lines report\<rparr>
      in if \<not> can_restore then (rx, l, units, rt)
         else let (res, l') = restore_outstanding l (map outstanding_of opn);
                  (units', rt', rx') = list_open sha codec (set (rd_restored res)) {} now opn units rt rx
              in (rx'\<lparr>rx_runs := Some res\<rparr>, l', units', rt'))"

text \<open>Startup: read, replay, rewrite. \<open>fs\<close> is how the file arrives, \<open>ok\<close> whether the rewrite succeeds.\<close>

definition replay_at_startup ::
  "(string \<Rightarrow> nat list) \<Rightarrow> line_codec \<Rightarrow> fill list \<Rightarrow> bool \<Rightarrow> int \<Rightarrow> ledger \<Rightarrow> unit_ledger \<Rightarrow> retained
     \<Rightarrow> (replay_report \<times> ledger \<times> unit_ledger \<times> retained, io_error) res" where
  "replay_at_startup sha codec fs ok now l units rt =
     (case parse codec fs of
        Inl e \<Rightarrow> Inl e
      | Inr report \<Rightarrow>
          let (rx, l', units', rt') = replay sha codec True report now l units rt
          in Inr (rx, l', units',
                  case rt_journal rt' of
                    None \<Rightarrow> rt'
                  | Some bytes \<Rightarrow> rt'\<lparr>rt_journal := Some (snd (rewrite ok (rx_keep rx) bytes))\<rparr>))"

end
