(* ===== verification/Journal_Facts.thy ===== *)
theory Journal_Facts
  imports Retained_Journal
begin

text \<open>
  What reading a journal gives: the reader's chunks do not matter, and what was appended is what is
  read. The reference is \<open>parse_bytes\<close>, which splits the whole contents at line feeds.
\<close>

section \<open>Splitting at line feeds\<close>

lemma split_once_append:
  "split_once c (a @ b) =
     (case split_once c a of
        Some (x, y) \<Rightarrow> Some (x, y @ b)
      | None \<Rightarrow> map_option (\<lambda>(x, y). (a @ x, y)) (split_once c b))"
  by (induction c a rule: split_once.induct)
    (auto simp: option.map_comp comp_def case_prod_unfold option.map_ident split: option.splits)

lemma split_on_nonempty [simp]: "split_on c s \<noteq> []"
  by (cases s) (auto split: list.splits)

lemma split_on_once:
  "split_on c s = (case split_once c s of None \<Rightarrow> [s] | Some (a, b) \<Rightarrow> a # split_on c b)"
  by (induction c s rule: split_once.induct) (auto split: option.splits)

lemma split_on_append: "split_on c (a @ c # b) = split_on c a @ split_on c b"
  by (induction a) (auto split: list.splits)

lemma split_on_none: "c \<notin> set s \<Longrightarrow> split_on c s = [s]"
  using split_once_none [of c s] by (simp add: split_on_once)

section \<open>The reference reading\<close>

definition add_whole_line :: "line_codec \<Rightarrow> string \<Rightarrow> read_report \<Rightarrow> read_report" where
  "add_whole_line codec line = add_line codec (MAX_LINE_BYTES < length line) line"

definition parse_bytes :: "line_codec \<Rightarrow> string \<Rightarrow> read_report" where
  "parse_bytes codec bytes = fold (add_whole_line codec) (split_on LF bytes) empty_report"

lemma add_whole_line_nil [simp]: "add_whole_line codec [] = id"
  by (simp add: add_whole_line_def add_line_def trim_ascii_def fun_eq_iff)

lemma add_line_over: "add_line codec True l = add_line codec True m"
  by (simp add: add_line_def fun_eq_iff)

section \<open>Chunks\<close>

fun fill_ok :: "fill \<Rightarrow> bool" where
  "fill_ok (Chunk s) \<longleftrightarrow> s \<noteq> []"
| "fill_ok Interrupted \<longleftrightarrow> True"
| "fill_ok Broken \<longleftrightarrow> False"

fun fill_bytes :: "fill \<Rightarrow> string" where
  "fill_bytes (Chunk s) = s"
| "fill_bytes Interrupted = []"
| "fill_bytes Broken = []"

definition bytes_of :: "fill list \<Rightarrow> string" where
  "bytes_of fs = concat (map fill_bytes fs)"

lemma bytes_of_simps [simp]: "bytes_of [] = []" "bytes_of (f # fs) = fill_bytes f @ bytes_of fs"
  by (simp_all add: bytes_of_def)

lemma next_line_found:
  "list_all fill_ok fs \<Longrightarrow> split_once LF (bytes_of fs) = Some (a, rest) \<Longrightarrow>
     \<exists>line fs'. next_line_from fs buf ov any
         = (Inr (Some (ov \<or> MAX_LINE_BYTES < length buf + length a)), line, fs')
       \<and> (\<not> (ov \<or> MAX_LINE_BYTES < length buf + length a) \<longrightarrow> line = buf @ a)
       \<and> list_all fill_ok fs' \<and> bytes_of fs' = rest"
proof (induction fs arbitrary: buf ov any a)
  case (Cons f fs)
  show ?case
  proof (cases f)
    case (Chunk s)
    show ?thesis
    proof (cases "split_once LF s")
      case None
      with Cons.prems(2) obtain a' where a': "split_once LF (bytes_of fs) = Some (a', rest)" "a = s @ a'"
        by (auto simp: Chunk split_once_append)
      from None Cons.prems(1) show ?thesis
        using Cons.IH [OF _ a'(1), of "if ov then buf else if MAX_LINE_BYTES < length buf + length s then []
            else buf @ s" "ov \<or> MAX_LINE_BYTES < length buf + length s" True]
        by (auto simp: Chunk Let_def a'(2) ac_simps)
    next
      case (Some xy)
      then obtain x y where xy: "split_once LF s = Some (x, y)" by force
      with Cons.prems show ?thesis by (auto simp: Chunk Let_def split_once_append)
    qed
  next
    case Interrupted
    with Cons show ?thesis by simp
  next
    case Broken
    with Cons.prems show ?thesis by simp
  qed
qed simp

lemma next_line_last:
  "list_all fill_ok fs \<Longrightarrow> split_once LF (bytes_of fs) = None \<Longrightarrow> \<not> ov \<longrightarrow> length buf \<le> MAX_LINE_BYTES \<Longrightarrow>
     \<exists>line. next_line_from fs buf ov any
         = (Inr (if any \<or> bytes_of fs \<noteq> []
                 then Some (ov \<or> MAX_LINE_BYTES < length buf + length (bytes_of fs)) else None), line, [])
       \<and> (\<not> (ov \<or> MAX_LINE_BYTES < length buf + length (bytes_of fs)) \<longrightarrow> line = buf @ bytes_of fs)"
proof (induction fs arbitrary: buf ov any)
  case (Cons f fs)
  show ?case
  proof (cases f)
    case (Chunk s)
    have "split_once LF s = None" "split_once LF (bytes_of fs) = None"
      using Cons.prems(2) by (simp_all add: Chunk split_once_none)
    then show ?thesis
      using Cons.prems Cons.IH [of "ov \<or> MAX_LINE_BYTES < length buf + length s"
            "if ov then buf else if MAX_LINE_BYTES < length buf + length s then [] else buf @ s" True]
      by (auto simp: Chunk Let_def ac_simps)
  next
    case Interrupted
    then show ?thesis using Cons.prems Cons.IH [of ov buf any] by (simp only: next_line_from.simps bytes_of_simps fill_bytes.simps append.simps list.pred_inject fill_ok.simps simp_thms)
  next
    case Broken
    with Cons.prems show ?thesis by simp
  qed
qed auto

lemma add_whole_line_eq:
  "(\<not> MAX_LINE_BYTES < length l \<longrightarrow> line = l) \<Longrightarrow>
     add_line codec (MAX_LINE_BYTES < length l) line = add_whole_line codec l"
  using add_line_over unfolding add_whole_line_def by fastforce

lemma parse_from_chunks:
  "list_all fill_ok fs \<Longrightarrow>
     parse_from codec fs report = Inr (fold (add_whole_line codec) (split_on LF (bytes_of fs)) report)"
proof (induction codec fs report rule: parse_from.induct)
  case (1 codec fs report)
  show ?case
  proof (cases "split_once LF (bytes_of fs)")
    case None
    from next_line_last [OF 1(2) None, of False "[]" False] obtain line where
      l: "next_line fs = (Inr (if bytes_of fs \<noteq> [] then Some (MAX_LINE_BYTES < length (bytes_of fs)) else None), line, [])"
         "\<not> MAX_LINE_BYTES < length (bytes_of fs) \<longrightarrow> line = bytes_of fs"
      unfolding next_line_def by (simp only: simp_thms list.size add_0 append.simps) blast
    show ?thesis
    proof (cases "bytes_of fs = []")
      case True
      then show ?thesis using l None by (simp add: parse_from.simps [of _ fs])
    next
      case False
      have "parse_from codec [] r = Inr r" for r by (simp add: parse_from.simps [of _ "[]"] next_line_def)
      then show ?thesis
        using l None False add_whole_line_eq [OF l(2)] by (simp add: parse_from.simps [of _ fs] split_on_once)
    qed
  next
    case (Some ar)
    then obtain a rest where ar: "split_once LF (bytes_of fs) = Some (a, rest)" by force
    from next_line_found [OF 1(2) ar, of "[]" False False] obtain line fs' where
      l: "next_line fs = (Inr (Some (MAX_LINE_BYTES < length a)), line, fs')"
         "\<not> MAX_LINE_BYTES < length a \<longrightarrow> line = a" "list_all fill_ok fs'" "bytes_of fs' = rest"
      by (auto simp: next_line_def)
    from 1(1) [OF l(1) [symmetric] refl refl refl l(3)] show ?thesis
      using l ar add_whole_line_eq [OF l(2)] by (simp add: parse_from.simps [of _ fs] split_on_once [of _ "bytes_of fs"])
  qed
qed

lemma parse_chunks:
  "list_all fill_ok fs \<Longrightarrow> parse codec fs = Inr (parse_bytes codec (bytes_of fs))"
  by (simp add: parse_def parse_bytes_def parse_from_chunks)

section \<open>Appending\<close>

datatype journal_entry = Retained_line journal_record | Closure_line closure_record

definition serialize_entry :: "line_codec \<Rightarrow> journal_entry \<Rightarrow> string option" where
  "serialize_entry codec e =
     (case e of Retained_line r \<Rightarrow> lc_record codec r | Closure_line c \<Rightarrow> lc_closure codec c)"

definition append_entry ::
  "disk \<Rightarrow> line_codec \<Rightarrow> journal_entry \<Rightarrow> string \<Rightarrow> (unit, io_error) res \<times> string" where
  "append_entry d codec e jnl =
     (case e of Retained_line r \<Rightarrow> append_record d codec r jnl | Closure_line c \<Rightarrow> append_closure d codec c jnl)"

fun append_all :: "line_codec \<Rightarrow> journal_entry list \<Rightarrow> string \<Rightarrow> (string, io_error) res" where
  "append_all codec [] jnl = Inr jnl"
| "append_all codec (e # es) jnl =
     (case append_entry Disk_ok codec e jnl of
        (Inl err, _) \<Rightarrow> Inl err
      | (Inr _, jnl') \<Rightarrow> append_all codec es jnl')"

text \<open>
  What a reader needs of the serializer for one record: one line with no white space around it, of the
  record's kind, that reads back as the record.
\<close>

definition reads_back :: "line_codec \<Rightarrow> journal_entry \<Rightarrow> bool" where
  "reads_back codec e =
     (case serialize_entry codec e of
        None \<Rightarrow> False
      | Some s \<Rightarrow> s \<noteq> [] \<and> LF \<notin> set s \<and> trim_ascii s = s \<and>
          (case e of
             Retained_line r \<Rightarrow> lc_kind_of codec s = Some KIND_RETAINED \<and> lc_read_record codec s = Some r
           | Closure_line c \<Rightarrow> lc_kind_of codec s = Some KIND_CLOSURE \<and> lc_read_closure codec s = Some c))"

fun retained_lines :: "journal_entry list \<Rightarrow> journal_record list" where
  "retained_lines [] = []"
| "retained_lines (Retained_line r # es) = r # retained_lines es"
| "retained_lines (Closure_line c # es) = retained_lines es"

fun closure_lines :: "journal_entry list \<Rightarrow> closure_record list" where
  "closure_lines [] = []"
| "closure_lines (Retained_line r # es) = closure_lines es"
| "closure_lines (Closure_line c # es) = c # closure_lines es"

definition add_entries :: "journal_entry list \<Rightarrow> read_report \<Rightarrow> read_report" where
  "add_entries es rep =
     rep\<lparr>rp_records := rp_records rep @ retained_lines es, rp_closures := rp_closures rep @ closure_lines es\<rparr>"

definition ends_line :: "string \<Rightarrow> bool" where
  "ends_line jnl \<longleftrightarrow> jnl = [] \<or> last jnl = LF"

lemma parse_bytes_add_line:
  "ends_line jnl \<Longrightarrow> LF \<notin> set s \<Longrightarrow>
     parse_bytes codec (jnl @ s @ [LF]) = add_whole_line codec s (parse_bytes codec jnl)"
proof (cases jnl rule: rev_cases)
  case Nil
  assume "LF \<notin> set s"
  then show ?thesis
    using split_on_append [of LF s "[]"] by (simp add: Nil parse_bytes_def split_on_none)
next
  case (snoc f c)
  assume a: "ends_line jnl" "LF \<notin> set s"
  then have c: "c = LF" by (simp add: snoc ends_line_def)
  show ?thesis
    using a(2) split_on_append [of LF f "s @ [LF]"] split_on_append [of LF s "[]"] split_on_append [of LF f "[]"]
    by (simp add: snoc c parse_bytes_def split_on_none)
qed

lemma journal_open_reads_same:
  "journal_open Disk_ok jnl = (res, jnl') \<Longrightarrow> ends_line jnl' \<and> parse_bytes codec jnl' = parse_bytes codec jnl"
  using split_on_append [of LF jnl "[]"]
  by (auto simp: journal_open_def write_all_def ends_line_def parse_bytes_def split: if_splits)

lemma append_entry_written:
  assumes "append_entry Disk_ok codec e jnl = (Inr u, jnl')"
  obtains s where "serialize_entry codec e = Some s" "length s < MAX_LINE_BYTES" "jnl' = jnl @ s @ [LF]"
  using assms
  by (auto simp: append_entry_def append_record_def append_closure_def append_line_def write_all_def Let_def
      serialize_entry_def split: journal_entry.splits option.splits if_splits)

lemma add_reads_back:
  assumes "reads_back codec e" and "serialize_entry codec e = Some s" and "length s < MAX_LINE_BYTES"
  shows "add_whole_line codec s rep = add_entries [e] rep"
proof -
  have k: "KIND_CLOSURE \<noteq> KIND_RETAINED" by (simp add: KIND_CLOSURE_def KIND_RETAINED_def)
  from assms k show ?thesis
    by (cases e) (simp_all add: reads_back_def add_whole_line_def add_line_def add_entries_def)
qed

lemma append_all_reads_back:
  "append_all codec es jnl = Inr jnl' \<Longrightarrow> list_all (reads_back codec) es \<Longrightarrow> ends_line jnl \<Longrightarrow>
     parse_bytes codec jnl' = add_entries es (parse_bytes codec jnl) \<and> ends_line jnl'"
proof (induction codec es jnl rule: append_all.induct)
  case (1 codec jnl)
  then show ?case by (simp add: add_entries_def)
next
  case (2 codec e es jnl)
  obtain res f1 where a: "append_entry Disk_ok codec e jnl = (res, f1)" by force
  with 2(2) obtain u where res: "res = Inr u" by (cases res) simp_all
  from append_entry_written [OF a [unfolded res]] obtain s where
    s: "serialize_entry codec e = Some s" "length s < MAX_LINE_BYTES" "f1 = jnl @ s @ [LF]" .
  have "LF \<notin> set s" using 2(3) s(1) by (simp add: reads_back_def)
  then have p: "parse_bytes codec f1 = add_entries [e] (parse_bytes codec jnl)"
    using parse_bytes_add_line [OF 2(4)] add_reads_back [of codec e s] 2(3) s by simp
  have "parse_bytes codec jnl' = add_entries es (parse_bytes codec f1) \<and> ends_line jnl'"
    using 2(2,3) a by (intro 2(1) [OF a [symmetric, unfolded res]]) (simp_all add: res s(3) ends_line_def)
  with p show ?case by (cases e) (simp_all add: add_entries_def)
qed

section \<open>Properties\<close>

text \<open>C31. Whatever bytes an earlier process left in the journal, a torn last line among them, opening it
  and appending records that are all answered without an error gives a file that reads as what was
  readable before, followed by exactly the appended records in order; and the reading is the same
  however the file arrives in chunks and however often a read is interrupted.\<close>

theorem journal_reads_back:
  assumes "append_all codec es (snd (journal_open Disk_ok jnl)) = Inr jnl'"
    and "list_all (reads_back codec) es" and "list_all fill_ok fs" and "bytes_of fs = jnl'"
  shows "parse codec fs = Inr (add_entries es (parse_bytes codec jnl))"
proof -
  have o: "ends_line (snd (journal_open Disk_ok jnl))"
    "parse_bytes codec (snd (journal_open Disk_ok jnl)) = parse_bytes codec jnl"
    using journal_open_reads_same [of jnl] by (cases "journal_open Disk_ok jnl"; simp)+
  from append_all_reads_back [OF assms(1,2) o(1)] o(2) parse_chunks [OF assms(3)] assms(4)
  show ?thesis by simp
qed

text \<open>A write that fails partway is not repaired before the next append: the next record is
  answered as durable, but its line is fused with the torn one, and a reading finds one malformed
  line and neither record.\<close>

lemma torn_append_swallows_next:
  assumes "ends_line jnl" and "lc_record codec r = Some s" and "lc_record codec r' = Some s'"
    and "LF \<notin> set s" and "LF \<notin> set s'" and "0 < n" and "n \<le> length s" and "n + length s' < MAX_LINE_BYTES"
    and "length s < MAX_LINE_BYTES"
    and "trim_ascii (take n s @ s') \<noteq> []" and "lc_kind_of codec (trim_ascii (take n s @ s')) = None"
  shows "\<exists>jnl1 jnl2. append_record (Disk_fails n) codec r jnl = (Inl Write_failed, jnl1)
     \<and> append_record Disk_ok codec r' jnl1 = (Inr (), jnl2)
     \<and> parse_bytes codec jnl2
         = (parse_bytes codec jnl)\<lparr>rp_malformed := Suc (rp_malformed (parse_bytes codec jnl))\<rparr>"
proof (intro exI conjI)
  show "append_record (Disk_fails n) codec r jnl = (Inl Write_failed, jnl @ take n s)"
    using assms by (simp add: append_record_def append_line_def write_all_def)
  show "append_record Disk_ok codec r' (jnl @ take n s) = (Inr (), jnl @ (take n s @ s') @ [LF])"
    using assms by (simp add: append_record_def append_line_def write_all_def)
  have "LF \<notin> set (take n s @ s')" using assms(4,5) by (auto dest: in_set_takeD)
  from parse_bytes_add_line [OF assms(1) this]
  show "parse_bytes codec (jnl @ (take n s @ s') @ [LF])
         = (parse_bytes codec jnl)\<lparr>rp_malformed := Suc (rp_malformed (parse_bytes codec jnl))\<rparr>"
    using assms(7,8,10,11) by (simp add: add_whole_line_def add_line_def min_absorb2)
qed

section \<open>Applications\<close>

definition sample_hold :: reservation where
  "sample_hold = \<lparr>rv_id = 3, rv_run = ''r'', rv_amount = 40, rv_step = 1, rv_generation = 1,
     rv_chain = [\<lparr>cl_run = ''r'', cl_generation = 1\<rparr>]\<rparr>"

definition sample_line :: journal_record where
  "sample_line = \<lparr>jr_v = 1, jr_kind = KIND_RETAINED, jr_run = sample_hold, jr_tail_parent = None,
     jr_unit = None, jr_model = ''m'', jr_retained_at = 5, jr_attribution = None\<rparr>"

text \<open>A serializer that knows the one record: \<open>{r}\<close> is its line.\<close>

definition sample_codec :: line_codec where
  "sample_codec = \<lparr>lc_record = (\<lambda>r. Some ''{r}''), lc_closure = (\<lambda>c. None),
     lc_kind_of = (\<lambda>s. if s = ''{r}'' then Some KIND_RETAINED else None),
     lc_read_record = (\<lambda>s. if s = ''{r}'' then Some sample_line else None), lc_read_closure = (\<lambda>s. None)\<rparr>"

lemma sample_reads_back: "reads_back sample_codec (Retained_line sample_line)"
  by (simp add: reads_back_def serialize_entry_def sample_codec_def trim_ascii_def ascii_white_def)

lemma sample_appended:
  "append_all sample_codec [Retained_line sample_line] (snd (journal_open Disk_ok ''{''))
     = Inr (''{'' @ LF # ''{r}'' @ [LF])"
  by (simp add: append_entry_def append_record_def append_line_def write_all_def journal_open_def
      sample_codec_def MAX_LINE_BYTES_def)

theorem journal_reads_back_witness:
  "map_sum id rp_records (parse sample_codec [Chunk ''{'', Interrupted, Chunk (LF # ''{r''), Chunk (''}'' @ [LF])])
     = (Inr [sample_line] :: (journal_record list, io_error) res)"
proof -
  let ?fs = "[Chunk ''{'', Interrupted, Chunk (LF # ''{r''), Chunk (''}'' @ [LF])]"
  have "parse sample_codec ?fs
      = Inr (add_entries [Retained_line sample_line] (parse_bytes sample_codec ''{''))"
    using sample_reads_back by (intro journal_reads_back [OF sample_appended]) simp_all
  moreover have "rp_records (parse_bytes sample_codec ''{'') = []"
    by (simp add: parse_bytes_def add_whole_line_def add_line_def trim_ascii_def ascii_white_def
        sample_codec_def empty_report_def)
  ultimately show ?thesis by (simp add: add_entries_def)
qed

theorem torn_append_swallows_next_witness:
  "\<exists>jnl1 jnl2. append_record (Disk_fails 2) sample_codec sample_line [] = (Inl Write_failed, jnl1)
     \<and> append_record Disk_ok sample_codec sample_line jnl1 = (Inr (), jnl2)
     \<and> parse_bytes sample_codec jnl2
         = (parse_bytes sample_codec [])\<lparr>rp_malformed := Suc (rp_malformed (parse_bytes sample_codec []))\<rparr>"
  by (rule torn_append_swallows_next [where s = "''{r}''" and s' = "''{r}''"])
    (simp_all add: sample_codec_def ends_line_def MAX_LINE_BYTES_def trim_ascii_def ascii_white_def)

end
