(* ===== verification/Settle_Props.thy ===== *)
theory Settle_Props
  imports Settle Ledger_Props Journal_Facts "HOL-Library.Multiset"
begin

text \<open>
  What the settle guard and the registry of retained reservations guarantee.
\<close>

section \<open>The registry\<close>

fun filed :: "(string \<times> retained_reservation list) list \<Rightarrow> bool" where
  "filed [] = True"
| "filed ((k, es) # rest) = (es \<noteq> [] \<and> list_all (\<lambda>e. rv_run (re_run e) = k) es \<and> filed rest)"

definition registry_ok :: "retained \<Rightarrow> bool" where
  "registry_ok rt \<longleftrightarrow>
     distinct (map fst (rt_by_run rt))
     \<and> filed (rt_by_run rt)
     \<and> rt_total rt = length (retained_all rt) \<and> rt_total rt \<le> MAX_RETAINED"

lemma registry_new: "registry_ok retained_new" "registry_ok (with_journal j)"
  by (simp_all add: registry_ok_def retained_new_def with_journal_def retained_all_def)

lemma push_entry_keys: "fst ` set (push_entry k e xs) = insert k (fst ` set xs)"
  by (induction k e xs rule: push_entry.induct) auto

lemma push_entry_ok:
  "distinct (map fst xs) \<Longrightarrow>
     filed xs \<Longrightarrow> rv_run (re_run e) = k \<Longrightarrow>
   distinct (map fst (push_entry k e xs))
   \<and> filed (push_entry k e xs)"
  by (induction k e xs rule: push_entry.induct) (auto simp: push_entry_keys)

lemma push_entry_mset: "mset (concat (map snd (push_entry k e xs))) = add_mset e (mset (concat (map snd xs)))"
  by (induction k e xs rule: push_entry.induct) auto

lemma remove_first_some:
  "remove_first p xs = Some (x, ys) \<Longrightarrow> p x \<and> x \<in> set xs \<and> mset xs = add_mset x (mset ys) \<and> set ys \<subseteq> set xs"
  by (induction p xs arbitrary: ys rule: remove_first.induct) (auto split: if_splits)

lemma remove_first_none: "remove_first p xs = None \<longleftrightarrow> (\<forall>x \<in> set xs. \<not> p x)"
  by (induction p xs rule: remove_first.induct) auto

lemma take_entry_some:
  "take_entry p xs = Some (x, ys) \<Longrightarrow>
     p x \<and> mset (concat (map snd xs)) = add_mset x (mset (concat (map snd ys))) \<and> fst ` set ys \<subseteq> fst ` set xs
     \<and> (distinct (map fst xs) \<longrightarrow> distinct (map fst ys))
     \<and> (filed xs \<longrightarrow>
        filed ys)"
proof (induction p xs arbitrary: ys rule: take_entry.induct)
  case (2 p k es rest)
  show ?case
  proof (cases "remove_first p es")
    case None
    with 2(2) obtain ys' where ys: "take_entry p rest = Some (x, ys')" "ys = (k, es) # ys'" by auto
    from 2(1) [OF None ys(1)] show ?thesis by (auto simp: ys(2))
  next
    case (Some r)
    then obtain e es' where r: "remove_first p es = Some (e, es')" by force
    with 2(2) have "x = e" "ys = (if es' = [] then rest else (k, es') # rest)" by simp_all
    with remove_first_some [OF r] show ?thesis by (auto simp: list_all_iff)
  qed
qed simp

lemma take_entry_none: "take_entry p xs = None \<longleftrightarrow> (\<forall>e \<in> set (concat (map snd xs)). \<not> p e)"
proof (induction p xs rule: take_entry.induct)
  case (2 p k es rest)
  show ?case
  proof (cases "remove_first p es")
    case None
    then have "\<forall>e \<in> set es. \<not> p e" by (simp only: remove_first_none)
    with 2 [OF None] None show ?thesis by simp blast
  next
    case (Some r)
    then have "\<not> (\<forall>e \<in> set es. \<not> p e)" using remove_first_none [of p es] by simp
    with Some show ?thesis by (auto split: prod.splits)
  qed
qed simp

lemma for_run_filter:
  "distinct (map fst xs) \<Longrightarrow>
     filed xs \<Longrightarrow>
     (case map_of xs k of None \<Rightarrow> [] | Some es \<Rightarrow> es)
       = filter (\<lambda>e. rv_run (re_run e) = k) (concat (map snd xs))"
proof (induction xs)
  case (Cons x xs)
  obtain j es where x: "x = (j, es)" by force
  have "filter (\<lambda>e. rv_run (re_run e) = k) es = (if j = k then es else [])"
    using Cons.prems(2) by (auto simp: x list_all_iff filter_id_conv)
  moreover have "j = k \<Longrightarrow> map_of xs k = None" using Cons.prems(1) by (auto simp: x map_of_eq_None_iff)
  ultimately show ?case using Cons by (auto simp: x)
qed simp

lemma retained_push_ok: "registry_ok rt \<Longrightarrow> registry_ok (snd (retained_push e rt))"
  using push_entry_ok [of "rt_by_run rt" e "rv_run (re_run e)"]
    arg_cong [OF push_entry_mset [of "rv_run (re_run e)" e "rt_by_run rt"], of size]
  by (auto simp: registry_ok_def retained_push_def retained_all_def)

lemma retained_take_ok:
  assumes "registry_ok rt" and "retained_take i rvn rt = Some (e, rt')"
  shows "registry_ok rt' \<and> mset (retained_all rt) = add_mset e (mset (retained_all rt'))
     \<and> rv_id (re_run e) = i \<and> re_revision e = rvn"
proof -
  from assms(2) obtain xs where t: "take_entry (\<lambda>e. rv_id (re_run e) = i \<and> re_revision e = rvn) (rt_by_run rt) = Some (e, xs)"
    and rt': "rt' = rt\<lparr>rt_by_run := xs, rt_total := rt_total rt - 1\<rparr>"
    by (auto simp: retained_take_def)
  have m: "mset (retained_all rt) = add_mset e (mset (retained_all rt'))"
    using take_entry_some [OF t] by (simp add: retained_all_def rt')
  then have "size (mset (retained_all rt)) = Suc (size (mset (retained_all rt')))" by simp
  then have "length (retained_all rt) = Suc (length (retained_all rt'))" by (simp only: size_mset)
  with m take_entry_some [OF t] assms(1) show ?thesis by (auto simp: registry_ok_def rt')
qed

text \<open>The registry never holds more than its cap, counts exactly what it lists, and files every entry
  under its own run; a push adds the entry exactly when there is room, and a take removes exactly
  one entry of that id and revision, or finds none when there is none, so no entry is taken
  twice.\<close>

lemma registry_exact:
  assumes "registry_ok rt"
  shows "registry_ok (snd (retained_push e rt))
     \<and> fst (retained_push e rt) = (length (retained_all rt) < MAX_RETAINED)
     \<and> mset (retained_all (snd (retained_push e rt)))
         = (if length (retained_all rt) < MAX_RETAINED then add_mset e (mset (retained_all rt))
            else mset (retained_all rt))
     \<and> retained_for_run k rt = filter (\<lambda>e. rv_run (re_run e) = k) (retained_all rt)
     \<and> (case retained_take i rvn rt of
          None \<Rightarrow> filter (\<lambda>e. rv_id (re_run e) = i \<and> re_revision e = rvn) (retained_all rt) = []
        | Some (e', rt') \<Rightarrow>
            registry_ok rt' \<and> mset (retained_all rt) = add_mset e' (mset (retained_all rt'))
            \<and> rv_id (re_run e') = i \<and> re_revision e' = rvn)"
proof -
  have t: "rt_total rt = length (retained_all rt)" using assms by (simp add: registry_ok_def)
  have "fst (retained_push e rt) = (length (retained_all rt) < MAX_RETAINED)"
    "mset (retained_all (snd (retained_push e rt)))
       = (if length (retained_all rt) < MAX_RETAINED then add_mset e (mset (retained_all rt))
          else mset (retained_all rt))"
    using t by (simp_all add: retained_push_def retained_all_def push_entry_mset)
  moreover have "retained_for_run k rt = filter (\<lambda>e. rv_run (re_run e) = k) (retained_all rt)"
    using assms for_run_filter [of "rt_by_run rt" k]
    by (simp add: registry_ok_def retained_for_run_def retained_all_def)
  moreover have "retained_take i rvn rt = None \<longleftrightarrow>
      filter (\<lambda>e. rv_id (re_run e) = i \<and> re_revision e = rvn) (retained_all rt) = []"
    by (simp add: retained_take_def take_entry_none retained_all_def filter_empty_conv)
  ultimately show ?thesis
    using retained_push_ok [OF assms] retained_take_ok [OF assms]
    by (cases "retained_take i rvn rt") auto
qed

definition sample_entry :: retained_reservation where
  "sample_entry = \<lparr>re_run = sample_hold, re_unit = None, re_model = ''m'', re_retained_at = 5,
     re_revision = ''v'', re_attribution = None\<rparr>"

theorem registry_exact_witness:
  "registry_ok retained_new \<and> fst (retained_push sample_entry retained_new)
   \<and> retained_take 7 ''v'' retained_new = None"
proof -
  have "retained_all retained_new = []" by (simp add: retained_all_def retained_new_def)
  then show ?thesis
    using registry_exact [OF registry_new(1), of sample_entry "''r''" 7 "''v''"] registry_new(1)
    by (auto simp: MAX_RETAINED_def split: option.splits)
qed

section \<open>The amount\<close>

lemma settle_amount_nonneg:
  assumes "0 \<le> m"
  shows "0 \<le> fst (settle_amount b model parsed m n)"
  using assms model_cost_range
  by (auto simp: settle_amount_def Let_def book_cost_def split: option.splits)

lemma price_for_output: "price_for b m (u\<lparr>us_output := x\<rparr>) = price_for b m u"
  by (simp add: price_for_def prompt_tokens_def cong: option.case_cong)

lemma model_cost_output_mono:
  assumes "rates_ok p" and "x \<le> y"
  shows "model_cost p (u\<lparr>us_output := x\<rparr>) \<le> model_cost p (u\<lparr>us_output := y\<rparr>)"
proof -
  have "int x * mp_output p \<le> int y * mp_output p"
    using assms by (intro mult_right_mono) (simp_all add: rates_ok_def)
  then have "exact_numerator p (u\<lparr>us_output := x\<rparr>) \<le> exact_numerator p (u\<lparr>us_output := y\<rparr>)"
    by (simp add: exact_numerator_def five_minute_def)
  then have "(exact_numerator p (u\<lparr>us_output := x\<rparr>) + 999999) div 1000000
      \<le> (exact_numerator p (u\<lparr>us_output := y\<rparr>) + 999999) div 1000000"
    by (intro zdiv_mono1) simp_all
  then show ?thesis unfolding model_cost_exact [OF assms(1)] by (rule min.mono [OF order.refl])
qed

text \<open>C30. A measured 2xx answer is never under-charged: if the body's counters were read and priced, and
  what the provider finally bills has the reported input side and an output that is the reported
  one when the report was the last word, and otherwise lies within the request's cap, then the
  settlement is at least the final cost, and exactly the reported cost when the report was the
  last word.\<close>

theorem answered_call_never_short:
  assumes "price_for b m u = Some p" and "rates_ok p" and "carries_priced_tokens u"
    and "final = u\<lparr>us_output := out\<rparr>" and "0 < cap"
    and "if complete then out = us_output u else out \<le> max (us_output u) cap"
    and "settle_amount b m (Some \<lparr>pu_usage = u, pu_truncated = False, pu_complete = complete\<rparr>) est cap
         = (charged, row, basis)"
  shows "book_cost b m final = Some (model_cost p final) \<and> model_cost p final \<le> charged
     \<and> (if complete then charged = model_cost p u \<and> row = u \<and> basis = Parsed
        else basis = Partial_usage \<and> row = default_usage\<lparr>us_tool_calls := us_tool_calls u\<rparr>)"
proof (cases complete)
  case True
  then show ?thesis using assms by (auto simp: settle_amount_def Let_def book_cost_def)
next
  case False
  have c: "book_cost b m (u\<lparr>us_output := x\<rparr>) = Some (model_cost p (u\<lparr>us_output := x\<rparr>))" for x
    using assms(1) by (simp add: book_cost_def price_for_output)
  have "model_cost p (u\<lparr>us_output := out\<rparr>) \<le> model_cost p (u\<lparr>us_output := max (us_output u) cap\<rparr>)"
    using assms(6) False by (intro model_cost_output_mono [OF assms(2)]) simp
  with False assms(3-5,7) c show ?thesis by (auto simp: settle_amount_def Let_def)
qed

definition mini_book :: price_book where
  "mini_book = pb_with price_book_new ''m'' mini_price"

theorem answered_call_never_short_witness:
  "\<exists>charged row basis.
     settle_amount mini_book ''m'' (Some \<lparr>pu_usage = short_call, pu_truncated = False, pu_complete = False\<rparr>) 9 100
       = (charged, row, basis)
     \<and> model_cost mini_price (short_call\<lparr>us_output := 60\<rparr>) \<le> charged \<and> basis = Partial_usage"
proof -
  obtain charged row basis where r: "settle_amount mini_book ''m''
      (Some \<lparr>pu_usage = short_call, pu_truncated = False, pu_complete = False\<rparr>) 9 100 = (charged, row, basis)"
    by (rule prod_cases3)
  have "price_for mini_book ''m'' short_call = Some mini_price"
    by (simp add: mini_book_def pb_with_def pb_insert_def price_for_def pb_price_def price_book_new_def)
  from answered_call_never_short [OF this _ _ refl _ _ r, of 60] r show ?thesis
    by (simp add: rates_ok_def mini_price_def carries_priced_tokens_def short_call_def)
qed

section \<open>The transition\<close>

text \<open>A guard makes its terminal transition once: whatever the first call did, a second one, and the
  drop that follows an explicit settlement, answers nothing and leaves every ledger, row and event
  as it is.\<close>

lemma settles_exactly_once:
  "(case settle_now sha codec d now ts g w of
      (t, g', w') \<Rightarrow>
        settle_now sha' codec' d' now' ts' g' w'' = (None, g', w'')
        \<and> guard_complete sha codec d now ts g w = w' \<and> guard_drop sha codec d now ts g w = w'
        \<and> (if t = None then sg_run g = None \<and> sg_unit g = None \<and> w' = w else True))"
proof -
  obtain t g' w' where r: "settle_now sha codec d now ts g w = (t, g', w')" by (rule prod_cases3)
  have e: "sg_run g' = None \<and> sg_unit g' = None \<and> (if t = None then sg_run g = None \<and> sg_unit g = None \<and> w' = w else True)"
  proof (cases "sg_run g = None \<and> sg_unit g = None")
    case True
    with r show ?thesis by (auto simp: settle_now_def Let_def)
  next
    case False
    with r have "Some (g\<lparr>sg_run := None, sg_unit := None\<rparr>) = Some g' \<and> t \<noteq> None"
      by (simp only: settle_now_def Let_def if_False) (simp only: prod.case_eq_if prod.inject, blast)
    then show ?thesis by auto
  qed
  then have "settle_now sha' codec' d' now' ts' g' w'' = (None, g', w'')" for sha' codec' d' now' ts' w''
    by (simp add: settle_now_def)
  with e r show ?thesis by (simp add: guard_complete_def guard_drop_def)
qed

definition both_settled ::
  "reservation \<Rightarrow> unit_reservation option \<Rightarrow> microusd \<Rightarrow> int \<Rightarrow> gateway \<Rightarrow> gateway \<Rightarrow> bool" where
  "both_settled r u a now w w' \<longleftrightarrow>
     gw_ledger w' = snd (settle (gw_ledger w) r a)
     \<and> gw_units w' = (case u of None \<Rightarrow> gw_units w | Some ur \<Rightarrow> unit_settle (gw_units w) ur a now)"

lemma accounted_after_settle:
  assumes "accounted (l, iss)" and "r \<in> set iss" and "0 \<le> a"
  shows "accounted (snd (settle l r a), filter (\<lambda>x. rv_id x \<noteq> rv_id r) iss)"
proof -
  obtain st l' where s: "settle l r a = (st, l')" by force
  from accounted_step [OF settled [OF assms(3) _ s] assms(1)] assms(2) s show ?thesis by simp
qed

lemma record_row_frame [simp]:
  "gw_ledger (record_row g r a u ts w) = gw_ledger w" "gw_units (record_row g r a u ts w) = gw_units w"
  "gw_retained (record_row g r a u ts w) = gw_retained w" "gw_events (record_row g r a u ts w) = gw_events w"
  "gw_truncated (record_row g r a u ts w) = gw_truncated w"
  by (simp_all add: record_row_def Let_def)

lemma record_row_rows:
  "\<exists>row. gw_rows (record_row g r a u ts w) = gw_rows w @ [row] \<and> cd_cost row = a
     \<and> cd_run_id row = rv_run r \<and> cd_input_tokens row = us_input u \<and> cd_output_tokens row = us_output u"
  by (simp add: record_row_def Let_def allow_record_def)

lemma report_retained_frame [simp]:
  "gw_ledger (report_retained g i a n j li t w) = gw_ledger w" "gw_units (report_retained g i a n j li t w) = gw_units w"
  "gw_retained (report_retained g i a n j li t w) = gw_retained w" "gw_rows (report_retained g i a n j li t w) = gw_rows w"
  by (simp_all add: report_retained_def Let_def split: option.splits)

lemma guard_release_effect:
  "guard_release run u now w = (t, w') \<Longrightarrow>
     t = Released \<and> gw_ledger w' = (case run of None \<Rightarrow> gw_ledger w | Some r \<Rightarrow> snd (settle (gw_ledger w) r 0))
     \<and> gw_units w' = (case u of None \<Rightarrow> gw_units w | Some ur \<Rightarrow> unit_settle (gw_units w) ur 0 now)
     \<and> gw_rows w' = gw_rows w \<and> gw_retained w' = gw_retained w \<and> gw_events w' = gw_events w"
  by (cases run; cases u) (auto simp: guard_release_def ZERO_def)

lemma journal_retained_total: "rt_total (snd (journal_retained d codec r rt)) = rt_total rt"
  by (simp add: journal_retained_def split: option.splits prod.splits sum.splits)

lemma retained_push_fst: "fst (retained_push e rt) = (rt_total rt < MAX_RETAINED)"
  by (simp add: retained_push_def)

lemma guard_retain_effect:
  "guard_retain sha codec d g (Some r) u now w = (t, w') \<Longrightarrow>
     t = Retained_terminal (rv_amount r) (rt_total (gw_retained w) < MAX_RETAINED)
     \<and> gw_ledger w' = gw_ledger w \<and> gw_units w' = gw_units w \<and> gw_rows w' = gw_rows w"
  by (auto simp: guard_retain_def Let_def case_prod_unfold retained_push_fst journal_retained_total)

lemma settle_amount_refused:
  "settle_amount b m parsed 0 0 = (a, u, basis) \<Longrightarrow> basis \<noteq> Parsed \<Longrightarrow> a = 0"
  by (auto simp: settle_amount_def Let_def split: option.splits if_splits)

lemma guard_charge_effect:
  assumes "guard_charge g (Some r) u est now ts w = (t, w')"
  obtains a us b parsed where "t = Settled a us b"
    and "settle_amount (gw_prices w) (ca_model (sg_attribution g)) parsed
           (if est then sg_estimate g else 0) (if est then sg_output_cap g else 0) = (a, us, b)"
    and "both_settled r u a now w w'"
    and "\<exists>row. gw_rows w' = gw_rows w @ [row] \<and> cd_cost row = a \<and> cd_run_id row = rv_run r
           \<and> cd_input_tokens row = us_input us \<and> cd_output_tokens row = us_output us"
    and "gw_retained w' = gw_retained w" and "gw_events w' = gw_events w"
proof -
  define parsed where "parsed = (case sg_usage g of None \<Rightarrow> None | Some slot \<Rightarrow> slot)"
  obtain a us b where s: "settle_amount (gw_prices w) (ca_model (sg_attribution g)) parsed
           (if est then sg_estimate g else 0) (if est then sg_output_cap g else 0) = (a, us, b)"
    by (rule prod_cases3)
  define w0 where "w0 = (if b = Estimate_truncated
      then w\<lparr>gw_truncated := wrap_succ_u64 (gw_truncated w)\<rparr> else w)"
  define w1 where "w1 = w0\<lparr>gw_ledger := snd (settle (gw_ledger w0) r a)\<rparr>"
  define w2 where "w2 = (case u of None \<Rightarrow> w1 | Some ur \<Rightarrow> w1\<lparr>gw_units := unit_settle (gw_units w1) ur a now\<rparr>)"
  have w: "t = Settled a us b" "w' = record_row g r a us ts w2"
    using assms s unfolding guard_charge_def parsed_def [symmetric] w2_def w1_def w0_def
    by (auto simp: Let_def ZERO_def split: if_splits)
  have f: "gw_ledger w2 = snd (settle (gw_ledger w) r a)" "gw_rows w2 = gw_rows w"
    "gw_units w2 = (case u of None \<Rightarrow> gw_units w | Some ur \<Rightarrow> unit_settle (gw_units w) ur a now)"
    "gw_retained w2 = gw_retained w" "gw_events w2 = gw_events w"
    by (simp_all add: w0_def w1_def w2_def split: option.splits)
  show thesis
    by (rule that [OF w(1) s]) (use f record_row_rows [of g r a us ts w2] in \<open>simp_all add: w(2) both_settled_def\<close>)
qed

lemma settle_now_cases:
  assumes "settle_now sha codec d now ts g w = (t, g', w')" and "sg_run g = Some r"
  obtains x g0 where "t = Some x" and "sg_attribution g0 = sg_attribution g" and "sg_estimate g0 = sg_estimate g"
    and "sg_output_cap g0 = sg_output_cap g"
    and "(case disposition_of (sg_state g) of
            Release \<Rightarrow> guard_release (Some r) (sg_unit g) now w
          | Retain \<Rightarrow> guard_retain sha codec d g0 (Some r) (sg_unit g) now w
          | Charge est \<Rightarrow> guard_charge g0 (Some r) (sg_unit g) est now ts w) = (x, w')"
proof -
  let ?g = "g\<lparr>sg_run := None, sg_unit := None\<rparr>"
  obtain x w1 where x: "(case disposition_of (sg_state g) of
            Release \<Rightarrow> guard_release (Some r) (sg_unit g) now w
          | Retain \<Rightarrow> guard_retain sha codec d ?g (Some r) (sg_unit g) now w
          | Charge est \<Rightarrow> guard_charge ?g (Some r) (sg_unit g) est now ts w) = (x, w1)" by force
  then have "(t, g', w') = (Some x, ?g, w1)"
    using assms by (simp add: settle_now_def)
  with x show thesis by (intro that [of x ?g]) simp_all
qed


definition sample_gateway :: gateway where
  "sample_gateway = \<lparr>gw_ledger = snd (reserve two_level ''leaf'' 25), gw_units = unit_ledger_new Map.empty,
     gw_prices = mini_book, gw_retained = retained_new, gw_rows = [], gw_truncated = 0, gw_events = []\<rparr>"

lemma sample_gateway_accounted: "accounted (gw_ledger sample_gateway, [two_level_hold])"
  using accounted_run [OF ledger_run_snoc [OF two_level_reached two_level_reserve_step] accounted_new]
  by (simp add: sample_gateway_def)

text \<open>A call whose client left while the provider held the request.\<close>

definition sample_guard :: settle_guard where
  "sample_guard = dispatching (hold_run two_level_hold (guard_new ''leaf'' 25 100 default_attribution None))"


end
