(* ===== verification/Replay_Props.thy ===== *)
theory Replay_Props
  imports Replay Settle_Props
begin

text \<open>
  What a restart gives back: exactly the open retained reservations, on the run ledger, the unit
  ledger and the registry; and the rewritten journal holds exactly those.
\<close>

section \<open>What is open\<close>

abbreviation closed_by :: "(string \<Rightarrow> nat list) \<Rightarrow> line_codec \<Rightarrow> closure_record list \<Rightarrow> journal_record \<Rightarrow> bool" where
  "closed_by sha codec cs r \<equiv> (rv_id (jr_run r), revision_of sha codec r) \<in> closed_keys cs"

definition open_records :: "(string \<Rightarrow> nat list) \<Rightarrow> line_codec \<Rightarrow> read_report \<Rightarrow> journal_record list" where
  "open_records sha codec rep = filter (\<lambda>r. \<not> closed_by sha codec (rp_closures rep) r) (rp_records rep)"

lemma select_open_spec:
  "select_open sha codec closed kept rs = (n, keep, opn) \<Longrightarrow>
     opn = filter (\<lambda>r. (rv_id (jr_run r), revision_of sha codec r) \<notin> closed) rs
     \<and> n + length opn = length rs
     \<and> (distinct (map (revision_of sha codec) opn) \<and> kept \<inter> revision_of sha codec ` set opn = {} \<longrightarrow>
          keep = map (\<lambda>r. case lc_record codec r of None \<Rightarrow> [] | Some s \<Rightarrow> s) opn)"
proof (induction sha codec closed kept rs arbitrary: n keep opn rule: select_open.induct)
  case (2 sha codec closed kept r rs)
  show ?case
  proof (cases "(rv_id (jr_run r), revision_of sha codec r) \<in> closed")
    case True
    then obtain m where m: "select_open sha codec closed kept rs = (m, keep, opn)" "n = Suc m"
      using 2(3) by (auto simp: Let_def split: prod.splits)
    with 2(1) [OF refl True m(1)] True show ?thesis by clarsimp
  next
    case False
    let ?kept = "insert (revision_of sha codec r) kept"
    obtain keep' opn' where m: "select_open sha codec closed ?kept rs = (n, keep', opn')" "opn = r # opn'"
      "keep = (if revision_of sha codec r \<in> kept then keep'
               else (case lc_record codec r of None \<Rightarrow> [] | Some s \<Rightarrow> s) # keep')"
      using 2(3) False by (auto simp: Let_def split: prod.splits)
    note ih = 2(2) [OF refl False m(1)]
    show ?thesis
    proof (intro conjI impI)
      show "opn = filter (\<lambda>r. (rv_id (jr_run r), revision_of sha codec r) \<notin> closed) (r # rs)"
        using ih False m(2) by simp
      show "n + length opn = length (r # rs)" using ih [THEN conjunct2, THEN conjunct1] m(2) by simp
      assume d: "distinct (map (revision_of sha codec) opn) \<and> kept \<inter> revision_of sha codec ` set opn = {}"
      then have "distinct (map (revision_of sha codec) opn')" "?kept \<inter> revision_of sha codec ` set opn' = {}"
        "revision_of sha codec r \<notin> kept"
        by (auto simp: m(2))
      with ih show "keep = map (\<lambda>r. case lc_record codec r of None \<Rightarrow> [] | Some s \<Rightarrow> s) opn"
        by (simp add: m(2,3))
    qed
  qed
qed simp

section \<open>The two ledgers and the registry\<close>

lemma restore_select_all:
  "list_all well_formed_entry es \<Longrightarrow> distinct (map (\<lambda>e. rv_id (oe_reservation e)) es) \<Longrightarrow>
     seen \<inter> (\<lambda>e. rv_id (oe_reservation e)) ` set es = {} \<Longrightarrow> restore_select {} seen es = (0, 0, es)"
  by (induction es arbitrary: seen) auto

definition credit :: "int \<Rightarrow> journal_record \<Rightarrow> unit_ledger \<Rightarrow> unit_ledger" where
  "credit now r u = (case jr_unit r of None \<Rightarrow> u | Some x \<Rightarrow> snd (restore u x now))"

definition unit_due :: "string \<Rightarrow> int \<Rightarrow> journal_record \<Rightarrow> bool" where
  "unit_due k now r = (case jr_unit r of None \<Rightarrow> False
     | Some x \<Rightarrow> ur_unit x = k \<and> ur_window x = month_key now \<and> 0 \<le> ur_amount x)"

definition unit_amount :: "journal_record \<Rightarrow> int" where
  "unit_amount r = (case jr_unit r of None \<Rightarrow> 0 | Some x \<Rightarrow> ur_amount x)"

lemma credit_unit_units: "fst (credit_unit r now u rx) = credit now r u"
  by (simp add: credit_unit_def credit_def split: option.splits prod.splits restore_outcome.splits)

lemma credit_unit_unlisted: "rx_unlisted (snd (credit_unit r now u rx)) = rx_unlisted rx"
  "rx_closed (snd (credit_unit r now u rx)) = rx_closed rx" "rx_keep (snd (credit_unit r now u rx)) = rx_keep rx"
  by (simp_all add: credit_unit_def split: option.splits prod.splits restore_outcome.splits)

lemma restore_reserved:
  "unit_reserved (snd (restore u x now)) k now =
     (if ur_unit x = k \<and> ur_window x = month_key now \<and> 0 \<le> ur_amount x
      then saturating_add (unit_reserved u k now) (ur_amount x) else unit_reserved u k now)
   \<and> unit_spent (snd (restore u x now)) k now = unit_spent u k now"
proof (cases "0 \<le> ur_amount x \<and> ur_window x = month_key now")
  case True
  let ?s = "rolled (ul_state u) (ur_unit x) (month_key now)"
  have r: "snd (restore u x now)
      = put_unit u (ur_unit x) (?s\<lparr>us_reserved := saturating_add (us_reserved ?s) (ur_amount x)\<rparr>)"
    using True by (simp add: restore_def Let_def ZERO_def)
  show ?thesis
    using True rolled_view [of u "ur_unit x" now]
      put_unit_view [of "?s\<lparr>us_reserved := saturating_add (us_reserved ?s) (ur_amount x)\<rparr>" now u "ur_unit x" k]
    unfolding r by auto
qed (auto simp: restore_def ZERO_def)

lemma credit_reserved:
  "unit_reserved (credit now r u) k now =
     (if unit_due k now r then saturating_add (unit_reserved u k now) (unit_amount r) else unit_reserved u k now)"
  "unit_spent (credit now r u) k now = unit_spent u k now"
  by (simp_all add: credit_def unit_due_def unit_amount_def restore_reserved split: option.splits)

lemma credits_reserved:
  "0 \<le> unit_reserved u k now \<Longrightarrow>
   unit_reserved u k now + sum_where (unit_due k now) unit_amount rs \<le> I64_MAX \<Longrightarrow>
     unit_reserved (fold (credit now) rs u) k now
       = unit_reserved u k now + sum_where (unit_due k now) unit_amount rs
     \<and> unit_spent (fold (credit now) rs u) k now = unit_spent u k now"
proof (induction rs arbitrary: u)
  case (Cons r rs)
  have nn: "0 \<le> sum_where (unit_due k now) unit_amount rs"
    by (rule sum_where_nonneg) (auto simp: unit_due_def unit_amount_def split: option.splits)
  show ?case
  proof (cases "unit_due k now r")
    case True
    then have a: "0 \<le> unit_amount r" by (auto simp: unit_due_def unit_amount_def split: option.splits)
    have "unit_reserved (credit now r u) k now = unit_reserved u k now + unit_amount r"
      using Cons.prems True a nn
      by (simp add: credit_reserved saturating_add_exact in_i64_def machine_bounds)
    with Cons.IH [of "credit now r u"] Cons.prems True a show ?thesis by (simp add: credit_reserved)
  next
    case False
    with Cons.IH [of "credit now r u"] Cons.prems show ?thesis by (simp add: credit_reserved)
  qed
qed simp

lemma list_open_spec:
  "list_open sha codec ids seen now rs units rt rx = (units', rt', rx') \<Longrightarrow>
     distinct (map (\<lambda>r. rv_id (jr_run r)) rs) \<Longrightarrow> seen \<inter> (\<lambda>r. rv_id (jr_run r)) ` set rs = {} \<Longrightarrow>
     (\<lambda>r. rv_id (jr_run r)) ` set rs \<subseteq> ids \<Longrightarrow> registry_ok rt \<Longrightarrow> rt_total rt + length rs \<le> MAX_RETAINED \<Longrightarrow>
     units' = fold (credit now) rs units \<and> registry_ok rt'
     \<and> mset (retained_all rt') = mset (retained_all rt) + mset (map (entry_of sha codec) rs)
     \<and> rx_unlisted rx' = rx_unlisted rx \<and> rx_closed rx' = rx_closed rx \<and> rx_keep rx' = rx_keep rx
     \<and> rt_journal rt' = rt_journal rt"
proof (induction rs arbitrary: seen units rt rx)
  case (Cons r rs)
  note prems = Cons.prems
  obtain units1 rx1 where c: "credit_unit r now units rx = (units1, rx1)" by force
  obtain listed rt1 where p: "retained_push (entry_of sha codec r) rt = (listed, rt1)" by force
  have ok: "registry_ok rt1" using retained_push_ok [OF prems(5), of "entry_of sha codec r"] p by simp
  have listed: "listed" "rt_total rt1 = Suc (rt_total rt)" "rt_journal rt1 = rt_journal rt"
    "mset (retained_all rt1) = add_mset (entry_of sha codec r) (mset (retained_all rt))"
    using p prems(6) by (auto simp: retained_push_def retained_all_def push_entry_mset split: if_splits)
  have "\<not> (rv_id (jr_run r) \<notin> ids \<or> rv_id (jr_run r) \<in> seen)" using prems(3,4) by auto
  then have rec: "list_open sha codec ids (insert (rv_id (jr_run r)) seen) now rs units1 rt1 rx1 = (units', rt', rx')"
    using prems(1) c p listed(1) by simp
  have u: "units1 = credit now r units" using credit_unit_units [of r now units rx] c by simp
  have x: "rx_unlisted rx1 = rx_unlisted rx" "rx_closed rx1 = rx_closed rx" "rx_keep rx1 = rx_keep rx"
    using credit_unit_unlisted [of r now units rx] c by simp_all
  have d: "distinct (map (\<lambda>r. rv_id (jr_run r)) rs)"
    "insert (rv_id (jr_run r)) seen \<inter> (\<lambda>r. rv_id (jr_run r)) ` set rs = {}"
    "(\<lambda>r. rv_id (jr_run r)) ` set rs \<subseteq> ids" "rt_total rt1 + length rs \<le> MAX_RETAINED"
    using prems(2-4,6) listed(2) by auto
  from Cons.IH [OF rec d(1-3) ok d(4)] show ?case by (simp add: u x listed(3,4))
qed simp

section \<open>Properties\<close>

lemma outstanding_ids: "(\<lambda>e. rv_id (oe_reservation e)) ` set (map outstanding_of rs) = (\<lambda>r. rv_id (jr_run r)) ` set rs"
  "map (\<lambda>e. rv_id (oe_reservation e)) (map outstanding_of rs) = map (\<lambda>r. rv_id (jr_run r)) rs"
  by (auto simp: outstanding_of_def image_iff)

text \<open>C15. A restart forgets no liability and revives none: replaying a journal into a fresh ledger puts back
  exactly the retained reservations no closure in the journal names. They are what the run ledger
  then accounts for, what the registry lists, and, for the current month, what each unit has
  reserved; nothing is spent by the restart.\<close>

theorem restart_keeps_liability:
  assumes "replay sha codec True rep now new_ledger units rt = (rx, l', units', rt')"
    and "list_all (\<lambda>r. well_formed_entry (outstanding_of r) \<and> restorable (jr_run r)) (open_records sha codec rep)"
    and "distinct (map (\<lambda>r. rv_id (jr_run r)) (open_records sha codec rep))"
    and "sum_list (map (\<lambda>r. rv_amount (jr_run r)) (open_records sha codec rep)) \<le> I64_MAX"
    and "registry_ok rt" and "rt_total rt + length (open_records sha codec rep) \<le> MAX_RETAINED"
    and "0 \<le> unit_reserved units k now"
    and "unit_reserved units k now + sum_where (unit_due k now) unit_amount (open_records sha codec rep) \<le> I64_MAX"
  shows "accounted (l', map jr_run (open_records sha codec rep))
     \<and> registry_ok rt'
     \<and> mset (retained_all rt') = mset (retained_all rt) + mset (map (entry_of sha codec) (open_records sha codec rep))
     \<and> unit_reserved units' k now
         = unit_reserved units k now + sum_where (unit_due k now) unit_amount (open_records sha codec rep)
     \<and> unit_spent units' k now = unit_spent units k now
     \<and> rx_closed rx + length (open_records sha codec rep) = length (rp_records rep) \<and> rx_unlisted rx = 0"
proof -
  let ?open = "open_records sha codec rep"
  obtain n keep opn where sel: "select_open sha codec (closed_keys (rp_closures rep)) {} (rp_records rep) = (n, keep, opn)"
    by (rule prod_cases3)
  have opn: "opn = ?open"
    using select_open_spec [OF sel, THEN conjunct1] by (simp only: open_records_def)
  have n: "n + length ?open = length (rp_records rep)"
    using select_open_spec [OF sel, THEN conjunct2, THEN conjunct1] by (simp only: opn)
  obtain res l1 where rest: "restore_outstanding new_ledger (map outstanding_of ?open) = (res, l1)" by force
  have v: "restore_select {} {} (map outstanding_of ?open) = (0, 0, map outstanding_of ?open)"
    using assms(2,3) by (intro restore_select_all) (simp_all add: outstanding_ids list_all_iff outstanding_of_def comp_def)
  have ids: "set (rd_restored res) = (\<lambda>r. rv_id (jr_run r)) ` set ?open"
    using rest v by (auto simp: restore_outstanding_def new_ledger_def Let_def outstanding_of_def image_iff
        split: prod.splits)
  have "accounted (l1, map oe_reservation (map outstanding_of ?open))"
    using assms(2,4) by (intro restore_accounted [OF rest v])
      (simp_all add: list_all_iff outstanding_of_def comp_def)
  then have acc: "accounted (l1, map jr_run ?open)" by (simp add: outstanding_of_def comp_def)
  let ?rx = "\<lparr>rx_runs = None, rx_units_restored = 0, rx_units_other_month = 0, rx_units_refused = 0,
                rx_unlisted = 0, rx_closed = n, rx_keep = keep @ rp_other_lines rep\<rparr>"
  obtain u1 rt1 rx1 where lst: "list_open sha codec (set (rd_restored res)) {} now ?open units rt ?rx = (u1, rt1, rx1)"
    by (rule prod_cases3)
  have out: "rx = rx1\<lparr>rx_runs := Some res\<rparr>" "l' = l1" "units' = u1" "rt' = rt1"
    using assms(1) sel rest lst by (simp_all add: replay_def opn)
  have "units' = fold (credit now) ?open units \<and> registry_ok rt'
     \<and> mset (retained_all rt') = mset (retained_all rt) + mset (map (entry_of sha codec) ?open)
     \<and> rx_unlisted rx = 0 \<and> rx_closed rx = n"
    using list_open_spec [OF lst assms(3) _ _ assms(5,6)] ids by (simp add: out)
  with credits_reserved [OF assms(7,8)] acc n show ?thesis by (simp add: out(2))
qed

definition sample_report :: read_report where
  "sample_report = empty_report\<lparr>rp_records := [sample_line]\<rparr>"

lemma sample_report_open: "open_records sha codec sample_report = [sample_line]"
  by (simp add: open_records_def sample_report_def empty_report_def closed_keys_def)

theorem restart_keeps_liability_witness:
  "\<exists>rx l' units' rt'. replay (\<lambda>s. [1]) sample_codec True sample_report 7 new_ledger
       (unit_ledger_new Map.empty) retained_new = (rx, l', units', rt')
     \<and> accounted (l', [sample_hold]) \<and> length (retained_all rt') = 1"
proof -
  obtain rx l' units' rt' where r: "replay (\<lambda>s. [1]) sample_codec True sample_report 7 new_ledger
       (unit_ledger_new Map.empty) retained_new = (rx, l', units', rt')"
    by (metis prod.collapse)
  have z: "unit_reserved (unit_ledger_new Map.empty) k t = 0" for k t
    by (simp add: unit_reserved_def unit_ledger_new_def ZERO_def)
  have "accounted (l', [sample_hold]) \<and> mset (retained_all rt') = mset [entry_of (\<lambda>s. [1]) sample_codec sample_line]"
    using restart_keeps_liability [OF r, of "''k''"] registry_new(1)
    by (simp add: sample_report_open z sum_where_def unit_due_def sample_line_def sample_hold_def outstanding_of_def
        well_formed_entry_def restorable_def ZERO_def MAX_RETAINED_def retained_new_def machine_bounds retained_all_def)
  moreover from this have "size (mset (retained_all rt')) = 1" by simp
  ultimately show ?thesis using r by auto
qed

section \<open>The rewrite\<close>

lemma ascii_trim_idem: "trim_ascii (trim_ascii s) = trim_ascii s"
proof -
  have a: "dropWhile P (dropWhile P xs) = dropWhile P xs" for P and xs :: string
    by (induction xs) auto
  let ?t = "rev (dropWhile ascii_white (rev (dropWhile ascii_white s)))"
  have "dropWhile ascii_white ?t = ?t"
  proof (cases ?t)
    case (Cons c cs)
    have "\<exists>zs. dropWhile ascii_white s = ?t @ zs"
      using takeWhile_dropWhile_id [of ascii_white "rev (dropWhile ascii_white s)"]
      by (metis rev_append rev_rev_ident)
    then have "\<exists>ys. dropWhile ascii_white s = c # ys" unfolding Cons by auto
    then have "\<not> ascii_white c" by (metis dropWhile_eq_Cons_conv)
    then show ?thesis unfolding Cons by simp
  next
    case Nil
    then show ?thesis by (simp only: dropWhile.simps)
  qed
  then show ?thesis by (simp add: trim_ascii_def a)
qed

lemma trim_ascii_subset: "set (trim_ascii s) \<subseteq> set s" "length (trim_ascii s) \<le> length s"
proof -
  show "set (trim_ascii s) \<subseteq> set s"
    unfolding trim_ascii_def by (metis set_dropWhileD set_rev subsetI)
  show "length (trim_ascii s) \<le> length s"
    unfolding trim_ascii_def by (metis length_dropWhile_le length_rev le_trans)
qed

definition other_line :: "line_codec \<Rightarrow> string \<Rightarrow> bool" where
  "other_line codec l \<longleftrightarrow> LF \<notin> set l \<and> l \<noteq> [] \<and> trim_ascii l = l \<and> length l \<le> MAX_LINE_BYTES
     \<and> (case lc_kind_of codec l of None \<Rightarrow> False | Some k \<Rightarrow> k \<noteq> KIND_RETAINED \<and> k \<noteq> KIND_CLOSURE)"

lemma add_whole_line_other:
  assumes "list_all (other_line codec) (rp_other_lines rep)" and "LF \<notin> set line"
  shows "list_all (other_line codec) (rp_other_lines (add_whole_line codec line rep))"
proof -
  have "LF \<notin> set (trim_ascii line)" using assms(2) trim_ascii_subset(1) by blast
  then show ?thesis
    using assms(1) trim_ascii_subset(2) [of line]
    by (auto simp: add_whole_line_def add_line_def Let_def other_line_def ascii_trim_idem split: option.splits)
qed

lemma split_on_clean: "l \<in> set (split_on c s) \<Longrightarrow> c \<notin> set l"
  by (induction c s arbitrary: l rule: split_on.induct) (auto split: if_splits list.splits)

lemma parse_bytes_other: "list_all (other_line codec) (rp_other_lines (parse_bytes codec bytes))"
proof -
  have "list_all (other_line codec) (rp_other_lines (fold (add_whole_line codec) ls rep))"
    if "list_all (other_line codec) (rp_other_lines rep)" "\<forall>l \<in> set ls. LF \<notin> set l" for ls rep
    using that by (induction ls arbitrary: rep) (simp_all add: add_whole_line_other)
  then show ?thesis
    using split_on_clean unfolding parse_bytes_def by (simp add: empty_report_def)
qed

lemma parse_lines:
  "\<forall>l \<in> set ls. LF \<notin> set l \<Longrightarrow>
     parse_bytes codec (concat (map (\<lambda>l. l @ [LF]) ls)) = fold (add_whole_line codec) ls empty_report"
proof (induction ls rule: rev_induct)
  case Nil
  then show ?case by (simp add: parse_bytes_def)
next
  case (snoc l ls)
  have "ends_line (concat (map (\<lambda>l. l @ [LF]) ls))"
    by (cases ls rule: rev_cases) (simp_all add: ends_line_def)
  from parse_bytes_add_line [OF this, of l codec] snoc show ?case by simp
qed

lemma fold_records:
  "list_all (\<lambda>r. reads_back codec (Retained_line r)) rs \<Longrightarrow>
   list_all (\<lambda>r. case lc_record codec r of None \<Rightarrow> False | Some s \<Rightarrow> length s < MAX_LINE_BYTES) rs \<Longrightarrow>
     fold (add_whole_line codec) (map (\<lambda>r. case lc_record codec r of None \<Rightarrow> [] | Some s \<Rightarrow> s) rs) rep
       = rep\<lparr>rp_records := rp_records rep @ rs\<rparr>"
proof (induction rs arbitrary: rep)
  case (Cons r rs)
  then obtain s where s: "lc_record codec r = Some s" "length s < MAX_LINE_BYTES" by (auto split: option.splits)
  have "add_whole_line codec s rep = add_entries [Retained_line r] rep"
    using Cons.prems(1) s by (intro add_reads_back) (simp_all add: serialize_entry_def)
  with Cons s show ?case by (simp add: add_entries_def)
qed simp

lemma fold_other:
  "list_all (other_line codec) ls \<Longrightarrow>
     fold (add_whole_line codec) ls rep
       = rep\<lparr>rp_other_lines := rp_other_lines rep @ ls, rp_other_kind := rp_other_kind rep + length ls\<rparr>"
proof (induction ls arbitrary: rep)
  case (Cons l ls)
  have "add_whole_line codec l rep
      = rep\<lparr>rp_other_lines := rp_other_lines rep @ [l], rp_other_kind := Suc (rp_other_kind rep)\<rparr>"
    using Cons.prems
    by (auto simp: other_line_def add_whole_line_def add_line_def Let_def not_less split: option.splits)
  with Cons show ?case by simp
qed simp

lemma list_open_keeps:
  "list_open sha codec ids seen now rs units rt rx = (units', rt', rx') \<Longrightarrow>
     rt_journal rt' = rt_journal rt \<and> rx_keep rx' = rx_keep rx"
proof (induction rs arbitrary: seen units rt rx)
  case (Cons r rs)
  show ?case
  proof (cases "rv_id (jr_run r) \<notin> ids \<or> rv_id (jr_run r) \<in> seen")
    case True
    with Cons show ?thesis by simp
  next
    case False
    obtain units1 rx1 where c: "credit_unit r now units rx = (units1, rx1)" by force
    obtain listed rt1 where p: "retained_push (entry_of sha codec r) rt = (listed, rt1)" by force
    from Cons.prems False c p have "list_open sha codec ids (insert (rv_id (jr_run r)) seen) now rs units1 rt1
        (if listed then rx1 else rx1\<lparr>rx_unlisted := Suc (rx_unlisted rx1)\<rparr>) = (units', rt', rx')" by simp
    from Cons.IH [OF this] p c credit_unit_unlisted(3) [of r now units rx] show ?thesis
      by (auto simp: retained_push_def split: if_splits)
  qed
qed simp

lemma startup_answers:
  assumes "parse codec fs = Inr rep"
  obtains rx l' units' rt' where "replay_at_startup sha codec fs ok now l units rt = Inr (rx, l', units', rt')"
  using assms by (cases "replay sha codec True rep now l units rt") (auto simp: replay_at_startup_def)

text \<open>The rewritten journal is what is still open and nothing else: read back, it holds exactly the
  open retained records and the lines of kinds this version does not know, no closure and no
  malformed line, so the next restart restores the same reservations.\<close>

lemma rewrite_keeps_open:
  assumes "list_all fill_ok fs" and "rep = parse_bytes codec (bytes_of fs)" and "rt_journal rt \<noteq> None"
    and "replay_at_startup sha codec fs True now l units rt = Inr (rx, l', units', rt')"
    and "list_all (\<lambda>r. reads_back codec (Retained_line r)
           \<and> (case lc_record codec r of None \<Rightarrow> False | Some s \<Rightarrow> length s < MAX_LINE_BYTES))
           (open_records sha codec rep)"
    and "distinct (map (revision_of sha codec) (open_records sha codec rep))"
  shows "map_option (parse_bytes codec) (rt_journal rt')
     = Some \<lparr>rp_records = open_records sha codec rep, rp_closures = [], rp_other_lines = rp_other_lines rep,
             rp_malformed = 0, rp_oversized = 0, rp_other_kind = length (rp_other_lines rep)\<rparr>"
proof -
  let ?open = "open_records sha codec rep"
  let ?lines = "map (\<lambda>r. case lc_record codec r of None \<Rightarrow> [] | Some s \<Rightarrow> s) ?open"
  obtain rx1 l1 units1 rt1 where r: "replay sha codec True rep now l units rt = (rx1, l1, units1, rt1)"
    by (metis prod.collapse)
  have p: "parse codec fs = Inr rep" using parse_chunks [OF assms(1)] assms(2) by simp
  obtain n keep opn where sel: "select_open sha codec (closed_keys (rp_closures rep)) {} (rp_records rep) = (n, keep, opn)"
    by (rule prod_cases3)
  have opn: "opn = ?open"
    using select_open_spec [OF sel, THEN conjunct1] by (simp only: open_records_def)
  have keep: "keep = ?lines"
    using select_open_spec [OF sel, THEN conjunct2, THEN conjunct2] assms(6) by (simp add: opn)
  obtain res l2 where rest: "restore_outstanding l (map outstanding_of ?open) = (res, l2)" by force
  obtain u2 rt2 rx2 where lst: "list_open sha codec (set (rd_restored res)) {} now ?open units rt
      \<lparr>rx_runs = None, rx_units_restored = 0, rx_units_other_month = 0, rx_units_refused = 0,
       rx_unlisted = 0, rx_closed = n, rx_keep = keep @ rp_other_lines rep\<rparr> = (u2, rt2, rx2)"
    by (rule prod_cases3)
  have out: "rx1 = rx2\<lparr>rx_runs := Some res\<rparr>" "rt1 = rt2"
    using r sel rest lst by (simp_all add: replay_def opn)
  from list_open_keeps [OF lst] have k: "rt_journal rt1 = rt_journal rt" "rx_keep rx1 = ?lines @ rp_other_lines rep"
    by (simp_all add: out keep)
  have j: "rt_journal rt' = Some (concat (map (\<lambda>l. l @ [LF]) (?lines @ rp_other_lines rep)))"
    using assms(3,4) p r k by (auto simp: replay_at_startup_def rewrite_def split: option.splits)
  have other: "list_all (other_line codec) (rp_other_lines rep)"
    using parse_bytes_other assms(2) by simp
  have clean: "\<forall>l \<in> set (?lines @ rp_other_lines rep). LF \<notin> set l"
  proof
    fix x
    assume "x \<in> set (?lines @ rp_other_lines rep)"
    then consider y where "y \<in> set ?open" "x = (case lc_record codec y of None \<Rightarrow> [] | Some s \<Rightarrow> s)"
      | "x \<in> set (rp_other_lines rep)" by auto
    then show "LF \<notin> set x"
    proof cases
      case 1
      with assms(5) have "reads_back codec (Retained_line y)" by (simp add: list_all_iff)
      with 1(2) show ?thesis by (auto simp: reads_back_def serialize_entry_def split: option.splits)
    next
      case 2
      with other show ?thesis by (simp add: list_all_iff other_line_def)
    qed
  qed
  have "fold (add_whole_line codec) ?lines empty_report = empty_report\<lparr>rp_records := rp_records empty_report @ ?open\<rparr>"
    using assms(5) by (intro fold_records) (simp_all add: list_all_iff)
  with parse_lines [OF clean] fold_other [OF other] show ?thesis by (simp add: j empty_report_def)
qed

theorem rewrite_keeps_open_witness:
  "\<exists>rx l' units' rt'.
     replay_at_startup (\<lambda>s. [1]) sample_codec [Chunk ''{'', Chunk (LF # ''{r}'' @ [LF])] True 7 new_ledger
       (unit_ledger_new Map.empty) (with_journal []) = Inr (rx, l', units', rt')
     \<and> map_option (rp_records \<circ> parse_bytes sample_codec) (rt_journal rt') = Some [sample_line]"
proof -
  let ?fs = "[Chunk ''{'', Chunk (LF # ''{r}'' @ [LF])]"
  have rep: "parse_bytes sample_codec (bytes_of ?fs) = sample_report\<lparr>rp_malformed := 1\<rparr>"
    by (simp add: parse_bytes_def add_whole_line_def add_line_def trim_ascii_def ascii_white_def MAX_LINE_BYTES_def
        sample_codec_def empty_report_def sample_report_def)
  have opn: "open_records sha c (sample_report\<lparr>rp_malformed := 1\<rparr>) = [sample_line]" for sha c
    by (simp add: open_records_def sample_report_def empty_report_def closed_keys_def)
  obtain rx l' units' rt' where r: "replay_at_startup (\<lambda>s. [1]) sample_codec ?fs True 7 new_ledger
       (unit_ledger_new Map.empty) (with_journal []) = Inr (rx, l', units', rt')"
    by (rule startup_answers [OF parse_chunks [of ?fs sample_codec]]) simp_all
  have "map_option (parse_bytes sample_codec) (rt_journal rt')
     = Some \<lparr>rp_records = [sample_line], rp_closures = [], rp_other_lines = [], rp_malformed = 0, rp_oversized = 0, rp_other_kind = 0\<rparr>"
  proof -
    have ser: "lc_record sample_codec r = Some ''{r}''" for r by (simp add: sample_codec_def)
    have o: "rp_other_lines (sample_report\<lparr>rp_malformed := 1\<rparr>) = []" by (simp add: sample_report_def empty_report_def)
    show ?thesis
      using rewrite_keeps_open [OF _ rep [symmetric] _ r, unfolded opn o] sample_reads_back
      by (simp add: ser with_journal_def MAX_LINE_BYTES_def)
  qed
  then have "map_option (rp_records \<circ> parse_bytes sample_codec) (rt_journal rt') = Some [sample_line]"
    by (cases "rt_journal rt'") simp_all
  with r show ?thesis by blast
qed

end
