(* ===== verification/Closure_Props.thy ===== *)
theory Closure_Props
  imports Closure Replay_Props
begin

text \<open>
  What closing a retained reservation guarantees: who may, what moves, and that it happens once.
\<close>

section \<open>Tokens\<close>

lemma show_nat_all_digits: "list_all ascii_digit (show_nat n)"
  using show_nat_digits by (auto simp: list_all_iff ascii_digit_def Let_def)

lemma show_nat_nonempty: "show_nat n \<noteq> []"
  by (subst show_nat.simps) simp

lemma show_nat_length: "n < 10 ^ Suc k \<Longrightarrow> length (show_nat n) \<le> Suc k"
proof (induction k arbitrary: n)
  case 0
  then show ?case by (subst show_nat.simps) simp
next
  case (Suc k)
  show ?case
  proof (cases "n < 10")
    case True
    then show ?thesis by (subst show_nat.simps) simp
  next
    case False
    have "n div 10 < 10 ^ Suc k" using Suc.prems by simp
    from Suc.IH [OF this] False show ?thesis by (subst show_nat.simps) simp
  qed
qed

lemma show_nat_decimal: "n < 10 ^ 19 \<Longrightarrow> is_decimal (show_nat n)"
  using show_nat_length [of n 18] by (simp add: is_decimal_def show_nat_all_digits show_nat_nonempty)

lemma decode_hex_lower: "\<forall>x \<in> set xs. x < 256 \<Longrightarrow> decode_hex (hex_lower xs) = Some xs"
proof (induction xs)
  case Nil
  then show ?case by (simp add: hex_lower_def)
next
  case (Cons x xs)
  have d: "lower_hex (hex_digit n) \<and> hex_value (hex_digit n) = n" if "n < 16" for n
    using of_char_hex [OF that] that by (auto simp: lower_hex_def hex_value_def Let_def split: if_splits)
  have "x div 16 < 16" "x mod 16 < 16" using Cons.prems by auto
  with d have "lower_hex (hex_digit (x div 16))" "hex_value (hex_digit (x div 16)) = x div 16"
    "lower_hex (hex_digit (x mod 16))" "hex_value (hex_digit (x mod 16)) = x mod 16" by blast+
  then have "decode_hex (hex_lower (x # xs)) = map_option ((#) (16 * (x div 16) + x mod 16)) (decode_hex (hex_lower xs))"
    by (simp add: hex_lower_def)
  also have "16 * (x div 16) + x mod 16 = x" by simp
  finally show ?case using Cons by simp
qed

lemma hex_lower_length: "length (hex_lower xs) = 2 * length xs"
  by (induction xs) (simp_all add: hex_lower_def)

lemma dot_free: "list_all ascii_digit s \<Longrightarrow> CHR ''.'' \<notin> set s" "list_all lower_hex s \<Longrightarrow> CHR ''.'' \<notin> set s"
  by (auto simp: list_all_iff ascii_digit_def lower_hex_def Let_def)

lemma hex_lower_hex: "\<forall>x \<in> set xs. x < 256 \<Longrightarrow> list_all lower_hex (hex_lower xs)"
proof -
  assume "\<forall>x \<in> set xs. x < 256"
  moreover have "lower_hex (hex_digit n)" if "n < 16" for n
    using of_char_hex [OF that] that by (auto simp: lower_hex_def Let_def split: if_splits)
  ultimately show ?thesis by (auto simp: hex_lower_def list_all_iff)
qed

lemma split_five:
  assumes "c \<notin> set a" and "c \<notin> set b" and "c \<notin> set d" and "c \<notin> set e" and "c \<notin> set f"
  shows "split_on c (a @ c # b @ c # d @ c # e @ c # f) = [a, b, d, e, f]"
  using assms by (simp add: split_on_append split_on_none)

text \<open>The token format works both ways: a token minted for a reservation and its revision is accepted, before
  it expires and within its permitted lifetime, and gives back exactly those.\<close>

lemma verify_minted:
  assumes "is_revision revision" and "i < 10 ^ 19" and "now < expiry" and "expiry - now \<le> MAX_TOKEN_TTL_MILLIS"
    and "0 \<le> now" and "expiry \<le> I64_MAX"
    and "length (hmac secret (mac_message (show_nat i) revision (show_int expiry))) = 32"
    and "list_all (\<lambda>x. x < 256) (hmac secret (mac_message (show_nat i) revision (show_int expiry)))"
  shows "verify_token hmac secret (mint hmac secret i revision expiry) now = Inr (i, revision)"
proof -
  let ?sig = "hmac secret (mac_message (show_nat i) revision (show_int expiry))"
  have e: "show_int expiry = show_nat (nat expiry)" using assms(3,5) by (simp add: show_int_def)
  have small: "nat expiry < 10 ^ 19" using assms(6) by (simp add: machine_bounds)
  have dec: "is_decimal (show_nat i)" "is_decimal (show_nat (nat expiry))"
    using assms(2) small by (simp_all add: show_nat_decimal)
  have sig: "\<forall>x \<in> set ?sig. x < 256" using assms(8) by (simp add: list_all_iff)
  have rev: "length revision = 16" "list_all lower_hex revision" using assms(1) by (simp_all add: is_revision_def)
  have tok: "mint hmac secret i revision expiry
      = ''v1'' @ CHR ''.'' # show_nat i @ CHR ''.'' # revision @ CHR ''.'' # show_nat (nat expiry) @ CHR ''.'' # hex_lower ?sig"
    by (simp add: mint_def e)
  have split: "split_on (CHR ''.'') (mint hmac secret i revision expiry)
      = [''v1'', show_nat i, revision, show_nat (nat expiry), hex_lower ?sig]"
    unfolding tok using rev(2) show_nat_all_digits hex_lower_hex [OF sig]
    by (intro split_five) (simp_all add: dot_free)
  have len: "\<not> MAX_TOKEN_BYTES < length (mint hmac secret i revision expiry)"
    using dec rev(1) assms(7) by (simp add: tok is_decimal_def hex_lower_length MAX_TOKEN_BYTES_def)
  have u: "parse_u64 (show_nat i) = Some i"
    using assms(2) by (simp add: parse_u64_def read_show_nat machine_bounds)
  have x: "parse_i64 (show_nat (nat expiry)) = Some expiry"
    using assms(3,5,6) by (simp add: parse_i64_def read_show_nat)
  have s: "sat_i64 (expiry - now) = expiry - now"
    using assms(3,4) by (intro sat_i64_id) (simp add: in_i64_def machine_bounds MAX_TOKEN_TTL_MILLIS_def)
  show ?thesis
    using dec assms(1,3,4,7)
    by (simp add: verify_token_def len split decode_hex_lower [OF sig, unfolded e] u x s e)
qed

definition zero_mac :: "string \<Rightarrow> string \<Rightarrow> nat list" where
  "zero_mac key msg = replicate 32 0"

definition sample_revision :: string where
  "sample_revision = ''0123456789abcdef''"

lemma sample_revision_ok: "is_revision sample_revision"
  by (simp add: sample_revision_def is_revision_def lower_hex_def)

lemma verify_token_accepts:
  assumes "verify_token hmac secret token now = Inr (i, revision)"
  obtains version di expiry sig where "split_on (CHR ''.'') token = [version, di, revision, expiry, sig]"
    and "is_decimal di" and "is_decimal expiry" and "read_digits di = i"
    and "decode_hex sig = Some (hmac secret (mac_message di revision expiry))"
    and "now < int (read_digits expiry)"
    and "sat_i64 (int (read_digits expiry) - now) \<le> MAX_TOKEN_TTL_MILLIS"
proof -
  obtain version di rvn expiry sig where sp: "split_on (CHR ''.'') token = [version, di, rvn, expiry, sig]"
    using assms by (auto simp: verify_token_def split: list.splits if_splits)
  obtain s where s: "decode_hex sig = Some s"
    using assms sp by (auto simp: verify_token_def split: option.splits if_splits)
  have g: "version = ''v1''" "is_decimal di" "is_decimal expiry" "length s = 32"
    "hmac secret (mac_message di rvn expiry) = s"
    using assms sp s by (auto simp: verify_token_def split: if_splits)
  show thesis
    using assms sp s g
    by (intro that [of version di expiry sig])
      (auto simp: verify_token_def parse_u64_def parse_i64_def not_le split: if_splits)
qed

section \<open>Closing\<close>

lemma journal_closure_frame:
  "journal_closure d codec c rt = (ok, rt') \<Longrightarrow>
     rt' = rt\<lparr>rt_journal := rt_journal rt'\<rparr> \<and> (rt_journal rt = None \<longrightarrow> ok \<and> rt' = rt)"
  by (auto simp: journal_closure_def split: option.splits prod.splits)

lemma journal_closure_written:
  assumes "journal_closure d codec c rt = (True, rt')" and "rt_journal rt = Some bytes"
  shows "\<exists>bytes'. append_closure d codec c bytes = (Inr (), bytes') \<and> rt_journal rt' = Some bytes'"
proof -
  obtain res bytes' where a: "append_closure d codec c bytes = (res, bytes')" by force
  with assms show ?thesis by (cases res) (auto simp: journal_closure_def)
qed

lemma registry_ok_journal [simp]:
  "registry_ok (rt\<lparr>rt_journal := j\<rparr>) = registry_ok rt" "retained_all (rt\<lparr>rt_journal := j\<rparr>) = retained_all rt"
  by (simp_all add: registry_ok_def retained_all_def)

lemma retained_take_journal:
  "retained_take i v (rt\<lparr>rt_journal := j\<rparr>) = None \<longleftrightarrow>
     \<not> (\<exists>e \<in> set (retained_all rt). rv_id (re_run e) = i \<and> re_revision e = v)"
  by (auto simp: retained_take_def take_entry_none retained_all_def)

lemma retained_find_some:
  "retained_find i rt = Some e \<Longrightarrow> e \<in> set (retained_all rt) \<and> rv_id (re_run e) = i"
  unfolding retained_find_def using find_Some_split [of _ "retained_all rt" e] by fastforce

text \<open>The path an applied closure took.\<close>

lemma apply_closure_applied:
  assumes "apply_closure d codec r now b w = (Closed_ok c False, b', w')"
  obtains current rt e rt' where
    "bk_by_operation b (rq_operation_id r) = None" and "bk_closed b (rq_reservation_id r, rq_expected_revision r) = None"
    and "retained_find (rq_reservation_id r) (gw_retained w) = Some current"
    and "re_revision current = rq_expected_revision r"
    and "c = closure_of r current now" and "journal_closure d codec c (gw_retained w) = (True, rt)"
    and "retained_take (rq_reservation_id r) (rq_expected_revision r) rt = Some (e, rt')"
    and "b' = note_closure c b" and "w' = settle_closed r c e now (w\<lparr>gw_retained := rt'\<rparr>)"
proof -
  have op: "bk_by_operation b (rq_operation_id r) = None"
    using assms by (auto simp: apply_closure_def split: option.splits if_splits)
  have cl: "bk_closed b (rq_reservation_id r, rq_expected_revision r) = None"
    using assms op by (auto simp: apply_closure_def split: option.splits)
  obtain current where cur: "retained_find (rq_reservation_id r) (gw_retained w) = Some current"
    using assms op cl by (auto simp: apply_closure_def split: option.splits)
  have rv: "re_revision current = rq_expected_revision r"
    using assms op cl cur by (auto simp: apply_closure_def split: if_splits)
  obtain ok rt where j: "journal_closure d codec (closure_of r current now) (gw_retained w) = (ok, rt)" by force
  have ok: "ok" using assms op cl cur rv j by (auto simp: apply_closure_def Let_def split: if_splits)
  obtain e rt' where t: "retained_take (rq_reservation_id r) (rq_expected_revision r) rt = Some (e, rt')"
    using assms op cl cur rv j ok by (auto simp: apply_closure_def Let_def split: option.splits)
  have "c = closure_of r current now" "b' = note_closure c b" "w' = settle_closed r c e now (w\<lparr>gw_retained := rt'\<rparr>)"
    using assms op cl cur rv j ok t by (auto simp: apply_closure_def Let_def)
  with op cl cur rv j ok t show thesis by (intro that [of current rt e rt']) simp_all
qed

lemma settle_closed_effect:
  "gw_ledger (settle_closed r c e now w) = snd (settle (gw_ledger w) (re_run e) (evidence_amount r))"
  "gw_units (settle_closed r c e now w)
     = (case re_unit e of None \<Rightarrow> gw_units w | Some ur \<Rightarrow> unit_settle (gw_units w) ur (evidence_amount r) now)"
  "gw_rows (settle_closed r c e now w)
     = gw_rows w @ (if rq_evidence_kind r = Observed then [closure_row e (evidence_amount r) now] else [])"
  "gw_retained (settle_closed r c e now w) = gw_retained w"
  "gw_events (settle_closed r c e now w)
     = gw_events w @ [Retained_closed now (map_option ra_agent_id (re_attribution e)) (cr_run_id c) c]"
  by (simp_all add: settle_closed_def Let_def split: option.splits)

text \<open>C8. A closure moves money once. The first time it settles both halves of one listed reservation of the
  request's id and revision at what the evidence shows (nothing for no-charge), takes it off the
  list, writes one row exactly when a cost was observed, and reports one event. Every later attempt
  with the same operation id answers the same record when the content is the same and a conflict
  otherwise, and another operation on that reservation is told it is closed; none of them changes
  anything.\<close>

theorem closure_applied_once:
  assumes "registry_ok (gw_retained w)" and "apply_closure d codec r now b w = (Closed_ok c False, b', w')"
  shows "(\<exists>e. rv_id (re_run e) = rq_reservation_id r \<and> re_revision e = rq_expected_revision r
       \<and> mset (retained_all (gw_retained w)) = add_mset e (mset (retained_all (gw_retained w')))
       \<and> registry_ok (gw_retained w')
       \<and> both_settled (re_run e) (re_unit e) (evidence_amount r) now w w' \<and> cr_settled c = evidence_amount r
       \<and> gw_rows w' = gw_rows w @ (if rq_evidence_kind r = Observed then [closure_row e (evidence_amount r) now] else [])
       \<and> length (gw_events w') = Suc (length (gw_events w)))
     \<and> apply_closure d2 codec2 (r2\<lparr>rq_operation_id := rq_operation_id r\<rparr>) now2 b' w2
       = (if content_of r2 = content_of r then Closed_ok c True else Close_refused 409 ''closure_conflict'', b', w2)
     \<and> (bk_by_operation b (rq_operation_id r2) = None \<and> rq_operation_id r2 \<noteq> rq_operation_id r \<longrightarrow>
        apply_closure d2 codec2 (r2\<lparr>rq_reservation_id := rq_reservation_id r, rq_expected_revision := rq_expected_revision r\<rparr>)
          now2 b' w2 = (Close_refused 409 ''already_closed'', b', w2))"
proof -
  from apply_closure_applied [OF assms(2)] obtain current rt e rt' where
    c: "c = closure_of r current now" and j: "journal_closure d codec c (gw_retained w) = (True, rt)"
    and t: "retained_take (rq_reservation_id r) (rq_expected_revision r) rt = Some (e, rt')"
    and b': "b' = note_closure c b" and w': "w' = settle_closed r c e now (w\<lparr>gw_retained := rt'\<rparr>)" by metis
  obtain jn where rt: "rt = (gw_retained w)\<lparr>rt_journal := jn\<rparr>" using journal_closure_frame [OF j] by blast
  have "registry_ok rt" using assms(1) by (simp add: rt)
  from retained_take_ok [OF this t] have e: "registry_ok rt'"
    "mset (retained_all (gw_retained w)) = add_mset e (mset (retained_all rt'))"
    "rv_id (re_run e) = rq_reservation_id r" "re_revision e = rq_expected_revision r"
    by (simp_all add: rt)
  have moved: "both_settled (re_run e) (re_unit e) (evidence_amount r) now w w'" "gw_retained w' = rt'"
    "gw_rows w' = gw_rows w @ (if rq_evidence_kind r = Observed then [closure_row e (evidence_amount r) now] else [])"
    "length (gw_events w') = Suc (length (gw_events w))"
    by (simp_all add: w' both_settled_def settle_closed_effect split: option.split)
  have again: "content_of_record c = content_of r" "cr_operation_id c = rq_operation_id r"
    "cr_reservation_id c = rq_reservation_id r" "cr_revision c = rq_expected_revision r" "cr_settled c = evidence_amount r"
    by (simp_all add: c closure_of_def content_of_def content_of_record_def)
  have "content_of (r2\<lparr>rq_operation_id := x\<rparr>) = content_of r2" for x by (simp add: content_of_def)
  then have "apply_closure d2 codec2 (r2\<lparr>rq_operation_id := rq_operation_id r\<rparr>) now2 b' w2
       = (if content_of r2 = content_of r then Closed_ok c True else Close_refused 409 ''closure_conflict'', b', w2)"
    by (simp add: apply_closure_def b' note_closure_def again eq_commute [of "content_of r"])
  moreover have "bk_by_operation b (rq_operation_id r2) = None \<and> rq_operation_id r2 \<noteq> rq_operation_id r \<longrightarrow>
        apply_closure d2 codec2 (r2\<lparr>rq_reservation_id := rq_reservation_id r, rq_expected_revision := rq_expected_revision r\<rparr>)
          now2 b' w2 = (Close_refused 409 ''already_closed'', b', w2)"
    by (simp add: apply_closure_def b' note_closure_def again)
  ultimately show ?thesis using e moved again(5) by blast
qed

definition kept_entry :: retained_reservation where
  "kept_entry = \<lparr>re_run = two_level_hold, re_unit = None, re_model = ''m'', re_retained_at = 5,
     re_revision = sample_revision, re_attribution = None\<rparr>"

definition kept_gateway :: "string option \<Rightarrow> gateway" where
  "kept_gateway j = sample_gateway\<lparr>gw_retained := (snd (retained_push kept_entry retained_new))\<lparr>rt_journal := j\<rparr>\<rparr>"

definition sample_request :: close_request where
  "sample_request = \<lparr>rq_reservation_id = 1, rq_expected_revision = sample_revision, rq_operation_id = ''op'',
     rq_evidence_kind = Observed, rq_observed = Some 20, rq_evidence_ref = ''invoice''\<rparr>"

lemma kept_registry_ok: "registry_ok (gw_retained (kept_gateway j))"
  using retained_push_ok [OF registry_new(1), of kept_entry] by (simp add: kept_gateway_def)

lemma kept_closes:
  assumes "lc_closure codec (closure_of sample_request kept_entry now) = Some s" and "length s < MAX_LINE_BYTES"
  shows "\<exists>w'. apply_closure Disk_ok codec sample_request now books_new (kept_gateway j)
      = (Closed_ok (closure_of sample_request kept_entry now) False,
         note_closure (closure_of sample_request kept_entry now) books_new, w')
     \<and> rt_journal (gw_retained w') = map_option (\<lambda>b. b @ s @ [LF]) j"
proof -
  let ?c = "closure_of sample_request kept_entry now" and ?rt = "gw_retained (kept_gateway j)"
  have rt: "rt_by_run ?rt = [(''leaf'', [kept_entry])]" "rt_journal ?rt = j"
    by (simp_all add: kept_gateway_def retained_push_def retained_new_def MAX_RETAINED_def kept_entry_def two_level_hold_def)
  have f: "retained_find 1 ?rt = Some kept_entry"
    by (simp add: retained_find_def retained_all_def rt kept_entry_def two_level_hold_def)
  have t: "\<exists>rt'. retained_take 1 sample_revision (?rt\<lparr>rt_journal := j'\<rparr>) = Some (kept_entry, rt') \<and> rt_journal rt' = j'" for j'
    by (simp add: retained_take_def rt kept_entry_def two_level_hold_def)
  have jc: "journal_closure Disk_ok codec ?c ?rt = (True, ?rt\<lparr>rt_journal := map_option (\<lambda>b. b @ s @ [LF]) j\<rparr>)"
    using assms rt(2) by (cases j) (simp_all add: journal_closure_def append_closure_def append_line_def write_all_def)
  obtain rt' where "retained_take 1 sample_revision (?rt\<lparr>rt_journal := map_option (\<lambda>b. b @ s @ [LF]) j\<rparr>) = Some (kept_entry, rt')"
    "rt_journal rt' = map_option (\<lambda>b. b @ s @ [LF]) j" using t by blast
  moreover have "rq_reservation_id sample_request = 1" "rq_expected_revision sample_request = sample_revision"
    "re_revision kept_entry = sample_revision" by (simp_all add: sample_request_def kept_entry_def)
  ultimately show ?thesis using f jc
    by (simp add: apply_closure_def books_new_def Let_def settle_closed_effect)
qed

definition closing_codec :: line_codec where
  "closing_codec = sample_codec\<lparr>lc_closure := (\<lambda>c. Some ''{c}''),
     lc_kind_of := (\<lambda>s. if s = ''{c}'' then Some KIND_CLOSURE else None),
     lc_read_closure := (\<lambda>s. if s = ''{c}'' then Some (closure_of sample_request kept_entry 9) else None)\<rparr>"

lemma closing_line: "lc_closure closing_codec c = Some ''{c}''" "length ''{c}'' < MAX_LINE_BYTES"
  by (simp_all add: closing_codec_def MAX_LINE_BYTES_def)

theorem closure_applied_once_witness:
  "\<exists>c b' w'. apply_closure Disk_ok closing_codec sample_request 9 books_new (kept_gateway None) = (Closed_ok c False, b', w')
     \<and> cr_settled c = 20 \<and> length (gw_events w') = 1
     \<and> apply_closure Disk_ok closing_codec (sample_request\<lparr>rq_operation_id := ''op''\<rparr>) 10 b' w' = (Closed_ok c True, b', w')"
proof -
  obtain w' where a: "apply_closure Disk_ok closing_codec sample_request 9 books_new (kept_gateway None)
      = (Closed_ok (closure_of sample_request kept_entry 9) False,
         note_closure (closure_of sample_request kept_entry 9) books_new, w')"
    using kept_closes [OF closing_line] by blast
  have e: "gw_events (kept_gateway None) = []" by (simp add: kept_gateway_def sample_gateway_def)
  have o: "rq_operation_id sample_request = ''op''" "evidence_amount sample_request = 20"
    by (simp_all add: sample_request_def evidence_amount_def)
  from closure_applied_once [OF kept_registry_ok a, of Disk_ok closing_codec sample_request 10 w'] a e o
  show ?thesis by auto
qed

text \<open>C40. A closure that is refused, and a replayed one, leaves the world alone: the books, both ledgers, the
  list, the rows and the events are as they were. Only a failed journal write may have touched
  anything, and then only the journal file; and no request that found its reservation at the expected
  revision is refused for any other reason than that write or an earlier closure.\<close>

theorem closure_refusal_changes_nothing:
  "(case apply_closure d codec r now b w of
      (Close_refused status kind, b', w') \<Rightarrow>
         b' = b
         \<and> (if kind = ''journal_write_failed''
            then status = 500 \<and> rt_journal (gw_retained w) \<noteq> None
                 \<and> w' = w\<lparr>gw_retained := (gw_retained w)\<lparr>rt_journal := rt_journal (gw_retained w')\<rparr>\<rparr>
            else w' = w \<and> (status, kind) \<in> {(409, ''closure_conflict''), (409, ''already_closed''),
                             (404, ''not_retained''), (409, ''stale_revision'')})
    | (Closed_ok c replayed, b', w') \<Rightarrow>
         if replayed then b' = b \<and> w' = w
         else bk_by_operation b' (rq_operation_id r) = Some (content_of r, c))"
proof (cases "bk_by_operation b (rq_operation_id r)")
  case (Some rec)
  then show ?thesis by (cases rec) (simp add: apply_closure_def)
next
  case None
  note op = None
  show ?thesis
  proof (cases "bk_closed b (rq_reservation_id r, rq_expected_revision r)")
    case (Some x)
    with op show ?thesis by (simp add: apply_closure_def)
  next
    case None
    note cl = None
    show ?thesis
    proof (cases "retained_find (rq_reservation_id r) (gw_retained w)")
      case None
      with op cl show ?thesis by (simp add: apply_closure_def)
    next
      case (Some current)
      note cur = Some
      show ?thesis
      proof (cases "re_revision current = rq_expected_revision r")
        case False
        with op cl cur show ?thesis by (simp add: apply_closure_def)
      next
        case True
        obtain ok rt where j: "journal_closure d codec (closure_of r current now) (gw_retained w) = (ok, rt)" by force
        have rt: "rt = (gw_retained w)\<lparr>rt_journal := rt_journal rt\<rparr>"
          "rt_journal (gw_retained w) = None \<longrightarrow> ok" using journal_closure_frame [OF j] by blast+
        show ?thesis
        proof (cases ok)
          case False
          have "apply_closure d codec r now b w = (Close_refused 500 ''journal_write_failed'', b, w\<lparr>gw_retained := rt\<rparr>)"
            using op cl cur True j False by (simp add: apply_closure_def)
          moreover have "w\<lparr>gw_retained := rt\<rparr> = w\<lparr>gw_retained := (gw_retained w)\<lparr>rt_journal := rt_journal rt\<rparr>\<rparr>"
            using rt(1) by simp
          ultimately show ?thesis using rt(2) False by simp
        next
          case ok: True
          have "retained_take (rq_reservation_id r) (rq_expected_revision r) rt \<noteq> None"
            using retained_find_some [OF cur] True
              retained_take_journal [where rt = "gw_retained w" and j = "rt_journal rt", folded rt(1)] by blast
          then obtain e rt' where t: "retained_take (rq_reservation_id r) (rq_expected_revision r) rt = Some (e, rt')"
            by auto
          have "content_of_record (closure_of r current now) = content_of r"
            "cr_operation_id (closure_of r current now) = rq_operation_id r"
            by (simp_all add: closure_of_def content_of_def content_of_record_def)
          with op cl cur True j ok t show ?thesis by (simp add: apply_closure_def note_closure_def Let_def)
        qed
      qed
    qed
  qed
qed

section \<open>Who may close\<close>

text \<open>C29. Nothing is closed without a person's token: whenever the handler closes a reservation, or answers
  a closure again, the request is well formed and the header carries a token whose signature is the
  secret's over exactly that reservation id, that revision and an expiry that lies ahead of now, and
  no further than the permitted lifetime.\<close>

theorem close_needs_token:
  assumes "close hmac read d codec door body header now b w = (Closed_ok c replayed, b', w')"
    and "in_i64 now" and "0 \<le> now"
  shows "\<exists>secret token r di expiry version sig.
     door = Some secret \<and> header = Some token \<and> read body = Some r \<and> valid_request r
     \<and> split_on (CHR ''.'') (trim_ascii token) = [version, di, rq_expected_revision r, expiry, sig]
     \<and> decode_hex sig = Some (hmac secret (mac_message di (rq_expected_revision r) expiry))
     \<and> is_decimal di \<and> read_digits di = rq_reservation_id r
     \<and> now < int (read_digits expiry) \<and> int (read_digits expiry) \<le> now + MAX_TOKEN_TTL_MILLIS
     \<and> apply_closure d codec r now b w = (Closed_ok c replayed, b', w')"
proof -
  obtain secret where s: "door = Some secret" using assms(1) by (auto simp: close_def split: option.splits)
  obtain r where r: "read body = Some r" using assms(1) s by (auto simp: close_def split: option.splits)
  have v: "valid_request r" using assms(1) s r by (auto simp: close_def split: if_splits)
  obtain token where h: "header = Some token" using assms(1) s r v by (auto simp: close_def split: option.splits)
  obtain x where x: "verify_token hmac secret (trim_ascii token) now = Inr x"
    using assms(1) s r v h by (auto simp: close_def split: sum.splits token_error.splits)
  obtain i rvn where ir: "x = (i, rvn)" by force
  have eq: "i = rq_reservation_id r" "rvn = rq_expected_revision r"
    "apply_closure d codec r now b w = (Closed_ok c replayed, b', w')"
    using assms(1) s r v h x ir by (auto simp: close_def split: if_splits)
  from verify_token_accepts [OF x [unfolded ir eq(1,2)]] obtain version di expiry sig where
    t: "split_on (CHR ''.'') (trim_ascii token) = [version, di, rq_expected_revision r, expiry, sig]"
      "is_decimal di" "read_digits di = rq_reservation_id r"
      "decode_hex sig = Some (hmac secret (mac_message di (rq_expected_revision r) expiry))"
      "now < int (read_digits expiry)" "sat_i64 (int (read_digits expiry) - now) \<le> MAX_TOKEN_TTL_MILLIS"
    by metis
  have "int (read_digits expiry) \<le> now + MAX_TOKEN_TTL_MILLIS"
    using t(5,6) by (auto simp: sat_i64_def machine_bounds MAX_TOKEN_TTL_MILLIS_def max_def min_def split: if_splits)
  with s h r v t eq(3) show ?thesis by blast
qed

lemma ascii_white_of_char: "ascii_white c \<Longrightarrow> (of_char c :: nat) \<in> {32, 9, 10, 12, 13}"
  by (auto simp: ascii_white_def)

lemma trim_ascii_clean:
  assumes "s = c # cs" and "\<not> ascii_white c" and "\<not> ascii_white (last s)"
  shows "trim_ascii s = s"
proof -
  obtain ys where ys: "s = ys @ [last s]" using assms(1) by (metis append_butlast_last_id list.simps(3))
  have "dropWhile ascii_white s = s" using assms(1,2) by simp
  moreover have "dropWhile ascii_white (rev s) = rev s"
  proof -
    have "rev s = last s # rev ys" by (subst ys) simp
    then show ?thesis using assms(3) by (metis dropWhile.simps(2))
  qed
  ultimately show ?thesis by (simp add: trim_ascii_def)
qed

lemma sample_token:
  "trim_ascii (mint zero_mac ''k'' 1 sample_revision 9000) = mint zero_mac ''k'' 1 sample_revision 9000"
proof (rule trim_ascii_clean)
  show "mint zero_mac ''k'' 1 sample_revision 9000 = CHR ''v'' # tl (mint zero_mac ''k'' 1 sample_revision 9000)"
    by (simp add: mint_def)
  show "\<not> ascii_white (CHR ''v'')" by (simp add: ascii_white_def)
  have h: "hex_lower (replicate 32 0) \<noteq> []" using hex_lower_length [of "replicate 32 0"] by fastforce
  have "last (mint zero_mac ''k'' 1 sample_revision 9000) = last (hex_lower (replicate 32 0))"
    using h by (simp add: mint_def zero_mac_def)
  moreover have "lower_hex (last (hex_lower (replicate 32 0)))"
    using h hex_lower_hex [of "replicate 32 0"] by (simp add: list_all_iff)
  moreover have "\<not> ascii_white c" if "lower_hex c" for c
    using that ascii_white_of_char [of c] by (auto simp: lower_hex_def Let_def)
  ultimately show "\<not> ascii_white (last (mint zero_mac ''k'' 1 sample_revision 9000))" by simp
qed

theorem close_needs_token_witness:
  "\<exists>c b' w'. close zero_mac (\<lambda>s. Some sample_request) Disk_ok closing_codec (Some ''k'') []
       (Some (mint zero_mac ''k'' 1 sample_revision 9000)) 9 books_new (kept_gateway None) = (Closed_ok c False, b', w')
     \<and> (\<exists>di sig version expiry. split_on (CHR ''.'') (mint zero_mac ''k'' 1 sample_revision 9000)
           = [version, di, sample_revision, expiry, sig] \<and> read_digits di = 1)"
proof -
  have v: "verify_token zero_mac ''k'' (mint zero_mac ''k'' 1 sample_revision 9000) 9 = Inr (1, sample_revision)"
    by (rule verify_minted [OF sample_revision_ok])
      (simp_all add: zero_mac_def MAX_TOKEN_TTL_MILLIS_def machine_bounds list_all_iff)
  have q: "valid_request sample_request" "rq_reservation_id sample_request = 1"
    "rq_expected_revision sample_request = sample_revision"
    using sample_revision_ok
    by (simp_all add: valid_request_def sample_request_def MAX_OPERATION_ID_BYTES_def MAX_EVIDENCE_REF_BYTES_def
        ascii_graphic_def trim_start.simps white1_def white2_def white3_def)
  obtain c b' w' where a: "apply_closure Disk_ok closing_codec sample_request 9 books_new (kept_gateway None) = (Closed_ok c False, b', w')"
    using kept_closes [OF closing_line] by blast
  have cl: "close zero_mac (\<lambda>s. Some sample_request) Disk_ok closing_codec (Some ''k'') []
       (Some (mint zero_mac ''k'' 1 sample_revision 9000)) 9 books_new (kept_gateway None) = (Closed_ok c False, b', w')"
    using v q a by (simp add: close_def sample_token [unfolded One_nat_def])
  from close_needs_token [OF cl] q(2,3) sample_token cl show ?thesis
    by (auto simp: in_i64_def machine_bounds)
qed

text \<open>A closed reservation stays closed across a restart: once a closure has been written to the
  journal and applied, the journal read back, whatever else was in it, has no open record of that
  reservation and revision, so a replay does not put it back.\<close>

lemma closed_stays_closed:
  assumes "apply_closure Disk_ok codec r now b w = (Closed_ok c False, b', w')"
    and "rt_journal (gw_retained w) = Some bytes" and "ends_line bytes" and "reads_back codec (Closure_line c)"
    and "list_all fill_ok fs" and "rt_journal (gw_retained w') = Some (bytes_of fs)"
  shows "\<exists>rep. parse codec fs = Inr rep
     \<and> rp_records rep = rp_records (parse_bytes codec bytes)
     \<and> open_records sha codec rep
         = filter (\<lambda>x. \<not> (rv_id (jr_run x) = rq_reservation_id r \<and> revision_of sha codec x = rq_expected_revision r))
             (open_records sha codec (parse_bytes codec bytes))"
proof -
  from apply_closure_applied [OF assms(1)] obtain current rt e rt' where
    c: "c = closure_of r current now" and j: "journal_closure Disk_ok codec c (gw_retained w) = (True, rt)"
    and t: "retained_take (rq_reservation_id r) (rq_expected_revision r) rt = Some (e, rt')"
    and w': "w' = settle_closed r c e now (w\<lparr>gw_retained := rt'\<rparr>)" by metis
  obtain u bytes' where a: "append_closure Disk_ok codec c bytes = (Inr u, bytes')" "rt_journal rt = Some bytes'"
    using journal_closure_written [OF j assms(2)] by blast
  have "rt_journal rt' = Some bytes'" using t a(2) by (auto simp: retained_take_def)
  then have bytes': "bytes' = bytes_of fs" using assms(6) by (simp add: w' settle_closed_effect)
  have "append_all codec [Closure_line c] bytes = Inr bytes'" using a(1) by (simp add: append_entry_def)
  from append_all_reads_back [OF this _ assms(3)] assms(4)
  have rep: "parse_bytes codec bytes' = add_entries [Closure_line c] (parse_bytes codec bytes)" by simp
  have key: "(cr_reservation_id c, cr_revision c) = (rq_reservation_id r, rq_expected_revision r)"
    by (simp add: c closure_of_def)
  let ?rep = "add_entries [Closure_line c] (parse_bytes codec bytes)"
  have "closed_keys (rp_closures ?rep)
      = insert (rq_reservation_id r, rq_expected_revision r) (closed_keys (rp_closures (parse_bytes codec bytes)))"
    using key by (simp add: closed_keys_def add_entries_def)
  then have "open_records sha codec ?rep
         = filter (\<lambda>x. \<not> (rv_id (jr_run x) = rq_reservation_id r \<and> revision_of sha codec x = rq_expected_revision r))
             (open_records sha codec (parse_bytes codec bytes))"
    by (simp add: open_records_def add_entries_def) (rule filter_cong, auto)
  with parse_chunks [OF assms(5), of codec] rep bytes' show ?thesis
    by (simp add: add_entries_def)
qed

theorem closed_stays_closed_witness:
  "\<exists>c b' w' rep. apply_closure Disk_ok closing_codec sample_request 9 books_new (kept_gateway (Some []))
       = (Closed_ok c False, b', w')
     \<and> parse closing_codec [Chunk (''{c}'' @ [LF])] = Inr rep \<and> open_records (\<lambda>s. [1]) closing_codec rep = []"
proof -
  obtain w' where a: "apply_closure Disk_ok closing_codec sample_request 9 books_new (kept_gateway (Some []))
      = (Closed_ok (closure_of sample_request kept_entry 9) False,
         note_closure (closure_of sample_request kept_entry 9) books_new, w')"
    and j: "rt_journal (gw_retained w') = Some (bytes_of [Chunk (''{c}'' @ [LF])])"
    using kept_closes [OF closing_line, of 9 "Some []"] by auto
  have k: "rt_journal (gw_retained (kept_gateway (Some []))) = Some []" by (simp add: kept_gateway_def)
  have r: "reads_back closing_codec (Closure_line (closure_of sample_request kept_entry 9))"
    by (simp add: reads_back_def serialize_entry_def closing_codec_def trim_ascii_def ascii_white_def)
  have e: "open_records sha closing_codec (parse_bytes closing_codec []) = []" for sha
    by (simp add: open_records_def parse_bytes_def empty_report_def)
  from closed_stays_closed [OF a k _ r _ j, of "\<lambda>s. [1]"] a e show ?thesis by (auto simp: ends_line_def)
qed

end
