(* ===== verification/Managed_Call.thy ===== *)
theory Managed_Call
  imports Settle Estimate
begin

text \<open>
  The money path of \<open>handle_call\<close> in \<open>crates/gateway/src/proxy.rs\<close>, with the parts of \<open>AppState\<close> it
  reads and writes (\<open>state.rs\<close>): the budget a call is opened at, its parent, the kill switch, the
  policy and loop gates, the two budget gates, and the guard from its creation to the end of the
  answer. The stages between them (identity, content scanning, the cache, WASM and Wardryx
  policies) neither open, reserve nor settle anything, so each is an argument that says whether it
  answered the call. Time, hashing, JSON, the disk and the printing of figures are arguments; log lines are
  left out.
\<close>

section \<open>State and arguments\<close>

definition DEFAULT_RUN_BUDGET :: microusd where "DEFAULT_RUN_BUDGET = 5000000"
definition CLAMP_LOG_CAP :: nat where "CLAMP_LOG_CAP = 8192"

record 'g front =
  fr_gate :: gateway
  fr_policy :: "'g policy"
  fr_policy_id :: string
  fr_max_run_budget :: "microusd option"
  fr_cloud_budgets :: "string \<rightharpoonup> microusd"
  fr_run_seed :: "string \<rightharpoonup> microusd"
  fr_restored_unbudgeted :: "string set"
  fr_killed :: "string set"
  fr_history :: "string \<rightharpoonup> nat list"
  fr_clamp_logged :: "string set"
  fr_raise_logged :: "string set"
  fr_events_enabled :: bool

text \<open>
  What the handler has read from the request when it reaches the ledger. \<open>rq_attr\<close> is the attribution
  without its parent; \<open>rq_routed_len\<close> is the length of the body after the router and
  \<open>rq_body_len\<close> after masking as well.
\<close>

record call_request =
  rq_run :: string
  rq_parent_header :: "string option"
  rq_budget_header :: "microusd option"
  rq_attr :: call_attribution
  rq_event_agent :: string
  rq_chain :: "string list"
  rq_proof :: "string option"
  rq_routed_len :: nat
  rq_body_len :: nat
  rq_max_tokens :: "nat option"
  rq_completions :: nat
  rq_stream :: bool
  rq_signatures :: "nat list"

record stages =
  st_foreign_parent :: "string \<Rightarrow> bool"
  st_seed_pending :: "string option"
  st_before_kill :: bool
  st_after_kill :: bool
  st_after_policy :: bool

datatype sent = Sent nat "parsed_usage option" "parsed_usage option" | Send_not_sent | Send_lost

record 'g call_env =
  ce_show_usd :: "microusd \<Rightarrow> string"
  ce_grows :: "'g \<Rightarrow> nat \<Rightarrow> nat \<Rightarrow> bool"
  ce_show_factor :: "'g \<Rightarrow> string"
  ce_sha :: "string \<Rightarrow> nat list"
  ce_codec :: line_codec
  ce_disk :: disk
  ce_now :: int
  ce_settled_at :: int
  ce_row_at :: int

datatype answer =
    Foreign_parent string
  | Seed_pending string
  | Parent_run_refused open_error
  | Other_stage
  | Blocked "microusd breaker_verdict"
  | Upstream_error
  | Provider_answer nat "string option"

abbreviation fr_ledger :: "'g front \<Rightarrow> ledger" where
  "fr_ledger f \<equiv> gw_ledger (fr_gate f)"

definition put_ledger :: "ledger \<Rightarrow> 'g front \<Rightarrow> 'g front" where
  "put_ledger l f = f\<lparr>fr_gate := (fr_gate f)\<lparr>gw_ledger := l\<rparr>\<rparr>"

definition sink_row :: "call_record \<Rightarrow> 'g front \<Rightarrow> 'g front" where
  "sink_row row f = f\<lparr>fr_gate := (fr_gate f)\<lparr>gw_rows := gw_rows (fr_gate f) @ [row]\<rparr>\<rparr>"

definition emit :: "bus_event list \<Rightarrow> 'g front \<Rightarrow> 'g front" where
  "emit evs f = f\<lparr>fr_gate := (fr_gate f)\<lparr>gw_events := gw_events (fr_gate f) @ evs\<rparr>\<rparr>"

section \<open>Small operations of \<open>AppState\<close>\<close>

definition note_once :: "string \<Rightarrow> string set \<Rightarrow> bool \<times> string set" where
  "note_once k seen =
     (let seen' = (if CLAMP_LOG_CAP \<le> card seen \<and> k \<notin> seen then {} else seen)
      in (k \<notin> seen', insert k seen'))"

definition note_budget_clamp :: "string \<Rightarrow> 'g front \<Rightarrow> bool \<times> 'g front" where
  "note_budget_clamp k f =
     (let (first, seen) = note_once k (fr_clamp_logged f) in (first, f\<lparr>fr_clamp_logged := seen\<rparr>))"

definition note_budget_raise_refused :: "string \<Rightarrow> 'g front \<Rightarrow> bool \<times> 'g front" where
  "note_budget_raise_refused k f =
     (let (first, seen) = note_once k (fr_raise_logged f) in (first, f\<lparr>fr_raise_logged := seen\<rparr>))"

definition cloud_budget :: "'g front \<Rightarrow> string \<Rightarrow> microusd option" where
  "cloud_budget f k = fr_cloud_budgets f k"

definition take_run_seed :: "string \<Rightarrow> 'g front \<Rightarrow> microusd option \<times> 'g front" where
  "take_run_seed k f = (fr_run_seed f k, f\<lparr>fr_run_seed := (fr_run_seed f)(k := None)\<rparr>)"

definition clear_restored_unbudgeted :: "string \<Rightarrow> 'g front \<Rightarrow> 'g front" where
  "clear_restored_unbudgeted k f = f\<lparr>fr_restored_unbudgeted := fr_restored_unbudgeted f - {k}\<rparr>"

definition record_input :: "string \<Rightarrow> nat \<Rightarrow> 'g front \<Rightarrow> nat list \<times> 'g front" where
  "record_input k n f =
     (let entry = (case fr_history f k of None \<Rightarrow> [] | Some h \<Rightarrow> h) @ [n];
          entry' = drop (length entry - 128) entry
      in (entry', f\<lparr>fr_history := (fr_history f)(k \<mapsto> entry')\<rparr>))"

definition credit_run_seed_if_any :: "string \<Rightarrow> nat \<Rightarrow> 'g front \<Rightarrow> 'g front" where
  "credit_run_seed_if_any k g f =
     (case take_run_seed k f of
        (None, f1) \<Rightarrow> f1
      | (Some seed, f1) \<Rightarrow> put_ledger (snd (seed_spend (fr_ledger f1) k seed g)) f1)"

section \<open>The budget a call asks for\<close>

definition apply_run_budget_ceiling ::
  "microusd \<Rightarrow> bool \<Rightarrow> microusd option \<Rightarrow> microusd \<times> microusd option" where
  "apply_run_budget_ceiling budget cloud_set ceiling =
     (case ceiling of
        Some c \<Rightarrow> if \<not> cloud_set \<and> c < budget then (c, Some c) else (budget, None)
      | None \<Rightarrow> (budget, None))"

text \<open>The figure in the two headers: whole dollars, and at least two of six decimals.\<close>

definition pad_zeros :: "nat \<Rightarrow> string \<Rightarrow> string" where
  "pad_zeros n s = replicate (n - length s) (CHR ''0'') @ s"

definition trim_zeros :: "string \<Rightarrow> string" where
  "trim_zeros s = rev (dropWhile (\<lambda>c. c = CHR ''0'') (rev s))"

definition ceiling_usd_string :: "microusd \<Rightarrow> string" where
  "ceiling_usd_string ceiling =
     (let micro = nat (max ceiling 0);
          frac = trim_zeros (pad_zeros 6 (show_nat (micro mod 1000000)))
      in show_nat (micro div 1000000) @ ''.'' @ frac @ replicate (2 - length frac) (CHR ''0''))"

definition budget_headers :: "microusd option \<Rightarrow> microusd option \<Rightarrow> (string \<times> string) list" where
  "budget_headers clamped raise_kept =
     (case clamped of None \<Rightarrow> [] | Some c \<Rightarrow> [(''x-fuse-budget-clamped'', ceiling_usd_string c)])
     @ (case raise_kept of None \<Rightarrow> []
        | Some k \<Rightarrow> [(''x-fuse-budget'', ''raise-refused; kept='' @ ceiling_usd_string k)])"

definition declared_parent :: "call_request \<Rightarrow> string option" where
  "declared_parent q = (case rq_parent_header q of None \<Rightarrow> None | Some p \<Rightarrow> if p = [] then None else Some p)"

definition resolve_budget ::
  "call_request \<Rightarrow> 'g front \<Rightarrow> (microusd \<times> budget_basis \<times> microusd option) \<times> 'g front" where
  "resolve_budget q f =
     (let cloud = cloud_budget f (rq_run q);
          basis = (if cloud \<noteq> None then Operator else Caller);
          requested = (case cloud of Some b \<Rightarrow> b
                       | None \<Rightarrow> (case rq_budget_header q of Some b \<Rightarrow> b
                                  | None \<Rightarrow> (case po_budget_per_run (fr_policy f) of Some b \<Rightarrow> b
                                             | None \<Rightarrow> DEFAULT_RUN_BUDGET)));
          (budget, hit) = apply_run_budget_ceiling requested (cloud \<noteq> None) (fr_max_run_budget f)
      in ((budget, basis, hit),
          if hit = None then f else snd (note_budget_clamp (rq_run q) f)))"

section \<open>Opening the parent and the run\<close>

text \<open>A declared parent the operator budgeted is opened, or given that budget, on first sight.\<close>

definition first_sight_parent :: "string \<Rightarrow> string option \<Rightarrow> 'g front \<Rightarrow> 'g front" where
  "first_sight_parent run_id parent f =
     (case parent of
        None \<Rightarrow> f
      | Some p \<Rightarrow>
          if p = run_id then f
          else if snapshot (fr_ledger f) p = None
          then (case cloud_budget f p of
                  None \<Rightarrow> f
                | Some b \<Rightarrow>
                    (case open_run (fr_ledger f) p b None of
                       (Inr o', l) \<Rightarrow> credit_run_seed_if_any p (op_generation o') (put_ledger l f)
                     | (Inl _, l) \<Rightarrow> put_ledger l f))
          else if p \<in> fr_restored_unbudgeted f
          then (case cloud_budget f p of
                  None \<Rightarrow> f
                | Some b \<Rightarrow>
                    (case open_run (fr_ledger f) p b None of
                       (Inr _, l) \<Rightarrow> clear_restored_unbudgeted p (put_ledger l f)
                     | (Inl _, l) \<Rightarrow> put_ledger l f))
          else f)"

text \<open>The run itself: the budget it now holds, its parent, and the budget a refused raise left it.\<close>

definition open_this_run ::
  "string \<Rightarrow> microusd \<Rightarrow> string option \<Rightarrow> budget_basis \<Rightarrow> 'g front
     \<Rightarrow> (microusd \<times> string \<times> microusd option, open_error) res \<times> 'g front" where
  "open_this_run run_id budget parent basis f =
     (let run_is_fresh = snapshot (fr_ledger f) run_id = None
      in case open_run_as (fr_ledger f) run_id budget parent basis of
           (Inl e, l) \<Rightarrow> (Inl e, put_ledger l f)
         | (Inr o', l) \<Rightarrow>
             let f1 = put_ledger l f;
                 f2 = (if run_is_fresh then credit_run_seed_if_any run_id (op_generation o') f1 else f1);
                 kept = (if op_raise_refused o' = None then None else Some (op_budget o'));
                 f3 = (if kept = None then f2 else snd (note_budget_raise_refused run_id f2))
             in (Inr (op_budget o', case op_parent o' of None \<Rightarrow> [] | Some p \<Rightarrow> p, kept),
                 clear_restored_unbudgeted run_id f3))"

section \<open>Refusals\<close>

definition budget_verdict ::
  "breaker_reason \<Rightarrow> microusd \<Rightarrow> microusd \<Rightarrow> string \<Rightarrow> string \<Rightarrow> microusd breaker_verdict" where
  "budget_verdict reason budget spent policy_id detail =
     \<lparr>bv_tripped = True, bv_reason = Some reason, bv_detail = Some detail, bv_budget_usd = Some budget,
      bv_spent_usd = Some spent, bv_policy_id = Some policy_id, bv_would_trip_only = False\<rparr>"

fun budget_refusal ::
  "budget_error \<Rightarrow> string \<Rightarrow> microusd \<Rightarrow> microusd \<Rightarrow> microusd \<times> microusd \<times> string" where
  "budget_refusal (Exceeded hit budget spent would) run_id own_budget own_spent =
     (if hit = run_id then (budget, spent, ''per-run budget exceeded'')
      else (budget, spent, ''parent run '' @ [CHR 0x27] @ hit @ [CHR 0x27] @ '' budget exceeded''))"
| "budget_refusal (UnknownRun r) run_id own_budget own_spent =
     (ZERO, ZERO, ''run '' @ [CHR 0x27] @ run_id @ [CHR 0x27]
        @ '' has no ledger reservation; denying instead of bypassing the budget check'')"
| "budget_refusal (UnknownParent r parent) run_id own_budget own_spent =
     (own_budget, own_spent, ''parent run '' @ [CHR 0x27] @ parent @ [CHR 0x27]
        @ '' is not open on this gateway; open it first (a call on the parent, or a Cloud budget for it)'')"
| "budget_refusal (ChainTooDeep r at nxt depth) run_id own_budget own_spent =
     (own_budget, own_spent, ''budget chain from run '' @ [CHR 0x27] @ run_id @ [CHR 0x27]
        @ '' is deeper than '' @ show_nat depth @ '' ancestors; the walk stopped at '' @ [CHR 0x27] @ at
        @ [CHR 0x27] @ '' with '' @ [CHR 0x27] @ nxt @ [CHR 0x27] @ '' unchecked'')"
| "budget_refusal (RunClosed closed) run_id own_budget own_spent =
     (own_budget, own_spent, ''run '' @ [CHR 0x27] @ closed @ [CHR 0x27] @ '' is closed and admits no spend'')"

definition specific_event_for :: "breaker_reason option \<Rightarrow> string option" where
  "specific_event_for reason =
     (case reason of
        None \<Rightarrow> None
      | Some r \<Rightarrow>
          (case r of
             Unit_budget_exceeded \<Rightarrow> Some ''unit_cap_exceeded''
           | Wasm_policy \<Rightarrow> Some ''policy_deny''
           | Policy_violation \<Rightarrow> Some ''policy_deny''
           | _ \<Rightarrow> None))"

definition mode_str :: "mode \<Rightarrow> string" where
  "mode_str m = (case m of Shadow \<Rightarrow> ''shadow'' | Warn_mode \<Rightarrow> ''warn'' | Enforce \<Rightarrow> ''enforce'')"

definition chain_of :: "call_request \<Rightarrow> chain_on_record option" where
  "chain_of q = (if rq_chain q = [] then None else Some \<lparr>cn_chain = rq_chain q, cn_proof = rq_proof q\<rparr>)"

definition breaker_events :: "call_request \<Rightarrow> int \<Rightarrow> microusd breaker_verdict \<Rightarrow> bus_event list" where
  "breaker_events q now v =
     Breaker_event ''breaker_tripped'' now (rq_event_agent q) (rq_run q) (chain_of q) v (ca_unit (rq_attr q)) None
     # (case specific_event_for (bv_reason v) of
          None \<Rightarrow> []
        | Some name \<Rightarrow>
            [Specific_event name now (rq_event_agent q) (rq_run q) (chain_of q) (bv_reason v) (bv_policy_id v)
               (bv_detail v) (ca_unit (rq_attr q))])"

definition refusal_row ::
  "call_request \<Rightarrow> string \<Rightarrow> string \<Rightarrow> microusd \<Rightarrow> nat \<Rightarrow> int \<Rightarrow> call_record" where
  "refusal_row q decision parent_run_id estimate step now =
     (let a = rq_attr q in
      \<lparr>cd_ts_millis = now, cd_run_id = rq_run q, cd_model = ca_model a, cd_decision = decision,
       cd_input_tokens = 0, cd_output_tokens = 0, cd_cost = estimate, cd_step = step,
       cd_agent_id = ca_agent_id a, cd_saved = 0, cd_parent_run_id = parent_run_id,
       cd_on_behalf_of = ca_on_behalf_of a, cd_outcome = ca_outcome a, cd_key_id = ca_key_id a,
       cd_unit = ca_unit a, cd_tool_calls = None, cd_tools_offered = None, cd_tools_would_prune = None,
       cd_pruned_schema_tokens = None, cd_identity_reason = ca_identity_reason a, cd_pii_findings = None,
       cd_price_basis = None\<rparr>)"

text \<open>Every breaker refusal writes its row, emits its events and answers with the verdict.\<close>

definition refuse_call ::
  "call_request \<Rightarrow> call_record \<Rightarrow> microusd breaker_verdict \<Rightarrow> int \<Rightarrow> 'g front \<Rightarrow> answer \<times> 'g front" where
  "refuse_call q row v now f = (Blocked v, emit (breaker_events q now v) (sink_row row f))"

section \<open>The gates\<close>

definition call_estimate :: "call_request \<Rightarrow> nat \<Rightarrow> 'g front \<Rightarrow> microusd" where
  "call_estimate q body_len f =
     (case estimate_cost (gw_prices (fr_gate f)) (ca_model (rq_attr q)) body_len (rq_max_tokens q)
             (rq_completions q) of
        None \<Rightarrow> ZERO | Some e \<Rightarrow> e)"

definition kill_gate ::
  "call_request \<Rightarrow> microusd \<Rightarrow> string \<Rightarrow> int \<Rightarrow> 'g front \<Rightarrow> answer option \<times> 'g front" where
  "kill_gate q budget parent_run_id now f =
     (if rq_run q \<in> fr_killed f
      then let snap = snapshot (fr_ledger f) (rq_run q);
               spent = (case snap of None \<Rightarrow> ZERO | Some s \<Rightarrow> sn_spent s);
               step = (case snap of None \<Rightarrow> 1 | Some s \<Rightarrow> wrap_succ_u32 (sn_steps s));
               v = budget_verdict Killed budget spent (fr_policy_id f) ''run killed by operator'';
               (a, f') = refuse_call q
                 (refusal_row q ''killed'' parent_run_id (call_estimate q (rq_routed_len q) f) step now) v now f
           in (Some a, f')
      else (None, f))"

definition snapshot_or_fresh :: "ledger \<Rightarrow> string \<Rightarrow> microusd \<Rightarrow> run_snapshot" where
  "snapshot_or_fresh l run_id budget =
     (case snapshot l run_id of
        Some s \<Rightarrow> s
      | None \<Rightarrow> \<lparr>sn_budget = budget, sn_reserved = ZERO, sn_spent = ZERO, sn_steps = 0\<rparr>)"

text \<open>The policy and loop gates; the second result is what shadow and warn would have blocked on.\<close>

definition policy_gates ::
  "'g call_env \<Rightarrow> call_request \<Rightarrow> microusd \<Rightarrow> string \<Rightarrow> microusd \<Rightarrow> run_snapshot \<Rightarrow> 'g front
     \<Rightarrow> (answer option \<times> string option) \<times> 'g front" where
  "policy_gates ce q budget parent_run_id estimate snap f =
     (let evaluation = evaluate (ce_show_usd ce) (fr_policy f) snap estimate;
          (history, f1) = record_input (rq_run q) (rq_body_len q div 4) f;
          loop_reason =
            (if anomaly_is_empty (po_anomalies (fr_policy f)) then None
             else detect (ce_grows ce) (ce_show_factor ce) (rq_signatures q) history (po_anomalies (fr_policy f)));
          row = (\<lambda>decision. refusal_row q decision parent_run_id estimate (wrap_succ_u32 (sn_steps snap)) (ce_now ce));
          would_block = (case ev_violated evaluation of None \<Rightarrow> loop_reason | Some v \<Rightarrow> Some v)
      in if po_mode (fr_policy f) = Enforce \<and> is_blocking (ev_decision evaluation)
         then let (a, f2) = refuse_call q (row ''policy_violation'')
                    (budget_verdict Policy_violation budget (sn_spent snap) (fr_policy_id f)
                       (case ev_violated evaluation of None \<Rightarrow> [] | Some v \<Rightarrow> v)) (ce_now ce) f1
              in ((Some a, would_block), f2)
         else if po_mode (fr_policy f) = Enforce \<and> loop_reason \<noteq> None
         then let (a, f2) = refuse_call q (row ''loop_detected'')
                    (budget_verdict Loop_detected budget (sn_spent snap) (fr_policy_id f) (the loop_reason))
                    (ce_now ce) f1
              in ((Some a, would_block), f2)
         else ((None, would_block), f1))"

definition note_reason :: "string option \<Rightarrow> string \<Rightarrow> string option" where
  "note_reason prior note = (case prior of None \<Rightarrow> Some note | Some p \<Rightarrow> Some (p @ ''; '' @ note))"

definition unit_gate ::
  "'g call_env \<Rightarrow> call_request \<Rightarrow> string \<Rightarrow> microusd \<Rightarrow> run_snapshot \<Rightarrow> 'g front
     \<Rightarrow> (unit_reservation option, answer) res \<times> 'g front" where
  "unit_gate ce q parent_run_id estimate snap f =
     (let u = ca_unit (rq_attr q); w = fr_gate f in
      if u = [] then (Inr None, f)
      else if po_mode (fr_policy f) = Enforce
      then (case try_reserve (gw_units w) u estimate (ce_now ce) of
              (Inr r, units) \<Rightarrow> (Inr r, f\<lparr>fr_gate := w\<lparr>gw_units := units\<rparr>\<rparr>)
            | (Inl ex, units) \<Rightarrow>
                let (a, f1) = refuse_call q
                      (refusal_row q ''unit_budget_exceeded'' parent_run_id estimate
                         (wrap_succ_u32 (sn_steps snap)) (ce_now ce))
                      (budget_verdict Unit_budget_exceeded (ue_budget ex) (ue_spent ex) (fr_policy_id f)
                         (''unit '' @ [CHR 0x27] @ ue_unit ex @ [CHR 0x27] @ '' monthly budget exceeded''))
                      (ce_now ce) (f\<lparr>fr_gate := w\<lparr>gw_units := units\<rparr>\<rparr>)
                in (Inl a, f1))
      else (case unit_reserve_unchecked (gw_units w) u estimate (ce_now ce) of
              (r, units) \<Rightarrow> (Inr r, f\<lparr>fr_gate := w\<lparr>gw_units := units\<rparr>\<rparr>)))"

definition new_guard ::
  "call_request \<Rightarrow> string \<Rightarrow> microusd \<Rightarrow> unit_reservation option \<Rightarrow> 'g front \<Rightarrow> settle_guard" where
  "new_guard q parent_run_id estimate u f =
     reporting_retained_to (fr_events_enabled f) (rq_chain q) (rq_proof q)
       (guard_new (rq_run q) estimate (output_cap_tokens (rq_max_tokens q) (rq_completions q))
          ((rq_attr q)\<lparr>ca_parent_run_id := parent_run_id,
                       ca_router_route := (if rq_stream q then None else ca_router_route (rq_attr q))\<rparr>) u)"

definition run_gate ::
  "'g call_env \<Rightarrow> call_request \<Rightarrow> microusd \<Rightarrow> string \<Rightarrow> microusd \<Rightarrow> run_snapshot \<Rightarrow> string option \<Rightarrow> 'g front
     \<Rightarrow> (reservation \<times> string option, answer) res \<times> 'g front" where
  "run_gate ce q budget parent_run_id estimate snap would_block f =
     (if po_mode (fr_policy f) = Enforce
      then (case reserve (fr_ledger f) (rq_run q) estimate of
              (Inr r, l) \<Rightarrow> (Inr (r, would_block), put_ledger l f)
            | (Inl err, l) \<Rightarrow>
                let (hit_budget, hit_spent, reason) = budget_refusal err (rq_run q) budget (sn_spent snap);
                    (a, f1) = refuse_call q
                      (refusal_row q ''budget_exceeded'' parent_run_id estimate
                         (wrap_succ_u32 (sn_steps snap)) (ce_now ce))
                      (budget_verdict Budget_exceeded hit_budget hit_spent (fr_policy_id f) reason)
                      (ce_now ce) (put_ledger l f)
                in (Inl a, f1))
      else
        let (wb, f1) =
              (case would_exceed (fr_ledger f) (rq_run q) estimate of
                 None \<Rightarrow> (would_block, f)
               | Some err \<Rightarrow>
                   let (hit_budget, hit_spent, reason) = budget_refusal err (rq_run q) budget (sn_spent snap);
                       v = (budget_verdict Budget_exceeded hit_budget hit_spent (fr_policy_id f) reason)
                             \<lparr>bv_would_trip_only := True\<rparr>
                   in (note_reason would_block (''budget_exceeded: '' @ reason),
                       emit [Breaker_event ''breaker_shadow'' (ce_now ce) (rq_event_agent q) (rq_run q) (chain_of q)
                               v (ca_unit (rq_attr q)) (Some (mode_str (po_mode (fr_policy f))))] f));
            (r, l) = reserve_unchecked (fr_ledger f1) (rq_run q) estimate
        in (Inr (r, wb), put_ledger l f1))"

section \<open>The call\<close>

definition settle_front :: "'g call_env \<Rightarrow> settle_guard \<Rightarrow> 'g front \<Rightarrow> 'g front" where
  "settle_front ce g f =
     f\<lparr>fr_gate := guard_drop (ce_sha ce) (ce_codec ce) (ce_disk ce) (ce_settled_at ce) (ce_row_at ce) g (fr_gate f)\<rparr>"

text \<open>
  \<open>send\<close> and what follows. A provider that answers gives a status and, by then, perhaps usage
  already; it may publish the usage at the end of the body. Buffered or streamed, read to its end
  or broken off, the guard settles when the body is done with.
\<close>

definition send_call ::
  "'g call_env \<Rightarrow> call_request \<Rightarrow> sent \<Rightarrow> string option \<Rightarrow> settle_guard \<Rightarrow> 'g front \<Rightarrow> answer \<times> 'g front" where
  "send_call ce q outcome would_block guard f =
     (let g = dispatching guard;
          failed = [Dependency_failed (ce_now ce) (rq_event_agent q) (rq_run q) (chain_of q)]
      in case outcome of
           Sent status slot published \<Rightarrow>
             let g1 = answered status slot g;
                 g2 = (case published of None \<Rightarrow> g1 | Some p \<Rightarrow> publish_usage p g1)
             in (Provider_answer status would_block, settle_front ce g2 f)
         | Send_not_sent \<Rightarrow> (Upstream_error, emit failed (settle_front ce (not_sent g) f))
         | Send_lost \<Rightarrow> (Upstream_error, emit failed (settle_front ce g f)))"

text \<open>From the estimate on: the run is open and the call was not answered by an earlier stage.\<close>

definition admit_and_send ::
  "'g call_env \<Rightarrow> stages \<Rightarrow> call_request \<Rightarrow> sent \<Rightarrow> microusd \<Rightarrow> string \<Rightarrow> string option \<Rightarrow> 'g front
     \<Rightarrow> answer \<times> 'g front" where
  "admit_and_send ce stg q outcome budget parent_run_id seed_note f =
     (let estimate = call_estimate q (rq_body_len q) f;
          snap = snapshot_or_fresh (fr_ledger f) (rq_run q) budget
      in case policy_gates ce q budget parent_run_id estimate snap f of
           ((Some a, _), f1) \<Rightarrow> (a, f1)
         | ((None, violated), f1) \<Rightarrow>
             if st_after_policy stg then (Other_stage, f1)
             else
               let would_block = (case seed_note of None \<Rightarrow> violated | Some n \<Rightarrow> note_reason violated n)
               in case unit_gate ce q parent_run_id estimate snap f1 of
                    (Inl a, f2) \<Rightarrow> (a, f2)
                  | (Inr u, f2) \<Rightarrow>
                      let guard = new_guard q parent_run_id estimate u f2
                      in case run_gate ce q budget parent_run_id estimate snap would_block f2 of
                           (Inl a, f3) \<Rightarrow> (a, settle_front ce guard f3)
                         | (Inr (r, wb), f3) \<Rightarrow> send_call ce q outcome wb (hold_run r guard) f3)"

text \<open>The whole call: its answer, the two notes its headers carry, and the state it leaves.\<close>

definition handle_call ::
  "'g call_env \<Rightarrow> stages \<Rightarrow> call_request \<Rightarrow> sent \<Rightarrow> 'g front
     \<Rightarrow> (answer \<times> microusd option \<times> microusd option) \<times> 'g front" where
  "handle_call ce stg q outcome f =
     (let parent = declared_parent q in
      if (case parent of None \<Rightarrow> False | Some p \<Rightarrow> st_foreign_parent stg p)
      then ((Foreign_parent (the parent), None, None), f)
      else
        case resolve_budget q f of ((asked, basis, clamped), f1) \<Rightarrow>
        let note = map_option (\<lambda>reason. ''seed_pending: '' @ reason) (st_seed_pending stg) in
        if st_seed_pending stg \<noteq> None \<and> po_mode (fr_policy f) = Enforce
        then ((Seed_pending (the (st_seed_pending stg)), clamped, None), f1)
        else
          case open_this_run (rq_run q) asked parent basis (first_sight_parent (rq_run q) parent f1) of
            (Inl e, f2) \<Rightarrow> ((Parent_run_refused e, clamped, None), f2)
          | (Inr (budget, parent_run_id, kept), f2) \<Rightarrow>
              if parent = None \<and> parent_run_id \<noteq> [] \<and> st_foreign_parent stg parent_run_id
              then ((Foreign_parent parent_run_id, clamped, kept), f2)
              else if st_before_kill stg then ((Other_stage, clamped, kept), f2)
              else
                case kill_gate q budget parent_run_id (ce_now ce) f2 of
                  (Some a, f3) \<Rightarrow> ((a, clamped, kept), f3)
                | (None, f3) \<Rightarrow>
                    if st_after_kill stg then ((Other_stage, clamped, kept), f3)
                    else
                      case admit_and_send ce stg q outcome budget parent_run_id note f3 of
                        (a, f4) \<Rightarrow> ((a, clamped, kept), f4))"

end
