(* ===== verification/Managed_Props.thy ===== *)
theory Managed_Props
  imports Managed_Call Settle_Props
begin

text \<open>
  What the money path of a managed call guarantees, whichever way the call goes.
\<close>

section \<open>What each stage leaves alone\<close>

lemma put_ledger_frame [simp]:
  "fr_gate (put_ledger l f) = (fr_gate f)\<lparr>gw_ledger := l\<rparr>"
  "fr_policy (put_ledger l f) = fr_policy f" "fr_killed (put_ledger l f) = fr_killed f"
  "fr_run_seed (put_ledger l f) = fr_run_seed f" "fr_cloud_budgets (put_ledger l f) = fr_cloud_budgets f"
  by (simp_all add: put_ledger_def)

lemma refuse_call_frame [simp]:
  "fr_ledger (snd (refuse_call q row v now f)) = fr_ledger f"
  "gw_units (fr_gate (snd (refuse_call q row v now f))) = gw_units (fr_gate f)"
  "gw_retained (fr_gate (snd (refuse_call q row v now f))) = gw_retained (fr_gate f)"
  "fst (refuse_call q row v now f) = Blocked v"
  by (simp_all add: refuse_call_def emit_def sink_row_def)

lemma emit_frame [simp]:
  "fr_ledger (emit evs f) = fr_ledger f" "gw_units (fr_gate (emit evs f)) = gw_units (fr_gate f)"
  "gw_retained (fr_gate (emit evs f)) = gw_retained (fr_gate f)" "gw_rows (fr_gate (emit evs f)) = gw_rows (fr_gate f)"
  "fr_policy (emit evs f) = fr_policy f"
  by (simp_all add: emit_def)

lemma resolve_budget_frame:
  "resolve_budget q f = (x, f1) \<Longrightarrow>
     fr_gate f1 = fr_gate f \<and> fr_policy f1 = fr_policy f \<and> fr_killed f1 = fr_killed f
     \<and> fr_cloud_budgets f1 = fr_cloud_budgets f"
  by (auto simp: resolve_budget_def Let_def note_budget_clamp_def split: prod.splits if_splits)

lemma kill_gate_frame:
  "kill_gate q b p now f = (x, f1) \<Longrightarrow>
     fr_ledger f1 = fr_ledger f \<and> gw_retained (fr_gate f1) = gw_retained (fr_gate f)
     \<and> (x = None \<longleftrightarrow> rq_run q \<notin> fr_killed f) \<and> (x = None \<longrightarrow> f1 = f)"
  by (auto simp: kill_gate_def Let_def refuse_call_def emit_def sink_row_def split: if_splits)

lemma record_input_frame:
  "record_input k n f = (h, f1) \<Longrightarrow>
     fr_gate f1 = fr_gate f \<and> fr_policy f1 = fr_policy f"
  by (auto simp: record_input_def Let_def)

lemma policy_gates_frame:
  assumes "policy_gates ce q b p e snap f = ((x, wb), f1)"
  shows "fr_ledger f1 = fr_ledger f \<and> gw_units (fr_gate f1) = gw_units (fr_gate f)
     \<and> gw_retained (fr_gate f1) = gw_retained (fr_gate f)
     \<and> (x = None \<longrightarrow> fr_gate f1 = fr_gate f \<and> fr_policy f1 = fr_policy f)
     \<and> (x = None \<longrightarrow> \<not> (po_mode (fr_policy f) = Enforce \<and> over_limit (fr_policy f) snap e))
     \<and> (po_mode (fr_policy f) \<noteq> Enforce \<longrightarrow> x = None)
     \<and> (case x of None \<Rightarrow> True | Some a \<Rightarrow> \<exists>v. a = Blocked v)"
proof -
  obtain h f0 where r: "record_input (rq_run q) (rq_body_len q div 4) f = (h, f0)" by force
  have b: "is_blocking (ev_decision (evaluate (ce_show_usd ce) (fr_policy f) snap e))
      \<longleftrightarrow> po_mode (fr_policy f) = Enforce \<and> over_limit (fr_policy f) snap e"
    by (rule policy_blocks_iff [THEN conjunct1])
  show ?thesis
    using assms record_input_frame [OF r] b
    by (auto simp: policy_gates_def Let_def r refuse_call_def emit_def sink_row_def split: if_splits)
qed

lemma unit_gate_frame:
  "unit_gate ce q p e snap f = (x, f1) \<Longrightarrow>
     fr_ledger f1 = fr_ledger f \<and> gw_retained (fr_gate f1) = gw_retained (fr_gate f) \<and> fr_policy f1 = fr_policy f
     \<and> (po_mode (fr_policy f) \<noteq> Enforce \<longrightarrow> (\<exists>u. x = Inr u))
     \<and> (case x of Inl a \<Rightarrow> \<exists>v. a = Blocked v | Inr _ \<Rightarrow> True)"
  by (auto simp: unit_gate_def Let_def refuse_call_def emit_def sink_row_def
      split: if_splits prod.splits sum.splits)

lemma run_gate_frame:
  assumes "run_gate ce q b p e snap wb f = (x, f1)"
  shows "gw_retained (fr_gate f1) = gw_retained (fr_gate f)
     \<and> (case x of
          Inl a \<Rightarrow> po_mode (fr_policy f) = Enforce \<and> fr_ledger f1 = fr_ledger f \<and> (\<exists>v. a = Blocked v)
        | Inr (r, wb') \<Rightarrow>
            if po_mode (fr_policy f) = Enforce
            then reserve (fr_ledger f) (rq_run q) e = (Inr r, fr_ledger f1) \<and> wb' = wb
            else reserve_unchecked (fr_ledger f) (rq_run q) e = (r, fr_ledger f1)
              \<and> (would_exceed (fr_ledger f) (rq_run q) e \<noteq> None \<longrightarrow> wb' \<noteq> None))"
proof (cases "po_mode (fr_policy f) = Enforce")
  case True
  then show ?thesis
    using assms reserve_Inl_unchanged [of "fr_ledger f" "rq_run q" e]
    by (auto simp: run_gate_def Let_def refuse_call_def emit_def sink_row_def split: prod.splits sum.splits)
next
  case False
  then show ?thesis
    using assms
    by (auto simp: run_gate_def Let_def note_reason_def emit_def split: prod.splits sum.splits option.splits)
qed

section \<open>Opening\<close>

text \<open>
  What the ledger must still have room for: \<open>k\<close> fresh generations, one reservation and, where holds
  are taken unchecked, the estimate on top of every hold.
\<close>

definition ready :: "bool \<Rightarrow> int \<Rightarrow> nat \<Rightarrow> ledger \<Rightarrow> reservation list \<Rightarrow> bool" where
  "ready unchecked e k l iss \<longleftrightarrow>
     accounted (l, iss) \<and> next_reservation l < U64_MAX \<and> next_generation l + k \<le> U64_MAX
     \<and> (unchecked \<longrightarrow> (\<forall>i s. runs l i = Some s \<longrightarrow> rs_reserved s + e \<le> I64_MAX))"

lemma ready_fewer: "ready u e (Suc k) l iss \<Longrightarrow> ready u e k l iss"
  by (simp add: ready_def)

lemma open_counters:
  assumes "open_run_as l r b p basis = (res, l')" and "next_generation l < U64_MAX"
  shows "next_reservation l' = next_reservation l \<and> next_generation l' \<le> Suc (next_generation l)
     \<and> (\<forall>i s'. runs l' i = Some s' \<longrightarrow> rs_reserved s' = 0 \<or> (\<exists>s. runs l i = Some s \<and> rs_reserved s' = rs_reserved s))"
  using assms
  by (auto simp: open_run_as_def Let_def fresh_run_def ZERO_def bump_def sat_simps
      split: if_splits option.splits sum.splits prod.splits)

lemma ready_open:
  assumes "ready u e (Suc k) l iss" and "e \<le> I64_MAX" and "open_run_as l r b p basis = (res, l')"
  shows "ready u e k l' iss"
proof -
  have g: "next_generation l < U64_MAX" using assms(1) by (simp add: ready_def)
  have "accounted (l', iss)" using accounted_open [OF _ g assms(3)] assms(1) by (simp add: ready_def)
  with open_counters [OF assms(3) g] assms(1,2) show ?thesis by (fastforce simp: ready_def)
qed

lemma ready_seed:
  assumes "ready u e k l iss"
  shows "ready u e k (snd (seed_spend l r m g)) iss"
proof -
  obtain b l' where s: "seed_spend l r m g = (b, l')" by force
  then have "accounted (l', iss)" using accounted_seed [OF _ s] assms by (simp add: ready_def)
  with s assms show ?thesis by (auto simp: ready_def seed_spend_def split: if_splits option.splits)
qed

lemma credit_run_seed_effect:
  "ready u e k (fr_ledger f) iss \<Longrightarrow>
     ready u e k (fr_ledger (credit_run_seed_if_any r g f)) iss"
  by (auto simp: credit_run_seed_if_any_def take_run_seed_def ready_seed split: option.splits)

text \<open>Opening touches no price, unit, registry or row, and none of the policy, kills and Cloud budgets.\<close>

definition only_ledger :: "'g front \<Rightarrow> 'g front \<Rightarrow> bool" where
  "only_ledger f f' \<longleftrightarrow>
     fr_gate f' = (fr_gate f)\<lparr>gw_ledger := fr_ledger f'\<rparr> \<and> fr_policy f' = fr_policy f
     \<and> fr_killed f' = fr_killed f \<and> fr_cloud_budgets f' = fr_cloud_budgets f"

lemma only_ledger_refl [simp]: "only_ledger f f"
  by (simp add: only_ledger_def)

lemma only_ledgerD:
  assumes "only_ledger f f'"
  shows "gw_units (fr_gate f') = gw_units (fr_gate f)" "gw_prices (fr_gate f') = gw_prices (fr_gate f)"
    "gw_retained (fr_gate f') = gw_retained (fr_gate f)" "fr_policy f' = fr_policy f" "fr_killed f' = fr_killed f"
    "call_estimate q n f' = call_estimate q n f"
proof -
  from assms have g: "fr_gate f' = (fr_gate f)\<lparr>gw_ledger := fr_ledger f'\<rparr>" by (simp add: only_ledger_def)
  show "gw_units (fr_gate f') = gw_units (fr_gate f)" "gw_prices (fr_gate f') = gw_prices (fr_gate f)"
    "gw_retained (fr_gate f') = gw_retained (fr_gate f)"
    by (subst g, simp)+
  then show "call_estimate q n f' = call_estimate q n f" by (simp add: call_estimate_def)
qed (use assms in \<open>simp_all add: only_ledger_def\<close>)

lemma only_ledger_trans: "only_ledger f g \<Longrightarrow> only_ledger g h \<Longrightarrow> only_ledger f h"
  by (simp add: only_ledger_def) (metis gateway.surjective gateway.update_convs(1))

lemma only_ledger_put [simp]:
  "only_ledger f (put_ledger l f)"
  "only_ledger f (credit_run_seed_if_any r g (put_ledger l f))"
  "only_ledger f (clear_restored_unbudgeted k (put_ledger l f))"
  by (auto simp: only_ledger_def put_ledger_def credit_run_seed_if_any_def take_run_seed_def
      clear_restored_unbudgeted_def split: option.splits)

lemma first_sight_parent_frame: "only_ledger f (first_sight_parent r p f)"
  by (auto simp: first_sight_parent_def Let_def split: option.splits prod.splits sum.splits)

lemma first_sight_parent_ready:
  assumes "ready u e (Suc k) (fr_ledger f) iss" and "e \<le> I64_MAX"
  shows "ready u e k (fr_ledger (first_sight_parent r p f)) iss"
proof -
  have o: "ready u e k l iss" if "open_run (fr_ledger f) p' b None = (res, l)" for p' b res l
    using ready_open [OF assms that [unfolded open_run_def]] .
  show ?thesis
    using ready_fewer [OF assms(1)] o
    by (auto simp: first_sight_parent_def Let_def clear_restored_unbudgeted_def
        intro: credit_run_seed_effect split: option.splits prod.splits sum.splits)
qed

lemma open_this_run_frame: "open_this_run r b p basis f = (x, f1) \<Longrightarrow> only_ledger f f1"
  by (auto simp: open_this_run_def Let_def note_budget_raise_refused_def clear_restored_unbudgeted_def
      only_ledger_def credit_run_seed_if_any_def take_run_seed_def put_ledger_def
      split: option.splits prod.splits sum.splits if_splits)

lemma open_this_run_ready:
  assumes "ready u e (Suc k) (fr_ledger f) iss" and "e \<le> I64_MAX" and "open_this_run r b p basis f = (x, f1)"
  shows "ready u e k (fr_ledger f1) iss"
proof -
  obtain res l where o: "open_run_as (fr_ledger f) r b p basis = (res, l)" by force
  have "ready u e k l iss" by (rule ready_open [OF assms(1,2) o])
  moreover have "fr_ledger f1 = l \<or> (\<exists>g. fr_ledger f1 = fr_ledger (credit_run_seed_if_any r g (put_ledger l f)))"
    using assms(3) o
    by (auto simp: open_this_run_def Let_def note_budget_raise_refused_def clear_restored_unbudgeted_def
        split: prod.splits sum.splits if_splits)
  ultimately show ?thesis using credit_run_seed_effect [of u e k "put_ledger l f" iss r] by auto
qed

section \<open>Settling\<close>

lemma guard_drop_settled:
  assumes "accounted (gw_ledger w, r # iss)" and "sg_run g = Some r" and "0 \<le> sg_estimate g"
  shows "if sg_state g = Unknown
     then accounted (gw_ledger (guard_drop sha codec d now ts g w), r # iss)
       \<and> gw_rows (guard_drop sha codec d now ts g w) = gw_rows w
       \<and> gw_units (guard_drop sha codec d now ts g w) = gw_units w
     else accounted (gw_ledger (guard_drop sha codec d now ts g w), iss)
       \<and> gw_retained (guard_drop sha codec d now ts g w) = gw_retained w"
proof -
  obtain t g' w' where s: "settle_now sha codec d now ts g w = (t, g', w')" by (rule prod_cases3)
  have w': "guard_drop sha codec d now ts g w = w'" by (simp add: guard_drop_def s)
  have "distinct (map rv_id (r # iss))" using accountedD(2) [OF assms(1)] .
  then have f: "filter (\<lambda>x. rv_id x \<noteq> rv_id r) (r # iss) = iss" by (auto simp: filter_id_conv) (metis imageI)
  have acc: "accounted (snd (settle (gw_ledger w) r a), iss)" if "0 \<le> a" for a
    using accounted_after_settle [OF assms(1) _ that, of r] unfolding f by simp
  from settle_now_cases [OF s assms(2)] obtain x g0 where e: "sg_estimate g0 = sg_estimate g"
    and x: "(case disposition_of (sg_state g) of
            Release \<Rightarrow> guard_release (Some r) (sg_unit g) now w
          | Retain \<Rightarrow> guard_retain sha codec d g0 (Some r) (sg_unit g) now w
          | Charge est \<Rightarrow> guard_charge g0 (Some r) (sg_unit g) est now ts w) = (x, w')" by metis
  show ?thesis unfolding w'
  proof (cases "disposition_of (sg_state g)")
    case Release
    then have "sg_state g \<noteq> Unknown" by auto
    with Release x guard_release_effect [of "Some r" "sg_unit g" now w x w'] acc [of 0]
    show "if sg_state g = Unknown
     then accounted (gw_ledger w', r # iss) \<and> gw_rows w' = gw_rows w \<and> gw_units w' = gw_units w
     else accounted (gw_ledger w', iss) \<and> gw_retained w' = gw_retained w" by simp
  next
    case Retain
    then have "sg_state g = Unknown" by (cases "sg_state g") simp_all
    with Retain x guard_retain_effect [of sha codec d g0 r "sg_unit g" now w x w'] assms(1)
    show "if sg_state g = Unknown
     then accounted (gw_ledger w', r # iss) \<and> gw_rows w' = gw_rows w \<and> gw_units w' = gw_units w
     else accounted (gw_ledger w', iss) \<and> gw_retained w' = gw_retained w" by simp
  next
    case (Charge est)
    then have st: "sg_state g \<noteq> Unknown" by auto
    from x Charge have c: "guard_charge g0 (Some r) (sg_unit g) est now ts w = (x, w')" by simp
    from guard_charge_effect [OF c] obtain a us b parsed where
      "settle_amount (gw_prices w) (ca_model (sg_attribution g0)) parsed
           (if est then sg_estimate g0 else 0) (if est then sg_output_cap g0 else 0) = (a, us, b)"
      and bs: "both_settled r (sg_unit g) a now w w'" and rt: "gw_retained w' = gw_retained w" by metis
    then have "0 \<le> a"
      using settle_amount_nonneg [of "if est then sg_estimate g0 else 0"] assms(3) e
      by (metis fst_conv order.refl)
    with acc bs st rt show "if sg_state g = Unknown
     then accounted (gw_ledger w', r # iss) \<and> gw_rows w' = gw_rows w \<and> gw_units w' = gw_units w
     else accounted (gw_ledger w', iss) \<and> gw_retained w' = gw_retained w"
      by (simp add: both_settled_def)
  qed
qed

lemma guard_drop_unheld:
  assumes "sg_run g = None" and "sg_state g = Not_dispatched"
  shows "gw_ledger (guard_drop sha codec d now ts g w) = gw_ledger w
     \<and> gw_retained (guard_drop sha codec d now ts g w) = gw_retained w"
proof (cases "sg_unit g")
  case (Some u)
  obtain t w' where r: "guard_release None (Some u) now w = (t, w')" by force
  with guard_release_effect [OF r] assms Some show ?thesis by (simp add: guard_drop_def settle_now_def)
qed (use assms in \<open>simp add: guard_drop_def settle_now_def\<close>)

lemma new_guard_fields [simp]:
  "sg_run (new_guard q p e u f) = None" "sg_state (new_guard q p e u f) = Not_dispatched"
  "sg_estimate (new_guard q p e u f) = e" "sg_unit (new_guard q p e u f) = u"
  by (simp_all add: new_guard_def reporting_retained_to_def guard_new_def)

lemma settle_front_gate [simp]:
  "fr_gate (settle_front ce g f)
     = guard_drop (ce_sha ce) (ce_codec ce) (ce_disk ce) (ce_settled_at ce) (ce_row_at ce) g (fr_gate f)"
  by (simp add: settle_front_def)

lemma send_call_books:
  assumes "accounted (fr_ledger f, r # iss)" and "sg_run guard = Some r" and "0 \<le> sg_estimate guard"
    and "send_call ce q outcome wb guard f = (a, f')"
  shows "if outcome = Send_lost
     then a = Upstream_error \<and> accounted (fr_ledger f', r # iss) \<and> gw_rows (fr_gate f') = gw_rows (fr_gate f)
       \<and> gw_units (fr_gate f') = gw_units (fr_gate f)
     else accounted (fr_ledger f', iss) \<and> gw_retained (fr_gate f') = gw_retained (fr_gate f)
       \<and> (case outcome of Sent status slot published \<Rightarrow> a = Provider_answer status wb | _ \<Rightarrow> a = Upstream_error)"
proof -
  note settled = guard_drop_settled [OF assms(1), where sha = "ce_sha ce" and codec = "ce_codec ce"
      and d = "ce_disk ce" and now = "ce_settled_at ce" and ts = "ce_row_at ce"]
  show ?thesis
  proof (cases outcome)
    case (Sent status slot published)
    define g where "g = (case published of None \<Rightarrow> answered status slot (dispatching guard)
        | Some p \<Rightarrow> publish_usage p (answered status slot (dispatching guard)))"
    have "sg_state g \<noteq> Unknown" "sg_run g = Some r" "0 \<le> sg_estimate g"
      using assms(2,3) by (auto simp: g_def answered_def dispatching_def publish_usage_def Let_def split: option.splits)
    with settled [of g] assms(4) Sent show ?thesis by (auto simp: send_call_def Let_def g_def)
  next
    case Send_not_sent
    with settled [of "not_sent (dispatching guard)"] assms(2-4) show ?thesis
      by (auto simp: send_call_def Let_def not_sent_def dispatching_def)
  next
    case Send_lost
    with settled [of "dispatching guard"] assms(2-4) show ?thesis
      by (auto simp: send_call_def Let_def dispatching_def)
  qed
qed

lemma call_estimate_range: "0 \<le> call_estimate q n f \<and> call_estimate q n f \<le> I64_MAX"
  using estimate_nonneg [of "gw_prices (fr_gate f)" "ca_model (rq_attr q)" n "rq_max_tokens q" "rq_completions q"]
  by (auto simp: call_estimate_def ZERO_def estimate_cost_def with_margin_def machine_bounds split: option.splits)

lemma call_estimate_max [simp]: "call_estimate q n f \<le> I64_MAX"
  by (rule call_estimate_range [THEN conjunct2])

lemma run_gate_books:
  assumes "ready (po_mode (fr_policy f) \<noteq> Enforce) e 1 (fr_ledger f) iss" and "0 \<le> e" and "e \<le> I64_MAX"
    and "run_gate ce q b p e snap wb f = (Inr (r, wb'), f1)"
  shows "accounted (fr_ledger f1, r # iss)"
proof (cases "po_mode (fr_policy f) = Enforce")
  case True
  with run_gate_frame [OF assms(4)] have "reserve (fr_ledger f) (rq_run q) e = (Inr r, fr_ledger f1)" by simp
  with accounted_reserve assms(1,2) show ?thesis by (auto simp: ready_def)
next
  case False
  with run_gate_frame [OF assms(4)] have u: "reserve_unchecked (fr_ledger f) (rq_run q) e = (r, fr_ledger f1)" by simp
  have "next_generation (fr_ledger f) < U64_MAX" using assms(1) by (simp add: ready_def)
  with False accounted_unchecked [OF _ _ _ assms(2,3) _ u] assms(1) show ?thesis by (simp add: ready_def)
qed

section \<open>The stages of a call\<close>

lemma granted_for:
  "reserve l k e = (Inr r, l') \<Longrightarrow> rv_run r = k \<and> rv_amount r = e"
  "reserve_unchecked l k e = (r, l') \<Longrightarrow> rv_run r = k \<and> rv_amount r = e"
  by (auto elim!: reserve_InrE simp: reserve_unchecked_def grant_def Let_def)

lemma run_gate_granted:
  "run_gate ce q b p e snap wb f = (Inr (r, wb'), f1) \<Longrightarrow> rv_run r = rq_run q \<and> rv_amount r = e"
  using run_gate_frame [of ce q b p e snap wb f "Inr (r, wb')" f1] granted_for
  by (auto split: if_splits)

lemma admit_and_send_cases:
  assumes "admit_and_send ce stg q outcome b p nt f = (a, f')"
  defines "e \<equiv> call_estimate q (rq_body_len q) f"
    and "snap \<equiv> snapshot_or_fresh (fr_ledger f) (rq_run q) b"
  obtains
    (policy) wb where "policy_gates ce q b p e snap f = ((Some a, wb), f')"
  | (stage) wb where "policy_gates ce q b p e snap f = ((None, wb), f')" and "a = Other_stage" and "st_after_policy stg"
  | (unit) wb f1 where "policy_gates ce q b p e snap f = ((None, wb), f1)" and "unit_gate ce q p e snap f1 = (Inl a, f')"
  | (run) wb f1 u f2 f3 wb2 where "policy_gates ce q b p e snap f = ((None, wb), f1)"
      and "unit_gate ce q p e snap f1 = (Inr u, f2)" and "run_gate ce q b p e snap wb2 f2 = (Inl a, f3)"
      and "f' = settle_front ce (new_guard q p e u f2) f3"
  | (sent) wb f1 u f2 f3 r wb2 wb3 where "policy_gates ce q b p e snap f = ((None, wb), f1)"
      and "\<not> st_after_policy stg"
      and "unit_gate ce q p e snap f1 = (Inr u, f2)" and "run_gate ce q b p e snap wb2 f2 = (Inr (r, wb3), f3)"
      and "send_call ce q outcome wb3 (hold_run r (new_guard q p e u f2)) f3 = (a, f')"
proof -
  obtain x wb f1 where p: "policy_gates ce q b p e snap f = ((x, wb), f1)" by (metis prod.exhaust)
  show thesis
  proof (cases x)
    case (Some a')
    with assms(1) p that(1) show thesis by (simp add: admit_and_send_def Let_def e_def snap_def)
  next
    case None
    obtain y f2 where u: "unit_gate ce q p e snap f1 = (y, f2)" by force
    show thesis
    proof (cases "st_after_policy stg \<or> (\<exists>a. y = Inl a)")
      case True
      then show thesis
        using assms(1) p u None that(2,3)
        by (auto simp: admit_and_send_def Let_def e_def snap_def split: if_splits)
    next
      case False
      then obtain ur where y: "y = Inr ur" "\<not> st_after_policy stg" by (cases y) auto
      define wb2 where "wb2 = (case nt of None \<Rightarrow> wb | Some n \<Rightarrow> note_reason wb n)"
      obtain z f3 where z: "run_gate ce q b p e snap wb2 f2 = (z, f3)" by force
      note defs = admit_and_send_def Let_def e_def [symmetric] snap_def [symmetric] wb2_def [symmetric]
      show thesis
      proof (cases z)
        case (Inl a')
        with assms(1) p u z y None that(4) show thesis by (simp add: defs)
      next
        case (Inr rw)
        with assms(1) p u z y None that(5) show thesis by (cases rw) (simp add: defs)
      qed
    qed
  qed
qed

lemma handle_call_cases:
  assumes "handle_call ce stg q outcome f = ((a, cl, kept), f')"
  obtains
    (declared) p where "declared_parent q = Some p" and "a = Foreign_parent p" and "f' = f" and "st_foreign_parent stg p"
  | (pending) asked basis reason where "resolve_budget q f = ((asked, basis, cl), f')"
      and "po_mode (fr_policy f) = Enforce" and "st_seed_pending stg = Some reason" and "a = Seed_pending reason"
  | (parent) asked basis f1 err where "resolve_budget q f = ((asked, basis, cl), f1)"
      and "open_this_run (rq_run q) asked (declared_parent q) basis
             (first_sight_parent (rq_run q) (declared_parent q) f1) = (Inl err, f')"
      and "a = Parent_run_refused err"
  | (stage) asked basis f1 b p where "resolve_budget q f = ((asked, basis, cl), f1)"
      and "open_this_run (rq_run q) asked (declared_parent q) basis
             (first_sight_parent (rq_run q) (declared_parent q) f1) = (Inr (b, p, kept), f')"
      and "a = Foreign_parent p \<and> st_foreign_parent stg p \<or> a = Other_stage \<and> (st_before_kill stg \<or> st_after_kill stg)"
  | (killed) asked basis f1 b p f2 where "resolve_budget q f = ((asked, basis, cl), f1)"
      and "open_this_run (rq_run q) asked (declared_parent q) basis
             (first_sight_parent (rq_run q) (declared_parent q) f1) = (Inr (b, p, kept), f2)"
      and "kill_gate q b p (ce_now ce) f2 = (Some a, f')"
  | (admitted) asked basis f1 b p f2 nt where "resolve_budget q f = ((asked, basis, cl), f1)"
      and "open_this_run (rq_run q) asked (declared_parent q) basis
             (first_sight_parent (rq_run q) (declared_parent q) f1) = (Inr (b, p, kept), f2)"
      and "rq_run q \<notin> fr_killed f2" and "admit_and_send ce stg q outcome b p nt f2 = (a, f')"
      and "po_mode (fr_policy f) = Enforce \<longrightarrow> st_seed_pending stg = None"
proof -
  obtain asked basis cl' f1 where rb: "resolve_budget q f = ((asked, basis, cl'), f1)" by (metis prod.exhaust)
  obtain x f2 where op: "open_this_run (rq_run q) asked (declared_parent q) basis
      (first_sight_parent (rq_run q) (declared_parent q) f1) = (x, f2)" by force
  define nt where "nt = map_option (\<lambda>reason. ''seed_pending: '' @ reason) (st_seed_pending stg)"
  show thesis
  proof (cases "(case declared_parent q of None \<Rightarrow> False | Some p \<Rightarrow> st_foreign_parent stg p)
      \<or> (st_seed_pending stg \<noteq> None \<and> po_mode (fr_policy f) = Enforce)")
    case True
    then show thesis
      using assms rb that(1,2) by (auto simp: handle_call_def Let_def split: option.splits if_splits)
  next
    case False
    then have d: "(case declared_parent q of None \<Rightarrow> False | Some p \<Rightarrow> st_foreign_parent stg p) = False"
      "(st_seed_pending stg \<noteq> None \<and> po_mode (fr_policy f) = Enforce) = False" by blast+
    have h: "(case x of
            Inl e \<Rightarrow> ((Parent_run_refused e, cl', None), f2)
          | Inr (budget, parent_run_id, kept) \<Rightarrow>
              if declared_parent q = None \<and> parent_run_id \<noteq> [] \<and> st_foreign_parent stg parent_run_id
              then ((Foreign_parent parent_run_id, cl', kept), f2)
              else if st_before_kill stg then ((Other_stage, cl', kept), f2)
              else
                case kill_gate q budget parent_run_id (ce_now ce) f2 of
                  (Some a, f3) \<Rightarrow> ((a, cl', kept), f3)
                | (None, f3) \<Rightarrow>
                    if st_after_kill stg then ((Other_stage, cl', kept), f3)
                    else
                      case admit_and_send ce stg q outcome budget parent_run_id nt f3 of
                        (a, f4) \<Rightarrow> ((a, cl', kept), f4)) = ((a, cl, kept), f')"
      using assms unfolding nt_def by (simp only: handle_call_def Let_def rb op d prod.case if_False)
    show thesis
    proof (cases x)
      case (Inl err)
      with h rb op that(3) show thesis by simp
    next
      case (Inr y)
      then obtain b p k where x: "x = Inr (b, p, k)" by (cases y) auto
      obtain kg f3 where kg: "kill_gate q b p (ce_now ce) f2 = (kg, f3)" by force
      have f3: "kg = None \<longleftrightarrow> rq_run q \<notin> fr_killed f2" "kg = None \<Longrightarrow> f3 = f2"
        using kill_gate_frame [OF kg] by simp_all
      consider (st) "declared_parent q = None \<and> p \<noteq> [] \<and> st_foreign_parent stg p \<or> st_before_kill stg
          \<or> kg = None \<and> st_after_kill stg"
        | (kill) a' where "kg = Some a'" "\<not> (declared_parent q = None \<and> p \<noteq> [] \<and> st_foreign_parent stg p)"
            "\<not> st_before_kill stg"
        | (adm) "kg = None" "\<not> st_after_kill stg" "\<not> (declared_parent q = None \<and> p \<noteq> [] \<and> st_foreign_parent stg p)"
            "\<not> st_before_kill stg" by (cases kg) blast+
      then show thesis
      proof cases
        case st
        with h rb op f3 that(4) x kg show thesis by (auto split: if_splits)
      next
        case kill
        with h x kg rb op that(5) show thesis by auto
      next
        case adm
        obtain a2 f4 where ad: "admit_and_send ce stg q outcome b p nt f2 = (a2, f4)" by force
        from adm h x kg f3 ad have "cl' = cl" "k = kept" "a2 = a" "f4 = f'" by auto
        with that(6) rb op x ad adm(1) f3(1) False show thesis by auto
      qed
    qed
  qed
qed

section \<open>Properties\<close>

lemma admit_and_send_books:
  assumes "admit_and_send ce stg q outcome b p nt f = (a, f')" and "e = call_estimate q (rq_body_len q) f"
    and "ready (po_mode (fr_policy f) \<noteq> Enforce) e 1 (fr_ledger f) iss"
  shows "if a = Upstream_error \<and> outcome = Send_lost
     then \<exists>r. rv_run r = rq_run q \<and> rv_amount r = e \<and> accounted (fr_ledger f', r # iss)
     else accounted (fr_ledger f', iss) \<and> gw_retained (fr_gate f') = gw_retained (fr_gate f)"
proof -
  have e: "0 \<le> e" "e \<le> I64_MAX" using call_estimate_range assms(2) by auto
  have acc: "accounted (fr_ledger f, iss)" using assms(3) by (simp add: ready_def)
  from assms(1) show ?thesis
  proof (cases rule: admit_and_send_cases)
    case (policy wb)
    with policy_gates_frame [OF policy] acc show ?thesis by auto
  next
    case (stage wb)
    with policy_gates_frame [OF stage(1)] acc show ?thesis by auto
  next
    case (unit wb f1)
    with policy_gates_frame [OF unit(1)] unit_gate_frame [OF unit(2)] acc show ?thesis by auto
  next
    case (run wb f1 u f2 f3 wb2)
    with policy_gates_frame [OF run(1)] unit_gate_frame [OF run(2)] run_gate_frame [OF run(3)] acc
      guard_drop_unheld show ?thesis by auto
  next
    case (sent wb f1 u f2 f3 r wb2 wb3)
    note fr = policy_gates_frame [OF sent(1)] unit_gate_frame [OF sent(3)] run_gate_frame [OF sent(4)]
    have "ready (po_mode (fr_policy f2) \<noteq> Enforce) e 1 (fr_ledger f2) iss" using fr assms(3) by simp
    from run_gate_books [OF this e sent(4) [folded assms(2)]] have "accounted (fr_ledger f3, r # iss)" .
    from send_call_books [OF this _ _ sent(5)] e fr run_gate_granted [OF sent(4)] assms(2)
    show ?thesis by (auto simp: hold_run_def split: if_splits)
  qed
qed

text \<open>C4. Whatever path a managed call takes, refused before the ledger, refused by a gate, forwarded and
  answered, or failed upstream, the ledger afterwards accounts for exactly the holds that were
  outstanding before: the call's own is gone, and the registry of retained calls is as it was. The
  one exception is a call that may have reached the provider without an answer: its hold stays, at
  the estimate, on its run.\<close>

theorem call_leaves_no_hold:
  assumes "handle_call ce stg q outcome f = ((a, cl, kept), f')"
    and "accounted (fr_ledger f, iss)" and "next_reservation (fr_ledger f) < U64_MAX"
    and "next_generation (fr_ledger f) + 3 \<le> U64_MAX"
    and "po_mode (fr_policy f) \<noteq> Enforce \<longrightarrow>
      (\<forall>i s. runs (fr_ledger f) i = Some s \<longrightarrow> rs_reserved s + call_estimate q (rq_body_len q) f \<le> I64_MAX)"
  shows "if a = Upstream_error \<and> outcome = Send_lost
     then \<exists>r. rv_run r = rq_run q \<and> rv_amount r = call_estimate q (rq_body_len q) f
            \<and> accounted (fr_ledger f', r # iss)
     else accounted (fr_ledger f', iss) \<and> gw_retained (fr_gate f') = gw_retained (fr_gate f)"
proof -
  let ?e = "call_estimate q (rq_body_len q) f"
  have top: "ready (po_mode (fr_policy f) \<noteq> Enforce) ?e 3 (fr_ledger f) iss"
    using assms(2-5) by (simp add: ready_def)
  have opened: "ready (po_mode (fr_policy f) \<noteq> Enforce) ?e 1 (fr_ledger f2) iss \<and> only_ledger f1 f2
        \<and> fr_policy f1 = fr_policy f \<and> fr_gate f1 = fr_gate f"
    if "resolve_budget q f = (x, f1)"
      and "open_this_run (rq_run q) asked (declared_parent q) basis
             (first_sight_parent (rq_run q) (declared_parent q) f1) = (y, f2)" for x f1 asked basis y f2
  proof -
    note fr = resolve_budget_frame [OF that(1)]
    have "ready (po_mode (fr_policy f) \<noteq> Enforce) ?e (Suc 2) (fr_ledger f1) iss" using top fr by simp
    from first_sight_parent_ready [OF this]
    have "ready (po_mode (fr_policy f) \<noteq> Enforce) ?e (Suc 1) (fr_ledger (first_sight_parent (rq_run q) (declared_parent q) f1)) iss"
      by (simp add: numeral_2_eq_2)
    from open_this_run_ready [OF this _ that(2)] fr
      only_ledger_trans [OF first_sight_parent_frame open_this_run_frame [OF that(2)]]
    show ?thesis by simp
  qed
  from assms(1) show ?thesis
  proof (cases rule: handle_call_cases)
    case (pending asked basis reason)
    with resolve_budget_frame [OF pending(1)] assms(2) show ?thesis by auto
  next
    case (parent asked basis f1 err)
    with opened [OF parent(1,2)] show ?thesis by (auto simp: ready_def dest: only_ledgerD)
  next
    case (stage asked basis f1 b p)
    with opened [OF stage(1,2)] show ?thesis by (auto simp: ready_def dest: only_ledgerD)
  next
    case (killed asked basis f1 b p f2)
    then have "\<exists>v. a = Blocked v" by (auto simp: kill_gate_def Let_def refuse_call_def split: if_splits)
    with opened [OF killed(1,2)] kill_gate_frame [OF killed(3)] show ?thesis
      by (auto simp: ready_def dest: only_ledgerD)
  next
    case (admitted asked basis f1 b p f2 nt)
    note o = opened [OF admitted(1,2)]
    have d: "call_estimate q (rq_body_len q) f1 = ?e" using o by (simp add: call_estimate_def)
    have f2: "call_estimate q (rq_body_len q) f2 = ?e" "gw_retained (fr_gate f2) = gw_retained (fr_gate f)"
      "fr_policy f2 = fr_policy f"
      using only_ledgerD [of f1 f2] o d by simp_all
    with o have "ready (po_mode (fr_policy f2) \<noteq> Enforce) (call_estimate q (rq_body_len q) f2) 1 (fr_ledger f2) iss"
      by simp
    from admit_and_send_books [OF admitted(4) refl this] show ?thesis unfolding f2 .
  qed (use assms(2) in auto)
qed

lemma unit_reserve_fits:
  "try_reserve u k e t = (Inr r, u') \<Longrightarrow>
     (case effective_cap u k of None \<Rightarrow> True | Some cap \<Rightarrow> unit_spent u k t + unit_reserved u k t + e \<le> cap)"
  by (auto simp: try_reserve_def Let_def checked_add_def rolled_view split: option.splits if_splits)

lemma unit_gate_fits:
  "unit_gate ce q p e snap f = (Inr r, f1) \<Longrightarrow> po_mode (fr_policy f) = Enforce \<Longrightarrow> ca_unit (rq_attr q) \<noteq> [] \<Longrightarrow>
     (case effective_cap (gw_units (fr_gate f)) (ca_unit (rq_attr q)) of
        None \<Rightarrow> True
      | Some cap \<Rightarrow> unit_spent (gw_units (fr_gate f)) (ca_unit (rq_attr q)) (ce_now ce)
                   + unit_reserved (gw_units (fr_gate f)) (ca_unit (rq_attr q)) (ce_now ce) + e \<le> cap)"
  using unit_reserve_fits [of "gw_units (fr_gate f)" "ca_unit (rq_attr q)" e "ce_now ce" r]
  by (auto simp: unit_gate_def Let_def refuse_call_def split: prod.splits sum.splits)

lemma reserve_Inr_fits:
  assumes "reserve l k e = (Inr r, l')"
  shows "would_exceed l k e = None"
proof -
  from assms obtain s where "runs l k = Some s" by (elim reserve_InrE)
  from reserve_decides [OF this, of e] assms show ?thesis by simp
qed


text \<open>C28. Only the operator raises a budget: a caller, its header or a default opens a new run at no more than
  the ceiling, and may lower an open run's budget but never raise it; a refused raise is reported
  with the budget the run kept. A Cloud budget is taken as it is, over header and ceiling.\<close>

theorem only_operator_raises_budget:
  assumes "resolve_budget q f = ((asked, basis, cl), f1)"
    and "open_this_run (rq_run q) asked parent basis f2 = (Inr (b, p, kept), f3)"
  shows "(case cloud_budget f (rq_run q) of
       Some c \<Rightarrow> b = c \<and> cl = None \<and> kept = None
     | None \<Rightarrow>
         b \<le> asked
         \<and> (case fr_max_run_budget f of None \<Rightarrow> cl = None | Some c \<Rightarrow> b \<le> c \<and> (cl \<noteq> None \<longrightarrow> cl = Some c))
         \<and> (case runs (fr_ledger f2) (rq_run q) of
              Some s \<Rightarrow>
                if rs_closed s then b = asked \<and> kept = None
                else b = min asked (rs_budget s) \<and> kept = (if rs_budget s < asked then Some (rs_budget s) else None)
            | None \<Rightarrow> b = asked \<and> kept = None))"
proof -
  obtain o' l where o: "open_run_as (fr_ledger f2) (rq_run q) asked parent basis = (Inr o', l)"
    and b: "b = op_budget o'" "kept = (if op_raise_refused o' = None then None else Some (op_budget o'))"
    using assms(2) by (auto simp: open_this_run_def Let_def split: prod.splits sum.splits)
  have held: "op_budget o' = (case runs (fr_ledger f2) (rq_run q) of None \<Rightarrow> asked
      | Some s \<Rightarrow> if rs_closed s then asked else fst (effective_budget basis (rs_budget s) asked))"
    "op_raise_refused o' = (case runs (fr_ledger f2) (rq_run q) of None \<Rightarrow> None
      | Some s \<Rightarrow> if rs_closed s then None else snd (effective_budget basis (rs_budget s) asked))"
    using o by (auto simp: open_run_as_def Let_def split: if_splits option.splits sum.splits prod.splits)
  show ?thesis
  proof (cases "cloud_budget f (rq_run q)")
    case (Some c)
    then have "asked = c" "basis = Operator" "cl = None"
      using assms(1) by (auto simp: resolve_budget_def Let_def apply_run_budget_ceiling_def split: option.splits)
    then show ?thesis using Some b held by (auto simp: effective_budget_def split: option.splits)
  next
    case None
    then have basis: "basis = Caller"
      using assms(1) by (auto simp: resolve_budget_def Let_def split: prod.splits)
    have "case fr_max_run_budget f of None \<Rightarrow> cl = None | Some c \<Rightarrow> asked \<le> c \<and> (cl \<noteq> None \<longrightarrow> cl = Some c)"
      using assms(1) None
      by (auto simp: resolve_budget_def Let_def apply_run_budget_ceiling_def split: option.splits prod.splits if_splits)
    then show ?thesis
      using None b held basis by (auto simp: effective_budget_def min_def split: option.splits if_splits)
  qed
qed

text \<open>Shadow and warn never stop a call for money: when no other stage answers and the run can be opened
  and is not killed, the request goes to the provider whatever the budgets say, and a budget that
  enforce would have refused on is named in the answer's header.\<close>

lemma shadow_forwards_every_call:
  assumes "handle_call ce stg q outcome f = ((a, cl, kept), f')" and "po_mode (fr_policy f) \<noteq> Enforce"
    and "rq_run q \<notin> fr_killed f" and "st_foreign_parent stg = (\<lambda>_. False)"
    and "\<not> st_before_kill stg \<and> \<not> st_after_kill stg \<and> \<not> st_after_policy stg"
  shows "case a of
      Parent_run_refused e \<Rightarrow> True
    | Provider_answer status wb \<Rightarrow> \<exists>slot published. outcome = Sent status slot published
    | Upstream_error \<Rightarrow> outcome \<in> {Send_not_sent, Send_lost}
    | _ \<Rightarrow> False"
  using assms(1)
proof (cases rule: handle_call_cases)
  case (killed asked basis f1 b p f2)
  have "rq_run q \<notin> fr_killed f2"
    using resolve_budget_frame [OF killed(1)] assms(3)
      only_ledger_trans [OF first_sight_parent_frame open_this_run_frame [OF killed(2)]]
    by (auto simp: only_ledger_def)
  with kill_gate_frame [OF killed(3)] show ?thesis by simp
next
  case (admitted asked basis f1 b p f2 nt)
  have m: "po_mode (fr_policy f2) \<noteq> Enforce"
    using resolve_budget_frame [OF admitted(1)] assms(2)
      only_ledger_trans [OF first_sight_parent_frame open_this_run_frame [OF admitted(2)]]
    by (auto simp: only_ledger_def)
  from admitted(4) show ?thesis
  proof (cases rule: admit_and_send_cases)
    case (policy wb)
    with policy_gates_frame [OF policy] m show ?thesis by auto
  next
    case (unit wb f3)
    with policy_gates_frame [OF unit(1)] unit_gate_frame [OF unit(2)] m show ?thesis by auto
  next
    case (run wb f3 ur f4 f5 wb2)
    with policy_gates_frame [OF run(1)] unit_gate_frame [OF run(2)] run_gate_frame [OF run(3)] m
    show ?thesis by auto
  next
    case (sent wb f3 ur f4 f5 r wb2 wb3)
    from sent(5) show ?thesis by (cases outcome) (auto simp: send_call_def Let_def)
  qed (use assms(5) in auto)
qed (use assms in \<open>auto split: option.splits\<close>)

section \<open>One enforced call\<close>

definition sample_front :: "unit front" where
  "sample_front = \<lparr>fr_gate = \<lparr>gw_ledger = new_ledger, gw_units = unit_ledger_new Map.empty, gw_prices = mini_book,
       gw_retained = retained_new, gw_rows = [], gw_truncated = 0, gw_events = []\<rparr>,
     fr_policy = policy_default\<lparr>po_mode := Enforce, po_max_steps := Some 3\<rparr>, fr_policy_id = ''p'',
     fr_max_run_budget = Some 900, fr_cloud_budgets = Map.empty, fr_run_seed = Map.empty,
     fr_restored_unbudgeted = {}, fr_killed = {}, fr_history = Map.empty, fr_clamp_logged = {},
     fr_raise_logged = {}, fr_events_enabled = False\<rparr>"

definition metered_request :: call_request where
  "metered_request = \<lparr>rq_run = ''r'', rq_parent_header = None, rq_budget_header = Some 1000,
     rq_attr = default_attribution\<lparr>ca_model := ''m'', ca_key_id := ''team''\<rparr>, rq_event_agent = ''a'', rq_chain = [], rq_proof = None,
     rq_routed_len = 8, rq_body_len = 8, rq_max_tokens = Some 2, rq_completions = 1, rq_stream = False,
     rq_signatures = []\<rparr>"

definition sample_env :: "unit call_env" where
  "sample_env = \<lparr>ce_show_usd = (\<lambda>_. ''x''), ce_grows = (\<lambda>_ _ _. False), ce_show_factor = (\<lambda>_. []),
     ce_sha = (\<lambda>_. [1]), ce_codec = sample_codec, ce_disk = Disk_ok, ce_now = 5, ce_settled_at = 6, ce_row_at = 7\<rparr>"

definition quiet_stages :: stages where
  "quiet_stages = \<lparr>st_foreign_parent = (\<lambda>_. False), st_seed_pending = None, st_before_kill = False,
     st_after_kill = False, st_after_policy = False\<rparr>"

lemma sample_margin: "with_margin 2 = 3"
  by (simp add: with_margin_def round53_def MARGIN_def bit_length.simps I64_MAX_def)

lemma sample_estimate: "estimate_cost mini_book ''m'' 8 (Some 2) 1 = Some 3"
  by (simp add: estimate_cost_def book_cost_def price_for_def mini_book_def pb_with_def pb_insert_def
      pb_price_def price_book_new_def estimate_usage_def output_cap_tokens_def CHARS_PER_TOKEN_def
      mini_price_def model_cost_exact rates_ok_def exact_numerator_def five_minute_def sample_margin
      sat_u64_def machine_bounds)

lemma sample_call_estimate: "gw_prices (fr_gate f) = mini_book \<Longrightarrow> call_estimate metered_request 8 f = 3"
  by (simp add: call_estimate_def metered_request_def default_attribution_def sample_estimate [unfolded One_nat_def])

definition sample_opened :: ledger where
  "sample_opened = new_ledger\<lparr>runs := [''r'' \<mapsto> fresh_run 900 None 1 False], next_generation := 1\<rparr>"

lemma sample_resolve:
  "resolve_budget metered_request sample_front
     = ((900, Caller, Some 900), sample_front\<lparr>fr_clamp_logged := {''r''}\<rparr>)"
  by (simp add: resolve_budget_def metered_request_def sample_front_def cloud_budget_def apply_run_budget_ceiling_def
      note_budget_clamp_def note_once_def Let_def)

lemma sample_open:
  "open_this_run ''r'' 900 None Caller (first_sight_parent ''r'' None (sample_front\<lparr>fr_clamp_logged := {''r''}\<rparr>))
     = (Inr (900, [], None), put_ledger sample_opened (sample_front\<lparr>fr_clamp_logged := {''r''}\<rparr>))"
  by (simp add: open_this_run_def first_sight_parent_def open_run_as_def sample_front_def new_ledger_def snapshot_def
      bump_def wrap_succ_u64_def machine_bounds Let_def put_ledger_def credit_run_seed_if_any_def take_run_seed_def
      clear_restored_unbudgeted_def sample_opened_def)

lemma sample_fits: "would_exceed sample_opened ''r'' 3 = None"
  by (simp add: would_exceed_def sample_opened_def walk_def walk_from.simps fresh_run_def MAX_CHAIN_DEPTH_def
      exceeds_def checked_add_def in_i64_def machine_bounds ZERO_def)

lemma sample_policy:
  "\<exists>f1. policy_gates sample_env metered_request 900 [] 3 (snapshot_or_fresh sample_opened ''r'' 900)
       (put_ledger sample_opened (sample_front\<lparr>fr_clamp_logged := {''r''}\<rparr>)) = ((None, None), f1)
     \<and> fr_gate f1 = (fr_gate sample_front)\<lparr>gw_ledger := sample_opened\<rparr> \<and> fr_policy f1 = fr_policy sample_front"
  by (simp add: policy_gates_def Let_def record_input_def evaluate_def first_violation_def snapshot_or_fresh_def
      snapshot_def sample_opened_def snapshot_of_def fresh_run_def sample_front_def policy_default_def
      anomaly_is_empty_def anomaly_default_def put_ledger_def)

lemma sample_call:
  "\<exists>f'. handle_call sample_env quiet_stages metered_request (Sent 200 None None) sample_front
     = ((Provider_answer 200 None, Some 900, None), f')"
proof -
  let ?f = "put_ledger sample_opened (sample_front\<lparr>fr_clamp_logged := {''r''}\<rparr>)"
  obtain f1 where p: "policy_gates sample_env metered_request 900 [] 3 (snapshot_or_fresh sample_opened ''r'' 900) ?f
       = ((None, None), f1)" "fr_ledger f1 = sample_opened" "fr_policy f1 = fr_policy sample_front"
    using sample_policy by auto
  have u: "unit_gate sample_env metered_request [] 3 (snapshot_or_fresh sample_opened ''r'' 900) f1 = (Inr None, f1)"
    by (simp add: unit_gate_def metered_request_def default_attribution_def Let_def)
  have "runs sample_opened ''r'' = Some (fresh_run 900 None 1 False)" by (simp add: sample_opened_def)
  from reserve_InrI [OF this sample_fits] obtain r l where "reserve sample_opened ''r'' 3 = (Inr r, l)" by blast
  then have g: "run_gate sample_env metered_request 900 [] 3 (snapshot_or_fresh sample_opened ''r'' 900) None f1
      = (Inr (r, None), put_ledger l f1)"
    using p by (simp add: run_gate_def metered_request_def sample_front_def)
  have e: "call_estimate metered_request 8 ?f = 3"
    by (rule sample_call_estimate) (simp add: sample_front_def)
  have "\<exists>f'. admit_and_send sample_env quiet_stages metered_request (Sent 200 None None) 900 [] None ?f
      = (Provider_answer 200 None, f')"
    using p(1) u g e
    by (simp add: admit_and_send_def Let_def quiet_stages_def send_call_def
        metered_request_def [THEN arg_cong [of _ _ rq_run], simplified]
        metered_request_def [THEN arg_cong [of _ _ rq_body_len], simplified])
  moreover have "kill_gate metered_request 900 [] 5 ?f = (None, ?f)"
    by (simp add: kill_gate_def sample_front_def)
  moreover have "declared_parent metered_request = None" "rq_run metered_request = ''r''" "ce_now sample_env = 5"
    by (simp_all add: declared_parent_def metered_request_def sample_env_def)
  ultimately show ?thesis
    by (auto simp: handle_call_def Let_def sample_resolve sample_open quiet_stages_def)
qed

theorem call_leaves_no_hold_witness:
  "\<exists>f'. handle_call sample_env quiet_stages metered_request (Sent 200 None None) sample_front
       = ((Provider_answer 200 None, Some 900, None), f')
     \<and> accounted (fr_ledger f', []) \<and> gw_retained (fr_gate f') = retained_new"
proof -
  from sample_call obtain f' where c: "handle_call sample_env quiet_stages metered_request (Sent 200 None None)
      sample_front = ((Provider_answer 200 None, Some 900, None), f')" by blast
  have l: "fr_ledger sample_front = new_ledger" "po_mode (fr_policy sample_front) = Enforce"
    "gw_retained (fr_gate sample_front) = retained_new"
    by (simp_all add: sample_front_def)
  have "next_reservation new_ledger < U64_MAX" "next_generation new_ledger + 3 \<le> U64_MAX"
    by (simp_all add: new_ledger_def machine_bounds)
  with call_leaves_no_hold [OF c, of "[]"] accounted_new l c show ?thesis by simp
qed


text \<open>The same request on a run that is already open at 500.\<close>

definition open_front :: "unit front" where
  "open_front = put_ledger (new_ledger\<lparr>runs := [''r'' \<mapsto> fresh_run 500 None 1 False], next_generation := 1\<rparr>) sample_front"

theorem only_operator_raises_budget_witness:
  "\<exists>b f3. open_this_run ''r'' 900 None Caller open_front = (Inr (b, [], Some 500), f3) \<and> b = 500"
proof -
  have "\<exists>b p kept f3. open_this_run ''r'' 900 None Caller open_front = (Inr (b, p, kept), f3) \<and> p = []"
    by (simp add: open_this_run_def open_front_def open_run_as_def fresh_run_def parent_decision_def
        effective_budget_def snapshot_def note_budget_raise_refused_def Let_def split: prod.split)
  then obtain b kept f3 where o: "open_this_run ''r'' 900 None Caller open_front = (Inr (b, [], kept), f3)" by blast
  have run: "rq_run metered_request = ''r''" by (simp add: metered_request_def)
  have "cloud_budget sample_front ''r'' = None" "runs (fr_ledger open_front) ''r'' = Some (fresh_run 500 None 1 False)"
    by (simp_all add: cloud_budget_def sample_front_def open_front_def)
  with only_operator_raises_budget [OF sample_resolve, unfolded run, OF o] o show ?thesis
    by (simp add: fresh_run_def)
qed

definition shadow_front :: "unit front" where
  "shadow_front = sample_front\<lparr>fr_policy := policy_default\<rparr>"

theorem shadow_forwards_every_call_witness:
  "\<exists>a cl kept f'. handle_call sample_env quiet_stages metered_request Send_lost shadow_front = ((a, cl, kept), f')
     \<and> (a = Upstream_error \<or> (\<exists>e. a = Parent_run_refused e))"
proof -
  obtain a cl kept f' where c: "handle_call sample_env quiet_stages metered_request Send_lost shadow_front
      = ((a, cl, kept), f')" by (metis prod.exhaust)
  have "po_mode (fr_policy shadow_front) \<noteq> Enforce" "rq_run metered_request \<notin> fr_killed shadow_front"
    "st_foreign_parent quiet_stages = (\<lambda>_. False)"
    "\<not> st_before_kill quiet_stages \<and> \<not> st_after_kill quiet_stages \<and> \<not> st_after_policy quiet_stages"
    by (simp_all add: shadow_front_def sample_front_def policy_default_def quiet_stages_def)
  from shadow_forwards_every_call [OF c this] c show ?thesis by (cases a) auto
qed
end
