(* ===== verification/Usage_Parser.thy ===== *)
theory Usage_Parser
  imports Settle_Props Stream_Gate
begin

text \<open>
  The usage parser of \<open>crates/gateway/src/provider.rs\<close>: from the bytes of an answer, in whatever chunks
  they arrive, to the token counts the guard charges. Lossy decoding, JSON parsing and reading a
  number as \<open>u64\<close> are the fields of \<open>wire\<close>. A body is at most 8 MiB, so the \<open>u32\<close> counts of tool
  calls do not wrap.
\<close>

section \<open>Buffering\<close>

definition PARSER_CAP :: nat where
  "PARSER_CAP = 8 * 1024 * 1024"

record usage_parser =
  up_buf :: string
  up_truncated :: bool

definition usage_parser_new :: usage_parser where
  "usage_parser_new = \<lparr>up_buf = [], up_truncated = False\<rparr>"

definition feed :: "usage_parser \<Rightarrow> string \<Rightarrow> usage_parser" where
  "feed p chunk =
     (if PARSER_CAP \<le> length (up_buf p)
      then (if chunk \<noteq> [] then p\<lparr>up_truncated := True\<rparr> else p)
      else let n = min (PARSER_CAP - length (up_buf p)) (length chunk)
           in \<lparr>up_buf = up_buf p @ take n chunk, up_truncated = (up_truncated p \<or> n < length chunk)\<rparr>)"

section \<open>What one event reports\<close>

datatype usage_report = No_report | Running | Final

fun report_rank :: "usage_report \<Rightarrow> nat" where
  "report_rank No_report = 0"
| "report_rank Running = 1"
| "report_rank Final = 2"

lemma report_rank_inj: "report_rank a = report_rank b \<Longrightarrow> a = b"
  by (cases a; cases b) simp_all

instantiation usage_report :: linorder
begin

definition less_eq_usage_report :: "usage_report \<Rightarrow> usage_report \<Rightarrow> bool" where
  "a \<le> b \<longleftrightarrow> report_rank a \<le> report_rank b"

definition less_usage_report :: "usage_report \<Rightarrow> usage_report \<Rightarrow> bool" where
  "a < b \<longleftrightarrow> report_rank a < report_rank b"

instance
  by standard (auto simp: less_eq_usage_report_def less_usage_report_def intro: report_rank_inj)

end

definition report_of :: "bool \<Rightarrow> bool \<Rightarrow> usage_report" where
  "report_of has_output_figure still_open =
     (if \<not> has_output_figure then No_report else if still_open then Running else Final)"

definition is_explicit_null :: "'n json option \<Rightarrow> bool" where
  "is_explicit_null v \<longleftrightarrow> (case v of Some JNull \<Rightarrow> True | _ \<Rightarrow> False)"

definition says_still_open :: "'n json \<Rightarrow> bool" where
  "says_still_open v \<longleftrightarrow>
     is_explicit_null (Option.bind (get_field ''delta'' v) (get_field ''stop_reason''))
     \<or> (case field_array ''choices'' v of
          None \<Rightarrow> False
        | Some cs \<Rightarrow> list_ex (\<lambda>c. is_explicit_null (get_field ''finish_reason'' c)) cs)"

section \<open>Merging usage objects\<close>

definition field_u64 :: "('n \<Rightarrow> nat option) \<Rightarrow> string \<Rightarrow> 'n json \<Rightarrow> nat option" where
  "field_u64 u64 k v = (case get_field k v of Some (JNum n) \<Rightarrow> u64 n | _ \<Rightarrow> None)"

definition set_if_positive :: "nat option \<Rightarrow> nat \<Rightarrow> nat" where
  "set_if_positive n old = (case n of Some x \<Rightarrow> if 0 < x then x else old | None \<Rightarrow> old)"

definition apply_anthropic :: "('n \<Rightarrow> nat option) \<Rightarrow> 'n json \<Rightarrow> usage \<Rightarrow> usage" where
  "apply_anthropic u64 u us =
     (let us1 = us\<lparr>us_input := set_if_positive (field_u64 u64 ''input_tokens'' u) (us_input us),
            us_output := set_if_positive (field_u64 u64 ''output_tokens'' u) (us_output us),
            us_cache_read := set_if_positive (field_u64 u64 ''cache_read_input_tokens'' u) (us_cache_read us),
            us_cache_write := set_if_positive (field_u64 u64 ''cache_creation_input_tokens'' u) (us_cache_write us)\<rparr>
      in (case get_field ''cache_creation'' u of
            Some (JObj fs) \<Rightarrow>
              us1\<lparr>us_cache_write_1h :=
                set_if_positive (field_u64 u64 ''ephemeral_1h_input_tokens'' (JObj fs)) (us_cache_write_1h us1)\<rparr>
          | _ \<Rightarrow> us1))"

record netting =
  nt_gross :: nat
  nt_cached :: nat
  nt_write :: nat
  nt_completion :: nat
  nt_total :: nat

definition netting_new :: netting where
  "netting_new = \<lparr>nt_gross = 0, nt_cached = 0, nt_write = 0, nt_completion = 0, nt_total = 0\<rparr>"

definition has_field :: "string list \<Rightarrow> 'n json \<Rightarrow> bool" where
  "has_field ks u \<longleftrightarrow> list_ex (\<lambda>k. get_field k u \<noteq> None) ks"

definition is_openai_shape :: "'n json \<Rightarrow> bool" where
  "is_openai_shape u \<longleftrightarrow>
     has_field [''prompt_tokens'', ''completion_tokens'', ''total_tokens'', ''prompt_tokens_details'',
                ''completion_tokens_details''] u"

definition detail_u64 :: "('n \<Rightarrow> nat option) \<Rightarrow> string \<Rightarrow> 'n json \<Rightarrow> nat option" where
  "detail_u64 u64 k u = Option.bind (get_field ''prompt_tokens_details'' u) (field_u64 u64 k)"

definition netted :: "('n \<Rightarrow> nat option) \<Rightarrow> 'n json \<Rightarrow> netting \<Rightarrow> netting" where
  "netted u64 u net =
     \<lparr>nt_gross = set_if_positive (field_u64 u64 ''prompt_tokens'' u) (nt_gross net),
      nt_cached = set_if_positive (detail_u64 u64 ''cached_tokens'' u) (nt_cached net),
      nt_write = set_if_positive (detail_u64 u64 ''cache_write_tokens'' u) (nt_write net),
      nt_completion = set_if_positive (field_u64 u64 ''completion_tokens'' u) (nt_completion net),
      nt_total = set_if_positive (field_u64 u64 ''total_tokens'' u) (nt_total net)\<rparr>"

definition billed_output :: "netting \<Rightarrow> nat" where
  "billed_output net = max (nt_completion net) (nt_total net - nt_gross net)"

definition carries_a_figure :: "'n json \<Rightarrow> bool" where
  "carries_a_figure u \<longleftrightarrow> has_field [''prompt_tokens'', ''completion_tokens'', ''total_tokens''] u"

definition apply_openai ::
  "('n \<Rightarrow> nat option) \<Rightarrow> 'n json \<Rightarrow> usage \<times> netting \<Rightarrow> usage \<times> netting" where
  "apply_openai u64 u = (\<lambda>(us, net0).
     let net = netted u64 u net0;
         us1 = (if carries_a_figure u \<and> 0 < billed_output net then us\<lparr>us_output := billed_output net\<rparr> else us);
         us2 = (if 0 < nt_gross net then us1\<lparr>us_input := nt_gross net - nt_cached net - nt_write net\<rparr> else us1);
         us3 = (if 0 < nt_cached net then us2\<lparr>us_cache_read := nt_cached net\<rparr> else us2);
         us4 = (if 0 < nt_write net then us3\<lparr>us_cache_write := nt_write net\<rparr> else us3)
     in (us4, net))"

definition merge_usage ::
  "('n \<Rightarrow> nat option) \<Rightarrow> 'n json \<Rightarrow> usage \<times> netting \<Rightarrow> usage_report \<times> usage \<times> netting" where
  "merge_usage u64 v = (\<lambda>(us, net).
     let us1 = (case Option.bind (get_field ''message'' v) (get_field ''usage'') of
                  Some u \<Rightarrow> apply_anthropic u64 u us | None \<Rightarrow> us)
     in case get_field ''usage'' v of
          Some (JObj fs) \<Rightarrow>
            let u = JObj fs;
                (keys, s) = (if is_openai_shape u
                             then ([''completion_tokens'', ''total_tokens''], apply_openai u64 u (us1, net))
                             else ([''output_tokens''], (apply_anthropic u64 u us1, net)))
            in (report_of (list_ex (\<lambda>k. field_u64 u64 k u \<noteq> None) keys) (says_still_open v), s)
        | _ \<Rightarrow> (No_report, us1, net))"

section \<open>Counting tool calls\<close>

record tool_call_counter =
  tc_seen :: bool
  tc_anthropic :: nat
  tc_openai_nonstream :: nat
  tc_openai_stream :: "(nat \<times> nat) set"

definition counter_new :: tool_call_counter where
  "counter_new = \<lparr>tc_seen = False, tc_anthropic = 0, tc_openai_nonstream = 0, tc_openai_stream = {}\<rparr>"

definition stream_indexes :: "('n \<Rightarrow> nat option) \<Rightarrow> 'n json \<Rightarrow> (nat \<times> nat) list" where
  "stream_indexes u64 choice =
     (let ci = or_else (field_u64 u64 ''index'' choice) 0
      in case Option.bind (get_field ''delta'' choice) (field_array ''tool_calls'') of
           None \<Rightarrow> []
         | Some deltas \<Rightarrow> map (Pair ci) (List.map_filter (field_u64 u64 ''index'') deltas))"

definition observe_streaming ::
  "('n \<Rightarrow> nat option) \<Rightarrow> 'n json \<Rightarrow> tool_call_counter \<Rightarrow> tool_call_counter" where
  "observe_streaming u64 v c =
     (let announces = (field_str ''type'' v = Some ''content_block_start''
            \<and> Option.bind (get_field ''content_block'' v) (field_str ''type'') = Some ''tool_use'')
      in c\<lparr>tc_seen := True,
           tc_anthropic := (if announces then Suc (tc_anthropic c) else tc_anthropic c),
           tc_openai_stream := tc_openai_stream c
             \<union> set (concat (map (stream_indexes u64) (or_else (field_array ''choices'' v) [])))\<rparr>)"

definition observe_non_streaming :: "'n json \<Rightarrow> tool_call_counter \<Rightarrow> tool_call_counter" where
  "observe_non_streaming v c =
     c\<lparr>tc_seen := True,
       tc_anthropic := tc_anthropic c
         + length (filter (\<lambda>b. field_str ''type'' b = Some ''tool_use'') (or_else (field_array ''content'' v) [])),
       tc_openai_nonstream := tc_openai_nonstream c
         + sum_list (map (\<lambda>ch. length (or_else (Option.bind (get_field ''message'' ch) (field_array ''tool_calls'')) []))
             (or_else (field_array ''choices'' v) []))\<rparr>"

definition counter_finish :: "tool_call_counter \<Rightarrow> nat option" where
  "counter_finish c =
     (if tc_seen c then Some (tc_anthropic c + tc_openai_nonstream c + card (tc_openai_stream c)) else None)"

section \<open>Reading the body\<close>

record reading =
  rg_usage :: usage
  rg_net :: netting
  rg_counter :: tool_call_counter
  rg_report :: usage_report
  rg_closed :: bool

definition reading_new :: reading where
  "reading_new = \<lparr>rg_usage = default_usage, rg_net = netting_new, rg_counter = counter_new,
     rg_report = No_report, rg_closed = False\<rparr>"

definition read_event :: "'n wire \<Rightarrow> string \<Rightarrow> reading \<Rightarrow> reading" where
  "read_event w event s =
     (if trim event = ''[DONE]'' then s\<lparr>rg_closed := True\<rparr>
      else case wi_parse w event of
          None \<Rightarrow> s
        | Some v \<Rightarrow>
            let (r, us, net) = merge_usage (wi_u64 w) v (rg_usage s, rg_net s)
            in \<lparr>rg_usage = us, rg_net = net, rg_counter = observe_streaming (wi_u64 w) v (rg_counter s),
                rg_report = max (rg_report s) r,
                rg_closed = (rg_closed s \<or> field_str ''type'' v = Some ''message_stop'')\<rparr>)"

definition parser_finish :: "'n wire \<Rightarrow> usage_parser \<Rightarrow> parsed_usage" where
  "parser_finish w p =
     (let body = wi_lossy w (up_buf p);
          sse = split_sse_events body;
          (whole, s) =
            (if se_saw_data_field sse then (False, fold (read_event w) (se_events sse) reading_new)
             else case wi_parse w (trim body) of
                 None \<Rightarrow> (False, reading_new)
               | Some v \<Rightarrow>
                   let (r, us, net) = merge_usage (wi_u64 w) v (default_usage, netting_new)
                   in (True, reading_new\<lparr>rg_usage := us, rg_net := net,
                              rg_counter := observe_non_streaming v counter_new\<rparr>))
      in \<lparr>pu_usage = (rg_usage s)\<lparr>us_tool_calls := counter_finish (rg_counter s)\<rparr>,
          pu_truncated = up_truncated p,
          pu_complete = (whole \<or> rg_report s = Final \<or> (rg_closed s \<and> rg_report s = Running))\<rparr>)"

end
