(* ===== verification/Usage_Props.thy ===== *)
theory Usage_Props
  imports Usage_Parser
begin

text \<open>
  What the usage parser reads, and what follows for the charge.
\<close>

section \<open>Chunks\<close>

lemma feed_all:
  "fold (\<lambda>c p. feed p c) chunks \<lparr>up_buf = take PARSER_CAP body, up_truncated = (PARSER_CAP < length body)\<rparr>
     = \<lparr>up_buf = take PARSER_CAP (body @ concat chunks), up_truncated = (PARSER_CAP < length (body @ concat chunks))\<rparr>"
proof (induction chunks arbitrary: body)
  case (Cons c chunks)
  have "feed \<lparr>up_buf = take PARSER_CAP body, up_truncated = (PARSER_CAP < length body)\<rparr> c
      = \<lparr>up_buf = take PARSER_CAP (body @ c), up_truncated = (PARSER_CAP < length (body @ c))\<rparr>"
    by (auto simp: feed_def Let_def min_def)
  with Cons.IH [of "body @ c"] show ?case by simp
qed simp

text \<open>The chunks an answer arrives in do not matter: the parser holds the first 8 MiB of the body and
  knows whether there was more; and when there was, whatever usage that part shows is not charged:
  the call costs the estimate.\<close>

lemma chunks_do_not_matter:
  "(let p = fold (\<lambda>c p. feed p c) chunks usage_parser_new; body = concat chunks in
     p = \<lparr>up_buf = take PARSER_CAP body, up_truncated = (PARSER_CAP < length body)\<rparr>
     \<and> (if PARSER_CAP < length body
        then settle_amount prices model (Some (parser_finish w p)) estimate cap
               = (estimate, default_usage, Estimate_truncated)
        else up_buf p = body))"
proof -
  have p: "fold (\<lambda>c p. feed p c) chunks usage_parser_new
      = \<lparr>up_buf = take PARSER_CAP (concat chunks), up_truncated = (PARSER_CAP < length (concat chunks))\<rparr>"
    using feed_all [of chunks "[]"] by (simp add: usage_parser_new_def)
  have "pu_truncated (parser_finish w q) = up_truncated q" for q
    by (simp add: parser_finish_def Let_def split: prod.split)
  then show ?thesis unfolding Let_def p by (simp add: settle_amount_def)
qed

section \<open>The two shapes of usage\<close>

definition last_positive :: "('a \<Rightarrow> nat option) \<Rightarrow> 'a list \<Rightarrow> nat \<Rightarrow> nat" where
  "last_positive f xs start = fold (\<lambda>x. set_if_positive (f x)) xs start"

lemma last_positive_simps [simp]:
  "last_positive f [] n = n"
  "last_positive f (x # xs) n = last_positive f xs (set_if_positive (f x) n)"
  by (simp_all add: last_positive_def)

definition netted_all :: "('n \<Rightarrow> nat option) \<Rightarrow> 'n json list \<Rightarrow> netting \<Rightarrow> netting" where
  "netted_all u64 us net =
     \<lparr>nt_gross = last_positive (field_u64 u64 ''prompt_tokens'') us (nt_gross net),
      nt_cached = last_positive (detail_u64 u64 ''cached_tokens'') us (nt_cached net),
      nt_write = last_positive (detail_u64 u64 ''cache_write_tokens'') us (nt_write net),
      nt_completion = last_positive (field_u64 u64 ''completion_tokens'') us (nt_completion net),
      nt_total = last_positive (field_u64 u64 ''total_tokens'') us (nt_total net)\<rparr>"

lemma netted_all_simps [simp]:
  "netted_all u64 [] net = net"
  "netted_all u64 (u # us) net = netted_all u64 us (netted u64 u net)"
  by (simp_all add: netted_all_def netted_def)

text \<open>The input side of the usage is a function of the figures seen so far.\<close>

definition input_side :: "usage \<Rightarrow> netting \<Rightarrow> bool" where
  "input_side us net \<longleftrightarrow>
     us_input us = nt_gross net - nt_cached net - nt_write net
     \<and> us_cache_read us = nt_cached net \<and> us_cache_write us = nt_write net"

lemma set_if_positive_zero: "set_if_positive x n = 0 \<Longrightarrow> n = 0"
  by (simp add: set_if_positive_def split: option.splits if_splits)

lemma apply_openai_step:
  assumes "input_side us net" and "apply_openai u64 u (us, net) = (us', net')"
  shows "net' = netted u64 u net \<and> input_side us' net' \<and> us_cache_write_1h us' = us_cache_write_1h us
     \<and> us_output us' = (if carries_a_figure u \<and> 0 < billed_output net' then billed_output net' else us_output us)"
proof -
  let ?n = "netted u64 u net"
  have z: "nt_gross ?n = 0 \<longrightarrow> nt_gross net = 0" "nt_cached ?n = 0 \<longrightarrow> nt_cached net = 0"
    "nt_write ?n = 0 \<longrightarrow> nt_write net = 0"
    by (auto simp: netted_def dest: set_if_positive_zero)
  have n: "net' = ?n" using assms(2) by (simp add: apply_openai_def Let_def)
  have "us_input us' = (if 0 < nt_gross ?n then nt_gross ?n - nt_cached ?n - nt_write ?n else us_input us)"
    "us_cache_read us' = (if 0 < nt_cached ?n then nt_cached ?n else us_cache_read us)"
    "us_cache_write us' = (if 0 < nt_write ?n then nt_write ?n else us_cache_write us)"
    "us_cache_write_1h us' = us_cache_write_1h us"
    "us_output us' = (if carries_a_figure u \<and> 0 < billed_output ?n then billed_output ?n else us_output us)"
    using assms(2) by (auto simp: apply_openai_def Let_def)
  with z assms(1) show ?thesis unfolding n by (simp add: input_side_def)
qed

lemma apply_openai_all:
  "input_side us net \<Longrightarrow> fold (apply_openai u64) objs (us, net) = (us', net') \<Longrightarrow>
     net' = netted_all u64 objs net \<and> input_side us' net' \<and> us_cache_write_1h us' = us_cache_write_1h us
     \<and> (list_all (\<lambda>u. \<not> carries_a_figure u) objs \<longrightarrow> us_output us' = us_output us)"
proof (induction objs arbitrary: us net)
  case (Cons u objs)
  obtain us1 net1 where s: "apply_openai u64 u (us, net) = (us1, net1)" by force
  note step = apply_openai_step [OF Cons.prems(1) s]
  then have i: "input_side us1 net1" by blast
  from Cons.prems(2) s have "fold (apply_openai u64) objs (us1, net1) = (us', net')" by simp
  from Cons.IH [OF i this] step show ?case by auto
qed simp

lemma figure_free:
  assumes "\<not> carries_a_figure u"
  shows "nt_gross (netted u64 u net) = nt_gross net" "nt_completion (netted u64 u net) = nt_completion net"
    "nt_total (netted u64 u net) = nt_total net"
  using assms by (simp_all add: carries_a_figure_def has_field_def netted_def field_u64_def set_if_positive_def)

lemma figure_free_billed:
  "list_all (\<lambda>u. \<not> carries_a_figure u) objs \<Longrightarrow> billed_output (netted_all u64 objs net) = billed_output net"
proof (induction objs arbitrary: net)
  case (Cons u objs)
  then have "billed_output (netted u64 u net) = billed_output net" by (simp add: billed_output_def figure_free)
  with Cons show ?case by simp
qed simp

text \<open>Every token OpenAI reports is charged once, whichever objects carry the figures and in whichever
  order they arrive: the prompt count is split into the cached, the written and the remaining
  tokens, which add up to it (or to the two subsets when they exceed it), and the output is the
  completion count or what the total holds beyond the prompt, whichever is more, as of the last
  object with a figure.\<close>

lemma openai_tokens_charged_once:
  assumes "fold (apply_openai u64) (before @ u # details) (default_usage, netting_new) = (us, net)"
    and "carries_a_figure u" and "list_all (\<lambda>d. \<not> carries_a_figure d) details"
  defines "gross \<equiv> last_positive (field_u64 u64 ''prompt_tokens'') (before @ u # details) 0"
    and "cached \<equiv> last_positive (detail_u64 u64 ''cached_tokens'') (before @ u # details) 0"
    and "written \<equiv> last_positive (detail_u64 u64 ''cache_write_tokens'') (before @ u # details) 0"
    and "billed \<equiv> max (last_positive (field_u64 u64 ''completion_tokens'') (before @ u # details) 0)
             (last_positive (field_u64 u64 ''total_tokens'') (before @ u # details) 0
              - last_positive (field_u64 u64 ''prompt_tokens'') (before @ u # details) 0)"
  shows "us_input us = gross - cached - written \<and> us_cache_read us = cached \<and> us_cache_write us = written
     \<and> us_cache_write_1h us = 0
     \<and> (0 < gross \<longrightarrow> us_input us + us_cache_read us + us_cache_write us = max gross (cached + written))
     \<and> (0 < billed \<longrightarrow> us_output us = billed)"
proof -
  have start: "input_side default_usage netting_new"
    by (simp add: input_side_def default_usage_def netting_new_def)
  note all = apply_openai_all [OF start assms(1)]
  have net: "net = netted_all u64 (before @ u # details) netting_new" "input_side us net"
    using all by blast+
  have one_hour: "us_cache_write_1h us = 0" using all by (simp add: default_usage_def)
  obtain us1 net1 where b: "fold (apply_openai u64) before (default_usage, netting_new) = (us1, net1)" by force
  obtain us2 net2 where s: "apply_openai u64 u (us1, net1) = (us2, net2)" by force
  have r: "fold (apply_openai u64) details (us2, net2) = (us, net)" using assms(1) b s by simp
  have i1: "input_side us1 net1" using apply_openai_all [OF start b] by blast
  note step = apply_openai_step [OF i1 s]
  then have i2: "input_side us2 net2" by blast
  note rest = apply_openai_all [OF i2 r]
  have "billed_output net = billed_output net2" using rest figure_free_billed [OF assms(3)] by simp
  then have "0 < billed_output net \<Longrightarrow> us_output us = billed_output net"
    using step rest assms(2,3) by simp
  moreover have "billed = billed_output net"
    by (simp add: net(1) billed_def billed_output_def netted_all_def netting_new_def)
  moreover have "nt_gross net = gross" "nt_cached net = cached" "nt_write net = written"
    by (simp_all add: net(1) netted_all_def netting_new_def gross_def cached_def written_def)
  ultimately show ?thesis using net(2) one_hour by (auto simp: input_side_def max_def)
qed

section \<open>The last word\<close>

definition event_report :: "('n \<Rightarrow> nat option) \<Rightarrow> 'n json \<Rightarrow> usage_report" where
  "event_report u64 v =
     (case get_field ''usage'' v of
        Some (JObj fs) \<Rightarrow>
          report_of
            (list_ex (\<lambda>k. field_u64 u64 k (JObj fs) \<noteq> None)
               (if is_openai_shape (JObj fs) then [''completion_tokens'', ''total_tokens''] else [''output_tokens'']))
            (says_still_open v)
      | _ \<Rightarrow> No_report)"

lemma merge_usage_report: "fst (merge_usage u64 v s) = event_report u64 v"
  by (cases s) (simp add: merge_usage_def event_report_def Let_def split: option.split json.split)

definition documents :: "'n wire \<Rightarrow> string list \<Rightarrow> 'n json list" where
  "documents w events = List.map_filter (\<lambda>e. if trim e = ''[DONE]'' then None else wi_parse w e) events"

definition closes :: "'n wire \<Rightarrow> string list \<Rightarrow> bool" where
  "closes w events \<longleftrightarrow> list_ex (\<lambda>e. trim e = ''[DONE]'') events
     \<or> list_ex (\<lambda>v. field_str ''type'' v = Some ''message_stop'') (documents w events)"

definition tool_starts :: "'n json list \<Rightarrow> nat" where
  "tool_starts vs = length (filter (\<lambda>v. field_str ''type'' v = Some ''content_block_start''
     \<and> Option.bind (get_field ''content_block'' v) (field_str ''type'') = Some ''tool_use'') vs)"

definition call_indexes :: "('n \<Rightarrow> nat option) \<Rightarrow> 'n json list \<Rightarrow> (nat \<times> nat) set" where
  "call_indexes u64 vs = (\<Union>v \<in> set vs. \<Union>ch \<in> set (or_else (field_array ''choices'' v) []). set (stream_indexes u64 ch))"

lemma documents_simps [simp]:
  "documents w [] = []"
  "documents w (e # es) = (if trim e = ''[DONE]'' then documents w es
     else (case wi_parse w e of None \<Rightarrow> documents w es | Some v \<Rightarrow> v # documents w es))"
  by (simp_all add: documents_def List.map_filter_simps split: option.split)

lemma read_events:
  "rg_closed (fold (read_event w) es s) = (rg_closed s \<or> closes w es)
   \<and> rg_report (fold (read_event w) es s) = fold max (map (event_report (wi_u64 w)) (documents w es)) (rg_report s)
   \<and> tc_seen (rg_counter (fold (read_event w) es s)) = (tc_seen (rg_counter s) \<or> documents w es \<noteq> [])
   \<and> tc_anthropic (rg_counter (fold (read_event w) es s)) = tc_anthropic (rg_counter s) + tool_starts (documents w es)
   \<and> tc_openai_nonstream (rg_counter (fold (read_event w) es s)) = tc_openai_nonstream (rg_counter s)
   \<and> tc_openai_stream (rg_counter (fold (read_event w) es s))
       = tc_openai_stream (rg_counter s) \<union> call_indexes (wi_u64 w) (documents w es)"
proof (induction es arbitrary: s)
  case Nil
  show ?case by (simp add: closes_def tool_starts_def call_indexes_def)
next
  case (Cons e es)
  show ?case
  proof (cases "trim e = ''[DONE]'' \<or> wi_parse w e = None")
    case True
    with Cons [of "read_event w e s"] show ?thesis
      by (auto simp: read_event_def closes_def)
  next
    case False
    then obtain v where v: "wi_parse w e = Some v" by auto
    obtain r us net where m: "merge_usage (wi_u64 w) v (rg_usage s, rg_net s) = (r, us, net)" by (rule prod_cases3)
    have "r = event_report (wi_u64 w) v" using merge_usage_report [of "wi_u64 w" v "(rg_usage s, rg_net s)"] m by simp
    with Cons [of "read_event w e s"] False v m show ?thesis
      by (auto simp: read_event_def closes_def tool_starts_def call_indexes_def observe_streaming_def Let_def max.commute)
  qed
qed

lemma max_report [simp]:
  "max No_report r = r" "max r No_report = r" "max Final r = Final" "max r Final = Final" "max Running Running = Running"
  by (cases r; simp add: max_def less_eq_usage_report_def)+

lemma fold_max_final:
  "(fold max rs (r :: usage_report) = Final) = (r = Final \<or> Final \<in> set rs)"
  "(fold max rs r = Running) = (Final \<noteq> r \<and> Final \<notin> set rs \<and> (r = Running \<or> Running \<in> set rs))"
proof (induction rs arbitrary: r)
  case (Cons x rs)
  {
    case 1
    show ?case by (cases x; cases r) (simp_all add: Cons)
  next
    case 2
    show ?case by (cases x; cases r) (simp_all add: Cons)
  }
qed auto

text \<open>For a streamed answer, the usage is called complete exactly when some event's output figure comes
  without the word that the message is still open, or when the stream closed and some event had an
  output figure; the opening counts of \<open>message_start\<close> never make it so. Tool calls are counted once
  each, however many deltas a call is streamed in, and are unknown only if no event could be read.\<close>

lemma streamed_usage_exact:
  assumes "se_saw_data_field (split_sse_events (wi_lossy w (up_buf p)))"
    and "vs = documents w (se_events (split_sse_events (wi_lossy w (up_buf p))))"
  shows "(pu_complete (parser_finish w p) \<longleftrightarrow>
       Final \<in> event_report (wi_u64 w) ` set vs
       \<or> closes w (se_events (split_sse_events (wi_lossy w (up_buf p)))) \<and> Running \<in> event_report (wi_u64 w) ` set vs)
     \<and> us_tool_calls (pu_usage (parser_finish w p))
       = (if vs = [] then None else Some (tool_starts vs + card (call_indexes (wi_u64 w) vs)))"
proof -
  let ?es = "se_events (split_sse_events (wi_lossy w (up_buf p)))"
  note r = read_events [of w ?es reading_new]
  have "pu_complete (parser_finish w p) \<longleftrightarrow>
       Final \<in> event_report (wi_u64 w) ` set vs
       \<or> closes w ?es \<and> Running \<in> event_report (wi_u64 w) ` set vs"
    using assms r by (auto simp: parser_finish_def Let_def reading_new_def fold_max_final)
  moreover have "us_tool_calls (pu_usage (parser_finish w p))
       = (if vs = [] then None else Some (tool_starts vs + card (call_indexes (wi_u64 w) vs)))"
    using assms r by (simp add: parser_finish_def Let_def reading_new_def counter_finish_def counter_new_def)
  ultimately show ?thesis ..
qed

section \<open>Two answers\<close>

text \<open>A prompt of 950 tokens, of which a later object says that 300 came from the cache.\<close>

definition prompt_object :: "nat json" where
  "prompt_object = JObj [(''prompt_tokens'', JNum 950), (''completion_tokens'', JNum 128)]"

definition cached_object :: "nat json" where
  "cached_object = JObj [(''prompt_tokens_details'', JObj [(''cached_tokens'', JNum 300)])]"

theorem openai_tokens_charged_once_witness:
  "\<exists>us net. fold (apply_openai Some) [prompt_object, cached_object] (default_usage, netting_new) = (us, net)
     \<and> us_input us = 650 \<and> us_cache_read us = 300 \<and> us_output us = 128"
proof -
  obtain us net where f: "fold (apply_openai Some) ([] @ prompt_object # [cached_object]) (default_usage, netting_new)
      = (us, net)" by force
  have c: "carries_a_figure prompt_object" "list_all (\<lambda>d. \<not> carries_a_figure d) [cached_object]"
    by (simp_all add: carries_a_figure_def has_field_def prompt_object_def cached_object_def)
  have v: "last_positive (field_u64 Some ''prompt_tokens'') [prompt_object, cached_object] 0 = 950"
    "last_positive (detail_u64 Some ''cached_tokens'') [prompt_object, cached_object] 0 = 300"
    "last_positive (detail_u64 Some ''cache_write_tokens'') [prompt_object, cached_object] 0 = 0"
    "last_positive (field_u64 Some ''completion_tokens'') [prompt_object, cached_object] 0 = 128"
    "last_positive (field_u64 Some ''total_tokens'') [prompt_object, cached_object] 0 = 0"
    by (simp_all add: prompt_object_def cached_object_def field_u64_def detail_u64_def set_if_positive_def)
  from openai_tokens_charged_once [OF f c] f v show ?thesis by simp
qed

text \<open>A stream of one event, whose document carries an output count and nothing else.\<close>

definition one_event_wire :: "nat wire" where
  "one_event_wire = \<lparr>wi_lossy = (\<lambda>s. s),
     wi_parse = (\<lambda>s. if s = ''x'' then Some (JObj [(''usage'', JObj [(''output_tokens'', JNum 5)])]) else None),
     wi_render = (\<lambda>_. []), wi_u64 = Some\<rparr>"

lemma one_event: "split_sse_events ''data:x'' = \<lparr>se_events = [''x''], se_saw_data_field = True\<rparr>"
  by code_simp

lemma one_event_trim: "trim ''x'' = ''x''"
  by code_simp

theorem streamed_usage_exact_witness:
  "pu_complete (parser_finish one_event_wire \<lparr>up_buf = ''data:x'', up_truncated = False\<rparr>)"
proof -
  let ?p = "\<lparr>up_buf = ''data:x'', up_truncated = False\<rparr>"
  have l: "wi_lossy one_event_wire (up_buf ?p) = ''data:x''" by (simp add: one_event_wire_def)
  have s: "se_saw_data_field (split_sse_events (wi_lossy one_event_wire (up_buf ?p)))"
    unfolding l by (simp add: one_event)
  have d: "documents one_event_wire (se_events (split_sse_events (wi_lossy one_event_wire (up_buf ?p))))
      = [JObj [(''usage'', JObj [(''output_tokens'', JNum 5)])]]"
    unfolding l by (simp add: one_event one_event_trim one_event_wire_def)
  have "event_report (wi_u64 one_event_wire) (JObj [(''usage'', JObj [(''output_tokens'', JNum 5)])]) = Final"
    by (simp add: event_report_def is_openai_shape_def has_field_def field_u64_def report_of_def says_still_open_def
        is_explicit_null_def field_array_def one_event_wire_def)
  then show ?thesis
    using streamed_usage_exact [OF s d [symmetric]] by (simp add: image_iff)
qed

end
