(* ===== verification/Recency.thy ===== *)
theory Recency
  imports Prelude "HOL-Library.AList"
begin

text \<open>
  The containers the control plane's store is built from (\<open>crates/cloud/src/store.rs\<close>). A
  \<open>HashMap\<close> that the code iterates, counts or serialises is an association list without
  repeated keys; the order of the list stands for the iteration order, which the library leaves
  open. A \<open>VecDeque\<close> is a list, front first. \<open>RecencyIndex\<close> is the least-recently-used
  index that bounds several of those maps; it refines a plain list of keys.
\<close>

section \<open>Tables\<close>

type_synonym ('k, 'v) table = "('k \<times> 'v) list"

definition keys :: "('k, 'v) table \<Rightarrow> 'k set" where
  "keys m = fst ` set m"

text \<open>\<open>m.entry(k).or_insert(d)\<close>: what the entry holds.\<close>

definition entry_or :: "'v \<Rightarrow> 'k \<Rightarrow> ('k, 'v) table \<Rightarrow> 'v" where
  "entry_or d k m = (case map_of m k of None \<Rightarrow> d | Some v \<Rightarrow> v)"

definition on_entry :: "'v \<Rightarrow> 'k \<Rightarrow> ('v \<Rightarrow> 'v) \<Rightarrow> ('k, 'v) table \<Rightarrow> ('k, 'v) table" where
  "on_entry d k f m = AList.update k (f (entry_or d k m)) m"

definition table_ok :: "('k, 'v) table \<Rightarrow> bool" where
  "table_ok m \<longleftrightarrow> distinct (map fst m)"

text \<open>\<open>while q.len() > cap { q.pop_front() }\<close>.\<close>

definition keep_last :: "nat \<Rightarrow> 'a list \<Rightarrow> 'a list" where
  "keep_last n q = drop (length q - n) q"

lemma keys_map_of: "k \<in> keys m \<longleftrightarrow> map_of m k \<noteq> None"
  by (simp add: keys_def map_of_eq_None_iff)

lemma keys_simps [simp]:
  "keys [] = {}"
  "keys (AList.update k v m) = insert k (keys m)"
  "keys (AList.delete k m) = keys m - {k}"
  "keys (on_entry d k f m) = insert k (keys m)"
  by (auto simp: keys_def AList.dom_update AList.delete_eq on_entry_def)

lemma keys_filter: "keys (filter P m) \<subseteq> keys m"
  by (auto simp: keys_def)

lemma finite_keys [simp]: "finite (keys m)"
  by (simp add: keys_def)

lemma table_ok_simps [simp]:
  "table_ok []"
  "table_ok m \<Longrightarrow> table_ok (AList.update k v m)"
  "table_ok m \<Longrightarrow> table_ok (AList.delete k m)"
  "table_ok m \<Longrightarrow> table_ok (on_entry d k f m)"
  "table_ok m \<Longrightarrow> table_ok (filter P m)"
  by (simp_all add: table_ok_def AList.distinct_update AList.distinct_delete on_entry_def distinct_map_filter)

lemma map_of_update [simp]: "map_of (AList.update k v m) = (map_of m)(k \<mapsto> v)"
  by (rule AList.update_conv')

lemma map_of_delete [simp]: "map_of (AList.delete k m) = (map_of m)(k := None)"
  by (rule AList.delete_conv')

lemma map_of_on_entry [simp]: "map_of (on_entry d k f m) = (map_of m)(k \<mapsto> f (entry_or d k m))"
  by (simp add: on_entry_def)

lemma entry_or_simps [simp]:
  "entry_or d k [] = d"
  "entry_or d k (AList.update k' v m) = (if k = k' then v else entry_or d k m)"
  "entry_or d k (AList.delete k' m) = (if k = k' then d else entry_or d k m)"
  "entry_or d k (on_entry d' k' f m) = (if k = k' then f (entry_or d' k' m) else entry_or d k m)"
  by (simp_all add: entry_or_def)

lemma card_keys: "table_ok m \<Longrightarrow> card (keys m) = length m"
  unfolding table_ok_def keys_def by (metis distinct_card length_map set_map)

lemma length_update: "table_ok m \<Longrightarrow> length (AList.update k v m) = (if k \<in> keys m then length m else Suc (length m))"
  by (simp add: card_keys [symmetric] insert_absorb)

lemma length_on_entry: "table_ok m \<Longrightarrow> length (on_entry d k f m) = (if k \<in> keys m then length m else Suc (length m))"
  by (simp add: on_entry_def length_update)

lemma length_delete: "table_ok m \<Longrightarrow> length (AList.delete k m) = (if k \<in> keys m then length m - 1 else length m)"
  by (simp add: card_keys [symmetric])

lemma keep_last_simps [simp]:
  "length (keep_last n q) = min n (length q)"
  "set (keep_last n q) \<subseteq> set q"
  by (auto simp: keep_last_def dest: in_set_dropD)

lemma keep_last_id: "length q \<le> n \<Longrightarrow> keep_last n q = q"
  by (simp add: keep_last_def)

lemma filter_neq_id [simp]: "k \<notin> set xs \<Longrightarrow> filter (\<lambda>j. j \<noteq> k) xs = xs"
  by (induction xs) auto

section \<open>The index\<close>

text \<open>\<open>by_seq\<close> is a \<open>BTreeMap\<close>, iterated in ascending order.\<close>

record 'k recency_index =
  by_seq :: "(nat \<times> 'k) list"
  seq_of :: "('k, nat) table"
  next_seq :: nat

definition recency_new :: "'k recency_index" where
  "recency_new = \<lparr>by_seq = [], seq_of = [], next_seq = 0\<rparr>"

definition touch :: "'k \<Rightarrow> 'k recency_index \<Rightarrow> 'k recency_index" where
  "touch key ix =
     (let (so, by) = (case map_of (seq_of ix) key of
                        Some old_seq \<Rightarrow> (AList.delete key (seq_of ix), AList.delete old_seq (by_seq ix))
                      | None \<Rightarrow> (seq_of ix, by_seq ix));
          sq = next_seq ix
      in \<lparr>by_seq = bt_insert sq key by, seq_of = AList.update key sq so, next_seq = wrap_succ_u64 sq\<rparr>)"

definition evict_oldest :: "'k recency_index \<Rightarrow> 'k option \<times> 'k recency_index" where
  "evict_oldest ix =
     (case by_seq ix of
        [] \<Rightarrow> (None, ix)
      | (sq, key) # rest \<Rightarrow> (Some key, ix\<lparr>by_seq := rest, seq_of := AList.delete key (seq_of ix)\<rparr>))"

text \<open>
  The scan remembers the first entry it saw and returns the first unprotected key; when every key
  is protected it falls back to that first entry.
\<close>

definition evict_oldest_unprotected ::
  "('k \<Rightarrow> bool) \<Rightarrow> 'k recency_index \<Rightarrow> 'k option \<times> 'k recency_index" where
  "evict_oldest_unprotected protected ix =
     (case List.find (\<lambda>(sq, key). \<not> protected key) (by_seq ix) of
        Some (sq, key) \<Rightarrow>
          (Some key, ix\<lparr>by_seq := AList.delete sq (by_seq ix), seq_of := AList.delete key (seq_of ix)\<rparr>)
      | None \<Rightarrow>
          (case by_seq ix of
             [] \<Rightarrow> (None, ix)
           | (sq, key) # rest \<Rightarrow> (Some key, ix\<lparr>by_seq := rest, seq_of := AList.delete key (seq_of ix)\<rparr>)))"

text \<open>What the index stands for, and when it does: \<open>n\<close> more touches fit below \<open>u64\<close>'s end.\<close>

definition lru :: "'k recency_index \<Rightarrow> 'k list" where
  "lru ix = map snd (by_seq ix)"

definition recency_ok :: "'k recency_index \<Rightarrow> bool" where
  "recency_ok ix \<longleftrightarrow>
     bt_ok (by_seq ix) \<and> distinct (lru ix) \<and> table_ok (seq_of ix)
     \<and> (\<forall>sq key. map_of (seq_of ix) key = Some sq \<longleftrightarrow> (sq, key) \<in> set (by_seq ix))
     \<and> (\<forall>sq \<in> keys (by_seq ix). sq < next_seq ix)"

definition recency_room :: "'k recency_index \<Rightarrow> nat \<Rightarrow> bool" where
  "recency_room ix n \<longleftrightarrow> next_seq ix + n \<le> U64_MAX"

lemma bt_insert_last: "\<forall>j \<in> keys xs. j < k \<Longrightarrow> bt_insert k v xs = xs @ [(k, v)]"
  by (induction xs) (auto simp: keys_def)

lemma bt_ok_distinct: "bt_ok xs \<Longrightarrow> distinct (map fst xs)"
  by (induction xs) fastforce+

lemma delete_by_key:
  assumes "distinct (map fst xs)" and "distinct (map snd xs)" and "(sq, key) \<in> set xs"
  shows "map snd (AList.delete sq xs) = filter (\<lambda>k. k \<noteq> key) (map snd xs)"
  using assms
proof (induction xs)
  case (Cons x xs)
  obtain s k where x: "x = (s, k)" by fastforce
  show ?case
  proof (cases "s = sq")
    case True
    with Cons.prems x have "k = key" by force
    moreover have "AList.delete sq xs = xs"
      using Cons.prems True x by (simp add: AList.delete_eq filter_id_conv) force
    moreover have "filter (\<lambda>j. j \<noteq> key) (map snd xs) = map snd xs"
      using Cons.prems x \<open>k = key\<close> by (auto simp: filter_id_conv)
    ultimately show ?thesis using True x by simp
  next
    case False
    with Cons x have "(sq, key) \<in> set xs" by simp
    moreover from this have "k \<noteq> key" using Cons.prems x by force
    ultimately show ?thesis using Cons False x by simp
  qed
qed simp

lemma recency_ok_new [simp]: "recency_ok recency_new" "lru recency_new = []"
  by (simp_all add: recency_ok_def recency_new_def lru_def)

text \<open>Dropping one entry on both sides keeps the index well formed.\<close>

lemma recency_drop:
  assumes ok: "recency_ok ix" and mem: "(sq, key) \<in> set (by_seq ix)"
  shows "recency_ok (ix\<lparr>by_seq := AList.delete sq (by_seq ix), seq_of := AList.delete key (seq_of ix)\<rparr>)"
    and "map snd (AList.delete sq (by_seq ix)) = filter (\<lambda>k. k \<noteq> key) (lru ix)"
proof -
  from ok have bt: "bt_ok (by_seq ix)" and ds: "distinct (lru ix)"
    and so: "\<And>s k. map_of (seq_of ix) k = Some s \<longleftrightarrow> (s, k) \<in> set (by_seq ix)"
    and lt: "\<forall>sq \<in> keys (by_seq ix). sq < next_seq ix" and tok: "table_ok (seq_of ix)"
    by (auto simp: recency_ok_def)
  have df: "distinct (map fst (by_seq ix))" by (rule bt_ok_distinct) (rule bt)
  show l: "map snd (AList.delete sq (by_seq ix)) = filter (\<lambda>k. k \<noteq> key) (lru ix)"
    unfolding lru_def by (rule delete_by_key) (use df ds mem in \<open>auto simp: lru_def\<close>)
  have iff: "(s, k) \<in> set (AList.delete sq (by_seq ix)) \<longleftrightarrow> (s, k) \<in> set (by_seq ix) \<and> k \<noteq> key" for s k
  proof -
    have "(s, k) \<in> set (by_seq ix) \<Longrightarrow> s = sq \<longleftrightarrow> k = key"
      using so [of k s] so [of key sq] mem df ds
      by (metis (no_types, lifting) eq_key_imp_eq_value option.inject)
    then show ?thesis by (auto simp: AList.delete_eq)
  qed
  show "recency_ok (ix\<lparr>by_seq := AList.delete sq (by_seq ix), seq_of := AList.delete key (seq_of ix)\<rparr>)"
    unfolding recency_ok_def
  proof (intro conjI)
    show "bt_ok (by_seq (ix\<lparr>by_seq := AList.delete sq (by_seq ix), seq_of := AList.delete key (seq_of ix)\<rparr>))"
      using bt by (simp add: AList.delete_eq)
  qed (use ds lt tok so iff l in \<open>auto simp: lru_def\<close>)
qed

lemma touch_refines:
  assumes ok: "recency_ok ix" and room: "recency_room ix (Suc n)"
  shows "recency_ok (touch key ix)" and "lru (touch key ix) = filter (\<lambda>k. k \<noteq> key) (lru ix) @ [key]"
    and "recency_room (touch key ix) n"
proof -
  define ix' where "ix' = (case map_of (seq_of ix) key of None \<Rightarrow> ix
     | Some sq \<Rightarrow> ix\<lparr>by_seq := AList.delete sq (by_seq ix), seq_of := AList.delete key (seq_of ix)\<rparr>)"
  have "recency_ok ix' \<and> lru ix' = filter (\<lambda>k. k \<noteq> key) (lru ix) \<and> next_seq ix' = next_seq ix"
  proof (cases "map_of (seq_of ix) key")
    case None
    then have "(s, key) \<notin> set (by_seq ix)" for s using ok by (simp add: recency_ok_def flip: not_Some_eq)
    then have "key \<notin> set (lru ix)" by (auto simp: lru_def)
    then have "filter (\<lambda>k. k \<noteq> key) (lru ix) = lru ix" by (auto simp: filter_id_conv)
    with None ok show ?thesis by (simp add: ix'_def)
  next
    case (Some sq)
    then have "(sq, key) \<in> set (by_seq ix)" using ok by (auto simp: recency_ok_def)
    with recency_drop [OF ok this] Some show ?thesis by (simp add: ix'_def lru_def)
  qed
  then have ok': "recency_ok ix'" and l: "lru ix' = filter (\<lambda>k. k \<noteq> key) (lru ix)"
    and nx: "next_seq ix' = next_seq ix" by auto
  have suc: "wrap_succ_u64 (next_seq ix) = Suc (next_seq ix)"
    using room by (simp add: recency_room_def wrap_succ_u64_small)
  have by_eq: "bt_insert (next_seq ix) key (by_seq ix') = by_seq ix' @ [(next_seq ix, key)]"
    using ok' nx by (intro bt_insert_last) (simp add: recency_ok_def)
  have t: "touch key ix = \<lparr>by_seq = by_seq ix' @ [(next_seq ix, key)],
      seq_of = AList.update key (next_seq ix) (seq_of ix'), next_seq = Suc (next_seq ix)\<rparr>"
    using by_eq by (simp add: touch_def ix'_def suc Let_def split: option.splits)
  have nk: "key \<notin> set (lru ix')" using l by simp
  have so: "map_of (seq_of ix') k = Some s \<longleftrightarrow> (s, k) \<in> set (by_seq ix')" for k s
    using ok' by (simp add: recency_ok_def)
  have lt: "\<forall>sq \<in> keys (by_seq ix'). sq < next_seq ix" using ok' nx by (simp add: recency_ok_def)
  show lt': "lru (touch key ix) = filter (\<lambda>k. k \<noteq> key) (lru ix) @ [key]"
    using l by (simp add: t lru_def)
  show "recency_room (touch key ix) n" using room by (simp add: t recency_room_def)
  have bt: "bt_ok (by_seq ix' @ [(next_seq ix, key)])"
    using bt_ok_insert [of "by_seq ix'" "next_seq ix" key] ok' by (simp add: by_eq [symmetric] recency_ok_def)
  have "((map_of (seq_of ix'))(key \<mapsto> next_seq ix)) k = Some s
      \<longleftrightarrow> (s, k) \<in> set (by_seq ix' @ [(next_seq ix, key)])" for k s
  proof (cases "k = key")
    case True
    with nk show ?thesis by (force simp: lru_def)
  next
    case False
    with so [of k s] show ?thesis by auto
  qed
  moreover have "distinct (lru (touch key ix))"
    using lt' ok by (simp add: recency_ok_def)
  moreover have "table_ok (seq_of ix')" using ok' by (simp add: recency_ok_def)
  ultimately show "recency_ok (touch key ix)"
    using bt lt by (auto simp: recency_ok_def t keys_def)
qed

lemma evict_refines:
  assumes "recency_ok ix"
  shows "fst (evict_oldest ix) = (case lru ix of [] \<Rightarrow> None | k # ks \<Rightarrow> Some k)"
    and "lru (snd (evict_oldest ix)) = tl (lru ix)"
    and "recency_ok (snd (evict_oldest ix))"
    and "recency_room ix n \<Longrightarrow> recency_room (snd (evict_oldest ix)) n"
proof -
  show "fst (evict_oldest ix) = (case lru ix of [] \<Rightarrow> None | k # ks \<Rightarrow> Some k)"
    "lru (snd (evict_oldest ix)) = tl (lru ix)"
    by (auto simp: evict_oldest_def lru_def split: list.splits)
  show "recency_room ix n \<Longrightarrow> recency_room (snd (evict_oldest ix)) n"
    by (auto simp: evict_oldest_def recency_room_def split: list.splits)
  show "recency_ok (snd (evict_oldest ix))"
  proof (cases "by_seq ix")
    case Nil
    with assms show ?thesis by (simp add: evict_oldest_def)
  next
    case (Cons x rest)
    obtain sq key where x: "x = (sq, key)" by fastforce
    have "sq \<notin> fst ` set rest" using assms Cons x by (auto simp: recency_ok_def)
    then have "AList.delete sq (by_seq ix) = rest" using Cons x by (simp add: AList.delete_idem)
    with recency_drop(1) [OF assms, of sq key] Cons x show ?thesis by (simp add: evict_oldest_def)
  qed
qed

lemma evict_unprotected_all: "List.find (\<lambda>(sq, key). \<not> p key) (by_seq ix) = None \<Longrightarrow>
    evict_oldest_unprotected p ix = evict_oldest ix"
  by (simp add: evict_oldest_unprotected_def evict_oldest_def)

lemma find_member: "List.find P xs = Some x \<Longrightarrow> x \<in> set xs \<and> P x"
  by (induction xs) (auto split: if_splits)

lemma find_snd: "map_option snd (List.find (\<lambda>(sq, key). P key) xs) = List.find P (map snd xs)"
  by (induction xs) auto

lemma evict_unprotected_refines:
  assumes ok: "recency_ok ix"
  shows "fst (evict_oldest_unprotected p ix) =
           (case List.find (\<lambda>k. \<not> p k) (lru ix) of Some k \<Rightarrow> Some k
            | None \<Rightarrow> (case lru ix of [] \<Rightarrow> None | k # ks \<Rightarrow> Some k))" (is ?victim)
    and "lru (snd (evict_oldest_unprotected p ix)) =
           (case fst (evict_oldest_unprotected p ix) of None \<Rightarrow> [] | Some k \<Rightarrow> filter (\<lambda>j. j \<noteq> k) (lru ix))" (is ?rest)
    and "recency_ok (snd (evict_oldest_unprotected p ix))" (is ?ok)
    and "recency_room ix n \<Longrightarrow> recency_room (snd (evict_oldest_unprotected p ix)) n" (is "_ \<Longrightarrow> ?room")
proof -
  have f: "List.find (\<lambda>k. \<not> p k) (lru ix) = map_option snd (List.find (\<lambda>(sq, key). \<not> p key) (by_seq ix))"
    by (simp add: lru_def find_snd)
  have "?victim \<and> ?rest \<and> ?ok \<and> (recency_room ix n \<longrightarrow> ?room)"
  proof (cases "List.find (\<lambda>(sq, key). \<not> p key) (by_seq ix)")
    case None
    have d: "k # ks = lru ix \<Longrightarrow> filter (\<lambda>j. j \<noteq> k) ks = ks" for k ks
      using ok by (auto simp: recency_ok_def filter_id_conv dest: arg_cong [where f = distinct])
    show ?thesis
      using None f evict_refines [OF ok]
      by (auto simp: evict_unprotected_all d split: list.splits)
  next
    case (Some e)
    obtain sq key where e: "e = (sq, key)" by fastforce
    have "(sq, key) \<in> set (by_seq ix)" using Some e by (auto simp: find_Some_iff in_set_conv_nth)
    with recency_drop [OF ok this] Some f e show ?thesis
      by (simp add: evict_oldest_unprotected_def lru_def recency_room_def)
  qed
  then show ?victim ?rest ?ok "recency_room ix n \<Longrightarrow> ?room" by blast+
qed

section \<open>Bounded tables\<close>

text \<open>
  What a table bounded by an index relies on: touching moves a key to the back, evicting takes one
  key out, and both keep the index well formed. A second contract says which key goes.
\<close>

locale lru_index =
  fixes order :: "'ix \<Rightarrow> 'k list"
    and ok :: "'ix \<Rightarrow> bool"
    and room :: "'ix \<Rightarrow> nat \<Rightarrow> bool"
    and touching :: "'k \<Rightarrow> 'ix \<Rightarrow> 'ix"
    and evicting :: "'ix \<Rightarrow> 'k option \<times> 'ix"
  assumes touching_ok: "ok ix \<Longrightarrow> room ix (Suc n) \<Longrightarrow> ok (touching k ix)"
    and touching_order: "ok ix \<Longrightarrow> room ix (Suc n) \<Longrightarrow> order (touching k ix) = filter (\<lambda>j. j \<noteq> k) (order ix) @ [k]"
    and touching_room: "ok ix \<Longrightarrow> room ix (Suc n) \<Longrightarrow> room (touching k ix) n"
    and evicting_ok: "ok ix \<Longrightarrow> ok (snd (evicting ix))"
    and evicting_none: "ok ix \<Longrightarrow> fst (evicting ix) = None \<longleftrightarrow> order ix = []"
    and evicting_some: "ok ix \<Longrightarrow> fst (evicting ix) = Some k \<Longrightarrow>
      k \<in> set (order ix) \<and> order (snd (evicting ix)) = filter (\<lambda>j. j \<noteq> k) (order ix)"
    and evicting_room: "ok ix \<Longrightarrow> room ix n \<Longrightarrow> room (snd (evicting ix)) n"
begin

text \<open>
  A table in lock-step with its index, at or below its cap: making room for a new key, touching it
  and writing its entry keep all of that.
\<close>

lemma evict_in_step:
  assumes ix: "ok ix" "set (order ix) = keys m" and m: "table_ok m" "m \<noteq> []"
  shows "\<exists>e ix'. evicting ix = (Some e, ix') \<and> e \<in> keys m \<and> ok ix' \<and> set (order ix') = keys (AList.delete e m)"
proof -
  have "order ix \<noteq> []" using ix m by (cases m) (auto simp: keys_def)
  then obtain e where e: "fst (evicting ix) = Some e"
    using evicting_none [OF ix(1)] by (cases "fst (evicting ix)") auto
  with evicting_some [OF ix(1) e] evicting_ok [OF ix(1)] ix(2)
  show ?thesis by (intro exI [of _ e] exI [of _ "snd (evicting ix)"]) (auto simp: prod_eq_iff)
qed

lemma bounded_update:
  assumes ix: "ok ix" "set (order ix) = keys m" "room ix (Suc n)" and m: "table_ok m"
    and len: "length m \<le> cap" "k \<notin> keys m \<Longrightarrow> length m < cap"
  shows "ok (touching k ix) \<and> set (order (touching k ix)) = keys (AList.update k v m) \<and> room (touching k ix) n
    \<and> table_ok (AList.update k v m) \<and> length (AList.update k v m) \<le> cap"
  using touching_ok [OF ix(1) ix(3)] touching_order [OF ix(1) ix(3)] touching_room [OF ix(1) ix(3)] ix m len
  by (auto simp: length_update)

end

text \<open>The plain index gives back the least recently touched key; the run index passes over protected ones.\<close>

locale lru_oldest = lru_index +
  assumes evicting_hd: "ok ix \<Longrightarrow> order ix = k # ks \<Longrightarrow> fst (evicting ix) = Some k"

locale lru_protected = lru_index order ok room touching evicting
  for order :: "'ix \<Rightarrow> 'k list" and ok room touching evicting +
  fixes protected :: "'k \<Rightarrow> bool"
  assumes evicting_unprotected: "ok ix \<Longrightarrow> fst (evicting ix) = Some k \<Longrightarrow> protected k \<Longrightarrow>
      \<forall>j \<in> set (order ix). protected j"
begin

lemma protected_stays:
  assumes "ok ix" and "fst (evicting ix) = Some k" and "j \<in> set (order ix)" and "\<not> protected j"
  shows "\<not> protected k"
  using evicting_unprotected assms by blast

end

interpretation plain_lru: lru_oldest lru recency_ok recency_room touch evict_oldest
proof (unfold_locales, goal_cases)
  case (5 ix)
  then show ?case by (simp add: evict_refines split: list.splits)
next
  case (6 ix k)
  then show ?case
    by (auto simp: evict_refines recency_ok_def split: list.splits)
qed (rule touch_refines evict_refines, assumption+ | simp add: evict_refines)+

interpretation run_lru: lru_protected lru recency_ok recency_room touch "evict_oldest_unprotected p" p for p
proof (unfold_locales, goal_cases)
  case (5 ix)
  then show ?case by (auto simp: evict_unprotected_refines split: list.splits option.splits)
next
  case (6 ix k)
  then show ?case
    by (auto simp: evict_unprotected_refines split: list.splits option.splits if_splits dest: find_member)
next
  case (8 ix k)
  then show ?case
    by (auto simp: evict_unprotected_refines find_None_iff split: list.splits option.splits if_splits dest: find_member)
qed (rule touch_refines evict_unprotected_refines, assumption+)+

text \<open>
  The opening of \<open>bump_tracker\<close>, \<open>note_call_for_stall\<close> and \<open>bump_fanout_tracker\<close>: a
  genuinely new key at the cap evicts the oldest one; the key is touched either way. The caller
  then writes the key's entry.
\<close>

definition admit_key :: "nat \<Rightarrow> 'k \<Rightarrow> ('k, 'v) table \<Rightarrow> 'k recency_index \<Rightarrow> ('k, 'v) table \<times> 'k recency_index" where
  "admit_key cap key m ix =
     (let (m, ix) = (if map_of m key = None \<and> cap \<le> length m
                     then (case evict_oldest ix of
                             (Some evict_key, ix) \<Rightarrow> (AList.delete evict_key m, ix)
                           | (None, ix) \<Rightarrow> (m, ix))
                     else (m, ix))
      in (m, touch key ix))"

definition in_step :: "nat \<Rightarrow> ('k, 'v) table \<Rightarrow> 'k recency_index \<Rightarrow> bool" where
  "in_step cap m ix \<longleftrightarrow> recency_ok ix \<and> set (lru ix) = keys m \<and> table_ok m \<and> length m \<le> cap"

lemma in_step_new [simp]: "in_step cap [] recency_new"
  by (simp add: in_step_def)

lemma admit_in_step:
  assumes "in_step cap m ix" and "0 < cap" and room: "recency_room ix (Suc n)"
    and a: "admit_key cap key m ix = (m', ix')"
  shows "in_step cap (AList.update key v m') ix' \<and> recency_room ix' n
    \<and> (\<forall>k. map_of m' k \<noteq> None \<longrightarrow> map_of m' k = map_of m k) \<and> (map_of m key \<noteq> None \<longrightarrow> m' = m)"
proof (cases "map_of m key = None \<and> cap \<le> length m")
  case True
  then have "m \<noteq> []" using assms(2) by auto
  then obtain e ix1 where e: "evict_oldest ix = (Some e, ix1)" "e \<in> keys m" "recency_ok ix1"
      "set (lru ix1) = keys (AList.delete e m)"
    using plain_lru.evict_in_step [of ix m] assms(1) by (auto simp: in_step_def)
  have r: "recency_room ix1 (Suc n)"
    using plain_lru.evicting_room [of ix "Suc n"] assms(1) e(1) room by (simp add: in_step_def)
  have "length (AList.delete e m) < cap"
    using e(2) assms(1,2) by (auto simp: in_step_def length_delete keys_def)
  moreover have eq: "m' = AList.delete e m" "ix' = touch key ix1"
    using True e(1) a by (simp_all add: admit_key_def)
  moreover have "table_ok (AList.delete e m)" using assms(1) by (simp add: in_step_def)
  ultimately show ?thesis
    using plain_lru.bounded_update [of ix1 "AList.delete e m" n cap key v] e(3,4) r True
    by (simp add: in_step_def)
next
  case False
  with a have eq: "m' = m" "ix' = touch key ix" by (simp_all add: admit_key_def)
  have len: "key \<notin> keys m \<Longrightarrow> length m < cap" using False by (simp add: keys_map_of)
  have "recency_ok ix" "set (lru ix) = keys m" "table_ok m" "length m \<le> cap"
    using assms(1) by (simp_all add: in_step_def)
  from plain_lru.bounded_update [OF this(1,2) room this(3,4) len]
  show ?thesis by (simp add: eq in_step_def)
qed

end
