(* ===== verification/Cloud_Records.thy ===== *)
theory Cloud_Records
  imports Recency Reports Unit_Ledger Text "HOL-Library.Product_Lexorder"
begin

text \<open>
  \<open>crates/cloud/src/store.rs\<close>, the data: one pushed call record, what the store keeps of a run,
  an org, a unit's month, a day, a gateway and a savings total, and what one record does to each.
  Strings are UTF-8 bytes. Counters bumped with \<open>+= 1\<close> wrap; money saturates.
\<close>

section \<open>The wire record\<close>

record cloud_record =
  cl_ts_millis :: int
  cl_run_id :: string
  cl_model :: string
  cl_decision :: string
  cl_input_tokens :: nat
  cl_output_tokens :: nat
  cl_cost :: int
  cl_step :: nat
  cl_agent_id :: string
  cl_saved :: int
  cl_parent_run_id :: string
  cl_on_behalf_of :: string
  cl_outcome :: string
  cl_unit :: string
  cl_tool_calls :: "nat option"
  cl_owner :: string
  cl_key_id :: string
  cl_price_basis :: string
  cl_identity_reason :: "string option"
  cl_pii_findings :: "string option"

definition is_blocked :: "string \<Rightarrow> bool" where
  "is_blocked decision \<longleftrightarrow> decision \<notin> {''allow'', ''cache_hit''}"

definition BUDGET_BLOCK_DECISION :: string where
  "BUDGET_BLOCK_DECISION = ''budget_exceeded''"

definition KNOWN_DECISIONS :: "string list" where
  "KNOWN_DECISIONS =
     [''allow'', ''cache_hit'', ''budget_exceeded'', ''policy_violation'', ''loop_detected'', ''killed'',
      ''wasm_policy'', ''taint_blocked'', ''dlp_blocked'', ''unit_budget_exceeded'', ''identity_mismatch'']"

definition is_known_decision :: "string \<Rightarrow> bool" where
  "is_known_decision decision \<longleftrightarrow> decision \<in> set KNOWN_DECISIONS"

definition IDENTITY_REFUSAL :: string where
  "IDENTITY_REFUSAL = ''identity_mismatch''"

definition KEY_BUCKET_PREFIX :: string where
  "KEY_BUCKET_PREFIX = ''key:''"

definition filed_under :: "cloud_record \<Rightarrow> string" where
  "filed_under r =
     (if cl_decision r = IDENTITY_REFUSAL
      then (if cl_key_id r = [] then [] else KEY_BUCKET_PREFIX @ cl_key_id r)
      else cl_agent_id r)"

definition is_credential_bucket :: "string \<Rightarrow> bool" where
  "is_credential_bucket i \<longleftrightarrow> starts_with KEY_BUCKET_PREFIX i"

definition admitted :: "string \<Rightarrow> bool" where
  "admitted decision \<longleftrightarrow> decision \<in> {''allow'', ''cache_hit''}"

definition record_cost :: "cloud_record \<Rightarrow> int" where
  "record_cost r = max 0 (cl_cost r)"

definition record_saved :: "cloud_record \<Rightarrow> int" where
  "record_saved r = max 0 (cl_saved r)"

definition record_tools :: "cloud_record \<Rightarrow> nat" where
  "record_tools r = (case cl_tool_calls r of None \<Rightarrow> 0 | Some n \<Rightarrow> n)"

definition pii_suffix :: "string \<Rightarrow> string" where
  "pii_suffix kind = (if starts_with ''pii_'' kind then drop 4 kind else [])"

definition pii_shaped :: "string \<Rightarrow> bool" where
  "pii_shaped kind \<longleftrightarrow>
     pii_suffix kind \<noteq> [] \<and> length (pii_suffix kind) \<le> 24
     \<and> list_all (\<lambda>c. 97 \<le> (of_char c :: nat) \<and> (of_char c :: nat) \<le> 122 \<or> c = CHR ''_'') (pii_suffix kind)"

definition pii_step :: "string \<Rightarrow> (string \<times> nat) list \<Rightarrow> (string \<times> nat) list" where
  "pii_step pair out =
     (case split_once (CHR ''='') pair of
        None \<Rightarrow> out
      | Some (kind, digits) \<Rightarrow>
          (case read_u64 digits of
             None \<Rightarrow> out
           | Some n \<Rightarrow>
               if pii_shaped kind \<and> 1 \<le> n \<and> n \<le> 100000 \<and> kind \<notin> fst ` set out
               then out @ [(kind, n)] else out))"

definition parse_pii_findings :: "string \<Rightarrow> (string \<times> nat) list" where
  "parse_pii_findings raw = fold pii_step (take 16 (split_on (CHR '','') raw)) []"

definition IDENTITY_REASONS :: "string list" where
  "IDENTITY_REASONS =
     [''agent_id_missing'', ''agent_id_not_allowed'', ''unit_chosen_by_agent_id'',
      ''key_has_no_unit_binding'', ''agent_id_contradicts_proven_chain'']"

text \<open>The first \<open>user://\<close> element of the chain, when it names somebody.\<close>

definition owner_of_chain :: "string \<Rightarrow> string option" where
  "owner_of_chain on_behalf_of =
     (case List.find (starts_with ''user://'') (map trim (split_on (CHR '','') on_behalf_of)) of
        None \<Rightarrow> None
      | Some part \<Rightarrow> if length part > 7 then Some part else None)"

section \<open>A run\<close>

record run_model =
  rm_model :: string
  rm_calls :: nat
  rm_spent :: int

definition MAX_RUN_MODELS :: nat where "MAX_RUN_MODELS = 16"
definition OTHER_FALLBACK_MODELS :: string where "OTHER_FALLBACK_MODELS = ''(other models)''"

record run_agg =
  ra_run_id :: string
  ra_model :: string
  ra_agent_id :: string
  ra_unit :: string
  ra_owner :: string
  ra_site :: string
  ra_spent :: int
  ra_calls :: nat
  ra_cache_hits :: nat
  ra_steps :: nat
  ra_last_seen :: int
  ra_killed :: bool
  ra_tool_calls :: nat
  ra_blocked :: nat
  ra_last_decision :: string
  ra_last_decision_millis :: int
  ra_fallback_calls :: nat
  ra_basis_unreported :: nat
  ra_identity_warned :: nat
  ra_last_identity_reason :: string
  ra_pii_calls :: nat
  ra_models :: "run_model list"
  ra_model_switches :: nat
  ra_model_millis :: int
  ra_last_admitted_model :: string
  ra_last_admitted_millis :: int
  ra_killed_by_gateway :: bool

definition run_agg_new :: "string \<Rightarrow> run_agg" where
  "run_agg_new run_id =
     \<lparr>ra_run_id = run_id, ra_model = [], ra_agent_id = [], ra_unit = [], ra_owner = [], ra_site = [],
      ra_spent = 0, ra_calls = 0, ra_cache_hits = 0, ra_steps = 0, ra_last_seen = 0, ra_killed = False,
      ra_tool_calls = 0, ra_blocked = 0, ra_last_decision = [], ra_last_decision_millis = 0,
      ra_fallback_calls = 0, ra_basis_unreported = 0, ra_identity_warned = 0, ra_last_identity_reason = [],
      ra_pii_calls = 0, ra_models = [], ra_model_switches = 0, ra_model_millis = 0,
      ra_last_admitted_model = [], ra_last_admitted_millis = 0, ra_killed_by_gateway = False\<rparr>"

text \<open>The models a run used, with the bucket for the ids past the bound sorted last.\<close>

definition model_order :: "run_model \<Rightarrow> bool \<times> string" where
  "model_order m = (rm_model m = OTHER_FALLBACK_MODELS, rm_model m)"

definition model_key :: "run_model list \<Rightarrow> string \<Rightarrow> string" where
  "model_key models model =
     (let known = list_ex (\<lambda>m. rm_model m = model) models;
          distinct_ids = length (filter (\<lambda>m. rm_model m \<noteq> OTHER_FALLBACK_MODELS) models)
      in if known \<or> distinct_ids < MAX_RUN_MODELS then model else OTHER_FALLBACK_MODELS)"

fun bump_model :: "string \<Rightarrow> int \<Rightarrow> run_model list \<Rightarrow> run_model list" where
  "bump_model key cost [] = []"
| "bump_model key cost (m # ms) =
     (if rm_model m = key
      then m\<lparr>rm_calls := wrap_succ_u64 (rm_calls m), rm_spent := saturating_add (rm_spent m) cost\<rparr> # ms
      else m # bump_model key cost ms)"

definition fold_run_model :: "run_agg \<Rightarrow> string \<Rightarrow> int \<Rightarrow> run_agg" where
  "fold_run_model agg model cost =
     (let key = model_key (ra_models agg) model
      in if list_ex (\<lambda>m. rm_model m = key) (ra_models agg)
         then agg\<lparr>ra_models := bump_model key cost (ra_models agg)\<rparr>
         else agg\<lparr>ra_models := sort_key model_order
                (ra_models agg @ [\<lparr>rm_model = key, rm_calls = 1, rm_spent = cost\<rparr>])\<rparr>)"

text \<open>What one record does to its run, in the order of the loop body.\<close>

definition run_spend :: "cloud_record \<Rightarrow> run_agg \<Rightarrow> run_agg" where
  "run_spend r agg =
     (let agg = (if is_blocked (cl_decision r) then agg
                 else agg\<lparr>ra_spent := saturating_add (ra_spent agg) (record_cost r),
                          ra_tool_calls := sat_u64 (ra_tool_calls agg + record_tools r)\<rparr>);
          agg = agg\<lparr>ra_calls := wrap_succ_u64 (ra_calls agg)\<rparr>
      in if cl_decision r = ''cache_hit'' then agg\<lparr>ra_cache_hits := wrap_succ_u64 (ra_cache_hits agg)\<rparr> else agg)"

definition run_decision :: "cloud_record \<Rightarrow> run_agg \<Rightarrow> run_agg" where
  "run_decision r agg =
     (if is_known_decision (cl_decision r)
      then (let agg = (if is_blocked (cl_decision r) then agg\<lparr>ra_blocked := wrap_succ_u64 (ra_blocked agg)\<rparr> else agg)
            in if cl_ts_millis r \<ge> ra_last_decision_millis agg
               then agg\<lparr>ra_last_decision := cl_decision r, ra_last_decision_millis := cl_ts_millis r\<rparr>
               else agg)
      else agg)"

definition run_identity :: "cloud_record \<Rightarrow> run_agg \<Rightarrow> run_agg" where
  "run_identity r agg =
     (case cl_identity_reason r of
        None \<Rightarrow> agg
      | Some reason \<Rightarrow>
          if reason = [] then agg
          else (let agg = (if admitted (cl_decision r)
                           then agg\<lparr>ra_identity_warned := wrap_succ_u64 (ra_identity_warned agg)\<rparr> else agg)
                in agg\<lparr>ra_last_identity_reason := (if reason \<in> set IDENTITY_REASONS then reason else [])\<rparr>))"

definition pii_kinds_of :: "cloud_record \<Rightarrow> string list" where
  "pii_kinds_of r =
     (if admitted (cl_decision r)
      then (case cl_pii_findings r of None \<Rightarrow> [] | Some raw \<Rightarrow> map fst (parse_pii_findings raw))
      else [])"

definition run_priced :: "cloud_record \<Rightarrow> run_agg \<Rightarrow> run_agg" where
  "run_priced r agg =
     (let agg = (if pii_kinds_of r \<noteq> [] then agg\<lparr>ra_pii_calls := wrap_succ_u64 (ra_pii_calls agg)\<rparr> else agg)
      in if cl_decision r = ''allow''
         then (if cl_price_basis r = ''known'' then agg
               else if cl_price_basis r = ''fallback''
               then agg\<lparr>ra_fallback_calls := wrap_succ_u64 (ra_fallback_calls agg)\<rparr>
               else agg\<lparr>ra_basis_unreported := wrap_succ_u64 (ra_basis_unreported agg)\<rparr>)
         else agg)"

definition run_named_model :: "cloud_record \<Rightarrow> run_agg \<Rightarrow> run_agg" where
  "run_named_model r agg =
     (let agg = (if cl_model r \<noteq> [] \<and> cl_ts_millis r \<ge> ra_model_millis agg
                 then agg\<lparr>ra_model := cl_model r, ra_model_millis := cl_ts_millis r\<rparr> else agg);
          agg = (if admitted (cl_decision r) \<and> cl_model r \<noteq> []
                 then (let agg = fold_run_model agg (cl_model r) (record_cost r)
                       in if cl_ts_millis r \<ge> ra_last_admitted_millis agg
                          then (let agg = (if ra_last_admitted_model agg \<noteq> [] \<and> ra_last_admitted_model agg \<noteq> cl_model r
                                           then agg\<lparr>ra_model_switches := wrap_succ_u64 (ra_model_switches agg)\<rparr>
                                           else agg)
                                in agg\<lparr>ra_last_admitted_model := cl_model r,
                                       ra_last_admitted_millis := cl_ts_millis r\<rparr>)
                          else agg)
                 else agg)
      in if cl_decision r = ''killed'' then agg\<lparr>ra_killed_by_gateway := True\<rparr> else agg)"

definition run_attributed :: "string option \<Rightarrow> cloud_record \<Rightarrow> run_agg \<Rightarrow> run_agg" where
  "run_attributed site r agg =
     (let filed = filed_under r;
          agg = (if cl_decision r = IDENTITY_REFUSAL
                 then (if ra_agent_id agg = [] then agg\<lparr>ra_agent_id := filed\<rparr> else agg)
                 else if filed \<noteq> [] then agg\<lparr>ra_agent_id := filed\<rparr> else agg);
          agg = (if cl_unit r \<noteq> [] then agg\<lparr>ra_unit := cl_unit r\<rparr> else agg);
          agg = (if cl_owner r \<noteq> [] then agg\<lparr>ra_owner := cl_owner r\<rparr>
                 else (case owner_of_chain (cl_on_behalf_of r) of
                         None \<Rightarrow> agg
                       | Some owner \<Rightarrow> agg\<lparr>ra_owner := owner\<rparr>));
          agg = (case site of None \<Rightarrow> agg | Some s \<Rightarrow> if s \<noteq> [] then agg\<lparr>ra_site := s\<rparr> else agg);
          agg = (if cl_step r > ra_steps agg then agg\<lparr>ra_steps := cl_step r\<rparr> else agg)
      in if cl_ts_millis r > ra_last_seen agg then agg\<lparr>ra_last_seen := cl_ts_millis r\<rparr> else agg)"

definition run_fold :: "string option \<Rightarrow> cloud_record \<Rightarrow> run_agg \<Rightarrow> run_agg" where
  "run_fold site r agg =
     run_attributed site r (run_named_model r (run_priced r (run_identity r (run_decision r (run_spend r agg)))))"

end
