(* ===== verification/Cloud_Ingest.thy ===== *)
theory Cloud_Ingest
  imports Cloud_Records
begin

text \<open>
  \<open>crates/cloud/src/store.rs\<close>, the accounting half of \<open>ingest_at_from\<close>: the accumulators of one
  org and what a pushed batch does to each. \<open>over_line spent budget\<close> is the store's float test
  \<open>spent as f64 / budget as f64 >= alert_pct\<close>, whose threshold is fixed when the store is built.
\<close>

definition SERIES_CAP :: nat where "SERIES_CAP = 100000"
definition SPEND_DAYS_RETAINED :: int where "SPEND_DAYS_RETAINED = 400"
definition MAX_SPEND_AGENTS_PER_DAY :: nat where "MAX_SPEND_AGENTS_PER_DAY = 4096"
definition MAX_FALLBACK_MODEL_KEYS :: nat where "MAX_FALLBACK_MODEL_KEYS = 256"
definition MAX_PII_KINDS :: nat where "MAX_PII_KINDS = 16"
definition OTHER_PII_KINDS :: string where "OTHER_PII_KINDS = ''(other kinds)''"
definition MAX_RUNS_PER_ORG :: nat where "MAX_RUNS_PER_ORG = 50000"
definition MAX_BREAK_KEYS :: nat where "MAX_BREAK_KEYS = 10000"
definition MAX_UNIT_MONTH_KEYS :: nat where "MAX_UNIT_MONTH_KEYS = 4096"
definition MAX_GATEWAYS_PER_ORG :: nat where "MAX_GATEWAYS_PER_ORG = 1024"

lemmas cloud_caps = SERIES_CAP_def SPEND_DAYS_RETAINED_def MAX_SPEND_AGENTS_PER_DAY_def
  MAX_FALLBACK_MODEL_KEYS_def MAX_PII_KINDS_def MAX_RUNS_PER_ORG_def MAX_BREAK_KEYS_def
  MAX_UNIT_MONTH_KEYS_def MAX_GATEWAYS_PER_ORG_def

section \<open>The accumulators\<close>

record org_totals =
  ot_calls :: nat
  ot_spent :: int
  ot_tool_calls :: nat
  ot_fallback_calls :: nat
  ot_basis_unreported :: nat
  ot_fallback_models :: "(string, nat) table"
  ot_identity_warned :: nat
  ot_pii_calls :: nat
  ot_pii_kinds :: "(string, nat) table"

definition org_totals_new :: org_totals where
  "org_totals_new =
     \<lparr>ot_calls = 0, ot_spent = 0, ot_tool_calls = 0, ot_fallback_calls = 0, ot_basis_unreported = 0,
      ot_fallback_models = [], ot_identity_warned = 0, ot_pii_calls = 0, ot_pii_kinds = []\<rparr>"

record gateway_acc =
  ga_spent :: int
  ga_calls :: nat
  ga_tool_calls :: nat
  ga_first_push :: int
  ga_last_push :: int
  ga_last_record :: int
  ga_pushes :: nat

definition gateway_acc_new :: gateway_acc where
  "gateway_acc_new =
     \<lparr>ga_spent = 0, ga_calls = 0, ga_tool_calls = 0, ga_first_push = 0, ga_last_push = 0,
      ga_last_record = 0, ga_pushes = 0\<rparr>"

record unit_month_acc =
  um_window :: string
  um_spent :: int
  um_calls :: nat

definition unit_month_acc_new :: unit_month_acc where
  "unit_month_acc_new = \<lparr>um_window = [], um_spent = 0, um_calls = 0\<rparr>"

record day_spend =
  ds_spent :: int
  ds_calls :: nat
  ds_blocked :: nat

definition day_spend_new :: day_spend where
  "day_spend_new = \<lparr>ds_spent = 0, ds_calls = 0, ds_blocked = 0\<rparr>"

text \<open>\<open>breaks\<close> is a \<open>HashSet\<close>: a list without repetition.\<close>

record savings_totals =
  sv_blocked_spend :: int
  sv_cache_saved :: int
  sv_router_saved :: int
  sv_breaks :: "string list"
  sv_budget_breaks :: nat

definition savings_totals_new :: savings_totals where
  "savings_totals_new =
     \<lparr>sv_blocked_spend = 0, sv_cache_saved = 0, sv_router_saved = 0, sv_breaks = [], sv_budget_breaks = 0\<rparr>"

record sample =
  sm_ts_millis :: int
  sm_run_id :: string
  sm_cost :: int
  sm_blocked :: bool
  sm_tool_calls :: nat

section \<open>One record\<close>

text \<open>A bounded count: past the bound a new key is counted under a shared one.\<close>

definition bump_bounded :: "nat \<Rightarrow> string \<Rightarrow> string \<Rightarrow> (string, nat) table \<Rightarrow> (string, nat) table" where
  "bump_bounded cap other key m =
     on_entry 0 (if map_of m key \<noteq> None \<or> length m < cap then key else other) wrap_succ_u64 m"

definition totals_spend :: "cloud_record \<Rightarrow> org_totals \<Rightarrow> org_totals" where
  "totals_spend r t =
     (let t = (if is_blocked (cl_decision r) then t
               else t\<lparr>ot_spent := saturating_add (ot_spent t) (record_cost r),
                      ot_tool_calls := sat_u64 (ot_tool_calls t + record_tools r)\<rparr>)
      in t\<lparr>ot_calls := wrap_succ_u64 (ot_calls t)\<rparr>)"

definition totals_findings :: "cloud_record \<Rightarrow> org_totals \<Rightarrow> org_totals" where
  "totals_findings r t =
     (let t = (if cl_identity_reason r \<notin> {None, Some []} \<and> admitted (cl_decision r)
               then t\<lparr>ot_identity_warned := wrap_succ_u64 (ot_identity_warned t)\<rparr> else t);
          kinds = pii_kinds_of r
      in if kinds \<noteq> []
         then t\<lparr>ot_pii_calls := wrap_succ_u64 (ot_pii_calls t),
                ot_pii_kinds := fold (bump_bounded MAX_PII_KINDS OTHER_PII_KINDS) kinds (ot_pii_kinds t)\<rparr>
         else t)"

definition totals_priced :: "cloud_record \<Rightarrow> org_totals \<Rightarrow> org_totals" where
  "totals_priced r t =
     (if cl_decision r \<noteq> ''allow'' \<or> cl_price_basis r = ''known'' then t
      else if cl_price_basis r = ''fallback''
      then t\<lparr>ot_fallback_calls := wrap_succ_u64 (ot_fallback_calls t),
             ot_fallback_models := bump_bounded MAX_FALLBACK_MODEL_KEYS OTHER_FALLBACK_MODELS (cl_model r) (ot_fallback_models t)\<rparr>
      else t\<lparr>ot_basis_unreported := wrap_succ_u64 (ot_basis_unreported t)\<rparr>)"

definition totals_fold :: "cloud_record \<Rightarrow> org_totals \<Rightarrow> org_totals" where
  "totals_fold r t = totals_priced r (totals_findings r (totals_spend r t))"

definition gateway_fold :: "cloud_record \<Rightarrow> gateway_acc \<Rightarrow> gateway_acc" where
  "gateway_fold r g =
     (let g = (if is_blocked (cl_decision r) then g
               else g\<lparr>ga_spent := saturating_add (ga_spent g) (record_cost r),
                      ga_tool_calls := sat_u64 (ga_tool_calls g + record_tools r)\<rparr>);
          g = g\<lparr>ga_calls := wrap_succ_u64 (ga_calls g)\<rparr>
      in if cl_ts_millis r > ga_last_record g then g\<lparr>ga_last_record := cl_ts_millis r\<rparr> else g)"

definition decision_fold :: "cloud_record \<Rightarrow> (string, nat) table \<Rightarrow> (string, nat) table" where
  "decision_fold r dc =
     (if is_known_decision (cl_decision r) then on_entry 0 (cl_decision r) wrap_succ_u64 dc else dc)"

definition UNASSIGNED :: string where "UNASSIGNED = ''unassigned''"

definition unit_month_step :: "string \<Rightarrow> cloud_record \<Rightarrow> unit_month_acc \<Rightarrow> unit_month_acc" where
  "unit_month_step month_now r acc =
     (let acc = (if um_window acc \<noteq> month_now then \<lparr>um_window = month_now, um_spent = 0, um_calls = 0\<rparr> else acc);
          acc = acc\<lparr>um_calls := wrap_succ_u64 (um_calls acc)\<rparr>
      in if is_blocked (cl_decision r) then acc
         else acc\<lparr>um_spent := saturating_add (um_spent acc) (record_cost r)\<rparr>)"

definition unit_month_fold ::
  "string \<Rightarrow> cloud_record \<Rightarrow> (string, unit_month_acc) table \<Rightarrow> (string, unit_month_acc) table" where
  "unit_month_fold month_now r months =
     (let ukey = (if cl_unit r = [] then UNASSIGNED else cl_unit r);
          ukey = (if map_of months ukey \<noteq> None \<or> length months < MAX_UNIT_MONTH_KEYS then ukey else UNASSIGNED)
      in on_entry unit_month_acc_new ukey (unit_month_step month_now r) months)"

definition day_step :: "cloud_record \<Rightarrow> day_spend \<Rightarrow> day_spend" where
  "day_step r d =
     (let d = d\<lparr>ds_calls := wrap_succ_u64 (ds_calls d)\<rparr>
      in if is_blocked (cl_decision r) then d\<lparr>ds_blocked := wrap_succ_u64 (ds_blocked d)\<rparr>
         else d\<lparr>ds_spent := saturating_add (ds_spent d) (record_cost r)\<rparr>)"

definition day_agents_fold :: "cloud_record \<Rightarrow> (string, day_spend) table \<Rightarrow> (string, day_spend) table" where
  "day_agents_fold r agents =
     on_entry day_spend_new
       (if map_of agents (filed_under r) \<noteq> None \<or> length agents < MAX_SPEND_AGENTS_PER_DAY then filed_under r else [])
       (day_step r) agents"

definition day_fold ::
  "cloud_record \<Rightarrow> (int, (string, day_spend) table) table \<Rightarrow> (int, (string, day_spend) table) table" where
  "day_fold r days = on_entry [] (cl_ts_millis r div DAY_MILLIS) (day_agents_fold r) days"

text \<open>The bounded memory of the runs a budget protection stopped, and the count that outlives it.\<close>

definition break_fold ::
  "string \<Rightarrow> savings_totals \<times> string recency_index \<Rightarrow> savings_totals \<times> string recency_index" where
  "break_fold run_id = (\<lambda>(sav, ix).
     (let (sav, ix) =
        (if run_id \<in> set (sv_breaks sav) then (sav, ix)
         else (let (breaks, ix) =
                 (if MAX_BREAK_KEYS \<le> length (sv_breaks sav)
                  then (case evict_oldest ix of
                          (Some evict_id, ix) \<Rightarrow> (filter (\<lambda>b. b \<noteq> evict_id) (sv_breaks sav), ix)
                        | (None, ix) \<Rightarrow> (tl (sv_breaks sav), ix))
                  else (sv_breaks sav, ix))
               in (sav\<lparr>sv_breaks := breaks @ [run_id],
                       sv_budget_breaks := sat_u64 (sv_budget_breaks sav + 1)\<rparr>, ix)))
      in (sav, touch run_id ix)))"

definition savings_record ::
  "cloud_record \<Rightarrow> savings_totals \<times> string recency_index \<Rightarrow> savings_totals \<times> string recency_index" where
  "savings_record r = (\<lambda>(sav, ix).
     (let (sav, ix) =
        (if is_budget_protection (cl_decision r)
         then break_fold (cl_run_id r)
                (sav\<lparr>sv_blocked_spend := saturating_add (sv_blocked_spend sav) (record_cost r)\<rparr>, ix)
         else (sav, ix))
      in (if cl_decision r = ''cache_hit''
          then sav\<lparr>sv_cache_saved := saturating_add (sv_cache_saved sav) (record_saved r)\<rparr>
          else if cl_decision r = ''allow''
          then sav\<lparr>sv_router_saved := saturating_add (sv_router_saved sav) (record_saved r)\<rparr>
          else sav, ix)))"

section \<open>The run table\<close>

definition is_alerting ::
  "(int \<Rightarrow> int \<Rightarrow> bool) \<Rightarrow> (string, int) table option \<Rightarrow> (string, run_agg) table \<Rightarrow> string \<Rightarrow> bool" where
  "is_alerting over_line budgets rtab run_id =
     (case Option.bind budgets (\<lambda>b. map_of b run_id) of
        None \<Rightarrow> False
      | Some budget \<Rightarrow>
          budget > 0
          \<and> over_line (case map_of rtab run_id of None \<Rightarrow> 0 | Some a \<Rightarrow> ra_spent a) budget)"

definition evict_run ::
  "(int \<Rightarrow> int \<Rightarrow> bool) \<Rightarrow> (string, int) table option \<Rightarrow> string
   \<Rightarrow> (string, run_agg) table \<times> string recency_index \<Rightarrow> (string, run_agg) table \<times> string recency_index" where
  "evict_run over_line budgets run_id = (\<lambda>(rtab, ix).
     (if map_of rtab run_id = None \<and> MAX_RUNS_PER_ORG \<le> length rtab
      then (case evict_oldest_unprotected (is_alerting over_line budgets rtab) ix of
              (Some evict_id, ix) \<Rightarrow> (AList.delete evict_id rtab, ix)
            | (None, ix) \<Rightarrow> (case rtab of [] \<Rightarrow> (rtab, ix)
                            | (any_id, a) # rest \<Rightarrow> (AList.delete any_id rtab, ix)))
      else (rtab, ix)))"

definition runs_fold ::
  "(int \<Rightarrow> int \<Rightarrow> bool) \<Rightarrow> (string, int) table option \<Rightarrow> string option \<Rightarrow> cloud_record
   \<Rightarrow> (string, run_agg) table \<times> string recency_index \<Rightarrow> (string, run_agg) table \<times> string recency_index" where
  "runs_fold over_line budgets site r p =
     (let (rtab, ix) = evict_run over_line budgets (cl_run_id r) p
      in (on_entry (run_agg_new (cl_run_id r)) (cl_run_id r) (run_fold site r) rtab, touch (cl_run_id r) ix))"

section \<open>One push\<close>

text \<open>The entries of one org the loop borrows from the store.\<close>

record org_refs =
  og_runs :: "(string, run_agg) table"
  og_recency :: "string recency_index"
  og_sav :: savings_totals
  og_break_recency :: "string recency_index"
  og_decisions :: "(string, nat) table"
  og_totals :: org_totals
  og_unit_months :: "(string, unit_month_acc) table"
  og_spend_days :: "(int, (string, day_spend) table) table"
  og_gateway :: gateway_acc

definition ingest_record ::
  "(int \<Rightarrow> int \<Rightarrow> bool) \<Rightarrow> (string, int) table option \<Rightarrow> string option \<Rightarrow> string \<Rightarrow> cloud_record
   \<Rightarrow> org_refs \<Rightarrow> org_refs" where
  "ingest_record over_line budgets site month_now r g =
     (let (rtab, ix) = runs_fold over_line budgets site r (og_runs g, og_recency g);
          (sav, bx) = savings_record r (og_sav g, og_break_recency g)
      in \<lparr>og_runs = rtab, og_recency = ix, og_sav = sav, og_break_recency = bx,
          og_decisions = decision_fold r (og_decisions g), og_totals = totals_fold r (og_totals g),
          og_unit_months = unit_month_fold month_now r (og_unit_months g),
          og_spend_days = day_fold r (og_spend_days g), og_gateway = gateway_fold r (og_gateway g)\<rparr>)"

text \<open>Records are folded in time order, equal times in arrival order.\<close>

definition ingest_records ::
  "(int \<Rightarrow> int \<Rightarrow> bool) \<Rightarrow> (string, int) table option \<Rightarrow> string option \<Rightarrow> string \<Rightarrow> cloud_record list
   \<Rightarrow> org_refs \<Rightarrow> org_refs" where
  "ingest_records over_line budgets site month_now records g =
     fold (ingest_record over_line budgets site month_now) (sort_key cl_ts_millis records) g"

definition drop_old_days ::
  "int \<Rightarrow> (int, (string, day_spend) table) table \<Rightarrow> (int, (string, day_spend) table) table" where
  "drop_old_days now_ms days =
     filter (\<lambda>(day, agents). now_ms div DAY_MILLIS - SPEND_DAYS_RETAINED \<le> day) days"

definition UNNAMED :: string where "UNNAMED = ''unnamed''"

definition gateway_key :: "string option \<Rightarrow> (string, gateway_acc) table \<Rightarrow> string" where
  "gateway_key site gateways =
     (case site of
        None \<Rightarrow> UNNAMED
      | Some s \<Rightarrow> if s \<noteq> [] \<and> (map_of gateways s \<noteq> None \<or> length gateways < MAX_GATEWAYS_PER_ORG) then s else UNNAMED)"

definition gateway_push :: "int \<Rightarrow> gateway_acc \<Rightarrow> gateway_acc" where
  "gateway_push now_ms g =
     (let g = g\<lparr>ga_pushes := wrap_succ_u64 (ga_pushes g)\<rparr>;
          g = (if ga_first_push g = 0 then g\<lparr>ga_first_push := now_ms\<rparr> else g)
      in g\<lparr>ga_last_push := now_ms\<rparr>)"

definition sample_of :: "cloud_record \<Rightarrow> sample" where
  "sample_of r =
     \<lparr>sm_ts_millis = cl_ts_millis r, sm_run_id = cl_run_id r, sm_cost = record_cost r,
      sm_blocked = is_blocked (cl_decision r), sm_tool_calls = record_tools r\<rparr>"

definition push_samples :: "cloud_record list \<Rightarrow> sample list \<Rightarrow> sample list" where
  "push_samples records log = keep_last SERIES_CAP (log @ map sample_of records)"

end
