(* ===== verification/Cloud_Store.thy ===== *)
theory Cloud_Store
  imports Cloud_Ingest Audit_Trail
begin

text \<open>
  \<open>crates/cloud/src/store.rs\<close>: the store's state, its incidents and the bounded memories of the
  detectors. Each memory is written by one function, translated whole; \<open>ingest_at_from\<close> in the next
  theory calls them record by record.
\<close>

section \<open>Severity\<close>

datatype severity = Sev_info | Sev_low | Sev_medium | Sev_high | Sev_critical

definition LADDER :: "severity list" where
  "LADDER = [Sev_info, Sev_low, Sev_medium, Sev_high, Sev_critical]"

fun sev_rank :: "severity \<Rightarrow> nat" where
  "sev_rank Sev_info = 0"
| "sev_rank Sev_low = 1"
| "sev_rank Sev_medium = 2"
| "sev_rank Sev_high = 3"
| "sev_rank Sev_critical = 4"

instantiation severity :: linorder
begin

definition less_eq_severity :: "severity \<Rightarrow> severity \<Rightarrow> bool" where
  "less_eq_severity a b \<longleftrightarrow> sev_rank a \<le> sev_rank b"

definition less_severity :: "severity \<Rightarrow> severity \<Rightarrow> bool" where
  "less_severity a b \<longleftrightarrow> sev_rank a < sev_rank b"

instance
proof
  fix a b :: severity
  show "a \<le> b \<Longrightarrow> b \<le> a \<Longrightarrow> a = b"
    by (cases a; cases b) (simp_all add: less_eq_severity_def)
qed (auto simp: less_eq_severity_def less_severity_def)

end

definition SEVERITY_ESCALATE_AT :: nat where "SEVERITY_ESCALATE_AT = 4"
definition SEVERITY_MAX_STEPS :: nat where "SEVERITY_MAX_STEPS = 2"

text \<open>The escalation loop: \<open>k\<close> steps are left before the bound.\<close>

fun climb :: "nat \<Rightarrow> nat \<Rightarrow> nat \<Rightarrow> nat" where
  "climb 0 bar magnitude = 0"
| "climb (Suc k) bar magnitude =
     (if bar \<le> magnitude then Suc (climb k (sat_u64 (bar * SEVERITY_ESCALATE_AT)) magnitude) else 0)"

definition severity_from_magnitude :: "severity \<Rightarrow> nat \<Rightarrow> nat \<Rightarrow> severity" where
  "severity_from_magnitude base magnitude threshold =
     (let threshold = max 1 threshold;
          steps = climb SEVERITY_MAX_STEPS (sat_u64 (threshold * SEVERITY_ESCALATE_AT)) magnitude
      in LADDER ! (min (sev_rank base + steps) (length LADDER - 1)))"

section \<open>Incidents\<close>

record incident =
  ic_id :: string
  ic_org :: string
  ic_run_id :: "string option"
  ic_agent_id :: "string option"
  ic_kind :: string
  ic_severity :: severity
  ic_first_seen :: int
  ic_last_seen :: int
  ic_occurrences :: nat
  ic_acknowledged :: bool
  ic_last_notified :: int
  ic_source :: "string option"
  ic_summary :: "string option"

definition MAX_INCIDENTS_PER_ORG :: nat where "MAX_INCIDENTS_PER_ORG = 10000"
definition MAX_PROVIDER_INCIDENTS_PER_ORG :: nat where "MAX_PROVIDER_INCIDENTS_PER_ORG = 1024"
definition PROVIDER_ID_PREFIX :: string where "PROVIDER_ID_PREFIX = ''dependency_failed:provider:''"
definition PROVIDER_OVERFLOW_BUCKET :: string where "PROVIDER_OVERFLOW_BUCKET = ''other''"

definition incident_id :: "string \<Rightarrow> string \<Rightarrow> string" where
  "incident_id kind scope = kind @ '':'' @ scope"

definition is_provider_incident_id :: "string \<Rightarrow> bool" where
  "is_provider_incident_id i \<longleftrightarrow> starts_with PROVIDER_ID_PREFIX i"

definition is_overflow_provider_id :: "string \<Rightarrow> bool" where
  "is_overflow_provider_id i \<longleftrightarrow>
     starts_with PROVIDER_ID_PREFIX i
     \<and> takeWhile (\<lambda>c. c \<noteq> CHR ''@'') (drop (length PROVIDER_ID_PREFIX) i) = PROVIDER_OVERFLOW_BUCKET"

definition is_reserved_incident_id :: "string \<Rightarrow> string \<Rightarrow> bool" where
  "is_reserved_incident_id detector subject \<longleftrightarrow> is_provider_incident_id (incident_id detector subject)"

definition incident_new ::
  "string \<Rightarrow> string \<Rightarrow> severity \<Rightarrow> string \<Rightarrow> string option \<Rightarrow> string option \<Rightarrow> int \<Rightarrow> incident" where
  "incident_new org kind sev scope run_id agent_id ts =
     \<lparr>ic_id = incident_id kind scope, ic_org = org, ic_run_id = run_id, ic_agent_id = agent_id, ic_kind = kind,
      ic_severity = sev, ic_first_seen = ts, ic_last_seen = ts, ic_occurrences = 0, ic_acknowledged = False,
      ic_last_notified = 0, ic_source = None, ic_summary = None\<rparr>"

definition incident_trip :: "severity \<Rightarrow> string option \<Rightarrow> int \<Rightarrow> incident \<Rightarrow> incident" where
  "incident_trip sev agent_id ts i =
     i\<lparr>ic_occurrences := wrap_succ_u64 (ic_occurrences i),
       ic_severity := (if sev > ic_severity i then sev else ic_severity i),
       ic_last_seen := (if ts > ic_last_seen i then ts else ic_last_seen i),
       ic_agent_id := (case ic_agent_id i of None \<Rightarrow> agent_id | Some a \<Rightarrow> Some a)\<rparr>"

text \<open>The incident seen longest ago among some of an org's, the first of equals.\<close>

definition oldest_incident :: "(string \<Rightarrow> incident \<Rightarrow> bool) \<Rightarrow> (string, incident) table \<Rightarrow> string option" where
  "oldest_incident P m =
     (case filter (\<lambda>(i, inc). P i inc) m of
        [] \<Rightarrow> None
      | x # xs \<Rightarrow> Some (fst (arg_min_list (\<lambda>(i, inc). ic_last_seen inc) (x # xs))))"

definition make_incident_room :: "string \<Rightarrow> (string, incident) table \<Rightarrow> (string, incident) table" where
  "make_incident_room i per_org =
     (if map_of per_org i = None \<and> MAX_INCIDENTS_PER_ORG \<le> length per_org
         \<and> MAX_INCIDENTS_PER_ORG \<le> length (filter (\<lambda>(k, inc). \<not> is_provider_incident_id k) per_org)
      then (case oldest_incident (\<lambda>k inc. \<not> is_provider_incident_id k) per_org of
              None \<Rightarrow> per_org
            | Some evict_id \<Rightarrow> AList.delete evict_id per_org)
      else per_org)"

definition upsert_incident_with ::
  "(string, (string, incident) table) table \<Rightarrow> string \<Rightarrow> string \<Rightarrow> severity \<Rightarrow> string \<Rightarrow> string option
   \<Rightarrow> string option \<Rightarrow> int \<Rightarrow> bool \<Rightarrow> incident \<times> (string, (string, incident) table) table" where
  "upsert_incident_with incidents org kind sev scope run_id agent_id ts evicts =
     (let i = incident_id kind scope;
          per_org = entry_or [] org incidents;
          per_org = (if evicts then make_incident_room i per_org else per_org);
          inc = incident_trip sev agent_id ts
                  (entry_or (incident_new org kind sev scope run_id agent_id ts) i per_org)
      in (inc, AList.update org (AList.update i inc per_org) incidents))"

definition upsert_incident ::
  "(string, (string, incident) table) table \<Rightarrow> string \<Rightarrow> string \<Rightarrow> severity \<Rightarrow> string \<Rightarrow> string option
   \<Rightarrow> string option \<Rightarrow> int \<Rightarrow> incident \<times> (string, (string, incident) table) table" where
  "upsert_incident incidents org kind sev scope run_id agent_id ts =
     upsert_incident_with incidents org kind sev scope run_id agent_id ts True"

definition upsert_provider_incident ::
  "(string, (string, incident) table) table \<Rightarrow> string \<Rightarrow> string \<Rightarrow> int
   \<Rightarrow> incident \<times> (string, (string, incident) table) table" where
  "upsert_provider_incident incidents org scope ts =
     upsert_incident_with incidents org ''dependency_failed'' Sev_high scope None None ts False"

section \<open>The detectors' memories\<close>

definition INCIDENT_TRACKER_CAP :: nat where "INCIDENT_TRACKER_CAP = 256"
definition MAX_TRACKER_KEYS :: nat where "MAX_TRACKER_KEYS = 20000"
definition FANOUT_HISTORY_BUCKETS :: nat where "FANOUT_HISTORY_BUCKETS = 8"

type_synonym ('v) keyed = "(string \<times> string, 'v) table \<times> (string \<times> string) recency_index"

definition bump_tracker ::
  "int list keyed \<Rightarrow> string \<Rightarrow> string \<Rightarrow> string \<Rightarrow> int \<Rightarrow> (int \<times> int) option \<Rightarrow> nat \<times> int list keyed" where
  "bump_tracker = (\<lambda>(tracker, ix) org kind scope ts window.
     (let key = (org, incident_id kind scope);
          (tracker, ix) = admit_key MAX_TRACKER_KEYS key tracker ix;
          dq = keep_last INCIDENT_TRACKER_CAP (entry_or [] key tracker @ [ts]);
          dq = (case window of
                  None \<Rightarrow> dq
                | Some (now, window_ms) \<Rightarrow> dropWhile (\<lambda>t. t < wrap_i64 (now - window_ms)) dq)
      in (length dq, AList.update key dq tracker, ix)))"

record stall_state =
  sl_last_ts :: int
  sl_longest_gap :: int
  sl_calls_seen :: nat
  sl_ended :: bool

definition stall_state_new :: stall_state where
  "stall_state_new = \<lparr>sl_last_ts = 0, sl_longest_gap = 0, sl_calls_seen = 0, sl_ended = False\<rparr>"

definition stall_step :: "int \<Rightarrow> bool \<Rightarrow> stall_state \<Rightarrow> stall_state" where
  "stall_step ts ended st =
     (let st = st\<lparr>sl_calls_seen := sat_u64 (sl_calls_seen st + 1)\<rparr>
      in if sl_calls_seen st = 1 then st\<lparr>sl_last_ts := ts, sl_ended := ended\<rparr>
         else if ts \<ge> sl_last_ts st
         then (let gap = sat_i64 (ts - sl_last_ts st)
               in st\<lparr>sl_longest_gap := (if gap > sl_longest_gap st then gap else sl_longest_gap st),
                     sl_last_ts := ts, sl_ended := ended\<rparr>)
         else st)"

definition note_call_for_stall ::
  "stall_state keyed \<Rightarrow> string \<Rightarrow> string \<Rightarrow> int \<Rightarrow> bool \<Rightarrow> stall_state keyed" where
  "note_call_for_stall = (\<lambda>(stall, ix) org run ts ended.
     (let (stall, ix) = admit_key MAX_TRACKER_KEYS (org, run) stall ix
      in (on_entry stall_state_new (org, run) (stall_step ts ended) stall, ix)))"

definition bump_fanout_tracker ::
  "(string \<times> int) list keyed \<Rightarrow> string \<Rightarrow> string \<Rightarrow> string \<Rightarrow> int \<Rightarrow> int \<Rightarrow> int \<Rightarrow> nat \<times> (string \<times> int) list keyed" where
  "bump_fanout_tracker = (\<lambda>(tracker, ix) org agent run_id ts now window_ms.
     (let (tracker, ix) = admit_key MAX_TRACKER_KEYS (org, agent) tracker ix;
          dq = filter (\<lambda>(r, t). r \<noteq> run_id) (entry_or [] (org, agent) tracker);
          dq = keep_last INCIDENT_TRACKER_CAP (dq @ [(run_id, ts)]);
          dq = filter (\<lambda>(r, t). t \<ge> wrap_i64 (now - window_ms)) dq
      in (length dq, AList.update (org, agent) dq tracker, ix)))"

definition push_bucket :: "int \<Rightarrow> nat \<Rightarrow> (int \<times> nat) list \<Rightarrow> (int \<times> nat) list" where
  "push_bucket bucket live dq =
     (if dq \<noteq> [] \<and> fst (last dq) = bucket then butlast dq @ [(bucket, max (snd (last dq)) live)]
      else dq @ [(bucket, live)])"

definition fanout_baseline ::
  "(string \<times> string, (int \<times> nat) list) table \<Rightarrow> string \<Rightarrow> string \<Rightarrow> int \<Rightarrow> int \<Rightarrow> nat
   \<Rightarrow> (nat \<times> nat) \<times> (string \<times> string, (int \<times> nat) list) table" where
  "fanout_baseline history org agent ts window_ms live =
     (let bucket = tdiv ts (max 1 window_ms);
          dq = keep_last FANOUT_HISTORY_BUCKETS (push_bucket bucket live (entry_or [] (org, agent) history));
          completed = map snd (filter (\<lambda>(b, c). b < bucket) dq);
          total = fold (\<lambda>c acc. sat_u64 (acc + c)) completed 0
      in (if completed = [] then (0, 0) else (total div length completed, length completed),
          AList.update (org, agent) dq history))"

definition burn_since :: "sample list \<Rightarrow> int \<Rightarrow> int \<Rightarrow> int" where
  "burn_since log start now =
     fold (\<lambda>s acc. saturating_add acc (sm_cost s))
       (filter (\<lambda>s. sm_ts_millis s \<ge> start \<and> sm_ts_millis s \<le> now) log) 0"

section \<open>The store\<close>

record device =
  dv_device_id :: string
  dv_org :: string
  dv_role :: string
  dv_name :: string
  dv_platform :: string
  dv_pubkey_b64 :: string
  dv_apns_token :: "string option"

record pairing =
  pr_org :: string
  pr_role :: string
  pr_expires_unix :: int

record store =
  st_orgs :: "(string, (string, run_agg) table) table"
  st_killed :: "(string, (string, bool) table) table"
  st_budgets :: "(string, (string, int) table) table"
  st_unit_budgets :: "(string, (string, int) table) table"
  st_fanout_history :: "(string \<times> string, (int \<times> nat) list) table"
  st_fanout_active :: "(string \<times> string, bool) table"
  st_spike_active :: "(string, bool) table"
  st_series :: "(string, sample list) table"
  st_savings :: "(string, savings_totals) table"
  st_spend_days :: "(string, (int, (string, day_spend) table) table) table"
  st_unit_months :: "(string, (string, unit_month_acc) table) table"
  st_gateways :: "(string, (string, gateway_acc) table) table"
  st_decision_counts :: "(string, (string, nat) table) table"
  st_incidents :: "(string, (string, incident) table) table"
  st_audit :: "(string, audit_entry list) table"
  st_tracker :: "int list keyed"
  st_provider_failures :: "(string, (string, (string, (int \<times> nat) list) table) table) table"
  st_fanout_tracker :: "(string \<times> int) list keyed"
  st_stall :: "stall_state keyed"
  st_org_totals :: "(string, org_totals) table"
  st_run_recency :: "(string, string recency_index) table"
  st_break_recency :: "(string, string recency_index) table"
  st_devices :: "(string, device) table"
  st_pairings :: "(string, pairing) table"
  st_nonces :: "(string, (string \<times> int) list) table"
  st_activities :: "(string, (string, string list) table) table"
  st_dirty :: bool

definition store_new :: store where
  "store_new =
     \<lparr>st_orgs = [], st_killed = [], st_budgets = [], st_unit_budgets = [], st_fanout_history = [],
      st_fanout_active = [], st_spike_active = [], st_series = [], st_savings = [], st_spend_days = [],
      st_unit_months = [], st_gateways = [], st_decision_counts = [], st_incidents = [], st_audit = [],
      st_tracker = ([], recency_new), st_provider_failures = [], st_fanout_tracker = ([], recency_new),
      st_stall = ([], recency_new), st_org_totals = [], st_run_recency = [], st_break_recency = [],
      st_devices = [], st_pairings = [], st_nonces = [], st_activities = [], st_dirty = False\<rparr>"

text \<open>The thresholds of the detectors and the store's alert test.\<close>

record incident_config =
  cf_budget_blocks :: nat
  cf_loop_repeats :: nat
  cf_loop_window_ms :: int
  cf_spend_per_min_micros :: int
  cf_spike_multiple :: int
  cf_spike_baseline_ms :: int
  cf_fanout_runs :: nat
  cf_fanout_multiple :: nat
  cf_fanout_window_ms :: int
  cf_stall_after_ms :: int
  cf_provider_failures :: nat
  cf_provider_window_ms :: int
  cf_over_line :: "int \<Rightarrow> int \<Rightarrow> bool"

definition incident_config_default :: "(int \<Rightarrow> int \<Rightarrow> bool) \<Rightarrow> incident_config" where
  "incident_config_default over_line =
     \<lparr>cf_budget_blocks = 3, cf_loop_repeats = 3, cf_loop_window_ms = 600000, cf_spend_per_min_micros = 5000000,
      cf_spike_multiple = 4, cf_spike_baseline_ms = 1800000, cf_fanout_runs = 20, cf_fanout_multiple = 4,
      cf_fanout_window_ms = 600000, cf_stall_after_ms = 300000, cf_provider_failures = 3,
      cf_provider_window_ms = 600000, cf_over_line = over_line\<rparr>"

text \<open>\<open>TOKENFUSE_CLOUD_STALL_MINUTES\<close>: unset or blank is the default, zero is off, \<open>Inl\<close> what does not parse.\<close>

definition stall_after_ms_from_minutes :: "string option \<Rightarrow> (int, string) res" where
  "stall_after_ms_from_minutes raw =
     (case raw of
        None \<Rightarrow> Inr 300000
      | Some s \<Rightarrow>
          if trim s = [] then Inr 300000
          else (case read_u64 (trim s) of
                  None \<Rightarrow> Inl s
                | Some minutes \<Rightarrow>
                    Inr (sat_i64 ((if int minutes \<le> I64_MAX then int minutes else I64_MAX) * 60000))))"

end
