(* ===== verification/Cloud_Detect.thy ===== *)
theory Cloud_Detect
  imports Cloud_Store
begin

text \<open>
  \<open>crates/cloud/src/store.rs\<close>, detection: the six detectors \<open>ingest_at_from\<close> runs over a pushed
  batch, the provider detector and the sweep that notices a run gone quiet, with what each puts on
  the live stream and on the agent-event bus.
\<close>

section \<open>What goes out\<close>

datatype stream_event =
    Run_update string run_agg
  | Kill_event string string
  | Budget_event string string int
  | Incident_event incident

text \<open>One line of the agent-event bus: the numeric fields beside org and occurrences are the extras.\<close>

record bus_line =
  bl_event :: string
  bl_millis :: int
  bl_agent :: "string option"
  bl_run :: "string option"
  bl_org :: string
  bl_occurrences :: nat
  bl_extra :: "(string \<times> int) list"

record alarms =
  al_fired :: "(string, incident) table"
  al_threshold :: "(string, (string \<times> int) list) table"
  al_exhausted :: "(string, (string \<times> int) list) table"
  al_spike :: "(string, (string \<times> int) list) table"
  al_fanout :: "(string, (string \<times> int) list) table"

definition no_alarms :: alarms where
  "no_alarms = \<lparr>al_fired = [], al_threshold = [], al_exhausted = [], al_spike = [], al_fanout = []\<rparr>"

definition agent_event_type_for_incident_kind :: "string \<Rightarrow> string option" where
  "agent_event_type_for_incident_kind kind =
     (if kind \<in> {''budget_exhausted'', ''sustained_loop'', ''spend_spike'', ''fanout_explosion'',
                 ''budget_threshold'', ''run_stalled''} then Some kind else None)"

definition bus_line_of :: "incident \<Rightarrow> (string \<times> int) list \<Rightarrow> bus_line list" where
  "bus_line_of inc extra =
     (case agent_event_type_for_incident_kind (ic_kind inc) of
        None \<Rightarrow> []
      | Some event \<Rightarrow>
          [\<lparr>bl_event = event, bl_millis = ic_last_seen inc, bl_agent = ic_agent_id inc, bl_run = ic_run_id inc,
            bl_org = ic_org inc, bl_occurrences = ic_occurrences inc, bl_extra = extra\<rparr>])"

definition announce :: "alarms \<Rightarrow> bus_line list \<times> stream_event list" where
  "announce al =
     (concat (map (\<lambda>(i, inc). bus_line_of inc
        (entry_or [] i (al_threshold al) @ entry_or [] i (al_exhausted al)
         @ entry_or [] i (al_spike al) @ entry_or [] i (al_fanout al))) (al_fired al)),
      map (\<lambda>(i, inc). Incident_event inc) (al_fired al))"

section \<open>The detectors of a push\<close>

definition SPIKE_WINDOW_MS :: int where "SPIKE_WINDOW_MS = 60000"

definition record_time :: "int \<Rightarrow> cloud_record \<Rightarrow> int" where
  "record_time now_ms r = (if cl_ts_millis r > 0 then cl_ts_millis r else now_ms)"

definition record_agent :: "cloud_record \<Rightarrow> string option" where
  "record_agent r =
     (if cl_decision r \<noteq> IDENTITY_REFUSAL \<and> cl_agent_id r \<noteq> [] then Some (cl_agent_id r) else None)"

definition run_budget :: "store \<Rightarrow> string \<Rightarrow> string \<Rightarrow> int" where
  "run_budget st org run = entry_or 0 run (entry_or [] org (st_budgets st))"

definition run_spent :: "store \<Rightarrow> string \<Rightarrow> string \<Rightarrow> int" where
  "run_spent st org run =
     (case map_of (entry_or [] org (st_orgs st)) run of None \<Rightarrow> 0 | Some a \<Rightarrow> ra_spent a)"

text \<open>Raise an incident of a push: store it and remember it as fired.\<close>

definition raise_incident ::
  "string \<Rightarrow> string \<Rightarrow> severity \<Rightarrow> string \<Rightarrow> string option \<Rightarrow> string option \<Rightarrow> int \<Rightarrow> store \<times> alarms
   \<Rightarrow> incident \<times> store \<times> alarms" where
  "raise_incident org kind sev scope run_id agent_id ts = (\<lambda>(st, al).
     (let (inc, incs) = upsert_incident (st_incidents st) org kind sev scope run_id agent_id ts
      in (inc, st\<lparr>st_incidents := incs\<rparr>, al\<lparr>al_fired := AList.update (ic_id inc) inc (al_fired al)\<rparr>)))"

definition detect_stall :: "incident_config \<Rightarrow> string \<Rightarrow> int \<Rightarrow> cloud_record \<Rightarrow> store \<Rightarrow> store" where
  "detect_stall cfg org now_ms r st =
     (if cf_stall_after_ms cfg > 0
      then st\<lparr>st_stall := note_call_for_stall (st_stall st) org (cl_run_id r) (min (record_time now_ms r) now_ms)
                (is_known_decision (cl_decision r) \<and> is_blocked (cl_decision r) \<or> cl_outcome r \<noteq> [])\<rparr>
      else st)"

definition detect_budget :: "incident_config \<Rightarrow> string \<Rightarrow> int \<Rightarrow> cloud_record \<Rightarrow> store \<times> alarms \<Rightarrow> store \<times> alarms" where
  "detect_budget cfg org now_ms r = (\<lambda>(st, al).
     (if cl_decision r = BUDGET_BLOCK_DECISION
      then (let run = cl_run_id r;
                ts = record_time now_ms r;
                (n, tracker) = bump_tracker (st_tracker st) org ''budget_exhausted'' run ts None;
                st = st\<lparr>st_tracker := tracker\<rparr>
            in if n \<ge> cf_budget_blocks cfg
               then (let (inc, st, al) = raise_incident org ''budget_exhausted''
                           (severity_from_magnitude Sev_high n (cf_budget_blocks cfg)) run (Some run)
                           (record_agent r) ts (st, al);
                         budget = run_budget st org run
                     in (st, if budget > 0
                             then al\<lparr>al_exhausted := AList.update (ic_id inc)
                                    [(''budget_micros'', budget), (''spent_micros'', run_spent st org run)] (al_exhausted al)\<rparr>
                             else al))
               else (st, al))
      else (st, al)))"

definition detect_loop :: "incident_config \<Rightarrow> string \<Rightarrow> int \<Rightarrow> cloud_record \<Rightarrow> store \<times> alarms \<Rightarrow> store \<times> alarms" where
  "detect_loop cfg org now_ms r = (\<lambda>(st, al).
     (if is_known_decision (cl_decision r) \<and> cl_decision r = ''loop_detected''
      then (let run = cl_run_id r;
                ts = record_time now_ms r;
                (n, tracker) = bump_tracker (st_tracker st) org ''sustained_loop'' run ts
                                 (Some (now_ms, cf_loop_window_ms cfg));
                st = st\<lparr>st_tracker := tracker\<rparr>
            in if n \<ge> cf_loop_repeats cfg
               then snd (raise_incident org ''sustained_loop''
                      (severity_from_magnitude Sev_medium n (cf_loop_repeats cfg)) run (Some run) (record_agent r) ts (st, al))
               else (st, al))
      else (st, al)))"

definition detect_fanout :: "incident_config \<Rightarrow> string \<Rightarrow> int \<Rightarrow> cloud_record \<Rightarrow> store \<times> alarms \<Rightarrow> store \<times> alarms" where
  "detect_fanout cfg org now_ms r = (\<lambda>(st, al).
     (case record_agent r of
        None \<Rightarrow> (st, al)
      | Some a \<Rightarrow>
          (let ts = record_time now_ms r;
               (n, tracker) = bump_fanout_tracker (st_fanout_tracker st) org a (cl_run_id r) ts now_ms (cf_fanout_window_ms cfg);
               ((baseline, completed), history) =
                 fanout_baseline (st_fanout_history st) org a ts (cf_fanout_window_ms cfg) n;
               st = st\<lparr>st_fanout_tracker := tracker, st_fanout_history := history\<rparr>;
               line = sat_u64 (baseline * cf_fanout_multiple cfg);
               exploding = (completed \<ge> 2 \<and> n \<ge> cf_fanout_runs cfg \<and> n \<ge> line);
               was = entry_or False (org, a) (st_fanout_active st);
               (st, al) =
                 (if exploding \<and> \<not> was
                  then (let (inc, st, al) = raise_incident org ''fanout_explosion''
                              (severity_from_magnitude Sev_high n (max (cf_fanout_runs cfg) line)) a None (Some a) ts (st, al)
                        in (st, al\<lparr>al_fanout := AList.update (ic_id inc)
                              [(''runs_in_window'', int n), (''baseline_runs_per_window'', int baseline),
                               (''multiple'', int (n div baseline)), (''window_ms'', cf_fanout_window_ms cfg),
                               (''windows_of_history'', int completed)] (al_fanout al)\<rparr>))
                  else (st, al))
           in (if exploding \<noteq> was
               then st\<lparr>st_fanout_active := AList.update (org, a) exploding (st_fanout_active st)\<rparr> else st, al))))"

definition detect_threshold :: "incident_config \<Rightarrow> string \<Rightarrow> int \<Rightarrow> cloud_record \<Rightarrow> store \<times> alarms \<Rightarrow> store \<times> alarms" where
  "detect_threshold cfg org now_ms r = (\<lambda>(st, al).
     (let run = cl_run_id r;
          budget = run_budget st org run;
          spent = run_spent st org run;
          already = map_of (entry_or [] org (st_incidents st)) (incident_id ''budget_threshold'' run) \<noteq> None
      in if budget > 0 \<and> \<not> already \<and> cf_over_line cfg spent budget
         then (let (inc, st, al) = raise_incident org ''budget_threshold'' Sev_medium run (Some run)
                     (record_agent r) (record_time now_ms r) (st, al)
               in (st, al\<lparr>al_threshold := AList.update (ic_id inc)
                          [(''budget_micros'', budget), (''spent_micros'', spent)] (al_threshold al)\<rparr>))
         else (st, al)))"

definition detect_record :: "incident_config \<Rightarrow> string \<Rightarrow> int \<Rightarrow> cloud_record \<Rightarrow> store \<times> alarms \<Rightarrow> store \<times> alarms" where
  "detect_record cfg org now_ms r = (\<lambda>(st, al).
     detect_threshold cfg org now_ms r (detect_fanout cfg org now_ms r (detect_loop cfg org now_ms r
       (detect_budget cfg org now_ms r (detect_stall cfg org now_ms r st, al)))))"

text \<open>The last minute's burn, the org's own usual minute, and whether it was seen before that minute.\<close>

definition spike_view :: "incident_config \<Rightarrow> int \<Rightarrow> sample list option \<Rightarrow> int \<times> int \<times> bool" where
  "spike_view cfg now_ms log =
     (case log of
        None \<Rightarrow> (0, 0, False)
      | Some log \<Rightarrow>
          (let minute = wrap_i64 (now_ms - SPIKE_WINDOW_MS);
               base = burn_since log (wrap_i64 (minute - cf_spike_baseline_ms cfg)) minute;
               minutes = max 1 (tdiv (cf_spike_baseline_ms cfg) SPIKE_WINDOW_MS)
           in (burn_since log minute now_ms, tdiv base minutes,
               (case log of [] \<Rightarrow> False | s # ss \<Rightarrow> sm_ts_millis s < minute))))"

definition detect_spike :: "incident_config \<Rightarrow> string \<Rightarrow> int \<Rightarrow> store \<times> alarms \<Rightarrow> store \<times> alarms" where
  "detect_spike cfg org now_ms = (\<lambda>(st, al).
     (let (burn, baseline, has_history) = spike_view cfg now_ms (map_of (st_series st) org);
          line = sat_i64 (baseline * cf_spike_multiple cfg);
          spiking = (has_history \<and> burn \<ge> cf_spend_per_min_micros cfg \<and> burn \<ge> line);
          was = entry_or False org (st_spike_active st);
          (st, al) =
            (if spiking \<and> \<not> was
             then (let (inc, st, al) = raise_incident org ''spend_spike''
                         (severity_from_magnitude Sev_high (nat (max 0 burn))
                            (nat (max 0 (max (cf_spend_per_min_micros cfg) line)))) [] None None now_ms (st, al)
                   in (st, al\<lparr>al_spike := AList.update (ic_id inc)
                         [(''burn_micros'', burn), (''baseline_micros_per_min'', baseline),
                          (''multiple'', if baseline = 0 then 0 else tdiv burn baseline),
                          (''window_ms'', SPIKE_WINDOW_MS), (''baseline_ms'', cf_spike_baseline_ms cfg)] (al_spike al)\<rparr>))
             else (st, al))
      in (if spiking \<noteq> was
          then st\<lparr>st_spike_active := AList.update org spiking (st_spike_active st)\<rparr> else st, al)))"

section \<open>A push\<close>

definition borrow_org :: "string \<Rightarrow> int \<Rightarrow> store \<Rightarrow> org_refs" where
  "borrow_org org now_ms st =
     \<lparr>og_runs = entry_or [] org (st_orgs st), og_recency = entry_or recency_new org (st_run_recency st),
      og_sav = entry_or savings_totals_new org (st_savings st),
      og_break_recency = entry_or recency_new org (st_break_recency st),
      og_decisions = entry_or [] org (st_decision_counts st),
      og_totals = entry_or org_totals_new org (st_org_totals st),
      og_unit_months = entry_or [] org (st_unit_months st),
      og_spend_days = drop_old_days now_ms (entry_or [] org (st_spend_days st)),
      og_gateway = gateway_acc_new\<rparr>"

definition ingest_books ::
  "incident_config \<Rightarrow> string \<Rightarrow> string option \<Rightarrow> cloud_record list \<Rightarrow> int \<Rightarrow> store \<Rightarrow> store" where
  "ingest_books cfg org site records now_ms st =
     (let gateways = entry_or [] org (st_gateways st);
          gkey = gateway_key site gateways;
          gacc = gateway_push now_ms (entry_or gateway_acc_new gkey gateways);
          g = ingest_records (cf_over_line cfg) (map_of (st_budgets st) org) site (month_key now_ms) records
                ((borrow_org org now_ms st)\<lparr>og_gateway := gacc\<rparr>)
      in st\<lparr>st_orgs := AList.update org (og_runs g) (st_orgs st),
            st_savings := AList.update org (og_sav g) (st_savings st),
            st_decision_counts := AList.update org (og_decisions g) (st_decision_counts st),
            st_org_totals := AList.update org (og_totals g) (st_org_totals st),
            st_run_recency := AList.update org (og_recency g) (st_run_recency st),
            st_break_recency := AList.update org (og_break_recency g) (st_break_recency st),
            st_unit_months := AList.update org (og_unit_months g) (st_unit_months st),
            st_spend_days := AList.update org (og_spend_days g) (st_spend_days st),
            st_gateways := AList.update org (AList.update gkey (og_gateway g) gateways) (st_gateways st),
            st_series := on_entry [] org (push_samples records) (st_series st),
            st_dirty := True\<rparr>)"

text \<open>The aggregate of every run of the batch, once each, for the stream.\<close>

definition updated_runs :: "string \<Rightarrow> cloud_record list \<Rightarrow> store \<Rightarrow> stream_event list" where
  "updated_runs org records st =
     concat (map (\<lambda>run. case map_of (entry_or [] org (st_orgs st)) run of
                          None \<Rightarrow> [] | Some a \<Rightarrow> [Run_update org a])
       (rev (remdups (rev (map cl_run_id records)))))"

definition ingest_detect ::
  "incident_config \<Rightarrow> string \<Rightarrow> cloud_record list \<Rightarrow> int \<Rightarrow> store \<Rightarrow> store \<times> alarms" where
  "ingest_detect cfg org records now_ms st =
     detect_spike cfg org now_ms (fold (detect_record cfg org now_ms) records (st, no_alarms))"

definition ingest_at_from ::
  "incident_config \<Rightarrow> string \<Rightarrow> string option \<Rightarrow> cloud_record list \<Rightarrow> int \<Rightarrow> store
   \<Rightarrow> store \<times> stream_event list \<times> bus_line list" where
  "ingest_at_from cfg org site records now_ms st =
     (let st = ingest_books cfg org site records now_ms st;
          updated = updated_runs org records st;
          (st, al) = ingest_detect cfg org records now_ms st;
          (bus, stream) = announce al
      in (st, updated @ stream, bus))"

section \<open>A provider that fails\<close>

definition MAX_PROVIDERS_PER_ORG :: nat where "MAX_PROVIDERS_PER_ORG = 64"
definition PROVIDER_LABEL_MAX_CHARS :: nat where "PROVIDER_LABEL_MAX_CHARS = 128"
definition MAX_PROVIDER_FAILURES_PER_REPORT :: nat where "MAX_PROVIDER_FAILURES_PER_REPORT = 1000000"
definition PROVIDER_BUCKET_MS :: int where "PROVIDER_BUCKET_MS = 10000"
definition PROVIDER_DETAIL_MAX_CHARS :: nat where "PROVIDER_DETAIL_MAX_CHARS = 160"

definition label_char :: "string \<Rightarrow> string" where
  "label_char c =
     (if length c = 1 \<and> (ascii_alphanumeric (hd c) \<or> hd c \<in> set ''._:-'') then c else ''_'')"

definition provider_label :: "string \<Rightarrow> string option" where
  "provider_label raw =
     (let t = trim raw
      in if t = [] then None else Some (concat (map label_char (take PROVIDER_LABEL_MAX_CHARS (utf8_chars t)))))"

definition provider_scope :: "string \<Rightarrow> string option \<Rightarrow> string" where
  "provider_scope key site =
     (case site of
        Some site \<Rightarrow> ''provider:'' @ key @ ''@'' @ site
      | None \<Rightarrow> ''provider:'' @ key)"

definition provider_incident_is_active :: "incident \<Rightarrow> int \<Rightarrow> int \<Rightarrow> bool" where
  "provider_incident_is_active inc now_ms window_ms \<longleftrightarrow>
     \<not> ic_acknowledged inc \<or> sat_i64 (now_ms - ic_last_seen inc) < window_ms"

text \<open>\<open>id.rsplit_once('@')\<close>, the part after.\<close>

definition id_site :: "string \<Rightarrow> string option" where
  "id_site i = (if CHR ''@'' \<in> set i then Some (rev (takeWhile (\<lambda>c. c \<noteq> CHR ''@'') (rev i))) else None)"

definition counts_to_reserve :: "string \<Rightarrow> bool" where
  "counts_to_reserve i \<longleftrightarrow> is_provider_incident_id i \<and> \<not> is_overflow_provider_id i"

definition provider_incident_counts ::
  "(string, incident) table \<Rightarrow> string option \<Rightarrow> int \<Rightarrow> int \<Rightarrow> nat \<times> nat" where
  "provider_incident_counts incidents site now_ms window_ms =
     (length (filter (\<lambda>(i, inc). counts_to_reserve i \<and> id_site i = site
                                 \<and> provider_incident_is_active inc now_ms window_ms) incidents),
      length (filter (\<lambda>(i, inc). counts_to_reserve i) incidents))"

definition evict_oldest_finished_provider_incident ::
  "(string, incident) table \<Rightarrow> int \<Rightarrow> int \<Rightarrow> bool \<times> (string, incident) table" where
  "evict_oldest_finished_provider_incident incidents now_ms window_ms =
     (case oldest_incident (\<lambda>i inc. counts_to_reserve i \<and> \<not> provider_incident_is_active inc now_ms window_ms) incidents of
        Some i \<Rightarrow> (True, AList.delete i incidents)
      | None \<Rightarrow> (False, incidents))"

text \<open>\<open>char::is_control\<close>: the C0 and C1 ranges.\<close>

definition control_char :: "string \<Rightarrow> bool" where
  "control_char c \<longleftrightarrow>
     (case c of
        [b] \<Rightarrow> (of_char b :: nat) < 32 \<or> (of_char b :: nat) = 127
      | [b, b'] \<Rightarrow> (of_char b :: nat) = 194 \<and> (of_char b' :: nat) < 160
      | _ \<Rightarrow> False)"

definition provider_summary ::
  "string \<Rightarrow> string option \<Rightarrow> bool \<Rightarrow> nat \<Rightarrow> int \<Rightarrow> string \<Rightarrow> string" where
  "provider_summary provider site filed_under_other failures window_ms detail =
     (let minutes = max 1 (tdiv window_ms 60000);
          detail = concat (take PROVIDER_DETAIL_MAX_CHARS (filter (\<lambda>c. \<not> control_char c) (utf8_chars detail)))
      in provider @ '' failed '' @ show_nat failures @ '' calls in the last '' @ show_int minutes @ '' min''
         @ (case site of None \<Rightarrow> [] | Some site \<Rightarrow> '', reported by site '' @ site)
         @ (if filed_under_other then '', filed under other'' else [])
         @ (if detail \<noteq> [] then ''; last: '' @ detail else []))"

definition drop_aged :: "int \<Rightarrow> int \<Rightarrow> (string, (int \<times> nat) list) table \<Rightarrow> (string, (int \<times> nat) list) table" where
  "drop_aged now_ms window_ms per_site =
     filter (\<lambda>(label, buckets). buckets \<noteq> [])
       (map (\<lambda>(label, buckets). (label, dropWhile (\<lambda>(start, n). sat_i64 (now_ms - start) \<ge> window_ms) buckets)) per_site)"

definition add_failures :: "int \<Rightarrow> nat \<Rightarrow> (int \<times> nat) list \<Rightarrow> (int \<times> nat) list" where
  "add_failures bucket n buckets =
     (if buckets \<noteq> [] \<and> fst (last buckets) = bucket
      then butlast buckets @ [(bucket, sat_u64 (snd (last buckets) + n))]
      else buckets @ [(bucket, n)])"

text \<open>Where a report is filed: its own incident when it has one or there is room, else the shared one.\<close>

definition provider_file_as ::
  "string \<Rightarrow> string option \<Rightarrow> int \<Rightarrow> int \<Rightarrow> (string, incident) table \<Rightarrow> string \<times> (string, incident) table" where
  "provider_file_as key site now_ms window_ms incidents =
     (if key \<noteq> PROVIDER_OVERFLOW_BUCKET
         \<and> map_of incidents (incident_id ''dependency_failed'' (provider_scope key site)) = None
      then (let (here, all) = provider_incident_counts incidents site now_ms window_ms
            in if here \<ge> MAX_PROVIDERS_PER_ORG then (PROVIDER_OVERFLOW_BUCKET, incidents)
               else if all \<ge> MAX_PROVIDER_INCIDENTS_PER_ORG
               then (let (room, incidents) = evict_oldest_finished_provider_incident incidents now_ms window_ms
                     in if room then (key, incidents) else (PROVIDER_OVERFLOW_BUCKET, incidents))
               else (key, incidents))
      else (key, incidents))"

definition provider_incident ::
  "string \<Rightarrow> string option \<Rightarrow> string \<Rightarrow> string \<Rightarrow> nat \<Rightarrow> nat \<Rightarrow> int \<Rightarrow> string \<Rightarrow> int \<Rightarrow> store \<Rightarrow> incident \<times> store" where
  "provider_incident org site reported key n in_window window_ms detail now_ms st =
     (let (key, per_org) = provider_file_as key site now_ms window_ms (entry_or [] org (st_incidents st));
          incs = AList.update org per_org (st_incidents st);
          scope = provider_scope key site;
          i = incident_id ''dependency_failed'' scope;
          prior = map_option ic_occurrences (map_of per_org i);
          (inc, incs) = upsert_provider_incident incs org scope now_ms;
          inc = inc\<lparr>ic_occurrences := (case prior of Some before \<Rightarrow> sat_u64 (before + n) | None \<Rightarrow> in_window),
                    ic_acknowledged := (if key = PROVIDER_OVERFLOW_BUCKET then False else ic_acknowledged inc),
                    ic_summary := Some (provider_summary reported site (key = PROVIDER_OVERFLOW_BUCKET) in_window window_ms detail)\<rparr>
      in (inc, st\<lparr>st_incidents := AList.update org (AList.update i inc (entry_or [] org incs)) incs, st_dirty := True\<rparr>))"

definition note_provider_failures ::
  "incident_config \<Rightarrow> string \<Rightarrow> string option \<Rightarrow> string \<Rightarrow> nat \<Rightarrow> string \<Rightarrow> int \<Rightarrow> store \<Rightarrow> incident option \<times> store" where
  "note_provider_failures cfg org site provider reports detail now_ms st =
     (case provider_label provider of
        None \<Rightarrow> (None, st)
      | Some label \<Rightarrow>
          (let site = Option.bind site provider_label;
               n = min reports MAX_PROVIDER_FAILURES_PER_REPORT;
               threshold = max 1 (cf_provider_failures cfg);
               window_ms = max 1 (cf_provider_window_ms cfg)
           in if n = 0 then (None, st)
              else
                (let by_site = entry_or [] org (st_provider_failures st);
                     skey = (case site of None \<Rightarrow> [] | Some s \<Rightarrow> s);
                     per_site = drop_aged now_ms window_ms (entry_or [] skey by_site);
                     key = (if map_of per_site label \<noteq> None \<or> length per_site < MAX_PROVIDERS_PER_ORG
                            then label else PROVIDER_OVERFLOW_BUCKET);
                     buckets = add_failures (wrap_i64 (now_ms - now_ms mod PROVIDER_BUCKET_MS)) n (entry_or [] key per_site);
                     in_window = fold (\<lambda>(start, f) acc. sat_u64 (acc + f)) buckets 0;
                     st = st\<lparr>st_provider_failures := AList.update org
                            (AList.update skey (AList.update key buckets per_site) by_site) (st_provider_failures st)\<rparr>
                 in if in_window < threshold then (None, st)
                    else (let (inc, st) = provider_incident org site label key n in_window window_ms detail now_ms st
                          in (Some inc, st)))))"

section \<open>A run that went quiet\<close>

definition agent_for_run :: "store \<Rightarrow> string \<Rightarrow> string \<Rightarrow> string option" where
  "agent_for_run st org run =
     (case map_of (entry_or [] org (st_orgs st)) run of
        None \<Rightarrow> None
      | Some a \<Rightarrow> if ra_agent_id a \<noteq> [] \<and> \<not> is_credential_bucket (ra_agent_id a) then Some (ra_agent_id a) else None)"

definition stall_summary :: "string \<Rightarrow> string option \<Rightarrow> int \<Rightarrow> int \<Rightarrow> nat \<Rightarrow> nat \<Rightarrow> string" where
  "stall_summary run agent last_ts silence_ms steps calls =
     (case agent of Some agent \<Rightarrow> ''agent '' @ agent @ '' on run '' @ run | None \<Rightarrow> ''run '' @ run)
     @ '' went quiet: no call for '' @ show_int (tdiv silence_ms 1000) @ '' s, last call at ''
     @ ts_millis_to_rfc3339 last_ts @ '' (step '' @ show_nat steps @ '', '' @ show_nat calls @ '' calls)''"

definition run_killed :: "store \<Rightarrow> string \<Rightarrow> string \<Rightarrow> bool" where
  "run_killed st org run = entry_or False run (entry_or [] org (st_killed st))"

definition is_stalled :: "incident_config \<Rightarrow> int \<Rightarrow> store \<Rightarrow> string \<times> string \<Rightarrow> stall_state \<Rightarrow> bool" where
  "is_stalled cfg now_ms st = (\<lambda>(org, run) sl.
     (let silence_ms = sat_i64 (now_ms - sl_last_ts sl)
      in sl_calls_seen sl \<ge> 2 \<and> \<not> sl_ended sl \<and> \<not> run_killed st org run
         \<and> map_of (entry_or [] org (st_orgs st)) run \<noteq> None
         \<and> map_of (entry_or [] org (st_incidents st)) (incident_id ''run_stalled'' run) = None
         \<and> silence_ms \<ge> cf_stall_after_ms cfg \<and> silence_ms > sl_longest_gap sl))"

definition raise_stall ::
  "incident_config \<Rightarrow> int \<Rightarrow> (string \<times> string) \<times> stall_state
   \<Rightarrow> store \<times> (incident \<times> (string \<times> int) list) list \<Rightarrow> store \<times> (incident \<times> (string \<times> int) list) list" where
  "raise_stall cfg now_ms = (\<lambda>((org, run), sl) (st, fired).
     (let (steps, calls) = (case map_of (entry_or [] org (st_orgs st)) run of
                              None \<Rightarrow> (0, 0) | Some a \<Rightarrow> (ra_steps a, ra_calls a));
          agent = agent_for_run st org run;
          silence_ms = sat_i64 (now_ms - sl_last_ts sl);
          (inc, incs) = upsert_incident (st_incidents st) org ''run_stalled'' Sev_medium run (Some run) agent now_ms;
          inc = inc\<lparr>ic_summary := Some (stall_summary run agent (sl_last_ts sl) silence_ms steps calls)\<rparr>;
          incs = AList.update org (AList.update (ic_id inc) inc (entry_or [] org incs)) incs
      in (st\<lparr>st_incidents := incs\<rparr>,
          fired @ [(inc, [(''last_call_millis'', sl_last_ts sl), (''silence_ms'', silence_ms),
                          (''stall_after_ms'', cf_stall_after_ms cfg), (''longest_gap_ms'', sl_longest_gap sl),
                          (''calls'', int calls), (''steps'', int steps)])])))"

definition sweep_stalled_at ::
  "incident_config \<Rightarrow> int \<Rightarrow> store \<Rightarrow> store \<times> incident list \<times> bus_line list" where
  "sweep_stalled_at cfg now_ms st =
     (if cf_stall_after_ms cfg \<le> 0 then (st, [], [])
      else (let hits = filter (\<lambda>(k, sl). is_stalled cfg now_ms st k sl) (fst (st_stall st));
                (st, fired) = fold (raise_stall cfg now_ms) hits (st, [])
            in (if fired \<noteq> [] then st\<lparr>st_dirty := True\<rparr> else st, map fst fired,
                concat (map (\<lambda>(inc, data). bus_line_of inc data) fired))))"

end
