(* ===== verification/Cloud_Control.thy ===== *)
theory Cloud_Control
  imports Cloud_Detect
begin

text \<open>
  \<open>crates/cloud/src/store.rs\<close>, the operator's side: kills, budgets, acknowledgements, findings
  carried for another service, the audit chain, device pairing, the nonce ring and the snapshot.
  Every method runs under one lock, so each is a function of the store; SHA-256, the clock and the
  JSON of the snapshot are arguments.
\<close>

section \<open>Audit\<close>

definition append_audit_locked ::
  "(string \<Rightarrow> nat list) \<Rightarrow> int \<Rightarrow> string \<Rightarrow> string \<Rightarrow> string \<Rightarrow> string \<Rightarrow> string \<Rightarrow> store \<Rightarrow> store" where
  "append_audit_locked sha now_ms org actor action subject detail st =
     st\<lparr>st_audit := on_entry [] org
          (\<lambda>chain. chain @ [audit_append sha (if chain = [] then None else Some (last chain)) now_ms
                              actor action subject detail]) (st_audit st)\<rparr>"

definition store_audit_append ::
  "(string \<Rightarrow> nat list) \<Rightarrow> int \<Rightarrow> string \<Rightarrow> string \<Rightarrow> string \<Rightarrow> string \<Rightarrow> string \<Rightarrow> store \<Rightarrow> store" where
  "store_audit_append sha now_ms org actor action subject detail st =
     append_audit_locked sha now_ms org actor action subject detail (st\<lparr>st_dirty := True\<rparr>)"

definition audit_of :: "store \<Rightarrow> string \<Rightarrow> audit_entry list" where
  "audit_of st org = entry_or [] org (st_audit st)"

definition audit_verify :: "(string \<Rightarrow> nat list) \<Rightarrow> store \<Rightarrow> string \<Rightarrow> (unit, nat) res" where
  "audit_verify sha st org =
     (case map_of (st_audit st) org of None \<Rightarrow> Inr () | Some chain \<Rightarrow> verify_chain sha chain)"

section \<open>Kills and budgets\<close>

text \<open>What \<open>emit_run_killed\<close> is given for the agent-event bus.\<close>

record kill_notice =
  kn_org :: string
  kn_run :: string
  kn_agent :: "string option"
  kn_actor :: "string option"

definition mark_killed :: "string \<Rightarrow> string \<Rightarrow> store \<Rightarrow> store" where
  "mark_killed org run st =
     st\<lparr>st_killed := on_entry [] org (AList.update run True) (st_killed st), st_dirty := True\<rparr>"

definition kill :: "string \<Rightarrow> string \<Rightarrow> store \<Rightarrow> store \<times> kill_notice \<times> stream_event" where
  "kill org run st =
     (let st = mark_killed org run st
      in (st, \<lparr>kn_org = org, kn_run = run, kn_agent = agent_for_run st org run, kn_actor = None\<rparr>,
          Kill_event org run))"

definition kill_audited ::
  "(string \<Rightarrow> nat list) \<Rightarrow> int \<Rightarrow> string \<Rightarrow> string \<Rightarrow> string \<Rightarrow> store \<Rightarrow> store \<times> kill_notice \<times> stream_event" where
  "kill_audited sha now_ms org run actor st =
     (let st = append_audit_locked sha now_ms org actor ''control.kill'' run ''mode=hard'' (mark_killed org run st)
      in (st, \<lparr>kn_org = org, kn_run = run, kn_agent = agent_for_run st org run, kn_actor = Some actor\<rparr>,
          Kill_event org run))"

definition kills :: "store \<Rightarrow> string \<Rightarrow> string list" where
  "kills st org = map fst (filter (\<lambda>(run, k). k) (entry_or [] org (st_killed st)))"

definition clear_budget_threshold_locked :: "string \<Rightarrow> string \<Rightarrow> store \<Rightarrow> store" where
  "clear_budget_threshold_locked org run st =
     (case map_of (st_incidents st) org of
        None \<Rightarrow> st
      | Some incidents \<Rightarrow>
          st\<lparr>st_incidents := AList.update org
               (AList.delete (incident_id ''budget_threshold'' run) incidents) (st_incidents st)\<rparr>)"

definition put_budget :: "string \<Rightarrow> string \<Rightarrow> int \<Rightarrow> store \<Rightarrow> store" where
  "put_budget org run micros st =
     st\<lparr>st_budgets := on_entry [] org (AList.update run micros) (st_budgets st), st_dirty := True\<rparr>"

definition set_budget :: "string \<Rightarrow> string \<Rightarrow> int \<Rightarrow> store \<Rightarrow> store \<times> stream_event" where
  "set_budget org run micros st =
     (clear_budget_threshold_locked org run (put_budget org run micros st), Budget_event org run micros)"

definition set_budget_audited ::
  "(string \<Rightarrow> nat list) \<Rightarrow> int \<Rightarrow> string \<Rightarrow> string \<Rightarrow> int \<Rightarrow> string \<Rightarrow> store \<Rightarrow> store \<times> stream_event" where
  "set_budget_audited sha now_ms org run micros actor st =
     (clear_budget_threshold_locked org run
        (append_audit_locked sha now_ms org actor ''control.set_budget'' run (''budget_micros='' @ show_int micros)
          (put_budget org run micros st)), Budget_event org run micros)"

definition budgets_of :: "store \<Rightarrow> string \<Rightarrow> (string, int) table" where
  "budgets_of st org = entry_or [] org (st_budgets st)"

definition set_unit_budget :: "string \<Rightarrow> string \<Rightarrow> int \<Rightarrow> store \<Rightarrow> store" where
  "set_unit_budget org unit_id micros st =
     st\<lparr>st_unit_budgets := on_entry [] org (AList.update unit_id micros) (st_unit_budgets st), st_dirty := True\<rparr>"

definition set_unit_budget_audited ::
  "(string \<Rightarrow> nat list) \<Rightarrow> int \<Rightarrow> string \<Rightarrow> string \<Rightarrow> int \<Rightarrow> string \<Rightarrow> store \<Rightarrow> store" where
  "set_unit_budget_audited sha now_ms org unit_id micros actor st =
     append_audit_locked sha now_ms org actor ''control.unit_budget_set'' unit_id
       (''budget_micros='' @ show_int micros) (set_unit_budget org unit_id micros st)"

definition unit_budgets_of :: "store \<Rightarrow> string \<Rightarrow> (string, int) table" where
  "unit_budgets_of st org = entry_or [] org (st_unit_budgets st)"

record alert =
  at_run_id :: string
  at_spent :: int
  at_budget :: int
  at_killed :: bool

definition alerts :: "(int \<Rightarrow> int \<Rightarrow> bool) \<Rightarrow> store \<Rightarrow> string \<Rightarrow> alert list" where
  "alerts over_line st org =
     (case map_of (st_budgets st) org of
        None \<Rightarrow> []
      | Some budgets \<Rightarrow>
          map (\<lambda>(run, budget). \<lparr>at_run_id = run, at_spent = run_spent st org run, at_budget = budget,
                                 at_killed = run_killed st org run\<rparr>)
            (filter (\<lambda>(run, budget). \<not> budget \<le> 0 \<and> over_line (run_spent st org run) budget) budgets))"

section \<open>Incidents\<close>

text \<open>Change one stored incident; whether it was there.\<close>

definition change_incident ::
  "string \<Rightarrow> string \<Rightarrow> (incident \<Rightarrow> incident) \<Rightarrow> store \<Rightarrow> (incident \<times> store) option" where
  "change_incident org i f st =
     (case map_of (st_incidents st) org of
        None \<Rightarrow> None
      | Some incidents \<Rightarrow>
          (case map_of incidents i of
             None \<Rightarrow> None
           | Some inc \<Rightarrow>
               Some (f inc, st\<lparr>st_incidents := AList.update org (AList.update i (f inc) incidents) (st_incidents st)\<rparr>)))"

definition ack_incident :: "string \<Rightarrow> string \<Rightarrow> store \<Rightarrow> bool \<times> store" where
  "ack_incident org i st =
     (case change_incident org i (\<lambda>inc. inc\<lparr>ic_acknowledged := True\<rparr>) st of
        None \<Rightarrow> (False, st)
      | Some (inc, st) \<Rightarrow> (True, st\<lparr>st_dirty := True\<rparr>))"

definition ack_incident_audited ::
  "(string \<Rightarrow> nat list) \<Rightarrow> int \<Rightarrow> string \<Rightarrow> string \<Rightarrow> string \<Rightarrow> store \<Rightarrow> bool \<times> store" where
  "ack_incident_audited sha now_ms org i actor st =
     (case change_incident org i (\<lambda>inc. inc\<lparr>ic_acknowledged := True\<rparr>) st of
        None \<Rightarrow> (False, st)
      | Some (inc, st) \<Rightarrow>
          (True, append_audit_locked sha now_ms org actor ''control.incident_ack'' i [] (st\<lparr>st_dirty := True\<rparr>)))"

record finding_input =
  fi_source :: string
  fi_detector :: string
  fi_severity :: severity
  fi_subject :: string
  fi_summary :: string
  fi_ts_millis :: int

datatype reserved_incident_id = Reserved_incident_id

definition record_external_finding ::
  "(string \<Rightarrow> nat list) \<Rightarrow> int \<Rightarrow> string \<Rightarrow> string \<Rightarrow> finding_input \<Rightarrow> store
   \<Rightarrow> (incident, reserved_incident_id) res \<times> store" where
  "record_external_finding sha now_ms org reported_by f st =
     (if is_reserved_incident_id (fi_detector f) (fi_subject f) then (Inl Reserved_incident_id, st)
      else
        (let agent_id = (if starts_with ''agent://'' (fi_subject f) then Some (fi_subject f) else None);
             (inc, incs) = upsert_incident (st_incidents st) org (fi_detector f) (fi_severity f) (fi_subject f)
                             None agent_id (fi_ts_millis f);
             st = st\<lparr>st_incidents := incs\<rparr>
         in case change_incident org (ic_id inc)
                   (\<lambda>stored. stored\<lparr>ic_source := Some (fi_source f),
                              ic_summary := (if fi_summary f \<noteq> [] then Some (fi_summary f) else ic_summary stored)\<rparr>) st of
              Some (out, st) \<Rightarrow>
                (Inr out, (append_audit_locked sha now_ms org reported_by ''control.finding_recorded'' (ic_id out)
                             (fi_source f) st)\<lparr>st_dirty := True\<rparr>)
            | None \<Rightarrow> (Inr inc, st\<lparr>st_dirty := True\<rparr>)))"

definition mark_incident_notified :: "string \<Rightarrow> string \<Rightarrow> int \<Rightarrow> int \<Rightarrow> store \<Rightarrow> bool \<times> store" where
  "mark_incident_notified org i now_ms window_ms st =
     (case Option.bind (map_of (st_incidents st) org) (\<lambda>m. map_of m i) of
        None \<Rightarrow> (False, st)
      | Some inc \<Rightarrow>
          if wrap_i64 (now_ms - ic_last_notified inc) > window_ms
          then (case change_incident org i (\<lambda>inc. inc\<lparr>ic_last_notified := now_ms\<rparr>) st of
                  None \<Rightarrow> (False, st)
                | Some (inc, st) \<Rightarrow> (True, st\<lparr>st_dirty := True\<rparr>))
          else (False, st))"

definition incidents_of :: "store \<Rightarrow> string \<Rightarrow> incident list" where
  "incidents_of st org = sort_key (\<lambda>i. - ic_last_seen i) (map snd (entry_or [] org (st_incidents st)))"

section \<open>Devices\<close>

definition NONCE_CAP :: nat where "NONCE_CAP = 4096"
definition SIGNATURE_WINDOW_SECS :: int where "SIGNATURE_WINDOW_SECS = 120"

definition digest :: "(string \<Rightarrow> nat list) \<Rightarrow> string \<Rightarrow> string" where
  "digest sha secret = ''sha256:'' @ hex_lower (sha secret)"

definition create_pairing :: "string \<Rightarrow> string \<Rightarrow> string \<Rightarrow> int \<Rightarrow> store \<Rightarrow> store" where
  "create_pairing code org role expires_unix st =
     st\<lparr>st_pairings := AList.update code \<lparr>pr_org = org, pr_role = role, pr_expires_unix = expires_unix\<rparr> (st_pairings st)\<rparr>"

record device_request =
  dq_device_id :: string
  dq_token :: string
  dq_pubkey_b64 :: string
  dq_name :: string
  dq_platform :: string

definition device_of :: "pairing \<Rightarrow> device_request \<Rightarrow> device" where
  "device_of p d =
     \<lparr>dv_device_id = dq_device_id d, dv_org = pr_org p, dv_role = pr_role p, dv_name = dq_name d,
      dv_platform = dq_platform d, dv_pubkey_b64 = dq_pubkey_b64 d, dv_apns_token = None\<rparr>"

definition redeem_pairing ::
  "(string \<Rightarrow> nat list) \<Rightarrow> string \<Rightarrow> int \<Rightarrow> device_request \<Rightarrow> store \<Rightarrow> device option \<times> store" where
  "redeem_pairing sha code now_unix d st =
     (case map_of (st_pairings st) code of
        None \<Rightarrow> (None, st)
      | Some p \<Rightarrow>
          (let st = st\<lparr>st_pairings := AList.delete code (st_pairings st)\<rparr>
           in if pr_expires_unix p < now_unix then (None, st)
              else (Some (device_of p d),
                    st\<lparr>st_devices := AList.update (digest sha (dq_token d)) (device_of p d) (st_devices st),
                       st_dirty := True\<rparr>)))"

definition redeem_pairing_audited ::
  "(string \<Rightarrow> nat list) \<Rightarrow> int \<Rightarrow> string \<Rightarrow> int \<Rightarrow> device_request \<Rightarrow> store \<Rightarrow> device option \<times> store" where
  "redeem_pairing_audited sha now_ms code now_unix d st =
     (case redeem_pairing sha code now_unix d st of
        (None, st) \<Rightarrow> (None, st)
      | (Some dev, st) \<Rightarrow>
          (Some dev, append_audit_locked sha now_ms (dv_org dev) (''device:'' @ dv_device_id dev) ''control.pair''
             (dv_device_id dev) (''role='' @ dv_role dev @ '';platform='' @ dv_platform dev) st))"

definition device_by_token :: "(string \<Rightarrow> nat list) \<Rightarrow> store \<Rightarrow> string \<Rightarrow> device option" where
  "device_by_token sha st token = map_of (st_devices st) (digest sha token)"

definition check_and_record_nonce :: "string \<Rightarrow> string \<Rightarrow> int \<Rightarrow> store \<Rightarrow> bool \<times> store" where
  "check_and_record_nonce device_id nonce ts st =
     (let seen = entry_or [] device_id (st_nonces st)
      in if nonce \<in> fst ` set seen then (False, st\<lparr>st_nonces := AList.update device_id seen (st_nonces st)\<rparr>)
         else (True, st\<lparr>st_nonces := AList.update device_id (keep_last NONCE_CAP (seen @ [(nonce, ts)])) (st_nonces st),
                        st_dirty := True\<rparr>))"

definition devices_for_org :: "store \<Rightarrow> string \<Rightarrow> device list" where
  "devices_for_org st org = filter (\<lambda>d. dv_org d = org) (map snd (st_devices st))"

fun set_apns_in :: "string \<Rightarrow> string \<Rightarrow> (string, device) table \<Rightarrow> bool \<times> (string, device) table" where
  "set_apns_in device_id token [] = (False, [])"
| "set_apns_in device_id token ((k, d) # ds) =
     (if dv_device_id d = device_id then (True, (k, d\<lparr>dv_apns_token := Some token\<rparr>) # ds)
      else (let (found, ds) = set_apns_in device_id token ds in (found, (k, d) # ds)))"

definition set_apns_token :: "string \<Rightarrow> string \<Rightarrow> store \<Rightarrow> bool \<times> store" where
  "set_apns_token device_id token st =
     (let (found, ds) = set_apns_in device_id token (st_devices st)
      in (found, st\<lparr>st_devices := ds, st_dirty := st_dirty st \<or> found\<rparr>))"

definition register_activity :: "string \<Rightarrow> string \<Rightarrow> string \<Rightarrow> store \<Rightarrow> store" where
  "register_activity org run activity_token st =
     st\<lparr>st_activities := on_entry [] org (on_entry [] run (\<lambda>ts. ts @ [activity_token])) (st_activities st)\<rparr>"

definition activities_for_run :: "store \<Rightarrow> string \<Rightarrow> string \<Rightarrow> string list" where
  "activities_for_run st org run = entry_or [] run (entry_or [] org (st_activities st))"

definition take_dirty :: "store \<Rightarrow> bool \<times> store" where
  "take_dirty st = (st_dirty st, st\<lparr>st_dirty := False\<rparr>)"

section \<open>The snapshot\<close>

record cloud_snapshot =
  sn_orgs :: "(string, (string, run_agg) table) table"
  sn_killed :: "(string, (string, bool) table) table"
  sn_budgets :: "(string, (string, int) table) table"
  sn_unit_budgets :: "(string, (string, int) table) table"
  sn_devices :: "(string, device) table"
  sn_nonces :: "(string, (string \<times> int) list) table"
  sn_savings :: "(string, savings_totals) table"
  sn_spend_days :: "(string, (int, (string, day_spend) table) table) table"
  sn_unit_months :: "(string, (string, unit_month_acc) table) table"
  sn_gateways :: "(string, (string, gateway_acc) table) table"
  sn_decision_counts :: "(string, (string, nat) table) table"
  sn_incidents :: "(string, (string, incident) table) table"
  sn_audit :: "(string, audit_entry list) table"
  sn_org_totals :: "(string, org_totals) table"

definition store_snapshot :: "store \<Rightarrow> cloud_snapshot" where
  "store_snapshot st =
     \<lparr>sn_orgs = st_orgs st, sn_killed = st_killed st, sn_budgets = st_budgets st,
      sn_unit_budgets = st_unit_budgets st, sn_devices = st_devices st, sn_nonces = st_nonces st,
      sn_savings = st_savings st, sn_spend_days = st_spend_days st, sn_unit_months = st_unit_months st,
      sn_gateways = st_gateways st, sn_decision_counts = st_decision_counts st,
      sn_incidents = st_incidents st, sn_audit = st_audit st, sn_org_totals = st_org_totals st\<rparr>"

text \<open>
  \<open>save\<close> writes the encoded snapshot; the encoder may refuse. \<open>load\<close> is given what reading the
  file gave: \<open>None\<close> for a missing file, an error, or the bytes.
\<close>

definition save :: "(cloud_snapshot \<Rightarrow> string option) \<Rightarrow> store \<Rightarrow> string option" where
  "save encode st = encode (store_snapshot st)"

definition load_devices :: "(string \<Rightarrow> nat list) \<Rightarrow> (string, device) table \<Rightarrow> bool \<times> (string, device) table" where
  "load_devices sha ds =
     (list_ex (\<lambda>(key, d). \<not> starts_with ''sha256:'' key) ds,
      fold (\<lambda>(key, d) m. AList.update (if starts_with ''sha256:'' key then key else digest sha key) d m) ds [])"

definition load_nonces ::
  "int \<Rightarrow> (string, (string \<times> int) list) table \<Rightarrow> (string, (string \<times> int) list) table" where
  "load_nonces now_unix ns =
     filter (\<lambda>(device, kept). kept \<noteq> [])
       (map (\<lambda>(device, ring). (device, filter (\<lambda>(nonce, ts). wrap_i64 \<bar>wrap_i64 (now_unix - ts)\<bar> \<le> SIGNATURE_WINDOW_SECS) ring)) ns)"

definition load_savings :: "savings_totals \<Rightarrow> savings_totals" where
  "load_savings acc =
     (if length (sv_breaks acc) > sv_budget_breaks acc
      then acc\<lparr>sv_budget_breaks := length (sv_breaks acc)\<rparr> else acc)"

definition add_u64 :: "nat \<Rightarrow> nat \<Rightarrow> nat" where
  "add_u64 a b = (a + b) mod 2 ^ 64"

definition backfill_totals :: "(string, run_agg) table \<Rightarrow> org_totals" where
  "backfill_totals rtab =
     fold (\<lambda>(run, agg) t. t\<lparr>ot_calls := add_u64 (ot_calls t) (ra_calls agg),
                             ot_spent := saturating_add (ot_spent t) (ra_spent agg)\<rparr>) rtab org_totals_new"

definition load_totals ::
  "(string, (string, run_agg) table) table \<Rightarrow> (string, org_totals) table \<Rightarrow> (string, org_totals) table" where
  "load_totals orgs totals =
     fold (\<lambda>(org, rtab) m. if map_of m org = None then AList.update org (backfill_totals rtab) m else m) orgs totals"

definition seed_recency :: "(string, run_agg) table \<Rightarrow> string recency_index" where
  "seed_recency rtab = fold touch (map ra_run_id (sort_key ra_last_seen (map snd rtab))) recency_new"

definition broken_chains :: "(string \<Rightarrow> nat list) \<Rightarrow> (string, audit_entry list) table \<Rightarrow> (string \<times> nat) list" where
  "broken_chains sha audit =
     concat (map (\<lambda>(org, chain). case verify_chain sha chain of Inl i \<Rightarrow> [(org, i)] | Inr u \<Rightarrow> []) audit)"

definition load_snapshot :: "(string \<Rightarrow> nat list) \<Rightarrow> int \<Rightarrow> cloud_snapshot \<Rightarrow> store \<Rightarrow> store" where
  "load_snapshot sha now_unix snap st =
     (let (migrated, devices) = load_devices sha (sn_devices snap)
      in st\<lparr>st_orgs := sn_orgs snap, st_killed := sn_killed snap, st_budgets := sn_budgets snap,
            st_unit_budgets := sn_unit_budgets snap, st_devices := devices,
            st_dirty := st_dirty st \<or> migrated, st_nonces := load_nonces now_unix (sn_nonces snap),
            st_savings := map (\<lambda>(org, acc). (org, load_savings acc)) (sn_savings snap),
            st_spend_days := sn_spend_days snap, st_unit_months := sn_unit_months snap,
            st_gateways := sn_gateways snap, st_decision_counts := sn_decision_counts snap,
            st_incidents := sn_incidents snap, st_audit := sn_audit snap,
            st_org_totals := load_totals (sn_orgs snap) (sn_org_totals snap),
            st_run_recency := map (\<lambda>(org, rtab). (org, seed_recency rtab)) (sn_orgs snap)\<rparr>)"

datatype load_error = Load_io | Load_invalid_data

definition load ::
  "(string \<Rightarrow> nat list) \<Rightarrow> (string \<Rightarrow> cloud_snapshot option) \<Rightarrow> int \<Rightarrow> (string option, unit) res \<Rightarrow> store
   \<Rightarrow> ((string \<times> nat) list, load_error) res \<times> store" where
  "load sha decode now_unix read st =
     (case read of
        Inl e \<Rightarrow> (Inl Load_io, st)
      | Inr None \<Rightarrow> (Inr [], st)
      | Inr (Some data) \<Rightarrow>
          (case decode data of
             None \<Rightarrow> (Inl Load_invalid_data, st)
           | Some snap \<Rightarrow> (Inr (broken_chains sha (sn_audit snap)), load_snapshot sha now_unix snap st)))"

end
