(* ===== verification/Cloud_Books.thy ===== *)
theory Cloud_Books
  imports Cloud_Control
begin

text \<open>
  Facts of the accounting half of a push: every table of an org stays within its bound, the run
  table stays in step with its index, and the totals are sums over the records whatever their order.
\<close>

section \<open>Capped tables\<close>

text \<open>A table that folds what is past its cap into one shared key.\<close>

definition capped :: "nat \<Rightarrow> 'k \<Rightarrow> ('k, 'v) table \<Rightarrow> bool" where
  "capped cap other m \<longleftrightarrow> table_ok m \<and> card (keys m - {other}) \<le> cap"

lemma capped_nil [simp]: "capped cap other []"
  by (simp add: capped_def)

lemma capped_length: "capped cap other m \<Longrightarrow> length m \<le> Suc cap"
  using card_Diff_singleton_if [of "keys m" other] card_keys [of m]
  by (auto simp: capped_def split: if_splits)

lemma capped_entry:
  assumes "capped cap other m" and "k = key \<and> (map_of m key \<noteq> None \<or> length m < cap) \<or> k = other"
  shows "capped cap other (on_entry d k f m)"
proof -
  have le: "card (keys m - {other}) \<le> length m"
    using assms(1) card_mono [of "keys m" "keys m - {other}"] by (auto simp: capped_def card_keys)
  show ?thesis
  proof (cases "k \<in> keys m \<or> k = other")
    case True
    then have "keys (on_entry d k f m) - {other} = keys m - {other}" by auto
    with assms(1) show ?thesis unfolding capped_def by (metis table_ok_simps(4))
  next
    case False
    then have "keys (on_entry d k f m) - {other} = insert k (keys m - {other})" "length m < cap"
      using assms(2) by (auto simp: keys_map_of)
    with assms(1) le False show ?thesis by (simp add: capped_def)
  qed
qed

lemma capped_bump [simp]: "capped cap other m \<Longrightarrow> capped cap other (bump_bounded cap other key m)"
  unfolding bump_bounded_def by (rule capped_entry) auto

lemma capped_bumps: "capped cap other m \<Longrightarrow> capped cap other (fold (bump_bounded cap other) ks m)"
  by (induction ks arbitrary: m) simp_all

lemma capped_filter: "capped cap other m \<Longrightarrow> capped cap other (filter P m)"
  using card_mono [of "keys m - {other}" "keys (filter P m) - {other}"] keys_filter [of P m]
  by (fastforce simp: capped_def)

section \<open>The run table\<close>

definition models_ok :: "run_model list \<Rightarrow> bool" where
  "models_ok ms \<longleftrightarrow> distinct (map rm_model ms) \<and> length (filter (\<lambda>m. rm_model m \<noteq> OTHER_FALLBACK_MODELS) ms) \<le> MAX_RUN_MODELS"

definition agg_ok :: "string \<Rightarrow> run_agg \<Rightarrow> bool" where
  "agg_ok run a \<longleftrightarrow> ra_run_id a = run \<and> 0 \<le> ra_spent a \<and> models_ok (ra_models a)"

lemma bump_model_names [simp]: "map rm_model (bump_model key cost ms) = map rm_model ms"
  by (induction key cost ms rule: bump_model.induct) auto

lemma filter_length_names:
  "length (filter (\<lambda>m. P (rm_model m)) ms) = length (filter P (map rm_model ms))"
  by (induction ms) auto

lemma models_ok_names: "map rm_model ms = map rm_model ms' \<Longrightarrow> models_ok ms = models_ok ms'"
  by (simp add: models_ok_def filter_length_names [of "\<lambda>n. n \<noteq> OTHER_FALLBACK_MODELS"])

lemma models_ok_mset: "mset ms = mset ms' \<Longrightarrow> models_ok ms = models_ok ms'"
  unfolding models_ok_def
  by (metis (no_types, lifting) mset_eq_imp_distinct_iff mset_filter mset_map size_mset)

lemma fold_run_model_frame [simp]:
  "ra_run_id (fold_run_model a m c) = ra_run_id a" "ra_spent (fold_run_model a m c) = ra_spent a"
  by (simp_all add: fold_run_model_def Let_def)

lemma fold_run_model_ok:
  assumes "models_ok (ra_models a)"
  shows "models_ok (ra_models (fold_run_model a m c))"
proof (cases "list_ex (\<lambda>x. rm_model x = model_key (ra_models a) m) (ra_models a)")
  case True
  then show ?thesis
    using assms models_ok_names [of "bump_model (model_key (ra_models a) m) c (ra_models a)" "ra_models a"]
    by (simp add: fold_run_model_def)
next
  case False
  define key where "key = model_key (ra_models a) m"
  have "models_ok (ra_models a @ [\<lparr>rm_model = key, rm_calls = 1, rm_spent = c\<rparr>])"
    using assms False
    by (auto simp: models_ok_def key_def model_key_def Let_def list_ex_iff split: if_splits)
  then have "models_ok (sort_key model_order (ra_models a @ [\<lparr>rm_model = key, rm_calls = 1, rm_spent = c\<rparr>]))"
    by (subst models_ok_mset [OF mset_sort])
  with False show ?thesis by (simp add: fold_run_model_def key_def Let_def)
qed

lemma run_ok_cong:
  "ra_run_id b = ra_run_id a \<Longrightarrow> ra_spent b = ra_spent a \<Longrightarrow> ra_models b = ra_models a \<Longrightarrow> agg_ok run b = agg_ok run a"
  by (simp add: agg_ok_def)

lemma run_spend_ok: "agg_ok run a \<Longrightarrow> agg_ok run (run_spend r a)"
  by (simp add: agg_ok_def run_spend_def Let_def saturating_add_def record_cost_def)

lemma run_decision_ok [simp]: "agg_ok run (run_decision r a) = agg_ok run a"
  by (rule run_ok_cong) (simp_all add: run_decision_def Let_def)

lemma run_identity_ok [simp]: "agg_ok run (run_identity r a) = agg_ok run a"
  by (rule run_ok_cong) (simp_all add: run_identity_def Let_def split: option.split)

lemma run_priced_ok [simp]: "agg_ok run (run_priced r a) = agg_ok run a"
  by (rule run_ok_cong) (simp_all add: run_priced_def Let_def)

lemma run_named_model_ok: "agg_ok run a \<Longrightarrow> agg_ok run (run_named_model r a)"
  using fold_run_model_ok by (simp add: agg_ok_def run_named_model_def Let_def)

lemma run_attributed_ok [simp]: "agg_ok run (run_attributed site r a) = agg_ok run a"
proof (rule run_ok_cong)
  show "ra_run_id (run_attributed site r a) = ra_run_id a"
    by (simp add: run_attributed_def Let_def split: option.split)
  show "ra_spent (run_attributed site r a) = ra_spent a"
    by (simp add: run_attributed_def Let_def split: option.split)
  show "ra_models (run_attributed site r a) = ra_models a"
    by (simp add: run_attributed_def Let_def split: option.split)
qed

lemma run_fold_ok: "agg_ok run a \<Longrightarrow> agg_ok run (run_fold site r a)"
  by (simp add: run_fold_def run_spend_ok run_named_model_ok)

definition runs_ok :: "nat \<Rightarrow> (string, run_agg) table \<Rightarrow> string recency_index \<Rightarrow> bool" where
  "runs_ok n rtab ix \<longleftrightarrow>
     in_step MAX_RUNS_PER_ORG rtab ix \<and> recency_room ix n \<and> (\<forall>run a. map_of rtab run = Some a \<longrightarrow> agg_ok run a)"

lemma evict_run_room:
  assumes "in_step MAX_RUNS_PER_ORG rtab ix" and "recency_room ix n"
    and "evict_run ol bs run (rtab, ix) = (rtab', ix')"
  shows "recency_ok ix' \<and> set (lru ix') = keys rtab' \<and> table_ok rtab' \<and> recency_room ix' n
    \<and> length rtab' \<le> MAX_RUNS_PER_ORG \<and> (run \<notin> keys rtab' \<longrightarrow> length rtab' < MAX_RUNS_PER_ORG)
    \<and> (\<forall>k a. map_of rtab' k = Some a \<longrightarrow> map_of rtab k = Some a)"
proof (cases "map_of rtab run = None \<and> MAX_RUNS_PER_ORG \<le> length rtab")
  case True
  have s: "recency_ok ix" "set (lru ix) = keys rtab" "table_ok rtab" "length rtab \<le> MAX_RUNS_PER_ORG"
    using assms(1) by (simp_all add: in_step_def)
  have "rtab \<noteq> []" using True by (auto simp: MAX_RUNS_PER_ORG_def)
  then obtain e ix1 where e: "evict_oldest_unprotected (is_alerting ol bs rtab) ix = (Some e, ix1)" "e \<in> keys rtab"
      "recency_ok ix1" "set (lru ix1) = keys (AList.delete e rtab)"
    using run_lru.evict_in_step [OF s(1,2,3), of "is_alerting ol bs rtab"] by blast
  have r: "recency_room ix1 n"
    using run_lru.evicting_room [OF s(1) assms(2), of "is_alerting ol bs rtab"] e(1) by simp
  have eq: "rtab' = AList.delete e rtab" "ix' = ix1"
    using True e(1) assms(3) by (simp_all add: evict_run_def)
  have "length (AList.delete e rtab) < MAX_RUNS_PER_ORG"
  proof -
    have "0 < length rtab" using \<open>rtab \<noteq> []\<close> by simp
    then have "length rtab - 1 < MAX_RUNS_PER_ORG" using s(4) by linarith
    with s(3) e(2) show ?thesis by (simp add: length_delete)
  qed
  with s e r show ?thesis by (auto simp: eq)
next
  case False
  with assms show ?thesis by (auto simp: evict_run_def in_step_def keys_map_of)
qed

lemma runs_fold_ok:
  assumes "runs_ok (Suc n) rtab ix" and "runs_fold ol bs site r (rtab, ix) = (rtab', ix')"
  shows "runs_ok n rtab' ix'"
proof -
  obtain rt ix1 where e: "evict_run ol bs (cl_run_id r) (rtab, ix) = (rt, ix1)" by fastforce
  have v: "recency_ok ix1" "set (lru ix1) = keys rt" "recency_room ix1 (Suc n)" "table_ok rt"
      "length rt \<le> MAX_RUNS_PER_ORG" "cl_run_id r \<notin> keys rt \<Longrightarrow> length rt < MAX_RUNS_PER_ORG"
      "\<forall>k a. map_of rt k = Some a \<longrightarrow> map_of rtab k = Some a"
    using evict_run_room [OF _ _ e, of "Suc n"] assms(1) by (auto simp: runs_ok_def)
  have eq: "rtab' = on_entry (run_agg_new (cl_run_id r)) (cl_run_id r) (run_fold site r) rt" "ix' = touch (cl_run_id r) ix1"
    using assms(2) by (auto simp: runs_fold_def e)
  have "agg_ok (cl_run_id r) (entry_or (run_agg_new (cl_run_id r)) (cl_run_id r) rt)"
    using v(7) assms(1)
    by (auto simp: entry_or_def runs_ok_def agg_ok_def run_agg_new_def models_ok_def split: option.splits)
  then have "agg_ok (cl_run_id r) (run_fold site r (entry_or (run_agg_new (cl_run_id r)) (cl_run_id r) rt))"
    by (rule run_fold_ok)
  then have "\<forall>run a. map_of rtab' run = Some a \<longrightarrow> agg_ok run a"
    using v(7) assms(1) by (auto simp: eq runs_ok_def)
  with plain_lru.bounded_update [OF v(1,2,3,4,5,6)] show ?thesis
    by (simp add: runs_ok_def in_step_def eq on_entry_def)
qed

text \<open>A run over its line goes only when every retained run is over its own.\<close>

lemma evict_run_protects:
  assumes "in_step MAX_RUNS_PER_ORG rtab ix" and "evict_run ol bs run (rtab, ix) = (rtab', ix')"
    and "victim \<in> keys rtab" and "victim \<notin> keys rtab'"
    and "j \<in> keys rtab" and "\<not> is_alerting ol bs rtab j"
  shows "\<not> is_alerting ol bs rtab victim"
proof -
  have s: "recency_ok ix" "set (lru ix) = keys rtab" "table_ok rtab"
    using assms(1) by (simp_all add: in_step_def)
  have "rtab \<noteq> []" using assms(3) by (auto simp: keys_def)
  then obtain e ix1 where e: "evict_oldest_unprotected (is_alerting ol bs rtab) ix = (Some e, ix1)"
    using run_lru.evict_in_step [OF s, of "is_alerting ol bs rtab"] by blast
  have "map_of rtab run = None \<and> MAX_RUNS_PER_ORG \<le> length rtab"
    using assms(2,3,4) by (auto simp: evict_run_def split: if_splits)
  then have "rtab' = AList.delete e rtab" using e assms(2) by (simp add: evict_run_def)
  then have "e = victim" using assms(3,4) by auto
  with run_lru.protected_stays [OF s(1), of "is_alerting ol bs rtab" e j] e assms(5,6) s(2) show ?thesis by simp
qed

section \<open>Savings\<close>

definition breaks_ok :: "nat \<Rightarrow> savings_totals \<Rightarrow> string recency_index \<Rightarrow> bool" where
  "breaks_ok n sav ix \<longleftrightarrow>
     recency_ok ix \<and> recency_room ix n \<and> set (lru ix) \<subseteq> set (sv_breaks sav) \<and> distinct (sv_breaks sav)
     \<and> length (sv_breaks sav) \<le> MAX_BREAK_KEYS \<and> length (sv_breaks sav) \<le> sv_budget_breaks sav
     \<and> sv_budget_breaks sav \<le> U64_MAX"

lemma length_filter_neq: "distinct xs \<Longrightarrow> x \<in> set xs \<Longrightarrow> length (filter (\<lambda>y. y \<noteq> x) xs) = length xs - 1"
proof -
  assume "distinct xs" "x \<in> set xs"
  moreover have "filter (\<lambda>y. y \<noteq> x) xs = removeAll x xs" by (auto simp: removeAll_filter_not_eq intro: filter_cong)
  ultimately show ?thesis by (simp add: length_remove1 flip: distinct_remove1_removeAll)
qed

text \<open>Making room among the breaks.\<close>

lemma break_room:
  assumes "breaks_ok n sav ix"
    and "(if MAX_BREAK_KEYS \<le> length (sv_breaks sav)
          then (case evict_oldest ix of
                  (Some evict_id, ix) \<Rightarrow> (filter (\<lambda>b. b \<noteq> evict_id) (sv_breaks sav), ix)
                | (None, ix) \<Rightarrow> (tl (sv_breaks sav), ix))
          else (sv_breaks sav, ix)) = (bs, ix')"
  shows "recency_ok ix' \<and> recency_room ix' n \<and> set (lru ix') \<subseteq> set bs \<and> distinct bs
    \<and> length bs < MAX_BREAK_KEYS \<and> set bs \<subseteq> set (sv_breaks sav) \<and> length bs \<le> length (sv_breaks sav)"
proof (cases "MAX_BREAK_KEYS \<le> length (sv_breaks sav)")
  case True
  have b: "recency_ok ix" "recency_room ix n" "set (lru ix) \<subseteq> set (sv_breaks sav)" "distinct (sv_breaks sav)"
      "length (sv_breaks sav) = MAX_BREAK_KEYS"
    using assms(1) True by (simp_all add: breaks_ok_def)
  have nn: "sv_breaks sav \<noteq> []" using b(5) by (auto simp: MAX_BREAK_KEYS_def)
  obtain v ix1 where e: "evict_oldest ix = (v, ix1)" by fastforce
  have ok: "recency_ok ix1" "recency_room ix1 n"
    using plain_lru.evicting_ok [OF b(1)] plain_lru.evicting_room [OF b(1,2)] e by simp_all
  show ?thesis
  proof (cases v)
    case None
    then have "lru ix = []" using plain_lru.evicting_none [OF b(1)] e by simp
    then have "lru ix1 = []" using evict_refines(2) [OF b(1)] e by simp
    moreover have "bs = tl (sv_breaks sav)" "ix' = ix1" using assms(2) True e None by simp_all
    ultimately show ?thesis using b ok nn by (auto simp: distinct_tl MAX_BREAK_KEYS_def dest: list.set_sel(2))
  next
    case (Some x)
    then have x: "x \<in> set (lru ix)" "lru ix1 = filter (\<lambda>j. j \<noteq> x) (lru ix)"
      using plain_lru.evicting_some [OF b(1), of x] e by simp_all
    moreover have eq: "bs = filter (\<lambda>b. b \<noteq> x) (sv_breaks sav)" "ix' = ix1"
      using assms(2) True e Some by simp_all
    moreover have "length bs = MAX_BREAK_KEYS - 1"
      using length_filter_neq [OF b(4), of x] x(1) b(3,5) by (auto simp: eq)
    ultimately show ?thesis using b ok by (auto simp: MAX_BREAK_KEYS_def)
  qed
next
  case False
  with assms show ?thesis by (auto simp: breaks_ok_def)
qed

lemma break_fold_ok:
  assumes "breaks_ok (Suc n) sav ix" and "break_fold run (sav, ix) = (sav', ix')"
  shows "breaks_ok n sav' ix'"
proof (cases "run \<in> set (sv_breaks sav)")
  case True
  then have eq: "sav' = sav" "ix' = touch run ix" using assms(2) by (simp_all add: break_fold_def)
  have "recency_ok ix" "recency_room ix (Suc n)" using assms(1) by (simp_all add: breaks_ok_def)
  with touch_refines [OF this, of run] assms(1) True show ?thesis
    by (auto simp: breaks_ok_def eq)
next
  case False
  obtain bs ix1 where r: "(if MAX_BREAK_KEYS \<le> length (sv_breaks sav)
          then (case evict_oldest ix of
                  (Some evict_id, ix) \<Rightarrow> (filter (\<lambda>b. b \<noteq> evict_id) (sv_breaks sav), ix)
                | (None, ix) \<Rightarrow> (tl (sv_breaks sav), ix))
          else (sv_breaks sav, ix)) = (bs, ix1)" by fastforce
  note v = break_room [OF assms(1) r]
  have eq: "sav' = sav\<lparr>sv_breaks := bs @ [run], sv_budget_breaks := sat_u64 (sv_budget_breaks sav + 1)\<rparr>"
      "ix' = touch run ix1"
    using assms(2) False r by (simp_all add: break_fold_def)
  have ix1: "recency_ok ix1" "recency_room ix1 (Suc n)" using v by simp_all
  have "length bs < MAX_BREAK_KEYS" "length bs \<le> sv_budget_breaks sav" using v assms(1) by (auto simp: breaks_ok_def)
  then have "Suc (length bs) \<le> sat_u64 (Suc (sv_budget_breaks sav))"
    by (auto simp: sat_u64_def MAX_BREAK_KEYS_def U64_MAX_def)
  with touch_refines [OF ix1, of run] v False show ?thesis
    by (auto simp: breaks_ok_def eq)
qed

lemma savings_record_ok:
  assumes "breaks_ok (Suc n) sav ix" and "savings_record r (sav, ix) = (sav', ix')"
  shows "breaks_ok n sav' ix'"
proof -
  have mono: "breaks_ok (Suc n) s i \<Longrightarrow> breaks_ok n s i" for s i
    by (auto simp: breaks_ok_def recency_room_def)
  have sv: "breaks_ok k (sv_blocked_spend_update f s) i = breaks_ok k s i"
    "breaks_ok k (sv_cache_saved_update f s) i = breaks_ok k s i"
    "breaks_ok k (sv_router_saved_update f s) i = breaks_ok k s i" for k f s i
    by (simp_all add: breaks_ok_def)
  obtain s1 i1 where b: "break_fold (cl_run_id r)
      (sav\<lparr>sv_blocked_spend := saturating_add (sv_blocked_spend sav) (record_cost r)\<rparr>, ix) = (s1, i1)" by fastforce
  have "breaks_ok n s1 i1" using break_fold_ok [OF _ b] assms(1) by (simp add: sv)
  then show ?thesis
    using assms mono b by (auto simp: savings_record_def sv split: if_splits)
qed

section \<open>An org's books\<close>

definition totals_ok :: "org_totals \<Rightarrow> bool" where
  "totals_ok t \<longleftrightarrow>
     0 \<le> ot_spent t \<and> ot_spent t \<le> I64_MAX \<and> ot_calls t < 2 ^ 64
     \<and> capped MAX_FALLBACK_MODEL_KEYS OTHER_FALLBACK_MODELS (ot_fallback_models t)
     \<and> capped MAX_PII_KINDS OTHER_PII_KINDS (ot_pii_kinds t)"

definition decisions_ok :: "(string, nat) table \<Rightarrow> bool" where
  "decisions_ok dc \<longleftrightarrow> table_ok dc \<and> keys dc \<subseteq> set KNOWN_DECISIONS \<and> (\<forall>d. entry_or 0 d dc < 2 ^ 64)"

definition days_ok :: "(int, (string, day_spend) table) table \<Rightarrow> bool" where
  "days_ok days \<longleftrightarrow>
     table_ok days \<and> (\<forall>day m. map_of days day = Some m \<longrightarrow> capped MAX_SPEND_AGENTS_PER_DAY [] m)"

definition org_books_ok :: "nat \<Rightarrow> org_refs \<Rightarrow> bool" where
  "org_books_ok n g \<longleftrightarrow>
     runs_ok n (og_runs g) (og_recency g) \<and> breaks_ok n (og_sav g) (og_break_recency g)
     \<and> totals_ok (og_totals g) \<and> decisions_ok (og_decisions g)
     \<and> capped MAX_UNIT_MONTH_KEYS UNASSIGNED (og_unit_months g) \<and> days_ok (og_spend_days g)"

lemma wrap_succ_less [simp]: "wrap_succ_u64 n < 2 ^ 64" "wrap_succ_u64 n < 18446744073709551616"
  by (simp_all add: wrap_succ_u64_def)

lemma totals_priced_frame [simp]:
  "ot_calls (totals_priced r t) = ot_calls t" "ot_spent (totals_priced r t) = ot_spent t"
  by (simp_all add: totals_priced_def)

lemma totals_findings_frame [simp]:
  "ot_calls (totals_findings r t) = ot_calls t" "ot_spent (totals_findings r t) = ot_spent t"
  by (simp_all add: totals_findings_def Let_def)

lemma record_cost_nonneg [simp]: "0 \<le> record_cost r" "0 \<le> record_saved r"
  by (simp_all add: record_cost_def record_saved_def)

lemma totals_fold_calls: "ot_calls (totals_fold r t) = wrap_succ_u64 (ot_calls t)"
  by (simp add: totals_fold_def totals_spend_def Let_def)

lemma totals_fold_spent:
  "ot_spent (totals_fold r t) = (if is_blocked (cl_decision r) then ot_spent t else sat_i64 (ot_spent t + record_cost r))"
  by (simp add: totals_fold_def totals_spend_def Let_def saturating_add_def)

lemma totals_fold_ok:
  assumes "totals_ok t"
  shows "totals_ok (totals_fold r t)"
proof -
  have "capped MAX_PII_KINDS OTHER_PII_KINDS (ot_pii_kinds (totals_fold r t))"
    using assms by (simp add: totals_ok_def totals_fold_def totals_priced_def totals_findings_def totals_spend_def Let_def capped_bumps)
  moreover have "capped MAX_FALLBACK_MODEL_KEYS OTHER_FALLBACK_MODELS (ot_fallback_models (totals_fold r t))"
    using assms by (simp add: totals_ok_def totals_fold_def totals_priced_def totals_findings_def totals_spend_def Let_def)
  ultimately show ?thesis
    using assms by (simp add: totals_ok_def totals_fold_calls totals_fold_spent)
qed

lemma decision_fold_ok: "decisions_ok dc \<Longrightarrow> decisions_ok (decision_fold r dc)"
  by (simp add: decisions_ok_def decision_fold_def is_known_decision_def)

lemma unit_month_fold_ok:
  "capped MAX_UNIT_MONTH_KEYS UNASSIGNED m \<Longrightarrow> capped MAX_UNIT_MONTH_KEYS UNASSIGNED (unit_month_fold now_month r m)"
  unfolding unit_month_fold_def Let_def by (rule capped_entry) auto

lemma day_agents_fold_ok:
  "capped MAX_SPEND_AGENTS_PER_DAY [] m \<Longrightarrow> capped MAX_SPEND_AGENTS_PER_DAY [] (day_agents_fold r m)"
  unfolding day_agents_fold_def by (rule capped_entry) auto

lemma day_fold_ok: "days_ok days \<Longrightarrow> days_ok (day_fold r days)"
  by (auto simp: days_ok_def day_fold_def entry_or_def intro!: day_agents_fold_ok split: option.split)

lemma drop_old_days_ok: "days_ok days \<Longrightarrow> days_ok (drop_old_days now days)"
  by (auto simp: days_ok_def drop_old_days_def map_of_filter_key split: if_splits)

lemma ingest_record_ok:
  assumes "org_books_ok (Suc n) g"
  shows "org_books_ok n (ingest_record ol bs site mn r g)"
proof -
  obtain rt ix where rt: "runs_fold ol bs site r (og_runs g, og_recency g) = (rt, ix)" by fastforce
  obtain sv bx where sv: "savings_record r (og_sav g, og_break_recency g) = (sv, bx)" by fastforce
  have "runs_ok n rt ix" "breaks_ok n sv bx"
    using assms runs_fold_ok [OF _ rt] savings_record_ok [OF _ sv] by (simp_all add: org_books_ok_def)
  with assms show ?thesis
    by (simp add: org_books_ok_def ingest_record_def rt sv totals_fold_ok decision_fold_ok unit_month_fold_ok day_fold_ok)
qed

lemma ingest_fold_ok:
  "org_books_ok (n + length rs) g \<Longrightarrow> org_books_ok n (fold (ingest_record ol bs site mn) rs g)"
proof (induction rs arbitrary: g)
  case (Cons r rs)
  then have "org_books_ok (Suc (n + length rs)) g" by simp
  from Cons.IH [OF ingest_record_ok [OF this]] show ?case by simp
qed simp

lemma ingest_records_ok:
  "org_books_ok (n + length rs) g \<Longrightarrow> org_books_ok n (ingest_records ol bs site mn rs g)"
  by (simp add: ingest_records_def ingest_fold_ok)

section \<open>Totals do not depend on the order or the batches\<close>

lemma sum_where_mset: "mset xs = mset ys \<Longrightarrow> sum_where P f xs = sum_where P f ys"
  unfolding sum_where_def by (metis mset_filter mset_map sum_mset_sum_list)

lemma sum_where_sort [simp]: "sum_where P f (sort_key k xs) = sum_where P f xs"
  by (rule sum_where_mset) simp

lemma sat_step: "0 \<le> a \<Longrightarrow> 0 \<le> b \<Longrightarrow> 0 \<le> c \<Longrightarrow> sat_i64 (sat_i64 (a + b) + c) = sat_i64 (a + b + c)"
  by (auto simp: sat_i64_def machine_bounds min_def max_def)

text \<open>A field that adds what some records carry, saturating, holds the clamped sum.\<close>

lemma saturating_fold:
  assumes "\<And>r t. field (step r t) = (if P r then sat_i64 (field t + f r) else field t)"
    and "\<And>r. 0 \<le> f r" and "0 \<le> a" and "field t = sat_i64 a"
  shows "field (fold step rs t) = sat_i64 (a + sum_where P f rs)"
  using assms(3,4)
proof (induction rs arbitrary: a t)
  case (Cons r rs)
  show ?case
  proof (cases "P r")
    case True
    have "field (step r t) = sat_i64 (a + f r)"
      using True Cons.prems assms(2) sat_step [of a 0 "f r"] by (simp add: assms(1))
    with Cons.IH [of "a + f r" "step r t"] True Cons.prems assms(2) show ?thesis
      by (simp add: add.assoc)
  next
    case False
    with Cons.IH [of a "step r t"] Cons.prems show ?thesis by (simp add: assms(1))
  qed
qed simp

lemma wrapping_fold:
  assumes "\<And>r t. field (step r t) = (if P r then wrap_succ_u64 (field t) else field t)" and "field t = a mod 2 ^ 64"
  shows "field (fold step rs t) = (a + length (filter P rs)) mod 2 ^ 64"
  using assms(2)
proof (induction rs arbitrary: a t)
  case (Cons r rs)
  have "field (step r t) = (if P r then Suc a else a) mod 2 ^ 64"
    using Cons.prems by (simp add: assms(1) wrap_succ_u64_def mod_Suc_eq)
  from Cons.IH [OF this] show ?case by simp
qed simp

lemma fold_ingest_books:
  "og_totals (fold (ingest_record ol bs site mn) rs g) = fold totals_fold rs (og_totals g)"
  "og_decisions (fold (ingest_record ol bs site mn) rs g) = fold decision_fold rs (og_decisions g)"
  by (induction rs arbitrary: g) (simp_all add: ingest_record_def split: prod.split)

lemma savings_record_fields:
  "sv_cache_saved (fst (savings_record r p)) =
     (if cl_decision r = ''cache_hit'' then sat_i64 (sv_cache_saved (fst p) + record_saved r) else sv_cache_saved (fst p))"
  "sv_router_saved (fst (savings_record r p)) =
     (if cl_decision r = ''allow'' then sat_i64 (sv_router_saved (fst p) + record_saved r) else sv_router_saved (fst p))"
  "sv_blocked_spend (fst (savings_record r p)) =
     (if is_budget_protection (cl_decision r) then sat_i64 (sv_blocked_spend (fst p) + record_cost r) else sv_blocked_spend (fst p))"
  by (cases p; simp add: savings_record_def break_fold_def saturating_add_def Let_def split: prod.split)+

lemma fold_ingest_savings:
  "(og_sav (fold (ingest_record ol bs site mn) rs g), og_break_recency (fold (ingest_record ol bs site mn) rs g)) =
     fold savings_record rs (og_sav g, og_break_recency g)"
  by (induction rs arbitrary: g) (simp_all add: ingest_record_def split: prod.split)

text \<open>The clamped sums one push leaves, whatever order its records came in.\<close>

lemma ingest_totals:
  assumes "ot_calls (og_totals g) = a mod 2 ^ 64" and "ot_spent (og_totals g) = sat_i64 c" and "0 \<le> c"
  shows "ot_calls (og_totals (ingest_records ol bs site mn rs g)) = (a + length rs) mod 2 ^ 64"
    and "ot_spent (og_totals (ingest_records ol bs site mn rs g)) =
           sat_i64 (c + sum_where (\<lambda>r. \<not> is_blocked (cl_decision r)) record_cost rs)"
proof -
  show "ot_calls (og_totals (ingest_records ol bs site mn rs g)) = (a + length rs) mod 2 ^ 64"
    using wrapping_fold [of ot_calls totals_fold "\<lambda>r. True" "og_totals g" a "sort_key cl_ts_millis rs"] assms(1)
    by (simp add: ingest_records_def fold_ingest_books totals_fold_calls)
  show "ot_spent (og_totals (ingest_records ol bs site mn rs g)) =
      sat_i64 (c + sum_where (\<lambda>r. \<not> is_blocked (cl_decision r)) record_cost rs)"
    using saturating_fold [of ot_spent totals_fold "\<lambda>r. \<not> is_blocked (cl_decision r)" record_cost c "og_totals g"
        "sort_key cl_ts_millis rs"] assms(2,3)
    by (simp add: ingest_records_def fold_ingest_books totals_fold_spent)
qed

lemma length_filter_mset: "mset xs = mset ys \<Longrightarrow> length (filter P xs) = length (filter P ys)"
  by (metis mset_filter size_mset)

lemma ingest_decisions:
  assumes "entry_or 0 d (og_decisions g) = a mod 2 ^ 64" and "is_known_decision d"
  shows "entry_or 0 d (og_decisions (ingest_records ol bs site mn rs g)) =
           (a + length (filter (\<lambda>r. cl_decision r = d) rs)) mod 2 ^ 64"
  using wrapping_fold [of "entry_or 0 d" decision_fold "\<lambda>r. cl_decision r = d" "og_decisions g" a "sort_key cl_ts_millis rs"]
    assms length_filter_mset [OF mset_sort, of _ cl_ts_millis rs]
  by (simp add: ingest_records_def fold_ingest_books decision_fold_def)

lemma ingest_savings:
  assumes "sv_cache_saved (og_sav g) = sat_i64 a" and "sv_router_saved (og_sav g) = sat_i64 b"
    and "sv_blocked_spend (og_sav g) = sat_i64 c" and "0 \<le> a" and "0 \<le> b" and "0 \<le> c"
  shows "sv_cache_saved (og_sav (ingest_records ol bs site mn rs g)) =
           sat_i64 (a + sum_where (\<lambda>r. cl_decision r = ''cache_hit'') record_saved rs)"
    and "sv_router_saved (og_sav (ingest_records ol bs site mn rs g)) =
           sat_i64 (b + sum_where (\<lambda>r. cl_decision r = ''allow'') record_saved rs)"
    and "sv_blocked_spend (og_sav (ingest_records ol bs site mn rs g)) =
           sat_i64 (c + sum_where (\<lambda>r. is_budget_protection (cl_decision r)) record_cost rs)"
proof -
  have e: "og_sav (ingest_records ol bs site mn rs g) =
      fst (fold savings_record (sort_key cl_ts_millis rs) (og_sav g, og_break_recency g))"
    by (simp add: ingest_records_def flip: fold_ingest_savings [of ol bs site mn])
  show "sv_cache_saved (og_sav (ingest_records ol bs site mn rs g)) =
      sat_i64 (a + sum_where (\<lambda>r. cl_decision r = ''cache_hit'') record_saved rs)"
    unfolding e by (subst saturating_fold [of "\<lambda>p. sv_cache_saved (fst p)" savings_record "\<lambda>r. cl_decision r = ''cache_hit''" record_saved a])
      (simp_all add: savings_record_fields assms)
  show "sv_router_saved (og_sav (ingest_records ol bs site mn rs g)) =
      sat_i64 (b + sum_where (\<lambda>r. cl_decision r = ''allow'') record_saved rs)"
    unfolding e by (subst saturating_fold [of "\<lambda>p. sv_router_saved (fst p)" savings_record "\<lambda>r. cl_decision r = ''allow''" record_saved b])
      (simp_all add: savings_record_fields assms)
  show "sv_blocked_spend (og_sav (ingest_records ol bs site mn rs g)) =
      sat_i64 (c + sum_where (\<lambda>r. is_budget_protection (cl_decision r)) record_cost rs)"
    unfolding e by (subst saturating_fold [of "\<lambda>p. sv_blocked_spend (fst p)" savings_record
          "\<lambda>r. is_budget_protection (cl_decision r)" record_cost c])
      (simp_all add: savings_record_fields assms)
qed

end
