(* ===== verification/Cloud_Steps.thy ===== *)
theory Cloud_Steps
  imports Cloud_Books
begin

text \<open>
  The store as a state machine: one operation per public method that changes it, a restart included
  (the last snapshot loaded into a fresh store), the histories they make, and the bounds every
  history keeps.
\<close>

section \<open>Operations and histories\<close>

text \<open>An actor of \<open>None\<close> is the plain method, \<open>Some\<close> its audited twin.\<close>

datatype cloud_op =
    Op_ingest string "string option" "cloud_record list" int
  | Op_provider string "string option" string nat string int
  | Op_sweep int
  | Op_kill string string "string option" int
  | Op_budget string string int "string option" int
  | Op_unit_budget string string int "string option" int
  | Op_ack string string "string option" int
  | Op_finding string string finding_input int
  | Op_notified string string int int
  | Op_audit string string string string string int
  | Op_create_pairing string string string int
  | Op_redeem string int device_request "int option"
  | Op_nonce string string int
  | Op_apns string string
  | Op_activity string string string
  | Op_take_dirty
  | Op_restart int

fun apply_op :: "incident_config \<Rightarrow> (string \<Rightarrow> nat list) \<Rightarrow> cloud_op \<Rightarrow> store \<Rightarrow> store" where
  "apply_op cfg sha (Op_ingest org site records now) st = fst (ingest_at_from cfg org site records now st)"
| "apply_op cfg sha (Op_provider org site provider n detail now) st =
     snd (note_provider_failures cfg org site provider n detail now st)"
| "apply_op cfg sha (Op_sweep now) st = fst (sweep_stalled_at cfg now st)"
| "apply_op cfg sha (Op_kill org run actor now) st =
     (case actor of None \<Rightarrow> fst (kill org run st) | Some a \<Rightarrow> fst (kill_audited sha now org run a st))"
| "apply_op cfg sha (Op_budget org run micros actor now) st =
     (case actor of None \<Rightarrow> fst (set_budget org run micros st)
      | Some a \<Rightarrow> fst (set_budget_audited sha now org run micros a st))"
| "apply_op cfg sha (Op_unit_budget org u micros actor now) st =
     (case actor of None \<Rightarrow> set_unit_budget org u micros st
      | Some a \<Rightarrow> set_unit_budget_audited sha now org u micros a st)"
| "apply_op cfg sha (Op_ack org i actor now) st =
     (case actor of None \<Rightarrow> snd (ack_incident org i st)
      | Some a \<Rightarrow> snd (ack_incident_audited sha now org i a st))"
| "apply_op cfg sha (Op_finding org by f now) st = snd (record_external_finding sha now org by f st)"
| "apply_op cfg sha (Op_notified org i now window) st = snd (mark_incident_notified org i now window st)"
| "apply_op cfg sha (Op_audit org actor action subject detail now) st =
     store_audit_append sha now org actor action subject detail st"
| "apply_op cfg sha (Op_create_pairing code org role expires) st = create_pairing code org role expires st"
| "apply_op cfg sha (Op_redeem code now_unix d audited) st =
     (case audited of None \<Rightarrow> snd (redeem_pairing sha code now_unix d st)
      | Some now \<Rightarrow> snd (redeem_pairing_audited sha now code now_unix d st))"
| "apply_op cfg sha (Op_nonce dev nonce ts) st = snd (check_and_record_nonce dev nonce ts st)"
| "apply_op cfg sha (Op_apns dev token) st = snd (set_apns_token dev token st)"
| "apply_op cfg sha (Op_activity org run token) st = register_activity org run token st"
| "apply_op cfg sha Op_take_dirty st = snd (take_dirty st)"
| "apply_op cfg sha (Op_restart now_unix) st = load_snapshot sha now_unix (store_snapshot st) store_new"

text \<open>How often an operation touches one recency index at most.\<close>

fun op_weight :: "cloud_op \<Rightarrow> nat" where
  "op_weight (Op_ingest org site records now) = length records"
| "op_weight (Op_restart now_unix) = MAX_RUNS_PER_ORG"
| "op_weight op = 0"

definition weight :: "cloud_op list \<Rightarrow> nat" where
  "weight ops = sum_list (map op_weight ops)"

inductive cloud_run :: "incident_config \<Rightarrow> (string \<Rightarrow> nat list) \<Rightarrow> cloud_op list \<Rightarrow> store \<Rightarrow> bool"
  for cfg sha where
  start: "cloud_run cfg sha [] store_new"
| step: "cloud_run cfg sha ops st \<Longrightarrow> weight (ops @ [op]) \<le> U64_MAX \<Longrightarrow>
    cloud_run cfg sha (ops @ [op]) (apply_op cfg sha op st)"

inductive_cases cloud_runE: "cloud_run cfg sha ops st"

lemma weight_snoc [simp]: "weight [] = 0" "weight (ops @ [op]) = weight ops + op_weight op"
  by (simp_all add: weight_def)

section \<open>What the detectors leave alone\<close>

definition books_of where
  "books_of st =
     (st_orgs st, st_killed st, st_budgets st, st_unit_budgets st, st_series st, st_savings st, st_spend_days st,
      st_unit_months st, st_gateways st, st_decision_counts st, st_audit st, st_provider_failures st,
      st_org_totals st, st_run_recency st, st_break_recency st, st_devices st, st_pairings st, st_nonces st,
      st_activities st, st_dirty st)"

lemma books_ofD:
  assumes "books_of st' = books_of st"
  shows "st_orgs st' = st_orgs st" "st_killed st' = st_killed st" "st_budgets st' = st_budgets st"
    "st_unit_budgets st' = st_unit_budgets st" "st_series st' = st_series st" "st_savings st' = st_savings st"
    "st_spend_days st' = st_spend_days st" "st_unit_months st' = st_unit_months st"
    "st_gateways st' = st_gateways st" "st_decision_counts st' = st_decision_counts st"
    "st_audit st' = st_audit st" "st_provider_failures st' = st_provider_failures st"
    "st_org_totals st' = st_org_totals st" "st_run_recency st' = st_run_recency st"
    "st_break_recency st' = st_break_recency st" "st_devices st' = st_devices st"
    "st_pairings st' = st_pairings st" "st_nonces st' = st_nonces st" "st_activities st' = st_activities st"
    "st_dirty st' = st_dirty st"
  using assms by (simp_all add: books_of_def)

lemma raise_incident_books [simp]:
  "books_of (fst (snd (raise_incident org kind sev scope run_id agent_id ts p))) = books_of (fst p)"
  by (cases p) (simp add: raise_incident_def books_of_def split: prod.split)

lemma detect_stall_books [simp]: "books_of (detect_stall cfg org now r st) = books_of st"
  by (simp add: detect_stall_def books_of_def)

lemma books_of_updates [simp]:
  "books_of (st\<lparr>st_tracker := x1\<rparr>) = books_of st" "books_of (st\<lparr>st_fanout_tracker := x2\<rparr>) = books_of st"
  "books_of (st\<lparr>st_fanout_history := x3\<rparr>) = books_of st" "books_of (st\<lparr>st_fanout_active := x4\<rparr>) = books_of st"
  "books_of (st\<lparr>st_spike_active := x5\<rparr>) = books_of st" "books_of (st\<lparr>st_incidents := x6\<rparr>) = books_of st"
  "books_of (st\<lparr>st_stall := x7\<rparr>) = books_of st"
  by (simp_all add: books_of_def)

text \<open>The two halves of a raised incident, for the proofs about each detector.\<close>

lemma raise_incident_split:
  "raise_incident org kind sev scope run_id agent_id ts (st, al) =
     (let (inc, incs) = upsert_incident (st_incidents st) org kind sev scope run_id agent_id ts
      in (inc, st\<lparr>st_incidents := incs\<rparr>, al\<lparr>al_fired := AList.update (ic_id inc) inc (al_fired al)\<rparr>))"
  by (simp add: raise_incident_def)

lemma detect_budget_books [simp]: "books_of (fst (detect_budget cfg org now r p)) = books_of (fst p)"
  by (cases p) (simp add: detect_budget_def Let_def raise_incident_split split: prod.split)

lemma detect_loop_books [simp]: "books_of (fst (detect_loop cfg org now r p)) = books_of (fst p)"
  by (cases p) (simp add: detect_loop_def Let_def raise_incident_split split: prod.split)

lemma detect_fanout_books [simp]: "books_of (fst (detect_fanout cfg org now r p)) = books_of (fst p)"
  by (cases p) (simp add: detect_fanout_def Let_def raise_incident_split split: prod.split option.split)

lemma detect_threshold_books [simp]: "books_of (fst (detect_threshold cfg org now r p)) = books_of (fst p)"
  by (cases p) (simp add: detect_threshold_def Let_def raise_incident_split split: prod.split)

lemma detect_spike_books [simp]: "books_of (fst (detect_spike cfg org now p)) = books_of (fst p)"
  by (cases p) (simp add: detect_spike_def Let_def raise_incident_split split: prod.split)

lemma detect_record_books [simp]: "books_of (fst (detect_record cfg org now r p)) = books_of (fst p)"
  by (cases p) (simp add: detect_record_def)

lemma ingest_detect_books [simp]: "books_of (fst (ingest_detect cfg org rs now st)) = books_of st"
proof -
  have "books_of (fst (fold (detect_record cfg org now) rs p)) = books_of (fst p)" for p
    by (induction rs arbitrary: p) simp_all
  then show ?thesis by (simp add: ingest_detect_def)
qed

lemma ingest_at_from_books:
  "books_of (fst (ingest_at_from cfg org site rs now st)) = books_of (ingest_books cfg org site rs now st)"
proof -
  have "fst (ingest_at_from cfg org site rs now st) =
      fst (ingest_detect cfg org rs now (ingest_books cfg org site rs now st))"
    by (simp add: ingest_at_from_def Let_def split: prod.split)
  then show ?thesis by simp
qed

end
