(* ===== verification/Cloud_Bounds.thy ===== *)
theory Cloud_Bounds
  imports Cloud_Steps
begin

text \<open>
  The bounds every operation of the store keeps: the incident table of an org, the detectors'
  memories, and the whole store along any history.
\<close>

section \<open>Incidents\<close>

definition org_incidents_ok :: "string \<Rightarrow> (string, incident) table \<Rightarrow> bool" where
  "org_incidents_ok org m \<longleftrightarrow>
     table_ok m
     \<and> card {i \<in> keys m. \<not> is_provider_incident_id i} \<le> MAX_INCIDENTS_PER_ORG
     \<and> card {i \<in> keys m. counts_to_reserve i} \<le> MAX_PROVIDER_INCIDENTS_PER_ORG
     \<and> (\<forall>i inc. map_of m i = Some inc \<longrightarrow> ic_id inc = i \<and> ic_org inc = org)"

definition incidents_ok :: "(string, (string, incident) table) table \<Rightarrow> bool" where
  "incidents_ok incs \<longleftrightarrow> (\<forall>org. org_incidents_ok org (entry_or [] org incs))"

lemma length_filter_keys:
  assumes "table_ok m"
  shows "length (filter (\<lambda>(k, v). P k) m) = card {k \<in> keys m. P k}"
proof -
  have "keys (filter (\<lambda>(k, v). P k) m) = {k \<in> keys m. P k}" by (force simp: keys_def)
  with card_keys [of "filter (\<lambda>(k, v). P k) m"] assms show ?thesis by simp
qed

lemma oldest_incident_some:
  "oldest_incident P m = Some i \<Longrightarrow> \<exists>inc. (i, inc) \<in> set m \<and> P i inc"
proof -
  assume a: "oldest_incident P m = Some i"
  then obtain x xs where f: "filter (\<lambda>(i, inc). P i inc) m = x # xs"
    and i: "i = fst (arg_min_list (\<lambda>(i, inc). ic_last_seen inc) (x # xs))"
    by (auto simp: oldest_incident_def split: list.splits)
  define y where "y = arg_min_list (\<lambda>(i, inc). ic_last_seen inc) (x # xs)"
  have "y \<in> set (x # xs)" unfolding y_def by (rule arg_min_list_in) simp
  then have y: "y \<in> set (filter (\<lambda>(i, inc). P i inc) m)" by (simp only: f)
  obtain j inc where j: "y = (j, inc)" by fastforce
  have "i = j" using i j by (simp add: y_def [symmetric])
  with y j show ?thesis by auto
qed

lemma oldest_incident_none: "oldest_incident P m = None \<longleftrightarrow> (\<forall>(i, inc) \<in> set m. \<not> P i inc)"
proof -
  have "oldest_incident P m = None \<longleftrightarrow> filter (\<lambda>(i, inc). P i inc) m = []"
    by (simp add: oldest_incident_def split: list.split)
  then show ?thesis by (auto simp: filter_empty_conv)
qed

lemma card_keys_delete: "card {k \<in> keys (AList.delete i m). P k} \<le> card {k \<in> keys m. P k}"
  by (rule card_mono) auto

lemma org_incidents_nil [simp]: "org_incidents_ok org []"
  by (simp add: org_incidents_ok_def)

lemma org_incidents_delete: "org_incidents_ok org m \<Longrightarrow> org_incidents_ok org (AList.delete i m)"
  using card_keys_delete [of i m "\<lambda>i. \<not> is_provider_incident_id i"] card_keys_delete [of i m counts_to_reserve]
  unfolding org_incidents_ok_def by (simp del: keys_simps)

lemma make_room_ok:
  assumes "org_incidents_ok org m"
  shows "org_incidents_ok org (make_incident_room i m)"
    and "i \<notin> keys (make_incident_room i m) \<Longrightarrow>
      card {k \<in> keys (make_incident_room i m). \<not> is_provider_incident_id k} < MAX_INCIDENTS_PER_ORG"
proof -
  let ?o = "{k \<in> keys m. \<not> is_provider_incident_id k}"
  have t: "table_ok m" using assms by (simp add: org_incidents_ok_def)
  have le: "card ?o \<le> length m"
    using card_mono [of "keys m" ?o] t by (auto simp: card_keys)
  show "org_incidents_ok org (make_incident_room i m)"
    using assms org_incidents_delete by (simp add: make_incident_room_def split: option.split)
  assume n: "i \<notin> keys (make_incident_room i m)"
  show "card {k \<in> keys (make_incident_room i m). \<not> is_provider_incident_id k} < MAX_INCIDENTS_PER_ORG"
  proof (cases "map_of m i = None \<and> MAX_INCIDENTS_PER_ORG \<le> card ?o")
    case True
    with le have full: "MAX_INCIDENTS_PER_ORG \<le> length m" by simp
    show ?thesis
    proof (cases "oldest_incident (\<lambda>k inc. \<not> is_provider_incident_id k) m")
      case None
      then have "?o = {}" by (force simp: oldest_incident_none keys_def)
      with True show ?thesis by (simp add: MAX_INCIDENTS_PER_ORG_def)
    next
      case (Some e)
      then have "e \<in> ?o" by (force simp: keys_def dest: oldest_incident_some)
      then have "card (?o - {e}) < card ?o" by (intro psubset_card_mono) auto
      moreover have "{k \<in> keys (AList.delete e m). \<not> is_provider_incident_id k} = ?o - {e}" by auto
      ultimately show ?thesis
        using True full Some t assms by (simp add: make_incident_room_def length_filter_keys org_incidents_ok_def)
    qed
  next
    case False
    then have "make_incident_room i m = m" using t by (auto simp: make_incident_room_def length_filter_keys)
    with False n show ?thesis by (auto simp: keys_map_of)
  qed
qed

lemma incident_trip_fields [simp]:
  "ic_id (incident_trip sev ag ts i) = ic_id i" "ic_org (incident_trip sev ag ts i) = ic_org i"
  "ic_kind (incident_trip sev ag ts i) = ic_kind i"
  by (simp_all add: incident_trip_def)

lemma incident_new_fields [simp]:
  "ic_id (incident_new org kind sev scope run ag ts) = incident_id kind scope"
  "ic_org (incident_new org kind sev scope run ag ts) = org"
  by (simp_all add: incident_new_def)

lemma org_incidents_update:
  assumes "org_incidents_ok org m" and "ic_id inc = i" and "ic_org inc = org"
    and "i \<notin> keys m \<Longrightarrow> \<not> is_provider_incident_id i \<Longrightarrow>
      card {k \<in> keys m. \<not> is_provider_incident_id k} < MAX_INCIDENTS_PER_ORG"
    and "i \<notin> keys m \<Longrightarrow> counts_to_reserve i \<Longrightarrow>
      card {k \<in> keys m. counts_to_reserve k} < MAX_PROVIDER_INCIDENTS_PER_ORG"
  shows "org_incidents_ok org (AList.update i inc m)"
proof -
  have c: "card {k \<in> keys (AList.update i inc m). P k} \<le> (if i \<notin> keys m \<and> P i then Suc (card {k \<in> keys m. P k}) else card {k \<in> keys m. P k})" for P
  proof (cases "i \<notin> keys m \<and> P i")
    case True
    then have "{k \<in> keys (AList.update i inc m). P k} = insert i {k \<in> keys m. P k}" by auto
    with True show ?thesis by simp
  next
    case False
    then have "{k \<in> keys (AList.update i inc m). P k} = {k \<in> keys m. P k}" by auto
    then show ?thesis unfolding if_not_P [OF False] by simp
  qed
  show ?thesis
    using assms c [of "\<lambda>k. \<not> is_provider_incident_id k"] c [of counts_to_reserve]
    by (auto simp: org_incidents_ok_def split: if_splits)
qed

lemma incidents_okD: "incidents_ok incs \<Longrightarrow> org_incidents_ok org (entry_or [] org incs)"
  by (simp add: incidents_ok_def)

lemma incidents_ok_update: "incidents_ok incs \<Longrightarrow> org_incidents_ok org m \<Longrightarrow> incidents_ok (AList.update org m incs)"
  by (simp add: incidents_ok_def)

lemma entry_incident:
  assumes "org_incidents_ok org m"
  shows "ic_id (entry_or (incident_new org kind sev scope run ag ts) (incident_id kind scope) m) = incident_id kind scope"
    and "ic_org (entry_or (incident_new org kind sev scope run ag ts) (incident_id kind scope) m) = org"
  using assms by (auto simp: org_incidents_ok_def entry_or_def split: option.split)

lemma upsert_with_ok:
  assumes "incidents_ok incs"
    and "evicts = (\<not> is_provider_incident_id (incident_id kind scope))"
    and "\<not> evicts \<Longrightarrow> incident_id kind scope \<notin> keys (entry_or [] org incs) \<Longrightarrow> counts_to_reserve (incident_id kind scope) \<Longrightarrow>
      card {k \<in> keys (entry_or [] org incs). counts_to_reserve k} < MAX_PROVIDER_INCIDENTS_PER_ORG"
    and "upsert_incident_with incs org kind sev scope run ag ts evicts = (inc, incs')"
  shows "incidents_ok incs' \<and> ic_id inc = incident_id kind scope \<and> ic_org inc = org
    \<and> map_of (entry_or [] org incs') (incident_id kind scope) = Some inc
    \<and> (\<forall>other. other \<noteq> org \<longrightarrow> map_of incs' other = map_of incs other)"
proof -
  define m where "m = (if evicts then make_incident_room (incident_id kind scope) (entry_or [] org incs) else entry_or [] org incs)"
  have m: "org_incidents_ok org m" using incidents_okD [OF assms(1)] make_room_ok(1) by (simp add: m_def)
  have inc: "inc = incident_trip sev ag ts (entry_or (incident_new org kind sev scope run ag ts) (incident_id kind scope) m)"
    and incs': "incs' = AList.update org (AList.update (incident_id kind scope) inc m) incs"
    using assms(4) by (auto simp: upsert_incident_with_def m_def Let_def)
  have nr: "\<not> is_provider_incident_id i \<Longrightarrow> \<not> counts_to_reserve i" for i by (simp add: counts_to_reserve_def)
  have "org_incidents_ok org (AList.update (incident_id kind scope) inc m)"
  proof (rule org_incidents_update [OF m])
    show "ic_id inc = incident_id kind scope" "ic_org inc = org" by (simp_all add: inc entry_incident [OF m])
  next
    assume "incident_id kind scope \<notin> keys m" "\<not> is_provider_incident_id (incident_id kind scope)"
    then show "card {k \<in> keys m. \<not> is_provider_incident_id k} < MAX_INCIDENTS_PER_ORG"
      using make_room_ok(2) [OF incidents_okD [OF assms(1)]] assms(2) by (simp add: m_def)
  next
    assume "incident_id kind scope \<notin> keys m" "counts_to_reserve (incident_id kind scope)"
    then show "card {k \<in> keys m. counts_to_reserve k} < MAX_PROVIDER_INCIDENTS_PER_ORG"
      using assms(2,3) nr by (auto simp: m_def)
  qed
  with assms(1) show ?thesis
    by (simp add: incs' incidents_ok_update inc entry_incident [OF m])
qed

lemma upsert_incident_ok:
  assumes "incidents_ok incs" and "\<not> is_provider_incident_id (incident_id kind scope)"
    and "upsert_incident incs org kind sev scope run ag ts = (inc, incs')"
  shows "incidents_ok incs' \<and> ic_id inc = incident_id kind scope \<and> ic_org inc = org
    \<and> map_of (entry_or [] org incs') (incident_id kind scope) = Some inc
    \<and> (\<forall>other. other \<noteq> org \<longrightarrow> map_of incs' other = map_of incs other)"
  using assms upsert_with_ok [OF assms(1), of True kind scope org sev run ag ts inc incs']
  by (simp add: upsert_incident_def)

lemma own_kinds [simp]:
  "\<not> is_provider_incident_id (incident_id ''budget_exhausted'' scope)"
  "\<not> is_provider_incident_id (incident_id ''sustained_loop'' scope)"
  "\<not> is_provider_incident_id (incident_id ''fanout_explosion'' scope)"
  "\<not> is_provider_incident_id (incident_id ''budget_threshold'' scope)"
  "\<not> is_provider_incident_id (incident_id ''spend_spike'' scope)"
  "\<not> is_provider_incident_id (incident_id ''run_stalled'' scope)"
  by (simp_all add: is_provider_incident_id_def incident_id_def starts_with_def PROVIDER_ID_PREFIX_def)

lemma raise_incident_ok:
  assumes "incidents_ok (st_incidents (fst p))" and "\<not> is_provider_incident_id (incident_id kind scope)"
  shows "incidents_ok (st_incidents (fst (snd (raise_incident org kind sev scope run ag ts p))))"
proof (cases p)
  case (Pair st al)
  obtain inc incs where u: "upsert_incident (st_incidents st) org kind sev scope run ag ts = (inc, incs)" by fastforce
  with upsert_incident_ok [OF _ assms(2) u] assms(1) Pair show ?thesis by (simp add: raise_incident_split)
qed

section \<open>The detectors' memories\<close>

definition memory_ok :: "nat \<Rightarrow> ('v \<Rightarrow> bool) \<Rightarrow> 'v keyed \<Rightarrow> bool" where
  "memory_ok n P t \<longleftrightarrow>
     in_step MAX_TRACKER_KEYS (fst t) (snd t) \<and> recency_room (snd t) n \<and> (\<forall>k v. map_of (fst t) k = Some v \<longrightarrow> P v)"

lemma memory_less: "memory_ok (Suc n) P t \<Longrightarrow> memory_ok n P t"
  by (auto simp: memory_ok_def recency_room_def)

lemma memory_admit:
  assumes "memory_ok (Suc n) P (m, ix)" and "admit_key MAX_TRACKER_KEYS key m ix = (m', ix')"
  shows "P v \<Longrightarrow> memory_ok n P (AList.update key v m', ix')"
    and "P d \<Longrightarrow> P (entry_or d key m')"
proof -
  have a: "in_step MAX_TRACKER_KEYS (AList.update key w m') ix' \<and> recency_room ix' n
      \<and> (\<forall>k. map_of m' k \<noteq> None \<longrightarrow> map_of m' k = map_of m k)" for w
    using admit_in_step [OF _ _ _ assms(2), of n w] assms(1) by (simp add: memory_ok_def MAX_TRACKER_KEYS_def)
  have old: "P w" if "map_of m' k = Some w" for k w
  proof -
    have "map_of m' k = map_of m k" using a [of w] that by blast
    then have "map_of m k = Some w" using that by simp
    with assms(1) show ?thesis unfolding memory_ok_def fst_conv by blast
  qed
  show "P v \<Longrightarrow> memory_ok n P (AList.update key v m', ix')"
    using a [of v] old by (auto simp: memory_ok_def)
  show "P d \<Longrightarrow> P (entry_or d key m')"
    using old by (auto simp: entry_or_def split: option.split)
qed

abbreviation short :: "'a list \<Rightarrow> bool" where
  "short dq \<equiv> length dq \<le> INCIDENT_TRACKER_CAP"

lemma bump_tracker_ok:
  assumes "memory_ok (Suc n) short t" and "bump_tracker t org kind scope ts window = (c, t')"
  shows "memory_ok n short t'"
proof -
  obtain m ix where t: "t = (m, ix)" by fastforce
  obtain m1 ix1 where a: "admit_key MAX_TRACKER_KEYS (org, incident_id kind scope) m ix = (m1, ix1)" by fastforce
  have drop: "short (dropWhile Q (keep_last INCIDENT_TRACKER_CAP q))" for Q and q :: "int list"
    by (rule le_trans [OF length_dropWhile_le]) simp
  show ?thesis
    using memory_admit(1) [OF assms(1) [unfolded t] a] assms(2) drop
    by (auto simp: bump_tracker_def t a Let_def split: option.splits)
qed

lemma note_call_ok:
  assumes "memory_ok (Suc n) (\<lambda>v. True) t"
  shows "memory_ok n (\<lambda>v. True) (note_call_for_stall t org run ts ended)"
proof -
  obtain m ix where t: "t = (m, ix)" by fastforce
  obtain m1 ix1 where a: "admit_key MAX_TRACKER_KEYS (org, run) m ix = (m1, ix1)" by fastforce
  show ?thesis
    using memory_admit(1) [OF assms [unfolded t] a]
    by (simp add: note_call_for_stall_def t a on_entry_def)
qed

lemma bump_fanout_ok:
  assumes "memory_ok (Suc n) short t" and "bump_fanout_tracker t org agent run ts now w = (c, t')"
  shows "memory_ok n short t'"
proof -
  obtain m ix where t: "t = (m, ix)" by fastforce
  obtain m1 ix1 where a: "admit_key MAX_TRACKER_KEYS (org, agent) m ix = (m1, ix1)" by fastforce
  have f: "short (filter Q (keep_last INCIDENT_TRACKER_CAP q))" for Q and q :: "(string \<times> int) list"
    by (rule le_trans [OF length_filter_le]) simp
  show ?thesis
    using memory_admit(1) [OF assms(1) [unfolded t] a] assms(2) f
    by (auto simp: bump_fanout_tracker_def t a Let_def)
qed

definition detectors_ok :: "nat \<Rightarrow> store \<Rightarrow> bool" where
  "detectors_ok n st \<longleftrightarrow>
     memory_ok n short (st_tracker st) \<and> memory_ok n short (st_fanout_tracker st)
     \<and> memory_ok n (\<lambda>v. True) (st_stall st) \<and> incidents_ok (st_incidents st)"

lemma raise_incident_memories [simp]:
  "st_tracker (fst (snd (raise_incident org kind sev scope run ag ts p))) = st_tracker (fst p)"
  "st_fanout_tracker (fst (snd (raise_incident org kind sev scope run ag ts p))) = st_fanout_tracker (fst p)"
  "st_stall (fst (snd (raise_incident org kind sev scope run ag ts p))) = st_stall (fst p)"
  by (cases p; simp add: raise_incident_def split: prod.split)+


lemma detect_stall_ok: "detectors_ok (Suc n) st \<Longrightarrow>
    memory_ok (Suc n) short (st_tracker (detect_stall cfg org now r st))
    \<and> memory_ok (Suc n) short (st_fanout_tracker (detect_stall cfg org now r st))
    \<and> memory_ok n (\<lambda>v. True) (st_stall (detect_stall cfg org now r st))
    \<and> incidents_ok (st_incidents (detect_stall cfg org now r st))"
  by (auto simp: detectors_ok_def detect_stall_def intro: note_call_ok memory_less)

text \<open>Each detector keeps the incident table, and leaves the other memories alone.\<close>

lemma detect_budget_ok:
  assumes "incidents_ok (st_incidents (fst p))" and "memory_ok (Suc n) short (st_tracker (fst p))"
  shows "incidents_ok (st_incidents (fst (detect_budget cfg org now r p)))"
    and "memory_ok n short (st_tracker (fst (detect_budget cfg org now r p)))"
    and "cl_decision r \<noteq> BUDGET_BLOCK_DECISION \<Longrightarrow> detect_budget cfg org now r p = p"
    and "st_fanout_tracker (fst (detect_budget cfg org now r p)) = st_fanout_tracker (fst p)"
    and "st_stall (fst (detect_budget cfg org now r p)) = st_stall (fst p)"
proof -
  obtain st al where p: "p = (st, al)" by fastforce
  obtain c t where b: "bump_tracker (st_tracker st) org ''budget_exhausted'' (cl_run_id r) (record_time now r) None = (c, t)"
    by (rule prod.exhaust)
  define q where "q = raise_incident org ''budget_exhausted'' (severity_from_magnitude Sev_high c (cf_budget_blocks cfg))
      (cl_run_id r) (Some (cl_run_id r)) (record_agent r) (record_time now r) (st\<lparr>st_tracker := t\<rparr>, al)"
  have d: "fst (detect_budget cfg org now r p) =
      (if cl_decision r = BUDGET_BLOCK_DECISION
       then if cf_budget_blocks cfg \<le> c then fst (snd q) else st\<lparr>st_tracker := t\<rparr>
       else st)"
    by (simp add: detect_budget_def p b q_def Let_def split: prod.split)
  have t: "memory_ok n short t" using bump_tracker_ok [OF _ b] assms(2) p by simp
  show "incidents_ok (st_incidents (fst (detect_budget cfg org now r p)))"
    unfolding d q_def using assms(1) p by (simp add: raise_incident_ok)
  show "memory_ok n short (st_tracker (fst (detect_budget cfg org now r p)))"
    unfolding d q_def using t memory_less [OF assms(2)] p by simp
  show "cl_decision r \<noteq> BUDGET_BLOCK_DECISION \<Longrightarrow> detect_budget cfg org now r p = p"
    by (simp add: detect_budget_def p)
  show "st_fanout_tracker (fst (detect_budget cfg org now r p)) = st_fanout_tracker (fst p)"
    "st_stall (fst (detect_budget cfg org now r p)) = st_stall (fst p)"
    unfolding d q_def using p by simp_all
qed

lemma detect_loop_ok:
  assumes "incidents_ok (st_incidents (fst p))" and "memory_ok (Suc n) short (st_tracker (fst p))"
  shows "incidents_ok (st_incidents (fst (detect_loop cfg org now r p)))"
    and "memory_ok n short (st_tracker (fst (detect_loop cfg org now r p)))"
proof -
  obtain st al where p: "p = (st, al)" by fastforce
  obtain c t where b: "bump_tracker (st_tracker st) org ''sustained_loop'' (cl_run_id r) (record_time now r)
      (Some (now, cf_loop_window_ms cfg)) = (c, t)" by (rule prod.exhaust)
  define q where "q = raise_incident org ''sustained_loop'' (severity_from_magnitude Sev_medium c (cf_loop_repeats cfg))
      (cl_run_id r) (Some (cl_run_id r)) (record_agent r) (record_time now r) (st\<lparr>st_tracker := t\<rparr>, al)"
  have d: "fst (detect_loop cfg org now r p) =
      (if is_known_decision (cl_decision r) \<and> cl_decision r = ''loop_detected''
       then if cf_loop_repeats cfg \<le> c then fst (snd q) else st\<lparr>st_tracker := t\<rparr>
       else st)"
    unfolding detect_loop_def p prod.case b Let_def q_def by (simp only: if_distrib [where f = fst] fst_conv)
  have t: "memory_ok n short t" using bump_tracker_ok [OF _ b] assms(2) p by simp
  show "incidents_ok (st_incidents (fst (detect_loop cfg org now r p)))"
    unfolding d q_def using assms(1) p by (simp add: raise_incident_ok)
  show "memory_ok n short (st_tracker (fst (detect_loop cfg org now r p)))"
    unfolding d q_def using t memory_less [OF assms(2)] p by simp
qed

lemma detect_loop_frame:
  "cl_decision r \<noteq> ''loop_detected'' \<Longrightarrow> detect_loop cfg org now r p = p"
  "st_fanout_tracker (fst (detect_loop cfg org now r p)) = st_fanout_tracker (fst p)"
  "st_stall (fst (detect_loop cfg org now r p)) = st_stall (fst p)"
  by (cases p; simp add: detect_loop_def Let_def raise_incident_split split: prod.split)+

lemma detect_fanout_ok:
  assumes "incidents_ok (st_incidents (fst p))" and "memory_ok (Suc n) short (st_fanout_tracker (fst p))"
  shows "incidents_ok (st_incidents (fst (detect_fanout cfg org now r p)))"
    and "memory_ok n short (st_fanout_tracker (fst (detect_fanout cfg org now r p)))"
    and "st_tracker (fst (detect_fanout cfg org now r p)) = st_tracker (fst p)"
    and "st_stall (fst (detect_fanout cfg org now r p)) = st_stall (fst p)"
proof -
  obtain st al where p: "p = (st, al)" by fastforce
  have "incidents_ok (st_incidents (fst (detect_fanout cfg org now r p)))
    \<and> memory_ok n short (st_fanout_tracker (fst (detect_fanout cfg org now r p)))
    \<and> st_tracker (fst (detect_fanout cfg org now r p)) = st_tracker (fst p)
    \<and> st_stall (fst (detect_fanout cfg org now r p)) = st_stall (fst p)"
  proof (cases "record_agent r")
    case None
    with assms memory_less p show ?thesis by (simp add: detect_fanout_def)
  next
    case (Some a)
    obtain c t where b: "bump_fanout_tracker (st_fanout_tracker st) org a (cl_run_id r) (record_time now r) now
        (cf_fanout_window_ms cfg) = (c, t)" by (rule prod.exhaust)
    obtain bl cp h where f: "fanout_baseline (st_fanout_history st) org a (record_time now r) (cf_fanout_window_ms cfg) c
        = ((bl, cp), h)" by (metis prod.exhaust)
    have t: "memory_ok n short t" using bump_fanout_ok [OF _ b] assms(2) p by simp
    have u: "incidents_ok incs'"
      if "upsert_incident (st_incidents st) org ''fanout_explosion'' sev a None (Some a) ts = (inc, incs')" for sev ts inc incs'
      using upsert_incident_ok [OF _ _ that] assms(1) p by simp
    show ?thesis
      using assms(1) t u p
      by (auto simp: detect_fanout_def Some b f Let_def raise_incident_split split: prod.split)
  qed
  then show "incidents_ok (st_incidents (fst (detect_fanout cfg org now r p)))"
    "memory_ok n short (st_fanout_tracker (fst (detect_fanout cfg org now r p)))"
    "st_tracker (fst (detect_fanout cfg org now r p)) = st_tracker (fst p)"
    "st_stall (fst (detect_fanout cfg org now r p)) = st_stall (fst p)" by simp_all
qed

lemma detect_threshold_eq:
  "\<exists>incs. incs \<in> {st_incidents st, snd (upsert_incident (st_incidents st) org ''budget_threshold'' Sev_medium
      (cl_run_id r) (Some (cl_run_id r)) (record_agent r) (record_time now r))}
    \<and> fst (detect_threshold cfg org now r (st, al)) = st\<lparr>st_incidents := incs\<rparr>"
proof -
  obtain inc incs where u: "upsert_incident (st_incidents st) org ''budget_threshold'' Sev_medium
      (cl_run_id r) (Some (cl_run_id r)) (record_agent r) (record_time now r) = (inc, incs)" by (rule prod.exhaust)
  have "fst (detect_threshold cfg org now r (st, al)) \<in> {st, st\<lparr>st_incidents := incs\<rparr>}"
    unfolding detect_threshold_def prod.case raise_incident_split u Let_def
    by (simp only: if_distrib [where f = fst] fst_conv prod.case) simp
  then show ?thesis unfolding u by auto
qed

lemma detect_threshold_ok:
  assumes "incidents_ok (st_incidents (fst p))"
  shows "incidents_ok (st_incidents (fst (detect_threshold cfg org now r p)))"
    and "st_tracker (fst (detect_threshold cfg org now r p)) = st_tracker (fst p)"
    and "st_fanout_tracker (fst (detect_threshold cfg org now r p)) = st_fanout_tracker (fst p)"
    and "st_stall (fst (detect_threshold cfg org now r p)) = st_stall (fst p)"
proof -
  obtain st al where p: "p = (st, al)" by fastforce
  obtain incs where i: "incs \<in> {st_incidents st, snd (upsert_incident (st_incidents st) org ''budget_threshold'' Sev_medium
      (cl_run_id r) (Some (cl_run_id r)) (record_agent r) (record_time now r))}"
    and d: "fst (detect_threshold cfg org now r p) = st\<lparr>st_incidents := incs\<rparr>"
    using detect_threshold_eq [of st org r now cfg al] p by blast
  show "incidents_ok (st_incidents (fst (detect_threshold cfg org now r p)))"
    using i assms p upsert_incident_ok [OF _ own_kinds(4) surjective_pairing] unfolding d by auto
  show "st_tracker (fst (detect_threshold cfg org now r p)) = st_tracker (fst p)"
    "st_fanout_tracker (fst (detect_threshold cfg org now r p)) = st_fanout_tracker (fst p)"
    "st_stall (fst (detect_threshold cfg org now r p)) = st_stall (fst p)"
    unfolding d using p by simp_all
qed

lemma detect_spike_eq:
  "\<exists>incs act sev. incs \<in> {st_incidents st, snd (upsert_incident (st_incidents st) org ''spend_spike'' sev [] None None now)}
    \<and> fst (detect_spike cfg org now (st, al)) = st\<lparr>st_incidents := incs, st_spike_active := act\<rparr>"
proof -
  obtain burn bl hist where v: "spike_view cfg now (map_of (st_series st) org) = (burn, bl, hist)" by (metis prod.exhaust)
  define spiking where "spiking = (hist \<and> burn \<ge> cf_spend_per_min_micros cfg \<and> burn \<ge> sat_i64 (bl * cf_spike_multiple cfg))"
  define was where "was = entry_or False org (st_spike_active st)"
  define sev where "sev = severity_from_magnitude Sev_high (nat (max 0 burn))
      (nat (max 0 (max (cf_spend_per_min_micros cfg) (sat_i64 (bl * cf_spike_multiple cfg)))))"
  obtain inc incs where u: "upsert_incident (st_incidents st) org ''spend_spike'' sev [] None None now = (inc, incs)"
    by (rule prod.exhaust)
  define st1 where "st1 = (if spiking \<and> \<not> was then st\<lparr>st_incidents := incs\<rparr> else st)"
  have "fst (detect_spike cfg org now (st, al)) =
      (if spiking \<noteq> was then st1\<lparr>st_spike_active := AList.update org spiking (st_spike_active st1)\<rparr> else st1)"
    unfolding detect_spike_def prod.case v Let_def raise_incident_split spiking_def [symmetric] was_def [symmetric]
      sev_def [symmetric] u st1_def
    by (cases "spiking \<and> \<not> was") (simp_all only: if_True if_False prod.case fst_conv not_False_eq_True simp_thms)
  then have "fst (detect_spike cfg org now (st, al)) = st\<lparr>st_incidents := st_incidents st1,
      st_spike_active := if spiking \<noteq> was then AList.update org spiking (st_spike_active st1) else st_spike_active st1\<rparr>"
    by (simp add: st1_def)
  moreover have "st_incidents st1 \<in> {st_incidents st, snd (upsert_incident (st_incidents st) org ''spend_spike'' sev [] None None now)}"
    by (simp add: st1_def u)
  ultimately show ?thesis by blast
qed

lemma detect_spike_ok:
  assumes "incidents_ok (st_incidents (fst p))"
  shows "incidents_ok (st_incidents (fst (detect_spike cfg org now p)))"
    and "st_tracker (fst (detect_spike cfg org now p)) = st_tracker (fst p)"
    and "st_fanout_tracker (fst (detect_spike cfg org now p)) = st_fanout_tracker (fst p)"
    and "st_stall (fst (detect_spike cfg org now p)) = st_stall (fst p)"
proof -
  obtain st al where p: "p = (st, al)" by fastforce
  obtain incs act sev where i: "incs \<in> {st_incidents st, snd (upsert_incident (st_incidents st) org ''spend_spike'' sev [] None None now)}"
    and d: "fst (detect_spike cfg org now p) = st\<lparr>st_incidents := incs, st_spike_active := act\<rparr>"
    using detect_spike_eq [of st org now cfg al] p by blast
  show "incidents_ok (st_incidents (fst (detect_spike cfg org now p)))"
    using i assms p upsert_incident_ok [OF _ own_kinds(5) surjective_pairing] unfolding d by auto
  show "st_tracker (fst (detect_spike cfg org now p)) = st_tracker (fst p)"
    "st_fanout_tracker (fst (detect_spike cfg org now p)) = st_fanout_tracker (fst p)"
    "st_stall (fst (detect_spike cfg org now p)) = st_stall (fst p)"
    unfolding d using p by simp_all
qed

lemma detect_record_ok:
  assumes "detectors_ok (Suc n) (fst p)"
  shows "detectors_ok n (fst (detect_record cfg org now r p))"
proof -
  obtain st al where p: "p = (st, al)" by fastforce
  define p1 where "p1 = (detect_stall cfg org now r st, al)"
  define p2 where "p2 = detect_budget cfg org now r p1"
  define p3 where "p3 = detect_loop cfg org now r p2"
  define p4 where "p4 = detect_fanout cfg org now r p3"
  have s1: "memory_ok (Suc n) short (st_tracker (fst p1))" "memory_ok (Suc n) short (st_fanout_tracker (fst p1))"
      "memory_ok n (\<lambda>v. True) (st_stall (fst p1))" "incidents_ok (st_incidents (fst p1))"
    using detect_stall_ok [of n st] assms by (simp_all add: p p1_def)
  note b = detect_budget_ok [OF s1(4,1), where cfg = cfg and org = org and now = now and r = r, folded p2_def]
  have s3: "memory_ok n short (st_tracker (fst p3))" "incidents_ok (st_incidents (fst p3))"
  proof -
    show "incidents_ok (st_incidents (fst p3))"
      using detect_loop_ok(1) [OF b(1)] detect_loop_frame(1) [of r] b(1,3) s1(1)
      by (cases "cl_decision r = BUDGET_BLOCK_DECISION") (auto simp: p3_def BUDGET_BLOCK_DECISION_def)
    show "memory_ok n short (st_tracker (fst p3))"
      using detect_loop_ok(2) [of p2 n] detect_loop_frame(1) [of r] b(1,2,3) s1(1)
      by (cases "cl_decision r = BUDGET_BLOCK_DECISION") (auto simp: p3_def BUDGET_BLOCK_DECISION_def)
  qed
  have f3: "memory_ok (Suc n) short (st_fanout_tracker (fst p3))" "memory_ok n (\<lambda>v. True) (st_stall (fst p3))"
    using s1 b(4,5) by (simp_all add: p3_def detect_loop_frame)
  note f = detect_fanout_ok [OF s3(2) f3(1), where cfg = cfg and org = org and now = now and r = r, folded p4_def]
  have "detect_record cfg org now r p = detect_threshold cfg org now r p4"
    by (simp add: detect_record_def p p1_def p2_def p3_def p4_def)
  with detect_threshold_ok [OF f(1), where cfg = cfg and org = org and now = now and r = r] f s3 f3 show ?thesis
    by (simp add: detectors_ok_def)
qed

lemma ingest_detect_ok:
  assumes "detectors_ok (n + length rs) st"
  shows "detectors_ok n (fst (ingest_detect cfg org rs now st))"
proof -
  have "detectors_ok (n + length rs) (fst p) \<Longrightarrow> detectors_ok n (fst (fold (detect_record cfg org now) rs p))" for p
  proof (induction rs arbitrary: p)
    case (Cons r rs)
    from Cons.IH [OF detect_record_ok] Cons.prems show ?case by simp
  qed simp
  then have "detectors_ok n (fst (fold (detect_record cfg org now) rs (st, no_alarms)))" using assms by simp
  then show ?thesis using detect_spike_ok by (simp add: ingest_detect_def detectors_ok_def)
qed

end
