(* ===== verification/Cloud_Invariant.thy ===== *)
theory Cloud_Invariant
  imports Cloud_Bounds
begin

text \<open>
  The invariant of the store: every table of every org within its bound, the indexes in step with
  the tables they bound, every device keyed by a digest. Every operation keeps it, so it holds along
  every history.
\<close>

definition org_ok :: "nat \<Rightarrow> store \<Rightarrow> string \<Rightarrow> bool" where
  "org_ok n st org \<longleftrightarrow>
     runs_ok n (entry_or [] org (st_orgs st)) (entry_or recency_new org (st_run_recency st))
     \<and> breaks_ok n (entry_or savings_totals_new org (st_savings st)) (entry_or recency_new org (st_break_recency st))
     \<and> totals_ok (entry_or org_totals_new org (st_org_totals st))
     \<and> decisions_ok (entry_or [] org (st_decision_counts st))
     \<and> capped MAX_UNIT_MONTH_KEYS UNASSIGNED (entry_or [] org (st_unit_months st))
     \<and> days_ok (entry_or [] org (st_spend_days st))
     \<and> capped MAX_GATEWAYS_PER_ORG UNNAMED (entry_or [] org (st_gateways st))
     \<and> length (entry_or [] org (st_series st)) \<le> SERIES_CAP"

definition devices_ok :: "(string, device) table \<Rightarrow> bool" where
  "devices_ok ds \<longleftrightarrow> table_ok ds \<and> (\<forall>key \<in> keys ds. starts_with ''sha256:'' key)"

definition providers_ok :: "(string, (string, (string, (int \<times> nat) list) table) table) table \<Rightarrow> bool" where
  "providers_ok pf \<longleftrightarrow>
     (\<forall>org site. capped MAX_PROVIDERS_PER_ORG PROVIDER_OVERFLOW_BUCKET (entry_or [] site (entry_or [] org pf)))"

definition nonces_ok :: "(string, (string \<times> int) list) table \<Rightarrow> bool" where
  "nonces_ok ns \<longleftrightarrow>
     table_ok ns \<and> (\<forall>dev. length (entry_or [] dev ns) \<le> NONCE_CAP \<and> distinct (map fst (entry_or [] dev ns)))"

definition store_ok :: "nat \<Rightarrow> store \<Rightarrow> bool" where
  "store_ok n st \<longleftrightarrow>
     (\<forall>org. org_ok n st org) \<and> detectors_ok n st
     \<and> devices_ok (st_devices st) \<and> providers_ok (st_provider_failures st) \<and> nonces_ok (st_nonces st)
     \<and> table_ok (st_savings st) \<and> keys (st_orgs st) \<subseteq> keys (st_org_totals st)"

lemma room_new: "n \<le> U64_MAX \<Longrightarrow> recency_room recency_new n"
  by (simp add: recency_room_def recency_new_def)

lemma store_ok_new: "n \<le> U64_MAX \<Longrightarrow> store_ok n store_new"
  by (simp add: store_ok_def org_ok_def store_new_def runs_ok_def breaks_ok_def savings_totals_new_def
      totals_ok_def org_totals_new_def decisions_ok_def days_ok_def detectors_ok_def memory_ok_def incidents_ok_def
      devices_ok_def providers_ok_def nonces_ok_def room_new)

lemma room_less: "recency_room ix (n + m) \<Longrightarrow> recency_room ix n"
  by (simp add: recency_room_def)

lemma store_ok_less: "store_ok (n + m) st \<Longrightarrow> store_ok n st"
  by (auto simp: store_ok_def org_ok_def runs_ok_def breaks_ok_def detectors_ok_def memory_ok_def intro: room_less)

text \<open>What does not move the accounts keeps the invariant as long as its own field stays right.\<close>

lemma org_ok_cong:
  "st_orgs st' = st_orgs st \<Longrightarrow> st_run_recency st' = st_run_recency st \<Longrightarrow> st_savings st' = st_savings st \<Longrightarrow>
   st_break_recency st' = st_break_recency st \<Longrightarrow> st_org_totals st' = st_org_totals st \<Longrightarrow>
   st_decision_counts st' = st_decision_counts st \<Longrightarrow> st_unit_months st' = st_unit_months st \<Longrightarrow>
   st_spend_days st' = st_spend_days st \<Longrightarrow> st_gateways st' = st_gateways st \<Longrightarrow> st_series st' = st_series st \<Longrightarrow>
   org_ok n st' org = org_ok n st org"
  by (simp add: org_ok_def)

definition accounts_of where
  "accounts_of st = (st_orgs st, st_run_recency st, st_savings st, st_break_recency st, st_org_totals st,
     st_decision_counts st, st_unit_months st, st_spend_days st, st_gateways st, st_series st)"

definition memories_of where
  "memories_of st = (st_tracker st, st_fanout_tracker st, st_stall st)"

lemma store_ok_frame:
  assumes "store_ok n st" and "accounts_of st' = accounts_of st" and "memories_of st' = memories_of st"
    and "incidents_ok (st_incidents st')" and "devices_ok (st_devices st')"
    and "providers_ok (st_provider_failures st')" and "nonces_ok (st_nonces st')"
  shows "store_ok n st'"
  using assms org_ok_cong [of st' st n]
  by (simp add: store_ok_def accounts_of_def memories_of_def detectors_ok_def)

lemma store_okD:
  assumes "store_ok n st"
  shows "org_ok n st org" "detectors_ok n st" "incidents_ok (st_incidents st)" "devices_ok (st_devices st)"
    "providers_ok (st_provider_failures st)" "nonces_ok (st_nonces st)"
  using assms by (simp_all add: store_ok_def detectors_ok_def)

section \<open>A push\<close>

lemma borrow_ok: "org_ok n st org \<Longrightarrow> org_books_ok n (borrow_org org now st)"
  by (simp add: org_ok_def org_books_ok_def borrow_org_def drop_old_days_ok)

lemma org_books_gateway [simp]: "org_books_ok n (g\<lparr>og_gateway := x\<rparr>) = org_books_ok n g"
  by (simp add: org_books_ok_def)

lemma gateway_capped:
  "capped MAX_GATEWAYS_PER_ORG UNNAMED gs \<Longrightarrow>
     capped MAX_GATEWAYS_PER_ORG UNNAMED (AList.update (gateway_key site gs) g gs)"
  using capped_entry [of MAX_GATEWAYS_PER_ORG UNNAMED gs "gateway_key site gs" "the site" g "\<lambda>x. g"]
  by (auto simp: gateway_key_def on_entry_def split: option.splits if_splits)

lemma ingest_books_ok:
  assumes "store_ok (n + length rs) st"
  shows "\<And>o'. org_ok n (ingest_books cfg org site rs now st) o'"
    and "table_ok (st_savings (ingest_books cfg org site rs now st))"
    and "keys (st_orgs (ingest_books cfg org site rs now st)) \<subseteq> keys (st_org_totals (ingest_books cfg org site rs now st))"
    and "memories_of (ingest_books cfg org site rs now st) = memories_of st"
    and "st_incidents (ingest_books cfg org site rs now st) = st_incidents st"
    and "st_devices (ingest_books cfg org site rs now st) = st_devices st"
    and "st_provider_failures (ingest_books cfg org site rs now st) = st_provider_failures st"
    and "st_nonces (ingest_books cfg org site rs now st) = st_nonces st"
proof -
  define gs where "gs = entry_or [] org (st_gateways st)"
  define g where "g = ingest_records (cf_over_line cfg) (map_of (st_budgets st) org) site (month_key now) rs
      ((borrow_org org now st)\<lparr>og_gateway := gateway_push now (entry_or gateway_acc_new (gateway_key site gs) gs)\<rparr>)"
  have e: "ingest_books cfg org site rs now st =
     st\<lparr>st_orgs := AList.update org (og_runs g) (st_orgs st),
        st_savings := AList.update org (og_sav g) (st_savings st),
        st_decision_counts := AList.update org (og_decisions g) (st_decision_counts st),
        st_org_totals := AList.update org (og_totals g) (st_org_totals st),
        st_run_recency := AList.update org (og_recency g) (st_run_recency st),
        st_break_recency := AList.update org (og_break_recency g) (st_break_recency st),
        st_unit_months := AList.update org (og_unit_months g) (st_unit_months st),
        st_spend_days := AList.update org (og_spend_days g) (st_spend_days st),
        st_gateways := AList.update org (AList.update (gateway_key site gs) (og_gateway g) gs) (st_gateways st),
        st_series := on_entry [] org (push_samples rs) (st_series st), st_dirty := True\<rparr>"
    by (simp add: ingest_books_def gs_def g_def Let_def)
  have gok: "org_books_ok n g"
    unfolding g_def by (rule ingest_records_ok) (use borrow_ok [OF store_okD(1) [OF assms]] in simp)
  have less: "org_ok n st o'" for o' using store_okD(1) [OF store_ok_less [OF assms]] .
  have cap: "capped MAX_GATEWAYS_PER_ORG UNNAMED gs" using less [of org] by (simp add: gs_def org_ok_def)
  show "org_ok n (ingest_books cfg org site rs now st) o'" for o'
  proof (cases "o' = org")
    case True
    then show ?thesis
      using gok gateway_capped [OF cap] by (simp add: e org_ok_def org_books_ok_def push_samples_def)
  next
    case False
    then show ?thesis using less [of o'] by (simp add: e org_ok_def)
  qed
  show "table_ok (st_savings (ingest_books cfg org site rs now st))"
    "keys (st_orgs (ingest_books cfg org site rs now st)) \<subseteq> keys (st_org_totals (ingest_books cfg org site rs now st))"
    using assms by (auto simp: e store_ok_def)
  show "memories_of (ingest_books cfg org site rs now st) = memories_of st"
    "st_incidents (ingest_books cfg org site rs now st) = st_incidents st"
    "st_devices (ingest_books cfg org site rs now st) = st_devices st"
    "st_provider_failures (ingest_books cfg org site rs now st) = st_provider_failures st"
    "st_nonces (ingest_books cfg org site rs now st) = st_nonces st"
    by (simp_all add: e memories_of_def)
qed

lemma ingest_ok:
  assumes "store_ok (n + length rs) st"
  shows "store_ok n (fst (ingest_at_from cfg org site rs now st))"
proof -
  define b where "b = ingest_books cfg org site rs now st"
  note bk = ingest_books_ok [OF assms, where cfg = cfg and org = org and site = site and now = now, folded b_def]
  have f: "fst (ingest_at_from cfg org site rs now st) = fst (ingest_detect cfg org rs now b)"
    by (simp add: ingest_at_from_def b_def Let_def split: prod.split)
  have "detectors_ok (n + length rs) b"
    using store_okD(2) [OF assms] bk(4,5) by (simp add: detectors_ok_def memories_of_def)
  then have d: "detectors_ok n (fst (ingest_detect cfg org rs now b))" by (rule ingest_detect_ok)
  note fr = books_ofD [OF ingest_detect_books, of cfg org rs now b]
  have "org_ok n (fst (ingest_detect cfg org rs now b)) o' = org_ok n b o'" for o'
    by (rule org_ok_cong) (simp_all add: fr)
  with bk d fr assms show ?thesis
    unfolding f by (simp add: store_ok_def)
qed

section \<open>The other operations\<close>

lemma org_incidents_change:
  "org_incidents_ok org m \<Longrightarrow> map_of m i \<noteq> None \<Longrightarrow> ic_id inc = i \<Longrightarrow> ic_org inc = org \<Longrightarrow>
     org_incidents_ok org (AList.update i inc m)"
  by (rule org_incidents_update) (auto simp: keys_map_of)

lemma change_incident_ok:
  assumes "change_incident org i f st = Some (inc, st')" and "incidents_ok (st_incidents st)"
    and "\<And>x. ic_id (f x) = ic_id x \<and> ic_org (f x) = ic_org x"
  shows "incidents_ok (st_incidents st') \<and> (\<exists>incs. st' = st\<lparr>st_incidents := incs\<rparr>)"
proof -
  obtain m x where m: "map_of (st_incidents st) org = Some m" "map_of m i = Some x"
    and eq: "inc = f x" "st' = st\<lparr>st_incidents := AList.update org (AList.update i (f x) m) (st_incidents st)\<rparr>"
    using assms(1) by (auto simp: change_incident_def split: option.splits)
  have ok: "org_incidents_ok org m" using incidents_okD [OF assms(2), of org] m(1) by (simp add: entry_or_def)
  then have "org_incidents_ok org (AList.update i (f x) m)"
    using m(2) assms(3) by (intro org_incidents_change) (auto simp: org_incidents_ok_def)
  then show ?thesis using eq(2) incidents_ok_update [OF assms(2)] by auto
qed

lemma clear_threshold_ok:
  "incidents_ok (st_incidents st) \<Longrightarrow> incidents_ok (st_incidents (clear_budget_threshold_locked org run st))"
  using incidents_okD [of "st_incidents st" org]
  by (auto simp: clear_budget_threshold_locked_def entry_or_def intro!: incidents_ok_update org_incidents_delete split: option.split)

lemma raise_stall_ok:
  assumes "incidents_ok (st_incidents (fst p))"
  shows "incidents_ok (st_incidents (fst (raise_stall cfg now h p)))
    \<and> (\<exists>incs. fst (raise_stall cfg now h p) = (fst p)\<lparr>st_incidents := incs\<rparr>)"
proof -
  obtain org run sl st fired where h: "h = ((org, run), sl)" and p: "p = (st, fired)" by (metis prod.exhaust)
  obtain inc incs where u: "upsert_incident (st_incidents st) org ''run_stalled'' Sev_medium run (Some run)
      (agent_for_run st org run) now = (inc, incs)" by (rule prod.exhaust)
  have ok: "incidents_ok incs" "ic_id inc = incident_id ''run_stalled'' run" "ic_org inc = org"
      "map_of (entry_or [] org incs) (incident_id ''run_stalled'' run) = Some inc"
    using upsert_incident_ok [OF _ own_kinds(6) u] assms p by simp_all
  define inc' where "inc' = inc\<lparr>ic_summary := Some (stall_summary run (agent_for_run st org run) (sl_last_ts sl)
      (sat_i64 (now - sl_last_ts sl))
      (fst (case map_of (entry_or [] org (st_orgs st)) run of None \<Rightarrow> (0, 0) | Some a \<Rightarrow> (ra_steps a, ra_calls a)))
      (snd (case map_of (entry_or [] org (st_orgs st)) run of None \<Rightarrow> (0, 0) | Some a \<Rightarrow> (ra_steps a, ra_calls a))))\<rparr>"
  have "org_incidents_ok org (AList.update (ic_id inc') inc' (entry_or [] org incs))"
    using ok incidents_okD [OF ok(1), of org] by (intro org_incidents_change) (simp_all add: inc'_def)
  then have "incidents_ok (AList.update org (AList.update (ic_id inc') inc' (entry_or [] org incs)) incs)"
    using ok(1) by (rule incidents_ok_update [rotated])
  moreover have "fst (raise_stall cfg now h p) =
      st\<lparr>st_incidents := AList.update org (AList.update (ic_id inc') inc' (entry_or [] org incs)) incs\<rparr>"
    by (simp add: raise_stall_def h p u inc'_def Let_def split: prod.split)
  ultimately show ?thesis using p by auto
qed

lemma raise_stalls_ok:
  "incidents_ok (st_incidents (fst p)) \<Longrightarrow> incidents_ok (st_incidents (fst (fold (raise_stall cfg now) hs p)))
    \<and> (\<exists>incs. fst (fold (raise_stall cfg now) hs p) = (fst p)\<lparr>st_incidents := incs\<rparr>)"
proof (induction hs arbitrary: p)
  case Nil
  show ?case using Nil by (auto intro!: exI [of _ "st_incidents (fst p)"])
next
  case (Cons h hs)
  from raise_stall_ok [OF Cons.prems, of cfg now h] obtain incs
    where s: "incidents_ok (st_incidents (fst (raise_stall cfg now h p)))"
      "fst (raise_stall cfg now h p) = (fst p)\<lparr>st_incidents := incs\<rparr>" by blast
  from Cons.IH [OF s(1)] s(2) show ?case by auto
qed

lemma sweep_ok:
  assumes "store_ok n st"
  shows "store_ok n (fst (sweep_stalled_at cfg now st))"
proof (cases "cf_stall_after_ms cfg \<le> 0")
  case True
  with assms show ?thesis by (simp add: sweep_stalled_at_def)
next
  case False
  define q where "q = fold (raise_stall cfg now) (filter (\<lambda>(k, sl). is_stalled cfg now st k sl) (fst (st_stall st))) (st, [])"
  obtain incs where q: "incidents_ok (st_incidents (fst q))" "fst q = st\<lparr>st_incidents := incs\<rparr>"
    using raise_stalls_ok [of "(st, [])" cfg now] store_okD(3) [OF assms] unfolding q_def by fastforce
  have f: "fst (sweep_stalled_at cfg now st) = (if snd q \<noteq> [] then (fst q)\<lparr>st_dirty := True\<rparr> else fst q)"
    using False by (simp add: sweep_stalled_at_def q_def [symmetric] Let_def split: prod.split)
  show ?thesis
    by (rule store_ok_frame [OF assms])
      (use q store_okD [OF assms] in \<open>simp_all add: f accounts_of_def memories_of_def\<close>)
qed

lemma audit_frame [simp]:
  "accounts_of (append_audit_locked sha now org ac a s d st) = accounts_of st"
  "memories_of (append_audit_locked sha now org ac a s d st) = memories_of st"
  "st_incidents (append_audit_locked sha now org ac a s d st) = st_incidents st"
  "st_devices (append_audit_locked sha now org ac a s d st) = st_devices st"
  "st_provider_failures (append_audit_locked sha now org ac a s d st) = st_provider_failures st"
  "st_nonces (append_audit_locked sha now org ac a s d st) = st_nonces st"
  by (simp_all add: append_audit_locked_def accounts_of_def memories_of_def)

lemma store_ok_audit [simp]: "store_ok n (append_audit_locked sha now org ac a s d st) = store_ok n st"
  by (simp add: store_ok_def detectors_ok_def org_ok_def append_audit_locked_def)

lemma store_ok_dirty [simp]: "store_ok n (st\<lparr>st_dirty := b\<rparr>) = store_ok n st"
  by (simp add: store_ok_def detectors_ok_def org_ok_def)

lemma store_ok_incidents:
  "store_ok n st \<Longrightarrow> incidents_ok incs \<Longrightarrow> store_ok n (st\<lparr>st_incidents := incs\<rparr>)"
  by (simp add: store_ok_def detectors_ok_def org_ok_def)

lemma mark_killed_ok [simp]: "store_ok n (mark_killed org run st) = store_ok n st"
  by (simp add: mark_killed_def store_ok_def detectors_ok_def org_ok_def)

lemma put_budget_ok [simp]: "store_ok n (put_budget org run micros st) = store_ok n st"
  by (simp add: put_budget_def store_ok_def detectors_ok_def org_ok_def)

lemma set_unit_budget_ok [simp]: "store_ok n (set_unit_budget org u micros st) = store_ok n st"
  by (simp add: set_unit_budget_def store_ok_def detectors_ok_def org_ok_def)

lemma create_pairing_ok [simp]: "store_ok n (create_pairing code org role ex st) = store_ok n st"
  by (simp add: create_pairing_def store_ok_def detectors_ok_def org_ok_def)

lemma register_activity_ok [simp]: "store_ok n (register_activity org run tok st) = store_ok n st"
  by (simp add: register_activity_def store_ok_def detectors_ok_def org_ok_def)

lemma clear_threshold_store:
  assumes "store_ok n st"
  shows "store_ok n (clear_budget_threshold_locked org run st)"
proof -
  obtain incs where "clear_budget_threshold_locked org run st = st\<lparr>st_incidents := incs\<rparr>"
    by (cases "map_of (st_incidents st) org") (auto simp: clear_budget_threshold_locked_def intro: that [of "st_incidents st"])
  with store_ok_incidents [OF assms clear_threshold_ok [OF store_okD(3) [OF assms]], of org run] show ?thesis by simp
qed

lemma change_incident_store:
  assumes "store_ok n st" and "change_incident org i f st = Some (inc, st')"
    and "\<And>x. ic_id (f x) = ic_id x \<and> ic_org (f x) = ic_org x"
  shows "store_ok n st'"
proof -
  from change_incident_ok [OF assms(2) store_okD(3) [OF assms(1)] assms(3)]
  obtain incs where "incidents_ok (st_incidents st')" "st' = st\<lparr>st_incidents := incs\<rparr>" by blast
  with store_ok_incidents [OF assms(1), of incs] show ?thesis by simp
qed

lemma ack_ok: "store_ok n st \<Longrightarrow> store_ok n (snd (ack_incident org i st))"
  by (auto simp: ack_incident_def intro: change_incident_store split: option.split)

lemma ack_audited_ok: "store_ok n st \<Longrightarrow> store_ok n (snd (ack_incident_audited sha now org i a st))"
  by (auto simp: ack_incident_audited_def intro: change_incident_store split: option.split)

lemma notified_ok: "store_ok n st \<Longrightarrow> store_ok n (snd (mark_incident_notified org i now w st))"
  by (auto simp: mark_incident_notified_def intro: change_incident_store split: option.split)

lemma finding_ok:
  assumes "store_ok n st"
  shows "store_ok n (snd (record_external_finding sha now org by f st))"
proof (cases "is_reserved_incident_id (fi_detector f) (fi_subject f)")
  case True
  with assms show ?thesis by (simp add: record_external_finding_def)
next
  case False
  obtain inc incs where u: "upsert_incident (st_incidents st) org (fi_detector f) (fi_severity f) (fi_subject f)
      None (if starts_with ''agent://'' (fi_subject f) then Some (fi_subject f) else None) (fi_ts_millis f) = (inc, incs)"
    by (rule prod.exhaust)
  have ok: "store_ok n (st\<lparr>st_incidents := incs\<rparr>)"
    using upsert_incident_ok [OF store_okD(3) [OF assms] _ u] False assms
    by (simp add: is_reserved_incident_id_def store_ok_incidents)
  then show ?thesis
    using False by (auto simp: record_external_finding_def u Let_def intro: change_incident_store [OF ok] split: option.split)
qed

lemma redeem_ok: "store_ok n st \<Longrightarrow> store_ok n (snd (redeem_pairing sha code now_unix d st))"
  by (auto simp: redeem_pairing_def store_ok_def detectors_ok_def org_ok_def devices_ok_def digest_def starts_with_def
      Let_def split: option.split)

lemma redeem_audited_ok: "store_ok n st \<Longrightarrow> store_ok n (snd (redeem_pairing_audited sha now code now_unix d st))"
  using redeem_ok [of n st sha code now_unix d]
  by (cases "redeem_pairing sha code now_unix d st") (auto simp: redeem_pairing_audited_def split: option.split)

lemma nonce_ok: "store_ok n st \<Longrightarrow> store_ok n (snd (check_and_record_nonce dev nonce ts st))"
proof -
  assume a: "store_ok n st"
  define seen where "seen = entry_or [] dev (st_nonces st)"
  have ok: "nonces_ok (st_nonces st)" by (rule store_okD(6) [OF a])
  then have s: "length seen \<le> NONCE_CAP" "distinct (map fst seen)" by (simp_all add: nonces_ok_def seen_def)
  have "nonce \<notin> fst ` set seen \<Longrightarrow> distinct (map fst (keep_last NONCE_CAP (seen @ [(nonce, ts)])))"
  proof -
    assume "nonce \<notin> fst ` set seen"
    then have "distinct (map fst (seen @ [(nonce, ts)]))" using s(2) by simp
    then show ?thesis unfolding keep_last_def drop_map [symmetric] by (rule distinct_drop)
  qed
  with ok s have "nonces_ok (st_nonces (snd (check_and_record_nonce dev nonce ts st)))"
    by (auto simp: check_and_record_nonce_def seen_def [symmetric] nonces_ok_def Let_def)
  with a show ?thesis
    by (auto simp: check_and_record_nonce_def Let_def store_ok_def detectors_ok_def org_ok_def)
qed

lemma set_apns_keys: "map fst (snd (set_apns_in dev tok ds)) = map fst ds"
  by (induction dev tok ds rule: set_apns_in.induct) (auto split: prod.split)

lemma apns_ok: "store_ok n st \<Longrightarrow> store_ok n (snd (set_apns_token dev tok st))"
proof -
  assume a: "store_ok n st"
  have k: "keys (snd (set_apns_in dev tok (st_devices st))) = keys (st_devices st)"
    unfolding keys_def using set_apns_keys [of dev tok "st_devices st"] by (metis list.set_map)
  have "devices_ok (snd (set_apns_in dev tok (st_devices st)))"
    using store_okD(4) [OF a] by (simp add: devices_ok_def k table_ok_def set_apns_keys)
  with a show ?thesis
    by (cases "set_apns_in dev tok (st_devices st)") (simp add: set_apns_token_def store_ok_def detectors_ok_def org_ok_def)
qed

section \<open>A provider report\<close>

lemma drop_aged_capped:
  assumes "capped MAX_PROVIDERS_PER_ORG PROVIDER_OVERFLOW_BUCKET m"
  shows "capped MAX_PROVIDERS_PER_ORG PROVIDER_OVERFLOW_BUCKET (drop_aged now w m)"
proof -
  have k: "map fst (map (\<lambda>(l, b). (l, f b)) m) = map fst m" for f :: "(int \<times> nat) list \<Rightarrow> (int \<times> nat) list"
    by (simp add: case_prod_unfold comp_def)
  have "capped MAX_PROVIDERS_PER_ORG PROVIDER_OVERFLOW_BUCKET (map (\<lambda>(l, b). (l, f b)) m)" for f :: "(int \<times> nat) list \<Rightarrow> (int \<times> nat) list"
    using assms k [of f] unfolding capped_def table_ok_def keys_def by (metis list.set_map)
  then show ?thesis unfolding drop_aged_def by (rule capped_filter)
qed

lemma provider_file_as_ok:
  assumes "provider_file_as key site now w m = (key', m')" and "org_incidents_ok org m"
  shows "org_incidents_ok org m'
    \<and> (incident_id ''dependency_failed'' (provider_scope key' site) \<notin> keys m' \<longrightarrow>
       counts_to_reserve (incident_id ''dependency_failed'' (provider_scope key' site)) \<longrightarrow>
       card {k \<in> keys m'. counts_to_reserve k} < MAX_PROVIDER_INCIDENTS_PER_ORG)"
proof -
  let ?id = "\<lambda>k. incident_id ''dependency_failed'' (provider_scope k site)"
  have over: "\<not> counts_to_reserve (?id PROVIDER_OVERFLOW_BUCKET)"
    by (simp add: counts_to_reserve_def is_overflow_provider_id_def incident_id_def provider_scope_def starts_with_def
        PROVIDER_ID_PREFIX_def PROVIDER_OVERFLOW_BUCKET_def split: option.split)
  have t: "table_ok m" and le: "card {k \<in> keys m. counts_to_reserve k} \<le> MAX_PROVIDER_INCIDENTS_PER_ORG"
    using assms(2) by (simp_all add: org_incidents_ok_def)
  show ?thesis
  proof (cases "key \<noteq> PROVIDER_OVERFLOW_BUCKET \<and> map_of m (?id key) = None")
    case False
    then have "key' = key" "m' = m" using assms(1) by (auto simp: provider_file_as_def)
    with False over assms(2) show ?thesis by (auto simp: keys_map_of)
  next
    case True
    define here where "here = fst (provider_incident_counts m site now w)"
    define room where "room = fst (evict_oldest_finished_provider_incident m now w)"
    define m1 where "m1 = snd (evict_oldest_finished_provider_incident m now w)"
    have all: "snd (provider_incident_counts m site now w) = card {k \<in> keys m. counts_to_reserve k}"
      by (simp add: provider_incident_counts_def length_filter_keys t)
    have "provider_file_as key site now w m =
      (if here \<ge> MAX_PROVIDERS_PER_ORG then (PROVIDER_OVERFLOW_BUCKET, m)
       else if card {k \<in> keys m. counts_to_reserve k} \<ge> MAX_PROVIDER_INCIDENTS_PER_ORG
       then (if room then (key, m1) else (PROVIDER_OVERFLOW_BUCKET, m1)) else (key, m))"
      using True all
      by (cases "provider_incident_counts m site now w"; cases "evict_oldest_finished_provider_incident m now w")
        (simp add: provider_file_as_def here_def room_def m1_def)
    then have p: "(key', m') =
      (if here \<ge> MAX_PROVIDERS_PER_ORG then (PROVIDER_OVERFLOW_BUCKET, m)
       else if card {k \<in> keys m. counts_to_reserve k} \<ge> MAX_PROVIDER_INCIDENTS_PER_ORG
       then (if room then (key, m1) else (PROVIDER_OVERFLOW_BUCKET, m1)) else (key, m))"
      using assms(1) by simp
    have m1: "org_incidents_ok org m1 \<and> (room \<longrightarrow> card {k \<in> keys m1. counts_to_reserve k} < card {k \<in> keys m. counts_to_reserve k})"
    proof (cases "oldest_incident (\<lambda>i inc. counts_to_reserve i \<and> \<not> provider_incident_is_active inc now w) m")
      case None
      then show ?thesis
        using assms(2) by (simp add: room_def m1_def evict_oldest_finished_provider_incident_def)
    next
      case (Some e)
      then have "e \<in> {k \<in> keys m. counts_to_reserve k}"
        by (force simp: keys_def dest: oldest_incident_some)
      then have "card ({k \<in> keys m. counts_to_reserve k} - {e}) < card {k \<in> keys m. counts_to_reserve k}"
        by (intro psubset_card_mono) auto
      moreover have "m1 = AList.delete e m"
        using Some by (simp add: m1_def evict_oldest_finished_provider_incident_def)
      moreover have "{k \<in> keys (AList.delete e m). counts_to_reserve k} = {k \<in> keys m. counts_to_reserve k} - {e}"
        by auto
      ultimately show ?thesis using org_incidents_delete [OF assms(2)] by simp
    qed
    show ?thesis using p m1 over assms(2) le by (auto split: if_splits)
  qed
qed

lemma provider_incident_ok:
  assumes "store_ok n st"
  shows "store_ok n (snd (provider_incident org site rep key c iw w det now st))"
proof -
  obtain key' m where f: "provider_file_as key site now w (entry_or [] org (st_incidents st)) = (key', m)"
    by (rule prod.exhaust)
  define i where "i = incident_id ''dependency_failed'' (provider_scope key' site)"
  have inc0: "incidents_ok (st_incidents st)" by (rule store_okD(3) [OF assms])
  have m: "org_incidents_ok org m" "i \<notin> keys m \<Longrightarrow> counts_to_reserve i \<Longrightarrow>
      card {k \<in> keys m. counts_to_reserve k} < MAX_PROVIDER_INCIDENTS_PER_ORG"
    using provider_file_as_ok [OF f incidents_okD [OF inc0]] by (auto simp: i_def)
  define incs where "incs = AList.update org m (st_incidents st)"
  have incs: "incidents_ok incs" unfolding incs_def by (rule incidents_ok_update [OF inc0 m(1)])
  have prov: "is_provider_incident_id i"
    by (simp add: i_def is_provider_incident_id_def incident_id_def provider_scope_def starts_with_def
        PROVIDER_ID_PREFIX_def split: option.split)
  obtain inc incs' where u: "upsert_incident_with incs org ''dependency_failed'' Sev_high (provider_scope key' site) None None now False = (inc, incs')"
    by (rule prod.exhaust)
  have ok: "incidents_ok incs'" "ic_id inc = i" "ic_org inc = org" "map_of (entry_or [] org incs') i = Some inc"
    using upsert_with_ok [OF incs _ _ u] prov m(2) by (auto simp: i_def incs_def)
  define inc' where "inc' = inc\<lparr>ic_occurrences := (case map_option ic_occurrences (map_of m i) of Some before \<Rightarrow> sat_u64 (before + c) | None \<Rightarrow> iw),
      ic_acknowledged := (if key' = PROVIDER_OVERFLOW_BUCKET then False else ic_acknowledged inc),
      ic_summary := Some (provider_summary rep site (key' = PROVIDER_OVERFLOW_BUCKET) iw w det)\<rparr>"
  have "incidents_ok (AList.update org (AList.update i inc' (entry_or [] org incs')) incs')"
    using ok by (intro incidents_ok_update org_incidents_change incidents_okD) (simp_all add: inc'_def)
  moreover have "snd (provider_incident org site rep key c iw w det now st) =
      st\<lparr>st_incidents := AList.update org (AList.update i inc' (entry_or [] org incs')) incs', st_dirty := True\<rparr>"
    by (simp add: provider_incident_def f upsert_provider_incident_def u [unfolded incs_def] i_def inc'_def Let_def incs_def)
  ultimately show ?thesis using store_ok_incidents [OF assms] by simp
qed

lemma provider_ok:
  assumes "store_ok n st"
  shows "store_ok n (snd (note_provider_failures cfg org site prov reports det now st))"
proof (cases "provider_label prov")
  case None
  with assms show ?thesis by (simp add: note_provider_failures_def)
next
  case (Some label)
  define c where "c = min reports MAX_PROVIDER_FAILURES_PER_REPORT"
  define w where "w = max 1 (cf_provider_window_ms cfg)"
  define s where "s = Option.bind site provider_label"
  define sk where "sk = (case s of None \<Rightarrow> [] | Some x \<Rightarrow> x)"
  define bs where "bs = entry_or [] org (st_provider_failures st)"
  define ps where "ps = drop_aged now w (entry_or [] sk bs)"
  define key where "key = (if map_of ps label \<noteq> None \<or> length ps < MAX_PROVIDERS_PER_ORG then label else PROVIDER_OVERFLOW_BUCKET)"
  define bk where "bk = add_failures (wrap_i64 (now - now mod PROVIDER_BUCKET_MS)) c (entry_or [] key ps)"
  define st1 where "st1 = st\<lparr>st_provider_failures := AList.update org (AList.update sk (AList.update key bk ps) bs) (st_provider_failures st)\<rparr>"
  have pf: "providers_ok (st_provider_failures st)" by (rule store_okD(5) [OF assms])
  have "capped MAX_PROVIDERS_PER_ORG PROVIDER_OVERFLOW_BUCKET ps"
    unfolding ps_def using pf by (intro drop_aged_capped) (simp add: providers_ok_def bs_def)
  then have "capped MAX_PROVIDERS_PER_ORG PROVIDER_OVERFLOW_BUCKET (AList.update key bk ps)"
    using capped_entry [of MAX_PROVIDERS_PER_ORG PROVIDER_OVERFLOW_BUCKET ps key label bk "\<lambda>x. bk"]
    by (simp add: key_def on_entry_def)
  then have "providers_ok (st_provider_failures st1)"
    using pf by (simp add: providers_ok_def st1_def bs_def)
  then have st1: "store_ok n st1"
    using assms by (simp add: st1_def store_ok_def detectors_ok_def org_ok_def)
  define iw where "iw = fold (\<lambda>(start, f) acc. sat_u64 (acc + f)) bk 0"
  have "snd (note_provider_failures cfg org site prov reports det now st) =
      (if c = 0 then st
       else if iw < max 1 (cf_provider_failures cfg) then st1
       else snd (provider_incident org s label key c iw w det now st1))"
    unfolding note_provider_failures_def Some option.case Let_def s_def [symmetric] c_def [symmetric] w_def [symmetric]
      sk_def [symmetric] bs_def [symmetric] ps_def [symmetric] key_def [symmetric] bk_def [symmetric] st1_def [symmetric]
      iw_def [symmetric]
    by (simp split: prod.split)
  with assms st1 provider_incident_ok show ?thesis by simp
qed

end
