(* ===== verification/Cloud_Views.thy ===== *)
theory Cloud_Views
  imports Cloud_Control
begin

text \<open>
  \<open>crates/cloud/src/store.rs\<close>, the reads: what the console and the gateways are shown of an org.
  A read takes the lock and changes nothing. A \<open>HashMap\<close> collected into a list keeps the table's
  order; the sorts are stable.
\<close>

section \<open>Runs\<close>

definition overlay_killed :: "store \<Rightarrow> string \<Rightarrow> run_agg \<Rightarrow> run_agg" where
  "overlay_killed st org a = a\<lparr>ra_killed := ra_killed_by_gateway a \<or> run_killed st org (ra_run_id a)\<rparr>"

definition seen_since :: "int option \<Rightarrow> run_agg \<Rightarrow> bool" where
  "seen_since since a \<longleftrightarrow> (case since of None \<Rightarrow> True | Some cutoff \<Rightarrow> \<not> ra_last_seen a < cutoff)"

definition runs_since :: "store \<Rightarrow> string \<Rightarrow> int option \<Rightarrow> run_agg list" where
  "runs_since st org since =
     map (overlay_killed st org) (filter (seen_since since) (map snd (entry_or [] org (st_orgs st))))"

record run_spend_row =
  rs_run_id :: string
  rs_spent :: int
  rs_killed :: bool

definition run_spend_for_site :: "store \<Rightarrow> string \<Rightarrow> string \<Rightarrow> int option \<Rightarrow> run_spend_row list" where
  "run_spend_for_site st org site since =
     map (\<lambda>a. \<lparr>rs_run_id = ra_run_id a, rs_spent = ra_spent a, rs_killed = run_killed st org (ra_run_id a)\<rparr>)
       (filter (\<lambda>a. ra_site a = site \<and> seen_since since a) (map snd (entry_or [] org (st_orgs st))))"

definition run_belongs_to_org :: "store \<Rightarrow> string \<Rightarrow> string \<Rightarrow> bool" where
  "run_belongs_to_org st org run \<longleftrightarrow> map_of (entry_or [] org (st_orgs st)) run \<noteq> None"

section \<open>Totals\<close>

definition by_count :: "(string, nat) table \<Rightarrow> (string \<times> nat) list" where
  "by_count m = sort_key (\<lambda>(k, n). (- int n, k)) m"

record cloud_summary =
  cs_runs :: nat
  cs_calls :: nat
  cs_spent :: int
  cs_tool_calls :: nat
  cs_fallback_calls :: nat
  cs_basis_unreported :: nat
  cs_fallback_models :: "(string \<times> nat) list"
  cs_identity_warned :: nat
  cs_pii_calls :: nat
  cs_pii_kinds :: "(string \<times> nat) list"

definition summary :: "store \<Rightarrow> string \<Rightarrow> cloud_summary" where
  "summary st org =
     (let t = entry_or org_totals_new org (st_org_totals st)
      in \<lparr>cs_runs = length (entry_or [] org (st_orgs st)), cs_calls = ot_calls t, cs_spent = ot_spent t,
          cs_tool_calls = ot_tool_calls t, cs_fallback_calls = ot_fallback_calls t,
          cs_basis_unreported = ot_basis_unreported t, cs_fallback_models = by_count (ot_fallback_models t),
          cs_identity_warned = ot_identity_warned t, cs_pii_calls = ot_pii_calls t,
          cs_pii_kinds = by_count (ot_pii_kinds t)\<rparr>)"

record savings_summary =
  su_blocked :: int
  su_cache :: int
  su_router :: int
  su_breaks :: nat
  su_total :: int

definition savings :: "store \<Rightarrow> string \<Rightarrow> savings_summary" where
  "savings st org =
     (let a = entry_or savings_totals_new org (st_savings st)
      in \<lparr>su_blocked = sv_blocked_spend a, su_cache = sv_cache_saved a, su_router = sv_router_saved a,
          su_breaks = sv_budget_breaks a,
          su_total = saturating_add (saturating_add (sv_blocked_spend a) (sv_cache_saved a)) (sv_router_saved a)\<rparr>)"

definition decision_counts :: "store \<Rightarrow> string \<Rightarrow> (string \<times> nat) list" where
  "decision_counts st org = fold (\<lambda>(k, v). bt_insert k v) (entry_or [] org (st_decision_counts st)) []"

definition incident_kind_counts :: "store \<Rightarrow> string \<Rightarrow> (string \<times> nat) list" where
  "incident_kind_counts st org =
     fold (\<lambda>(i, inc) out. bt_insert (ic_kind inc) (wrap_succ_u64 (entry_or 0 (ic_kind inc) out)) out)
       (entry_or [] org (st_incidents st)) []"

definition gateways :: "store \<Rightarrow> string \<Rightarrow> (string \<times> gateway_acc) list" where
  "gateways st org = sort_key (\<lambda>(site, g). (- ga_last_push g, site)) (entry_or [] org (st_gateways st))"

section \<open>Rollups of the retained runs\<close>

text \<open>The columns \<open>agents\<close>, \<open>units\<close> and \<open>owners\<close> share, and the fold they share.\<close>

record rollup =
  ru_spent :: int
  ru_calls :: nat
  ru_runs :: nat
  ru_last_seen :: int
  ru_tool_calls :: nat

definition rollup_new :: rollup where
  "rollup_new = \<lparr>ru_spent = 0, ru_calls = 0, ru_runs = 0, ru_last_seen = 0, ru_tool_calls = 0\<rparr>"

definition rollup_add :: "run_agg \<Rightarrow> rollup \<Rightarrow> rollup" where
  "rollup_add a u =
     \<lparr>ru_spent = saturating_add (ru_spent u) (ra_spent a), ru_calls = add_u64 (ru_calls u) (ra_calls a),
      ru_runs = wrap_succ_u64 (ru_runs u),
      ru_last_seen = (if ra_last_seen a > ru_last_seen u then ra_last_seen a else ru_last_seen u),
      ru_tool_calls = sat_u64 (ru_tool_calls u + ra_tool_calls a)\<rparr>"

definition roll_up :: "(run_agg \<Rightarrow> string) \<Rightarrow> run_agg list \<Rightarrow> (string, rollup) table" where
  "roll_up key as = fold (\<lambda>a m. on_entry rollup_new (key a) (rollup_add a) m) as []"

definition org_runs :: "store \<Rightarrow> string \<Rightarrow> run_agg list" where
  "org_runs st org = map snd (entry_or [] org (st_orgs st))"

definition agents :: "store \<Rightarrow> string \<Rightarrow> (string \<times> rollup) list" where
  "agents st org = sort_key (\<lambda>(agent, u). - ru_spent u) (roll_up ra_agent_id (org_runs st org))"

definition or_unassigned :: "string \<Rightarrow> string" where
  "or_unassigned s = (if s = [] then UNASSIGNED else s)"

record unit_row =
  ut_unit :: string
  ut_all :: rollup
  ut_month :: string
  ut_month_spent :: int
  ut_month_calls :: nat

definition units_at :: "store \<Rightarrow> string \<Rightarrow> int \<Rightarrow> unit_row list" where
  "units_at st org now_ms =
     (let month_now = month_key now_ms;
          all_time = roll_up (\<lambda>a. or_unassigned (ra_unit a)) (org_runs st org);
          months = entry_or [] org (st_unit_months st);
          names = fold (\<lambda>(u, acc) m. on_entry rollup_new u (\<lambda>x. x) m) months all_time
      in sort_key (\<lambda>row. (- ut_month_spent row, - ru_spent (ut_all row)))
           (map (\<lambda>(u, r). case map_of months u of
               None \<Rightarrow> \<lparr>ut_unit = u, ut_all = r, ut_month = month_now, ut_month_spent = 0, ut_month_calls = 0\<rparr>
             | Some acc \<Rightarrow>
                 if um_window acc = month_now
                 then \<lparr>ut_unit = u, ut_all = r, ut_month = month_now, ut_month_spent = um_spent acc, ut_month_calls = um_calls acc\<rparr>
                 else \<lparr>ut_unit = u, ut_all = r, ut_month = month_now, ut_month_spent = 0, ut_month_calls = 0\<rparr>) names))"

definition owner_agents :: "run_agg list \<Rightarrow> string \<Rightarrow> string list" where
  "owner_agents as who =
     remdups (filter (\<lambda>i. i \<noteq> [] \<and> \<not> is_credential_bucket i)
       (map ra_agent_id (filter (\<lambda>a. or_unassigned (ra_owner a) = who) as)))"

definition owners :: "store \<Rightarrow> string \<Rightarrow> (string \<times> rollup \<times> nat) list" where
  "owners st org =
     sort_key (\<lambda>(who, u, n). - ru_spent u)
       (map (\<lambda>(who, u). (who, u, length (owner_agents (org_runs st org) who)))
         (roll_up (\<lambda>a. or_unassigned (ra_owner a)) (org_runs st org)))"

section \<open>Spend over time\<close>

definition MAX_SERIES_BUCKETS :: nat where "MAX_SERIES_BUCKETS = 10000"

record series_bucket =
  sb_t :: int
  sb_cost :: int
  sb_calls :: nat
  sb_blocked :: nat
  sb_tool_calls :: nat

definition bucket_add :: "sample \<Rightarrow> series_bucket \<Rightarrow> series_bucket" where
  "bucket_add s b =
     b\<lparr>sb_cost := saturating_add (sb_cost b) (sm_cost s), sb_calls := wrap_succ_u64 (sb_calls b),
       sb_blocked := (if sm_blocked s then wrap_succ_u64 (sb_blocked b) else sb_blocked b),
       sb_tool_calls := sat_u64 (sb_tool_calls b + sm_tool_calls s)\<rparr>"

definition in_scope :: "string option \<Rightarrow> int \<Rightarrow> int \<Rightarrow> sample \<Rightarrow> bool" where
  "in_scope run start now_ms s \<longleftrightarrow>
     \<not> (sm_ts_millis s < start \<or> sm_ts_millis s > now_ms)
     \<and> (case run of None \<Rightarrow> True | Some rid \<Rightarrow> sm_run_id s = rid)"

definition series_buckets :: "int \<Rightarrow> int \<Rightarrow> nat" where
  "series_buckets window step = min (nat (max 1 (tdiv window step))) MAX_SERIES_BUCKETS"

definition series :: "store \<Rightarrow> string \<Rightarrow> string option \<Rightarrow> int \<Rightarrow> int \<Rightarrow> int \<Rightarrow> series_bucket list" where
  "series st org run window_ms step_ms now_ms =
     (let step = max 1 step_ms;
          window = max step window_ms;
          start = wrap_i64 (now_ms - window);
          n = series_buckets window step;
          buckets = map (\<lambda>i. \<lparr>sb_t = wrap_i64 (start + wrap_i64 (int i * step)), sb_cost = 0, sb_calls = 0,
                              sb_blocked = 0, sb_tool_calls = 0\<rparr>) [0 ..< n]
      in fold (\<lambda>s bs. let i = min (nat (tdiv (wrap_i64 (sm_ts_millis s - start)) step mod 2 ^ 64)) (n - 1)
                      in bs[i := bucket_add s (bs ! i)])
           (filter (in_scope run start now_ms) (entry_or [] org (st_series st))) buckets)"

record window_row =
  wn_agent_id :: string
  wn_spent :: int
  wn_calls :: nat
  wn_blocked :: nat

record window_spend =
  ws_days_requested :: int
  ws_days_covered :: int
  ws_from_day :: "int option"
  ws_spent :: int
  ws_calls :: nat
  ws_blocked :: nat
  ws_agents :: "window_row list"

definition day_total :: "day_spend \<Rightarrow> day_spend \<Rightarrow> day_spend" where
  "day_total d t =
     \<lparr>ds_spent = saturating_add (ds_spent t) (ds_spent d), ds_calls = add_u64 (ds_calls t) (ds_calls d),
      ds_blocked = add_u64 (ds_blocked t) (ds_blocked d)\<rparr>"

definition spend_window :: "store \<Rightarrow> string \<Rightarrow> int \<Rightarrow> int \<Rightarrow> window_spend" where
  "spend_window st org days now_millis =
     (let days = max 1 days;
          today = now_millis div DAY_MILLIS;
          first = wrap_i64 (wrap_i64 (today - days) + 1);
          by_day = filter (\<lambda>(day, as). \<not> (day < first \<or> day > today)) (entry_or [] org (st_spend_days st));
          rows = concat (map snd by_day);
          total = fold (\<lambda>(agent, d). day_total d) rows day_spend_new;
          per_agent = fold (\<lambda>(agent, d). on_entry day_spend_new agent (day_total d)) rows []
      in \<lparr>ws_days_requested = days, ws_days_covered = int (length by_day),
          ws_from_day = (case by_day of [] \<Rightarrow> None | x # xs \<Rightarrow> Some (Min (fst ` set by_day))),
          ws_spent = ds_spent total, ws_calls = ds_calls total, ws_blocked = ds_blocked total,
          ws_agents = sort_key (\<lambda>row. (- wn_spent row, wn_agent_id row))
            (map (\<lambda>(agent, d). \<lparr>wn_agent_id = agent, wn_spent = ds_spent d, wn_calls = ds_calls d, wn_blocked = ds_blocked d\<rparr>)
              per_agent)\<rparr>)"

end
