(* ===== verification/Cloud_Restart.thy ===== *)
theory Cloud_Restart
  imports Cloud_Invariant Cloud_Views
begin

text \<open>
  A restart, and with it the invariant along every history. Loading the snapshot of a store that
  keeps the invariant gives back every persisted table as it was, the nonces pruned to the
  signature window.
\<close>

section \<open>The run index seeded from the loaded runs\<close>

lemma touch_all:
  "recency_ok ix \<Longrightarrow> recency_room ix (n + length ks) \<Longrightarrow> distinct ks \<Longrightarrow> set ks \<inter> set (lru ix) = {} \<Longrightarrow>
     recency_ok (fold touch ks ix) \<and> lru (fold touch ks ix) = lru ix @ ks \<and> recency_room (fold touch ks ix) n"
proof (induction ks arbitrary: ix)
  case (Cons k ks)
  have room: "recency_room ix (Suc (n + length ks))" using Cons.prems(2) by simp
  note t = touch_refines [OF Cons.prems(1) room, of k]
  have "k \<notin> set (lru ix)" using Cons.prems(4) by auto
  then have l: "lru (touch k ix) = lru ix @ [k]" using t(2) by simp
  have "set ks \<inter> set (lru (touch k ix)) = {}" using l Cons.prems(3,4) by auto
  with Cons.IH [OF t(1,3)] Cons.prems(3) l show ?case by simp
qed simp

lemma seed_recency_ok:
  assumes "table_ok rtab" and "\<forall>run a. map_of rtab run = Some a \<longrightarrow> ra_run_id a = run"
    and "length rtab + n \<le> U64_MAX"
  shows "recency_ok (seed_recency rtab) \<and> set (lru (seed_recency rtab)) = keys rtab \<and> recency_room (seed_recency rtab) n"
proof -
  define ks where "ks = map ra_run_id (sort_key ra_last_seen (map snd rtab))"
  have eq: "map ra_run_id (map snd rtab) = map fst rtab"
    using assms(1,2) by (auto simp: table_ok_def intro!: map_cong)
  have m: "mset ks = mset (map ra_run_id (map snd rtab))" by (simp add: ks_def multiset.map_comp)
  have mf: "mset ks = mset (map fst rtab)" by (rule m [unfolded eq])
  have d: "distinct ks" using assms(1) mset_eq_imp_distinct_iff [OF mf] by (simp add: table_ok_def)
  have s: "set ks = keys rtab" using mset_eq_setD [OF mf] by (simp add: keys_def)
  have l: "length ks = length rtab" using mset_eq_length [OF mf] by simp
  have e: "seed_recency rtab = fold touch ks recency_new" by (simp add: seed_recency_def ks_def)
  have new: "recency_ok (recency_new :: string recency_index)" "lru (recency_new :: string recency_index) = []"
    by simp_all
  have room: "recency_room (recency_new :: string recency_index) (n + length ks)"
    using assms(3) l by (simp add: room_new)
  have "recency_ok (fold touch ks recency_new) \<and> lru (fold touch ks recency_new) = lru recency_new @ ks
      \<and> recency_room (fold touch ks recency_new) n"
    by (rule touch_all [OF new(1) room d]) (simp add: new(2))
  then show ?thesis unfolding e by (simp only: new(2) append_Nil s simp_thms)
qed

section \<open>What a load gives back\<close>

lemma load_devices_same:
  assumes "devices_ok ds"
  shows "load_devices sha ds = (False, ds)"
proof -
  have "fold (\<lambda>(key, d) m. AList.update (if starts_with ''sha256:'' key then key else digest sha key) d m) ds acc = acc @ ds"
    if "devices_ok ds" "keys ds \<inter> keys acc = {}" for acc
    using that
  proof (induction ds arbitrary: acc)
    case (Cons x ds)
    obtain k d where x: "x = (k, d)" by fastforce
    have new: "k \<notin> keys acc" "starts_with ''sha256:'' k" using Cons.prems x by (auto simp: devices_ok_def keys_def)
    have "AList.update k d acc = acc @ [(k, d)]"
      using new(1) by (induction acc) (auto simp: keys_def)
    moreover have "devices_ok ds" "keys ds \<inter> keys (acc @ [(k, d)]) = {}"
      using Cons.prems x by (auto simp: devices_ok_def keys_def table_ok_def)
    ultimately show ?case using Cons.IH [of "acc @ [(k, d)]"] x new(2) by simp
  qed simp
  from this [OF assms, of "[]"] assms show ?thesis
    by (auto simp: load_devices_def devices_ok_def keys_def list_ex_iff)
qed

lemma load_totals_same: "keys orgs \<subseteq> keys totals \<Longrightarrow> load_totals orgs totals = totals"
proof -
  have "fold (\<lambda>(org, rtab) m. if map_of m org = None then AList.update org (backfill_totals rtab) m else m) xs totals = totals"
    if "keys xs \<subseteq> keys totals" for xs
    using that
  proof (induction xs)
    case (Cons x xs)
    then have "fst x \<in> keys totals" "keys xs \<subseteq> keys totals" by (auto simp: keys_def)
    then obtain y where "map_of totals (fst x) = Some y" by (auto simp: keys_map_of)
    with Cons.IH [OF \<open>keys xs \<subseteq> keys totals\<close>] show ?case by (simp add: case_prod_unfold)
  qed simp
  then show "keys orgs \<subseteq> keys totals \<Longrightarrow> load_totals orgs totals = totals" by (simp add: load_totals_def)
qed

lemma load_savings_same:
  assumes "table_ok svs" and "\<forall>org. length (sv_breaks (entry_or savings_totals_new org svs)) \<le> sv_budget_breaks (entry_or savings_totals_new org svs)"
  shows "map (\<lambda>(org, acc). (org, load_savings acc)) svs = svs"
proof (rule map_idI)
  fix x
  assume x: "x \<in> set svs"
  obtain org acc where o: "x = (org, acc)" by fastforce
  then have "entry_or savings_totals_new org svs = acc"
    using x assms(1) by (simp add: entry_or_def table_ok_def)
  with assms(2) have "length (sv_breaks acc) \<le> sv_budget_breaks acc" by metis
  then show "(case x of (org, acc) \<Rightarrow> (org, load_savings acc)) = x" by (simp add: o load_savings_def)
qed

lemma restart_eq:
  assumes "store_ok n st"
  shows "load_snapshot sha now (store_snapshot st) store_new =
     store_new\<lparr>st_orgs := st_orgs st, st_killed := st_killed st, st_budgets := st_budgets st,
       st_unit_budgets := st_unit_budgets st, st_devices := st_devices st, st_dirty := False,
       st_nonces := load_nonces now (st_nonces st), st_savings := st_savings st, st_spend_days := st_spend_days st,
       st_unit_months := st_unit_months st, st_gateways := st_gateways st,
       st_decision_counts := st_decision_counts st, st_incidents := st_incidents st, st_audit := st_audit st,
       st_org_totals := st_org_totals st,
       st_run_recency := map (\<lambda>(org, rtab). (org, seed_recency rtab)) (st_orgs st)\<rparr>"
proof -
  have "\<forall>org. breaks_ok n (entry_or savings_totals_new org (st_savings st)) (entry_or recency_new org (st_break_recency st))"
    using assms by (simp add: store_ok_def org_ok_def)
  then have "map (\<lambda>(org, acc). (org, load_savings acc)) (st_savings st) = st_savings st"
    using assms by (intro load_savings_same) (simp_all add: store_ok_def breaks_ok_def)
  moreover have "load_totals (st_orgs st) (st_org_totals st) = st_org_totals st"
    using assms by (intro load_totals_same) (simp add: store_ok_def)
  ultimately show ?thesis
    by (simp add: load_snapshot_def store_snapshot_def load_devices_same [OF store_okD(4) [OF assms]] store_new_def)
qed

lemma load_nonces_ok:
  assumes "nonces_ok ns"
  shows "nonces_ok (load_nonces now ns)"
proof -
  define f where "f = filter (\<lambda>(nonce :: string, ts). wrap_i64 \<bar>wrap_i64 (now - ts)\<bar> \<le> SIGNATURE_WINDOW_SECS)"
  have e: "load_nonces now ns = filter (\<lambda>(device, kept). kept \<noteq> []) (map (\<lambda>(device, ring). (device, f ring)) ns)"
    by (simp add: load_nonces_def f_def)
  have t: "table_ok (map (\<lambda>(device, ring). (device, f ring)) ns)"
    using assms by (simp add: nonces_ok_def table_ok_def case_prod_unfold comp_def)
  have "map_of (load_nonces now ns) dev = Some q \<Longrightarrow> \<exists>ring. map_of ns dev = Some ring \<and> q = f ring" for dev q
  proof -
    assume "map_of (load_nonces now ns) dev = Some q"
    then have "(dev, q) \<in> set (map (\<lambda>(device, ring). (device, f ring)) ns)" unfolding e by (auto dest: map_of_SomeD)
    then obtain ring where "(dev, ring) \<in> set ns" "q = f ring" by auto
    with assms show ?thesis by (auto simp: nonces_ok_def table_ok_def)
  qed
  then have sub: "entry_or [] dev (load_nonces now ns) \<in> {[], f (entry_or [] dev ns)}" for dev
    by (cases "map_of (load_nonces now ns) dev") (fastforce simp: entry_or_def)+
  have "length (f q) \<le> length q" "distinct (map fst q) \<Longrightarrow> distinct (map fst (f q))" for q
    by (simp_all add: f_def distinct_map_filter)
  moreover have "table_ok (load_nonces now ns)" unfolding e using t by simp
  ultimately show ?thesis
    using assms sub unfolding nonces_ok_def by (metis (no_types, lifting) distinct.simps(1) empty_iff insert_iff le_trans list.map(1) list.size(3) zero_le)
qed

lemma memory_new: "n \<le> U64_MAX \<Longrightarrow> memory_ok n P ([], recency_new)"
  by (simp add: memory_ok_def room_new)

lemma entry_or_map: "entry_or d k (map (\<lambda>(k, v). (k, f v)) m) = (case map_of m k of None \<Rightarrow> d | Some v \<Rightarrow> f v)"
  by (simp add: entry_or_def map_of_map comp_def split: option.split)

lemma restart_ok:
  assumes "store_ok (n + MAX_RUNS_PER_ORG) st"
  shows "store_ok n (load_snapshot sha now (store_snapshot st) store_new)"
proof -
  have ok: "store_ok n st" by (rule store_ok_less [OF assms])
  have big: "org_ok (n + MAX_RUNS_PER_ORG) st org" for org using store_okD(1) [OF assms] .
  have le: "n + MAX_RUNS_PER_ORG \<le> U64_MAX"
    using big [of "''x''"] by (simp add: org_ok_def runs_ok_def recency_room_def)
  define ixs where "ixs = map (\<lambda>(org, rtab). (org, seed_recency rtab)) (st_orgs st)"
  have runs: "runs_ok n (entry_or [] org (st_orgs st)) (entry_or recency_new org ixs)" for org
  proof (cases "map_of (st_orgs st) org")
    case None
    then have "entry_or [] org (st_orgs st) = []" "entry_or recency_new org ixs = recency_new"
      by (simp_all add: ixs_def entry_or_map) (simp add: entry_or_def)
    with le show ?thesis by (simp add: runs_ok_def room_new)
  next
    case (Some rtab)
    then have r: "runs_ok (n + MAX_RUNS_PER_ORG) rtab (entry_or recency_new org (st_run_recency st))"
      using big [of org] by (simp add: org_ok_def entry_or_def)
    then have t: "table_ok rtab" "length rtab \<le> MAX_RUNS_PER_ORG" by (simp_all add: runs_ok_def in_step_def)
    have "recency_ok (seed_recency rtab) \<and> set (lru (seed_recency rtab)) = keys rtab \<and> recency_room (seed_recency rtab) n"
      by (rule seed_recency_ok) (use t r le in \<open>auto simp: runs_ok_def agg_ok_def\<close>)
    moreover have "entry_or [] org (st_orgs st) = rtab" "entry_or recency_new org ixs = seed_recency rtab"
      using Some by (simp_all add: ixs_def entry_or_map) (simp add: entry_or_def)
    ultimately show ?thesis using r t by (simp add: runs_ok_def in_step_def)
  qed
  have "org_ok n (load_snapshot sha now (store_snapshot st) store_new) org" for org
    using store_okD(1) [OF ok, of org] runs [of org] le
    unfolding restart_eq [OF ok] by (simp add: org_ok_def store_new_def ixs_def [symmetric] breaks_ok_def room_new)
  moreover have "detectors_ok n (load_snapshot sha now (store_snapshot st) store_new)"
    unfolding restart_eq [OF ok] using le store_okD(3) [OF ok] by (simp add: detectors_ok_def store_new_def memory_new)
  moreover have "providers_ok []" using store_ok_new [of 0] by (simp add: store_ok_def store_new_def)
  moreover have "st_devices (load_snapshot sha now (store_snapshot st) store_new) = st_devices st"
    "st_provider_failures (load_snapshot sha now (store_snapshot st) store_new) = []"
    "st_nonces (load_snapshot sha now (store_snapshot st) store_new) = load_nonces now (st_nonces st)"
    "st_savings (load_snapshot sha now (store_snapshot st) store_new) = st_savings st"
    "st_orgs (load_snapshot sha now (store_snapshot st) store_new) = st_orgs st"
    "st_org_totals (load_snapshot sha now (store_snapshot st) store_new) = st_org_totals st"
    unfolding restart_eq [OF ok] by (simp_all add: store_new_def)
  ultimately show ?thesis
    using ok load_nonces_ok [of "st_nonces st" now] by (simp add: store_ok_def)
qed

lemma apply_op_ok: "store_ok (n + op_weight op) st \<Longrightarrow> store_ok n (apply_op cfg sha op st)"
proof (cases op)
  case (Op_kill org run actor now)
  assume "store_ok (n + op_weight op) st"
  with Op_kill show ?thesis by (simp add: kill_def kill_audited_def Let_def split: option.split)
next
  case (Op_budget org run micros actor now)
  assume "store_ok (n + op_weight op) st"
  with Op_budget show ?thesis
    by (auto simp: set_budget_def set_budget_audited_def intro: clear_threshold_store split: option.split)
qed (auto simp: ingest_ok sweep_ok provider_ok ack_ok ack_audited_ok finding_ok notified_ok redeem_ok
      redeem_audited_ok nonce_ok apns_ok restart_ok set_unit_budget_audited_def store_audit_append_def take_dirty_def
      split: option.splits)

lemma cloud_run_ok: "cloud_run cfg sha ops st \<Longrightarrow> weight ops \<le> U64_MAX \<and> store_ok (U64_MAX - weight ops) st"
proof (induction rule: cloud_run.induct)
  case start
  then show ?case by (simp add: store_ok_new)
next
  case (step ops st op)
  then have "U64_MAX - weight (ops @ [op]) + op_weight op = U64_MAX - weight ops" by simp
  with step apply_op_ok [of "U64_MAX - weight (ops @ [op])" op st cfg sha] show ?case by simp
qed

end
