(* ===== verification/Cloud_Frames.thy ===== *)
theory Cloud_Frames
  imports Cloud_Restart
begin

text \<open>
  What each operation of the store leaves alone: the tables outside an operation's own reach, and
  the tables of every other org.
\<close>

section \<open>Operations on incidents, and the audit chain\<close>

text \<open>Everything but the incidents, the detectors' memories, the audit chains and the dirty mark.\<close>

definition rest_of where
  "rest_of st = (accounts_of st, st_killed st, st_budgets st, st_unit_budgets st, st_provider_failures st,
     st_devices st, st_pairings st, st_nonces st, st_activities st)"

lemma rest_ofD:
  assumes "rest_of st' = rest_of st"
  shows "accounts_of st' = accounts_of st" "st_killed st' = st_killed st" "st_budgets st' = st_budgets st"
    "st_unit_budgets st' = st_unit_budgets st" "st_provider_failures st' = st_provider_failures st"
    "st_devices st' = st_devices st" "st_pairings st' = st_pairings st" "st_nonces st' = st_nonces st"
    "st_activities st' = st_activities st"
  using assms by (simp_all add: rest_of_def)

lemma rest_of_updates [simp]:
  "rest_of (st\<lparr>st_incidents := i\<rparr>) = rest_of st" "rest_of (st\<lparr>st_dirty := b\<rparr>) = rest_of st"
  "rest_of (st\<lparr>st_audit := a\<rparr>) = rest_of st"
  by (simp_all add: rest_of_def accounts_of_def)

lemma append_audit_rest [simp]: "rest_of (append_audit_locked sha now org ac a s d st) = rest_of st"
  by (simp add: append_audit_locked_def)

lemma change_incident_rest:
  "change_incident org i f st = Some (inc, st') \<Longrightarrow> rest_of st' = rest_of st \<and> st_audit st' = st_audit st"
  by (auto simp: change_incident_def split: option.splits)

lemma raise_stalls_shape:
  "\<exists>incs. fst (fold (raise_stall cfg now) hs p) = (fst p)\<lparr>st_incidents := incs\<rparr>"
proof (induction hs arbitrary: p)
  case Nil
  show ?case by (auto intro!: exI [of _ "st_incidents (fst p)"])
next
  case (Cons h hs)
  have "\<exists>incs. fst (raise_stall cfg now h p) = (fst p)\<lparr>st_incidents := incs\<rparr>"
    by (cases h; cases p) (auto simp: raise_stall_def Let_def split: prod.split)
  with Cons.IH [of "raise_stall cfg now h p"] show ?case by auto
qed

lemma sweep_rest [simp]:
  "rest_of (fst (sweep_stalled_at cfg now st)) = rest_of st" "st_audit (fst (sweep_stalled_at cfg now st)) = st_audit st"
proof -
  define q where "q = fold (raise_stall cfg now) (filter (\<lambda>(k, sl). is_stalled cfg now st k sl) (fst (st_stall st))) (st, [])"
  obtain incs where "fst q = st\<lparr>st_incidents := incs\<rparr>" unfolding q_def using raise_stalls_shape by fastforce
  moreover have "fst (sweep_stalled_at cfg now st) =
      (if cf_stall_after_ms cfg \<le> 0 then st else if snd q \<noteq> [] then (fst q)\<lparr>st_dirty := True\<rparr> else fst q)"
    by (simp add: sweep_stalled_at_def q_def [symmetric] Let_def split: prod.split)
  ultimately show "rest_of (fst (sweep_stalled_at cfg now st)) = rest_of st"
      "st_audit (fst (sweep_stalled_at cfg now st)) = st_audit st"
    by simp_all
qed

lemma clear_threshold_rest [simp]:
  "rest_of (clear_budget_threshold_locked org run st) = rest_of st"
  "st_audit (clear_budget_threshold_locked org run st) = st_audit st"
  by (simp_all add: clear_budget_threshold_locked_def split: option.split)

lemma ack_rest [simp]:
  "rest_of (snd (ack_incident org i st)) = rest_of st" "st_audit (snd (ack_incident org i st)) = st_audit st"
  "rest_of (snd (ack_incident_audited sha now org i a st)) = rest_of st"
  by (auto simp: ack_incident_def ack_incident_audited_def dest: change_incident_rest split: option.split)

lemma notified_rest [simp]:
  "rest_of (snd (mark_incident_notified org i now w st)) = rest_of st"
  "st_audit (snd (mark_incident_notified org i now w st)) = st_audit st"
  by (auto simp: mark_incident_notified_def dest: change_incident_rest split: option.split)

lemma finding_rest [simp]: "rest_of (snd (record_external_finding sha now org by f st)) = rest_of st"
  by (auto simp: record_external_finding_def Let_def dest: change_incident_rest split: option.split prod.split)

lemma provider_incident_shape:
  "\<exists>incs. snd (provider_incident org site rep key n iw w det now st) = st\<lparr>st_incidents := incs, st_dirty := True\<rparr>"
  by (auto simp: provider_incident_def Let_def split: prod.split)

text \<open>A provider report moves the provider's failure counts, and raises at most one incident.\<close>

lemma provider_cases:
  "\<exists>m s label key c iw w.
     (let st1 = st\<lparr>st_provider_failures := AList.update org m (st_provider_failures st)\<rparr>
      in snd (note_provider_failures cfg org site prov reports det now st) \<in>
         {st, st1, snd (provider_incident org s label key c iw w det now st1)})"
proof (cases "provider_label prov")
  case None
  then show ?thesis by (simp add: note_provider_failures_def Let_def)
next
  case (Some label)
  define c where "c = min reports MAX_PROVIDER_FAILURES_PER_REPORT"
  define w where "w = max 1 (cf_provider_window_ms cfg)"
  define s where "s = Option.bind site provider_label"
  define sk where "sk = (case s of None \<Rightarrow> [] | Some x \<Rightarrow> x)"
  define bs where "bs = entry_or [] org (st_provider_failures st)"
  define ps where "ps = drop_aged now w (entry_or [] sk bs)"
  define key where "key = (if map_of ps label \<noteq> None \<or> length ps < MAX_PROVIDERS_PER_ORG then label else PROVIDER_OVERFLOW_BUCKET)"
  define bk where "bk = add_failures (wrap_i64 (now - now mod PROVIDER_BUCKET_MS)) c (entry_or [] key ps)"
  define m where "m = AList.update sk (AList.update key bk ps) bs"
  define st1 where "st1 = st\<lparr>st_provider_failures := AList.update org m (st_provider_failures st)\<rparr>"
  define iw where "iw = fold (\<lambda>(start, f) acc. sat_u64 (acc + f)) bk 0"
  have "snd (note_provider_failures cfg org site prov reports det now st) =
      (if c = 0 then st else if iw < max 1 (cf_provider_failures cfg) then st1
       else snd (provider_incident org s label key c iw w det now st1))"
    unfolding note_provider_failures_def Some option.case Let_def s_def [symmetric] c_def [symmetric] w_def [symmetric]
      sk_def [symmetric] bs_def [symmetric] ps_def [symmetric] key_def [symmetric] bk_def [symmetric] m_def [symmetric]
      st1_def [symmetric] iw_def [symmetric]
    by (simp split: prod.split)
  then have "snd (note_provider_failures cfg org site prov reports det now st) \<in>
      {st, st1, snd (provider_incident org s label key c iw w det now st1)}"
    by simp
  then show ?thesis unfolding Let_def st1_def by blast
qed

lemma provider_shape:
  "\<exists>pf incs b. snd (note_provider_failures cfg org site prov reports det now st) =
     st\<lparr>st_provider_failures := pf, st_incidents := incs, st_dirty := b\<rparr>"
proof -
  obtain m s label key c iw w where
    "snd (note_provider_failures cfg org site prov reports det now st) \<in>
       {st, st\<lparr>st_provider_failures := AList.update org m (st_provider_failures st)\<rparr>,
        snd (provider_incident org s label key c iw w det now (st\<lparr>st_provider_failures := AList.update org m (st_provider_failures st)\<rparr>))}"
    using provider_cases [where st = st and org = org and cfg = cfg and site = site and prov = prov and reports = reports
      and det = det and now = now] unfolding Let_def by (elim exE)
  then consider "snd (note_provider_failures cfg org site prov reports det now st) = st"
    | "snd (note_provider_failures cfg org site prov reports det now st) =
         st\<lparr>st_provider_failures := AList.update org m (st_provider_failures st)\<rparr>"
    | "snd (note_provider_failures cfg org site prov reports det now st) =
         snd (provider_incident org s label key c iw w det now (st\<lparr>st_provider_failures := AList.update org m (st_provider_failures st)\<rparr>))"
    by blast
  then show ?thesis
  proof cases
    case 1
    show ?thesis
      by (intro exI [of _ "st_provider_failures st"] exI [of _ "st_incidents st"] exI [of _ "st_dirty st"]) (simp add: 1)
  next
    case 2
    show ?thesis
      by (intro exI [of _ "AList.update org m (st_provider_failures st)"] exI [of _ "st_incidents st"] exI [of _ "st_dirty st"])
        (simp add: 2)
  next
    case 3
    with provider_incident_shape [of org s label key c iw w det now "st\<lparr>st_provider_failures := AList.update org m (st_provider_failures st)\<rparr>"]
    show ?thesis by auto
  qed
qed

lemma provider_frame [simp]:
  "accounts_of (snd (note_provider_failures cfg org site prov reports det now st)) = accounts_of st"
  "st_killed (snd (note_provider_failures cfg org site prov reports det now st)) = st_killed st"
  "st_audit (snd (note_provider_failures cfg org site prov reports det now st)) = st_audit st"
  "st_devices (snd (note_provider_failures cfg org site prov reports det now st)) = st_devices st"
  "st_pairings (snd (note_provider_failures cfg org site prov reports det now st)) = st_pairings st"
  "st_nonces (snd (note_provider_failures cfg org site prov reports det now st)) = st_nonces st"
proof -
  obtain pf incs b where "snd (note_provider_failures cfg org site prov reports det now st) =
      st\<lparr>st_provider_failures := pf, st_incidents := incs, st_dirty := b\<rparr>"
    using provider_shape by blast
  then show "accounts_of (snd (note_provider_failures cfg org site prov reports det now st)) = accounts_of st"
    "st_killed (snd (note_provider_failures cfg org site prov reports det now st)) = st_killed st"
    "st_audit (snd (note_provider_failures cfg org site prov reports det now st)) = st_audit st"
    "st_devices (snd (note_provider_failures cfg org site prov reports det now st)) = st_devices st"
    "st_pairings (snd (note_provider_failures cfg org site prov reports det now st)) = st_pairings st"
    "st_nonces (snd (note_provider_failures cfg org site prov reports det now st)) = st_nonces st"
    by (simp_all add: accounts_of_def)
qed

section \<open>One table through every operation\<close>

lemma ingest_books_frame [simp]:
  "st_killed (ingest_books cfg org site rs now st) = st_killed st"
  "st_audit (ingest_books cfg org site rs now st) = st_audit st"
  "st_pairings (ingest_books cfg org site rs now st) = st_pairings st"
  by (simp_all add: ingest_books_def Let_def)

lemma ingest_frame [simp]:
  "st_killed (fst (ingest_at_from cfg org site rs now st)) = st_killed st"
  "st_audit (fst (ingest_at_from cfg org site rs now st)) = st_audit st"
  "st_pairings (fst (ingest_at_from cfg org site rs now st)) = st_pairings st"
  by (simp_all add: books_ofD(2,11,17) [OF ingest_at_from_books])

lemma redeem_frame [simp]:
  "accounts_of (snd (redeem_pairing sha code nu d st)) = accounts_of st"
  "st_killed (snd (redeem_pairing sha code nu d st)) = st_killed st"
  "st_nonces (snd (redeem_pairing sha code nu d st)) = st_nonces st"
  "st_audit (snd (redeem_pairing sha code nu d st)) = st_audit st"
  by (simp_all add: redeem_pairing_def Let_def accounts_of_def split: option.split)

lemma redeem_audited_rest: "rest_of (snd (redeem_pairing_audited sha now code nu d st)) = rest_of (snd (redeem_pairing sha code nu d st))"
  by (cases "redeem_pairing sha code nu d st") (auto simp: redeem_pairing_audited_def split: option.split)

lemma redeem_audited_frame [simp]:
  "accounts_of (snd (redeem_pairing_audited sha now code nu d st)) = accounts_of st"
  "st_killed (snd (redeem_pairing_audited sha now code nu d st)) = st_killed st"
  "st_nonces (snd (redeem_pairing_audited sha now code nu d st)) = st_nonces st"
  "st_devices (snd (redeem_pairing_audited sha now code nu d st)) = st_devices (snd (redeem_pairing sha code nu d st))"
  "st_pairings (snd (redeem_pairing_audited sha now code nu d st)) = st_pairings (snd (redeem_pairing sha code nu d st))"
  using rest_ofD [OF redeem_audited_rest [of sha now code nu d st]] by simp_all

lemma nonce_frame [simp]:
  "st_killed (snd (check_and_record_nonce dev nonce ts st)) = st_killed st"
  "accounts_of (snd (check_and_record_nonce dev nonce ts st)) = accounts_of st"
  "st_audit (snd (check_and_record_nonce dev nonce ts st)) = st_audit st"
  "st_devices (snd (check_and_record_nonce dev nonce ts st)) = st_devices st"
  "st_pairings (snd (check_and_record_nonce dev nonce ts st)) = st_pairings st"
  by (simp_all add: check_and_record_nonce_def Let_def accounts_of_def)

lemma apns_frame [simp]:
  "st_killed (snd (set_apns_token dev tok st)) = st_killed st" "accounts_of (snd (set_apns_token dev tok st)) = accounts_of st"
  "st_nonces (snd (set_apns_token dev tok st)) = st_nonces st" "st_audit (snd (set_apns_token dev tok st)) = st_audit st"
  "st_pairings (snd (set_apns_token dev tok st)) = st_pairings st"
  "st_devices (snd (set_apns_token dev tok st)) = snd (set_apns_in dev tok (st_devices st))"
  by (simp_all add: set_apns_token_def accounts_of_def split: prod.split)

lemmas control_defs = kill_def kill_audited_def mark_killed_def set_budget_def set_budget_audited_def put_budget_def
  set_unit_budget_def set_unit_budget_audited_def store_audit_append_def create_pairing_def register_activity_def
  take_dirty_def

lemma load_snapshot_frame [simp]:
  "st_killed (load_snapshot sha now snap st) = sn_killed snap"
  "st_audit (load_snapshot sha now snap st) = sn_audit snap"
  by (simp_all add: load_snapshot_def split: prod.split)

lemma append_audit_frame [simp]:
  "st_killed (append_audit_locked sha now org ac a s d st) = st_killed st"
  "st_pairings (append_audit_locked sha now org ac a s d st) = st_pairings st"
  by (simp_all add: append_audit_locked_def)

lemma audit_of_append:
  "audit_of (append_audit_locked sha now org ac a s d st) o' =
     (if o' = org then audit_of st org @ [audit_append sha (if audit_of st org = [] then None else Some (last (audit_of st org))) now ac a s d]
      else audit_of st o')"
  by (simp_all add: append_audit_locked_def audit_of_def)

lemma control_frames [simp]:
  "accounts_of (mark_killed org run st) = accounts_of st" "accounts_of (put_budget org run m st) = accounts_of st"
  "accounts_of (set_unit_budget org u m st) = accounts_of st"
  "accounts_of (create_pairing code org role ex st) = accounts_of st"
  "accounts_of (register_activity org run tok st) = accounts_of st"
  "accounts_of (st\<lparr>st_dirty := b\<rparr>) = accounts_of st"
  by (simp_all add: mark_killed_def put_budget_def set_unit_budget_def create_pairing_def register_activity_def accounts_of_def)

lemmas incident_frames = sweep_rest(1) clear_threshold_rest(1) ack_rest(1,3) notified_rest(1) finding_rest

lemma apply_op_killed:
  "st_killed (apply_op cfg sha op st) =
     (case op of Op_kill org run actor now \<Rightarrow> on_entry [] org (AList.update run True) (st_killed st) | _ \<Rightarrow> st_killed st)"
  by (cases op)
    (simp_all add: control_defs Let_def incident_frames [THEN rest_ofD(2)] store_snapshot_def split: option.split)

lemma apply_op_accounts:
  "case op of Op_ingest org site rs now \<Rightarrow> True | Op_restart now \<Rightarrow> True
   | _ \<Rightarrow> accounts_of (apply_op cfg sha op st) = accounts_of st"
  by (cases op)
    (simp_all add: kill_def kill_audited_def set_budget_def set_budget_audited_def set_unit_budget_audited_def
      store_audit_append_def take_dirty_def Let_def incident_frames [THEN rest_ofD(1)] split: option.split)

text \<open>An operation appends at most one entry, to one chain.\<close>

definition audit_step :: "(string \<Rightarrow> nat list) \<Rightarrow> store \<Rightarrow> store \<Rightarrow> bool" where
  "audit_step sha st st' \<longleftrightarrow>
     st_audit st' = st_audit st
     \<or> (\<exists>now org ac a s d. st_audit st' = st_audit (append_audit_locked sha now org ac a s d st))"

lemma audit_step_same: "st_audit st' = st_audit st \<Longrightarrow> audit_step sha st st'"
  by (simp add: audit_step_def)

lemma audit_step_after: "st_audit st1 = st_audit st \<Longrightarrow> audit_step sha st (append_audit_locked sha now org ac a s d st1)"
  unfolding audit_step_def by (rule disjI2, intro exI) (simp add: append_audit_locked_def)

lemma finding_audit: "audit_step sha st (snd (record_external_finding sha now org who f st))"
proof (cases "is_reserved_incident_id (fi_detector f) (fi_subject f)")
  case True
  then show ?thesis by (simp add: record_external_finding_def audit_step_same)
next
  case False
  obtain inc incs where u: "upsert_incident (st_incidents st) org (fi_detector f) (fi_severity f) (fi_subject f)
      None (if starts_with ''agent://'' (fi_subject f) then Some (fi_subject f) else None) (fi_ts_millis f) = (inc, incs)"
    by (rule prod.exhaust)
  let ?g = "\<lambda>stored. stored\<lparr>ic_source := Some (fi_source f),
      ic_summary := (if fi_summary f \<noteq> [] then Some (fi_summary f) else ic_summary stored)\<rparr>"
  have eq: "snd (record_external_finding sha now org who f st) =
      (case change_incident org (ic_id inc) ?g (st\<lparr>st_incidents := incs\<rparr>) of
         Some (out, st') \<Rightarrow> (append_audit_locked sha now org who ''control.finding_recorded'' (ic_id out) (fi_source f) st')\<lparr>st_dirty := True\<rparr>
       | None \<Rightarrow> st\<lparr>st_incidents := incs, st_dirty := True\<rparr>)"
    using False by (simp add: record_external_finding_def u Let_def split: option.split prod.split)
  show ?thesis
  proof (cases "change_incident org (ic_id inc) ?g (st\<lparr>st_incidents := incs\<rparr>)")
    case None
    then show ?thesis by (simp add: eq audit_step_same)
  next
    case (Some p)
    obtain out st' where p: "p = (out, st')" by (rule prod.exhaust)
    have "st_audit st' = st_audit st" using change_incident_rest [OF Some [unfolded p]] by simp
    then have "audit_step sha st (append_audit_locked sha now org who ''control.finding_recorded'' (ic_id out) (fi_source f) st')"
      by (rule audit_step_after)
    then show ?thesis by (simp add: eq Some p audit_step_def)
  qed
qed

lemma apply_op_audit: "audit_step sha st (apply_op cfg sha op st)"
proof (cases op)
  case (Op_finding org who f now)
  then show ?thesis by (simp add: finding_audit)
next
  case (Op_redeem code nu d audited)
  have same: "st_audit (snd (redeem_pairing sha code nu d st)) = st_audit st" by simp
  then show ?thesis
    by (cases "redeem_pairing sha code nu d st"; cases audited)
      (auto simp: Op_redeem redeem_pairing_audited_def intro: audit_step_after audit_step_same split: option.split)
next
  case (Op_ack org i actor now)
  show ?thesis
  proof (cases "change_incident org i (\<lambda>inc. inc\<lparr>ic_acknowledged := True\<rparr>) st")
    case None
    then show ?thesis by (simp add: Op_ack ack_incident_def ack_incident_audited_def audit_step_same split: option.split)
  next
    case (Some p)
    obtain inc st' where p: "p = (inc, st')" by (rule prod.exhaust)
    have "st_audit (st'\<lparr>st_dirty := True\<rparr>) = st_audit st" using change_incident_rest [OF Some [unfolded p]] by simp
    with Some show ?thesis
      by (simp add: Op_ack p ack_incident_def ack_incident_audited_def audit_step_same audit_step_after split: option.split)
  qed
next
  case (Op_budget org run micros actor now)
  have e: "audit_step sha st (clear_budget_threshold_locked org run s) = audit_step sha st s" for s
    by (simp add: audit_step_def)
  have p: "st_audit (put_budget org run micros st) = st_audit st" by (simp add: put_budget_def)
  show ?thesis
    by (cases actor) (simp_all add: Op_budget set_budget_def set_budget_audited_def e audit_step_after [OF p] audit_step_same [OF p])
qed (simp_all add: kill_def kill_audited_def mark_killed_def set_unit_budget_def set_unit_budget_audited_def
      store_audit_append_def create_pairing_def register_activity_def take_dirty_def Let_def store_snapshot_def
      audit_step_after audit_step_same split: option.split)

definition chain_step :: "(string \<Rightarrow> nat list) \<Rightarrow> audit_entry list \<Rightarrow> audit_entry list \<Rightarrow> bool" where
  "chain_step sha chain chain' \<longleftrightarrow>
     chain' = chain \<or> (\<exists>now ac a s d. chain' = chain @
       [audit_append sha (if chain = [] then None else Some (last chain)) now ac a s d])"

lemma audit_step_chain: "audit_step sha st st' \<Longrightarrow> chain_step sha (audit_of st o') (audit_of st' o')"
proof -
  assume "audit_step sha st st'"
  then consider "st_audit st' = st_audit st"
    | now org ac a s d where "st_audit st' = st_audit (append_audit_locked sha now org ac a s d st)"
    unfolding audit_step_def by blast
  then show ?thesis
  proof cases
    case 1
    then show ?thesis by (simp add: chain_step_def audit_of_def)
  next
    case 2
    then have "audit_of st' o' = audit_of (append_audit_locked sha now org ac a s d st) o'" by (simp add: audit_of_def)
    then show ?thesis unfolding chain_step_def audit_of_append by (cases "o' = org") (fastforce, simp)
  qed
qed

lemma audit_step_table: "audit_step sha st st' \<Longrightarrow> table_ok (st_audit st) \<Longrightarrow> table_ok (st_audit st')"
  by (auto simp: audit_step_def append_audit_locked_def)

text \<open>Pairings, devices and nonces.\<close>

lemma load_snapshot_tables [simp]:
  "st_pairings (load_snapshot sha now snap st) = st_pairings st"
  "st_devices (load_snapshot sha now snap st) = snd (load_devices sha (sn_devices snap))"
  "st_nonces (load_snapshot sha now snap st) = load_nonces now (sn_nonces snap)"
  by (simp_all add: load_snapshot_def split: prod.split)

lemma device_frames [simp]:
  "st_devices (append_audit_locked sha now org ac a s d st) = st_devices st"
  "st_nonces (append_audit_locked sha now org ac a s d st) = st_nonces st"
  "st_devices (mark_killed org run st) = st_devices st" "st_nonces (mark_killed org run st) = st_nonces st"
  "st_pairings (mark_killed org run st) = st_pairings st"
  "st_devices (put_budget org run m st) = st_devices st" "st_nonces (put_budget org run m st) = st_nonces st"
  "st_pairings (put_budget org run m st) = st_pairings st"
  "st_devices (set_unit_budget org u m st) = st_devices st" "st_nonces (set_unit_budget org u m st) = st_nonces st"
  "st_pairings (set_unit_budget org u m st) = st_pairings st"
  "st_devices (register_activity org run tok st) = st_devices st" "st_nonces (register_activity org run tok st) = st_nonces st"
  "st_pairings (register_activity org run tok st) = st_pairings st"
  "st_devices (create_pairing code org role ex st) = st_devices st" "st_nonces (create_pairing code org role ex st) = st_nonces st"
  by (simp_all add: append_audit_locked_def mark_killed_def put_budget_def set_unit_budget_def register_activity_def
      create_pairing_def)

lemma ingest_devices [simp]:
  "st_devices (fst (ingest_at_from cfg org site rs now st)) = st_devices st"
  "st_nonces (fst (ingest_at_from cfg org site rs now st)) = st_nonces st"
  by (simp_all add: books_ofD(16,18) [OF ingest_at_from_books] ingest_books_def Let_def)

lemma apply_op_pairings:
  "st_pairings (apply_op cfg sha op st) =
     (case op of Op_create_pairing code org role ex \<Rightarrow>
        AList.update code \<lparr>pr_org = org, pr_role = role, pr_expires_unix = ex\<rparr> (st_pairings st)
      | Op_redeem code nu d audited \<Rightarrow> AList.delete code (st_pairings st)
      | Op_restart now \<Rightarrow> [] | _ \<Rightarrow> st_pairings st)"
proof (cases op)
  case (Op_redeem code nu d audited)
  have "map_of m code = None \<Longrightarrow> AList.delete code m = m" for m :: "(string, pairing) table"
    by (induction m) auto
  then show ?thesis
    by (cases audited) (simp_all add: Op_redeem redeem_pairing_def Let_def split: option.split)
next
  case (Op_create_pairing code org role ex)
  then show ?thesis by (simp add: create_pairing_def)
next
  case (Op_restart now)
  then show ?thesis by (simp add: store_new_def)
qed (simp_all add: kill_def kill_audited_def set_budget_def set_budget_audited_def set_unit_budget_audited_def
      store_audit_append_def take_dirty_def Let_def incident_frames [THEN rest_ofD(7)] split: option.split)

lemma apply_op_devices:
  "st_devices (apply_op cfg sha op st) =
     (case op of Op_redeem code nu d audited \<Rightarrow>
        (case map_of (st_pairings st) code of
           None \<Rightarrow> st_devices st
         | Some p \<Rightarrow> if pr_expires_unix p < nu then st_devices st
                     else AList.update (digest sha (dq_token d)) (device_of p d) (st_devices st))
      | Op_apns dev tok \<Rightarrow> snd (set_apns_in dev tok (st_devices st))
      | Op_restart now \<Rightarrow> snd (load_devices sha (st_devices st)) | _ \<Rightarrow> st_devices st)"
proof (cases op)
  case (Op_redeem code nu d audited)
  then show ?thesis by (cases audited) (simp_all add: redeem_pairing_def Let_def split: option.split)
qed (simp_all add: kill_def kill_audited_def set_budget_def set_budget_audited_def set_unit_budget_audited_def
      store_audit_append_def take_dirty_def Let_def incident_frames [THEN rest_ofD(6)] store_snapshot_def split: option.split)

lemma apply_op_nonces:
  "st_nonces (apply_op cfg sha op st) =
     (case op of Op_nonce dev nonce ts \<Rightarrow> st_nonces (snd (check_and_record_nonce dev nonce ts st))
      | Op_restart now \<Rightarrow> load_nonces now (st_nonces st) | _ \<Rightarrow> st_nonces st)"
  by (cases op)
    (simp_all add: kill_def kill_audited_def set_budget_def set_budget_audited_def set_unit_budget_audited_def
      store_audit_append_def take_dirty_def Let_def incident_frames [THEN rest_ofD(8)] store_snapshot_def split: option.split)

end
