(* ===== verification/Cloud_History.thy ===== *)
theory Cloud_History
  imports Cloud_Frames "HOL-Library.Sublist"
begin

text \<open>
  What holds of the store after a whole history: the accounts, the kills, the audit chains, the
  devices and the nonces, each told from the operations that were applied.
\<close>

lemma cloud_run_fold:
  "cloud_run cfg sha ops st \<longleftrightarrow> st = fold (apply_op cfg sha) ops store_new \<and> weight ops \<le> U64_MAX"
proof (induction ops arbitrary: st rule: rev_induct)
  case Nil
  show ?case by (auto intro: cloud_run.start elim: cloud_run.cases)
next
  case (snoc op ops)
  show ?case
  proof
    assume "cloud_run cfg sha (ops @ [op]) st"
    then show "st = fold (apply_op cfg sha) (ops @ [op]) store_new \<and> weight (ops @ [op]) \<le> U64_MAX"
      by (cases rule: cloud_run.cases) (use snoc in auto)
  next
    assume a: "st = fold (apply_op cfg sha) (ops @ [op]) store_new \<and> weight (ops @ [op]) \<le> U64_MAX"
    then have "cloud_run cfg sha ops (fold (apply_op cfg sha) ops store_new)" by (simp add: snoc)
    from cloud_run.step [OF this] a show "cloud_run cfg sha (ops @ [op]) st" by simp
  qed
qed

lemma cloud_run_store: "cloud_run cfg sha ops st \<Longrightarrow> store_ok 0 st"
  using cloud_run_ok [of cfg sha ops st] store_ok_less [of 0 "U64_MAX - weight ops" st] by simp

section \<open>Accounts\<close>

fun op_pushed :: "string \<Rightarrow> cloud_op \<Rightarrow> cloud_record list" where
  "op_pushed org (Op_ingest o' site records now) = (if o' = org then records else [])"
| "op_pushed org op = []"

definition pushed :: "string \<Rightarrow> cloud_op list \<Rightarrow> cloud_record list" where
  "pushed org ops = concat (map (op_pushed org) ops)"

lemma pushed_snoc [simp]: "pushed org [] = []" "pushed org (ops @ [op]) = pushed org ops @ op_pushed org op"
  by (simp_all add: pushed_def)

lemma pushed_weight: "length (pushed org ops) \<le> weight ops"
proof (induction ops rule: rev_induct)
  case (snoc op ops)
  have "length (op_pushed org op) \<le> op_weight op" by (cases op) auto
  with snoc show ?case by simp
qed simp

definition accounts_exact :: "string \<Rightarrow> cloud_record list \<Rightarrow> store \<Rightarrow> bool" where
  "accounts_exact org rs st \<longleftrightarrow>
     (let t = entry_or org_totals_new org (st_org_totals st); v = entry_or savings_totals_new org (st_savings st)
      in ot_calls t = length rs mod 2 ^ 64
         \<and> ot_spent t = sat_i64 (sum_where (\<lambda>r. \<not> is_blocked (cl_decision r)) record_cost rs)
         \<and> (\<forall>d. is_known_decision d \<longrightarrow> entry_or 0 d (entry_or [] org (st_decision_counts st)) =
               length (filter (\<lambda>r. cl_decision r = d) rs) mod 2 ^ 64)
         \<and> sv_blocked_spend v = sat_i64 (sum_where (\<lambda>r. is_budget_protection (cl_decision r)) record_cost rs)
         \<and> sv_cache_saved v = sat_i64 (sum_where (\<lambda>r. cl_decision r = ''cache_hit'') record_saved rs)
         \<and> sv_router_saved v = sat_i64 (sum_where (\<lambda>r. cl_decision r = ''allow'') record_saved rs))"

lemma accounts_exact_cong:
  "accounts_of st' = accounts_of st \<Longrightarrow> accounts_exact org rs st' = accounts_exact org rs st"
  by (simp add: accounts_exact_def accounts_of_def)

lemma sum_where_append [simp]: "sum_where P f (xs @ ys) = sum_where P f xs + sum_where P f ys"
  by (simp add: sum_where_def)

lemma ingest_exact:
  assumes "accounts_exact org rs st"
  shows "accounts_exact org (rs @ op_pushed org (Op_ingest o' site new now)) (fst (ingest_at_from cfg o' site new now st))"
proof (cases "o' = org")
  case True
  define g0 where "g0 = (borrow_org org now st)\<lparr>og_gateway := gateway_push now (entry_or gateway_acc_new
    (gateway_key site (entry_or [] org (st_gateways st))) (entry_or [] org (st_gateways st)))\<rparr>"
  define g where "g = ingest_records (cf_over_line cfg) (map_of (st_budgets st) org) site (month_key now) new g0"
  have f: "entry_or org_totals_new org (st_org_totals (fst (ingest_at_from cfg org site new now st))) = og_totals g"
    "entry_or savings_totals_new org (st_savings (fst (ingest_at_from cfg org site new now st))) = og_sav g"
    "entry_or [] org (st_decision_counts (fst (ingest_at_from cfg org site new now st))) = og_decisions g"
    by (simp_all add: books_ofD(6,10,13) [OF ingest_at_from_books] ingest_books_def Let_def g_def g0_def)
  have g0: "og_totals g0 = entry_or org_totals_new org (st_org_totals st)"
    "og_sav g0 = entry_or savings_totals_new org (st_savings st)"
    "og_decisions g0 = entry_or [] org (st_decision_counts st)"
    by (simp_all add: g0_def borrow_org_def)
  have nn: "0 \<le> sum_where P record_cost xs" "0 \<le> sum_where P record_saved xs" for P xs
    by (simp_all add: sum_where_nonneg)
  have t: "ot_calls (og_totals g0) = length rs mod 2 ^ 64"
    "ot_spent (og_totals g0) = sat_i64 (sum_where (\<lambda>r. \<not> is_blocked (cl_decision r)) record_cost rs)"
    and d: "\<And>d. is_known_decision d \<Longrightarrow> entry_or 0 d (og_decisions g0) = length (filter (\<lambda>r. cl_decision r = d) rs) mod 2 ^ 64"
    and v: "sv_cache_saved (og_sav g0) = sat_i64 (sum_where (\<lambda>r. cl_decision r = ''cache_hit'') record_saved rs)"
      "sv_router_saved (og_sav g0) = sat_i64 (sum_where (\<lambda>r. cl_decision r = ''allow'') record_saved rs)"
      "sv_blocked_spend (og_sav g0) = sat_i64 (sum_where (\<lambda>r. is_budget_protection (cl_decision r)) record_cost rs)"
    using assms by (simp_all add: accounts_exact_def g0 Let_def)
  show ?thesis
    using ingest_totals [OF t(1,2) nn(1)] ingest_decisions [OF d] ingest_savings [OF v nn(2) nn(2) nn(1)] True
    by (simp add: accounts_exact_def f g_def Let_def)
next
  case False
  then have "entry_or d org (st_org_totals (fst (ingest_at_from cfg o' site new now st))) = entry_or d org (st_org_totals st)"
    "entry_or e org (st_savings (fst (ingest_at_from cfg o' site new now st))) = entry_or e org (st_savings st)"
    "entry_or c org (st_decision_counts (fst (ingest_at_from cfg o' site new now st))) = entry_or c org (st_decision_counts st)"
    for c d e
    by (simp_all add: books_ofD(6,10,13) [OF ingest_at_from_books] ingest_books_def Let_def)
  with assms False show ?thesis by (simp add: accounts_exact_def)
qed

lemma op_accounts_cases:
  obtains (ingest) o' site new now where "op = Op_ingest o' site new now"
  | (restart) now where "op = Op_restart now"
  | (same) "accounts_of (apply_op cfg sha op st) = accounts_of st" "\<And>org. op_pushed org op = []"
proof (cases op)
qed (use apply_op_accounts [where op = op and cfg = cfg and sha = sha and st = st] that
    in \<open>simp_all del: apply_op.simps\<close>)

lemma cloud_run_exact: "cloud_run cfg sha ops st \<Longrightarrow> accounts_exact org (pushed org ops) st"
proof (induction rule: cloud_run.induct)
  case start
  show ?case by (simp add: accounts_exact_def store_new_def org_totals_new_def savings_totals_new_def sum_where_def sat_i64_def machine_bounds)
next
  case (step ops st op)
  show ?case
  proof (cases rule: op_accounts_cases [where op = op and cfg = cfg and sha = sha and st = st])
    case (ingest o' site new now)
    with ingest_exact [OF step.IH] show ?thesis by simp
  next
    case (restart now)
    have "accounts_exact org (pushed org ops) (load_snapshot sha now (store_snapshot st) store_new)"
      using step.IH unfolding restart_eq [OF cloud_run_store [OF step.hyps(1)]] by (simp add: accounts_exact_def)
    then show ?thesis by (simp add: restart)
  next
    case same
    show ?thesis using step.IH same(2) accounts_exact_cong [OF same(1)] by simp
  qed
qed

section \<open>Kills\<close>

definition killed_by :: "string \<Rightarrow> string \<Rightarrow> cloud_op \<Rightarrow> bool" where
  "killed_by org run op \<longleftrightarrow> (case op of Op_kill o' r actor now \<Rightarrow> o' = org \<and> r = run | _ \<Rightarrow> False)"

lemma apply_op_run_killed:
  "run_killed (apply_op cfg sha op st) org run \<longleftrightarrow> run_killed st org run \<or> killed_by org run op"
  by (simp add: run_killed_def apply_op_killed killed_by_def split: cloud_op.split)

lemma run_killed_fold:
  "run_killed (fold (apply_op cfg sha) ops st) org run \<longleftrightarrow> run_killed st org run \<or> list_ex (killed_by org run) ops"
  by (induction ops arbitrary: st) (auto simp: apply_op_run_killed simp del: apply_op.simps)

section \<open>Audit chains\<close>

lemma chain_step_verifies: "chain_step sha c c' \<Longrightarrow> verify_chain sha c = Inr () \<Longrightarrow> verify_chain sha c' = Inr ()"
proof -
  have "tip_of None c = (if c = [] then None else Some (last c))" for c :: "audit_entry list"
    by (simp add: tip_of_def)
  then show "chain_step sha c c' \<Longrightarrow> verify_chain sha c = Inr () \<Longrightarrow> verify_chain sha c' = Inr ()"
    by (auto simp: chain_step_def verify_chain_def verify_snoc append_entry_ok split: if_splits)
qed

lemma chain_step_prefix: "chain_step sha c c' \<Longrightarrow> prefix c c'"
  by (auto simp: chain_step_def)

lemma audit_fold:
  "prefix (audit_of st org) (audit_of (fold (apply_op cfg sha) ops st) org)
   \<and> (verify_chain sha (audit_of st org) = Inr () \<longrightarrow>
      verify_chain sha (audit_of (fold (apply_op cfg sha) ops st) org) = Inr ())"
proof (induction ops arbitrary: st)
  case (Cons op ops)
  note s = audit_step_chain [OF apply_op_audit [where op = op and cfg = cfg and sha = sha and st = st], of org]
  show ?case
    using Cons.IH [of "apply_op cfg sha op st"] chain_step_prefix [OF s] chain_step_verifies [OF s]
    by (auto simp del: apply_op.simps intro: prefix_order.trans)
qed simp

lemma audit_table: "table_ok (st_audit (fold (apply_op cfg sha) ops store_new))"
  by (induction ops rule: rev_induct)
    (auto simp: store_new_def intro: audit_step_table [OF apply_op_audit] simp del: apply_op.simps)

section \<open>Devices\<close>

text \<open>A pairing waits since it was created, and no redemption of its code came since.\<close>

definition pairing_waits :: "cloud_op list \<Rightarrow> string \<Rightarrow> pairing \<Rightarrow> bool" where
  "pairing_waits ops code p \<longleftrightarrow>
     (\<exists>pre post. ops = pre @ Op_create_pairing code (pr_org p) (pr_role p) (pr_expires_unix p) # post
        \<and> (\<forall>op \<in> set post. case op of Op_redeem c nu d audited \<Rightarrow> c \<noteq> code | Op_restart now \<Rightarrow> False | _ \<Rightarrow> True))"

definition device_paired :: "(string \<Rightarrow> nat list) \<Rightarrow> cloud_op list \<Rightarrow> string \<Rightarrow> device \<Rightarrow> bool" where
  "device_paired sha ops key d \<longleftrightarrow>
     (\<exists>before code p nu dq audited after.
        ops = before @ Op_redeem code nu dq audited # after \<and> pairing_waits before code p
        \<and> nu \<le> pr_expires_unix p \<and> key = digest sha (dq_token dq)
        \<and> d\<lparr>dv_apns_token := None\<rparr> = device_of p dq)"

lemma pairing_waits_snoc:
  "pairing_waits ops code p \<Longrightarrow> (case op of Op_redeem c nu d audited \<Rightarrow> c \<noteq> code | Op_restart now \<Rightarrow> False | _ \<Rightarrow> True) \<Longrightarrow>
     pairing_waits (ops @ [op]) code p"
proof -
  assume "pairing_waits ops code p"
    and op: "case op of Op_redeem c nu d audited \<Rightarrow> c \<noteq> code | Op_restart now \<Rightarrow> False | _ \<Rightarrow> True"
  then obtain pre post where
    "ops = pre @ Op_create_pairing code (pr_org p) (pr_role p) (pr_expires_unix p) # post"
    "\<forall>op \<in> set post. case op of Op_redeem c nu d audited \<Rightarrow> c \<noteq> code | Op_restart now \<Rightarrow> False | _ \<Rightarrow> True"
    unfolding pairing_waits_def by blast
  with op show "pairing_waits (ops @ [op]) code p"
    unfolding pairing_waits_def by (intro exI [of _ pre] exI [of _ "post @ [op]"]) auto
qed

lemma pairing_waits_now: "pairing_waits (ops @ [Op_create_pairing code org role ex]) code \<lparr>pr_org = org, pr_role = role, pr_expires_unix = ex\<rparr>"
  unfolding pairing_waits_def by (intro exI [of _ ops] exI [of _ "[]"]) simp

lemma device_paired_snoc: "device_paired sha ops key d \<Longrightarrow> device_paired sha (ops @ [op]) key d"
  unfolding device_paired_def append_assoc by (metis (lifting) append_Cons append_assoc)

lemma cloud_run_pairings: "cloud_run cfg sha ops st \<Longrightarrow> map_of (st_pairings st) code = Some p \<Longrightarrow> pairing_waits ops code p"
proof (induction arbitrary: code p rule: cloud_run.induct)
  case start
  then show ?case by (simp add: store_new_def)
next
  case (step ops st op)
  show ?case
  proof (cases op)
    case (Op_create_pairing c org role ex)
    show ?thesis
    proof (cases "c = code")
      case True
      then have "p = \<lparr>pr_org = org, pr_role = role, pr_expires_unix = ex\<rparr>"
        using step.prems by (simp add: apply_op_pairings Op_create_pairing del: apply_op.simps)
      with pairing_waits_now True Op_create_pairing show ?thesis by simp
    next
      case False
      then have "map_of (st_pairings st) code = Some p"
        using step.prems by (simp add: apply_op_pairings Op_create_pairing del: apply_op.simps)
      with step.IH Op_create_pairing show ?thesis by (simp add: pairing_waits_snoc)
    qed
  qed (use step.prems step.IH in \<open>auto simp: apply_op_pairings intro!: pairing_waits_snoc simp del: apply_op.simps split: if_splits\<close>)
qed

lemma set_apns_same:
  "map_of (snd (set_apns_in dev tok ds)) key = Some d \<Longrightarrow>
     \<exists>d0. map_of ds key = Some d0 \<and> d\<lparr>dv_apns_token := None\<rparr> = d0\<lparr>dv_apns_token := None\<rparr>"
proof (induction dev tok ds rule: set_apns_in.induct)
  case (2 dev tok k d0 ds)
  then show ?case by (cases "set_apns_in dev tok ds") (auto split: if_splits)
qed simp

lemma cloud_run_devices: "cloud_run cfg sha ops st \<Longrightarrow> map_of (st_devices st) key = Some d \<Longrightarrow> device_paired sha ops key d"
proof (induction arbitrary: key d rule: cloud_run.induct)
  case start
  then show ?case by (simp add: store_new_def)
next
  case (step ops st op)
  show ?case
  proof (cases "map_of (st_devices st) key = Some d")
    case True
    with step.IH show ?thesis by (simp add: device_paired_snoc)
  next
    case False
    show ?thesis
    proof (cases op)
      case (Op_redeem code nu dq audited)
      with step.prems False obtain p where p: "map_of (st_pairings st) code = Some p" "\<not> pr_expires_unix p < nu"
          "key = digest sha (dq_token dq)" "d = device_of p dq"
        by (auto simp: apply_op_devices simp del: apply_op.simps split: option.splits if_splits)
      have "d\<lparr>dv_apns_token := None\<rparr> = device_of p dq" by (simp add: p(4) device_of_def)
      with p cloud_run_pairings [OF step.hyps(1) p(1)] show ?thesis
        unfolding device_paired_def Op_redeem by (intro exI conjI) (auto simp: not_less)
    next
      case (Op_apns dev tok)
      with step.prems obtain d0 where "map_of (st_devices st) key = Some d0"
          "d\<lparr>dv_apns_token := None\<rparr> = d0\<lparr>dv_apns_token := None\<rparr>"
        using set_apns_same by (fastforce simp: apply_op_devices simp del: apply_op.simps)
      with step.IH [of key d0] have "device_paired sha ops key d" by (simp add: device_paired_def)
      then show ?thesis by (rule device_paired_snoc)
    next
      case (Op_restart now)
      have "snd (load_devices sha (st_devices st)) = st_devices st"
        using load_devices_same [OF store_okD(4) [OF cloud_run_store [OF step.hyps(1)]]] by simp
      with step.prems False show ?thesis by (simp add: apply_op_devices Op_restart del: apply_op.simps)
    qed (use step.prems False in \<open>simp_all add: apply_op_devices del: apply_op.simps\<close>)
  qed
qed

section \<open>Nonces\<close>

definition nonce_of_device :: "string \<Rightarrow> cloud_op \<Rightarrow> bool" where
  "nonce_of_device dev op \<longleftrightarrow> (case op of Op_nonce d nonce ts \<Rightarrow> d = dev | _ \<Rightarrow> False)"

definition restart_keeps :: "int \<Rightarrow> cloud_op \<Rightarrow> bool" where
  "restart_keeps ts op \<longleftrightarrow>
     (case op of Op_restart now \<Rightarrow> wrap_i64 \<bar>wrap_i64 (now - ts)\<bar> \<le> SIGNATURE_WINDOW_SECS | _ \<Rightarrow> True)"

text \<open>A nonce is on a device's ring with at most \<open>k\<close> younger ones behind it.\<close>

definition on_ring :: "string \<Rightarrow> string \<Rightarrow> int \<Rightarrow> nat \<Rightarrow> store \<Rightarrow> bool" where
  "on_ring dev nonce ts k st \<longleftrightarrow>
     (\<exists>pre post. entry_or [] dev (st_nonces st) = pre @ (nonce, ts) # post \<and> length post \<le> k)"

lemma check_nonce_fst: "fst (check_and_record_nonce dev nonce ts st) \<longleftrightarrow> nonce \<notin> fst ` set (entry_or [] dev (st_nonces st))"
  by (simp add: check_and_record_nonce_def Let_def)

lemma check_nonce_ring:
  "entry_or [] d (st_nonces (snd (check_and_record_nonce dev nonce ts st))) =
     (if d = dev \<and> fst (check_and_record_nonce dev nonce ts st)
      then keep_last NONCE_CAP (entry_or [] dev (st_nonces st) @ [(nonce, ts)]) else entry_or [] d (st_nonces st))"
  by (simp add: check_and_record_nonce_def Let_def)

lemma keep_last_snoc: "length post < n \<Longrightarrow> \<exists>pre'. keep_last n (pre @ x # post) = pre' @ x # post"
  by (auto simp: keep_last_def intro!: exI [of _ "drop (length pre + Suc (length post) - n) pre"])

lemma on_ring_now:
  assumes "fst (check_and_record_nonce dev nonce ts st)"
  shows "on_ring dev nonce ts 0 (snd (check_and_record_nonce dev nonce ts st))"
  using keep_last_snoc [of "[]" NONCE_CAP "entry_or [] dev (st_nonces st)" "(nonce, ts)"] assms
  by (auto simp: on_ring_def check_nonce_ring NONCE_CAP_def)

lemma load_nonces_ring:
  assumes "nonces_ok ns"
  shows "entry_or [] dev (load_nonces now ns) =
     filter (\<lambda>(nonce, ts). wrap_i64 \<bar>wrap_i64 (now - ts)\<bar> \<le> SIGNATURE_WINDOW_SECS) (entry_or [] dev ns)"
proof -
  define f where "f = filter (\<lambda>(nonce :: string, ts). wrap_i64 \<bar>wrap_i64 (now - ts)\<bar> \<le> SIGNATURE_WINDOW_SECS)"
  have "distinct (map fst ns)" using assms by (simp add: nonces_ok_def table_ok_def)
  then have "entry_or [] dev (filter (\<lambda>(device, kept). kept \<noteq> []) (map (\<lambda>(device, ring). (device, f ring)) ns)) =
      f (entry_or [] dev ns)"
  proof (induction ns)
    case (Cons x ns)
    have "f [] = []" by (simp add: f_def)
    moreover have "fst x \<notin> fst ` set (filter (\<lambda>(device, kept). kept \<noteq> []) (map (\<lambda>(device, ring). (device, f ring)) ns))"
      using Cons.prems by (auto intro: rev_image_eqI)
    then have "map_of (filter (\<lambda>(device, kept). kept \<noteq> []) (map (\<lambda>(device, ring). (device, f ring)) ns)) (fst x) = None"
      by (simp add: map_of_eq_None_iff)
    ultimately show ?case using Cons by (cases x) (auto simp: entry_or_def)
  qed (simp add: f_def)
  then show ?thesis by (simp add: load_nonces_def f_def)
qed

lemma on_ring_step:
  assumes ring: "on_ring dev nonce ts k st" and ok: "nonces_ok (st_nonces st)"
    and op: "restart_keeps ts op" and k: "k + (if nonce_of_device dev op then 1 else 0) < NONCE_CAP"
  shows "on_ring dev nonce ts (k + (if nonce_of_device dev op then 1 else 0)) (apply_op cfg sha op st)"
proof -
  obtain pre post where r: "entry_or [] dev (st_nonces st) = pre @ (nonce, ts) # post" "length post \<le> k"
    using ring by (auto simp: on_ring_def)
  show ?thesis
  proof (cases op)
    case (Op_nonce d n2 ts2)
    then have n: "st_nonces (apply_op cfg sha op st) = st_nonces (snd (check_and_record_nonce d n2 ts2 st))"
      by (simp only: apply_op_nonces cloud_op.case)
    show ?thesis
    proof (cases "d = dev \<and> fst (check_and_record_nonce d n2 ts2 st)")
      case True
      then have d: "nonce_of_device dev op" by (simp add: Op_nonce nonce_of_device_def)
      have "length (post @ [(n2, ts2)]) < NONCE_CAP" using r(2) k d by simp
      from keep_last_snoc [OF this, of pre "(nonce, ts)"] obtain pre' where
        "keep_last NONCE_CAP (entry_or [] dev (st_nonces st) @ [(n2, ts2)]) = pre' @ (nonce, ts) # post @ [(n2, ts2)]"
        by (auto simp: r(1))
      then have "entry_or [] dev (st_nonces (apply_op cfg sha op st)) = pre' @ (nonce, ts) # post @ [(n2, ts2)]"
        unfolding n check_nonce_ring using True by (metis (full_types))
      then show ?thesis unfolding on_ring_def using r(2) d by fastforce
    next
      case False
      then have "entry_or [] dev (st_nonces (apply_op cfg sha op st)) = entry_or [] dev (st_nonces st)"
        unfolding n check_nonce_ring by auto
      with r show ?thesis unfolding on_ring_def by fastforce
    qed
  next
    case (Op_restart now)
    then have "entry_or [] dev (st_nonces (apply_op cfg sha op st)) =
        filter (\<lambda>(nonce, ts). wrap_i64 \<bar>wrap_i64 (now - ts)\<bar> \<le> SIGNATURE_WINDOW_SECS) (pre @ (nonce, ts) # post)"
      unfolding apply_op_nonces using load_nonces_ring [OF ok] r(1) by simp
    with op show ?thesis
      unfolding on_ring_def using r(2)
      by (fastforce simp: Op_restart restart_keeps_def intro: le_trans [OF length_filter_le])
  qed (use r in \<open>auto simp: on_ring_def apply_op_nonces nonce_of_device_def simp del: apply_op.simps\<close>)
qed

lemma on_ring_run:
  assumes "cloud_run cfg sha (ops @ later) st'" and "on_ring dev nonce ts 0 (fold (apply_op cfg sha) ops store_new)"
    and "list_all (restart_keeps ts) later" and "length (filter (nonce_of_device dev) later) < NONCE_CAP"
  shows "on_ring dev nonce ts (length (filter (nonce_of_device dev) later)) st'"
  using assms
proof (induction later arbitrary: st' rule: rev_induct)
  case Nil
  then show ?case by (simp add: cloud_run_fold)
next
  case (snoc op later)
  define st where "st = fold (apply_op cfg sha) (ops @ later) store_new"
  have eq: "st' = apply_op cfg sha op st" and w: "weight ((ops @ later) @ [op]) \<le> U64_MAX"
    using snoc.prems(1) by (simp_all add: cloud_run_fold st_def)
  have run: "cloud_run cfg sha (ops @ later) st"
    using w unfolding weight_snoc by (simp add: cloud_run_fold st_def)
  have "on_ring dev nonce ts (length (filter (nonce_of_device dev) later)) st"
    by (rule snoc.IH [OF run snoc.prems(2)]) (use snoc.prems(3,4) in \<open>auto split: if_splits\<close>)
  from on_ring_step [OF this store_okD(6) [OF cloud_run_store [OF run]], of op cfg sha] snoc.prems(3,4)
  show ?case by (simp add: eq split: if_splits)
qed

end
