(* ===== verification/Cloud_Tenants.thy ===== *)
theory Cloud_Tenants
  imports Cloud_Frames
begin

text \<open>
  One store holds the tables of every org. An operation that names an org moves that org's tables
  only; the detectors' memories, bounded over all orgs together, are the one thing orgs share.
\<close>

section \<open>What belongs to an org\<close>

definition org_view where
  "org_view st o' =
     (map_of (st_orgs st) o', map_of (st_killed st) o', map_of (st_budgets st) o', map_of (st_unit_budgets st) o',
      map_of (st_series st) o', map_of (st_savings st) o', map_of (st_spend_days st) o', map_of (st_unit_months st) o',
      map_of (st_gateways st) o', map_of (st_decision_counts st) o', map_of (st_incidents st) o', map_of (st_audit st) o',
      map_of (st_provider_failures st) o', map_of (st_org_totals st) o', map_of (st_run_recency st) o',
      map_of (st_break_recency st) o', map_of (st_activities st) o')"

definition only_org :: "string \<Rightarrow> store \<Rightarrow> store \<Rightarrow> bool" where
  "only_org org st st' \<longleftrightarrow> (\<forall>o'. o' \<noteq> org \<longrightarrow> org_view st' o' = org_view st o')"

lemma only_org_refl [simp]: "only_org org st st"
  by (simp add: only_org_def)

lemma only_org_trans: "only_org org st st1 \<Longrightarrow> only_org org st1 st2 \<Longrightarrow> only_org org st st2"
  by (simp add: only_org_def)

fun op_org :: "cloud_op \<Rightarrow> string option" where
  "op_org (Op_ingest org site records now) = Some org"
| "op_org (Op_provider org site provider n detail now) = Some org"
| "op_org (Op_kill org run actor now) = Some org"
| "op_org (Op_budget org run micros actor now) = Some org"
| "op_org (Op_unit_budget org u micros actor now) = Some org"
| "op_org (Op_ack org i actor now) = Some org"
| "op_org (Op_finding org who f now) = Some org"
| "op_org (Op_notified org i now window) = Some org"
| "op_org (Op_audit org actor action subject detail now) = Some org"
| "op_org (Op_create_pairing code org role expires) = Some org"
| "op_org (Op_activity org run token) = Some org"
| "op_org op = None"

section \<open>The detectors\<close>

lemma upsert_other: "upsert_incident_with incs org kind sev scope run ag ts ev = (inc, incs') \<Longrightarrow> o' \<noteq> org \<Longrightarrow>
    map_of incs' o' = map_of incs o'"
  by (auto simp: upsert_incident_with_def Let_def)

text \<open>The incidents of every org but one.\<close>

definition other_incidents :: "string \<Rightarrow> store \<Rightarrow> string \<Rightarrow> (string, incident) table option" where
  "other_incidents org st = (map_of (st_incidents st))(org := None)"

lemma raised_others:
  "upsert_incident (st_incidents st) org kind sev scope run ag ts = (inc, incs) \<Longrightarrow>
     (map_of incs)(org := None) = (map_of (st_incidents st))(org := None)"
  unfolding upsert_incident_def using upsert_other by (fastforce simp: fun_eq_iff)

lemma others_updates [simp]:
  "other_incidents org (st\<lparr>st_tracker := x1\<rparr>) = other_incidents org st"
  "other_incidents org (st\<lparr>st_fanout_tracker := x2\<rparr>) = other_incidents org st"
  "other_incidents org (st\<lparr>st_fanout_history := x3\<rparr>) = other_incidents org st"
  "other_incidents org (st\<lparr>st_fanout_active := x4\<rparr>) = other_incidents org st"
  "other_incidents org (st\<lparr>st_stall := x5\<rparr>) = other_incidents org st"
  "other_incidents org (st\<lparr>st_spike_active := x6\<rparr>) = other_incidents org st"
  "other_incidents org (st\<lparr>st_incidents := incs\<rparr>) = (map_of incs)(org := None)"
  by (simp_all add: other_incidents_def)

lemma raise_incident_others [simp]:
  "other_incidents org (fst (snd (raise_incident org kind sev scope run ag ts p))) = other_incidents org (fst p)"
proof -
  obtain inc incs where u: "upsert_incident (st_incidents (fst p)) org kind sev scope run ag ts = (inc, incs)"
    by (rule prod.exhaust)
  show ?thesis using raised_others [OF u] u by (cases p) (simp add: raise_incident_def other_incidents_def)
qed

lemma raise_eq_others:
  "raise_incident org kind sev scope run ag ts (st, al) = (inc, st2, al2) \<Longrightarrow>
     other_incidents org st2 = other_incidents org st"
  using raise_incident_others [of org kind sev scope run ag ts "(st, al)"] by simp

lemma detect_budget_others [simp]: "other_incidents org (fst (detect_budget cfg org now r p)) = other_incidents org (fst p)"
  by (cases p) (simp add: detect_budget_def Let_def raise_incident_split raised_others other_incidents_def split: prod.split)

lemma detect_loop_others [simp]: "other_incidents org (fst (detect_loop cfg org now r p)) = other_incidents org (fst p)"
  by (cases p) (simp add: detect_loop_def Let_def raise_incident_split raised_others other_incidents_def split: prod.split)

lemma detect_fanout_others [simp]: "other_incidents org (fst (detect_fanout cfg org now r p)) = other_incidents org (fst p)"
  by (cases p) (simp add: detect_fanout_def Let_def raise_incident_split raised_others other_incidents_def split: prod.split option.split)

lemma detect_threshold_others [simp]:
  "other_incidents org (fst (detect_threshold cfg org now r p)) = other_incidents org (fst p)"
  by (cases p) (simp add: detect_threshold_def Let_def raise_incident_split raised_others other_incidents_def split: prod.split)

lemma detect_spike_others [simp]: "other_incidents org (fst (detect_spike cfg org now p)) = other_incidents org (fst p)"
proof -
  obtain st al where p: "p = (st, al)" by (rule prod.exhaust)
  obtain burn baseline has where v: "spike_view cfg now (map_of (st_series st) org) = (burn, baseline, has)"
    using prod_cases3 by blast
  define line where "line = sat_i64 (baseline * cf_spike_multiple cfg)"
  define fire where "fire \<longleftrightarrow> has \<and> burn \<ge> cf_spend_per_min_micros cfg \<and> burn \<ge> line"
  obtain inc st1 al1 where u: "raise_incident org ''spend_spike''
      (severity_from_magnitude Sev_high (nat (max 0 burn)) (nat (max 0 (max (cf_spend_per_min_micros cfg) line))))
      [] None None now (st, al) = (inc, st1, al1)"
    using prod_cases3 by blast
  have "fst (detect_spike cfg org now p) =
      (let s' = (if fire \<and> \<not> entry_or False org (st_spike_active st) then st1 else st)
       in if fire \<noteq> entry_or False org (st_spike_active st)
          then s'\<lparr>st_spike_active := AList.update org fire (st_spike_active s')\<rparr> else s')"
    unfolding detect_spike_def p v prod.case Let_def fst_conv snd_conv
    unfolding line_def [symmetric] fire_def [symmetric] u prod.case
    by (cases fire; cases "entry_or False org (st_spike_active st)") simp_all
  with raise_eq_others [OF u] show ?thesis by (simp add: p Let_def)
qed

section \<open>Every operation\<close>

lemma ingest_detect_others [simp]:
  "other_incidents org (fst (ingest_detect cfg org rs now st)) = other_incidents org st"
proof -
  have "other_incidents org (fst (fold (detect_record cfg org now) rs p)) = other_incidents org (fst p)" for p
  proof (induction rs arbitrary: p)
    case (Cons r rs)
    have "other_incidents org (fst (detect_record cfg org now r p)) = other_incidents org (fst p)"
      by (cases p) (simp add: detect_record_def detect_stall_def)
    with Cons show ?case by simp
  qed simp
  then show ?thesis by (simp add: ingest_detect_def)
qed

lemma ingest_books_only:
  assumes "o' \<noteq> org"
  shows "org_view (ingest_books cfg org site rs now st) o' = org_view st o'"
    and "st_incidents (ingest_books cfg org site rs now st) = st_incidents st"
  using assms by (simp_all add: org_view_def ingest_books_def Let_def)

lemma ingest_only: "only_org org st (fst (ingest_at_from cfg org site rs now st))"
  unfolding only_org_def
proof (intro allI impI)
  fix o'
  assume o: "o' \<noteq> org"
  note b = ingest_books_only [OF o, of cfg site rs now st]
  have "fst (ingest_at_from cfg org site rs now st) = fst (ingest_detect cfg org rs now (ingest_books cfg org site rs now st))"
    by (simp add: ingest_at_from_def Let_def split: prod.split)
  then have "other_incidents org (fst (ingest_at_from cfg org site rs now st)) = other_incidents org st"
    using b(2) by (simp add: other_incidents_def del: ingest_detect_others) (simp add: ingest_detect_others [unfolded other_incidents_def])
  from fun_cong [OF this, of o'] o
  have "map_of (st_incidents (fst (ingest_at_from cfg org site rs now st))) o' = map_of (st_incidents st) o'"
    by (simp add: other_incidents_def)
  moreover note books_ofD [OF ingest_at_from_books [of cfg org site rs now st]]
  ultimately show "org_view (fst (ingest_at_from cfg org site rs now st)) o' = org_view st o'"
    using b(1) by (simp only: org_view_def b(2) prod.inject simp_thms)
qed

lemma dirty_view [simp]: "org_view (st\<lparr>st_dirty := b\<rparr>) = org_view st"
  by (simp add: org_view_def fun_eq_iff)

lemma incidents_only: "map_of incs o' = map_of (st_incidents st) o' \<Longrightarrow> org_view (st\<lparr>st_incidents := incs\<rparr>) o' = org_view st o'"
  by (simp add: org_view_def)

lemma change_incident_only: "change_incident org i f st = Some (inc, st') \<Longrightarrow> only_org org st st'"
  by (auto simp: change_incident_def only_org_def incidents_only split: option.splits)

lemma dirty_only [simp]: "only_org org st (s\<lparr>st_dirty := b\<rparr>) = only_org org st s"
  by (simp add: only_org_def)

lemma append_audit_only [simp]: "only_org org st (append_audit_locked sha now org ac a s d st1) = only_org org st st1"
  by (auto simp: only_org_def org_view_def append_audit_locked_def)

lemma control_only:
  "only_org org st (mark_killed org run st)" "only_org org st (put_budget org run m st)"
  "only_org org st (set_unit_budget org u m st)" "only_org org st (register_activity org run tok st)"
  "only_org org st (create_pairing code org role ex st)"
  by (simp_all add: only_org_def org_view_def mark_killed_def put_budget_def set_unit_budget_def register_activity_def
      create_pairing_def)

lemma clear_threshold_only: "only_org org st st1 \<Longrightarrow> only_org org st (clear_budget_threshold_locked org run st1)"
  by (auto simp: only_org_def org_view_def clear_budget_threshold_locked_def split: option.split)

lemma provider_incident_only: "only_org org st (snd (provider_incident org site rep key n iw w det now st))"
proof -
  obtain key' m where f: "provider_file_as key site now w (entry_or [] org (st_incidents st)) = (key', m)"
    by (rule prod.exhaust)
  obtain inc incs where u: "upsert_incident_with (AList.update org m (st_incidents st)) org ''dependency_failed'' Sev_high
      (provider_scope key' site) None None now False = (inc, incs)"
    by (rule prod.exhaust)
  have "o' \<noteq> org \<Longrightarrow> map_of incs o' = map_of (st_incidents st) o'" for o' using upsert_other [OF u, of o'] by simp
  then show ?thesis
    by (simp add: provider_incident_def f upsert_provider_incident_def u Let_def only_org_def incidents_only)
qed

lemma finding_only: "only_org org st (snd (record_external_finding sha now org who f st))"
proof (cases "is_reserved_incident_id (fi_detector f) (fi_subject f)")
  case False
  obtain inc incs where u: "upsert_incident (st_incidents st) org (fi_detector f) (fi_severity f) (fi_subject f)
      None (if starts_with ''agent://'' (fi_subject f) then Some (fi_subject f) else None) (fi_ts_millis f) = (inc, incs)"
    by (rule prod.exhaust)
  have "only_org org st (st\<lparr>st_incidents := incs\<rparr>)"
    using upsert_other [OF u [unfolded upsert_incident_def]] by (simp add: only_org_def incidents_only)
  with False show ?thesis
    by (auto simp: record_external_finding_def u Let_def dest!: change_incident_only intro: only_org_trans split: option.split)
qed (simp add: record_external_finding_def)

lemma provider_only: "only_org org st (snd (note_provider_failures cfg org site prov reports det now st))"
proof -
  obtain m s label key c iw w where
    m: "snd (note_provider_failures cfg org site prov reports det now st) \<in>
       {st, st\<lparr>st_provider_failures := AList.update org m (st_provider_failures st)\<rparr>,
        snd (provider_incident org s label key c iw w det now (st\<lparr>st_provider_failures := AList.update org m (st_provider_failures st)\<rparr>))}"
    using provider_cases [where st = st and org = org and cfg = cfg and site = site and prov = prov and reports = reports
      and det = det and now = now] unfolding Let_def by (elim exE)
  have "only_org org st (st\<lparr>st_provider_failures := AList.update org m (st_provider_failures st)\<rparr>)"
    by (simp add: only_org_def org_view_def)
  with m provider_incident_only [of org "st\<lparr>st_provider_failures := AList.update org m (st_provider_failures st)\<rparr>"]
  show ?thesis by (auto intro: only_org_trans)
qed

lemma apply_op_only: "op_org op = Some org \<Longrightarrow> only_org org st (apply_op cfg sha op st)"
proof (cases op)
  case (Op_ack o2 i actor now)
  assume "op_org op = Some org"
  with Op_ack show ?thesis
    by (auto simp: ack_incident_def ack_incident_audited_def dest: change_incident_only split: option.split)
next
  case (Op_notified o2 i now w)
  assume "op_org op = Some org"
  with Op_notified show ?thesis
    by (auto simp: mark_incident_notified_def dest: change_incident_only split: option.split)
qed (auto simp: ingest_only provider_only finding_only control_only clear_threshold_only kill_def kill_audited_def
      set_budget_def set_budget_audited_def set_unit_budget_audited_def store_audit_append_def Let_def split: option.split)

end
