(* ===== verification/Cloud_Props.thy ===== *)
theory Cloud_Props
  imports Cloud_History Cloud_Tenants
begin

text \<open>
  The properties of the control plane's store, each over whole histories of the operations in
  \<open>Cloud_Steps\<close> or over one operation of a store such a history reaches.
\<close>

section \<open>Sample inputs\<close>

definition sample_record :: "string \<Rightarrow> string \<Rightarrow> int \<Rightarrow> int \<Rightarrow> cloud_record" where
  "sample_record run decision cost ts =
     \<lparr>cl_ts_millis = ts, cl_run_id = run, cl_model = ''m'', cl_decision = decision, cl_input_tokens = 1,
      cl_output_tokens = 1, cl_cost = cost, cl_step = 1, cl_agent_id = ''a'', cl_saved = 0, cl_parent_run_id = [],
      cl_on_behalf_of = [], cl_outcome = [], cl_unit = [], cl_tool_calls = None, cl_owner = [], cl_key_id = [],
      cl_price_basis = ''known'', cl_identity_reason = None, cl_pii_findings = None\<rparr>"

definition sample_config :: incident_config where
  "sample_config = incident_config_default (\<lambda>spent budget. spent \<ge> budget)"

definition sample_sha :: "string \<Rightarrow> nat list" where
  "sample_sha s = [length s mod 256]"

definition sample_ops :: "cloud_op list" where
  "sample_ops =
     [Op_ingest ''o'' None [sample_record ''r1'' ''allow'' 7 20, sample_record ''r2'' ''budget_exceeded'' 5 10] 100,
      Op_kill ''o'' ''r1'' (Some ''ops'') 101, Op_restart 1]"

definition sample_store :: store where
  "sample_store = fold (apply_op sample_config sample_sha) sample_ops store_new"

lemma sample_run: "cloud_run sample_config sample_sha sample_ops sample_store"
  by (simp add: cloud_run_fold sample_store_def sample_ops_def weight_def MAX_RUNS_PER_ORG_def machine_bounds del: apply_op.simps)

section \<open>Accounts\<close>

lemma decision_view:
  fixes m :: "(string, nat) table"
  assumes "table_ok m"
  shows "entry_or 0 d (fold (\<lambda>(k, v). bt_insert k v) m []) = entry_or 0 d m"
proof -
  have "bt_ok acc \<Longrightarrow> bt_ok (fold (\<lambda>(k, v). bt_insert k v) m acc)
      \<and> map_of (fold (\<lambda>(k, v). bt_insert k v) m acc) = map_of acc ++ map_of m" for acc :: "(string \<times> nat) list"
    using assms
  proof (induction m arbitrary: acc)
    case (Cons x m)
    obtain k v where x: "x = (k, v)" by (rule prod.exhaust)
    have "map_of m k = None" using Cons.prems by (simp add: x table_ok_def map_of_eq_None_iff)
    with Cons.IH [of "bt_insert k v acc"] Cons.prems show ?case
      by (auto simp: x table_ok_def map_add_def fun_eq_iff split: option.split)
  qed simp
  from this [of "[]"] show ?thesis by (simp add: entry_or_def)
qed



section \<open>Bounds and well-formedness\<close>





section \<open>The recency index\<close>

text \<open>What the index stands for: the keys from the least to the most recently used.\<close>

datatype lru_op = Lru_touch string | Lru_evict | Lru_evict_unless "string list"

fun index_step :: "lru_op \<Rightarrow> string recency_index \<Rightarrow> string option \<times> string recency_index" where
  "index_step (Lru_touch key) ix = (None, touch key ix)"
| "index_step Lru_evict ix = evict_oldest ix"
| "index_step (Lru_evict_unless ks) ix = evict_oldest_unprotected (\<lambda>k. k \<in> set ks) ix"

fun list_step :: "lru_op \<Rightarrow> string list \<Rightarrow> string option \<times> string list" where
  "list_step (Lru_touch key) xs = (None, filter (\<lambda>k. k \<noteq> key) xs @ [key])"
| "list_step Lru_evict xs = (case xs of [] \<Rightarrow> (None, []) | k # ks \<Rightarrow> (Some k, ks))"
| "list_step (Lru_evict_unless ks) xs =
     (case filter (\<lambda>k. k \<notin> set ks) xs @ xs of [] \<Rightarrow> (None, []) | k # others \<Rightarrow> (Some k, filter (\<lambda>j. j \<noteq> k) xs))"

fun lru_trace :: "(lru_op \<Rightarrow> 's \<Rightarrow> string option \<times> 's) \<Rightarrow> lru_op list \<Rightarrow> 's \<Rightarrow> string option list \<times> 's" where
  "lru_trace step [] s = ([], s)"
| "lru_trace step (op # ops) s =
     (let (out, s) = step op s; (outs, s) = lru_trace step ops s in (out # outs, s))"

lemma find_filter: "List.find P xs = (case filter P xs of [] \<Rightarrow> None | x # others \<Rightarrow> Some x)"
  by (induction xs) auto

lemma index_step_refines:
  assumes "recency_ok ix" and "recency_room ix (Suc n)"
  shows "fst (index_step op ix) = fst (list_step op (lru ix)) \<and> lru (snd (index_step op ix)) = snd (list_step op (lru ix))
    \<and> recency_ok (snd (index_step op ix)) \<and> recency_room (snd (index_step op ix)) n"
proof (cases op)
  case (Lru_touch key)
  then show ?thesis using touch_refines [OF assms, of key] by simp
next
  case Lru_evict
  have "recency_room ix n" using assms(2) by (simp add: recency_room_def)
  then show ?thesis using evict_refines [OF assms(1)] by (auto simp: Lru_evict split: list.split)
next
  case (Lru_evict_unless ks)
  have room: "recency_room ix n" using assms(2) by (simp add: recency_room_def)
  note e = evict_unprotected_refines [OF assms(1), where p = "\<lambda>k. k \<in> set ks"]
  show ?thesis
  proof (cases "filter (\<lambda>k. k \<notin> set ks) (lru ix)")
    case Nil
    then show ?thesis using e room by (cases "lru ix") (auto simp: Lru_evict_unless find_filter)
  next
    case (Cons k others)
    then show ?thesis using e room by (auto simp: Lru_evict_unless find_filter)
  qed
qed

text \<open>The recency index of two trees and a counter behaves as the plain list of keys in order of use: for every
  sequence of touches and evictions it returns the same victims and is left standing for the same list.\<close>

lemma recency_is_lru:
  assumes "length ops \<le> U64_MAX"
  shows "fst (lru_trace index_step ops recency_new) = fst (lru_trace list_step ops [])
    \<and> lru (snd (lru_trace index_step ops recency_new)) = snd (lru_trace list_step ops [])"
proof -
  have "recency_ok ix \<Longrightarrow> recency_room ix (length ops) \<Longrightarrow>
      fst (lru_trace index_step ops ix) = fst (lru_trace list_step ops (lru ix))
      \<and> lru (snd (lru_trace index_step ops ix)) = snd (lru_trace list_step ops (lru ix))" for ix
  proof (induction ops arbitrary: ix)
    case (Cons op ops)
    have room: "recency_room ix (Suc (length ops))" using Cons.prems(2) by simp
    obtain out ix' where i: "index_step op ix = (out, ix')" by (rule prod.exhaust)
    have r: "list_step op (lru ix) = (out, lru ix')" "recency_ok ix'" "recency_room ix' (length ops)"
      using index_step_refines [OF Cons.prems(1) room, of op] i by (simp_all add: prod_eq_iff)
    show ?case using Cons.IH [OF r(2,3)] by (simp add: i r(1) split_beta)
  qed simp
  from this [of recency_new] room_new [OF assms] show ?thesis by simp
qed

theorem recency_is_lru_witness:
  "fst (lru_trace index_step [Lru_touch ''a'', Lru_touch ''b'', Lru_touch ''a'', Lru_evict] recency_new)
     = [None, None, None, Some ''b'']"
  using recency_is_lru [of "[Lru_touch ''a'', Lru_touch ''b'', Lru_touch ''a'', Lru_evict]"] by (simp add: machine_bounds)

section \<open>Eviction under alert\<close>

text \<open>C22. In the middle of any batch pushed to any reachable store, a run that has crossed its alert line stays in the
  table whatever record comes next, as long as one retained run has not crossed its own.\<close>

theorem alerting_run_is_kept:
  assumes "cloud_run cfg sha ops st" and "weight ops + Suc (length before) \<le> U64_MAX"
    and "g = fold (ingest_record ol budgets site month) before ((borrow_org org now st)\<lparr>og_gateway := acc\<rparr>)"
    and "victim \<in> keys (og_runs g)" and "is_alerting ol budgets (og_runs g) victim"
    and "j \<in> keys (og_runs g)" and "\<not> is_alerting ol budgets (og_runs g) j"
  shows "victim \<in> keys (og_runs (ingest_record ol budgets site month r g))"
proof -
  have "store_ok (1 + length before) st"
  proof (rule store_ok_less)
    have "1 + length before + (U64_MAX - weight ops - (1 + length before)) = U64_MAX - weight ops" using assms(2) by simp
    with cloud_run_ok [OF assms(1)] show "store_ok (1 + length before + (U64_MAX - weight ops - (1 + length before))) st"
      by metis
  qed
  then have "org_ok (1 + length before) st org" by (rule store_okD)
  then have "org_books_ok (1 + length before) ((borrow_org org now st)\<lparr>og_gateway := acc\<rparr>)" by (simp add: borrow_ok)
  from ingest_fold_ok [OF this] have "org_books_ok 1 g" by (simp add: assms(3))
  then have s: "in_step MAX_RUNS_PER_ORG (og_runs g) (og_recency g)" by (simp add: org_books_ok_def runs_ok_def)
  obtain rtab ix where e: "evict_run ol budgets (cl_run_id r) (og_runs g, og_recency g) = (rtab, ix)" by (rule prod.exhaust)
  have "victim \<in> keys rtab" using evict_run_protects [OF s e assms(4) _ assms(6,7)] assms(5) by blast
  then show ?thesis by (simp add: ingest_record_def runs_fold_def e Let_def split: prod.split)
qed

lemma ingest_record_keys:
  assumes "length (og_runs g) < MAX_RUNS_PER_ORG"
  shows "keys (og_runs (ingest_record ol budgets site month r g)) = insert (cl_run_id r) (keys (og_runs g))"
  using assms by (simp add: ingest_record_def runs_fold_def evict_run_def split_beta)

theorem alerting_run_is_kept_witness:
  "''r1'' \<in> keys (og_runs (ingest_record (\<lambda>spent budget. budget = 1) (Some [(''r1'', 1), (''r2'', 2)]) None ''m''
     (sample_record ''r3'' ''allow'' 1 40)
     (fold (ingest_record (\<lambda>spent budget. budget = 1) (Some [(''r1'', 1), (''r2'', 2)]) None ''m'')
       [sample_record ''r1'' ''allow'' 7 20, sample_record ''r2'' ''allow'' 1 30]
       ((borrow_org ''o'' 100 store_new)\<lparr>og_gateway := gateway_acc_new\<rparr>))))"
proof (rule alerting_run_is_kept [where ops = "[]" and cfg = sample_config and sha = sample_sha and st = store_new
      and before = "[sample_record ''r1'' ''allow'' 7 20, sample_record ''r2'' ''allow'' 1 30]" and org = "''o''" and now = 100
      and acc = gateway_acc_new and j = "''r2''"])
  show "cloud_run sample_config sample_sha [] store_new" by (rule cloud_run.start)
  let ?ol = "\<lambda>spent budget. budget = (1 :: int)" and ?b = "Some [(''r1'', 1), (''r2'', 2)]"
  let ?g0 = "(borrow_org ''o'' 100 store_new)\<lparr>og_gateway := gateway_acc_new\<rparr>"
  let ?g1 = "ingest_record ?ol ?b None ''m'' (sample_record ''r1'' ''allow'' 7 20) ?g0"
  have g0: "og_runs ?g0 = []" by (simp add: borrow_org_def store_new_def)
  have k1: "keys (og_runs ?g1) = {''r1''}"
    using ingest_record_keys [of ?g0 ?ol ?b None "''m''" "sample_record ''r1'' ''allow'' 7 20"]
    by (simp add: g0 MAX_RUNS_PER_ORG_def sample_record_def)
  have "length (og_runs ?g1) = 1"
    by (simp add: ingest_record_def runs_fold_def evict_run_def split_beta g0 on_entry_def sample_record_def MAX_RUNS_PER_ORG_def)
  then have "keys (og_runs (ingest_record ?ol ?b None ''m'' (sample_record ''r2'' ''allow'' 1 30) ?g1)) = {''r2'', ''r1''}"
    using ingest_record_keys [of ?g1 ?ol ?b None "''m''" "sample_record ''r2'' ''allow'' 1 30"] k1
    by (simp add: MAX_RUNS_PER_ORG_def sample_record_def)
  then show "''r1'' \<in> keys (og_runs (fold (ingest_record ?ol ?b None ''m'')
        [sample_record ''r1'' ''allow'' 7 20, sample_record ''r2'' ''allow'' 1 30] ?g0))"
    "''r2'' \<in> keys (og_runs (fold (ingest_record ?ol ?b None ''m'')
        [sample_record ''r1'' ''allow'' 7 20, sample_record ''r2'' ''allow'' 1 30] ?g0))"
    by simp_all
qed (simp_all add: machine_bounds is_alerting_def)

section \<open>Tenants\<close>

lemma org_view_fold:
  assumes "list_all (\<lambda>op. \<exists>o'. op_org op = Some o' \<and> o' \<noteq> org) ops"
  shows "org_view (fold (apply_op cfg sha) ops st) org = org_view st org"
  using assms
proof (induction ops arbitrary: st)
  case (Cons op ops)
  then obtain o' where "op_org op = Some o'" "o' \<noteq> org" by auto
  then have "org_view (apply_op cfg sha op st) org = org_view st org"
    using apply_op_only [of op o' st cfg sha] by (simp add: only_org_def)
  with Cons show ?case by simp
qed simp

lemma entry_or_cong: "map_of m k = map_of m' k \<Longrightarrow> entry_or d k m = entry_or d k m'"
  by (simp add: entry_or_def)

text \<open>C26. Whatever is pushed, reported, killed, budgeted, acknowledged or recorded in the name of other orgs, an org
  reads the same runs, totals, savings, counts, gateways, incidents, kills, budgets, alerts and audit chain as before.\<close>

theorem orgs_isolated:
  assumes "list_all (\<lambda>op. \<exists>o'. op_org op = Some o' \<and> o' \<noteq> org) ops" and "st' = fold (apply_op cfg sha) ops st"
  shows "runs_since st' org since = runs_since st org since \<and> summary st' org = summary st org
    \<and> savings st' org = savings st org \<and> decision_counts st' org = decision_counts st org
    \<and> gateways st' org = gateways st org \<and> incidents_of st' org = incidents_of st org \<and> kills st' org = kills st org
    \<and> budgets_of st' org = budgets_of st org \<and> unit_budgets_of st' org = unit_budgets_of st org
    \<and> alerts over_line st' org = alerts over_line st org \<and> audit_of st' org = audit_of st org
    \<and> series st' org run window step now = series st org run window step now
    \<and> spend_window st' org days now = spend_window st org days now"
proof -
  have v: "org_view st' org = org_view st org" unfolding assms(2) by (rule org_view_fold [OF assms(1)])
  then have e: "entry_or a org (st_orgs st') = entry_or a org (st_orgs st)"
    "entry_or b org (st_killed st') = entry_or b org (st_killed st)"
    "entry_or c org (st_budgets st') = entry_or c org (st_budgets st)" "map_of (st_budgets st') org = map_of (st_budgets st) org"
    "entry_or c org (st_unit_budgets st') = entry_or c org (st_unit_budgets st)"
    "entry_or d org (st_series st') = entry_or d org (st_series st)"
    "entry_or e org (st_savings st') = entry_or e org (st_savings st)"
    "entry_or f org (st_spend_days st') = entry_or f org (st_spend_days st)"
    "entry_or h org (st_gateways st') = entry_or h org (st_gateways st)"
    "entry_or i org (st_decision_counts st') = entry_or i org (st_decision_counts st)"
    "entry_or j org (st_incidents st') = entry_or j org (st_incidents st)"
    "entry_or k org (st_audit st') = entry_or k org (st_audit st)"
    "entry_or l org (st_org_totals st') = entry_or l org (st_org_totals st)" for a b c d e f h i j k l
    by (simp_all add: org_view_def entry_or_def)
  have r: "run_killed st' org run = run_killed st org run" "run_spent st' org run = run_spent st org run" for run
    by (simp_all add: run_killed_def run_spent_def e)
  have "overlay_killed st' org = overlay_killed st org" by (simp add: fun_eq_iff overlay_killed_def r)
  then show ?thesis
    by (simp add: runs_since_def summary_def savings_def decision_counts_def gateways_def incidents_of_def kills_def
        budgets_of_def unit_budgets_of_def alerts_def audit_of_def series_def spend_window_def e r cong: option.case_cong)
qed

theorem orgs_isolated_witness:
  "summary (fold (apply_op sample_config sample_sha) [Op_kill ''p'' ''r1'' None 0] store_new) ''o'' = summary store_new ''o''"
  using orgs_isolated [of "''o''" "[Op_kill ''p'' ''r1'' None 0]" "fold (apply_op sample_config sample_sha) [Op_kill ''p'' ''r1'' None 0] store_new"
      sample_config sample_sha store_new] by simp

section \<open>Kills\<close>

lemma kill_listed: "table_ok (entry_or [] org (st_killed st)) \<Longrightarrow> run \<in> set (kills st org) \<longleftrightarrow> run_killed st org run"
proof -
  define m where "m = entry_or [] org (st_killed st)"
  assume "table_ok (entry_or [] org (st_killed st))"
  then have "(run, True) \<in> set m \<longleftrightarrow> map_of m run = Some True" by (simp add: m_def table_ok_def)
  moreover have "entry_or False run m \<longleftrightarrow> map_of m run = Some True" by (simp add: entry_or_def split: option.split)
  ultimately show ?thesis by (force simp: kills_def run_killed_def m_def [symmetric])
qed

lemma killed_by_iff: "killed_by org run op \<longleftrightarrow> (\<exists>actor now. op = Op_kill org run actor now)"
  by (cases op) (auto simp: killed_by_def)

lemma killed_table: "table_ok (entry_or [] org (st_killed (fold (apply_op cfg sha) ops store_new)))"
proof (induction ops rule: rev_induct)
  case (snoc op ops)
  then show ?case
    by (auto simp: apply_op_killed simp del: apply_op.simps split: cloud_op.split)
qed (simp add: store_new_def)



section \<open>The audit chain\<close>

text \<open>In every reachable store every org's audit chain verifies from its first entry, whatever wrote it, and
  whatever happens later only appends to it.\<close>

lemma audit_chain_holds:
  assumes "cloud_run cfg sha ops st" and "cloud_run cfg sha (ops @ later) st'"
  shows "audit_verify sha st org = Inr () \<and> prefix (audit_of st org) (audit_of st' org) \<and> broken_chains sha (st_audit st) = []"
proof -
  have st: "st = fold (apply_op cfg sha) ops store_new" "st' = fold (apply_op cfg sha) later st"
    using assms by (simp_all add: cloud_run_fold)
  have v: "verify_chain sha (audit_of st o') = Inr ()" for o'
  proof -
    have "audit_of store_new o' = []" by (simp add: audit_of_def store_new_def)
    with audit_fold [of store_new o' cfg sha ops] show ?thesis by (simp add: st(1) verify_chain_def)
  qed
  have "(o', chain) \<in> set (st_audit st) \<Longrightarrow> verify_chain sha chain = Inr ()" for o' chain
    using v [of o'] audit_table [of cfg sha ops] by (simp add: st(1) audit_of_def entry_or_def table_ok_def)
  then have "broken_chains sha (st_audit st) = []" by (fastforce simp: broken_chains_def)
  moreover have "audit_verify sha st org = Inr ()"
    using v [of org] by (simp add: audit_verify_def audit_of_def entry_or_def split: option.splits)
  moreover have "prefix (audit_of st org) (audit_of st' org)"
    using audit_fold [of st org cfg sha later] by (simp add: st(2))
  ultimately show ?thesis by blast
qed

theorem audit_chain_holds_witness: "audit_verify sample_sha sample_store ''o'' = Inr ()"
  using audit_chain_holds [OF sample_run, of "[]" sample_store "''o''"] sample_run by simp

end
