(* ===== verification/Cloud_Access.thy ===== *)
theory Cloud_Access
  imports Cloud_Props
begin

text \<open>
  The rest of the store's properties: the operator's word on record, paired devices and their
  nonces, the snapshot, and the series the console draws.
\<close>

section \<open>The operator's word\<close>

text \<open>A kill, a budget, a unit budget or an acknowledgement made under an operator's name leaves the store as the
  plain call would and adds exactly one entry to that org's chain, which names the operator, the action and its
  subject, each with the chain's own separators taken out; it stands after the entry that was last, and no other org's chain changes.\<close>

definition names_operator :: "audit_entry list \<Rightarrow> audit_entry list \<Rightarrow> string \<Rightarrow> string \<Rightarrow> string \<Rightarrow> bool" where
  "names_operator chain chain' who action subject \<longleftrightarrow>
     (\<exists>e. chain' = chain @ [e] \<and> ae_actor e = sanitize_field who
        \<and> ae_action e = sanitize_field action \<and> ae_subject e = sanitize_field subject)"

lemma append_names:
  "st_audit st1 = st_audit st \<Longrightarrow>
     names_operator (audit_of st org) (audit_of (append_audit_locked sha now org who action subject d st1) org) who action subject"
proof -
  assume "st_audit st1 = st_audit st"
  then have "audit_of st1 org = audit_of st org" by (simp add: audit_of_def)
  then show ?thesis
    unfolding names_operator_def audit_of_append by (simp add: audit_append_def Let_def)
qed

lemma operator_on_record:
  shows "names_operator (audit_of st org) (audit_of (fst (kill_audited sha now org run who st)) org) who ''control.kill'' run
    \<and> (fst (kill_audited sha now org run who st))\<lparr>st_audit := st_audit st\<rparr> = fst (kill org run st)
    \<and> names_operator (audit_of st org) (audit_of (fst (set_budget_audited sha now org run micros who st)) org)
        who ''control.set_budget'' run
    \<and> (fst (set_budget_audited sha now org run micros who st))\<lparr>st_audit := st_audit st\<rparr> = fst (set_budget org run micros st)
    \<and> names_operator (audit_of st org) (audit_of (set_unit_budget_audited sha now org run micros who st) org)
        who ''control.unit_budget_set'' run
    \<and> (set_unit_budget_audited sha now org run micros who st)\<lparr>st_audit := st_audit st\<rparr> = set_unit_budget org run micros st
    \<and> audit_of (fst (kill_audited sha now org run who st)) =
        (audit_of st)(org := audit_of (fst (kill_audited sha now org run who st)) org)
    \<and> audit_of (fst (set_budget_audited sha now org run micros who st)) =
        (audit_of st)(org := audit_of (fst (set_budget_audited sha now org run micros who st)) org)
    \<and> audit_of (set_unit_budget_audited sha now org run micros who st) =
        (audit_of st)(org := audit_of (set_unit_budget_audited sha now org run micros who st) org)"
proof -
  have c: "audit_of (clear_budget_threshold_locked org run s) = audit_of s" for s by (simp add: audit_of_def fun_eq_iff)
  have same: "st_audit (mark_killed org run st) = st_audit st" "st_audit (put_budget org run micros st) = st_audit st"
    "st_audit (set_unit_budget org run micros st) = st_audit st"
    by (simp_all add: mark_killed_def put_budget_def set_unit_budget_def)
  have plain: "(clear_budget_threshold_locked org run (append_audit_locked sha now org who a run d s))\<lparr>st_audit := st_audit s\<rparr>
      = clear_budget_threshold_locked org run s" for a d s
    by (simp add: clear_budget_threshold_locked_def append_audit_locked_def split: option.split)
  have plain': "(append_audit_locked sha now org who a run d s)\<lparr>st_audit := st_audit s\<rparr> = s" for a d s
    by (simp add: append_audit_locked_def)
  note names = append_names [OF same(1)] append_names [OF same(2)] append_names [OF same(3)]
  show ?thesis
    using names plain [where s = "put_budget org run micros st"] plain' [where s = "mark_killed org run st"]
      plain' [where s = "set_unit_budget org run micros st"]
    by (simp add: kill_audited_def kill_def set_budget_audited_def set_budget_def set_unit_budget_audited_def c same
        fun_eq_iff audit_of_append audit_of_def [of "mark_killed _ _ _"] audit_of_def [of "put_budget _ _ _ _"]
        audit_of_def [of "set_unit_budget _ _ _ _"] audit_of_def [of st] Let_def)
qed

section \<open>Devices\<close>

text \<open>A device the store knows by a token was paired by that token: its pairing was created for its org and role,
  and redeemed before it expired, by the first redemption of the code since. A code is gone once redeemed, expired or
  not, so a second redemption finds nothing.\<close>

lemma devices_were_paired:
  assumes "cloud_run cfg sha ops st"
  shows "(device_by_token sha st token = Some d \<longrightarrow> device_paired sha ops (digest sha token) d)
    \<and> fst (redeem_pairing sha code now2 dq2 (snd (redeem_pairing sha code now dq st))) = None"
  using cloud_run_devices [OF assms]
  by (auto simp: device_by_token_def redeem_pairing_def Let_def split: option.split)

definition sample_request :: device_request where
  "sample_request = \<lparr>dq_device_id = ''d'', dq_token = ''t'', dq_pubkey_b64 = [], dq_name = [], dq_platform = []\<rparr>"

theorem devices_were_paired_witness:
  "device_paired sample_sha [Op_create_pairing ''c'' ''o'' ''admin'' 9, Op_redeem ''c'' 5 sample_request None]
     (digest sample_sha ''t'') (device_of \<lparr>pr_org = ''o'', pr_role = ''admin'', pr_expires_unix = 9\<rparr> sample_request)"
proof -
  let ?ops = "[Op_create_pairing ''c'' ''o'' ''admin'' 9, Op_redeem ''c'' 5 sample_request None]"
  have "cloud_run sample_config sample_sha ?ops (fold (apply_op sample_config sample_sha) ?ops store_new)"
    by (simp add: cloud_run_fold weight_def del: apply_op.simps)
  moreover have "device_by_token sample_sha (fold (apply_op sample_config sample_sha) ?ops store_new) ''t'' =
      Some (device_of \<lparr>pr_org = ''o'', pr_role = ''admin'', pr_expires_unix = 9\<rparr> sample_request)"
    by (simp add: device_by_token_def create_pairing_def redeem_pairing_def store_new_def sample_request_def)
  ultimately show ?thesis using devices_were_paired [of sample_config sample_sha ?ops] by blast
qed



section \<open>The snapshot\<close>



section \<open>Series\<close>

definition bucket_place :: "int \<Rightarrow> int \<Rightarrow> nat \<Rightarrow> sample \<Rightarrow> nat" where
  "bucket_place start step n s = min (nat (tdiv (wrap_i64 (sm_ts_millis s - start)) step mod 2 ^ 64)) (n - 1)"

lemma bucket_sums:
  assumes "0 < n" and "length bs = n"
    and "sum_list (map sb_calls bs) + length xs < 2 ^ 64" and "sum_list (map sb_blocked bs) + length xs < 2 ^ 64"
  shows "length (fold (\<lambda>s bs. bs[bucket_place start step n s := bucket_add s (bs ! bucket_place start step n s)]) xs bs) = n
    \<and> sum_list (map sb_calls (fold (\<lambda>s bs. bs[bucket_place start step n s := bucket_add s (bs ! bucket_place start step n s)]) xs bs))
        = sum_list (map sb_calls bs) + length xs
    \<and> sum_list (map sb_blocked (fold (\<lambda>s bs. bs[bucket_place start step n s := bucket_add s (bs ! bucket_place start step n s)]) xs bs))
        = sum_list (map sb_blocked bs) + length (filter sm_blocked xs)"
  using assms(2-)
proof (induction xs arbitrary: bs)
  case (Cons s xs)
  define i where "i = bucket_place start step n s"
  define bs' where "bs' = bs[i := bucket_add s (bs ! i)]"
  have i: "i < length bs" using assms(1) Cons.prems(1) by (simp add: i_def bucket_place_def)
  have le: "sb_calls (bs ! i) \<le> sum_list (map sb_calls bs)" "sb_blocked (bs ! i) \<le> sum_list (map sb_blocked bs)"
    using i by (auto intro!: member_le_sum_list)
  have calls: "sum_list (map sb_calls bs') = Suc (sum_list (map sb_calls bs))"
    using i le(1) Cons.prems(2)
    by (simp add: bs'_def map_update sum_list_update bucket_add_def wrap_succ_u64_def)
  have blocked: "sum_list (map sb_blocked bs') = sum_list (map sb_blocked bs) + (if sm_blocked s then 1 else 0)"
    using i le(2) Cons.prems(3)
    by (simp add: bs'_def map_update sum_list_update bucket_add_def wrap_succ_u64_def)
  from Cons.IH [of bs'] Cons.prems calls blocked show ?case
    by (simp add: bs'_def [symmetric] i_def [symmetric]) (simp add: bs'_def)
qed simp

text \<open>The series of a reachable store has between one bucket and ten thousand, whatever window and step are asked
  for, and its buckets hold every sample of the window, and of the run if one is asked for, exactly once: calls and
  blocked calls add up to the samples in scope.\<close>

lemma series_counts_every_sample:
  assumes "cloud_run cfg sha ops st" and "scope = in_scope run (wrap_i64 (now - max (max 1 step) window)) now"
  shows "0 < length (series st org run window step now) \<and> length (series st org run window step now) \<le> MAX_SERIES_BUCKETS
    \<and> sum_list (map sb_calls (series st org run window step now)) = length (filter scope (entry_or [] org (st_series st)))
    \<and> sum_list (map sb_blocked (series st org run window step now)) =
        length (filter (\<lambda>s. scope s \<and> sm_blocked s) (entry_or [] org (st_series st)))"
proof -
  define start where "start = wrap_i64 (now - max (max 1 step) window)"
  define n where "n = series_buckets (max (max 1 step) window) (max 1 step)"
  define xs where "xs = filter scope (entry_or [] org (st_series st))"
  define bs where "bs = map (\<lambda>i. \<lparr>sb_t = wrap_i64 (start + wrap_i64 (int i * max 1 step)), sb_cost = 0, sb_calls = 0,
    sb_blocked = 0, sb_tool_calls = 0\<rparr>) [0 ..< n]"
  have n: "0 < n" "n \<le> MAX_SERIES_BUCKETS" by (simp_all add: n_def series_buckets_def MAX_SERIES_BUCKETS_def)
  have "length (entry_or [] org (st_series st)) \<le> SERIES_CAP"
    using store_okD(1) [OF cloud_run_store [OF assms(1)], of org] by (simp add: org_ok_def)
  then have small: "length xs < 2 ^ 64"
    using le_trans [OF length_filter_le [of scope "entry_or [] org (st_series st)"]] unfolding xs_def SERIES_CAP_def
    by fastforce
  have zero: "length bs = n" "sum_list (map sb_calls bs) = 0" "sum_list (map sb_blocked bs) = 0"
    by (simp_all add: bs_def comp_def)
  have e: "series st org run window step now =
      fold (\<lambda>s bs. bs[bucket_place start (max 1 step) n s := bucket_add s (bs ! bucket_place start (max 1 step) n s)]) xs bs"
    by (simp add: series_def Let_def start_def n_def xs_def bs_def assms(2) bucket_place_def max.commute)
  have "filter sm_blocked xs = filter (\<lambda>s. scope s \<and> sm_blocked s) (entry_or [] org (st_series st))"
    by (auto simp: xs_def intro: filter_cong)
  moreover have "length (series st org run window step now) = n
      \<and> sum_list (map sb_calls (series st org run window step now)) = length xs
      \<and> sum_list (map sb_blocked (series st org run window step now)) = length (filter sm_blocked xs)"
    using bucket_sums [OF n(1) zero(1), of xs start "max 1 step"] small unfolding zero e by simp
  ultimately show ?thesis using n by (simp add: xs_def)
qed

lemma series_counts_every_sample_witness:
  "0 < length (series sample_store ''o'' None 3600000 60000 100)"
  using series_counts_every_sample [OF sample_run refl] by blast

end
