(* ===== verification/Cloud_Sink.thy ===== *)
theory Cloud_Sink
  imports Settle Recency Text
begin

text \<open>
  \<open>CloudSink\<close> of \<open>crates/gateway/src/cloudsink.rs\<close>: the buffer of settled calls, the fast push, the
  queue that holds records while the control plane cannot be reached, the one drainer that replays
  it, the flush before exit and the heartbeat. The request threads, the spawned tasks and the exit
  run concurrently, so each is a small program whose step is one access to the shared state; the
  counters and the log line an access is followed by go with it. The network's answer and the
  clock, in milliseconds since the sink was made, are arguments of a step. Lines logged at debug
  are left out. The counters are \<open>nat\<close>: they count records that are or were in memory.
\<close>

section \<open>Constants and configuration\<close>

definition BATCH :: nat where "BATCH = 20"
definition QUEUE_CAP :: nat where "QUEUE_CAP = 10000"
definition HEARTBEAT_DEFAULT_SECS :: nat where "HEARTBEAT_DEFAULT_SECS = 30"
definition HEARTBEAT_MIN_SECS :: nat where "HEARTBEAT_MIN_SECS = 5"

section \<open>Data\<close>

text \<open>
  One record on the wire: the fields of \<open>CallRecord\<close> that are serialised, the unit's owner and the
  basis the call was charged at. The three fields of the pruning measurement stay local.
\<close>

record wire_record =
  wi_rec :: call_record
  wi_owner :: string
  wi_price_basis :: string

definition basis :: "price_book \<Rightarrow> string \<Rightarrow> string" where
  "basis book model = (if pb_is_known book model then ''known'' else ''fallback'')"

definition wire_records :: "call_record list \<Rightarrow> (string \<rightharpoonup> string) \<Rightarrow> price_book option \<Rightarrow> wire_record list" where
  "wire_records records owners prices =
     map (\<lambda>r. \<lparr>wi_rec = r,
               wi_owner = (case owners (cd_unit r) of None \<Rightarrow> [] | Some p \<Rightarrow> p),
               wi_price_basis = (case prices of
                   Some book \<Rightarrow> if cd_decision r = ''allow'' then basis book (cd_model r) else []
                 | None \<Rightarrow> [])\<rparr>) records"

datatype log_line =
    Refusal_warned nat
  | Outage_warned
  | Drained_noted nat nat
  | Full_warned nat
  | Unsent_warned nat nat nat
  | Flushed_noted nat nat

record push_queue =
  qu_records :: "call_record list"
  qu_draining :: bool
  qu_outage :: bool
  qu_drop_warned :: bool
  qu_replayed :: nat
  qu_dropped :: nat
  qu_in_flight :: nat
  qu_closing :: bool

definition queue_default :: push_queue where
  "queue_default =
     \<lparr>qu_records = [], qu_draining = False, qu_outage = False, qu_drop_warned = False, qu_replayed = 0,
      qu_dropped = 0, qu_in_flight = 0, qu_closing = False\<rparr>"

record pusher =
  pu_reported :: "nat set"
  pu_last_reached_millis :: int

record cloud_sink =
  sk_push :: pusher
  sk_buf :: "call_record list"
  sk_queue :: push_queue
  sk_unit_owners :: "string \<rightharpoonup> string"
  sk_prices :: "price_book option"
  sk_log :: "log_line list"

definition sink_new :: "(string \<rightharpoonup> string) \<Rightarrow> price_book option \<Rightarrow> cloud_sink" where
  "sink_new owners prices =
     \<lparr>sk_push = \<lparr>pu_reported = {}, pu_last_reached_millis = 0\<rparr>, sk_buf = [], sk_queue = queue_default,
      sk_unit_owners = owners, sk_prices = prices, sk_log = []\<rparr>"

record exit_flush =
  ef_sent :: nat
  ef_refused :: nat
  ef_unsent :: nat

definition exit_flush_default :: exit_flush where
  "exit_flush_default = \<lparr>ef_sent = 0, ef_refused = 0, ef_unsent = 0\<rparr>"

abbreviation say :: "log_line \<Rightarrow> cloud_sink \<Rightarrow> cloud_sink" where
  "say l s \<equiv> s\<lparr>sk_log := sk_log s @ [l]\<rparr>"

abbreviation on_queue :: "(push_queue \<Rightarrow> push_queue) \<Rightarrow> cloud_sink \<Rightarrow> cloud_sink" where
  "on_queue f s \<equiv> s\<lparr>sk_queue := f (sk_queue s)\<rparr>"

section \<open>One push\<close>

text \<open>
  What becomes of one \<open>POST\<close>: it cannot be encoded, an answer with a status comes back, or none
  does, which includes a timeout; in the last case the batch may have reached the control plane all
  the same.
\<close>

datatype net = Net_unencodable | Net_status nat | Net_lost bool

datatype push_outcome = Push_accepted | Push_refused nat | Push_unreachable | Push_unencodable

definition is_success :: "nat \<Rightarrow> bool" where
  "is_success status \<longleftrightarrow> 200 \<le> status \<and> status < 300"

definition mark_reached :: "int \<Rightarrow> cloud_sink \<Rightarrow> cloud_sink" where
  "mark_reached now s = s\<lparr>sk_push := (sk_push s)\<lparr>pu_last_reached_millis := now\<rparr>\<rparr>"

definition post :: "int \<Rightarrow> net \<Rightarrow> cloud_sink \<Rightarrow> push_outcome \<times> cloud_sink" where
  "post now answer s =
     (case answer of
        Net_unencodable \<Rightarrow> (Push_unencodable, s)
      | Net_lost landed \<Rightarrow> (Push_unreachable, s)
      | Net_status status \<Rightarrow>
          (if is_success status then Push_accepted else Push_refused status, mark_reached now s))"

definition report_refusal :: "nat \<Rightarrow> cloud_sink \<Rightarrow> cloud_sink" where
  "report_refusal code s =
     (let s1 = s\<lparr>sk_push := (sk_push s)\<lparr>pu_reported := insert code (pu_reported (sk_push s))\<rparr>\<rparr>
      in if code \<notin> pu_reported (sk_push s) then say (Refusal_warned code) s1 else s1)"

section \<open>The queue\<close>

definition is_holding :: "cloud_sink \<Rightarrow> bool" where
  "is_holding s \<longleftrightarrow> qu_records (sk_queue s) \<noteq> []"

definition pop_front_chunk :: "nat \<Rightarrow> cloud_sink \<Rightarrow> call_record list \<times> cloud_sink" where
  "pop_front_chunk n s =
     (let q = qu_records (sk_queue s); n' = min n (length q)
      in (take n' q, on_queue (qu_records_update (\<lambda>_. drop n' q)) s))"

function truncate_front :: "call_record list \<Rightarrow> call_record list \<times> nat" where
  "truncate_front q =
     (if QUEUE_CAP < length q
      then (let (q', dropped) = truncate_front (tl q) in (q', Suc dropped)) else (q, 0))"
  by auto
termination by (relation "measure length") auto

declare truncate_front.simps [simp del]

definition note_dropped :: "nat \<Rightarrow> cloud_sink \<Rightarrow> cloud_sink" where
  "note_dropped n s =
     (if n = 0 then s
      else let total = qu_dropped (sk_queue s) + n;
               s1 = on_queue (\<lambda>q. q\<lparr>qu_dropped := total, qu_drop_warned := True\<rparr>) s
           in if qu_drop_warned (sk_queue s) then s1 else say (Full_warned total) s1)"

text \<open>Both return what the truncation took from the front as well, for the accounts of the run.\<close>

definition push_back_capped :: "call_record list \<Rightarrow> cloud_sink \<Rightarrow> cloud_sink \<times> call_record list" where
  "push_back_capped records s =
     (let q = qu_records (sk_queue s) @ records; (q', dropped) = truncate_front q
      in (note_dropped dropped (on_queue (qu_records_update (\<lambda>_. q')) s), take dropped q))"

definition push_front_capped :: "call_record list \<Rightarrow> cloud_sink \<Rightarrow> cloud_sink \<times> call_record list" where
  "push_front_capped records s =
     (let q = fold (\<lambda>r q. r # q) (rev records) (qu_records (sk_queue s)); (q', dropped) = truncate_front q
      in (note_dropped dropped (on_queue (qu_records_update (\<lambda>_. q')) s), take dropped q))"

definition outage_began :: "cloud_sink \<Rightarrow> cloud_sink" where
  "outage_began s =
     (if qu_outage (sk_queue s) then s
      else say Outage_warned
             (on_queue (\<lambda>q. q\<lparr>qu_outage := True, qu_drop_warned := False, qu_replayed := 0, qu_dropped := 0\<rparr>) s))"

definition outage_ended :: "cloud_sink \<Rightarrow> cloud_sink" where
  "outage_ended s =
     (if \<not> qu_outage (sk_queue s) then s
      else say (Drained_noted (qu_replayed (sk_queue s)) (qu_dropped (sk_queue s)))
             (on_queue (\<lambda>q. q\<lparr>qu_outage := False, qu_replayed := 0, qu_dropped := 0\<rparr>) s))"

definition add_in_flight :: "nat \<Rightarrow> cloud_sink \<Rightarrow> cloud_sink" where
  "add_in_flight n = on_queue (\<lambda>q. q\<lparr>qu_in_flight := qu_in_flight q + n\<rparr>)"

definition sub_in_flight :: "nat \<Rightarrow> cloud_sink \<Rightarrow> cloud_sink" where
  "sub_in_flight n = on_queue (\<lambda>q. q\<lparr>qu_in_flight := qu_in_flight q - n\<rparr>)"

section \<open>The heartbeat's clock\<close>

definition cloud_heartbeat_seconds_from :: "string option \<Rightarrow> nat" where
  "cloud_heartbeat_seconds_from value =
     (case map_option trim value of
        None \<Rightarrow> HEARTBEAT_DEFAULT_SECS
      | Some raw \<Rightarrow>
          if raw = [] then HEARTBEAT_DEFAULT_SECS
          else (case read_u64 raw of
                  Some n \<Rightarrow> if n = 0 then 0 else if n < HEARTBEAT_MIN_SECS then HEARTBEAT_MIN_SECS else n
                | None \<Rightarrow> HEARTBEAT_DEFAULT_SECS))"

definition heartbeat_wait :: "int \<Rightarrow> nat \<Rightarrow> cloud_sink \<Rightarrow> nat" where
  "heartbeat_wait now interval s =
     (let due = int interval - (now - pu_last_reached_millis (sk_push s))
      in if due \<le> 0 then 0 else nat due)"

section \<open>Threads\<close>

text \<open>
  Where a thread stands, with its locals. A request thread in \<open>record\<close> or \<open>flush\<close> goes through
  \<open>ship\<close>, which sends, queues or returns, and as many calls of \<open>drain\<close> as are left; \<open>Post\<close>,
  \<open>Put_back\<close> and \<open>Land\<close> are the task of a fast push; the \<open>Dr\<close> states are the drainer, the
  \<open>Ex\<close> states \<open>flush_before_exit\<close> with its deadline, and the \<open>Hb\<close> states the heartbeat.
\<close>

datatype thread =
    Record_push call_record
  | Record_take
  | Flush_take
  | Ship nat "call_record list"
  | Ship_holding nat "call_record list"
  | Ship_draining nat "call_record list"
  | Ship_queue nat "call_record list"
  | Ship_fly nat "call_record list"
  | Drain nat
  | Drain_closing nat
  | Drain_claim nat
  | Post "call_record list"
  | Put_back "call_record list"
  | Land nat
  | Dr_pop
  | Dr_fly "call_record list"
  | Dr_post "call_record list"
  | Dr_put_back "call_record list"
  | Dr_land nat bool
  | Dr_check
  | Dr_last
  | Dr_clear
  | Ex_close int
  | Ex_take int
  | Ex_wait int "call_record list"
  | Ex_wait_drain int "call_record list"
  | Ex_requeue int "call_record list"
  | Ex_pop int exit_flush
  | Ex_timed int "call_record list" exit_flush
  | Ex_post int "call_record list" exit_flush
  | Ex_put_back "call_record list" exit_flush
  | Ex_count exit_flush
  | Ex_flight exit_flush
  | Ex_done exit_flush
  | Hb_wait nat
  | Hb_sleep nat int
  | Hb_tick nat
  | Hb_clock nat
  | Hb_post nat

text \<open>
  What an observer notes of a step: a record entered the buffer, a batch was answered for, records
  were dropped at the cap, a batch reached the control plane (whether or not the answer came back),
  the exit stopped waiting for pushes still out.
\<close>

datatype mark =
    Buffered call_record
  | Taken "call_record list"
  | Turned_away "call_record list"
  | Unencoded "call_record list"
  | Cut "call_record list"
  | Reached "wire_record list"
  | Gave_up

definition drains :: "nat \<Rightarrow> thread list" where
  "drains k = (if k = 0 then [] else [Drain (k - 1)])"

definition arrival :: "net \<Rightarrow> call_record list \<Rightarrow> cloud_sink \<Rightarrow> mark list" where
  "arrival answer b s =
     (let w = Reached (wire_records b (sk_unit_owners s) (sk_prices s))
      in case answer of
           Net_status status \<Rightarrow> if is_success status then [w] else []
         | Net_lost landed \<Rightarrow> if landed then [w] else []
         | Net_unencodable \<Rightarrow> [])"

definition cut :: "call_record list \<Rightarrow> mark list" where
  "cut rs = (if rs = [] then [] else [Cut rs])"

definition close_exit :: "exit_flush \<Rightarrow> cloud_sink \<Rightarrow> cloud_sink" where
  "close_exit out s =
     (if 0 < ef_unsent out then say (Unsent_warned (ef_unsent out) (ef_sent out) (ef_refused out)) s
      else if 0 < ef_sent out + ef_refused out then say (Flushed_noted (ef_sent out) (ef_refused out)) s
      else s)"

section \<open>What an answer leads to\<close>

text \<open>In each of the four places a \<open>POST\<close> is awaited: the state, the thread that goes on, and what is noted.\<close>

definition push_answered ::
  "int \<Rightarrow> net \<Rightarrow> call_record list \<Rightarrow> cloud_sink \<Rightarrow> cloud_sink \<times> thread list \<times> mark list" where
  "push_answered now answer b s =
     (case post now answer s of (outcome, s1) \<Rightarrow>
        case outcome of
          Push_accepted \<Rightarrow> (s1, [Land (length b)], Taken b # arrival answer b s)
        | Push_unencodable \<Rightarrow> (s1, [Land (length b)], [Unencoded b])
        | Push_refused code \<Rightarrow> (report_refusal code s1, [Land (length b)], [Turned_away b])
        | Push_unreachable \<Rightarrow> (outage_began s1, [Put_back b], arrival answer b s))"

definition replay_answered ::
  "int \<Rightarrow> net \<Rightarrow> call_record list \<Rightarrow> cloud_sink \<Rightarrow> cloud_sink \<times> thread list \<times> mark list" where
  "replay_answered now answer chunk s =
     (case post now answer s of (outcome, s1) \<Rightarrow>
        case outcome of
          Push_accepted \<Rightarrow>
            (on_queue (\<lambda>q. q\<lparr>qu_replayed := qu_replayed q + length chunk\<rparr>) s1,
             [Dr_land (length chunk) False], Taken chunk # arrival answer chunk s)
        | Push_unencodable \<Rightarrow> (s1, [Dr_land (length chunk) False], [Unencoded chunk])
        | Push_refused code \<Rightarrow> (report_refusal code s1, [Dr_land (length chunk) False], [Turned_away chunk])
        | Push_unreachable \<Rightarrow> (outage_began s1, [Dr_put_back chunk], arrival answer chunk s))"

definition exit_answered ::
  "int \<Rightarrow> net \<Rightarrow> int \<Rightarrow> call_record list \<Rightarrow> exit_flush \<Rightarrow> cloud_sink \<Rightarrow> cloud_sink \<times> thread list \<times> mark list" where
  "exit_answered now answer deadline chunk out s =
     (case post now answer s of (outcome, s1) \<Rightarrow>
        case outcome of
          Push_accepted \<Rightarrow>
            (s1, [Ex_pop deadline (out\<lparr>ef_sent := ef_sent out + length chunk\<rparr>)], Taken chunk # arrival answer chunk s)
        | Push_refused code \<Rightarrow>
            (report_refusal code s1, [Ex_pop deadline (out\<lparr>ef_refused := ef_refused out + length chunk\<rparr>)],
             [Turned_away chunk])
        | Push_unencodable \<Rightarrow>
            (s1, [Ex_pop deadline (out\<lparr>ef_unsent := ef_unsent out + length chunk\<rparr>)], [Unencoded chunk])
        | Push_unreachable \<Rightarrow> (s1, [Ex_put_back chunk out], arrival answer chunk s))"

text \<open>
  \<open>maybe_heartbeat\<close> says whether the clock is fresh: if it is, the loop asks again how long to wait,
  otherwise it sleeps a whole interval first.
\<close>

definition after_beat :: "int \<Rightarrow> nat \<Rightarrow> bool \<Rightarrow> thread" where
  "after_beat now interval fresh = (if fresh then Hb_wait interval else Hb_sleep interval (now + int interval))"

definition beat_answered ::
  "int \<Rightarrow> net \<Rightarrow> nat \<Rightarrow> cloud_sink \<Rightarrow> cloud_sink \<times> thread list \<times> mark list" where
  "beat_answered now answer interval s =
     (case post now answer s of (outcome, s1) \<Rightarrow>
        case outcome of
          Push_accepted \<Rightarrow> (s1, [after_beat now interval True], arrival answer [] s)
        | Push_refused code \<Rightarrow> (report_refusal code s1, [after_beat now interval True], [])
        | Push_unreachable \<Rightarrow> (s1, [after_beat now interval False], arrival answer [] s)
        | Push_unencodable \<Rightarrow> (s1, [after_beat now interval False], []))"

definition take_if_full :: "cloud_sink \<Rightarrow> call_record list option \<times> cloud_sink" where
  "take_if_full s = (if BATCH \<le> length (sk_buf s) then (Some (sk_buf s), s\<lparr>sk_buf := []\<rparr>) else (None, s))"

section \<open>One step of a thread\<close>

text \<open>
  The state after the step, the threads that stand where this one stood, and what is noted. A
  thread that sleeps, or waits for its sleep to end, stays where it is.
\<close>

fun advance :: "int \<Rightarrow> net \<Rightarrow> thread \<Rightarrow> cloud_sink \<Rightarrow> cloud_sink \<times> thread list \<times> mark list" where
  "advance now answer (Record_push r) s = (s\<lparr>sk_buf := sk_buf s @ [r]\<rparr>, [Record_take], [Buffered r])"
| "advance now answer Record_take s = (case take_if_full s of (batch, s1) \<Rightarrow>
        (s1, case batch of None \<Rightarrow> [] | Some b \<Rightarrow> [Ship 0 b], []))"
| "advance now answer Flush_take s = (s\<lparr>sk_buf := []\<rparr>, [Ship 1 (sk_buf s)], [])"
| "advance now answer (Ship k b) s =
     (if b = [] then (s, drains k, [])
      else if qu_closing (sk_queue s) then (s, [Ship_queue k b], [])
      else (s, [Ship_holding k b], []))"
| "advance now answer (Ship_holding k b) s =
     (s, [if is_holding s then Ship_queue (Suc k) b else Ship_draining k b], [])"
| "advance now answer (Ship_draining k b) s =
     (s, [if qu_draining (sk_queue s) then Ship_queue (Suc k) b else Ship_fly k b], [])"
| "advance now answer (Ship_queue k b) s =
     (case push_back_capped b s of (s1, lost) \<Rightarrow> (s1, drains k, cut lost))"
| "advance now answer (Ship_fly k b) s = (add_in_flight (length b) s, Post b # drains k, [])"
| "advance now answer (Drain k) s =
     (s, if is_holding s then [Drain_closing k] else drains k, [])"
| "advance now answer (Drain_closing k) s =
     (s, if qu_closing (sk_queue s) then drains k else [Drain_claim k], [])"
| "advance now answer (Drain_claim k) s =
     (if qu_draining (sk_queue s) then (s, drains k, [])
      else (on_queue (\<lambda>q. q\<lparr>qu_draining := True\<rparr>) s, Dr_pop # drains k, []))"
| "advance now answer (Post b) s = push_answered now answer b s"
| "advance now answer (Put_back b) s =
     (case push_front_capped b s of (s1, lost) \<Rightarrow> (s1, [Land (length b)], cut lost))"
| "advance now answer (Land n) s = (sub_in_flight n s, [], [])"
| "advance now answer Dr_pop s =
     (case pop_front_chunk BATCH s of (chunk, s1) \<Rightarrow>
        (s1, [if chunk = [] then Dr_last else Dr_fly chunk], []))"
| "advance now answer (Dr_fly chunk) s = (add_in_flight (length chunk) s, [Dr_post chunk], [])"
| "advance now answer (Dr_post chunk) s = replay_answered now answer chunk s"
| "advance now answer (Dr_put_back chunk) s =
     (case push_front_capped chunk s of (s1, lost) \<Rightarrow> (s1, [Dr_land (length chunk) True], cut lost))"
| "advance now answer (Dr_land n stop) s = (sub_in_flight n s, [if stop then Dr_last else Dr_check], [])"
| "advance now answer Dr_check s = (s, [if qu_closing (sk_queue s) then Dr_last else Dr_pop], [])"
| "advance now answer Dr_last s = (if is_holding s then s else outage_ended s, [Dr_clear], [])"
| "advance now answer Dr_clear s = (on_queue (\<lambda>q. q\<lparr>qu_draining := False\<rparr>) s, [], [])"
| "advance now answer (Ex_close deadline) s =
     (on_queue (\<lambda>q. q\<lparr>qu_closing := True\<rparr>) s, [Ex_take deadline], [])"
| "advance now answer (Ex_take deadline) s = (s\<lparr>sk_buf := []\<rparr>, [Ex_wait deadline (sk_buf s)], [])"
| "advance now answer (Ex_wait deadline b) s =
     (if qu_in_flight (sk_queue s) = 0 then (s, [Ex_wait_drain deadline b], [])
      else if now < deadline then (s, [Ex_wait deadline b], [])
      else (s, [Ex_requeue deadline b], [Gave_up]))"
| "advance now answer (Ex_wait_drain deadline b) s =
     (if \<not> qu_draining (sk_queue s) then (s, [Ex_requeue deadline b], [])
      else if now < deadline then (s, [Ex_wait deadline b], [])
      else (s, [Ex_requeue deadline b], [Gave_up]))"
| "advance now answer (Ex_requeue deadline b) s =
     (case push_back_capped b s of (s1, lost) \<Rightarrow> (s1, [Ex_pop deadline exit_flush_default], cut lost))"
| "advance now answer (Ex_pop deadline out) s =
     (case pop_front_chunk BATCH s of (chunk, s1) \<Rightarrow>
        (s1, [if chunk = [] then Ex_count out else Ex_timed deadline chunk out], []))"
| "advance now answer (Ex_timed deadline chunk out) s =
     (s, [if deadline \<le> now then Ex_put_back chunk out else Ex_post deadline chunk out], [])"
| "advance now answer (Ex_post deadline chunk out) s = exit_answered now answer deadline chunk out s"
| "advance now answer (Ex_put_back chunk out) s =
     (case push_front_capped chunk s of (s1, lost) \<Rightarrow> (s1, [Ex_count out], cut lost))"
| "advance now answer (Ex_count out) s =
     (s, [Ex_flight (out\<lparr>ef_unsent := ef_unsent out + length (qu_records (sk_queue s))\<rparr>)], [])"
| "advance now answer (Ex_flight out) s =
     (let out' = out\<lparr>ef_unsent := ef_unsent out + qu_in_flight (sk_queue s)\<rparr>
      in (close_exit out' s, [Ex_done out'], []))"
| "advance now answer (Ex_done out) s = (s, [Ex_done out], [])"
| "advance now answer (Hb_wait interval) s = (s, [Hb_sleep interval (now + int (heartbeat_wait now interval s))], [])"
| "advance now answer (Hb_sleep interval until) s =
     (s, [if now < until then Hb_sleep interval until else Hb_tick interval], [])"
| "advance now answer (Hb_tick interval) s =
     (s, [if is_holding s then after_beat now interval False else Hb_clock interval], [])"
| "advance now answer (Hb_clock interval) s =
     (s, [if heartbeat_wait now interval s \<noteq> 0 then after_beat now interval True else Hb_post interval], [])"
| "advance now answer (Hb_post interval) s = beat_answered now answer interval s"


section \<open>Runs\<close>

text \<open>
  A run: the gateway's calls record, the two-second tick flushes, the process is told to stop once,
  and any thread takes its next step, in any order. \<open>spawn_heartbeat\<close> starts nothing for a zero
  interval.
\<close>

definition spawn_heartbeat :: "nat \<Rightarrow> thread list" where
  "spawn_heartbeat interval = (if interval = 0 then [] else [Hb_wait interval])"

fun of_exit :: "thread \<Rightarrow> bool" where
  "of_exit (Ex_close d) = True"
| "of_exit (Ex_take d) = True"
| "of_exit (Ex_wait d b) = True"
| "of_exit (Ex_wait_drain d b) = True"
| "of_exit (Ex_requeue d b) = True"
| "of_exit (Ex_pop d out) = True"
| "of_exit (Ex_timed d c out) = True"
| "of_exit (Ex_post d c out) = True"
| "of_exit (Ex_put_back c out) = True"
| "of_exit (Ex_count out) = True"
| "of_exit (Ex_flight out) = True"
| "of_exit (Ex_done out) = True"
| "of_exit t = False"

type_synonym sink_state = "cloud_sink \<times> thread list \<times> mark list"

inductive sink_step :: "sink_state \<Rightarrow> sink_state \<Rightarrow> bool" where
  call: "sink_step (s, pool, tr) (s, pool @ [Record_push r], tr)"
| tick: "sink_step (s, pool, tr) (s, pool @ [Flush_take], tr)"
| stop: "\<not> list_ex of_exit pool \<Longrightarrow> sink_step (s, pool, tr) (s, pool @ [Ex_close deadline], tr)"
| turn: "advance now answer t s = (s', ts, ms) \<Longrightarrow>
           sink_step (s, before @ t # after, tr) (s', before @ ts @ after, tr @ ms)"

inductive sink_run :: "(string \<rightharpoonup> string) \<Rightarrow> price_book option \<Rightarrow> nat \<Rightarrow> sink_state \<Rightarrow> bool"
  for owners prices interval where
  start: "sink_run owners prices interval (sink_new owners prices, spawn_heartbeat interval, [])"
| step: "sink_run owners prices interval x \<Longrightarrow> sink_step x y \<Longrightarrow> sink_run owners prices interval y"

inductive_cases sink_stepE: "sink_step x y"

section \<open>Accounts of a run\<close>

fun buffered_of :: "mark \<Rightarrow> call_record list" where
  "buffered_of (Buffered r) = [r]"
| "buffered_of m = []"

fun settled_of :: "mark \<Rightarrow> call_record list" where
  "settled_of (Taken b) = b"
| "settled_of (Turned_away b) = b"
| "settled_of (Unencoded b) = b"
| "settled_of (Cut b) = b"
| "settled_of m = []"

fun taken_of :: "mark \<Rightarrow> call_record list" where
  "taken_of (Taken b) = b"
| "taken_of m = []"

definition buffered :: "mark list \<Rightarrow> call_record list" where
  "buffered tr = concat (map buffered_of tr)"

definition settled :: "mark list \<Rightarrow> call_record list" where
  "settled tr = concat (map settled_of tr)"

definition taken :: "mark list \<Rightarrow> call_record list" where
  "taken tr = concat (map taken_of tr)"

text \<open>What a thread holds in its locals, and what of it the counter of pushes on the wire counts.\<close>

fun held :: "thread \<Rightarrow> call_record list" where
  "held (Ship k b) = b"
| "held (Ship_holding k b) = b"
| "held (Ship_draining k b) = b"
| "held (Ship_queue k b) = b"
| "held (Ship_fly k b) = b"
| "held (Post b) = b"
| "held (Put_back b) = b"
| "held (Dr_fly c) = c"
| "held (Dr_post c) = c"
| "held (Dr_put_back c) = c"
| "held (Ex_wait d b) = b"
| "held (Ex_wait_drain d b) = b"
| "held (Ex_requeue d b) = b"
| "held (Ex_timed d c out) = c"
| "held (Ex_post d c out) = c"
| "held (Ex_put_back c out) = c"
| "held t = []"

fun flying :: "thread \<Rightarrow> nat" where
  "flying (Post b) = length b"
| "flying (Put_back b) = length b"
| "flying (Land n) = n"
| "flying (Dr_post c) = length c"
| "flying (Dr_put_back c) = length c"
| "flying (Dr_land n stop) = n"
| "flying t = 0"

fun of_drainer :: "thread \<Rightarrow> bool" where
  "of_drainer Dr_pop = True"
| "of_drainer (Dr_fly c) = True"
| "of_drainer (Dr_post c) = True"
| "of_drainer (Dr_put_back c) = True"
| "of_drainer (Dr_land n stop) = True"
| "of_drainer Dr_check = True"
| "of_drainer Dr_last = True"
| "of_drainer Dr_clear = True"
| "of_drainer t = False"

end
