(* ===== verification/Sink_Facts.thy ===== *)
theory Sink_Facts
  imports Cloud_Sink "HOL-Library.Multiset"
begin

text \<open>What each operation of the sink does to each part of its state, and what one step of a thread keeps.\<close>

section \<open>Operations\<close>

named_theorems sink_simps \<open>what an operation of the sink leaves alone or sets\<close>

abbreviation waiting :: "cloud_sink \<Rightarrow> call_record list" where
  "waiting s \<equiv> qu_records (sk_queue s)"

lemma truncate_front_is: "truncate_front q = (keep_last QUEUE_CAP q, length q - QUEUE_CAP)"
proof (induction q rule: truncate_front.induct)
  case (1 q)
  show ?case
  proof (cases "QUEUE_CAP < length q")
    case True
    then show ?thesis using 1
      by (subst truncate_front.simps) (simp add: keep_last_def drop_Suc [symmetric] Suc_diff_Suc)
  qed (subst truncate_front.simps, simp add: keep_last_def)
qed

lemma note_dropped_frame [sink_simps]:
  "sk_buf (note_dropped n s) = sk_buf s" "waiting (note_dropped n s) = waiting s"
  "qu_draining (sk_queue (note_dropped n s)) = qu_draining (sk_queue s)"
  "qu_in_flight (sk_queue (note_dropped n s)) = qu_in_flight (sk_queue s)"
  "qu_closing (sk_queue (note_dropped n s)) = qu_closing (sk_queue s)"
  "qu_outage (sk_queue (note_dropped n s)) = qu_outage (sk_queue s)"
  "sk_push (note_dropped n s) = sk_push s"
  "sk_unit_owners (note_dropped n s) = sk_unit_owners s" "sk_prices (note_dropped n s) = sk_prices s"
  by (simp_all add: note_dropped_def Let_def)

lemma outage_began_frame [sink_simps]:
  "sk_buf (outage_began s) = sk_buf s" "waiting (outage_began s) = waiting s"
  "qu_draining (sk_queue (outage_began s)) = qu_draining (sk_queue s)"
  "qu_in_flight (sk_queue (outage_began s)) = qu_in_flight (sk_queue s)"
  "qu_closing (sk_queue (outage_began s)) = qu_closing (sk_queue s)"
  "qu_outage (sk_queue (outage_began s))" "sk_push (outage_began s) = sk_push s"
  "sk_unit_owners (outage_began s) = sk_unit_owners s" "sk_prices (outage_began s) = sk_prices s"
  by (simp_all add: outage_began_def)

lemma outage_ended_frame [sink_simps]:
  "sk_buf (outage_ended s) = sk_buf s" "waiting (outage_ended s) = waiting s"
  "qu_draining (sk_queue (outage_ended s)) = qu_draining (sk_queue s)"
  "qu_in_flight (sk_queue (outage_ended s)) = qu_in_flight (sk_queue s)"
  "qu_closing (sk_queue (outage_ended s)) = qu_closing (sk_queue s)"
  "\<not> qu_outage (sk_queue (outage_ended s))" "sk_push (outage_ended s) = sk_push s"
  "sk_unit_owners (outage_ended s) = sk_unit_owners s" "sk_prices (outage_ended s) = sk_prices s"
  by (simp_all add: outage_ended_def)

lemma report_refusal_frame [sink_simps]:
  "sk_buf (report_refusal c s) = sk_buf s" "sk_queue (report_refusal c s) = sk_queue s"
  "sk_unit_owners (report_refusal c s) = sk_unit_owners s" "sk_prices (report_refusal c s) = sk_prices s"
  "pu_last_reached_millis (sk_push (report_refusal c s)) = pu_last_reached_millis (sk_push s)"
  by (simp_all add: report_refusal_def Let_def)

lemma mark_reached_frame [sink_simps]:
  "sk_buf (mark_reached now s) = sk_buf s" "sk_queue (mark_reached now s) = sk_queue s"
  "sk_unit_owners (mark_reached now s) = sk_unit_owners s" "sk_prices (mark_reached now s) = sk_prices s"
  "sk_log (mark_reached now s) = sk_log s"
  by (simp_all add: mark_reached_def)

lemma in_flight_frame [sink_simps]:
  "sk_buf (add_in_flight n s) = sk_buf s" "waiting (add_in_flight n s) = waiting s"
  "qu_draining (sk_queue (add_in_flight n s)) = qu_draining (sk_queue s)"
  "qu_closing (sk_queue (add_in_flight n s)) = qu_closing (sk_queue s)"
  "qu_outage (sk_queue (add_in_flight n s)) = qu_outage (sk_queue s)"
  "qu_in_flight (sk_queue (add_in_flight n s)) = qu_in_flight (sk_queue s) + n"
  "sk_push (add_in_flight n s) = sk_push s" "sk_log (add_in_flight n s) = sk_log s"
  "sk_unit_owners (add_in_flight n s) = sk_unit_owners s" "sk_prices (add_in_flight n s) = sk_prices s"
  "sk_buf (sub_in_flight n s) = sk_buf s" "waiting (sub_in_flight n s) = waiting s"
  "qu_draining (sk_queue (sub_in_flight n s)) = qu_draining (sk_queue s)"
  "qu_closing (sk_queue (sub_in_flight n s)) = qu_closing (sk_queue s)"
  "qu_outage (sk_queue (sub_in_flight n s)) = qu_outage (sk_queue s)"
  "qu_in_flight (sk_queue (sub_in_flight n s)) = qu_in_flight (sk_queue s) - n"
  "sk_push (sub_in_flight n s) = sk_push s" "sk_log (sub_in_flight n s) = sk_log s"
  "sk_unit_owners (sub_in_flight n s) = sk_unit_owners s" "sk_prices (sub_in_flight n s) = sk_prices s"
  by (simp_all add: add_in_flight_def sub_in_flight_def)

text \<open>What the cap cuts off the front.\<close>

definition spill :: "call_record list \<Rightarrow> call_record list" where
  "spill q = take (length q - QUEUE_CAP) q"

definition requeue :: "call_record list \<Rightarrow> cloud_sink \<Rightarrow> cloud_sink" where
  "requeue q s = note_dropped (length (spill q)) (on_queue (qu_records_update (\<lambda>_. keep_last QUEUE_CAP q)) s)"

lemma truncate_requeue:
  "(case truncate_front q of (q', dropped) \<Rightarrow>
      (note_dropped dropped (on_queue (qu_records_update (\<lambda>_. q')) s), take dropped q)) = (requeue q s, spill q)"
  by (simp add: truncate_front_is requeue_def spill_def min_absorb2)

lemma push_capped:
  "push_back_capped b s = (requeue (waiting s @ b) s, spill (waiting s @ b))"
  "push_front_capped b s = (requeue (b @ waiting s) s, spill (b @ waiting s))"
proof -
  have "fold (\<lambda>r q. r # q) (rev b) q = b @ q" for q
    by (induction b arbitrary: q) simp_all
  then show "push_back_capped b s = (requeue (waiting s @ b) s, spill (waiting s @ b))"
    "push_front_capped b s = (requeue (b @ waiting s) s, spill (b @ waiting s))"
    by (simp_all only: push_back_capped_def push_front_capped_def Let_def truncate_requeue)
qed

lemma spill_keep: "spill q @ keep_last QUEUE_CAP q = q"
  by (simp add: keep_last_def spill_def)

lemma mset_spill:
  "mset (keep_last QUEUE_CAP q) + mset (spill q) = mset q" "mset (spill q) + mset (keep_last QUEUE_CAP q) = mset q"
  by (metis spill_keep mset_append add.commute)+

lemma requeue_frame [sink_simps]:
  "sk_buf (requeue q s) = sk_buf s" "waiting (requeue q s) = keep_last QUEUE_CAP q"
  "qu_draining (sk_queue (requeue q s)) = qu_draining (sk_queue s)"
  "qu_in_flight (sk_queue (requeue q s)) = qu_in_flight (sk_queue s)"
  "qu_closing (sk_queue (requeue q s)) = qu_closing (sk_queue s)"
  "qu_outage (sk_queue (requeue q s)) = qu_outage (sk_queue s)" "sk_push (requeue q s) = sk_push s"
  "sk_unit_owners (requeue q s) = sk_unit_owners s" "sk_prices (requeue q s) = sk_prices s"
  by (simp_all add: requeue_def sink_simps)

lemma pop_chunk [sink_simps]:
  "pop_front_chunk n s = (take n (waiting s), on_queue (qu_records_update (\<lambda>_. drop n (waiting s))) s)"
  by (simp add: pop_front_chunk_def Let_def min_def)

section \<open>One step keeps the accounts\<close>

lemma accounts_simps [simp]:
  "buffered [] = []" "settled [] = []" "taken [] = []"
  "buffered (m # tr) = buffered_of m @ buffered tr" "settled (m # tr) = settled_of m @ settled tr"
  "taken (m # tr) = taken_of m @ taken tr"
  "buffered (tr @ tr') = buffered tr @ buffered tr'" "settled (tr @ tr') = settled tr @ settled tr'"
  "taken (tr @ tr') = taken tr @ taken tr'"
  by (simp_all add: buffered_def settled_def taken_def)

lemma noted_simps [simp]:
  "buffered (arrival answer b s) = []" "settled (arrival answer b s) = []" "taken (arrival answer b s) = []"
  "buffered (cut rs) = []" "settled (cut rs) = rs" "taken (cut rs) = []"
  by (simp_all add: arrival_def cut_def Let_def split: net.split)

lemma drains_simps [simp]:
  "concat (map held (drains k)) = []" "sum_list (map flying (drains k)) = 0" "filter of_drainer (drains k) = []"
  "list_ex of_exit (drains k) = False" "filter of_exit (drains k) = []"
  by (simp_all add: drains_def)

definition carried :: "cloud_sink \<Rightarrow> call_record multiset" where
  "carried s = mset (sk_buf s) + mset (waiting s)"

lemma mset_halves:
  "mset (take n q) + mset (drop n q) = mset q" "mset (drop n q) + mset (take n q) = mset q"
  by (metis append_take_drop_id mset_append add.commute)+

lemma close_exit_frame [sink_simps]:
  "sk_buf (close_exit out s) = sk_buf s" "sk_queue (close_exit out s) = sk_queue s" "sk_push (close_exit out s) = sk_push s"
  "sk_unit_owners (close_exit out s) = sk_unit_owners s" "sk_prices (close_exit out s) = sk_prices s"
  by (simp_all add: close_exit_def)

lemmas answer_simps = push_answered_def replay_answered_def exit_answered_def beat_answered_def after_beat_def take_if_full_def
  post_def Let_def

lemmas step_simps = sink_simps push_capped answer_simps is_holding_def

lemma advance_conserves:
  "case advance now answer t s of (s', ts, ms) \<Rightarrow>
     carried s' + mset (concat (map held ts)) + mset (settled ms) = carried s + mset (held t) + mset (buffered ms)"
  by (cases t) (simp_all add: carried_def step_simps mset_spill mset_halves drains_def split: net.split)

lemma advance_in_flight:
  "flying t \<le> qu_in_flight (sk_queue s) \<Longrightarrow>
     case advance now answer t s of (s', ts, ms) \<Rightarrow>
       qu_in_flight (sk_queue s') + flying t = qu_in_flight (sk_queue s) + sum_list (map flying ts)"
  by (cases t) (simp_all add: step_simps drains_def split: net.split)

lemma advance_drainers:
  "(of_drainer t \<longrightarrow> qu_draining (sk_queue s)) \<Longrightarrow>
     case advance now answer t s of (s', ts, ms) \<Rightarrow>
       length (filter of_drainer ts) + of_bool (qu_draining (sk_queue s))
       = of_bool (qu_draining (sk_queue s')) + of_bool (of_drainer t)"
  by (cases t) (simp_all add: step_simps drains_def split: net.split)

lemma advance_cap:
  "length (waiting s) \<le> QUEUE_CAP \<Longrightarrow>
     case advance now answer t s of (s', ts, ms) \<Rightarrow> length (waiting s') \<le> QUEUE_CAP"
  by (cases t) (simp_all add: step_simps keep_last_def split: net.split)

lemma advance_closing:
  "case advance now answer t s of (s', ts, ms) \<Rightarrow>
     qu_closing (sk_queue s') = (qu_closing (sk_queue s) \<or> (\<exists>d. t = Ex_close d))"
  by (cases t) (simp_all add: step_simps split: net.split)

lemma advance_exits:
  "case advance now answer t s of (s', ts, ms) \<Rightarrow> length (filter of_exit ts) = of_bool (of_exit t)"
  by (cases t) (simp_all add: step_simps drains_def split: net.split)

lemma advance_config:
  "case advance now answer t s of (s', ts, ms) \<Rightarrow>
     sk_unit_owners s' = sk_unit_owners s \<and> sk_prices s' = sk_prices s"
  by (cases t) (simp_all add: step_simps split: net.split)

text \<open>A batch on its way is never empty, and the drainer and the exit send at most \<open>BATCH\<close> records at a time.\<close>

fun thread_ok :: "thread \<Rightarrow> bool" where
  "thread_ok (Ship_holding k b) = (b \<noteq> [])"
| "thread_ok (Ship_draining k b) = (b \<noteq> [])"
| "thread_ok (Ship_queue k b) = (b \<noteq> [])"
| "thread_ok (Ship_fly k b) = (b \<noteq> [])"
| "thread_ok (Post b) = (b \<noteq> [])"
| "thread_ok (Put_back b) = (b \<noteq> [])"
| "thread_ok (Land n) = (0 < n)"
| "thread_ok (Dr_fly c) = (c \<noteq> [] \<and> length c \<le> BATCH)"
| "thread_ok (Dr_post c) = (c \<noteq> [] \<and> length c \<le> BATCH)"
| "thread_ok (Dr_put_back c) = (c \<noteq> [] \<and> length c \<le> BATCH)"
| "thread_ok (Ex_timed d c out) = (c \<noteq> [] \<and> length c \<le> BATCH)"
| "thread_ok (Ex_post d c out) = (c \<noteq> [] \<and> length c \<le> BATCH)"
| "thread_ok (Ex_put_back c out) = (c \<noteq> [] \<and> length c \<le> BATCH)"
| "thread_ok t = True"

lemma advance_threads:
  "thread_ok t \<Longrightarrow> case advance now answer t s of (s', ts, ms) \<Rightarrow> list_all thread_ok ts"
  by (cases t) (simp_all add: step_simps drains_def BATCH_def split: net.split)

section \<open>The log\<close>

text \<open>Following the outage lines of a log: whether an outage is on at its end, \<open>None\<close> when a line came out of turn.\<close>

fun outage_after :: "log_line list \<Rightarrow> bool \<Rightarrow> bool option" where
  "outage_after [] b = Some b"
| "outage_after (Outage_warned # ls) b = (if b then None else outage_after ls True)"
| "outage_after (Drained_noted n m # ls) b = (if b then outage_after ls False else None)"
| "outage_after (l # ls) b = outage_after ls b"

fun refusal_of :: "log_line \<Rightarrow> nat list" where
  "refusal_of (Refusal_warned code) = [code]"
| "refusal_of l = []"

definition log_ok :: "cloud_sink \<Rightarrow> bool" where
  "log_ok s \<longleftrightarrow> outage_after (sk_log s) False = Some (qu_outage (sk_queue s))
     \<and> distinct (concat (map refusal_of (sk_log s)))
     \<and> set (concat (map refusal_of (sk_log s))) = pu_reported (sk_push s)"

lemma outage_after_snoc:
  "outage_after ls b = Some c \<Longrightarrow> outage_after (ls @ [l]) b = outage_after [l] c"
  by (induction ls b rule: outage_after.induct) (auto split: if_splits)

lemma log_ok_other:
  "log_ok s \<Longrightarrow> sk_log s' = sk_log s \<Longrightarrow> qu_outage (sk_queue s') = qu_outage (sk_queue s) \<Longrightarrow>
     pu_reported (sk_push s') = pu_reported (sk_push s) \<Longrightarrow> log_ok s'"
  by (simp add: log_ok_def)

lemma log_ok_report: "log_ok s \<Longrightarrow> log_ok (report_refusal code s)"
  by (auto simp: log_ok_def report_refusal_def Let_def outage_after_snoc)

lemma log_ok_outage: "log_ok s \<Longrightarrow> log_ok (outage_began s)" "log_ok s \<Longrightarrow> log_ok (outage_ended s)"
  by (auto simp: log_ok_def outage_began_def outage_ended_def outage_after_snoc)

lemma log_ok_dropped: "log_ok s \<Longrightarrow> log_ok (note_dropped n s)"
  by (auto simp: log_ok_def note_dropped_def Let_def outage_after_snoc)

lemma log_ok_exit: "log_ok s \<Longrightarrow> log_ok (close_exit out s)"
  by (auto simp: log_ok_def close_exit_def outage_after_snoc)

lemma log_ok_frames [simp]:
  "log_ok (on_queue (qu_records_update f) s) = log_ok s" "log_ok (s\<lparr>sk_buf := b\<rparr>) = log_ok s"
  "log_ok (on_queue (qu_draining_update g) s) = log_ok s" "log_ok (on_queue (qu_closing_update g) s) = log_ok s"
  "log_ok (on_queue (qu_replayed_update h) s) = log_ok s"
  "log_ok (mark_reached now s) = log_ok s" "log_ok (add_in_flight n s) = log_ok s" "log_ok (sub_in_flight n s) = log_ok s"
  by (simp_all add: log_ok_def mark_reached_def add_in_flight_def sub_in_flight_def)

lemma log_ok_requeue: "log_ok s \<Longrightarrow> log_ok (requeue q s)"
  unfolding requeue_def by (rule log_ok_dropped) simp

lemma advance_log:
  "log_ok s \<Longrightarrow> case advance now answer t s of (s', ts, ms) \<Rightarrow> log_ok s'"
  by (cases t) (simp_all add: push_capped pop_chunk answer_simps log_ok_report log_ok_outage log_ok_exit log_ok_requeue
      split: net.split)

end
