(* ===== verification/Sink_Runs.thy ===== *)
theory Sink_Runs
  imports Sink_Facts "HOL-Library.Sublist"
begin

text \<open>
  What every run of the sink keeps, however its threads interleave; the runs in which acceptance
  follows the order of recording; and a way to play a run step by step.
\<close>

section \<open>The invariant\<close>

fun past_close :: "thread \<Rightarrow> bool" where
  "past_close (Ex_close d) = False"
| "past_close t = of_exit t"

definition sink_ok :: "sink_state \<Rightarrow> bool" where
  "sink_ok x =
     (case x of (s, pool, tr) \<Rightarrow>
        mset (buffered tr) = carried s + mset (concat (map held pool)) + mset (settled tr)
      \<and> qu_in_flight (sk_queue s) = sum_list (map flying pool)
      \<and> length (filter of_drainer pool) = of_bool (qu_draining (sk_queue s))
      \<and> length (waiting s) \<le> QUEUE_CAP \<and> list_all thread_ok pool \<and> log_ok s
      \<and> length (filter of_exit pool) \<le> 1 \<and> (qu_closing (sk_queue s) \<longleftrightarrow> list_ex past_close pool))"

lemma sink_okD:
  assumes "sink_ok (s, pool, tr)"
  shows "mset (buffered tr) = carried s + mset (concat (map held pool)) + mset (settled tr)"
    and "qu_in_flight (sk_queue s) = sum_list (map flying pool)"
    and "length (filter of_drainer pool) = of_bool (qu_draining (sk_queue s))"
    and "length (waiting s) \<le> QUEUE_CAP" and "list_all thread_ok pool" and "log_ok s"
    and "length (filter of_exit pool) \<le> 1" and "qu_closing (sk_queue s) \<longleftrightarrow> list_ex past_close pool"
  using assms by (auto simp: sink_ok_def)

lemma advance_past_close:
  "case advance now answer t s of (s', ts, ms) \<Rightarrow> list_ex past_close ts = of_exit t"
  by (cases t) (simp_all add: step_simps drains_def split: net.split)

lemma past_close_exit: "past_close t \<Longrightarrow> of_exit t"
  by (cases t) simp_all

lemma close_or_past: "of_exit t \<longleftrightarrow> past_close t \<or> (\<exists>d. t = Ex_close d)"
  by (cases t) simp_all

lemma sink_ok_turn:
  assumes ok: "sink_ok (s, before @ t # after, tr)" and adv: "advance now answer t s = (s', ts, ms)"
  shows "sink_ok (s', before @ ts @ after, tr @ ms)"
proof -
  note o = sink_okD [OF ok]
  have "of_drainer t \<longrightarrow> qu_draining (sk_queue s)" using o(3) by (cases "qu_draining (sk_queue s)") (simp_all split: if_splits)
  note dr = advance_drainers [OF this, where now = now and answer = answer, unfolded adv prod.case]
  have "flying t \<le> qu_in_flight (sk_queue s)" using o(2) by simp
  note fl = advance_in_flight [OF this, where now = now and answer = answer, unfolded adv prod.case]
  have "thread_ok t" using o(5) by simp
  note th = advance_threads [OF this, where now = now and answer = answer and s = s, unfolded adv prod.case]
  note co = advance_conserves [where now = now and answer = answer and t = t and s = s, unfolded adv prod.case]
  note cp = advance_cap [OF o(4), where now = now and answer = answer and t = t, unfolded adv prod.case]
  note lg = advance_log [OF o(6), where now = now and answer = answer and t = t, unfolded adv prod.case]
  note ex = advance_exits [where now = now and answer = answer and t = t and s = s, unfolded adv prod.case]
  note pc = advance_past_close [where now = now and answer = answer and t = t and s = s, unfolded adv prod.case]
  note cl = advance_closing [where now = now and answer = answer and t = t and s = s, unfolded adv prod.case]
  have "mset (buffered (tr @ ms)) = carried s' + mset (concat (map held (before @ ts @ after))) + mset (settled (tr @ ms))"
    using o(1) co by (simp add: ac_simps)
  moreover have "qu_in_flight (sk_queue s') = sum_list (map flying (before @ ts @ after))"
    using o(2) fl by simp
  moreover have "length (filter of_drainer (before @ ts @ after)) = of_bool (qu_draining (sk_queue s'))"
  proof -
    have "length (filter of_drainer (before @ t # after))
      = length (filter of_drainer before) + of_bool (of_drainer t) + length (filter of_drainer after)" by simp
    with o(3) dr show ?thesis unfolding filter_append length_append by linarith
  qed
  moreover have "length (filter of_exit (before @ ts @ after)) \<le> 1"
    using o(7) ex by (simp split: if_splits)
  moreover have "qu_closing (sk_queue s') \<longleftrightarrow> list_ex past_close (before @ ts @ after)"
    using o(8) cl pc close_or_past [of t] by auto
  ultimately show ?thesis using o(5) cp lg th by (simp add: sink_ok_def)
qed

lemma sink_ok_step: "sink_step x y \<Longrightarrow> sink_ok x \<Longrightarrow> sink_ok y"
proof (induction rule: sink_step.induct)
  case (turn now answer t s s' ts ms before "after" tr)
  then show ?case by (blast intro: sink_ok_turn)
next
  case (stop pool s tr deadline)
  then have "filter of_exit pool = []" by (auto simp: list_ex_iff filter_empty_conv)
  then show ?case using stop by (simp add: sink_ok_def)
qed (simp_all add: sink_ok_def)

lemma run_ok: "sink_run owners prices interval x \<Longrightarrow> sink_ok x"
proof (induction rule: sink_run.induct)
  case start
  show ?case by (simp add: sink_ok_def sink_new_def queue_default_def spawn_heartbeat_def carried_def log_ok_def)
next
  case (step x y)
  then show ?case by (blast intro: sink_ok_step)
qed

lemma run_config:
  assumes "sink_run owners prices interval x"
  shows "sk_unit_owners (fst x) = owners \<and> sk_prices (fst x) = prices"
  using assms
proof (induction rule: sink_run.induct)
  case (step x y)
  from step.hyps(2) step.IH show ?case
  proof (induction rule: sink_step.induct)
    case (turn now answer t s s' ts ms before "after" tr)
    then show ?case using advance_config [where now = now and answer = answer and t = t and s = s] by simp
  qed simp_all
qed (simp add: sink_new_def)

section \<open>Playing a run\<close>

datatype choice = Call call_record | Tick | Stop int | Turn nat int net

fun perform :: "choice \<Rightarrow> sink_state \<Rightarrow> sink_state option" where
  "perform (Call r) (s, pool, tr) = Some (s, pool @ [Record_push r], tr)"
| "perform Tick (s, pool, tr) = Some (s, pool @ [Flush_take], tr)"
| "perform (Stop deadline) (s, pool, tr) =
     (if list_ex of_exit pool then None else Some (s, pool @ [Ex_close deadline], tr))"
| "perform (Turn i now answer) (s, pool, tr) =
     (if i < length pool
      then (case advance now answer (pool ! i) s of (s', ts, ms) \<Rightarrow>
              Some (s', take i pool @ ts @ drop (Suc i) pool, tr @ ms))
      else None)"

fun play :: "choice list \<Rightarrow> sink_state \<Rightarrow> sink_state option" where
  "play [] x = Some x"
| "play (c # cs) x = (case perform c x of None \<Rightarrow> None | Some y \<Rightarrow> play cs y)"

lemma perform_step: "perform c x = Some y \<Longrightarrow> sink_step x y"
proof (induction c x rule: perform.induct)
  case (4 i now answer s pool tr)
  obtain s' ts ms where adv: "advance now answer (pool ! i) s = (s', ts, ms)" by (cases "advance now answer (pool ! i) s")
  with 4 have "i < length pool" "y = (s', take i pool @ ts @ drop (Suc i) pool, tr @ ms)" by (simp_all split: if_splits)
  then show ?case using sink_step.turn [OF adv, of "take i pool" "drop (Suc i) pool" tr] by (simp add: id_take_nth_drop [symmetric])
qed (auto intro: sink_step.intros split: if_splits)

lemma play_run:
  "play cs x = Some y \<Longrightarrow> sink_run owners prices interval x \<Longrightarrow> sink_run owners prices interval y"
proof (induction cs arbitrary: x)
  case (Cons c cs)
  then obtain z where z: "perform c x = Some z" "play cs z = Some y" by (auto split: option.splits)
  then show ?case using Cons.IH Cons.prems(2) perform_step sink_run.step by blast
qed simp

section \<open>Order\<close>

text \<open>
  The threads that have a batch between the buffer and the queue or its answer. A run is orderly
  while there is at most one of them, none is between its two checks while a drainer that was at
  work has put its chunk back and left, and the process has not been told to stop.
\<close>

fun moving :: "thread \<Rightarrow> bool" where
  "moving (Ship k b) = True"
| "moving (Ship_holding k b) = True"
| "moving (Ship_draining k b) = True"
| "moving (Ship_queue k b) = True"
| "moving (Ship_fly k b) = True"
| "moving (Post b) = True"
| "moving (Put_back b) = True"
| "moving t = False"

fun between_checks :: "thread \<Rightarrow> bool" where
  "between_checks (Ship_draining k b) = True"
| "between_checks t = False"

definition orderly :: "sink_state \<Rightarrow> bool" where
  "orderly x =
     (case x of (s, pool, tr) \<Rightarrow>
        length (filter moving pool) \<le> 1 \<and> \<not> list_ex of_exit pool
      \<and> (list_ex between_checks pool \<longrightarrow> is_holding s \<longrightarrow> qu_draining (sk_queue s)))"

inductive orderly_run :: "(string \<rightharpoonup> string) \<Rightarrow> price_book option \<Rightarrow> nat \<Rightarrow> sink_state \<Rightarrow> bool"
  for owners prices interval where
  start: "orderly_run owners prices interval (sink_new owners prices, spawn_heartbeat interval, [])"
| step: "orderly_run owners prices interval x \<Longrightarrow> sink_step x y \<Longrightarrow> orderly y \<Longrightarrow> orderly_run owners prices interval y"

lemma orderly_is_run: "orderly_run owners prices interval x \<Longrightarrow> sink_run owners prices interval x"
  by (induction rule: orderly_run.induct) (blast intro: sink_run.intros)+

lemma orderly_run_orderly: "orderly_run owners prices interval x \<Longrightarrow> orderly x"
  by (induction rule: orderly_run.induct) (simp_all add: orderly_def spawn_heartbeat_def)

end
