(* ===== verification/Sink_Order.thy ===== *)
theory Sink_Order
  imports Sink_Runs
begin

text \<open>
  In an orderly run the records the control plane has accepted, the chunk the drainer has in the air,
  the queue, the batch on its way to it and the buffer are, in this order, a subsequence of what was
  recorded.
\<close>

definition aloft :: "thread list \<Rightarrow> call_record list" where
  "aloft pool = concat (map held (filter of_drainer pool))"

definition in_hand :: "thread list \<Rightarrow> call_record list" where
  "in_hand pool = concat (map held (filter moving pool))"

fun past_checks :: "thread \<Rightarrow> bool" where
  "past_checks (Ship_fly k b) = True"
| "past_checks (Post b) = True"
| "past_checks (Put_back b) = True"
| "past_checks t = False"

definition order_ok :: "sink_state \<Rightarrow> bool" where
  "order_ok x =
     (case x of (s, pool, tr) \<Rightarrow>
        subseq (taken tr @ aloft pool @ waiting s @ in_hand pool @ sk_buf s) (buffered tr)
      \<and> (list_ex past_checks pool \<longrightarrow> waiting s = [] \<and> aloft pool = []))"

lemma pool_simps [simp]:
  "aloft [] = []" "in_hand [] = []" "aloft (p @ q) = aloft p @ aloft q" "in_hand (p @ q) = in_hand p @ in_hand q"
  "aloft (t # p) = (if of_drainer t then held t else []) @ aloft p"
  "in_hand (t # p) = (if moving t then held t else []) @ in_hand p"
  "aloft (drains k) = []" "in_hand (drains k) = []" "list_ex past_checks (drains k) = False"
  "filter moving (drains k) = []"
  by (simp_all add: aloft_def in_hand_def drains_def)

lemma subseq_keep: "subseq (keep_last n q) q"
  by (simp add: keep_last_def suffix_imp_subseq suffix_drop)

lemma subseq_replace: "subseq (p @ u @ q) w \<Longrightarrow> subseq v u \<Longrightarrow> subseq (p @ v @ q) w"
  by (meson list_emb_append_mono subseq_order.order_refl subseq_order.order_trans)

lemma subseq_keep_in: "subseq (a @ keep_last n (u @ v) @ w) (a @ u @ v @ w)"
  using subseq_replace [OF _ subseq_keep, of a "u @ v" w "a @ u @ v @ w" n] by simp

lemma move_step:
  assumes "moving t" and "past_checks t \<longrightarrow> waiting s = [] \<and> a = []"
  shows "case advance now answer t s of (s', ts, ms) \<Rightarrow>
    subseq (taken ms @ a @ waiting s' @ in_hand ts @ sk_buf s') (a @ waiting s @ held t @ sk_buf s)
    \<and> buffered ms = [] \<and> aloft ts = []"
  using assms by (cases t) (auto simp: step_simps intro!: subseq_keep subseq_keep_in split: net.split)

lemma move_checks:
  assumes "moving t" and "past_checks t \<longrightarrow> waiting s = []"
    and "between_checks t \<and> \<not> qu_draining (sk_queue s) \<longrightarrow> waiting s = []"
  shows "case advance now answer t s of (s', ts, ms) \<Rightarrow>
    list_ex past_checks ts \<longrightarrow> waiting s' = [] \<and> (past_checks t \<or> between_checks t \<and> \<not> qu_draining (sk_queue s))"
  using assms by (cases t) (auto simp: step_simps split: net.split)

lemma drain_step:
  assumes "of_drainer t"
  shows "case advance now answer t s of (s', ts, ms) \<Rightarrow>
    subseq (taken ms @ aloft ts @ waiting s') (held t @ waiting s)
    \<and> buffered ms = [] \<and> in_hand ts = [] \<and> sk_buf s' = sk_buf s \<and> \<not> list_ex past_checks ts"
  using assms by (cases t) (auto simp: step_simps intro!: subseq_keep split: net.split)

lemma other_step:
  assumes "\<not> moving t" "\<not> of_drainer t" "\<not> of_exit t"
  shows "case advance now answer t s of (s', ts, ms) \<Rightarrow>
    in_hand ts @ sk_buf s' = sk_buf s @ buffered ms \<and> waiting s' = waiting s \<and> taken ms = []
    \<and> aloft ts = [] \<and> \<not> list_ex past_checks ts \<and> (filter moving ts = [] \<longrightarrow> in_hand ts = [])"
  using assms by (cases t) (simp_all add: step_simps split: net.split)

lemma in_hand_none: "filter moving pool = [] \<Longrightarrow> in_hand pool = []"
  by (simp add: in_hand_def)

lemma aloft_none: "filter of_drainer pool = [] \<Longrightarrow> aloft pool = []"
  by (simp add: aloft_def)

lemma order_turn:
  assumes adv: "advance now answer t s = (s', ts, ms)" and ok: "sink_ok (s, before @ t # after, tr)"
    and before: "orderly (s, before @ t # after, tr)" and "after": "orderly (s', before @ ts @ after, tr @ ms)"
    and ord: "order_ok (s, before @ t # after, tr)"
  shows "order_ok (s', before @ ts @ after, tr @ ms)"
proof -
  let ?a = "aloft before @ aloft after"
  note o = ord [unfolded order_ok_def prod.case]
  have nx: "\<not> of_exit t" using before by (simp add: orderly_def)
  consider (move) "moving t" "\<not> of_drainer t" | (drain) "of_drainer t" "\<not> moving t" | (other) "\<not> moving t" "\<not> of_drainer t"
    by (cases t) simp_all
  then show ?thesis
  proof cases
    case move
    have m: "in_hand before = []" "in_hand after = []"
      using before move by (auto simp: orderly_def intro: in_hand_none)
    have np: "\<not> list_ex past_checks before" "\<not> list_ex past_checks after"
      using before move by (auto simp: orderly_def list_ex_iff filter_empty_conv elim!: past_checks.elims)
    have pc: "past_checks t \<longrightarrow> waiting s = [] \<and> ?a = []" using o move by auto
    have bc: "between_checks t \<and> \<not> qu_draining (sk_queue s) \<longrightarrow> waiting s = []"
      using before by (auto simp: orderly_def is_holding_def)
    have da: "\<not> qu_draining (sk_queue s) \<Longrightarrow> ?a = []"
      using sink_okD(3) [OF ok] by (auto simp: aloft_none split: if_splits)
    note st = move_step [OF move(1) pc, where now = now and answer = answer, unfolded adv prod.case]
    have "subseq (taken tr @ (?a @ waiting s @ held t @ sk_buf s) @ []) (buffered tr)" using o move m by simp
    from subseq_replace [OF this conjunct1 [OF st]]
    have "subseq (taken (tr @ ms) @ aloft (before @ ts @ after) @ waiting s' @ in_hand (before @ ts @ after) @ sk_buf s')
        (buffered (tr @ ms))"
      using st m by (simp add: )
    moreover have "list_ex past_checks ts \<Longrightarrow> waiting s' = [] \<and> ?a = []"
      using move_checks [OF move(1) _ bc, where now = now and answer = answer] pc da by (auto simp: adv)
    ultimately show ?thesis using st np by (auto simp: order_ok_def)
  next
    case drain
    have "length (filter of_drainer (before @ t # after)) \<le> 1" using sink_okD(3) [OF ok] by (simp only:) simp
    then have a: "aloft before = []" "aloft after = []" using drain by (auto intro: aloft_none)
    note st = drain_step [OF drain(1), where now = now and answer = answer and s = s, unfolded adv prod.case]
    have "subseq (taken tr @ (held t @ waiting s) @ (in_hand (before @ t # after) @ sk_buf s)) (buffered tr)"
      using o a drain by simp
    from subseq_replace [OF this conjunct1 [OF st]]
    have "subseq (taken (tr @ ms) @ aloft (before @ ts @ after) @ waiting s' @ in_hand (before @ ts @ after) @ sk_buf s')
        (buffered (tr @ ms))"
      using st a drain by simp
    moreover have "waiting s' = [] \<and> aloft ts = []" if "list_ex past_checks (before @ ts @ after)"
    proof -
      have "waiting s = [] \<and> held t = []" using o that st drain a by auto
      then have "subseq (taken ms @ aloft ts @ waiting s') []" using conjunct1 [OF st] by simp
      from list_emb_Nil2 [OF this] show ?thesis by simp
    qed
    ultimately show ?thesis using a by (simp add: order_ok_def)
  next
    case other
    note st = other_step [OF other nx, where now = now and answer = answer and s = s, unfolded adv prod.case]
    have "in_hand ts = [] \<or> in_hand before = [] \<and> in_hand after = []"
    proof (cases "filter moving ts")
      case (Cons m ms')
      then have "filter moving before = [] \<and> filter moving after = []" using "after" by (auto simp: orderly_def)
      then show ?thesis by (simp add: in_hand_none)
    qed (use st in simp)
    then have eq: "in_hand (before @ ts @ after) @ sk_buf s' = (in_hand (before @ t # after) @ sk_buf s) @ buffered ms"
      using st other by auto
    have "subseq ((taken tr @ aloft (before @ t # after) @ waiting s @ in_hand (before @ t # after) @ sk_buf s) @ buffered ms)
        (buffered tr @ buffered ms)"
      using o by (intro list_emb_append_mono) simp_all
    then have "subseq (taken (tr @ ms) @ aloft (before @ ts @ after) @ waiting s' @ in_hand (before @ ts @ after) @ sk_buf s')
        (buffered (tr @ ms))"
      using st other by (simp add: eq [simplified])
    then show ?thesis using o st other by (auto simp: order_ok_def)
  qed
qed

lemma order_step:
  assumes "sink_step x y" and "sink_ok x" "orderly x" "orderly y" "order_ok x"
  shows "order_ok y"
  using assms
proof (induction rule: sink_step.induct)
  case (turn now answer t s s' ts ms before "after" tr)
  then show ?case by (blast intro: order_turn)
qed (simp_all add: order_ok_def orderly_def)

lemma order_run: "orderly_run owners prices interval x \<Longrightarrow> order_ok x"
proof (induction rule: orderly_run.induct)
  case start
  show ?case by (simp add: order_ok_def sink_new_def queue_default_def spawn_heartbeat_def)
next
  case (step x y)
  then show ?case using order_step orderly_run_orderly run_ok [OF orderly_is_run] by blast
qed

section \<open>Playing an orderly run\<close>

fun play_orderly :: "choice list \<Rightarrow> sink_state \<Rightarrow> sink_state option" where
  "play_orderly [] x = Some x"
| "play_orderly (c # cs) x =
     (case perform c x of None \<Rightarrow> None | Some y \<Rightarrow> if orderly y then play_orderly cs y else None)"

lemma play_orderly_run:
  "play_orderly cs x = Some y \<Longrightarrow> orderly_run owners prices interval x \<Longrightarrow> orderly_run owners prices interval y"
proof (induction cs arbitrary: x)
  case (Cons c cs)
  then obtain z where z: "perform c x = Some z" "orderly z" "play_orderly cs z = Some y"
    by (auto split: option.splits if_splits)
  then show ?case using Cons.IH Cons.prems(2) perform_step orderly_run.step by blast
qed simp

section \<open>Where order is lost\<close>

definition call_named :: "string \<Rightarrow> call_record" where
  "call_named run =
     \<lparr>cd_ts_millis = 0, cd_run_id = run, cd_model = ''m'', cd_decision = ''allow'', cd_input_tokens = 1,
      cd_output_tokens = 1, cd_cost = 5, cd_step = 0, cd_agent_id = [], cd_saved = 0, cd_parent_run_id = [],
      cd_on_behalf_of = [], cd_outcome = [], cd_key_id = [], cd_unit = [], cd_tool_calls = None,
      cd_tools_offered = None, cd_tools_would_prune = None, cd_pruned_schema_tokens = None,
      cd_identity_reason = None, cd_pii_findings = None, cd_price_basis = None\<rparr>"

abbreviation turns :: "nat \<Rightarrow> net \<Rightarrow> nat \<Rightarrow> choice list" where
  "turns i answer n \<equiv> replicate n (Turn i 0 answer)"

text \<open>
  Two flushes whose fast pushes overlap and both fail: the second puts its batch back in front of the
  first, so the queue is replayed in the wrong order.
\<close>

definition overlapping_flushes :: "choice list" where
  "overlapping_flushes =
     [Call (call_named ''a'')] @ turns 0 (Net_status 200) 2 @ [Tick] @ turns 0 (Net_status 200) 5
     @ turns 1 (Net_status 200) 1
     @ [Call (call_named ''b'')] @ turns 1 (Net_status 200) 2 @ [Tick] @ turns 1 (Net_status 200) 5
     @ turns 2 (Net_status 200) 1
     @ turns 0 (Net_lost False) 3 @ turns 0 (Net_lost False) 3"

lemmas play_simps = play.simps perform.simps advance.simps step_simps drains_def requeue_def spill_def keep_last_def
  QUEUE_CAP_def BATCH_def arrival_def cut_def sink_new_def queue_default_def outage_began_def note_dropped_def
  spawn_heartbeat_def

lemma overlapping_flushes_reorder:
  "\<exists>s pool tr. sink_run (\<lambda>_. None) None 0 (s, pool, tr)
     \<and> buffered tr = [call_named ''a'', call_named ''b''] \<and> waiting s = [call_named ''b'', call_named ''a''] \<and> pool = []"
proof -
  obtain s pool tr where p: "play overlapping_flushes (sink_new (\<lambda>_. None) None, spawn_heartbeat 0, []) = Some (s, pool, tr)"
      "buffered tr = [call_named ''a'', call_named ''b'']" "waiting s = [call_named ''b'', call_named ''a'']" "pool = []"
    by (simp add: overlapping_flushes_def eval_nat_numeral play_simps)
  then show ?thesis using play_run [OF p(1) sink_run.start] by blast
qed

text \<open>
  A batch whose thread finds the queue empty, because the drainer holds the only chunk, and then finds
  no drainer, because the chunk failed and was put back in between, is sent at once: past the chunk.
\<close>

definition put_back_between_checks :: "choice list" where
  "put_back_between_checks =
     [Call (call_named ''a'')] @ turns 0 (Net_status 200) 2 @ [Tick] @ turns 0 (Net_status 200) 5
     @ turns 1 (Net_status 200) 1 @ turns 0 (Net_lost False) 3
     @ [Tick] @ turns 0 (Net_status 200) 7
     @ [Call (call_named ''b'')] @ turns 1 (Net_status 200) 2 @ [Tick] @ turns 1 (Net_status 200) 3
     @ turns 0 (Net_lost False) 5 @ turns 0 (Net_status 200) 3"

lemma put_back_between_checks_overtakes:
  "\<exists>s pool tr. sink_run (\<lambda>_. None) None 0 (s, pool, tr)
     \<and> buffered tr = [call_named ''a'', call_named ''b''] \<and> taken tr = [call_named ''b''] \<and> waiting s = [call_named ''a'']"
proof -
  obtain s pool tr where p: "play put_back_between_checks (sink_new (\<lambda>_. None) None, spawn_heartbeat 0, []) = Some (s, pool, tr)"
      "buffered tr = [call_named ''a'', call_named ''b'']" "taken tr = [call_named ''b'']" "waiting s = [call_named ''a'']"
    by (simp add: put_back_between_checks_def eval_nat_numeral play_simps is_success_def mark_reached_def)
  then show ?thesis using play_run [OF p(1) sink_run.start] by blast
qed

section \<open>Where the exit counts short\<close>

text \<open>The flush tick has taken the buffer when the exit looks for it.\<close>

definition exit_during_flush :: "choice list" where
  "exit_during_flush =
     [Call (call_named ''a'')] @ turns 0 (Net_status 200) 2 @ [Tick] @ turns 0 (Net_status 200) 1
     @ [Stop 5] @ turns 1 (Net_status 200) 8 @ turns 0 (Net_status 200) 2"

lemma exit_during_flush_misses:
  "\<exists>s pool tr out. sink_run (\<lambda>_. None) None 0 (s, pool, tr)
     \<and> Ex_done out \<in> set pool \<and> ef_unsent out = 0 \<and> waiting s = [call_named ''a'']"
proof -
  obtain s pool tr out where p: "play exit_during_flush (sink_new (\<lambda>_. None) None, spawn_heartbeat 0, []) = Some (s, pool, tr)"
      "pool = [Drain 0, Ex_done out]" "ef_unsent out = 0" "waiting s = [call_named ''a'']"
    by (simp add: exit_during_flush_def eval_nat_numeral play_simps close_exit_def exit_flush_default_def)
  then have "Ex_done out \<in> set pool" by simp
  then show ?thesis using play_run [OF p(1) sink_run.start] p by blast
qed

text \<open>Time runs out while a push is on the wire; it fails between the two reads of the final count.\<close>

definition put_back_during_count :: "choice list" where
  "put_back_during_count =
     [Call (call_named ''a'')] @ turns 0 (Net_status 200) 2 @ [Tick] @ turns 0 (Net_status 200) 5
     @ turns 1 (Net_status 200) 1 @ [Stop 5] @ turns 1 (Net_status 200) 2 @ [Turn 1 5 (Net_status 200)]
     @ turns 1 (Net_status 200) 3 @ turns 0 (Net_lost False) 3 @ turns 0 (Net_status 200) 1"

lemma put_back_during_count_misses:
  "\<exists>s tr out. sink_run (\<lambda>_. None) None 0 (s, [Ex_done out], tr)
     \<and> ef_unsent out = 0 \<and> waiting s = [call_named ''a'']"
proof -
  obtain s pool tr out where p: "play put_back_during_count (sink_new (\<lambda>_. None) None, spawn_heartbeat 0, []) = Some (s, pool, tr)"
      "pool = [Ex_done out]" "ef_unsent out = 0" "waiting s = [call_named ''a'']"
    by (simp add: put_back_during_count_def eval_nat_numeral play_simps close_exit_def exit_flush_default_def)
  then show ?thesis using play_run [OF p(1) sink_run.start] by blast
qed

end
