(* ===== verification/Sink_Exit.thy ===== *)
theory Sink_Exit
  imports Sink_Runs
begin

text \<open>
  The flush before exit, from the moment it is started with no request left in the gateway: how what
  it reports relates to what is left. Then the drainer and the exit running against a control plane
  that answers.
\<close>

section \<open>Accounts of the exit\<close>

fun turned_away_of :: "mark \<Rightarrow> call_record list" where
  "turned_away_of (Turned_away b) = b"
| "turned_away_of m = []"

fun unencoded_of :: "mark \<Rightarrow> call_record list" where
  "unencoded_of (Unencoded b) = b"
| "unencoded_of m = []"

definition turned_away :: "mark list \<Rightarrow> call_record list" where
  "turned_away tr = concat (map turned_away_of tr)"

definition unencoded :: "mark list \<Rightarrow> call_record list" where
  "unencoded tr = concat (map unencoded_of tr)"

lemma exit_accounts_simps [simp]:
  "turned_away [] = []" "turned_away (m # tr) = turned_away_of m @ turned_away tr"
  "turned_away (tr @ tr') = turned_away tr @ turned_away tr'"
  "unencoded [] = []" "unencoded (m # tr) = unencoded_of m @ unencoded tr"
  "unencoded (tr @ tr') = unencoded tr @ unencoded tr'"
  "turned_away (arrival answer b s) = []" "unencoded (arrival answer b s) = []"
  "turned_away (cut rs) = []" "unencoded (cut rs) = []"
  by (simp_all add: turned_away_def unencoded_def arrival_def cut_def Let_def split: net.split)

section \<open>Winding down\<close>

fun in_background :: "thread \<Rightarrow> bool" where
  "in_background (Hb_wait i) = True"
| "in_background (Hb_sleep i u) = True"
| "in_background (Hb_tick i) = True"
| "in_background (Hb_clock i) = True"
| "in_background (Hb_post i) = True"
| "in_background t = False"

fun of_push :: "thread \<Rightarrow> bool" where
  "of_push (Post b) = True"
| "of_push (Put_back b) = True"
| "of_push (Land n) = True"
| "of_push t = False"

text \<open>Only turns: nothing is recorded, flushed or started any more.\<close>

inductive winding :: "sink_state \<Rightarrow> sink_state \<Rightarrow> bool" for x where
  rest: "winding x x"
| turn: "winding x (s, before @ t # after, tr) \<Longrightarrow> advance now answer t s = (s', ts, ms) \<Longrightarrow>
           winding x (s', before @ ts @ after, tr @ ms)"

text \<open>Who may still be there beside the exit, by how far the exit has come.\<close>

fun beside :: "thread \<Rightarrow> thread \<Rightarrow> bool" where
  "beside (Ex_close d) t = (of_push t \<or> of_drainer t \<or> in_background t)"
| "beside (Ex_take d) t = (of_push t \<or> of_drainer t \<or> in_background t)"
| "beside (Ex_wait d b) t = (of_push t \<or> of_drainer t \<or> in_background t)"
| "beside (Ex_wait_drain d b) t = (of_drainer t \<or> in_background t)"
| "beside e t = in_background t"

fun before_take :: "thread \<Rightarrow> bool" where
  "before_take (Ex_close d) = True"
| "before_take (Ex_take d) = True"
| "before_take t = False"

fun exit_report_of :: "thread \<Rightarrow> exit_flush option" where
  "exit_report_of (Ex_pop d out) = Some out"
| "exit_report_of (Ex_timed d c out) = Some out"
| "exit_report_of (Ex_post d c out) = Some out"
| "exit_report_of (Ex_put_back c out) = Some out"
| "exit_report_of (Ex_count out) = Some out"
| "exit_report_of (Ex_flight out) = Some out"
| "exit_report_of (Ex_done out) = Some out"
| "exit_report_of t = None"

fun queue_counted :: "thread \<Rightarrow> bool" where
  "queue_counted (Ex_flight out) = True"
| "queue_counted (Ex_done out) = True"
| "queue_counted t = False"

definition report_fits :: "thread \<Rightarrow> cloud_sink \<Rightarrow> mark list \<Rightarrow> bool" where
  "report_fits e s tr \<longleftrightarrow>
     (case exit_report_of e of
        None \<Rightarrow> True
      | Some out \<Rightarrow>
          (\<exists>tr1 tr2. tr = tr1 @ tr2 \<and> ef_sent out = length (taken tr2) \<and> ef_refused out = length (turned_away tr2)
             \<and> ef_unsent out = length (unencoded tr2) + (if queue_counted e then length (waiting s) else 0)))"

definition exit_ok :: "mark list \<Rightarrow> sink_state \<Rightarrow> bool" where
  "exit_ok tr0 x =
     (case x of (s, pool, tr) \<Rightarrow>
        \<exists>e. filter of_exit pool = [e] \<and> (\<forall>t \<in> set pool. of_exit t \<or> beside e t)
          \<and> (before_take e \<or> sk_buf s = []) \<and> buffered tr = buffered tr0 \<and> report_fits e s tr)"

lemma beside_step:
  assumes "beside e t" "\<not> of_exit t"
  shows "case advance now answer t s of (s', ts, ms) \<Rightarrow>
    (\<forall>u \<in> set ts. beside e u \<and> \<not> of_exit u) \<and> sk_buf s' = sk_buf s \<and> buffered ms = []
    \<and> (in_background t \<longrightarrow> waiting s' = waiting s \<and> taken ms = [] \<and> turned_away ms = [] \<and> unencoded ms = [])"
proof -
  have k: "of_push t \<or> of_drainer t \<or> in_background t" using assms by (cases e) simp_all
  have "beside e u" if "of_push t \<longrightarrow> of_push u" "of_drainer t \<longrightarrow> of_drainer u" "in_background t \<longrightarrow> in_background u" for u
    using assms that by (cases e) auto
  moreover have "case advance now answer t s of (s', ts, ms) \<Rightarrow>
    (\<forall>u \<in> set ts. (of_push t \<longrightarrow> of_push u) \<and> (of_drainer t \<longrightarrow> of_drainer u) \<and> (in_background t \<longrightarrow> in_background u) \<and> \<not> of_exit u)
    \<and> sk_buf s' = sk_buf s \<and> buffered ms = []
    \<and> (in_background t \<longrightarrow> waiting s' = waiting s \<and> taken ms = [] \<and> turned_away ms = [] \<and> unencoded ms = [])"
    using k by (cases t) (simp_all add: step_simps split: net.split)
  ultimately show ?thesis by (auto split: prod.splits)
qed

lemma beside_late: "exit_report_of e \<noteq> None \<Longrightarrow> beside e t \<Longrightarrow> in_background t"
  by (cases e) simp_all

lemma report_fits_next:
  assumes fits: "report_fits e s tr" and e: "exit_report_of e = Some out" and e': "exit_report_of e' = Some out'"
    and "ef_sent out' = ef_sent out + length (taken ms)"
    and "ef_refused out' = ef_refused out + length (turned_away ms)"
    and "ef_unsent out' + (if queue_counted e then length (waiting s) else 0)
       = ef_unsent out + length (unencoded ms) + (if queue_counted e' then length (waiting s') else 0)"
  shows "report_fits e' s' (tr @ ms)"
proof -
  obtain tr1 tr2 where o: "tr = tr1 @ tr2" "ef_sent out = length (taken tr2)" "ef_refused out = length (turned_away tr2)"
      "ef_unsent out = length (unencoded tr2) + (if queue_counted e then length (waiting s) else 0)"
    using fits e by (auto simp: report_fits_def)
  have "tr @ ms = tr1 @ (tr2 @ ms)" "ef_sent out' = length (taken (tr2 @ ms))" "ef_refused out' = length (turned_away (tr2 @ ms))"
      "ef_unsent out' = length (unencoded (tr2 @ ms)) + (if queue_counted e' then length (waiting s') else 0)"
    using assms o by simp_all
  then show ?thesis unfolding report_fits_def e' option.case by blast
qed

lemma report_fits_other:
  "report_fits e s tr \<Longrightarrow> waiting s' = waiting s \<Longrightarrow> taken ms = [] \<Longrightarrow> turned_away ms = [] \<Longrightarrow> unencoded ms = [] \<Longrightarrow>
     report_fits e s' (tr @ ms)"
proof (cases "exit_report_of e")
  case (Some out)
  assume "report_fits e s tr" "waiting s' = waiting s" "taken ms = []" "turned_away ms = []" "unencoded ms = []"
  then show ?thesis using Some by (intro report_fits_next [where e = e and s = s and out = out and out' = out]) simp_all
qed (simp add: report_fits_def)

lemma report_fits_first:
  "exit_report_of e = None \<or> exit_report_of e = Some exit_flush_default \<and> \<not> queue_counted e \<Longrightarrow> report_fits e s tr"
  by (elim disjE conjE)
    (simp_all add: report_fits_def exit_flush_default_def, intro exI [of _ tr] exI [of _ "[]"], simp)

lemma exit_successor:
  assumes "of_exit e" and "before_take e \<or> sk_buf s = []"
  shows "case advance now answer e s of (s', ts, ms) \<Rightarrow>
    \<exists>e'. ts = [e'] \<and> of_exit e' \<and> (before_take e' \<or> sk_buf s' = []) \<and> buffered ms = []
     \<and> (\<forall>t. beside e t \<longrightarrow> Gave_up \<notin> set ms \<longrightarrow>
          (qu_in_flight (sk_queue s) = 0 \<longrightarrow> \<not> of_push t) \<longrightarrow> (\<not> qu_draining (sk_queue s) \<longrightarrow> \<not> of_drainer t) \<longrightarrow> beside e' t)
     \<and> (case exit_report_of e of
          None \<Rightarrow> exit_report_of e' = None \<or> exit_report_of e' = Some exit_flush_default \<and> \<not> queue_counted e'
        | Some out \<Rightarrow> \<exists>out'. exit_report_of e' = Some out' \<and> ef_sent out' = ef_sent out + length (taken ms)
            \<and> ef_refused out' = ef_refused out + length (turned_away ms)
            \<and> (qu_in_flight (sk_queue s) = 0 \<longrightarrow>
                 ef_unsent out' + (if queue_counted e then length (waiting s) else 0)
                 = ef_unsent out + length (unencoded ms) + (if queue_counted e' then length (waiting s') else 0)))"
  using assms by (cases e) (auto simp: step_simps split: net.split)


lemma exit_ok_turn:
  assumes adv: "advance now answer t s = (s', ts, ms)" and ok: "sink_ok (s, before @ t # after, tr)"
    and ex: "exit_ok tr0 (s, before @ t # after, tr)" and waited: "Gave_up \<notin> set ms"
  shows "exit_ok tr0 (s', before @ ts @ after, tr @ ms)"
proof -
  obtain e where e: "filter of_exit (before @ t # after) = [e]" "\<forall>u \<in> set (before @ t # after). of_exit u \<or> beside e u"
      "before_take e \<or> sk_buf s = []" "buffered tr = buffered tr0" "report_fits e s tr"
    using ex unfolding exit_ok_def by auto
  have "e \<in> set (filter of_exit (before @ t # after))" using e(1) by simp
  then have xe: "of_exit e" by (simp only: set_filter mem_Collect_eq)
  show ?thesis
  proof (cases "of_exit t")
    case True
    have te: "t = e" and alone: "filter of_exit before = []" "filter of_exit after = []"
      using e(1) True by (auto simp: append_eq_Cons_conv)
    have others: "\<forall>u \<in> set before \<union> set after. beside e u \<and> \<not> of_exit u"
      using e(2) alone by (auto simp: filter_empty_conv)
    have "sum_list (map flying (before @ t # after)) = qu_in_flight (sk_queue s)" using sink_okD(2) [OF ok] by simp
    then have "qu_in_flight (sk_queue s) = 0 \<Longrightarrow> \<forall>u \<in> set before \<union> set after. flying u = 0" by auto
    moreover have "thread_ok u \<Longrightarrow> flying u = 0 \<Longrightarrow> \<not> of_push u" for u by (cases u) auto
    ultimately have push: "\<forall>u \<in> set before \<union> set after. qu_in_flight (sk_queue s) = 0 \<longrightarrow> \<not> of_push u"
      using sink_okD(5) [OF ok] by (auto simp: list_all_iff)
    have drain: "\<forall>u \<in> set before \<union> set after. \<not> qu_draining (sk_queue s) \<longrightarrow> \<not> of_drainer u"
      using sink_okD(3) [OF ok] by (auto simp: filter_empty_conv split: if_splits)
    have quiet: "qu_in_flight (sk_queue s) = 0" if "exit_report_of e \<noteq> None"
    proof -
      have "flying u = 0" if "in_background u" for u using that by (cases u) simp_all
      moreover have "flying e = 0" using xe by (cases e) simp_all
      ultimately have "\<forall>u \<in> set (before @ t # after). flying u = 0"
        using others te beside_late [OF that] by auto
      then have "sum_list (map flying (before @ t # after)) = 0" by (simp only: sum_list_eq_0_iff) auto
      then show ?thesis using sink_okD(2) [OF ok] by simp
    qed
    note ss = exit_successor [OF xe e(3), where now = now and answer = answer, unfolded adv [unfolded te] prod.case]
    obtain e' where e': "ts = [e']" "of_exit e'" "before_take e' \<or> sk_buf s' = []" "buffered ms = []"
        "\<forall>u. beside e u \<longrightarrow> Gave_up \<notin> set ms \<longrightarrow> (qu_in_flight (sk_queue s) = 0 \<longrightarrow> \<not> of_push u)
           \<longrightarrow> (\<not> qu_draining (sk_queue s) \<longrightarrow> \<not> of_drainer u) \<longrightarrow> beside e' u"
        "case exit_report_of e of
          None \<Rightarrow> exit_report_of e' = None \<or> exit_report_of e' = Some exit_flush_default \<and> \<not> queue_counted e'
        | Some out \<Rightarrow> \<exists>out'. exit_report_of e' = Some out' \<and> ef_sent out' = ef_sent out + length (taken ms)
            \<and> ef_refused out' = ef_refused out + length (turned_away ms)
            \<and> (qu_in_flight (sk_queue s) = 0 \<longrightarrow>
                 ef_unsent out' + (if queue_counted e then length (waiting s) else 0)
                 = ef_unsent out + length (unencoded ms) + (if queue_counted e' then length (waiting s') else 0))"
      using ss by blast
    have "report_fits e' s' (tr @ ms)"
    proof (cases "exit_report_of e")
      case None
      then show ?thesis using e'(6) by (intro report_fits_first) simp
    next
      case (Some out)
      then show ?thesis using e'(6) quiet report_fits_next [OF e(5) Some] by auto
    qed
    moreover have "\<forall>u \<in> set before \<union> set after. beside e' u" using others push drain waited e'(5) by blast
    ultimately show ?thesis unfolding exit_ok_def prod.case
      using e' e(4) alone others by (intro exI [of _ e']) auto
  next
    case False
    note b = beside_step [OF _ False, where e = e and now = now and answer = answer and s = s, unfolded adv prod.case]
    have bt: "beside e t" using e(2) False by simp
    note b = b [OF bt]
    have "filter of_exit ts = []" using b by (auto simp: filter_empty_conv)
    moreover have "report_fits e s' (tr @ ms)"
    proof (cases "exit_report_of e")
      case (Some out)
      then have "in_background t" using beside_late [of e t] bt by simp
      then show ?thesis using b report_fits_other [OF e(5)] by simp
    qed (simp add: report_fits_def)
    ultimately show ?thesis unfolding exit_ok_def prod.case using e b False by (intro exI [of _ e]) auto
  qed
qed


lemma winding_ok:
  assumes "winding x y" and "sink_ok x" and "exit_ok tr0 x"
  shows "sink_ok y \<and> (Gave_up \<notin> set (snd (snd y)) \<longrightarrow> exit_ok tr0 y)"
  using assms
proof (induction rule: winding.induct)
  case (turn s before t "after" tr now answer s' ts ms)
  have "sink_ok (s', before @ ts @ after, tr @ ms)" using turn sink_ok_turn by blast
  moreover have "exit_ok tr0 (s', before @ ts @ after, tr @ ms)" if "Gave_up \<notin> set (tr @ ms)"
    using turn that exit_ok_turn [OF turn.hyps(2)] by simp
  ultimately show ?case by simp
qed simp

lemma winding_run:
  "winding x y \<Longrightarrow> sink_run owners prices interval x \<Longrightarrow> sink_run owners prices interval y"
  by (induction rule: winding.induct) (blast intro: sink_run.step sink_step.turn)+

lemma held_in_background: "in_background t \<Longrightarrow> held t = []"
  by (cases t) simp_all

text \<open>No request is left, and the exit has just been started.\<close>

definition ready_to_stop :: "thread list \<Rightarrow> bool" where
  "ready_to_stop pool \<longleftrightarrow>
     (\<exists>before after d. pool = before @ Ex_close d # after
        \<and> (\<forall>t \<in> set before \<union> set after. of_push t \<or> of_drainer t \<or> in_background t))"

lemma ready_exit_ok:
  assumes "ready_to_stop pool" shows "exit_ok tr (s, pool, tr)"
proof -
  obtain before "after" d where p: "pool = before @ Ex_close d # after"
      "\<forall>t \<in> set before \<union> set after. of_push t \<or> of_drainer t \<or> in_background t"
    using assms unfolding ready_to_stop_def by blast
  have "\<not> of_exit t" if "of_push t \<or> of_drainer t \<or> in_background t" for t using that by (cases t) auto
  then have "filter of_exit before = []" "filter of_exit after = []" using p(2) by (auto simp: filter_empty_conv)
  then show ?thesis using p by (auto simp: exit_ok_def report_fits_def intro!: exI [of _ "Ex_close d"])
qed

lemma exit_accounts:
  assumes run: "sink_run owners prices interval (s0, pool0, tr0)" and ready: "ready_to_stop pool0"
    and wind: "winding (s0, pool0, tr0) (s, pool, tr)" and fin: "Ex_done out \<in> set pool" and waited: "Gave_up \<notin> set tr"
  shows "sk_buf s = [] \<and> concat (map held pool) = [] \<and> mset (buffered tr0) = mset (waiting s) + mset (settled tr)
    \<and> (\<exists>tr1 tr2. tr = tr1 @ tr2 \<and> ef_sent out = length (taken tr2) \<and> ef_refused out = length (turned_away tr2)
         \<and> ef_unsent out = length (unencoded tr2) + length (waiting s))"
proof -
  note ok = winding_ok [OF wind run_ok [OF run] ready_exit_ok [OF ready]]
  have so: "sink_ok (s, pool, tr)" using ok by simp
  obtain e where e: "filter of_exit pool = [e]" "\<forall>t \<in> set pool. of_exit t \<or> beside e t" "before_take e \<or> sk_buf s = []"
      "buffered tr = buffered tr0" "report_fits e s tr"
    using ok waited by (auto simp: exit_ok_def)
  have "Ex_done out \<in> set (filter of_exit pool)" using fin by simp
  then have e_is: "e = Ex_done out" using e(1) by simp
  have h: "held t = []" if "t \<in> set pool" for t
  proof (cases "of_exit t")
    case True
    then have "t \<in> set (filter of_exit pool)" using that by (simp only: set_filter mem_Collect_eq)
    then show ?thesis using e(1) e_is by simp
  next
    case False
    then show ?thesis using e(2) that e_is held_in_background by auto
  qed
  then have "concat (map held pool) = []" by simp
  then show ?thesis
    using sink_okD(1) [OF so] e(3-5) e_is by (simp add: carried_def report_fits_def)
qed

section \<open>Against a control plane that answers\<close>

text \<open>One thread alone, for a number of turns.\<close>

fun solo :: "nat \<Rightarrow> int \<Rightarrow> net \<Rightarrow> thread \<Rightarrow> cloud_sink \<Rightarrow> cloud_sink \<times> thread list \<times> mark list" where
  "solo 0 now answer t s = (s, [t], [])"
| "solo (Suc n) now answer t s =
     (case advance now answer t s of
        (s1, [t1], ms) \<Rightarrow> (case solo n now answer t1 s1 of (s2, ts, ms') \<Rightarrow> (s2, ts, ms @ ms'))
      | (s1, ts, ms) \<Rightarrow> (s1, ts, ms))"

lemma solo_winding:
  "winding x (s, before @ t # after, tr) \<Longrightarrow> solo n now answer t s = (s', ts, ms) \<Longrightarrow>
     winding x (s', before @ ts @ after, tr @ ms)"
proof (induction n arbitrary: t s tr ms)
  case (Suc n)
  obtain s1 us ms1 where adv: "advance now answer t s = (s1, us, ms1)" by (cases "advance now answer t s")
  have w: "winding x (s1, before @ us @ after, tr @ ms1)" by (rule winding.turn [OF Suc.prems(1) adv])
  show ?case
  proof (cases "\<exists>t1. us = [t1]")
    case True
    then obtain t1 where t1: "us = [t1]" by blast
    obtain ms2 where "solo n now answer t1 s1 = (s', ts, ms2)" "ms = ms1 @ ms2"
      using Suc.prems(2) adv t1 by (auto split: prod.splits)
    then show ?thesis using Suc.IH [where t = t1 and s = s1 and tr = "tr @ ms1" and ms = ms2] w t1 by simp
  next
    case False
    then have "solo (Suc n) now answer t s = (s1, us, ms1)" using adv by (auto split: list.splits)
    then show ?thesis using w Suc.prems(2) by simp
  qed
qed auto

lemma exit_solo:
  assumes c: "is_success c" and d: "now < d"
  shows "\<exists>n s' ms out'. n \<le> 3 * length (waiting s) + 3
    \<and> solo n now (Net_status c) (Ex_pop d out) s = (s', [Ex_done out'], ms) \<and> waiting s' = [] \<and> taken ms = waiting s
    \<and> ef_sent out' = ef_sent out + length (waiting s) \<and> ef_refused out' = ef_refused out
    \<and> ef_unsent out' = ef_unsent out + qu_in_flight (sk_queue s)"
proof (induction "length (waiting s)" arbitrary: s out rule: less_induct)
  case less
  show ?case
  proof (cases "waiting s = []")
    case True
    show ?thesis by (rule exI [of _ 3]) (simp add: True eval_nat_numeral step_simps)
  next
    case False
    let ?s = "mark_reached now (on_queue (qu_records_update (\<lambda>_. drop BATCH (waiting s))) s)"
    let ?out = "out\<lparr>ef_sent := ef_sent out + length (take BATCH (waiting s))\<rparr>"
    have shorter: "length (waiting ?s) < length (waiting s)" using False by (simp add: sink_simps BATCH_def)
    obtain n s' ms out' where n: "n \<le> 3 * length (waiting ?s) + 3"
        "solo n now (Net_status c) (Ex_pop d ?out) ?s = (s', [Ex_done out'], ms)" "waiting s' = []" "taken ms = waiting ?s"
        "ef_sent out' = ef_sent ?out + length (waiting ?s)" "ef_refused out' = ef_refused ?out"
        "ef_unsent out' = ef_unsent ?out + qu_in_flight (sk_queue ?s)"
      using less [OF shorter, of ?out] by blast
    have b: "0 < BATCH" by (simp add: BATCH_def)
    let ?ms = "Taken (take BATCH (waiting s)) # arrival (Net_status c) (take BATCH (waiting s))
           (on_queue (qu_records_update (\<lambda>_. drop BATCH (waiting s))) s) @ ms"
    have "solo (Suc (Suc (Suc n))) now (Net_status c) (Ex_pop d out) s = (s', [Ex_done out'], ?ms)"
      using n(2) False b c d by (simp add: step_simps)
    moreover have "Suc (Suc (Suc n)) \<le> 3 * length (waiting s) + 3" using n(1) shorter by linarith
    moreover have "length (take BATCH (waiting s)) + length (waiting ?s) = length (waiting s)"
      by (simp add: sink_simps)
    ultimately show ?thesis using n(3-7)
      by (intro exI [of _ "Suc (Suc (Suc n))"] exI [of _ s'] exI [of _ ?ms] exI [of _ out'])
        (simp add: sink_simps del: solo.simps)
  qed
qed

lemma drain_solo:
  assumes c: "is_success c" and open_: "\<not> qu_closing (sk_queue s)"
  shows "\<exists>n s' ms. n \<le> 5 * length (waiting s) + 3
    \<and> solo n now (Net_status c) Dr_pop s = (s', [], ms) \<and> waiting s' = [] \<and> taken ms = waiting s
    \<and> \<not> qu_outage (sk_queue s') \<and> \<not> qu_draining (sk_queue s')"
  using open_
proof (induction "length (waiting s)" arbitrary: s rule: less_induct)
  case less
  show ?case
  proof (cases "waiting s = []")
    case True
    show ?thesis by (rule exI [of _ 3]) (simp add: True eval_nat_numeral step_simps)
  next
    case False
    let ?k = "length (take BATCH (waiting s))"
    let ?s = "sub_in_flight ?k (on_queue (\<lambda>q. q\<lparr>qu_replayed := qu_replayed q + ?k\<rparr>)
        (mark_reached now (add_in_flight ?k (on_queue (qu_records_update (\<lambda>_. drop BATCH (waiting s))) s))))"
    have shorter: "length (waiting ?s) < length (waiting s)" using False by (simp add: sink_simps BATCH_def)
    have "\<not> qu_closing (sk_queue ?s)" using less.prems by (simp add: sink_simps)
    then obtain n s' ms where n: "n \<le> 5 * length (waiting ?s) + 3"
        "solo n now (Net_status c) Dr_pop ?s = (s', [], ms)" "waiting s' = []" "taken ms = waiting ?s"
        "\<not> qu_outage (sk_queue s')" "\<not> qu_draining (sk_queue s')"
      using less.hyps [OF shorter] by blast
    have b: "0 < BATCH" by (simp add: BATCH_def)
    let ?ms = "Taken (take BATCH (waiting s)) # arrival (Net_status c) (take BATCH (waiting s))
           (add_in_flight ?k (on_queue (qu_records_update (\<lambda>_. drop BATCH (waiting s))) s)) @ ms"
    have "solo (Suc (Suc (Suc (Suc (Suc n))))) now (Net_status c) Dr_pop s = (s', [], ?ms)"
      using n(2) False b c less.prems by (simp add: step_simps)
    moreover have "Suc (Suc (Suc (Suc (Suc n)))) \<le> 5 * length (waiting s) + 3" using n(1) shorter by linarith
    ultimately show ?thesis using n(3-6)
      by (intro exI [of _ "Suc (Suc (Suc (Suc (Suc n))))"] exI [of _ s'] exI [of _ ?ms])
        (simp add: sink_simps del: solo.simps)
  qed
qed

end
