(* ===== verification/Sink_Props.thy ===== *)
theory Sink_Props
  imports Sink_Order Sink_Exit Cloud_History
begin

text \<open>
  The properties of the telemetry sink, and what they give together with the control plane's store:
  the figures an operator reads against the calls the gateway recorded.
\<close>

section \<open>What reaches the control plane\<close>

fun reached_of :: "mark \<Rightarrow> wire_record list" where
  "reached_of (Reached w) = w"
| "reached_of m = []"

definition reached :: "mark list \<Rightarrow> wire_record list" where
  "reached tr = concat (map reached_of tr)"

text \<open>
  The record as the control plane's \<open>CallRecord\<close> reads it back: every field that is on the wire, the
  same names at both ends.
\<close>

definition received :: "wire_record \<Rightarrow> cloud_record" where
  "received w =
     (let r = wi_rec w
      in \<lparr>cl_ts_millis = cd_ts_millis r, cl_run_id = cd_run_id r, cl_model = cd_model r, cl_decision = cd_decision r,
          cl_input_tokens = cd_input_tokens r, cl_output_tokens = cd_output_tokens r, cl_cost = cd_cost r,
          cl_step = cd_step r, cl_agent_id = cd_agent_id r, cl_saved = cd_saved r,
          cl_parent_run_id = cd_parent_run_id r, cl_on_behalf_of = cd_on_behalf_of r, cl_outcome = cd_outcome r,
          cl_unit = cd_unit r, cl_tool_calls = cd_tool_calls r, cl_owner = wi_owner w, cl_key_id = cd_key_id r,
          cl_price_basis = wi_price_basis w, cl_identity_reason = cd_identity_reason r,
          cl_pii_findings = cd_pii_findings r\<rparr>)"

lemma reached_simps [simp]:
  "reached [] = []" "reached (m # tr) = reached_of m @ reached tr" "reached (tr @ tr') = reached tr @ reached tr'"
  "reached (cut rs) = []"
  by (simp_all add: reached_def cut_def)

lemma wire_recs [simp]: "map wi_rec (wire_records b own prices) = b"
  by (simp add: wire_records_def comp_def)

lemma wire_append: "wire_records (b @ c) own prices = wire_records b own prices @ wire_records c own prices"
  by (simp add: wire_records_def)

lemma wire_Nil [simp]: "wire_records [] own prices = []"
  by (simp add: wire_records_def)

lemma advance_reached:
  "case advance now answer t s of (s', ts, ms) \<Rightarrow>
     \<exists>u. reached ms = wire_records u (sk_unit_owners s) (sk_prices s) \<and> set u \<subseteq> set (held t) \<and> (taken ms = u \<or> taken ms = [])"
  by (cases t) (auto simp: step_simps arrival_def intro: exI [of _ "[]"] split: net.split)

lemma run_reached:
  assumes "sink_run own prices interval x"
  shows "\<exists>u. reached (snd (snd x)) = wire_records u own prices \<and> set u \<subseteq> set (buffered (snd (snd x)))
    \<and> mset (taken (snd (snd x))) \<subseteq># mset u"
  using assms
proof (induction rule: sink_run.induct)
  case (step x y)
  from step.hyps(2) show ?case
  proof (cases rule: sink_step.cases)
    case (turn now answer t s s' ts ms before "after" tr)
    note x = step.IH [unfolded turn(1) snd_conv]
    have cfg: "sk_unit_owners s = own" "sk_prices s = prices" using run_config [OF step.hyps(1)] turn(1) by simp_all
    obtain u where u: "reached tr = wire_records u own prices" "set u \<subseteq> set (buffered tr)" "mset (taken tr) \<subseteq># mset u"
      using x by auto
    obtain v where v: "reached ms = wire_records v own prices" "set v \<subseteq> set (held t)" "taken ms = v \<or> taken ms = []"
      using advance_reached [where now = now and answer = answer and t = t and s = s] turn(3) cfg by auto
    have "set_mset (mset (buffered tr)) = set_mset (carried s + mset (concat (map held (before @ t # after))) + mset (settled tr))"
      using sink_okD(1) [of s "before @ t # after" tr] run_ok [OF step.hyps(1)] turn(1) by simp
    then have "set (held t) \<subseteq> set (buffered tr)" by auto
    then show ?thesis using u v turn(2)
      by (intro exI [of _ "u @ v"]) (auto simp: wire_append intro: subset_mset.add_mono mset_subset_eq_add_left subset_mset.order_trans)
  qed (use step.IH in auto)
qed (auto intro: exI [of _ "[]"])


section \<open>Sample runs\<close>

text \<open>One call, an outage, a second call, and the replay of both; and the same as far as the drainer's first step.\<close>

definition sample_outage :: "choice list" where
  "sample_outage =
     [Call (call_named ''a'')] @ turns 0 (Net_status 200) 2 @ [Tick] @ turns 0 (Net_status 200) 5
     @ turns 1 (Net_status 200) 1 @ turns 0 (Net_lost False) 3
     @ [Call (call_named ''b'')] @ turns 0 (Net_status 200) 2 @ [Tick] @ turns 0 (Net_status 200) 7"

lemma sample_outage_plays:
  "\<exists>s tr. play_orderly sample_outage (sink_new (\<lambda>_. None) None, spawn_heartbeat 0, []) = Some (s, [Dr_pop, Drain 0], tr)
     \<and> waiting s = [call_named ''a'', call_named ''b''] \<and> buffered tr = [call_named ''a'', call_named ''b''] \<and> taken tr = []
     \<and> \<not> qu_closing (sk_queue s) \<and> sk_log s = [Outage_warned]"
  by (simp add: sample_outage_def eval_nat_numeral play_simps orderly_def)

lemma sample_outage_run:
  "\<exists>s tr. orderly_run (\<lambda>_. None) None 0 (s, [Dr_pop, Drain 0], tr)
     \<and> waiting s = [call_named ''a'', call_named ''b''] \<and> buffered tr = [call_named ''a'', call_named ''b''] \<and> taken tr = []
     \<and> \<not> qu_closing (sk_queue s) \<and> sk_log s = [Outage_warned]"
  using sample_outage_plays play_orderly_run [OF _ orderly_run.start] by blast

section \<open>Properties\<close>

text \<open>C11. However requests, flush ticks, pushes, the drainer, the heartbeat and the exit interleave, every record that
  entered the buffer is in exactly one place: in the buffer, in the queue, in the hands of one thread, or answered
  for, that is accepted, refused, not encodable or cut off by the cap. The queue is within its cap, the counter of
  pushes on the wire is the number of records on it, and at most one drainer is at work.\<close>

theorem no_record_vanishes:
  assumes "sink_run own prices interval (s, pool, tr)"
  shows "mset (buffered tr) = mset (sk_buf s) + mset (waiting s) + mset (concat (map held pool)) + mset (settled tr)
    \<and> length (waiting s) \<le> QUEUE_CAP \<and> qu_in_flight (sk_queue s) = sum_list (map flying pool)
    \<and> length (filter of_drainer pool) = of_bool (qu_draining (sk_queue s))"
  using sink_okD [OF run_ok [OF assms]] by (simp add: carried_def)

theorem no_record_vanishes_witness:
  "\<exists>s pool tr. sink_run (\<lambda>_. None) None 0 (s, pool, tr) \<and> length (buffered tr) = 2 \<and> length (filter of_drainer pool) = 1
     \<and> mset (buffered tr) = mset (sk_buf s) + mset (waiting s) + mset (concat (map held pool)) + mset (settled tr)"
proof -
  obtain s tr where r: "orderly_run (\<lambda>_. None) None 0 (s, [Dr_pop, Drain 0], tr)"
      "buffered tr = [call_named ''a'', call_named ''b'']" using sample_outage_run by blast
  then show ?thesis using no_record_vanishes [OF orderly_is_run [OF r(1)]] orderly_is_run [OF r(1)]
    by (intro exI [of _ s] exI [of _ "[Dr_pop, Drain 0]"] exI [of _ tr]) simp
qed



text \<open>C16. Against a control plane that answers, a drainer at the front of its loop delivers the whole queue, in order,
  within five turns of its own for each record and three more, and ends the outage and itself.\<close>

theorem replay_drains_queue:
  assumes "sink_run own prices interval (s, before @ Dr_pop # after, tr)"
    and "\<not> qu_closing (sk_queue s)" and "is_success code"
  shows "\<exists>n s' ms. n \<le> 5 * length (waiting s) + 3 \<and> solo n now (Net_status code) Dr_pop s = (s', [], ms)
    \<and> sink_run own prices interval (s', before @ after, tr @ ms)
    \<and> waiting s' = [] \<and> taken ms = waiting s \<and> \<not> qu_outage (sk_queue s') \<and> \<not> qu_draining (sk_queue s')"
proof -
  obtain n s' ms where n: "n \<le> 5 * length (waiting s) + 3" "solo n now (Net_status code) Dr_pop s = (s', [], ms)"
      "waiting s' = []" "taken ms = waiting s" "\<not> qu_outage (sk_queue s')" "\<not> qu_draining (sk_queue s')"
    using drain_solo [OF assms(3,2)] by blast
  moreover have "sink_run own prices interval (s', before @ [] @ after, tr @ ms)"
    by (rule winding_run [OF solo_winding [OF winding.rest n(2)] assms(1)])
  ultimately show ?thesis by (intro exI [of _ n] exI [of _ s'] exI [of _ ms]) simp
qed

theorem replay_drains_queue_witness:
  "\<exists>s tr n s' ms. waiting s = [call_named ''a'', call_named ''b''] \<and> n \<le> 13
     \<and> solo n 0 (Net_status 200) Dr_pop s = (s', [], ms) \<and> taken ms = [call_named ''a'', call_named ''b'']
     \<and> sink_run (\<lambda>_. None) None 0 (s', [Drain 0], tr @ ms)"
proof -
  obtain s tr where r: "orderly_run (\<lambda>_. None) None 0 (s, [] @ Dr_pop # [Drain 0], tr)"
      "waiting s = [call_named ''a'', call_named ''b'']" "\<not> qu_closing (sk_queue s)" using sample_outage_run by auto
  have "is_success 200" by (simp add: is_success_def)
  from replay_drains_queue [OF orderly_is_run [OF r(1)] r(3) this, of 0] r(2) show ?thesis by fastforce
qed

text \<open>The log says each outage once and its end once, in turn, and warns of each status a push was refused with
  exactly once, over every run.\<close>

lemma outages_said_once:
  assumes "sink_run own prices interval (s, pool, tr)"
  shows "outage_after (sk_log s) False = Some (qu_outage (sk_queue s))
    \<and> distinct (concat (map refusal_of (sk_log s))) \<and> set (concat (map refusal_of (sk_log s))) = pu_reported (sk_push s)"
  using sink_okD(6) [OF run_ok [OF assms]] by (simp add: log_ok_def)

lemma outages_said_once_reached:
  "\<exists>s pool tr. sink_run (\<lambda>_. None) None 0 (s, pool, tr) \<and> sk_log s = [Outage_warned]
     \<and> outage_after (sk_log s) False = Some (qu_outage (sk_queue s))"
proof -
  obtain s tr where r: "orderly_run (\<lambda>_. None) None 0 (s, [Dr_pop, Drain 0], tr)" "sk_log s = [Outage_warned]"
    using sample_outage_run by blast
  then show ?thesis using outages_said_once [OF orderly_is_run [OF r(1)]] orderly_is_run [OF r(1)] by blast
qed


text \<open>A gateway stopped with one call in its buffer.\<close>

definition sample_stop :: "choice list" where
  "sample_stop = [Call (call_named ''a'')] @ turns 0 (Net_status 200) 2 @ [Stop 5]"

lemma sample_stop_run:
  "\<exists>s tr. sink_run (\<lambda>_. None) None 0 (s, [Ex_close 5], tr) \<and> buffered tr = [call_named ''a'']
     \<and> (\<exists>s' out ms. solo 11 0 (Net_status 200) (Ex_close 5) s = (s', [Ex_done out], ms) \<and> Gave_up \<notin> set (tr @ ms)
          \<and> ef_unsent out = 0 \<and> ef_sent out = 1)"
proof -
  obtain s tr s' out ms where
      p: "play sample_stop (sink_new (\<lambda>_. None) None, spawn_heartbeat 0, []) = Some (s, [Ex_close 5], tr)"
      "buffered tr = [call_named ''a'']" "solo 11 0 (Net_status 200) (Ex_close 5) s = (s', [Ex_done out], ms)"
      "Gave_up \<notin> set (tr @ ms)" "ef_unsent out = 0" "ef_sent out = 1"
    by (simp add: sample_stop_def eval_nat_numeral play_simps solo.simps exit_flush_default_def close_exit_def
        is_success_def mark_reached_def)
  then show ?thesis using play_run [OF p(1) sink_run.start] by blast
qed


section \<open>From the gateway's calls to the control plane's figures\<close>

definition let_through :: "call_record \<Rightarrow> bool" where
  "let_through r \<longleftrightarrow> \<not> is_blocked (cd_decision r)"

lemma received_wire:
  "sum_where (\<lambda>r. \<not> is_blocked (cl_decision r)) record_cost (map received (wire_records b own prices))
   = sum_where let_through (\<lambda>r. max 0 (cd_cost r)) b"
  by (induction b) (simp_all add: sum_where_def wire_records_def received_def Let_def record_cost_def let_through_def)


definition sample_push :: "choice list" where
  "sample_push = [Call (call_named ''a'')] @ turns 0 (Net_status 200) 2 @ [Tick] @ turns 0 (Net_status 200) 8"

lemma sample_push_run:
  "\<exists>s tr. sink_run (\<lambda>_. None) None 0 (s, [], tr) \<and> buffered tr = [call_named ''a''] \<and> sk_buf s = [] \<and> waiting s = []
     \<and> reached tr = wire_records [call_named ''a''] (\<lambda>_. None) None \<and> taken tr = [call_named ''a''] \<and> settled tr = [call_named ''a'']"
proof -
  obtain s tr where p: "play sample_push (sink_new (\<lambda>_. None) None, spawn_heartbeat 0, []) = Some (s, [], tr)"
      "buffered tr = [call_named ''a'']" "sk_buf s = []" "waiting s = []"
      "reached tr = wire_records [call_named ''a''] (\<lambda>_. None) None" "taken tr = [call_named ''a'']" "settled tr = [call_named ''a'']"
    by (simp add: sample_push_def eval_nat_numeral play_simps is_success_def mark_reached_def)
  then show ?thesis using play_run [OF p(1) sink_run.start] by blast
qed


section \<open>Lost answers\<close>

text \<open>A push whose answer is lost after it arrived is queued and sent again, and the org's figures count its calls twice.\<close>

definition lost_answer :: "choice list" where
  "lost_answer =
     [Call (call_named ''a'')] @ turns 0 (Net_status 200) 2 @ [Tick] @ turns 0 (Net_status 200) 5
     @ turns 1 (Net_status 200) 1 @ turns 0 (Net_lost True) 3 @ [Tick] @ turns 0 (Net_status 200) 8"

lemma lost_answer_counts_twice:
  "\<exists>s pool tr. sink_run (\<lambda>_. None) None 0 (s, pool, tr) \<and> buffered tr = [call_named ''a'']
     \<and> map wi_rec (reached tr) = [call_named ''a'', call_named ''a'']"
proof -
  obtain s pool tr where p: "play lost_answer (sink_new (\<lambda>_. None) None, spawn_heartbeat 0, []) = Some (s, pool, tr)"
      "buffered tr = [call_named ''a'']" "map wi_rec (reached tr) = [call_named ''a'', call_named ''a'']"
    by (simp add: lost_answer_def eval_nat_numeral play_simps is_success_def mark_reached_def)
  from play_run [OF p(1) sink_run.start] show ?thesis using p(2,3) by (intro exI [of _ s] exI [of _ pool] exI [of _ tr]) simp
qed

end
