(* ===== verification/Seed_Gate.thy ===== *)
theory Seed_Gate
  imports Managed_Props Audit_Trail Recency Text "HOL-Library.Product_Lexorder"
begin

text \<open>
  What a gateway reads from its control plane before it admits a call that a budget governs: the seed
  of \<open>crates/gateway/src/cloudsink.rs\<close> (each run's spend, the run budgets, the kills, each unit's
  month and the unit caps), the gate of \<open>seedgate.rs\<close> that stays closed until all of it is read, and
  the retry. What comes back over HTTP is an argument, as are the JSON readers; log lines are left
  out.
\<close>

section \<open>The gate\<close>

definition REPORTED_RUNS_CAP :: nat where "REPORTED_RUNS_CAP = 8192"
definition BACKOFF_FIRST :: nat where "BACKOFF_FIRST = 250"
definition BACKOFF_MAX :: nat where "BACKOFF_MAX = 5000"

text \<open>In milliseconds. The shift is by at most 32, so it never leaves \<open>u64\<close>.\<close>

definition backoff :: "nat \<Rightarrow> nat" where
  "backoff attempt =
     (let factor = (if min attempt 32 < 64 then 2 ^ min attempt 32 mod 2 ^ 64 else U64_MAX)
      in min (sat_u64 (BACKOFF_FIRST * factor)) BACKOFF_MAX)"

record seed_gate =
  gt_ready :: bool
  gt_reason :: string
  gt_reported :: "string set"
  gt_touched :: nat

definition gate_open :: seed_gate where
  "gate_open = \<lparr>gt_ready = True, gt_reason = [], gt_reported = {}, gt_touched = 0\<rparr>"

definition gate_closed :: "string \<Rightarrow> seed_gate" where
  "gate_closed reason = \<lparr>gt_ready = False, gt_reason = reason, gt_reported = {}, gt_touched = 0\<rparr>"

definition gate_is_open :: "seed_gate \<Rightarrow> bool" where
  "gate_is_open g = gt_ready g"

definition pending_reason :: "seed_gate \<Rightarrow> string option" where
  "pending_reason g = (if gate_is_open g then None else Some (gt_reason g))"

definition set_reason :: "string \<Rightarrow> seed_gate \<Rightarrow> seed_gate" where
  "set_reason reason g = g\<lparr>gt_reason := reason\<rparr>"

definition note_call :: "string \<Rightarrow> seed_gate \<Rightarrow> bool \<times> seed_gate" where
  "note_call run g =
     (let seen = (if REPORTED_RUNS_CAP \<le> card (gt_reported g) \<and> run \<notin> gt_reported g then {} else gt_reported g)
      in (run \<notin> seen, g\<lparr>gt_touched := wrap_succ_u64 (gt_touched g), gt_reported := insert run seen\<rparr>))"

definition open_now :: "seed_gate \<Rightarrow> nat option \<times> seed_gate" where
  "open_now g =
     (if gt_ready g then (None, g)
      else (Some (gt_touched g), g\<lparr>gt_ready := True, gt_reported := {}, gt_touched := 0\<rparr>))"

section \<open>What an answer holds\<close>

definition SEED_MAX_BODY_BYTES :: nat where "SEED_MAX_BODY_BYTES = 4 * 2 ^ 20"
definition RUN_SEED_MAX_BODY_BYTES :: nat where "RUN_SEED_MAX_BODY_BYTES = 4 * 2 ^ 20"
definition UNASSIGNED_UNIT :: string where "UNASSIGNED_UNIT = ''unassigned''"

text \<open>\<open>SEED_TIMEOUT\<close>, in seconds: the only duration a seed times out after.\<close>

definition SEED_TIMEOUT :: nat where "SEED_TIMEOUT = 5"

datatype seed_error =
    Seed_transport string
  | Seed_timed_out nat
  | Seed_status nat
  | Seed_body_too_large nat
  | Seed_malformed string

definition show_seed_error :: "seed_error \<Rightarrow> string" where
  "show_seed_error e =
     (case e of
        Seed_transport t \<Rightarrow> ''could not be reached or the answer was cut short: '' @ t
      | Seed_timed_out secs \<Rightarrow> ''no answer within '' @ show_nat secs @ ''s''
      | Seed_status code \<Rightarrow> ''status '' @ show_nat code
      | Seed_body_too_large cap \<Rightarrow> ''body over '' @ show_nat cap @ '' bytes''
      | Seed_malformed t \<Rightarrow> ''malformed body: '' @ t)"

text \<open>
  One \<open>GET\<close>: no connection; an answer with its status, the chunks of its body and the error that
  ended it early, if one did; or nothing complete within the time.
\<close>

datatype http_answer =
    No_connection string
  | Answer nat "string list" "string option"
  | Too_slow

definition status_is_success :: "nat \<Rightarrow> bool" where
  "status_is_success code \<longleftrightarrow> 200 \<le> code \<and> code < 300"

fun read_body :: "nat \<Rightarrow> string list \<Rightarrow> string option \<Rightarrow> string \<Rightarrow> (string, seed_error) res" where
  "read_body cap [] None body = Inr body"
| "read_body cap [] (Some e) body = Inl (Seed_transport e)"
| "read_body cap (c # cs) broken body =
     (if cap < length body + length c then Inl (Seed_body_too_large cap) else read_body cap cs broken (body @ c))"

definition fetch :: "nat \<Rightarrow> http_answer \<Rightarrow> (string, seed_error) res" where
  "fetch cap a =
     (case a of
        No_connection e \<Rightarrow> Inl (Seed_transport e)
      | Answer status chunks broken \<Rightarrow>
          if \<not> status_is_success status then Inl (Seed_status status) else read_body cap chunks broken []
      | Too_slow \<Rightarrow> Inl (Seed_timed_out SEED_TIMEOUT))"

definition fetch_unit_months :: "http_answer \<Rightarrow> (string, seed_error) res" where
  "fetch_unit_months a = fetch SEED_MAX_BODY_BYTES a"

definition fetch_run_spend_at :: "http_answer \<Rightarrow> (string, seed_error) res" where
  "fetch_run_spend_at a = fetch RUN_SEED_MAX_BODY_BYTES a"

text \<open>The site's own route first; the org's list only when that one answered 403 or 404.\<close>

definition fetch_run_spend :: "http_answer \<Rightarrow> http_answer \<Rightarrow> (string, seed_error) res" where
  "fetch_run_spend site org =
     (case fetch_run_spend_at site of
        Inl (Seed_status code) \<Rightarrow> if code = 403 \<or> code = 404 then fetch_run_spend_at org else Inl (Seed_status code)
      | r \<Rightarrow> r)"

definition fetch_seed_list :: "http_answer \<Rightarrow> (string option, seed_error) res" where
  "fetch_seed_list a =
     (case a of
        Answer status chunks broken \<Rightarrow>
          if status = 404 then Inr None
          else (case fetch SEED_MAX_BODY_BYTES a of Inl e \<Rightarrow> Inl e | Inr body \<Rightarrow> Inr (Some body))
      | _ \<Rightarrow> (case fetch SEED_MAX_BODY_BYTES a of Inl e \<Rightarrow> Inl e | Inr body \<Rightarrow> Inr (Some body)))"

section \<open>Rows and reports\<close>

record unit_month_row =
  um_unit :: string
  um_month :: string
  um_month_spent :: int

record seed_report =
  sr_month :: string
  sr_seeded :: "(string \<times> int) list"
  sr_skipped_other_month :: nat
  sr_skipped_unassigned :: nat
  sr_skipped_invalid :: nat
  sr_skipped_counting :: nat

record run_seed_row =
  rn_run_id :: string
  rn_spent :: int
  rn_killed :: bool

record run_seed_report =
  rn_seeded :: "(string \<times> int) list"
  rn_skipped_invalid :: nat
  rn_skipped_killed :: nat

text \<open>The four JSON readers (\<open>serde_json\<close>): the value, or what the reader says is wrong.\<close>

record seed_readers =
  js_units :: "string \<Rightarrow> (unit_month_row list, string) res"
  js_runs :: "string \<Rightarrow> (run_seed_row list, string) res"
  js_map :: "string \<Rightarrow> ((string, int) table, string) res"
  js_list :: "string \<Rightarrow> (string list, string) res"

definition parsed :: "('a, string) res \<Rightarrow> ('a, seed_error) res" where
  "parsed r = (case r of Inl e \<Rightarrow> Inl (Seed_malformed e) | Inr x \<Rightarrow> Inr x)"

definition parse_unit_months :: "seed_readers \<Rightarrow> string \<Rightarrow> (unit_month_row list, seed_error) res" where
  "parse_unit_months js body = parsed (js_units js body)"

definition parse_run_spend :: "seed_readers \<Rightarrow> string \<Rightarrow> (run_seed_row list, seed_error) res" where
  "parse_run_spend js body = parsed (js_runs js body)"

fun seed_rows :: "string \<Rightarrow> int \<Rightarrow> unit_month_row list \<Rightarrow> seed_report \<Rightarrow> unit_ledger \<Rightarrow> seed_report \<times> unit_ledger" where
  "seed_rows month now [] report u = (report, u)"
| "seed_rows month now (row # rows) report u =
     (if trim (um_unit row) = [] \<or> um_month_spent row < 0
      then seed_rows month now rows (report\<lparr>sr_skipped_invalid := sr_skipped_invalid report + 1\<rparr>) u
      else if um_unit row = UNASSIGNED_UNIT
      then seed_rows month now rows (report\<lparr>sr_skipped_unassigned := sr_skipped_unassigned report + 1\<rparr>) u
      else if um_month row \<noteq> month
      then seed_rows month now rows (report\<lparr>sr_skipped_other_month := sr_skipped_other_month report + 1\<rparr>) u
      else case seed_month u (um_unit row) (um_month_spent row) (um_month row) now of
             (Seed_applied, u1) \<Rightarrow>
               seed_rows month now rows (report\<lparr>sr_seeded := sr_seeded report @ [(um_unit row, um_month_spent row)]\<rparr>) u1
           | (Seed_other_month, u1) \<Rightarrow>
               seed_rows month now rows (report\<lparr>sr_skipped_other_month := sr_skipped_other_month report + 1\<rparr>) u1
           | (Seed_already_counting, u1) \<Rightarrow>
               seed_rows month now rows (report\<lparr>sr_skipped_counting := sr_skipped_counting report + 1\<rparr>) u1
           | (Seed_negative, u1) \<Rightarrow>
               seed_rows month now rows (report\<lparr>sr_skipped_invalid := sr_skipped_invalid report + 1\<rparr>) u1)"

definition apply_unit_months ::
  "unit_month_row list \<Rightarrow> unit_ledger \<Rightarrow> int \<Rightarrow> seed_report \<times> unit_ledger" where
  "apply_unit_months rows u now =
     (let month = month_key now;
          (report, u') = seed_rows month now rows
            \<lparr>sr_month = month, sr_seeded = [], sr_skipped_other_month = 0, sr_skipped_unassigned = 0,
             sr_skipped_invalid = 0, sr_skipped_counting = 0\<rparr> u
      in (report\<lparr>sr_seeded := sort (sr_seeded report)\<rparr>, u'))"

fun stage_runs :: "run_seed_row list \<Rightarrow> (string, microusd) table \<Rightarrow> run_seed_report \<Rightarrow> (string, microusd) table \<times> run_seed_report" where
  "stage_runs [] pending report = (pending, report)"
| "stage_runs (row # rows) pending report =
     (if trim (rn_run_id row) = [] \<or> rn_spent row < 0
      then stage_runs rows pending (report\<lparr>rn_skipped_invalid := rn_skipped_invalid report + 1\<rparr>)
      else if rn_killed row
      then stage_runs rows pending (report\<lparr>rn_skipped_killed := rn_skipped_killed report + 1\<rparr>)
      else stage_runs rows (AList.update (rn_run_id row) (rn_spent row) pending) report)"

definition apply_run_spend :: "run_seed_row list \<Rightarrow> (string, microusd) table \<times> run_seed_report" where
  "apply_run_spend rows =
     (let (pending, report) = stage_runs rows [] \<lparr>rn_seeded = [], rn_skipped_invalid = 0, rn_skipped_killed = 0\<rparr>
      in (pending, report\<lparr>rn_seeded := sort pending\<rparr>))"

definition fetch_budget_map :: "seed_readers \<Rightarrow> string \<Rightarrow> http_answer \<Rightarrow> ((string, microusd) table, seed_error) res" where
  "fetch_budget_map js route a =
     (case fetch_seed_list a of
        Inl e \<Rightarrow> Inl e
      | Inr None \<Rightarrow> Inr []
      | Inr (Some body) \<Rightarrow>
          (case js_map js body of Inl e \<Rightarrow> Inl (Seed_malformed (route @ '': '' @ e)) | Inr m \<Rightarrow> Inr m))"

definition fetch_kill_list :: "seed_readers \<Rightarrow> http_answer \<Rightarrow> (string list, seed_error) res" where
  "fetch_kill_list js a =
     (case fetch_seed_list a of
        Inl e \<Rightarrow> Inl e
      | Inr None \<Rightarrow> Inr []
      | Inr (Some body) \<Rightarrow>
          (case js_list js body of Inl e \<Rightarrow> Inl (Seed_malformed (''/v1/kills: '' @ e)) | Inr ks \<Rightarrow> Inr ks))"

section \<open>Seeding the gateway\<close>

definition set_run_seed :: "(string, microusd) table \<Rightarrow> 'g front \<Rightarrow> 'g front" where
  "set_run_seed pending f = f\<lparr>fr_run_seed := map_of pending\<rparr>"

definition set_cloud_budgets :: "(string, microusd) table \<Rightarrow> 'g front \<Rightarrow> 'g front" where
  "set_cloud_budgets budgets f = f\<lparr>fr_cloud_budgets := map_of budgets\<rparr>"

definition kill_run :: "string \<Rightarrow> 'g front \<Rightarrow> 'g front" where
  "kill_run run f = f\<lparr>fr_killed := insert run (fr_killed f)\<rparr>"

definition put_units :: "unit_ledger \<Rightarrow> 'g front \<Rightarrow> 'g front" where
  "put_units u f = f\<lparr>fr_gate := (fr_gate f)\<lparr>gw_units := u\<rparr>\<rparr>"

record seed_parts =
  sp_run_spend :: bool
  sp_budgets :: bool
  sp_kills :: bool
  sp_unit_month :: bool
  sp_unit_budgets :: bool

definition parts_new :: "bool \<Rightarrow> seed_parts" where
  "parts_new with_units =
     \<lparr>sp_run_spend = False, sp_budgets = False, sp_kills = False, sp_unit_month = \<not> with_units,
      sp_unit_budgets = \<not> with_units\<rparr>"

definition parts_complete :: "seed_parts \<Rightarrow> bool" where
  "parts_complete p \<longleftrightarrow> sp_run_spend p \<and> sp_budgets p \<and> sp_kills p \<and> sp_unit_month p \<and> sp_unit_budgets p"

definition parts_missing :: "seed_parts \<Rightarrow> string list" where
  "parts_missing p =
     (if sp_run_spend p then [] else [''run spend'']) @ (if sp_budgets p then [] else [''/v1/budgets''])
     @ (if sp_kills p then [] else [''/v1/kills'']) @ (if sp_unit_month p then [] else [''/v1/units''])
     @ (if sp_unit_budgets p then [] else [''/v1/unit-budgets''])"

text \<open>What the control plane answers to one attempt, one answer a route, and when.\<close>

record plane =
  pl_run_spend :: http_answer
  pl_runs :: http_answer
  pl_budgets :: http_answer
  pl_kills :: http_answer
  pl_units :: http_answer
  pl_unit_budgets :: http_answer
  pl_now :: int

definition seed_run_ledger_at :: "seed_readers \<Rightarrow> plane \<Rightarrow> 'g front \<Rightarrow> (run_seed_report, seed_error) res \<times> 'g front" where
  "seed_run_ledger_at js a f =
     (case fetch_run_spend (pl_run_spend a) (pl_runs a) of
        Inl e \<Rightarrow> (Inl e, f)
      | Inr body \<Rightarrow>
          (case parse_run_spend js body of
             Inl e \<Rightarrow> (Inl e, f)
           | Inr rows \<Rightarrow> (case apply_run_spend rows of (pending, report) \<Rightarrow> (Inr report, set_run_seed pending f))))"

definition seed_unit_ledger_at :: "seed_readers \<Rightarrow> plane \<Rightarrow> 'g front \<Rightarrow> (seed_report, seed_error) res \<times> 'g front" where
  "seed_unit_ledger_at js a f =
     (case fetch_unit_months (pl_units a) of
        Inl e \<Rightarrow> (Inl e, f)
      | Inr body \<Rightarrow>
          (case parse_unit_months js body of
             Inl e \<Rightarrow> (Inl e, f)
           | Inr rows \<Rightarrow>
               (case apply_unit_months rows (gw_units (fr_gate f)) (pl_now a) of (report, u) \<Rightarrow> (Inr report, put_units u f))))"

text \<open>Each part as the code reads it, in order; \<open>?\<close> returns with the parts read so far.\<close>

definition part_run_spend :: "seed_readers \<Rightarrow> plane \<Rightarrow> seed_parts \<times> 'g front \<Rightarrow> (seed_parts \<times> 'g front, seed_error \<times> seed_parts \<times> 'g front) res" where
  "part_run_spend js a x =
     (case x of (p, f) \<Rightarrow>
        if sp_run_spend p then Inr (p, f)
        else (case seed_run_ledger_at js a f of
                (Inl e, f1) \<Rightarrow> Inl (e, p, f1)
              | (Inr report, f1) \<Rightarrow> Inr (p\<lparr>sp_run_spend := True\<rparr>, f1)))"

definition part_budgets :: "seed_readers \<Rightarrow> plane \<Rightarrow> seed_parts \<times> 'g front \<Rightarrow> (seed_parts \<times> 'g front, seed_error \<times> seed_parts \<times> 'g front) res" where
  "part_budgets js a x =
     (case x of (p, f) \<Rightarrow>
        if sp_budgets p then Inr (p, f)
        else (case fetch_budget_map js ''/v1/budgets'' (pl_budgets a) of
                Inl e \<Rightarrow> Inl (e, p, f)
              | Inr budgets \<Rightarrow> Inr (p\<lparr>sp_budgets := True\<rparr>, set_cloud_budgets budgets f)))"

definition part_kills :: "seed_readers \<Rightarrow> plane \<Rightarrow> seed_parts \<times> 'g front \<Rightarrow> (seed_parts \<times> 'g front, seed_error \<times> seed_parts \<times> 'g front) res" where
  "part_kills js a x =
     (case x of (p, f) \<Rightarrow>
        if sp_kills p then Inr (p, f)
        else (case fetch_kill_list js (pl_kills a) of
                Inl e \<Rightarrow> Inl (e, p, f)
              | Inr ks \<Rightarrow> Inr (p\<lparr>sp_kills := True\<rparr>, fold kill_run ks f)))"

definition part_unit_month :: "seed_readers \<Rightarrow> plane \<Rightarrow> seed_parts \<times> 'g front \<Rightarrow> (seed_parts \<times> 'g front, seed_error \<times> seed_parts \<times> 'g front) res" where
  "part_unit_month js a x =
     (case x of (p, f) \<Rightarrow>
        if sp_unit_month p then Inr (p, f)
        else (case seed_unit_ledger_at js a f of
                (Inl e, f1) \<Rightarrow> Inl (e, p, f1)
              | (Inr report, f1) \<Rightarrow> Inr (p\<lparr>sp_unit_month := True\<rparr>, f1)))"

definition part_unit_budgets :: "seed_readers \<Rightarrow> plane \<Rightarrow> seed_parts \<times> 'g front \<Rightarrow> (seed_parts \<times> 'g front, seed_error \<times> seed_parts \<times> 'g front) res" where
  "part_unit_budgets js a x =
     (case x of (p, f) \<Rightarrow>
        if sp_unit_budgets p then Inr (p, f)
        else (case fetch_budget_map js ''/v1/unit-budgets'' (pl_unit_budgets a) of
                Inl e \<Rightarrow> Inl (e, p, f)
              | Inr caps \<Rightarrow> Inr (p\<lparr>sp_unit_budgets := True\<rparr>, put_units (set_overrides (gw_units (fr_gate f)) (map_of caps)) f)))"

definition and_then :: "('a, 'e) res \<Rightarrow> ('a \<Rightarrow> ('b, 'e) res) \<Rightarrow> ('b, 'e) res" where
  "and_then r k = (case r of Inl e \<Rightarrow> Inl e | Inr x \<Rightarrow> k x)"

definition seed_control_plane ::
  "seed_readers \<Rightarrow> plane \<Rightarrow> seed_parts \<Rightarrow> 'g front \<Rightarrow> (unit, seed_error) res \<times> seed_parts \<times> 'g front" where
  "seed_control_plane js a p f =
     (case and_then (part_run_spend js a (p, f)) (\<lambda>x. and_then (part_budgets js a x) (\<lambda>x. and_then (part_kills js a x)
             (\<lambda>x. and_then (part_unit_month js a x) (part_unit_budgets js a)))) of
        Inl (e, p1, f1) \<Rightarrow> (Inl e, p1, f1)
      | Inr (p1, f1) \<Rightarrow> (Inr (), p1, f1))"

section \<open>Start-up and retry\<close>

text \<open>The runs the start-up replay recreated, with their generations, take a seed that comes late.\<close>

fun credit_late_seed :: "(string \<times> nat) list \<Rightarrow> 'g front \<Rightarrow> nat \<times> 'g front" where
  "credit_late_seed [] f = (0, f)"
| "credit_late_seed ((run, generation) # rest) f =
     (case take_run_seed run f of
        (None, f1) \<Rightarrow> credit_late_seed rest f1
      | (Some seed, f1) \<Rightarrow>
          (case seed_spend (fr_ledger f1) run seed generation of (done, l) \<Rightarrow>
             case credit_late_seed rest (put_ledger l f1) of (n, f2) \<Rightarrow> (if done then Suc n else n, f2)))"

definition start_seed ::
  "seed_readers \<Rightarrow> plane \<Rightarrow> bool \<Rightarrow> 'g front \<Rightarrow> seed_gate \<times> seed_parts \<times> 'g front" where
  "start_seed js a with_units f =
     (case seed_control_plane js a (parts_new with_units) f of
        (Inr _, p, f1) \<Rightarrow> (gate_open, p, f1)
      | (Inl e, p, f1) \<Rightarrow> (gate_closed (show_seed_error e), p, f1))"

text \<open>
  The retry over the attempts made so far: it ends with the first that reads all that is missing, and
  is still asking after the last of them otherwise.
\<close>

fun retry_seed_until_read ::
  "seed_readers \<Rightarrow> (string \<times> nat) list \<Rightarrow> plane list \<Rightarrow> seed_gate \<times> seed_parts \<times> 'g front
     \<Rightarrow> seed_gate \<times> seed_parts \<times> 'g front" where
  "retry_seed_until_read js replayed [] x = x"
| "retry_seed_until_read js replayed (a # as) (g, p, f) =
     (case seed_control_plane js a p f of
        (Inr _, p1, f1) \<Rightarrow> (snd (open_now g), p1, snd (credit_late_seed replayed f1))
      | (Inl e, p1, f1) \<Rightarrow> retry_seed_until_read js replayed as (set_reason (show_seed_error e) g, p1, f1))"

text \<open>The whole seed: the attempt at start-up, and the retry when it did not complete.\<close>

definition seed_gateway ::
  "seed_readers \<Rightarrow> bool \<Rightarrow> (string \<times> nat) list \<Rightarrow> plane \<Rightarrow> plane list \<Rightarrow> 'g front \<Rightarrow> seed_gate \<times> seed_parts \<times> 'g front" where
  "seed_gateway js with_units replayed a as f =
     (case start_seed js a with_units f of (g, p, f1) \<Rightarrow>
        if gate_is_open g then (g, p, f1) else retry_seed_until_read js replayed as (g, p, f1))"

end
