(* ===== verification/Seed_Props.thy ===== *)
theory Seed_Props
  imports Seed_Gate
begin

text \<open>
  What the seed leaves in the gateway, that the gate opens only after all of it was read and does open
  at the first attempt that is answered in full, and what one answer of unit months does to the unit
  ledger.
\<close>

section \<open>Unit months\<close>

definition month_row_counts :: "int \<Rightarrow> unit_month_row \<Rightarrow> bool" where
  "month_row_counts now row \<longleftrightarrow>
     trim (um_unit row) \<noteq> [] \<and> 0 \<le> um_month_spent row \<and> um_unit row \<noteq> UNASSIGNED_UNIT \<and> um_month row = month_key now"

definition first_figure :: "int \<Rightarrow> string \<Rightarrow> unit_month_row list \<Rightarrow> int" where
  "first_figure now k rows =
     (case find (\<lambda>row. month_row_counts now row \<and> um_unit row = k \<and> um_month_spent row \<noteq> 0) rows of
        None \<Rightarrow> 0 | Some row \<Rightarrow> um_month_spent row)"

lemma seed_month_effect:
  assumes "0 \<le> amount"
  shows "case seed_month u k amount (month_key now) now of (outcome, u') \<Rightarrow>
    outcome = (if unit_spent u k now \<noteq> 0 then Seed_already_counting else Seed_applied)
    \<and> (\<forall>k'. unit_spent u' k' now = (if k' = k \<and> unit_spent u k now = 0 then amount else unit_spent u k' now))
    \<and> (\<forall>k'. unit_reserved u' k' now = unit_reserved u k' now)
    \<and> ul_base u' = ul_base u \<and> ul_overrides u' = ul_overrides u"
  using assms
  by (auto simp: seed_month_def Let_def rolled_def put_unit_def unit_spent_def unit_reserved_def ZERO_def split: option.split)

definition rows_seen :: "seed_report \<Rightarrow> nat" where
  "rows_seen r = length (sr_seeded r) + sr_skipped_other_month r + sr_skipped_unassigned r + sr_skipped_invalid r
     + sr_skipped_counting r"

lemma seed_rows_effect:
  "case seed_rows (month_key now) now rows report u of (report', u') \<Rightarrow>
     rows_seen report' = rows_seen report + length rows \<and> sr_month report' = sr_month report
     \<and> (\<forall>k. unit_spent u' k now = (if unit_spent u k now \<noteq> 0 then unit_spent u k now else first_figure now k rows))
     \<and> (\<forall>k. unit_reserved u' k now = unit_reserved u k now) \<and> ul_base u' = ul_base u \<and> ul_overrides u' = ul_overrides u"
proof (induction rows arbitrary: report u)
  case Nil
  show ?case by (simp add: first_figure_def)
next
  case (Cons row rows)
  show ?case
  proof (cases "month_row_counts now row")
    case False
    then have ff: "first_figure now k (row # rows) = first_figure now k rows" for k by (simp add: first_figure_def)
    have "\<exists>report1. rows_seen report1 = Suc (rows_seen report) \<and> sr_month report1 = sr_month report
        \<and> seed_rows (month_key now) now (row # rows) report u = seed_rows (month_key now) now rows report1 u"
    proof -
      consider "trim (um_unit row) = [] \<or> um_month_spent row < 0"
        | "\<not> (trim (um_unit row) = [] \<or> um_month_spent row < 0)" "um_unit row = UNASSIGNED_UNIT"
        | "\<not> (trim (um_unit row) = [] \<or> um_month_spent row < 0)" "um_unit row \<noteq> UNASSIGNED_UNIT" "um_month row \<noteq> month_key now"
        using False unfolding month_row_counts_def by (meson not_less)
      then show ?thesis
      proof cases
        case 1
        then show ?thesis
          by (intro exI [of _ "report\<lparr>sr_skipped_invalid := sr_skipped_invalid report + 1\<rparr>"]) (simp add: rows_seen_def)
      next
        case 2
        then show ?thesis
          by (intro exI [of _ "report\<lparr>sr_skipped_unassigned := sr_skipped_unassigned report + 1\<rparr>"]) (simp add: rows_seen_def)
      next
        case 3
        then show ?thesis
          by (intro exI [of _ "report\<lparr>sr_skipped_other_month := sr_skipped_other_month report + 1\<rparr>"]) (simp add: rows_seen_def)
      qed
    qed
    then obtain report1 where r1: "rows_seen report1 = Suc (rows_seen report)" "sr_month report1 = sr_month report"
        "seed_rows (month_key now) now (row # rows) report u = seed_rows (month_key now) now rows report1 u" by blast
    show ?thesis using Cons.IH [of report1 u] unfolding r1(3) by (auto simp: ff r1 split: prod.splits)
  next
    case True
    let ?k = "um_unit row" and ?a = "um_month_spent row"
    obtain outcome u1 where sm: "seed_month u ?k ?a (month_key now) now = (outcome, u1)" by (cases "seed_month u ?k ?a (month_key now) now")
    have e: "0 \<le> ?a" "um_month row = month_key now" using True by (simp_all add: month_row_counts_def)
    note m = seed_month_effect [OF e(1), of u ?k now, unfolded sm prod.case]
    define r1 where "r1 = (if unit_spent u ?k now \<noteq> 0 then report\<lparr>sr_skipped_counting := sr_skipped_counting report + 1\<rparr>
        else report\<lparr>sr_seeded := sr_seeded report @ [(?k, ?a)]\<rparr>)"
    have seen: "rows_seen r1 = Suc (rows_seen report)" "sr_month r1 = sr_month report" by (simp_all add: rows_seen_def r1_def)
    have step: "seed_rows (month_key now) now (row # rows) report u = seed_rows (month_key now) now rows r1 u1"
      using True sm m e(2) by (auto simp: month_row_counts_def r1_def)
    have ff: "first_figure now k (row # rows) = (if k = ?k \<and> ?a \<noteq> 0 then ?a else first_figure now k rows)" for k
      using True by (auto simp: first_figure_def)
    obtain r2 u2 where sr: "seed_rows (month_key now) now rows r1 u1 = (r2, u2)" by fastforce
    note ih = Cons.IH [of r1 u1, unfolded sr prod.case]
    have "unit_spent u2 k now = (if unit_spent u k now \<noteq> 0 then unit_spent u k now else first_figure now k (row # rows))" for k
      using ih m by (simp add: ff)
    then show ?thesis unfolding step sr prod.case using ih m by (simp add: seen)
  qed
qed


lemma apply_unit_months_effect:
  "case apply_unit_months rows u now of (report, u') \<Rightarrow>
     rows_seen report = length rows \<and> sr_month report = month_key now
     \<and> (\<forall>k. unit_spent u' k now = (if unit_spent u k now \<noteq> 0 then unit_spent u k now else first_figure now k rows))
     \<and> (\<forall>k. unit_reserved u' k now = unit_reserved u k now) \<and> ul_base u' = ul_base u \<and> ul_overrides u' = ul_overrides u"
  using seed_rows_effect [where now = now and rows = rows and u = u and report = "\<lparr>sr_month = month_key now, sr_seeded = [], sr_skipped_other_month = 0,
    sr_skipped_unassigned = 0, sr_skipped_invalid = 0, sr_skipped_counting = 0\<rparr>"]
  by (auto simp: apply_unit_months_def Let_def rows_seen_def split: prod.splits)

lemma seed_rows_state:
  assumes "ul_state u = ul_state v"
  shows "ul_state (snd (seed_rows month now rows report u)) = ul_state (snd (seed_rows month now rows report' v))"
  using assms
proof (induction rows arbitrary: report report' u v)
  case (Cons row rows)
  obtain o1 u1 where 1: "seed_month u (um_unit row) (um_month_spent row) (um_month row) now = (o1, u1)" by fastforce
  obtain o2 v1 where 2: "seed_month v (um_unit row) (um_month_spent row) (um_month row) now = (o2, v1)" by fastforce
  have "o1 = o2 \<and> ul_state u1 = ul_state v1"
    using 1 2 Cons.prems by (auto simp: seed_month_def Let_def put_unit_def split: if_splits)
  then show ?case using Cons.IH [OF Cons.prems] Cons.IH [of u1 v1] 1 2 by (cases o2) auto
qed simp

lemma apply_unit_months_state:
  "ul_state u = ul_state v \<Longrightarrow> ul_state (snd (apply_unit_months rows u now)) = ul_state (snd (apply_unit_months rows v now))"
  unfolding apply_unit_months_def Let_def using seed_rows_state [of u v] by (simp add: case_prod_beta)

section \<open>What each part leaves\<close>

text \<open>The fields the seed writes, each left alone by the other parts.\<close>

lemma kill_fold: "fold kill_run ks f = f\<lparr>fr_killed := fr_killed f \<union> set ks\<rparr>"
  by (induction ks arbitrary: f) (simp_all add: kill_run_def)

lemmas part_defs = part_run_spend_def part_budgets_def part_kills_def part_unit_month_def part_unit_budgets_def
  seed_run_ledger_at_def seed_unit_ledger_at_def set_run_seed_def set_cloud_budgets_def put_units_def kill_fold

definition runs_read :: "seed_readers \<Rightarrow> plane set \<Rightarrow> (string \<rightharpoonup> microusd) \<Rightarrow> bool" where
  "runs_read js H m \<longleftrightarrow> (\<exists>a \<in> H. \<exists>body rows. fetch_run_spend (pl_run_spend a) (pl_runs a) = Inr body
     \<and> parse_run_spend js body = Inr rows \<and> m = map_of (fst (apply_run_spend rows)))"

definition budgets_read :: "seed_readers \<Rightarrow> plane set \<Rightarrow> (string \<rightharpoonup> microusd) \<Rightarrow> bool" where
  "budgets_read js H m \<longleftrightarrow> (\<exists>a \<in> H. \<exists>t. fetch_budget_map js ''/v1/budgets'' (pl_budgets a) = Inr t \<and> m = map_of t)"

definition kills_read :: "seed_readers \<Rightarrow> plane set \<Rightarrow> string set \<Rightarrow> bool" where
  "kills_read js H killed \<longleftrightarrow> (\<exists>a \<in> H. \<exists>ks. fetch_kill_list js (pl_kills a) = Inr ks \<and> set ks \<subseteq> killed)"

definition months_read :: "seed_readers \<Rightarrow> plane set \<Rightarrow> unit_ledger \<Rightarrow> unit_ledger \<Rightarrow> bool" where
  "months_read js H u0 u \<longleftrightarrow> (\<exists>a \<in> H. \<exists>body rows. fetch_unit_months (pl_units a) = Inr body
     \<and> parse_unit_months js body = Inr rows \<and> ul_state u = ul_state (snd (apply_unit_months rows u0 (pl_now a))))"

definition caps_read :: "seed_readers \<Rightarrow> plane set \<Rightarrow> unit_ledger \<Rightarrow> bool" where
  "caps_read js H u \<longleftrightarrow>
     (\<exists>a \<in> H. \<exists>t. fetch_budget_map js ''/v1/unit-budgets'' (pl_unit_budgets a) = Inr t \<and> ul_overrides u = map_of t)"

definition seeded :: "seed_readers \<Rightarrow> bool \<Rightarrow> plane set \<Rightarrow> unit_ledger \<Rightarrow> seed_parts \<times> 'g front \<Rightarrow> bool" where
  "seeded js wu H u0 x =
     (case x of (p, f) \<Rightarrow>
        (sp_run_spend p \<longrightarrow> runs_read js H (fr_run_seed f))
      \<and> (sp_budgets p \<longrightarrow> budgets_read js H (fr_cloud_budgets f))
      \<and> (sp_kills p \<longrightarrow> kills_read js H (fr_killed f))
      \<and> (if wu \<and> sp_unit_month p then months_read js H u0 (gw_units (fr_gate f))
         else ul_state (gw_units (fr_gate f)) = ul_state u0)
      \<and> (wu \<and> sp_unit_budgets p \<longrightarrow> caps_read js H (gw_units (fr_gate f)))
      \<and> (\<not> wu \<longrightarrow> sp_unit_month p \<and> sp_unit_budgets p) \<and> ul_base (gw_units (fr_gate f)) = ul_base u0)"

definition left_by :: "(seed_parts \<times> 'g front \<Rightarrow> bool) \<Rightarrow> (seed_parts \<times> 'g front, seed_error \<times> seed_parts \<times> 'g front) res \<Rightarrow> bool" where
  "left_by P r = (case r of Inl ex \<Rightarrow> P (snd ex) | Inr x \<Rightarrow> P x)"

lemma readI:
  "a \<in> H \<Longrightarrow> fetch_run_spend (pl_run_spend a) (pl_runs a) = Inr body \<Longrightarrow> parse_run_spend js body = Inr rows \<Longrightarrow>
     runs_read js H (map_of (fst (apply_run_spend rows)))"
  "a \<in> H \<Longrightarrow> fetch_budget_map js ''/v1/budgets'' (pl_budgets a) = Inr t \<Longrightarrow> budgets_read js H (map_of t)"
  "a \<in> H \<Longrightarrow> fetch_kill_list js (pl_kills a) = Inr ks \<Longrightarrow> kills_read js H (killed \<union> set ks)"
  "a \<in> H \<Longrightarrow> fetch_unit_months (pl_units a) = Inr body \<Longrightarrow> parse_unit_months js body = Inr rows' \<Longrightarrow>
     ul_state u = ul_state (snd (apply_unit_months rows' u0 (pl_now a))) \<Longrightarrow> months_read js H u0 u"
  "a \<in> H \<Longrightarrow> fetch_budget_map js ''/v1/unit-budgets'' (pl_unit_budgets a) = Inr t \<Longrightarrow> ul_overrides u = map_of t \<Longrightarrow>
     caps_read js H u"
  unfolding runs_read_def budgets_read_def kills_read_def months_read_def caps_read_def by blast+

lemma months_read_cong: "ul_state u = ul_state u' \<Longrightarrow> months_read js H u0 u = months_read js H u0 u'"
  by (simp add: months_read_def)

lemma caps_read_cong: "ul_overrides u = ul_overrides u' \<Longrightarrow> caps_read js H u = caps_read js H u'"
  by (simp add: caps_read_def)

lemma read_mono:
  "H \<subseteq> H' \<Longrightarrow> runs_read js H m \<Longrightarrow> runs_read js H' m" "H \<subseteq> H' \<Longrightarrow> budgets_read js H m \<Longrightarrow> budgets_read js H' m"
  "H \<subseteq> H' \<Longrightarrow> kills_read js H k \<Longrightarrow> kills_read js H' k" "H \<subseteq> H' \<Longrightarrow> months_read js H u0 u \<Longrightarrow> months_read js H' u0 u"
  "H \<subseteq> H' \<Longrightarrow> caps_read js H u \<Longrightarrow> caps_read js H' u"
  unfolding runs_read_def budgets_read_def kills_read_def months_read_def caps_read_def by blast+

lemma seeded_mono: "H \<subseteq> H' \<Longrightarrow> seeded js wu H u0 x \<Longrightarrow> seeded js wu H' u0 x"
  by (cases x) (auto simp: seeded_def read_mono split: if_splits)

text \<open>A part either changes nothing, or reads its answer and writes its own field.\<close>

lemma part_run_spend_left:
  "left_by (\<lambda>x. x = (p, f) \<or> (\<exists>body rows. fetch_run_spend (pl_run_spend a) (pl_runs a) = Inr body
     \<and> parse_run_spend js body = Inr rows
     \<and> x = (p\<lparr>sp_run_spend := True\<rparr>, f\<lparr>fr_run_seed := map_of (fst (apply_run_spend rows))\<rparr>))) (part_run_spend js a (p, f))"
  by (simp add: left_by_def part_defs split: sum.split prod.split)

lemma part_budgets_left:
  "left_by (\<lambda>x. x = (p, f) \<or> (\<exists>t. fetch_budget_map js ''/v1/budgets'' (pl_budgets a) = Inr t
     \<and> x = (p\<lparr>sp_budgets := True\<rparr>, f\<lparr>fr_cloud_budgets := map_of t\<rparr>))) (part_budgets js a (p, f))"
  by (simp add: left_by_def part_defs split: sum.split prod.split)

lemma part_kills_left:
  "left_by (\<lambda>x. x = (p, f) \<or> (\<exists>ks. fetch_kill_list js (pl_kills a) = Inr ks
     \<and> x = (p\<lparr>sp_kills := True\<rparr>, f\<lparr>fr_killed := fr_killed f \<union> set ks\<rparr>))) (part_kills js a (p, f))"
  by (simp add: left_by_def part_defs split: sum.split prod.split)

lemma part_unit_month_left:
  "left_by (\<lambda>x. x = (p, f) \<or> (\<not> sp_unit_month p \<and> (\<exists>body rows. fetch_unit_months (pl_units a) = Inr body
     \<and> parse_unit_months js body = Inr rows
     \<and> x = (p\<lparr>sp_unit_month := True\<rparr>, put_units (snd (apply_unit_months rows (gw_units (fr_gate f)) (pl_now a))) f))))
     (part_unit_month js a (p, f))"
  by (simp add: left_by_def part_unit_month_def seed_unit_ledger_at_def split: sum.split prod.split)

lemma part_unit_budgets_left:
  "left_by (\<lambda>x. x = (p, f) \<or> (\<exists>t. fetch_budget_map js ''/v1/unit-budgets'' (pl_unit_budgets a) = Inr t
     \<and> x = (p\<lparr>sp_unit_budgets := True\<rparr>, put_units (set_overrides (gw_units (fr_gate f)) (map_of t)) f)))
     (part_unit_budgets js a (p, f))"
  by (simp add: left_by_def part_unit_budgets_def split: sum.split prod.split)

lemma set_overrides_view [simp]:
  "ul_state (set_overrides u c) = ul_state u" "ul_base (set_overrides u c) = ul_base u" "ul_overrides (set_overrides u c) = c"
  by (simp_all add: set_overrides_def)

lemma put_units_view [simp]:
  "gw_units (fr_gate (put_units u f)) = u" "fr_run_seed (put_units u f) = fr_run_seed f"
  "fr_cloud_budgets (put_units u f) = fr_cloud_budgets f" "fr_killed (put_units u f) = fr_killed f"
  by (simp_all add: put_units_def)

lemma left_by_mono: "left_by P r \<Longrightarrow> (\<And>x. P x \<Longrightarrow> Q x) \<Longrightarrow> left_by Q r"
  by (auto simp: left_by_def split: sum.splits)

lemma part_run_spend_seeds:
  assumes "a \<in> H" "seeded js wu H u0 x" shows "left_by (seeded js wu H u0) (part_run_spend js a x)"
proof (cases x)
  case (Pair p f)
  show ?thesis unfolding Pair
  proof (rule left_by_mono [OF part_run_spend_left], elim disjE conjE exE)
    fix y body rows
    assume r: "fetch_run_spend (pl_run_spend a) (pl_runs a) = Inr body" "parse_run_spend js body = Inr rows"
      "y = (p\<lparr>sp_run_spend := True\<rparr>, f\<lparr>fr_run_seed := map_of (fst (apply_run_spend rows))\<rparr>)"
    show "seeded js wu H u0 y" using assms(2) readI(1) [OF assms(1) r(1,2)] unfolding r(3) Pair seeded_def prod.case by simp
  qed (use assms(2) Pair in simp)
qed

lemma part_budgets_seeds:
  assumes "a \<in> H" "seeded js wu H u0 x" shows "left_by (seeded js wu H u0) (part_budgets js a x)"
proof (cases x)
  case (Pair p f)
  show ?thesis unfolding Pair
  proof (rule left_by_mono [OF part_budgets_left], elim disjE conjE exE)
    fix y t
    assume r: "fetch_budget_map js ''/v1/budgets'' (pl_budgets a) = Inr t"
      "y = (p\<lparr>sp_budgets := True\<rparr>, f\<lparr>fr_cloud_budgets := map_of t\<rparr>)"
    show "seeded js wu H u0 y" using assms(2) readI(2) [OF assms(1) r(1)] unfolding r(2) Pair seeded_def prod.case by simp
  qed (use assms(2) Pair in simp)
qed

lemma part_kills_seeds:
  assumes "a \<in> H" "seeded js wu H u0 x" shows "left_by (seeded js wu H u0) (part_kills js a x)"
proof (cases x)
  case (Pair p f)
  show ?thesis unfolding Pair
  proof (rule left_by_mono [OF part_kills_left], elim disjE conjE exE)
    fix y ks
    assume r: "fetch_kill_list js (pl_kills a) = Inr ks"
      "y = (p\<lparr>sp_kills := True\<rparr>, f\<lparr>fr_killed := fr_killed f \<union> set ks\<rparr>)"
    show "seeded js wu H u0 y" using assms(2) readI(3) [OF assms(1) r(1), of "fr_killed f"] unfolding r(2) Pair seeded_def prod.case by simp
  qed (use assms(2) Pair in simp)
qed

lemma part_unit_month_seeds:
  assumes "a \<in> H" "seeded js wu H u0 x" shows "left_by (seeded js wu H u0) (part_unit_month js a x)"
proof (cases x)
  case (Pair p f)
  show ?thesis unfolding Pair
  proof (rule left_by_mono [OF part_unit_month_left], elim disjE conjE exE)
    fix y body rows
    let ?u = "gw_units (fr_gate f)"
    assume r: "\<not> sp_unit_month p" "fetch_unit_months (pl_units a) = Inr body" "parse_unit_months js body = Inr rows"
      "y = (p\<lparr>sp_unit_month := True\<rparr>, put_units (snd (apply_unit_months rows ?u (pl_now a))) f)"
    have s: "ul_state ?u = ul_state u0" "ul_base ?u = ul_base u0" "wu" using assms(2) r(1) by (auto simp: Pair seeded_def)
    have k: "ul_base (snd (apply_unit_months rows ?u (pl_now a))) = ul_base ?u"
        "ul_overrides (snd (apply_unit_months rows ?u (pl_now a))) = ul_overrides ?u"
      using apply_unit_months_effect [where rows = rows and u = ?u and now = "pl_now a"] by (simp_all split: prod.splits)
    have "ul_state (snd (apply_unit_months rows ?u (pl_now a))) = ul_state (snd (apply_unit_months rows u0 (pl_now a)))"
      by (rule apply_unit_months_state [OF s(1)])
    then have "months_read js H u0 (snd (apply_unit_months rows ?u (pl_now a)))" using assms(1) r(2,3) by (rule readI(4) [rotated 3])
    then show "seeded js wu H u0 y" using assms(2) r(4) s k
      by (simp add: Pair seeded_def caps_read_cong [OF k(2)])
  qed (use assms(2) Pair in simp)
qed

lemma part_unit_budgets_seeds:
  assumes "a \<in> H" "seeded js wu H u0 x" shows "left_by (seeded js wu H u0) (part_unit_budgets js a x)"
proof (cases x)
  case (Pair p f)
  show ?thesis unfolding Pair
  proof (rule left_by_mono [OF part_unit_budgets_left], elim disjE conjE exE)
    fix y t
    assume r: "fetch_budget_map js ''/v1/unit-budgets'' (pl_unit_budgets a) = Inr t"
      "y = (p\<lparr>sp_unit_budgets := True\<rparr>, put_units (set_overrides (gw_units (fr_gate f)) (map_of t)) f)"
    show "seeded js wu H u0 y" using assms(2) readI(5) [OF assms(1) r(1), of "set_overrides (gw_units (fr_gate f)) (map_of t)"]
      months_read_cong [of "set_overrides (gw_units (fr_gate f)) (map_of t)" "gw_units (fr_gate f)"] unfolding r(2) Pair seeded_def prod.case by simp
  qed (use assms(2) Pair in simp)
qed


section \<open>One attempt\<close>

lemma and_then_left:
  "left_by P r \<Longrightarrow> (\<And>x. P x \<Longrightarrow> left_by P (k x)) \<Longrightarrow> left_by P (and_then r k)"
  by (cases r) (simp_all add: left_by_def and_then_def)

lemma attempt_seeds:
  assumes "a \<in> H" "seeded js wu H u0 (p, f)"
  shows "case seed_control_plane js a p f of (r, x) \<Rightarrow> seeded js wu H u0 x"
proof -
  note parts = part_run_spend_seeds [OF assms(1)] part_budgets_seeds [OF assms(1)] part_kills_seeds [OF assms(1)]
    part_unit_month_seeds [OF assms(1)] part_unit_budgets_seeds [OF assms(1)]
  have "left_by (seeded js wu H u0) (and_then (part_run_spend js a (p, f)) (\<lambda>x. and_then (part_budgets js a x)
      (\<lambda>x. and_then (part_kills js a x) (\<lambda>x. and_then (part_unit_month js a x) (part_unit_budgets js a)))))"
    by (intro and_then_left parts assms(2))
  then show ?thesis by (auto simp: seed_control_plane_def left_by_def split: sum.splits)
qed

lemma part_flag:
  "part_run_spend js a (p, f) = Inr (p', f') \<Longrightarrow> p' = p\<lparr>sp_run_spend := True\<rparr>"
  "part_budgets js a (p, f) = Inr (p', f') \<Longrightarrow> p' = p\<lparr>sp_budgets := True\<rparr>"
  "part_kills js a (p, f) = Inr (p', f') \<Longrightarrow> p' = p\<lparr>sp_kills := True\<rparr>"
  "part_unit_month js a (p, f) = Inr (p', f') \<Longrightarrow> p' = p\<lparr>sp_unit_month := True\<rparr>"
  "part_unit_budgets js a (p, f) = Inr (p', f') \<Longrightarrow> p' = p\<lparr>sp_unit_budgets := True\<rparr>"
  by (auto simp: part_run_spend_def part_budgets_def part_kills_def part_unit_month_def part_unit_budgets_def
      split: if_splits sum.splits prod.splits)

lemma and_then_Inr: "and_then r k = Inr y \<longleftrightarrow> (\<exists>x. r = Inr x \<and> k x = Inr y)"
  by (auto simp: and_then_def split: sum.splits)

lemma attempt_complete: "seed_control_plane js a p f = (Inr u, p', f') \<Longrightarrow> parts_complete p'"
  by (auto simp: seed_control_plane_def and_then_Inr parts_complete_def dest!: part_flag split: sum.splits)

text \<open>An attempt every route of which is answered as it should be.\<close>

definition was_read :: "('a, 'e) res \<Rightarrow> bool" where
  "was_read r = (case r of Inl e \<Rightarrow> False | Inr x \<Rightarrow> True)"

definition plane_answers :: "seed_readers \<Rightarrow> plane \<Rightarrow> bool" where
  "plane_answers js a \<longleftrightarrow>
     was_read (and_then (fetch_run_spend (pl_run_spend a) (pl_runs a)) (parse_run_spend js))
   \<and> was_read (fetch_budget_map js ''/v1/budgets'' (pl_budgets a)) \<and> was_read (fetch_kill_list js (pl_kills a))
   \<and> was_read (and_then (fetch_unit_months (pl_units a)) (parse_unit_months js))
   \<and> was_read (fetch_budget_map js ''/v1/unit-budgets'' (pl_unit_budgets a))"

lemma part_answers:
  assumes "plane_answers js a"
  shows "\<exists>y. part_run_spend js a x = Inr y" "\<exists>y. part_budgets js a x = Inr y" "\<exists>y. part_kills js a x = Inr y"
    "\<exists>y. part_unit_month js a x = Inr y" "\<exists>y. part_unit_budgets js a x = Inr y"
  using assms
  by (auto simp: plane_answers_def was_read_def and_then_def part_run_spend_def part_budgets_def part_kills_def
      part_unit_month_def part_unit_budgets_def seed_run_ledger_at_def seed_unit_ledger_at_def
      split: sum.splits prod.splits)

lemma attempt_answers: "plane_answers js a \<Longrightarrow> \<exists>p' f'. seed_control_plane js a p f = (Inr (), p', f')"
proof -
  assume a: "plane_answers js a"
  have "\<exists>y. and_then (part_run_spend js a (p, f)) (\<lambda>x. and_then (part_budgets js a x)
      (\<lambda>x. and_then (part_kills js a x) (\<lambda>x. and_then (part_unit_month js a x) (part_unit_budgets js a)))) = Inr y"
    unfolding and_then_Inr using part_answers [OF a] by metis
  then show ?thesis by (auto simp: seed_control_plane_def)
qed

section \<open>Start-up and retry\<close>

lemma parts_new_seeded: "seeded js wu H (gw_units (fr_gate f)) (parts_new wu, f)"
  by (simp add: seeded_def parts_new_def)

text \<open>What the gate stands for: all of it was read, from answers among \<open>H\<close>, and is in the gateway.\<close>

definition seed_landed :: "seed_readers \<Rightarrow> bool \<Rightarrow> plane set \<Rightarrow> string set \<Rightarrow> unit_ledger \<Rightarrow> 'g front \<Rightarrow> bool" where
  "seed_landed js wu H replayed u0 f \<longleftrightarrow>
     (\<exists>m. runs_read js H m \<and> (\<forall>run. run \<notin> replayed \<longrightarrow> fr_run_seed f run = m run))
     \<and> budgets_read js H (fr_cloud_budgets f) \<and> kills_read js H (fr_killed f)
     \<and> (wu \<longrightarrow> months_read js H u0 (gw_units (fr_gate f)) \<and> caps_read js H (gw_units (fr_gate f)))"

lemma credit_late_frame:
  "case credit_late_seed replayed f of (n, f') \<Rightarrow>
     fr_cloud_budgets f' = fr_cloud_budgets f \<and> fr_killed f' = fr_killed f \<and> gw_units (fr_gate f') = gw_units (fr_gate f)
     \<and> (\<forall>run. run \<notin> fst ` set replayed \<longrightarrow> fr_run_seed f' run = fr_run_seed f run)"
proof (induction replayed f rule: credit_late_seed.induct)
  case (2 run generation rest f)
  then show ?case by (auto simp: take_run_seed_def put_ledger_def split: option.splits prod.splits)
qed simp

lemma complete_landed:
  "seeded js wu H u0 (p, f) \<Longrightarrow> parts_complete p \<Longrightarrow> seed_landed js wu H {} u0 f"
  by (auto simp: seeded_def parts_complete_def seed_landed_def)

lemma landed_credit:
  "seed_landed js wu H {} u0 f \<Longrightarrow> seed_landed js wu H (fst ` set replayed) u0 (snd (credit_late_seed replayed f))"
  using credit_late_frame [where replayed = replayed and f = f] by (auto simp: seed_landed_def split: prod.splits)

lemma retry_lands:
  assumes "seeded js wu H u0 (p, f)" and "\<not> gate_is_open g" and "set as \<subseteq> H"
    and "retry_seed_until_read js replayed as (g, p, f) = (g', p', f')" and "gate_is_open g'"
  shows "parts_complete p' \<and> seed_landed js wu H (fst ` set replayed) u0 f'"
  using assms
proof (induction as arbitrary: g p f)
  case (Cons a as)
  obtain r p1 f1 where at: "seed_control_plane js a p f = (r, p1, f1)" by (cases "seed_control_plane js a p f") auto
  have s: "seeded js wu H u0 (p1, f1)" using attempt_seeds [OF _ Cons.prems(1), of a] Cons.prems(3) at by simp
  show ?case
  proof (cases r)
    case (Inl e)
    then show ?thesis using Cons.IH [OF s, of "set_reason (show_seed_error e) g"] Cons.prems at
      by (simp add: gate_is_open_def set_reason_def)
  next
    case (Inr u)
    then show ?thesis using attempt_complete [of js a p f u p1 f1] complete_landed [OF s] landed_credit Cons.prems(4) at by auto
  qed
qed (simp add: gate_is_open_def)

lemma retry_opens:
  "\<exists>a \<in> set as. plane_answers js a \<Longrightarrow> case retry_seed_until_read js replayed as (g, p, f) of (g', p', f') \<Rightarrow>
     gate_is_open g' \<and> parts_complete p'"
proof (induction as arbitrary: g p f)
  case (Cons a as)
  obtain r p1 f1 where at: "seed_control_plane js a p f = (r, p1, f1)" by (cases "seed_control_plane js a p f") auto
  show ?case
  proof (cases r)
    case (Inl e)
    then have "\<not> plane_answers js a" using attempt_answers [of js a p f] at by auto
    then show ?thesis using Cons.IH Cons.prems at Inl by simp
  next
    case (Inr u)
    then show ?thesis using attempt_complete [of js a p f u p1 f1] at by (simp add: open_now_def gate_is_open_def)
  qed
qed simp


section \<open>Properties\<close>


definition sample_readers :: seed_readers where
  "sample_readers =
     \<lparr>js_units = \<lambda>_. Inr [], js_runs = \<lambda>_. Inr [\<lparr>rn_run_id = ''q'', rn_spent = 40, rn_killed = False\<rparr>],
      js_map = \<lambda>_. Inr [(''q'', 70)], js_list = \<lambda>_. Inr [''k'']\<rparr>"

definition sample_plane :: plane where
  "sample_plane =
     \<lparr>pl_run_spend = Answer 403 [] None, pl_runs = Answer 200 [''[]''] None, pl_budgets = Answer 200 [''{}''] None,
      pl_kills = Answer 404 [] None, pl_units = Too_slow, pl_unit_budgets = Too_slow, pl_now = 0\<rparr>"

definition down_plane :: plane where
  "down_plane = sample_plane\<lparr>pl_budgets := No_connection ''refused''\<rparr>"

lemmas sample_seed_simps = sample_readers_def sample_plane_def down_plane_def part_defs fetch_run_spend_def
  fetch_run_spend_at_def fetch_def fetch_budget_map_def fetch_kill_list_def fetch_seed_list_def status_is_success_def
  parse_run_spend_def parsed_def apply_run_spend_def RUN_SEED_MAX_BODY_BYTES_def SEED_MAX_BODY_BYTES_def
  seed_control_plane_def and_then_def parts_new_def

lemma sample_attempt:
  "\<exists>p f. seed_control_plane sample_readers sample_plane (parts_new False) (sample_front :: unit front) = (Inr (), p, f)"
  by (simp add: sample_seed_simps)


text \<open>C17. The gate does open: once one attempt, at start-up or later, is answered in full, every part is read and the
  gate is open, whatever was read or failed before it; no wait between two attempts is shorter than a quarter of a
  second or longer than five.\<close>

theorem gate_opens_when_answered:
  assumes "\<exists>x \<in> set (a # as). plane_answers js x"
  shows "(case seed_gateway js wu replayed a as f of (g, p, f') \<Rightarrow> gate_is_open g \<and> parts_complete p)
    \<and> 250 \<le> backoff n \<and> backoff n \<le> 5000"
proof
  obtain r p1 f1 where at: "seed_control_plane js a (parts_new wu) f = (r, p1, f1)"
    by (cases "seed_control_plane js a (parts_new wu) f") auto
  show "case seed_gateway js wu replayed a as f of (g, p, f') \<Rightarrow> gate_is_open g \<and> parts_complete p"
  proof (cases r)
    case (Inl e)
    then have "\<not> plane_answers js a" using attempt_answers [of js a "parts_new wu" f] at by auto
    then show ?thesis
      using assms retry_opens [where js = js and as = as and g = "gate_closed (show_seed_error e)" and p = p1 and f = f1]
      by (simp add: seed_gateway_def start_seed_def at Inl gate_is_open_def gate_closed_def)
  next
    case (Inr u)
    then show ?thesis using attempt_complete [of js a "parts_new wu" f u p1 f1] at
      by (simp add: seed_gateway_def start_seed_def gate_is_open_def gate_open_def)
  qed
  have "(2 :: nat) ^ min n 32 < 2 ^ 64" by (rule power_strict_increasing) simp_all
  then have "(2 :: nat) ^ min n 32 mod 2 ^ 64 = 2 ^ min n 32" "1 \<le> (2 :: nat) ^ min n 32" by simp_all
  then show "250 \<le> backoff n \<and> backoff n \<le> 5000"
    by (simp add: backoff_def Let_def sat_u64_def BACKOFF_FIRST_def BACKOFF_MAX_def U64_MAX_def)
qed

theorem gate_opens_when_answered_witness:
  "case seed_gateway sample_readers True [] down_plane
       [down_plane, sample_plane\<lparr>pl_units := Answer 200 [''[]''] None, pl_unit_budgets := Answer 404 [] None\<rparr>]
       (sample_front :: unit front) of
     (g, p, f) \<Rightarrow> gate_is_open g \<and> parts_complete p"
proof -
  have "plane_answers sample_readers (sample_plane\<lparr>pl_units := Answer 200 [''[]''] None, pl_unit_budgets := Answer 404 [] None\<rparr>)"
    by (simp add: plane_answers_def was_read_def sample_seed_simps fetch_unit_months_def parse_unit_months_def)
  then have "\<exists>x \<in> set (down_plane # [down_plane, sample_plane\<lparr>pl_units := Answer 200 [''[]''] None,
      pl_unit_budgets := Answer 404 [] None\<rparr>]). plane_answers sample_readers x" by simp
  then show ?thesis by (rule gate_opens_when_answered [THEN conjunct1])
qed

text \<open>One answer of unit months: every row is counted in the report once; a unit that has spent nothing this month
  starts at the first figure above zero its rows name for it, the bucket of unattributed spend, blank units, negative
  figures and other months left out; a unit already counting, every reservation and every cap stay as they are.\<close>

lemma unit_months_applied:
  "case apply_unit_months rows u now of (report, u') \<Rightarrow>
     length (sr_seeded report) + sr_skipped_other_month report + sr_skipped_unassigned report
       + sr_skipped_invalid report + sr_skipped_counting report = length rows
     \<and> unit_spent u' k now = (if unit_spent u k now \<noteq> 0 then unit_spent u k now else first_figure now k rows)
     \<and> unit_reserved u' k now = unit_reserved u k now \<and> effective_cap u' k = effective_cap u k"
  using apply_unit_months_effect [where rows = rows and u = u and now = now]
  by (cases "ul_overrides u k") (simp_all add: rows_seen_def effective_cap_def split: prod.splits)

end
