(* ===== verification/Origin.thy ===== *)
theory Origin
  imports Text Json
begin

text \<open>
  \<open>crates/dpop/src/origin.rs\<close>: the public origins a proof's \<open>htu\<close> may name. Strings are their UTF-8
  bytes; every character the code looks for is one byte. Reading the payload of a compact JWS (base64url,
  then JSON) is the argument \<open>payload\<close>.
\<close>

section \<open>String methods\<close>

definition strip_prefix :: "string \<Rightarrow> string \<Rightarrow> string option" where
  "strip_prefix p s = (if starts_with p s then Some (drop (length p) s) else None)"

fun split_once_str :: "string \<Rightarrow> string \<Rightarrow> (string \<times> string) option" where
  "split_once_str p [] = (if p = [] then Some ([], []) else None)"
| "split_once_str p (c # cs) =
     (if starts_with p (c # cs) then Some ([], drop (length p) (c # cs))
      else map_option (\<lambda>(a, b). (c # a, b)) (split_once_str p cs))"

definition ascii_hexdigit :: "char \<Rightarrow> bool" where
  "ascii_hexdigit c \<longleftrightarrow>
     (let n = of_char c :: nat in 48 \<le> n \<and> n \<le> 57 \<or> 65 \<le> n \<and> n \<le> 70 \<or> 97 \<le> n \<and> n \<le> 102)"

lemma strip_prefix_some: "strip_prefix p s = Some t \<longleftrightarrow> s = p @ t"
  by (auto simp: strip_prefix_def starts_with_def) (metis append_take_drop_id)

lemma split_once_str_some: "split_once_str p s = Some (a, b) \<Longrightarrow> s = a @ p @ b"
proof (induction p s arbitrary: a rule: split_once_str.induct)
  case (2 p c cs)
  show ?case
  proof (cases "starts_with p (c # cs)")
    case True
    then have "c # cs = p @ drop (length p) (c # cs)"
      by (metis append_take_drop_id starts_with_def)
    with 2 True show ?thesis by simp
  qed (use 2 in auto)
qed (auto split: if_splits)

section \<open>One origin\<close>

datatype origin_refusal = NotAnOrigin

definition default_port :: "string \<Rightarrow> nat option" where
  "default_port scheme =
     (if scheme = ''https'' then Some 443 else if scheme = ''http'' then Some 80 else None)"

definition read_port :: "string option \<Rightarrow> (nat option, origin_refusal) res" where
  "read_port port =
     (case port of
        None \<Rightarrow> Inr None
      | Some p \<Rightarrow>
          if p = [] \<or> \<not> list_all ascii_digit p then Inl NotAnOrigin
          else if read_digits p \<le> 65535 \<and> read_digits p \<noteq> 0 then Inr (Some (read_digits p))
          else Inl NotAnOrigin)"

definition bracketed_host :: "string \<Rightarrow> (string \<times> string option, origin_refusal) res" where
  "bracketed_host inner =
     (case split_once (CHR '']'') inner of
        None \<Rightarrow> Inl NotAnOrigin
      | Some (host, after) \<Rightarrow>
          case (if after = [] then Some None else map_option Some (strip_prefix '':'' after)) of
            None \<Rightarrow> Inl NotAnOrigin
          | Some port \<Rightarrow>
              if host = [] \<or> \<not> list_all (\<lambda>c. ascii_hexdigit c \<or> c = CHR '':'' \<or> c = CHR ''.'') host
              then Inl NotAnOrigin else Inr (host, port))"

definition plain_host :: "string \<Rightarrow> (string \<times> string option, origin_refusal) res" where
  "plain_host authority =
     (let (host, port) =
            (case split_once (CHR '':'') authority of
               Some (h, p) \<Rightarrow> (h, Some p)
             | None \<Rightarrow> (authority, None))
      in if host = []
            \<or> \<not> list_all (\<lambda>c. ascii_alphanumeric c \<or> c = CHR ''-'' \<or> c = CHR ''.'' \<or> c = CHR ''_'') host
         then Inl NotAnOrigin else Inr (host, port))"

definition split_host_port :: "string \<Rightarrow> (string \<times> nat option, origin_refusal) res" where
  "split_host_port authority =
     (case (case strip_prefix ''['' authority of
              Some inner \<Rightarrow> bracketed_host inner
            | None \<Rightarrow> plain_host authority) of
        Inl e \<Rightarrow> Inl e
      | Inr (host, port) \<Rightarrow>
          case read_port port of
            Inl e \<Rightarrow> Inl e
          | Inr n \<Rightarrow> Inr (to_ascii_lowercase host, n))"

definition normalize_origin :: "string \<Rightarrow> (string, origin_refusal) res" where
  "normalize_origin raw =
     (case split_once_str ''://'' (trim raw) of
        None \<Rightarrow> Inl NotAnOrigin
      | Some (scheme, rest) \<Rightarrow>
          let authority = takeWhile (\<lambda>c. c \<notin> set ''/?#'') rest;
              tail = dropWhile (\<lambda>c. c \<notin> set ''/?#'') rest
          in if \<not> (tail = [] \<or> tail = ''/'') \<or> CHR ''@'' \<in> set authority then Inl NotAnOrigin
          else case default_port (to_ascii_lowercase scheme) of
            None \<Rightarrow> Inl NotAnOrigin
          | Some dflt \<Rightarrow>
              case split_host_port authority of
                Inl e \<Rightarrow> Inl e
              | Inr (host, port) \<Rightarrow>
                  Inr (to_ascii_lowercase scheme @ ''://''
                    @ (if CHR '':'' \<in> set host then ''['' @ host @ '']'' else host)
                    @ '':'' @ show_nat (case port of None \<Rightarrow> dflt | Some n \<Rightarrow> n)))"

section \<open>What a proof may name\<close>

definition origin_and_path :: "string \<Rightarrow> (string \<times> string) option" where
  "origin_and_path htu =
     (if CHR ''#'' \<in> set htu then None
      else case split_once_str ''://'' (takeWhile (\<lambda>c. c \<noteq> CHR ''?'') htu) of
        None \<Rightarrow> None
      | Some (scheme, rest) \<Rightarrow>
          let authority = takeWhile (\<lambda>c. c \<noteq> CHR ''/'') rest;
              path = dropWhile (\<lambda>c. c \<noteq> CHR ''/'') rest
          in case normalize_origin (scheme @ ''://'' @ authority) of
            Inl _ \<Rightarrow> None
          | Inr origin \<Rightarrow> Some (origin, if path = [] then ''/'' else path))"

text \<open>
  Of a name an object repeats, \<open>serde_json::Value\<close> keeps the last member.
\<close>

definition value_field :: "string \<Rightarrow> 'n json \<Rightarrow> 'n json option" where
  "value_field k v = (case v of JObj fs \<Rightarrow> map_of (rev fs) k | _ \<Rightarrow> None)"

definition unverified_htu :: "(string \<Rightarrow> 'n json option) \<Rightarrow> string \<Rightarrow> string option" where
  "unverified_htu payload proof =
     Option.bind (Option.bind (payload proof) (value_field ''htu'')) as_str"

definition expected_url ::
  "(string \<Rightarrow> 'n json option) \<Rightarrow> string list \<Rightarrow> string option \<Rightarrow> string \<Rightarrow> string" where
  "expected_url payload origins proof path =
     (let fallback = (case origins of [] \<Rightarrow> [] | origin # _ \<Rightarrow> origin) @ path
      in case Option.bind proof (unverified_htu payload) of
           None \<Rightarrow> fallback
         | Some htu \<Rightarrow>
             case origin_and_path htu of
               None \<Rightarrow> fallback
             | Some (origin, htu_path) \<Rightarrow>
                 if htu_path = path \<and> list_ex (\<lambda>o'. normalize_origin o' = Inr origin) origins
                 then htu else fallback)"

fun parse_origins :: "string list \<Rightarrow> string list \<Rightarrow> (string list, string) res" where
  "parse_origins [] origins = Inr origins"
| "parse_origins (entry # es) origins =
     (case normalize_origin entry of
        Inl _ \<Rightarrow> Inl (trim entry)
      | Inr origin \<Rightarrow>
          parse_origins es (if origin \<in> set origins then origins else origins @ [origin]))"

definition parse_origin_list :: "string \<Rightarrow> (string list, string) res" where
  "parse_origin_list list =
     (if trim list = [] then Inr [] else parse_origins (split_on (CHR '','') list) [])"

end
