(* ===== verification/Dpop_Proof.thy ===== *)
theory Dpop_Proof
  imports Origin
begin

text \<open>
  \<open>crates/dpop/src/lib.rs\<close>: proofs of possession (RFC 9449) and the cache that makes one single-use.
  Reading and verifying a JWS is the library's, held in a \<open>jws_lib\<close>; so are SHA-256 and base64url. The
  members of a decoded object are kept in document order, repeats included.
\<close>

section \<open>Keys\<close>

datatype ec_curve = Curve_P256 | Curve_P384 | Curve_P521 | Curve_Ed25519

datatype jwk_params = RSA_params string string | EC_params ec_curve string string | Other_params

record jwk =
  jk_kid :: "string option"
  jk_params :: jwk_params

datatype algorithm = RS256 | RS384 | RS512 | ES256 | ES384 | Other_algorithm

definition algorithms_for_key :: "jwk \<Rightarrow> algorithm list option" where
  "algorithms_for_key k =
     (case jk_params k of
        RSA_params _ _ \<Rightarrow> Some [RS256, RS384, RS512]
      | EC_params _ _ _ \<Rightarrow> Some [ES256, ES384]
      | Other_params \<Rightarrow> None)"

section \<open>The library\<close>

text \<open>A JSON number, of which the code asks for an \<open>i64\<close>.\<close>

datatype json_number = Whole int | Other_number

type_synonym jvalue = "json_number json"

fun as_i64 :: "jvalue \<Rightarrow> int option" where
  "as_i64 (JNum (Whole i)) = (if in_i64 i then Some i else None)"
| "as_i64 _ = None"

record jws_header =
  jh_typ :: "string option"
  jh_kid :: "string option"
  jh_jwk :: "jwk option"

text \<open>What the code sets of a \<open>Validation\<close>; expiry is never left to the library.\<close>

record validation =
  va_algorithms :: "algorithm list"
  va_required :: "string list"
  va_issuer :: "string option"
  va_audience :: "string option"

datatype decode_error = Invalid_issuer | Invalid_audience | Other_error

record jws_lib =
  jl_header :: "string \<Rightarrow> jws_header option"
  jl_raw_header :: "string \<Rightarrow> jvalue option"
  jl_payload :: "string \<Rightarrow> jvalue option"
  jl_key_ok :: "jwk \<Rightarrow> bool"
  jl_decode :: "validation \<Rightarrow> jwk \<Rightarrow> string \<Rightarrow> (jvalue, decode_error) res"
  jl_sha :: "string \<Rightarrow> nat list"
  jl_b64 :: "nat list \<Rightarrow> string"

definition curve_name :: "ec_curve \<Rightarrow> string" where
  "curve_name c = (case c of Curve_P384 \<Rightarrow> ''P-384'' | Curve_P521 \<Rightarrow> ''P-521'' | _ \<Rightarrow> ''P-256'')"

definition quoted :: "string \<Rightarrow> string" where
  "quoted s = [CHR 0x22] @ s @ [CHR 0x22]"

definition thumbprint :: "jws_lib \<Rightarrow> jwk \<Rightarrow> string option" where
  "thumbprint lib k =
     map_option (\<lambda>canonical. jl_b64 lib (jl_sha lib canonical))
       (case jk_params k of
          EC_params c x y \<Rightarrow>
            Some (''{'' @ quoted ''crv'' @ '':'' @ quoted (curve_name c) @ '','' @ quoted ''kty'' @ '':''
              @ quoted ''EC'' @ '','' @ quoted ''x'' @ '':'' @ quoted x @ '','' @ quoted ''y'' @ '':''
              @ quoted y @ ''}'')
        | RSA_params n e \<Rightarrow>
            Some (''{'' @ quoted ''e'' @ '':'' @ quoted e @ '','' @ quoted ''kty'' @ '':'' @ quoted ''RSA''
              @ '','' @ quoted ''n'' @ '':'' @ quoted n @ ''}'')
        | Other_params \<Rightarrow> None)"

definition access_token_hash :: "jws_lib \<Rightarrow> string \<Rightarrow> string" where
  "access_token_hash lib token = jl_b64 lib (jl_sha lib token)"

section \<open>A proof\<close>

definition PROOF_WINDOW_SECS :: int where "PROOF_WINDOW_SECS = 60"
definition MAX_JTI_BYTES :: nat where "MAX_JTI_BYTES = 256"

record verified_proof =
  vp_jkt :: string
  vp_jti :: string
  vp_ath :: "string option"

datatype proof_refusal =
    Malformed_proof | NotAProof | PrivateKeyMaterial | BadProofSignature | WrongRequest | StaleProof

definition carries_private_member :: "jws_lib \<Rightarrow> string \<Rightarrow> bool" where
  "carries_private_member lib proof =
     (case Option.bind (jl_raw_header lib proof) (value_field ''jwk'') of
        Some (JObj fs) \<Rightarrow>
          list_ex (\<lambda>m. m \<in> fst ` set fs) [''d'', ''p'', ''q'', ''dp'', ''dq'', ''qi'', ''k'']
      | _ \<Rightarrow> True)"

definition trim_query :: "string \<Rightarrow> string" where
  "trim_query u = takeWhile (\<lambda>c. c \<notin> set ''?#'') u"

text \<open>\<open>unwrap_or_default\<close> on a member that should be a string.\<close>

definition str_or_empty :: "string \<Rightarrow> jvalue \<Rightarrow> string" where
  "str_or_empty k claims = or_else (Option.bind (value_field k claims) as_str) []"

text \<open>\<open>(now - iat).abs() > PROOF_WINDOW_SECS\<close> in a release build: both steps wrap.\<close>

definition proof_is_stale :: "int \<Rightarrow> int \<Rightarrow> bool" where
  "proof_is_stale now iat \<longleftrightarrow> PROOF_WINDOW_SECS < wrap_i64 \<bar>wrap_i64 (now - iat)\<bar>"

definition proof_claims ::
  "jws_lib \<Rightarrow> jwk \<Rightarrow> string \<Rightarrow> (jvalue, proof_refusal) res" where
  "proof_claims lib k proof =
     (case algorithms_for_key k of
        None \<Rightarrow> Inl BadProofSignature
      | Some algs \<Rightarrow>
          if \<not> jl_key_ok lib k then Inl BadProofSignature
          else case jl_decode lib
              \<lparr>va_algorithms = algs, va_required = [], va_issuer = None, va_audience = None\<rparr> k proof of
            Inr (JObj fs) \<Rightarrow> Inr (JObj fs)
          | _ \<Rightarrow> Inl BadProofSignature)"

definition check_proof_claims ::
  "jws_lib \<Rightarrow> jwk \<Rightarrow> string \<Rightarrow> string \<Rightarrow> int \<Rightarrow> jvalue \<Rightarrow> (verified_proof, proof_refusal) res" where
  "check_proof_claims lib k meth url now claims =
     (let htu = str_or_empty ''htu'' claims; jti = str_or_empty ''jti'' claims
      in if to_ascii_lowercase (str_or_empty ''htm'' claims) \<noteq> to_ascii_lowercase meth
         then Inl WrongRequest
         else if CHR ''#'' \<in> set htu then Inl WrongRequest
         else if trim_query htu \<noteq> trim_query url then Inl WrongRequest
         else case Option.bind (value_field ''iat'' claims) as_i64 of
           None \<Rightarrow> Inl StaleProof
         | Some iat \<Rightarrow>
             if proof_is_stale now iat then Inl StaleProof
             else if jti = [] \<or> MAX_JTI_BYTES < length jti then Inl WrongRequest
             else case thumbprint lib k of
               None \<Rightarrow> Inl BadProofSignature
             | Some jkt \<Rightarrow> Inr \<lparr>vp_jkt = jkt, vp_jti = jti,
                 vp_ath = Option.bind (value_field ''ath'' claims) as_str\<rparr>)"

definition verify_proof ::
  "jws_lib \<Rightarrow> string \<Rightarrow> string \<Rightarrow> string \<Rightarrow> int \<Rightarrow> (verified_proof, proof_refusal) res" where
  "verify_proof lib proof meth url now =
     (case jl_header lib proof of
        None \<Rightarrow> Inl Malformed_proof
      | Some header \<Rightarrow>
          if jh_typ header \<noteq> Some ''dpop+jwt'' then Inl NotAProof
          else case jh_jwk header of
            None \<Rightarrow> Inl Malformed_proof
          | Some k \<Rightarrow>
              if carries_private_member lib proof then Inl PrivateKeyMaterial
              else case proof_claims lib k proof of
                Inl e \<Rightarrow> Inl e
              | Inr claims \<Rightarrow> check_proof_claims lib k meth url now claims)"

section \<open>Single use\<close>

datatype replay_refusal = Seen | Full

record replay_cache =
  ry_cap :: nat
  ry_started :: int
  ry_current :: "string list"
  ry_previous :: "string list"

definition GENERATION :: int where "GENERATION = PROOF_WINDOW_SECS * 2"

definition new_replay_cache :: "nat \<Rightarrow> replay_cache" where
  "new_replay_cache cap = \<lparr>ry_cap = cap, ry_started = I64_MIN, ry_current = [], ry_previous = []\<rparr>"

definition rotate_generations :: "int \<Rightarrow> replay_cache \<Rightarrow> replay_cache" where
  "rotate_generations now c =
     (if ry_started c = I64_MIN \<or> GENERATION \<le> sat_i64 (now - ry_started c)
      then c\<lparr>ry_previous := (if GENERATION * 2 \<le> sat_i64 (now - ry_started c) then [] else ry_current c),
             ry_current := [], ry_started := now\<rparr>
      else c)"

definition check_and_record ::
  "string \<Rightarrow> int \<Rightarrow> replay_cache \<Rightarrow> (unit, replay_refusal) res \<times> replay_cache" where
  "check_and_record jti now c =
     (let c = rotate_generations now c
      in if jti \<in> set (ry_current c) \<or> jti \<in> set (ry_previous c) then (Inl Seen, c)
         else if ry_cap c \<le> length (ry_current c) then (Inl Full, c)
         else (Inr (), c\<lparr>ry_current := jti # ry_current c\<rparr>))"

text \<open>
  A proof is good once: the window in which one proof is fresh, and how long the cache remembers. Also
  the bound of the cache, and the clock under which it forgets.
\<close>

section \<open>Freshness\<close>

definition in_clock :: "int \<Rightarrow> bool" where
  "in_clock t \<longleftrightarrow> 0 \<le> t \<and> t < 2 ^ 62"

lemma in_clock_i64: "in_clock t \<Longrightarrow> in_i64 t"
  by (simp add: in_clock_def in_i64_def machine_bounds)

text \<open>
  An \<open>iat\<close> is fresh within the window, and at the one second at which the difference wraps to the
  least \<open>i64\<close>, whose magnitude wraps back to itself.
\<close>

lemma fresh_cases:
  assumes "in_i64 iat" and "in_clock now" and "\<not> proof_is_stale now iat"
  shows "\<bar>now - iat\<bar> \<le> PROOF_WINDOW_SECS \<or> now - iat = 2 ^ 63"
proof -
  define d where "d = now - iat"
  have b: "- (2 ^ 63) < d" "d < 2 ^ 63 + 2 ^ 62"
    using assms(1,2) by (auto simp: d_def in_i64_def in_clock_def machine_bounds)
  consider "d = 2 ^ 63" | "2 ^ 63 < d" | "d < 2 ^ 63" by linarith
  then show ?thesis
  proof cases
    case 2
    then have "(d + 2 ^ 63) mod 2 ^ 64 = d + 2 ^ 63 - 2 ^ 64"
      using b by (subst minus_mod_self2 [symmetric]) (intro mod_pos_pos_trivial; simp)
    then have "wrap_i64 d = d - 2 ^ 64" by (simp add: wrap_i64_def)
    moreover have "wrap_i64 \<bar>d - 2 ^ 64\<bar> = \<bar>d - 2 ^ 64\<bar>"
      using 2 b by (intro wrap_i64_id) (auto simp: in_i64_def machine_bounds)
    ultimately show ?thesis using 2 b assms(3) by (simp add: proof_is_stale_def d_def PROOF_WINDOW_SECS_def)
  next
    case 3
    then have "wrap_i64 d = d" "wrap_i64 \<bar>d\<bar> = \<bar>d\<bar>"
      using b by (auto intro!: wrap_i64_id simp: in_i64_def machine_bounds)
    then show ?thesis using assms(3) by (simp add: proof_is_stale_def d_def)
  qed (simp add: d_def)
qed

lemma wrapped_iat_is_fresh: "now - iat = 2 ^ 63 \<Longrightarrow> \<not> proof_is_stale now iat"
  by (simp add: proof_is_stale_def wrap_i64_def PROOF_WINDOW_SECS_def)

lemma fresh_within:
  assumes "in_i64 iat" and "in_clock s" and "in_clock t"
    and "\<not> proof_is_stale s iat" and "\<not> proof_is_stale t iat"
  shows "t \<le> s + GENERATION"
  using fresh_cases [OF assms(1,2,4)] fresh_cases [OF assms(1,3,5)] assms(2,3)
  by (auto simp: GENERATION_def PROOF_WINDOW_SECS_def in_clock_def)

section \<open>What a proof that verified says\<close>

lemma check_proof_claims_ok:
  assumes "check_proof_claims lib k meth url now claims = Inr v"
  obtains iat where "value_field ''iat'' claims = Some (JNum (Whole iat))" "in_i64 iat"
    and "\<not> proof_is_stale now iat"
    and "vp_jti v = str_or_empty ''jti'' claims" "vp_jti v \<noteq> []" "length (vp_jti v) \<le> MAX_JTI_BYTES"
    and "vp_ath v = Option.bind (value_field ''ath'' claims) as_str"
    and "thumbprint lib k = Some (vp_jkt v)"
    and "trim_query (str_or_empty ''htu'' claims) = trim_query url"
    and "CHR ''#'' \<notin> set (str_or_empty ''htu'' claims)"
    and "to_ascii_lowercase (str_or_empty ''htm'' claims) = to_ascii_lowercase meth"
proof -
  obtain iat where i: "Option.bind (value_field ''iat'' claims) as_i64 = Some iat"
    using assms by (auto simp: check_proof_claims_def Let_def split: if_splits option.splits)
  then obtain x where x: "value_field ''iat'' claims = Some x" "as_i64 x = Some iat"
    by (auto simp: Option.bind_eq_Some_conv)
  from x(2) have "x = JNum (Whole iat)" "in_i64 iat"
    by (cases x rule: as_i64.cases; simp split: if_splits)+
  with x i assms that show thesis
    by (auto simp: check_proof_claims_def Let_def split: if_splits option.splits)
qed

lemma verify_proof_ok:
  assumes "verify_proof lib proof meth url now = Inr v"
  obtains header k claims where "jl_header lib proof = Some header" "jh_typ header = Some ''dpop+jwt''"
    and "jh_jwk header = Some k" "\<not> carries_private_member lib proof"
    and "proof_claims lib k proof = Inr claims" "check_proof_claims lib k meth url now claims = Inr v"
  using assms by (auto simp: verify_proof_def split: option.splits if_splits sum.splits)

lemma same_proof_same_jti:
  assumes "verify_proof lib proof m u s = Inr v" and "verify_proof lib proof m' u' t = Inr w"
    and "in_clock s" and "in_clock t"
  shows "vp_jti v = vp_jti w \<and> t \<le> s + GENERATION"
proof -
  from verify_proof_ok [OF assms(1)] obtain h k c where
    1: "jl_header lib proof = Some h" "jh_jwk h = Some k" "proof_claims lib k proof = Inr c"
       "check_proof_claims lib k m u s c = Inr v" .
  from verify_proof_ok [OF assms(2)] 1 have 2: "check_proof_claims lib k m' u' t c = Inr w"
    by (metis option.inject sum.inject(2))
  from check_proof_claims_ok [OF 1(4)] obtain i where
    i: "value_field ''iat'' c = Some (JNum (Whole i))" "in_i64 i" "\<not> proof_is_stale s i"
       "vp_jti v = str_or_empty ''jti'' c" .
  from check_proof_claims_ok [OF 2] i(1) have "\<not> proof_is_stale t i" "vp_jti w = str_or_empty ''jti'' c"
    by (metis json.inject(2) json_number.inject option.inject)+
  with i fresh_within [OF i(2) assms(3,4)] show ?thesis by simp
qed

section \<open>What the cache remembers\<close>

definition remembers :: "int \<Rightarrow> string \<Rightarrow> replay_cache \<Rightarrow> bool" where
  "remembers t jti c \<longleftrightarrow>
     in_clock (ry_started c)
   \<and> (jti \<in> set (ry_current c) \<and> t < ry_started c + GENERATION
      \<or> jti \<in> set (ry_previous c) \<and> t < ry_started c)"

lemma rotate_started: "in_clock now \<Longrightarrow> ry_started c = I64_MIN \<or> in_clock (ry_started c) \<Longrightarrow>
    in_clock (ry_started (rotate_generations now c)) \<and> now < ry_started (rotate_generations now c) + GENERATION"
  by (auto simp: rotate_generations_def in_clock_def GENERATION_def PROOF_WINDOW_SECS_def sat_i64_def machine_bounds)

lemma rotate_remembers:
  assumes "remembers t jti c" and "in_clock now" and "now \<le> t + GENERATION"
  shows "remembers t jti (rotate_generations now c)"
proof -
  have st: "ry_started c \<noteq> I64_MIN" "in_clock (ry_started c)"
    using assms(1) by (auto simp: remembers_def in_clock_def machine_bounds)
  then have "sat_i64 (now - ry_started c) = now - ry_started c"
    using assms(2) by (intro sat_i64_id) (simp add: in_clock_def in_i64_def machine_bounds)
  with assms st show ?thesis
    by (auto simp: remembers_def rotate_generations_def GENERATION_def PROOF_WINDOW_SECS_def)
qed

lemma remembers_record:
  "remembers t jti c \<Longrightarrow> in_clock now \<Longrightarrow> now \<le> t + GENERATION \<Longrightarrow>
     remembers t jti (snd (check_and_record k now c))"
  using rotate_remembers [of t jti c now]
  by (auto simp: check_and_record_def Let_def remembers_def)

lemma remembered_is_seen:
  "remembers t jti c \<Longrightarrow> in_clock now \<Longrightarrow> now \<le> t + GENERATION \<Longrightarrow>
     fst (check_and_record jti now c) = Inl Seen"
  using rotate_remembers [of t jti c now] by (auto simp: check_and_record_def Let_def remembers_def)

lemma recorded_is_remembered:
  assumes "check_and_record jti t c = (Inr (), c')" and "in_clock t"
    and "ry_started c = I64_MIN \<or> in_clock (ry_started c)"
  shows "remembers t jti c'"
  using assms rotate_started [OF assms(2,3)]
  by (auto simp: check_and_record_def Let_def remembers_def split: if_splits)

section \<open>A run of presentations\<close>

fun present_all :: "(string \<times> int) list \<Rightarrow> replay_cache \<Rightarrow> replay_cache" where
  "present_all [] c = c"
| "present_all ((jti, now) # ps) c = present_all ps (snd (check_and_record jti now c))"

lemma remembers_all:
  "remembers t jti c \<Longrightarrow> list_all (\<lambda>(_, now). in_clock now \<and> now \<le> t + GENERATION) ps \<Longrightarrow>
     remembers t jti (present_all ps c)"
  by (induction ps c rule: present_all.induct) (auto intro: remembers_record)

definition cache_ok :: "replay_cache \<Rightarrow> bool" where
  "cache_ok c \<longleftrightarrow> (ry_started c = I64_MIN \<or> in_clock (ry_started c))
     \<and> length (ry_current c) \<le> ry_cap c \<and> length (ry_previous c) \<le> ry_cap c
     \<and> distinct (ry_current c) \<and> distinct (ry_previous c)"

lemma cache_ok_new [simp]: "cache_ok (new_replay_cache cap)"
  by (simp add: cache_ok_def new_replay_cache_def)

lemma rotate_cap [simp]: "ry_cap (rotate_generations now c) = ry_cap c"
  by (simp add: rotate_generations_def)

lemma cache_ok_rotate: "cache_ok c \<Longrightarrow> in_clock now \<Longrightarrow> cache_ok (rotate_generations now c)"
  by (auto simp: cache_ok_def rotate_generations_def)

lemma cache_ok_record:
  assumes "cache_ok c" and "in_clock now"
  shows "cache_ok (snd (check_and_record jti now c))"
  using cache_ok_rotate [OF assms] by (auto simp: check_and_record_def Let_def cache_ok_def)

lemma record_cap [simp]: "ry_cap (snd (check_and_record jti now c)) = ry_cap c"
  by (simp add: check_and_record_def Let_def)

lemma cache_ok_all: "cache_ok c \<Longrightarrow> list_all (\<lambda>(_, now). in_clock now) ps \<Longrightarrow> cache_ok (present_all ps c)"
  by (induction ps c rule: present_all.induct) (auto intro: cache_ok_record)

text \<open>
  A clock that once reads four minutes ahead empties the cache, and a proof recorded before is taken
  again when the clock is right.
\<close>

lemma clock_ahead_forgets:
  "let (r1, c1) = check_and_record ''p'' 1000 (new_replay_cache 8);
       (r2, c2) = check_and_record ''q'' 1240 c1;
       (r3, c3) = check_and_record ''p'' 1001 c2
   in r1 = Inr () \<and> r3 = Inr ()"
  by code_simp

end
