(* ===== verification/Delegation.thy ===== *)
theory Delegation
  imports Dpop_Proof
begin

text \<open>
  \<open>crates/delegation/src/lib.rs\<close>: verifying the tokens vouchryx mints, offline. The library decodes and
  verifies a JWS (\<open>jws_lib\<close>); the clock and the revocation check are arguments. Claims are read as serde's
  derived readers do: a struct from an object or, by position, from an array, a named member at most
  once, an absent one from its default.
\<close>

section \<open>Reading claims\<close>

definition struct_members :: "string list \<Rightarrow> jvalue \<Rightarrow> (string \<rightharpoonup> jvalue) option" where
  "struct_members names v =
     (case v of
        JObj fs \<Rightarrow>
          if list_all (\<lambda>n. length (filter (\<lambda>(k, _). k = n) fs) \<le> 1) names then Some (map_of fs) else None
      | JArr xs \<Rightarrow> if length xs \<le> length names then Some (map_of (zip names xs)) else None
      | _ \<Rightarrow> None)"

definition read_string :: "jvalue option \<Rightarrow> string option" where
  "read_string v = (case v of None \<Rightarrow> Some [] | Some x \<Rightarrow> as_str x)"

definition read_int :: "jvalue option \<Rightarrow> int option" where
  "read_int v = (case v of None \<Rightarrow> Some 0 | Some x \<Rightarrow> as_i64 x)"

definition read_optional :: "(jvalue \<Rightarrow> 'a option) \<Rightarrow> jvalue option \<Rightarrow> 'a option option" where
  "read_optional rd v =
     (case v of None \<Rightarrow> Some None | Some JNull \<Rightarrow> Some None | Some x \<Rightarrow> map_option Some (rd x))"

text \<open>\<open>cnf\<close> is read to its one member.\<close>

definition read_confirmation :: "jvalue \<Rightarrow> string option" where
  "read_confirmation v = Option.bind (struct_members [''jkt''] v) (\<lambda>m. read_string (m ''jkt''))"

datatype act_claim = Act (act_sub: string) (act_next: "act_claim option")

lemma map_of_size: "map_of fs k = Some v \<Longrightarrow> size v < size (JObj fs)"
  by (induction fs) (auto split: if_splits)

lemma zip_size: "map_of (zip ns xs) k = Some v \<Longrightarrow> size v < size (JArr xs)"
proof (induction ns xs rule: list_induct2')
  case (4 n ns x xs)
  then show ?case by (auto split: if_splits)
qed simp_all

lemma struct_member_size: "struct_members ns v = Some m \<Longrightarrow> m k = Some w \<Longrightarrow> size w < size v"
  by (auto simp: struct_members_def dest: map_of_size zip_size split: json.splits if_splits)

function read_act :: "jvalue \<Rightarrow> act_claim option" where
  "read_act v =
     (case struct_members [''sub'', ''act''] v of
        None \<Rightarrow> None
      | Some m \<Rightarrow>
          case read_string (m ''sub'') of
            None \<Rightarrow> None
          | Some sub \<Rightarrow>
              case m ''act'' of
                None \<Rightarrow> Some (Act sub None)
              | Some JNull \<Rightarrow> Some (Act sub None)
              | Some w \<Rightarrow> map_option (\<lambda>a. Act sub (Some a)) (read_act w))"
  by pat_completeness auto
termination by (relation "measure size") (auto dest: struct_member_size)

declare read_act.simps [simp del]

record delegation_claims =
  dc_sub :: string
  dc_jti :: string
  dc_iat :: int
  dc_exp :: int
  dc_cnf :: "string option"
  dc_act :: "act_claim option"

definition read_delegation_claims :: "jvalue \<Rightarrow> delegation_claims option" where
  "read_delegation_claims v =
     Option.bind (struct_members [''sub'', ''jti'', ''iat'', ''exp'', ''cnf'', ''act''] v) (\<lambda>m.
     Option.bind (read_string (m ''sub'')) (\<lambda>sub.
     Option.bind (read_string (m ''jti'')) (\<lambda>jti.
     Option.bind (read_int (m ''iat'')) (\<lambda>iat.
     Option.bind (Option.bind (m ''exp'') as_i64) (\<lambda>exp.
     Option.bind (read_optional read_confirmation (m ''cnf'')) (\<lambda>cnf.
     map_option (\<lambda>act. \<lparr>dc_sub = sub, dc_jti = jti, dc_iat = iat, dc_exp = exp, dc_cnf = cnf, dc_act = act\<rparr>)
       (read_optional read_act (m ''act''))))))))"

record access_claims =
  ac_sub :: string
  ac_jti :: string
  ac_iat :: int
  ac_exp :: int
  ac_cnf :: "string option"
  ac_act :: "act_claim option"
  ac_client_id :: string
  ac_scope :: "string option"

definition read_access_claims :: "jvalue \<Rightarrow> access_claims option" where
  "read_access_claims v =
     Option.bind (struct_members
       [''sub'', ''jti'', ''iat'', ''exp'', ''cnf'', ''act'', ''client_id'', ''scope''] v) (\<lambda>m.
     Option.bind (read_string (m ''sub'')) (\<lambda>sub.
     Option.bind (read_string (m ''jti'')) (\<lambda>jti.
     Option.bind (read_int (m ''iat'')) (\<lambda>iat.
     Option.bind (Option.bind (m ''exp'') as_i64) (\<lambda>exp.
     Option.bind (read_optional read_confirmation (m ''cnf'')) (\<lambda>cnf.
     Option.bind (read_optional read_act (m ''act'')) (\<lambda>act.
     Option.bind (read_string (m ''client_id'')) (\<lambda>client.
     map_option (\<lambda>scope. \<lparr>ac_sub = sub, ac_jti = jti, ac_iat = iat, ac_exp = exp, ac_cnf = cnf, ac_act = act,
         ac_client_id = client, ac_scope = scope\<rparr>)
       (read_optional as_str (m ''scope''))))))))))"

record agent_token_claims =
  gc_sub :: string
  gc_client_id :: string
  gc_jti :: string
  gc_iat :: int
  gc_exp :: int
  gc_cnf :: "string option"
  gc_act :: "jvalue option"
  gc_unit :: string
  gc_org :: string

definition read_agent_claims :: "jvalue \<Rightarrow> agent_token_claims option" where
  "read_agent_claims v =
     Option.bind (struct_members
       [''sub'', ''client_id'', ''jti'', ''iat'', ''exp'', ''cnf'', ''act'', ''unit'', ''org''] v) (\<lambda>m.
     Option.bind (read_string (m ''sub'')) (\<lambda>sub.
     Option.bind (read_string (m ''client_id'')) (\<lambda>client.
     Option.bind (read_string (m ''jti'')) (\<lambda>jti.
     Option.bind (read_int (m ''iat'')) (\<lambda>iat.
     Option.bind (Option.bind (m ''exp'') as_i64) (\<lambda>exp.
     Option.bind (read_optional read_confirmation (m ''cnf'')) (\<lambda>cnf.
     Option.bind (read_optional Some (m ''act'')) (\<lambda>act.
     Option.bind (read_string (m ''unit'')) (\<lambda>unit.
     map_option (\<lambda>org. \<lparr>gc_sub = sub, gc_client_id = client, gc_jti = jti, gc_iat = iat, gc_exp = exp,
         gc_cnf = cnf, gc_act = act, gc_unit = unit, gc_org = org\<rparr>)
       (read_string (m ''org'')))))))))))"

section \<open>Keys and configuration\<close>

text \<open>\<open>JwkSet::find\<close>: the first key with that \<open>kid\<close>.\<close>

definition find_key :: "string \<Rightarrow> jwk list \<Rightarrow> jwk option" where
  "find_key kid keys = List.find (\<lambda>k. jk_kid k = Some kid) keys"

datatype key_source = Fixed_keys "jwk list" | Live_keys "jwk list"

fun source_find :: "key_source \<Rightarrow> string \<Rightarrow> jwk option" where
  "source_find (Fixed_keys keys) kid = find_key kid keys"
| "source_find (Live_keys keys) kid = find_key kid keys"

fun key_count :: "key_source \<Rightarrow> nat" where
  "key_count (Fixed_keys keys) = length keys"
| "key_count (Live_keys keys) = length keys"

datatype key_set_error = Key_set_too_long nat | Not_a_jwks | No_keys

definition parse_key_set :: "(string \<Rightarrow> jwk list option) \<Rightarrow> string \<Rightarrow> nat \<Rightarrow> (jwk list, key_set_error) res" where
  "parse_key_set parse_jwks raw max_bytes =
     (if max_bytes < length raw then Inl (Key_set_too_long (length raw))
      else case parse_jwks raw of
        None \<Rightarrow> Inl Not_a_jwks
      | Some keys \<Rightarrow> if keys = [] then Inl No_keys else Inr keys)"

record delegation_config =
  df_jwks :: key_source
  df_issuer :: string
  df_audience :: string

section \<open>Refusals and the shared decode path\<close>

datatype token_refusal =
    Malformed_token | Bad_signature | Wrong_issuer | Wrong_audience | Expired_token | Not_bound | No_proof
  | Wrong_key | Token_revoked | Not_yet_valid

fun decode_refusal :: "decode_error \<Rightarrow> token_refusal" where
  "decode_refusal Invalid_issuer = Wrong_issuer"
| "decode_refusal Invalid_audience = Wrong_audience"
| "decode_refusal Other_error = Bad_signature"

definition decode_claims ::
  "jws_lib \<Rightarrow> delegation_config \<Rightarrow> (jvalue \<Rightarrow> 'c option) \<Rightarrow> string \<Rightarrow> bool \<Rightarrow> ('c, token_refusal) res" where
  "decode_claims lib cfg rd token require_audience =
     (case jl_header lib token of
        None \<Rightarrow> Inl Malformed_token
      | Some header \<Rightarrow>
          case jh_kid header of
            None \<Rightarrow> Inl Malformed_token
          | Some kid \<Rightarrow>
              case source_find (df_jwks cfg) kid of
                None \<Rightarrow> Inl Bad_signature
              | Some k \<Rightarrow>
                  case algorithms_for_key k of
                    None \<Rightarrow> Inl Bad_signature
                  | Some algs \<Rightarrow>
                      if \<not> jl_key_ok lib k then Inl Bad_signature
                      else if df_audience cfg = [] \<and> require_audience then Inl Wrong_audience
                      else case jl_decode lib
                          \<lparr>va_algorithms = algs, va_required = [''exp'', ''iss''],
                           va_issuer = Some (df_issuer cfg),
                           va_audience = (if df_audience cfg = [] then None else Some (df_audience cfg))\<rparr>
                          k token of
                        Inl e \<Rightarrow> Inl (decode_refusal e)
                      | Inr v \<Rightarrow> (case rd v of None \<Rightarrow> Inl Bad_signature | Some c \<Rightarrow> Inr c))"

section \<open>The chain\<close>

definition MAX_CHAIN_ENTRIES :: nat where "MAX_CHAIN_ENTRIES = 32"
definition MAX_ACTORS_WITH_SUBJECT :: nat where "MAX_ACTORS_WITH_SUBJECT = MAX_CHAIN_ENTRIES - 1"

function collect_actors :: "nat \<Rightarrow> act_claim option \<Rightarrow> string list \<Rightarrow> (string list, token_refusal) res" where
  "collect_actors budget None acc = Inr acc"
| "collect_actors budget (Some a) acc =
     (if budget \<le> length acc then Inl Malformed_token
      else if act_sub a = [] then Inl Malformed_token
      else collect_actors budget (act_next a) (acc @ [act_sub a]))"
  by pat_completeness auto
termination
proof (relation "measure (\<lambda>(_, a, _). size_option size a)")
  show "((budget, act_next a, acc @ [act_sub a]), (budget, Some a, acc)) \<in> measure (\<lambda>(_, a, _). size_option size a)"
    for budget :: nat and a acc by (cases a) simp
qed simp

fun check_entries :: "string list \<Rightarrow> string list \<Rightarrow> bool" where
  "check_entries seen [] \<longleftrightarrow> True"
| "check_entries seen (e # es) \<longleftrightarrow>
     e \<notin> set seen \<and> (starts_with ''agent://'' e \<or> starts_with ''user://'' e) \<and> check_entries (e # seen) es"

definition token_chain :: "string \<Rightarrow> act_claim option \<Rightarrow> (string list, token_refusal) res" where
  "token_chain sub act =
     (case collect_actors (if sub = [] then MAX_CHAIN_ENTRIES else MAX_ACTORS_WITH_SUBJECT) act [] of
        Inl e \<Rightarrow> Inl e
      | Inr current_first \<Rightarrow>
          let chain = (if sub = [] then [] else [sub]) @ rev current_first
          in if check_entries [] chain then Inr chain else Inl Malformed_token)"

definition names_agent :: "string \<Rightarrow> bool" where
  "names_agent leaf = (case strip_prefix ''agent://'' leaf of None \<Rightarrow> False | Some rest \<Rightarrow> rest \<noteq> [])"

section \<open>Delegation tokens\<close>

type_synonym revoked_check = "string \<Rightarrow> string \<Rightarrow> int \<Rightarrow> bool"

definition AGENT_TOKEN_TYP :: string where "AGENT_TOKEN_TYP = ''at+jwt''"
definition AGENT_TOKEN_LEEWAY_SECS :: int where "AGENT_TOKEN_LEEWAY_SECS = 30"

definition is_agent_token :: "jws_lib \<Rightarrow> string \<Rightarrow> bool" where
  "is_agent_token lib token \<longleftrightarrow> Option.bind (jl_header lib token) jh_typ = Some AGENT_TOKEN_TYP"

record verified_delegation =
  vd_subject :: string
  vd_chain :: "string list"
  vd_jkt :: string
  vd_jti :: string
  vd_issued_at :: int
  vd_expires_at :: int
  vd_proof_jti :: string
  vd_proof_ath :: "string option"

text \<open>\<open>cnf.jkt\<close>, when it names a key.\<close>

definition bound_key :: "string option \<Rightarrow> (string, token_refusal) res" where
  "bound_key cnf = (case cnf of Some j \<Rightarrow> if j = [] then Inl Not_bound else Inr j | None \<Rightarrow> Inl Not_bound)"

definition present_proof ::
  "jws_lib \<Rightarrow> string option \<Rightarrow> string \<Rightarrow> string \<Rightarrow> int \<Rightarrow> (verified_proof, token_refusal) res" where
  "present_proof lib proof meth url now =
     (case proof of
        None \<Rightarrow> Inl No_proof
      | Some p \<Rightarrow> (case verify_proof lib p meth url now of Inl _ \<Rightarrow> Inl Wrong_key | Inr v \<Rightarrow> Inr v))"

definition verify_delegation ::
  "jws_lib \<Rightarrow> delegation_config \<Rightarrow> string \<Rightarrow> string option \<Rightarrow> string \<Rightarrow> string \<Rightarrow> int \<Rightarrow> revoked_check \<Rightarrow>
     (verified_delegation, token_refusal) res" where
  "verify_delegation lib cfg token proof meth url now revoked =
     (if is_agent_token lib token then Inl Malformed_token
      else case decode_claims lib cfg read_delegation_claims token False of
        Inl e \<Rightarrow> Inl e
      | Inr c \<Rightarrow>
          if dc_exp c \<le> now then Inl Expired_token
          else if dc_sub c = [] \<or> dc_jti c = [] then Inl Malformed_token
          else case bound_key (dc_cnf c) of
            Inl e \<Rightarrow> Inl e
          | Inr jkt \<Rightarrow>
              case present_proof lib proof meth url now of
                Inl e \<Rightarrow> Inl e
              | Inr presented \<Rightarrow>
                  if vp_jkt presented \<noteq> jkt then Inl Wrong_key
                  else case token_chain (dc_sub c) (dc_act c) of
                    Inl e \<Rightarrow> Inl e
                  | Inr chain \<Rightarrow>
                      if list_ex (\<lambda>party. revoked (dc_jti c) party (dc_iat c)) chain then Inl Token_revoked
                      else Inr \<lparr>vd_subject = dc_sub c, vd_chain = chain, vd_jkt = jkt, vd_jti = dc_jti c,
                        vd_issued_at = dc_iat c, vd_expires_at = dc_exp c, vd_proof_jti = vp_jti presented,
                        vd_proof_ath = vp_ath presented\<rparr>)"

section \<open>Access tokens\<close>

record verified_access =
  vx_subject :: string
  vx_agent :: string
  vx_chain :: "string list"
  vx_client_id :: string
  vx_jti :: string
  vx_issued_at :: int
  vx_expires_at :: int
  vx_scope :: "string option"

definition verify_access_token ::
  "jws_lib \<Rightarrow> delegation_config \<Rightarrow> string \<Rightarrow> int \<Rightarrow> revoked_check \<Rightarrow> (verified_access, token_refusal) res" where
  "verify_access_token lib cfg token now revoked =
     (case decode_claims lib cfg read_access_claims token True of
        Inl e \<Rightarrow> Inl e
      | Inr c \<Rightarrow>
          if ac_exp c \<le> now then Inl Expired_token
          else if ac_sub c = [] \<or> ac_jti c = [] then Inl Malformed_token
          else if ac_client_id c = [] then Inl Malformed_token
          else if ac_cnf c \<noteq> None then Inl No_proof
          else if ac_act c = None then Inl Malformed_token
          else case token_chain (ac_sub c) (ac_act c) of
            Inl e \<Rightarrow> Inl e
          | Inr chain \<Rightarrow>
              if length chain < 2 \<or> \<not> names_agent (last chain) then Inl Malformed_token
              else if list_ex (\<lambda>party. revoked (ac_jti c) party (ac_iat c)) chain then Inl Token_revoked
              else Inr \<lparr>vx_subject = ac_sub c, vx_agent = last chain, vx_chain = chain,
                vx_client_id = ac_client_id c, vx_jti = ac_jti c, vx_issued_at = ac_iat c,
                vx_expires_at = ac_exp c, vx_scope = ac_scope c\<rparr>)"

section \<open>An agent's own token\<close>

record verified_agent =
  ag_subject :: string
  ag_unit :: string
  ag_org :: string
  ag_jti :: string
  ag_jkt :: string
  ag_proof_jti :: string
  ag_issued_at :: int
  ag_expires_at :: int

definition agent_claims ::
  "jws_lib \<Rightarrow> delegation_config \<Rightarrow> string \<Rightarrow> int \<Rightarrow> (agent_token_claims \<times> string, token_refusal) res" where
  "agent_claims lib cfg token now =
     (case jl_header lib token of
        None \<Rightarrow> Inl Malformed_token
      | Some header \<Rightarrow>
          if jh_typ header \<noteq> Some AGENT_TOKEN_TYP then Inl Malformed_token
          else case decode_claims lib cfg read_agent_claims token True of
            Inl e \<Rightarrow> Inl e
          | Inr c \<Rightarrow>
              if sat_i64 (gc_exp c + AGENT_TOKEN_LEEWAY_SECS) \<le> now then Inl Expired_token
              else if sat_i64 (now + AGENT_TOKEN_LEEWAY_SECS) < gc_iat c then Inl Not_yet_valid
              else if \<not> names_agent (gc_sub c) \<or> gc_client_id c \<noteq> gc_sub c \<or> gc_jti c = [] \<or> gc_act c \<noteq> None
              then Inl Malformed_token
              else case bound_key (gc_cnf c) of
                Inl e \<Rightarrow> Inl e
              | Inr jkt \<Rightarrow> Inr (c, jkt))"

definition agent_of :: "agent_token_claims \<Rightarrow> string \<Rightarrow> string \<Rightarrow> verified_agent" where
  "agent_of c jkt proof_jti =
     \<lparr>ag_subject = gc_sub c, ag_unit = gc_unit c, ag_org = gc_org c, ag_jti = gc_jti c, ag_jkt = jkt,
      ag_proof_jti = proof_jti, ag_issued_at = gc_iat c, ag_expires_at = gc_exp c\<rparr>"

definition verify_agent_token ::
  "jws_lib \<Rightarrow> delegation_config \<Rightarrow> string \<Rightarrow> string option \<Rightarrow> string \<Rightarrow> string \<Rightarrow> int \<Rightarrow> revoked_check \<Rightarrow>
     (verified_agent, token_refusal) res" where
  "verify_agent_token lib cfg token proof meth url now revoked =
     (case agent_claims lib cfg token now of
        Inl e \<Rightarrow> Inl e
      | Inr (c, jkt) \<Rightarrow>
          case present_proof lib proof meth url now of
            Inl e \<Rightarrow> Inl e
          | Inr presented \<Rightarrow>
              if vp_jkt presented \<noteq> jkt then Inl Wrong_key
              else if vp_ath presented \<noteq> Some (access_token_hash lib token) then Inl Wrong_key
              else if revoked (gc_jti c) (gc_sub c) (gc_iat c) then Inl Token_revoked
              else Inr (agent_of c jkt (vp_jti presented)))"

definition verify_relayed_agent_token ::
  "jws_lib \<Rightarrow> delegation_config \<Rightarrow> string \<Rightarrow> int \<Rightarrow> revoked_check \<Rightarrow> (verified_agent, token_refusal) res" where
  "verify_relayed_agent_token lib cfg token now revoked =
     (case agent_claims lib cfg token now of
        Inl e \<Rightarrow> Inl e
      | Inr (c, jkt) \<Rightarrow>
          if revoked (gc_jti c) (gc_sub c) (gc_iat c) then Inl Token_revoked
          else Inr (agent_of c jkt []))"

text \<open>
  What a verified token establishes: its chain in full, every check of an accepted token by name, and that
  the three verifiers accept disjoint sets of tokens.
\<close>

section \<open>The chain\<close>

function actors_of :: "act_claim option \<Rightarrow> string list" where
  "actors_of None = []"
| "actors_of (Some a) = act_sub a # actors_of (act_next a)"
  by pat_completeness auto
termination
proof (relation "measure (size_option size)")
  show "(act_next a, Some a) \<in> measure (size_option size)" for a by (cases a) simp
qed simp

definition entry_scheme :: "string \<Rightarrow> bool" where
  "entry_scheme e \<longleftrightarrow> starts_with ''agent://'' e \<or> starts_with ''user://'' e"

lemma entry_scheme_nonempty [simp]: "\<not> entry_scheme []"
  by (simp add: entry_scheme_def starts_with_def)

text \<open>The chain agent-passport writes: the subject, when there is one, and the actors from the root on.\<close>

definition chain_entries :: "string \<Rightarrow> act_claim option \<Rightarrow> string list" where
  "chain_entries sub act = (if sub = [] then [] else [sub]) @ rev (actors_of act)"

definition proper_chain :: "string list \<Rightarrow> bool" where
  "proper_chain chain \<longleftrightarrow> length chain \<le> MAX_CHAIN_ENTRIES \<and> distinct chain \<and> list_all entry_scheme chain"

lemma collect_actors_eq:
  "length acc \<le> budget \<Longrightarrow> collect_actors budget act acc =
     (if length acc + length (actors_of act) \<le> budget \<and> [] \<notin> set (actors_of act)
      then Inr (acc @ actors_of act) else Inl Malformed_token)"
  by (induction budget act acc rule: collect_actors.induct) auto

lemma check_entries_eq:
  "check_entries seen es \<longleftrightarrow> distinct es \<and> set es \<inter> set seen = {} \<and> list_all entry_scheme es"
  by (induction seen es rule: check_entries.induct) (auto simp: entry_scheme_def)

lemma token_chain_eq:
  "token_chain sub act =
     (if proper_chain (chain_entries sub act) then Inr (chain_entries sub act) else Inl Malformed_token)"
proof -
  have "list_all entry_scheme (rev (actors_of act)) \<Longrightarrow> [] \<notin> set (actors_of act)"
    by (auto simp: list_all_iff)
  then show ?thesis
    by (auto simp: token_chain_def collect_actors_eq check_entries_eq proper_chain_def chain_entries_def Let_def
        MAX_ACTORS_WITH_SUBJECT_def MAX_CHAIN_ENTRIES_def)
qed

section \<open>An accepted token, check by check\<close>

lemma decode_claims_ok:
  assumes "decode_claims lib cfg rd token req = Inr c"
  obtains header kid k algs payload
  where "jl_header lib token = Some header" "jh_kid header = Some kid"
    and "source_find (df_jwks cfg) kid = Some k" "algorithms_for_key k = Some algs" "jl_key_ok lib k"
    and "req \<longrightarrow> df_audience cfg \<noteq> []"
    and "jl_decode lib \<lparr>va_algorithms = algs, va_required = [''exp'', ''iss''],
           va_issuer = Some (df_issuer cfg),
           va_audience = (if df_audience cfg = [] then None else Some (df_audience cfg))\<rparr> k token = Inr payload"
    and "rd payload = Some c"
  using assms unfolding decode_claims_def
  by (auto split: option.splits if_splits sum.splits)

lemma bound_key_ok: "bound_key cnf = Inr j \<longleftrightarrow> cnf = Some j \<and> j \<noteq> []"
  by (auto simp: bound_key_def split: option.splits if_splits)

lemma bound_key_simps [simp]: "bound_key None = Inl Not_bound" "bound_key (Some j) = (if j = [] then Inl Not_bound else Inr j)"
  by (simp_all add: bound_key_def)

lemma as_i64_some: "as_i64 x = Some i \<Longrightarrow> x = JNum (Whole i) \<and> in_i64 i"
  by (cases x rule: as_i64.cases) (auto split: if_splits)

lemma present_proof_ok:
  "present_proof lib proof m u now = Inr v \<longleftrightarrow> (\<exists>p. proof = Some p \<and> verify_proof lib p m u now = Inr v)"
  by (auto simp: present_proof_def split: option.splits sum.splits)

lemma verify_delegation_ok:
  "verify_delegation lib cfg token proof m u now revoked = Inr v \<longleftrightarrow>
     \<not> is_agent_token lib token \<and>
     (\<exists>c p. decode_claims lib cfg read_delegation_claims token False = Inr c
        \<and> now < dc_exp c \<and> dc_sub c \<noteq> [] \<and> dc_jti c \<noteq> [] \<and> dc_cnf c = Some (vd_jkt v) \<and> vd_jkt v \<noteq> []
        \<and> present_proof lib proof m u now = Inr p \<and> vp_jkt p = vd_jkt v
        \<and> proper_chain (chain_entries (dc_sub c) (dc_act c))
        \<and> (\<forall>party \<in> set (chain_entries (dc_sub c) (dc_act c)). \<not> revoked (dc_jti c) party (dc_iat c))
        \<and> v = \<lparr>vd_subject = dc_sub c, vd_chain = chain_entries (dc_sub c) (dc_act c), vd_jkt = vd_jkt v,
             vd_jti = dc_jti c, vd_issued_at = dc_iat c, vd_expires_at = dc_exp c, vd_proof_jti = vp_jti p,
             vd_proof_ath = vp_ath p\<rparr>)"
  unfolding verify_delegation_def token_chain_eq
  by (auto simp: bound_key_ok list_ex_iff not_le split: sum.splits if_splits)

lemma agent_claims_ok:
  "agent_claims lib cfg token now = Inr (c, jkt) \<longleftrightarrow>
     is_agent_token lib token \<and> decode_claims lib cfg read_agent_claims token True = Inr c
     \<and> now < sat_i64 (gc_exp c + AGENT_TOKEN_LEEWAY_SECS)
     \<and> gc_iat c \<le> sat_i64 (now + AGENT_TOKEN_LEEWAY_SECS)
     \<and> names_agent (gc_sub c) \<and> gc_client_id c = gc_sub c \<and> gc_jti c \<noteq> [] \<and> gc_act c = None
     \<and> gc_cnf c = Some jkt \<and> jkt \<noteq> []"
  unfolding agent_claims_def is_agent_token_def
  by (auto simp: bound_key_ok not_le not_less split: option.splits sum.splits if_splits)

lemma verify_agent_token_ok:
  "verify_agent_token lib cfg token proof m u now revoked = Inr a \<longleftrightarrow>
     (\<exists>c jkt p. agent_claims lib cfg token now = Inr (c, jkt) \<and> present_proof lib proof m u now = Inr p
        \<and> vp_jkt p = jkt \<and> vp_ath p = Some (access_token_hash lib token)
        \<and> \<not> revoked (gc_jti c) (gc_sub c) (gc_iat c) \<and> a = agent_of c jkt (vp_jti p))"
  unfolding verify_agent_token_def by (auto split: sum.splits if_splits)

lemma verify_relayed_ok:
  "verify_relayed_agent_token lib cfg token now revoked = Inr a \<longleftrightarrow>
     (\<exists>c jkt. agent_claims lib cfg token now = Inr (c, jkt)
        \<and> \<not> revoked (gc_jti c) (gc_sub c) (gc_iat c) \<and> a = agent_of c jkt [])"
  unfolding verify_relayed_agent_token_def by (auto split: sum.splits if_splits)

lemma verify_access_ok:
  assumes "verify_access_token lib cfg token now revoked = Inr v"
  obtains c where "decode_claims lib cfg read_access_claims token True = Inr c" "now < ac_exp c"
    and "ac_client_id c \<noteq> []" "ac_cnf c = None" "ac_act c \<noteq> None" "vx_chain v = chain_entries (ac_sub c) (ac_act c)"
    and "proper_chain (vx_chain v)" "names_agent (vx_agent v)" "vx_agent v = last (vx_chain v)"
    and "\<forall>party \<in> set (vx_chain v). \<not> revoked (ac_jti c) party (ac_iat c)"
  using assms unfolding verify_access_token_def token_chain_eq
  by (auto simp: list_ex_iff not_le split: sum.splits if_splits)

section \<open>One door for each token\<close>

text \<open>What the library documents of a decoded token: its claims are the token's payload.\<close>

definition decodes_payload :: "jws_lib \<Rightarrow> bool" where
  "decodes_payload lib \<longleftrightarrow> (\<forall>v k t c. jl_decode lib v k t = Inr c \<longrightarrow> jl_payload lib t = Some c)"

lemma read_optional_some: "read_optional rd v = Some (Some x) \<Longrightarrow> \<exists>w. v = Some w \<and> w \<noteq> JNull"
  by (auto simp: read_optional_def split: option.splits json.splits)

lemma read_optional_none: "read_optional rd v = Some None \<Longrightarrow> v = None \<or> v = Some JNull"
  by (auto simp: read_optional_def split: option.splits json.splits)

lemma bind_some: "Option.bind x f = Some y \<longleftrightarrow> (\<exists>z. x = Some z \<and> f z = Some y)"
  by (cases x) auto

lemma delegation_access_disjoint:
  assumes "read_delegation_claims v = Some c" and "dc_cnf c = Some j"
    and "read_access_claims v = Some d" and "ac_cnf d = None"
  shows False
proof -
  from assms(1,2) obtain m where
    m: "struct_members [''sub'', ''jti'', ''iat'', ''exp'', ''cnf'', ''act''] v = Some m"
       "read_optional read_confirmation (m ''cnf'') = Some (Some j)"
    by (auto simp: read_delegation_claims_def bind_some)
  from assms(3,4) obtain n where
    n: "struct_members [''sub'', ''jti'', ''iat'', ''exp'', ''cnf'', ''act'', ''client_id'', ''scope''] v = Some n"
       "read_optional read_confirmation (n ''cnf'') = Some None"
    by (auto simp: read_access_claims_def bind_some)
  have "m ''cnf'' = n ''cnf''"
    using m(1) n(1)
    by (auto simp: struct_members_def zip_Cons1 split: json.splits if_splits list.splits)
  with read_optional_some [OF m(2)] read_optional_none [OF n(2)] show False by auto
qed

lemma agent_access_disjoint:
  assumes "read_agent_claims v = Some c" and "gc_cnf c = Some j"
    and "read_access_claims v = Some d" and "ac_cnf d = None"
  shows False
proof -
  from assms(1,2) obtain m where
    m: "struct_members [''sub'', ''client_id'', ''jti'', ''iat'', ''exp'', ''cnf'', ''act'', ''unit'', ''org''] v = Some m"
       "read_optional read_confirmation (m ''cnf'') = Some (Some j)" "m ''exp'' \<noteq> None" "m ''exp'' \<noteq> Some JNull"
    by (auto simp: read_agent_claims_def bind_some dest: as_i64_some)
  from assms(3,4) obtain n where
    n: "struct_members [''sub'', ''jti'', ''iat'', ''exp'', ''cnf'', ''act'', ''client_id'', ''scope''] v = Some n"
       "read_optional read_confirmation (n ''cnf'') = Some None"
    by (auto simp: read_access_claims_def bind_some)
  have "m ''cnf'' = n ''cnf'' \<or> m ''exp'' = n ''cnf''"
    using m(1) n(1)
    by (auto simp: struct_members_def zip_Cons1 split: json.splits if_splits list.splits)
  with m(3,4) read_optional_some [OF m(2)] read_optional_none [OF n(2)] show False by auto
qed

text \<open>The three kinds of token no two verifiers share, whatever their configurations.\<close>

lemma delegation_not_agent:
  "verify_delegation lib cfg t p m u now r = Inr v \<Longrightarrow> agent_claims lib cfg' t now' \<noteq> Inr x"
  by (cases x) (auto simp: verify_delegation_ok agent_claims_ok)

lemma delegation_not_access:
  assumes "decodes_payload lib" and "verify_delegation lib cfg t p m u now r = Inr v"
  shows "verify_access_token lib cfg' t now' r' \<noteq> Inr w"
proof
  assume w: "verify_access_token lib cfg' t now' r' = Inr w"
  from assms(2) obtain c where c: "decode_claims lib cfg read_delegation_claims t False = Inr c" "dc_cnf c = Some (vd_jkt v)"
    by (auto simp: verify_delegation_ok)
  from verify_access_ok [OF w] obtain d where d: "decode_claims lib cfg' read_access_claims t True = Inr d" "ac_cnf d = None" .
  from decode_claims_ok [OF c(1)] decode_claims_ok [OF d(1)] assms(1)
  obtain x where "read_delegation_claims x = Some c" "read_access_claims x = Some d"
    unfolding decodes_payload_def by (metis option.inject)
  with delegation_access_disjoint c(2) d(2) show False by blast
qed

lemma agent_not_access:
  assumes "decodes_payload lib" and "agent_claims lib cfg t now = Inr (c, jkt)"
  shows "verify_access_token lib cfg' t now' r' \<noteq> Inr w"
proof
  assume w: "verify_access_token lib cfg' t now' r' = Inr w"
  from assms(2) have c: "decode_claims lib cfg read_agent_claims t True = Inr c" "gc_cnf c = Some jkt"
    by (auto simp: agent_claims_ok)
  from verify_access_ok [OF w] obtain d where d: "decode_claims lib cfg' read_access_claims t True = Inr d" "ac_cnf d = None" .
  from decode_claims_ok [OF c(1)] decode_claims_ok [OF d(1)] assms(1)
  obtain x where "read_agent_claims x = Some c" "read_access_claims x = Some d"
    unfolding decodes_payload_def by (metis option.inject)
  with agent_access_disjoint c(2) d(2) show False by blast
qed

end
