(* ===== verification/Revocation_List.thy ===== *)
theory Revocation_List
  imports Delegation
begin

text \<open>
  \<open>crates/delegation/src/revocations.rs\<close> and \<open>crates/gateway/src/revocations.rs\<close>: the revocation list held
  locally, what its age means, and the poller that fills it. The fetch is what the network answered; JSON
  parsing is an argument that gives a \<open>Value\<close>, in which each name stands once. Log lines are left out.
\<close>

section \<open>The list\<close>

definition DEFAULT_MAX_AGE_SECS :: int where "DEFAULT_MAX_AGE_SECS = 60"

record revocation =
  rv_jti :: string
  rv_subject :: string
  rv_issued_before :: int
  rv_expires :: int

definition revocation_covers :: "revocation \<Rightarrow> string \<Rightarrow> string \<Rightarrow> int \<Rightarrow> bool" where
  "revocation_covers e jti subject issued_at \<longleftrightarrow>
     (if rv_jti e \<noteq> [] \<and> rv_jti e = jti then True
      else rv_subject e \<noteq> [] \<and> rv_subject e = subject \<and> issued_at \<le> rv_issued_before e)"

definition revocation_live_at :: "revocation \<Rightarrow> int \<Rightarrow> bool" where
  "revocation_live_at e now \<longleftrightarrow> rv_expires e = 0 \<or> now < rv_expires e"

record list_snapshot =
  sn_revocations :: "revocation list"
  sn_as_of :: int

definition read_revocation :: "jvalue \<Rightarrow> revocation option" where
  "read_revocation v =
     Option.bind (struct_members [''jti'', ''subject'', ''issued_before'', ''expires''] v) (\<lambda>m.
     Option.bind (read_string (m ''jti'')) (\<lambda>jti.
     Option.bind (read_string (m ''subject'')) (\<lambda>subject.
     Option.bind (read_int (m ''issued_before'')) (\<lambda>before.
     map_option (\<lambda>expires. \<lparr>rv_jti = jti, rv_subject = subject, rv_issued_before = before, rv_expires = expires\<rparr>)
       (read_int (m ''expires''))))))"

fun read_all :: "('a \<Rightarrow> 'b option) \<Rightarrow> 'a list \<Rightarrow> 'b list option" where
  "read_all rd [] = Some []"
| "read_all rd (x # xs) =
     (case rd x of None \<Rightarrow> None | Some y \<Rightarrow> map_option (\<lambda>ys. y # ys) (read_all rd xs))"

fun is_object :: "jvalue \<Rightarrow> bool" where
  "is_object (JObj _) = True"
| "is_object _ = False"

definition snapshot_from_json :: "(string \<Rightarrow> jvalue option) \<Rightarrow> string \<Rightarrow> list_snapshot option" where
  "snapshot_from_json parse_value raw =
     (case parse_value raw of
        None \<Rightarrow> None
      | Some v \<Rightarrow>
          if \<not> is_object v then None
          else case get_field ''revocations'' v of
            Some (JArr entries) \<Rightarrow>
              if list_ex (\<lambda>e. \<not> is_object e) entries then None
              else Option.bind (read_all read_revocation entries) (\<lambda>es.
                   map_option (\<lambda>as_of. \<lparr>sn_revocations = es, sn_as_of = as_of\<rparr>)
                     (read_int (get_field ''as_of'' v)))
          | _ \<Rightarrow> None)"

section \<open>The cache\<close>

datatype list_fail_mode = Fail_closed | Fail_open

fun list_refuses :: "list_fail_mode \<Rightarrow> bool" where
  "list_refuses Fail_closed = True"
| "list_refuses Fail_open = False"

datatype answer_basis = Basis_listed int | Basis_absent int | Basis_stale int | Basis_never

fun is_fallback :: "answer_basis \<Rightarrow> bool" where
  "is_fallback (Basis_stale _) = True"
| "is_fallback Basis_never = True"
| "is_fallback _ = False"

record revocation_answer =
  rw_revoked :: bool
  rw_basis :: answer_basis

datatype install_result = Install_applied | Install_backwards int int | Install_no_cursor

record revocations =
  rl_max_age :: int
  rl_fail_mode :: list_fail_mode
  rl_held :: "(list_snapshot \<times> int) option"
  rl_rejected_backwards :: nat

definition new_revocations :: "int \<Rightarrow> list_fail_mode \<Rightarrow> revocations" where
  "new_revocations max_age fail_mode =
     \<lparr>rl_max_age = max_age, rl_fail_mode = fail_mode, rl_held = None, rl_rejected_backwards = 0\<rparr>"

definition install_list :: "list_snapshot \<Rightarrow> int \<Rightarrow> revocations \<Rightarrow> install_result \<times> revocations" where
  "install_list s now c =
     (if sn_as_of s \<le> 0 then (Install_no_cursor, c)
      else case rl_held c of
        Some (held, _) \<Rightarrow>
          if sn_as_of s < sn_as_of held
          then (Install_backwards (sn_as_of held) (sn_as_of s),
                c\<lparr>rl_rejected_backwards := wrap_succ_u64 (rl_rejected_backwards c)\<rparr>)
          else (Install_applied, c\<lparr>rl_held := Some (s, now)\<rparr>)
      | None \<Rightarrow> (Install_applied, c\<lparr>rl_held := Some (s, now)\<rparr>))"

definition check_revoked :: "revocations \<Rightarrow> string \<Rightarrow> string \<Rightarrow> int \<Rightarrow> int \<Rightarrow> revocation_answer" where
  "check_revoked c jti subject issued_at now =
     (case rl_held c of
        None \<Rightarrow> \<lparr>rw_revoked = list_refuses (rl_fail_mode c), rw_basis = Basis_never\<rparr>
      | Some (held, fetched_at) \<Rightarrow>
          let age = wrap_i64 (now - fetched_at)
          in if list_ex (\<lambda>e. revocation_live_at e now \<and> revocation_covers e jti subject issued_at)
                  (sn_revocations held)
             then \<lparr>rw_revoked = True, rw_basis = Basis_listed age\<rparr>
             else if age \<le> rl_max_age c then \<lparr>rw_revoked = False, rw_basis = Basis_absent age\<rparr>
             else \<lparr>rw_revoked = list_refuses (rl_fail_mode c), rw_basis = Basis_stale age\<rparr>)"

section \<open>The feed\<close>

text \<open>The closure both doors pass to a verifier; no feed is the check being off.\<close>

definition feed_hook :: "revocations option \<Rightarrow> int \<Rightarrow> revoked_check" where
  "feed_hook feed now jti subject issued_at =
     (case feed of None \<Rightarrow> False | Some c \<Rightarrow> rw_revoked (check_revoked c jti subject issued_at now))"

definition MAX_SNAPSHOT_BYTES :: nat where "MAX_SNAPSHOT_BYTES = 4 * 1048576"
definition DEFAULT_INTERVAL_MS :: nat where "DEFAULT_INTERVAL_MS = 12000"

text \<open>What a poll got: nothing, or a status and a body, which may not be UTF-8.\<close>

datatype list_answer = No_answer | List_answer nat "string option"

datatype fetch_error = Fetch_unreachable | Fetch_status nat | Fetch_broken | Fetch_too_long nat | Fetch_not_utf8
  | Fetch_not_snapshot

record list_library =
  ll_parse :: "string \<Rightarrow> jvalue option"
  ll_utf8 :: "string \<Rightarrow> bool"

definition fetch_snapshot :: "list_library \<Rightarrow> list_answer \<Rightarrow> (list_snapshot, fetch_error) res" where
  "fetch_snapshot lib got =
     (case got of
        No_answer \<Rightarrow> Inl Fetch_unreachable
      | List_answer status body \<Rightarrow>
          if \<not> (200 \<le> status \<and> status < 300) then Inl (Fetch_status status)
          else case body of
            None \<Rightarrow> Inl Fetch_broken
          | Some raw \<Rightarrow>
              if MAX_SNAPSHOT_BYTES < length raw then Inl (Fetch_too_long (length raw))
              else if \<not> ll_utf8 lib raw then Inl Fetch_not_utf8
              else case snapshot_from_json (ll_parse lib) raw of
                None \<Rightarrow> Inl Fetch_not_snapshot
              | Some s \<Rightarrow> Inr s)"

definition poll_once :: "list_library \<Rightarrow> int \<times> list_answer \<Rightarrow> revocations \<Rightarrow> revocations" where
  "poll_once lib p c =
     (case fetch_snapshot lib (snd p) of Inl _ \<Rightarrow> c | Inr s \<Rightarrow> snd (install_list s (fst p) c))"

text \<open>Start-up installs one list, or the process does not start; then the poller runs.\<close>

definition start_feed :: "list_library \<Rightarrow> int \<Rightarrow> list_fail_mode \<Rightarrow> int \<Rightarrow> list_answer \<Rightarrow> revocations option" where
  "start_feed lib max_age fail_mode now got =
     (case fetch_snapshot lib got of
        Inl _ \<Rightarrow> None
      | Inr s \<Rightarrow>
          (case install_list s now (new_revocations max_age fail_mode) of
             (Install_applied, c) \<Rightarrow> Some c
           | _ \<Rightarrow> None))"

fun run_polls :: "list_library \<Rightarrow> (int \<times> list_answer) list \<Rightarrow> revocations \<Rightarrow> revocations" where
  "run_polls lib [] c = c"
| "run_polls lib (p # ps) c = run_polls lib ps (poll_once lib p c)"

section \<open>Configuration\<close>

datatype wanted_list = List_off | List_on string nat int list_fail_mode | List_refused

definition read_i64 :: "string \<Rightarrow> int option" where
  "read_i64 s =
     (let (neg, ds) = (case s of
            c # cs \<Rightarrow> if c = CHR ''-'' then (True, cs) else if c = CHR ''+'' then (False, cs) else (False, s)
          | [] \<Rightarrow> (False, []))
      in if ds = [] \<or> \<not> list_all ascii_digit ds then None
         else let n = (if neg then - int (read_digits ds) else int (read_digits ds))
              in if in_i64 n then Some n else None)"

definition wanted_revocations :: "(string \<Rightarrow> string option) \<Rightarrow> bool \<Rightarrow> wanted_list" where
  "wanted_revocations env door_on =
     (let url = trim (or_else (env ''TOKENFUSE_DELEGATION_REVOCATIONS'') [])
      in if url = [] then List_off
      else if \<not> door_on then List_refused
      else if \<not> (starts_with ''http://'' url \<or> starts_with ''https://'' url) then List_refused
      else case (case env ''TOKENFUSE_DELEGATION_REVOCATIONS_INTERVAL_MS'' of
                   None \<Rightarrow> Some DEFAULT_INTERVAL_MS
                 | Some v \<Rightarrow> (case read_u64 (trim v) of Some n \<Rightarrow> if 0 < n then Some n else None | None \<Rightarrow> None)) of
        None \<Rightarrow> List_refused
      | Some interval \<Rightarrow>
          case (case env ''TOKENFUSE_DELEGATION_REVOCATIONS_MAX_AGE_SECS'' of
                  None \<Rightarrow> Some DEFAULT_MAX_AGE_SECS
                | Some v \<Rightarrow> read_i64 (trim v)) of
            None \<Rightarrow> List_refused
          | Some max_age \<Rightarrow>
              case env ''TOKENFUSE_DELEGATION_REVOCATIONS_FAILMODE'' of
                None \<Rightarrow> List_on url interval max_age Fail_closed
              | Some v \<Rightarrow>
                  let word = to_ascii_lowercase (trim v)
                  in if word = ''closed'' then List_on url interval max_age Fail_closed
                     else if word = ''open'' then List_on url interval max_age Fail_open
                     else List_refused)"

section \<open>What an answer rests on\<close>

text \<open>The snapshots a run of polls offered, with the clock at which each arrived.\<close>

definition offered :: "list_library \<Rightarrow> (int \<times> list_answer) list \<Rightarrow> (list_snapshot \<times> int) list" where
  "offered lib ps =
     concat (map (\<lambda>(t, got). case fetch_snapshot lib got of Inl _ \<Rightarrow> [] | Inr s \<Rightarrow> [(s, t)]) ps)"

lemma offered_simps [simp]:
  "offered lib [] = []"
  "offered lib (p # ps) = (case fetch_snapshot lib (snd p) of Inl _ \<Rightarrow> [] | Inr s \<Rightarrow> [(s, fst p)]) @ offered lib ps"
  by (simp_all add: offered_def case_prod_unfold)

text \<open>The list held is one that was offered, and no list offered with a later cursor was passed over.\<close>

definition latest_held :: "(list_snapshot \<times> int) list \<Rightarrow> revocations \<Rightarrow> bool" where
  "latest_held offers c \<longleftrightarrow>
     (case rl_held c of
        None \<Rightarrow> \<forall>(s, t) \<in> set offers. sn_as_of s \<le> 0
      | Some (held, at) \<Rightarrow> (held, at) \<in> set offers \<and> 0 < sn_as_of held
          \<and> (\<forall>(s, t) \<in> set offers. sn_as_of s \<le> sn_as_of held))"

lemma poll_latest:
  assumes "latest_held offers c"
  shows "latest_held (offers @ offered lib [p]) (poll_once lib p c)"
proof (cases "fetch_snapshot lib (snd p)")
  case (Inr s)
  then show ?thesis using assms
    by (auto simp: latest_held_def poll_once_def install_list_def split: option.splits if_splits)
qed (use assms in \<open>simp add: poll_once_def\<close>)

lemma run_polls_latest:
  "latest_held offers c \<Longrightarrow> latest_held (offers @ offered lib ps) (run_polls lib ps c)"
proof (induction ps arbitrary: offers c)
  case (Cons p ps)
  from Cons.IH [OF poll_latest [OF Cons.prems]] show ?case by simp
qed simp

lemma start_feed_latest:
  "start_feed lib max_age fm now got = Some c \<Longrightarrow> latest_held (offered lib [(now, got)]) c
     \<and> rl_max_age c = max_age \<and> rl_fail_mode c = fm"
  by (auto simp: start_feed_def install_list_def new_revocations_def latest_held_def
      split: sum.splits if_splits)

lemma poll_policy [simp]:
  "rl_max_age (poll_once lib p c) = rl_max_age c" "rl_fail_mode (poll_once lib p c) = rl_fail_mode c"
  by (auto simp: poll_once_def install_list_def split: sum.splits option.splits)

lemma run_polls_policy [simp]:
  "rl_max_age (run_polls lib ps c) = rl_max_age c" "rl_fail_mode (run_polls lib ps c) = rl_fail_mode c"
  by (induction ps arbitrary: c) auto

lemma not_revoked_closed:
  assumes "rl_fail_mode c = Fail_closed" and "\<not> feed_hook (Some c) now jti subject issued_at"
  obtains held at where "rl_held c = Some (held, at)" "wrap_i64 (now - at) \<le> rl_max_age c"
    and "\<forall>e \<in> set (sn_revocations held). revocation_live_at e now \<longrightarrow> \<not> revocation_covers e jti subject issued_at"
  using assms
  by (auto simp: feed_hook_def check_revoked_def Let_def list_ex_iff split: option.splits if_splits)

text \<open>A hit is a hit at any age and in either mode.\<close>

lemma hit_does_not_age:
  "rl_held c = Some (held, at) \<Longrightarrow> e \<in> set (sn_revocations held) \<Longrightarrow> revocation_live_at e now \<Longrightarrow>
     revocation_covers e jti subject issued_at \<Longrightarrow> feed_hook (Some c) now jti subject issued_at"
  by (auto simp: feed_hook_def check_revoked_def Let_def list_ex_iff)

end
