(* ===== verification/Client_Keys.thy ===== *)
theory Client_Keys
  imports Origin
begin

text \<open>
  \<open>crates/gateway/src/clientkeys.rs\<close> and the part of \<open>provider.rs\<close> that reads a credential out of a
  provider's own headers. SHA-256 is the argument \<open>sha\<close>; a table of digests is a map.
\<close>

section \<open>Headers\<close>

text \<open>A header's first value: text, or bytes that \<open>to_str\<close> refuses.\<close>

datatype field_value = Header_text string | Header_opaque

type_synonym headers = "string \<Rightarrow> field_value option"

definition header_str :: "headers \<Rightarrow> string \<Rightarrow> string option" where
  "header_str h name = (case h name of Some (Header_text s) \<Rightarrow> Some s | _ \<Rightarrow> None)"

section \<open>Client keys\<close>

definition CLIENT_KEY_HEADER :: string where "CLIENT_KEY_HEADER = ''x-fuse-key''"

record client_keys = ck_by_digest :: "(nat list \<times> string) list"

datatype spec_error = Empty_spec

fun rsplit_once :: "char \<Rightarrow> string \<Rightarrow> (string \<times> string) option" where
  "rsplit_once c [] = None"
| "rsplit_once c (x # xs) =
     (case rsplit_once c xs of
        Some (a, b) \<Rightarrow> Some (x # a, b)
      | None \<Rightarrow> if x = c then Some ([], xs) else None)"

definition read_key_entry :: "string \<Rightarrow> (string \<times> string) option" where
  "read_key_entry entry =
     (let entry = trim entry
      in if entry = [] then None
         else case rsplit_once (CHR '':'') entry of
           None \<Rightarrow> None
         | Some (secret, key_id) \<Rightarrow>
             if trim secret = [] \<or> trim key_id = [] then None else Some (trim secret, trim key_id))"

text \<open>A later entry with the same secret takes the earlier one's place.\<close>

definition put_digest :: "nat list \<Rightarrow> string \<Rightarrow> (nat list \<times> string) list \<Rightarrow> (nat list \<times> string) list" where
  "put_digest d key_id xs = (d, key_id) # filter (\<lambda>(e, _). e \<noteq> d) xs"

fun read_key_entries ::
  "(string \<Rightarrow> nat list) \<Rightarrow> string list \<Rightarrow> (nat list \<times> string) list \<Rightarrow> (nat list \<times> string) list" where
  "read_key_entries sha [] acc = acc"
| "read_key_entries sha (e # es) acc =
     read_key_entries sha es
       (case read_key_entry e of None \<Rightarrow> acc | Some (secret, key_id) \<Rightarrow> put_digest (sha secret) key_id acc)"

definition client_keys_from_spec :: "(string \<Rightarrow> nat list) \<Rightarrow> string \<Rightarrow> (client_keys, spec_error) res" where
  "client_keys_from_spec sha spec =
     (let trimmed = trim spec
      in if trimmed = [] then Inr \<lparr>ck_by_digest = []\<rparr>
         else let by_digest = read_key_entries sha (split_on (CHR '','') trimmed) []
              in if by_digest = [] then Inl Empty_spec else Inr \<lparr>ck_by_digest = by_digest\<rparr>)"

definition keys_enabled :: "client_keys \<Rightarrow> bool" where
  "keys_enabled k \<longleftrightarrow> ck_by_digest k \<noteq> []"

definition resolve_key :: "(string \<Rightarrow> nat list) \<Rightarrow> client_keys \<Rightarrow> string \<Rightarrow> string option" where
  "resolve_key sha k secret = map_of (ck_by_digest k) (sha secret)"

definition client_key_ids :: "client_keys \<Rightarrow> string list" where
  "client_key_ids k = map snd (ck_by_digest k)"

section \<open>A provider's own headers\<close>

text \<open>\<open>split_once(char::is_whitespace)\<close>.\<close>

fun split_at_white :: "string \<Rightarrow> (string \<times> string) option" where
  "split_at_white [] = None"
| "split_at_white (c # cs) =
     (if c \<in> set white1 then Some ([], cs)
      else if take 2 (c # cs) \<in> set white2 then Some ([], drop 1 cs)
      else if take 3 (c # cs) \<in> set white3 then Some ([], drop 2 cs)
      else map_option (\<lambda>(a, b). (c # a, b)) (split_at_white cs))"

definition eq_ignore_case :: "string \<Rightarrow> string \<Rightarrow> bool" where
  "eq_ignore_case a b \<longleftrightarrow> to_ascii_lowercase a = to_ascii_lowercase b"

definition caller_provider_credentials :: "headers \<Rightarrow> (string \<times> string) list" where
  "caller_provider_credentials h =
     (case header_str h ''x-api-key'' of
        None \<Rightarrow> []
      | Some v \<Rightarrow> if trim v = [] then [] else [(''x-api-key'', trim v)])
   @ (case header_str h ''authorization'' of
        None \<Rightarrow> []
      | Some v \<Rightarrow>
          let v = trim v;
              (scheme, rest) = (case split_at_white v of Some (s, r) \<Rightarrow> (s, trim r) | None \<Rightarrow> (v, []));
              token = (if eq_ignore_case scheme ''bearer'' then rest else v)
          in if eq_ignore_case scheme ''dpop'' \<or> token = [] then [] else [(''authorization'', token)])"

definition refused_caller_credential ::
  "(string \<Rightarrow> nat list) \<Rightarrow> bool \<Rightarrow> client_keys \<Rightarrow> headers \<Rightarrow> string option" where
  "refused_caller_credential sha brokered k h =
     (if \<not> brokered then None
      else map_option fst
        (List.find (\<lambda>(_, token). resolve_key sha k token = None) (caller_provider_credentials h)))"

definition gateway_credential_in_provider_headers ::
  "(string \<Rightarrow> nat list) \<Rightarrow> client_keys \<Rightarrow> headers \<Rightarrow> string option" where
  "gateway_credential_in_provider_headers sha k h =
     (case List.map_filter (\<lambda>(_, token). resolve_key sha k token) (caller_provider_credentials h) of
        [] \<Rightarrow> None
      | key_id # _ \<Rightarrow> Some key_id)"

section \<open>Every configured secret, and no other, is a key\<close>

text \<open>The last entry of a spec that names a secret decides its key id.\<close>

definition spec_lookup :: "string list \<Rightarrow> string \<Rightarrow> string option" where
  "spec_lookup es secret = map_of (rev (List.map_filter read_key_entry es)) secret"

lemma map_of_put_digest: "map_of (put_digest d k xs) = (map_of xs)(d \<mapsto> k)"
proof -
  have "map_of (filter (\<lambda>(e, _). e \<noteq> d) xs) x = (if x = d then None else map_of xs x)" for x
    by (induction xs) auto
  then show ?thesis by (auto simp: put_digest_def)
qed

lemma map_filter_simps:
  "List.map_filter f [] = []"
  "List.map_filter f (x # xs) = (case f x of None \<Rightarrow> [] | Some y \<Rightarrow> [y]) @ List.map_filter f xs"
  by (simp_all add: List.map_filter_def split: option.splits)

lemma read_key_entries_lookup:
  assumes "inj sha"
  shows "map_of (read_key_entries sha es acc) (sha secret)
       = (case spec_lookup es secret of Some k \<Rightarrow> Some k | None \<Rightarrow> map_of acc (sha secret))"
proof (induction es arbitrary: acc)
  case (Cons e es)
  then show ?case
    using assms
    by (auto simp: spec_lookup_def map_filter_simps map_of_put_digest map_add_def inj_eq
        split: option.splits)
qed (simp add: spec_lookup_def map_filter_simps)

text \<open>
  When no two secrets have one digest, a presented secret resolves exactly to the key id its entry
  names.
\<close>

lemma resolve_key_is_spec:
  assumes "inj sha" and "client_keys_from_spec sha spec = Inr k" and "trim spec \<noteq> []"
  shows "resolve_key sha k secret = spec_lookup (split_on (CHR '','') (trim spec)) secret"
  using assms read_key_entries_lookup [OF assms(1), of _ "[]" secret]
  by (auto simp: client_keys_from_spec_def resolve_key_def Let_def split: if_splits option.splits)

end
