(* ===== verification/Identity_Map.thy ===== *)
theory Identity_Map
  imports Origin Money "HOL-Library.List_Lexorder" "HOL-Library.Char_ord"
begin

text \<open>
  \<open>crates/gateway/src/identitymap.rs\<close>: which client key may speak as which agents, for which unit, and
  whose runs may be whose parents. The document is the parsed \<open>WireMap\<close>; a monthly budget is a float, of
  which the code asks whether it is finite and positive and what it is in microdollars. Message texts are
  left out. A \<open>HashMap\<close> filled once is an association list.
\<close>

section \<open>Strict mode\<close>

datatype strict_mode = Strict_off | Strict_warn | Strict_enforce

text \<open>\<open>to_lowercase\<close> changes no other text into one of the three words.\<close>

definition read_strict :: "string \<Rightarrow> strict_mode option" where
  "read_strict s =
     (let word = to_ascii_lowercase (trim s)
      in if word = ''off'' then Some Strict_off
         else if word = ''warn'' then Some Strict_warn
         else if word = ''enforce'' then Some Strict_enforce else None)"

definition strict_from_value :: "string option \<Rightarrow> (strict_mode, string) res" where
  "strict_from_value value =
     (let trimmed = trim (case value of None \<Rightarrow> [] | Some v \<Rightarrow> v)
      in if trimmed = [] then Inr Strict_enforce
         else case read_strict trimmed of Some m \<Rightarrow> Inr m | None \<Rightarrow> Inl trimmed)"

section \<open>Patterns\<close>

datatype agent_pattern = Literal_pattern string | Prefix_pattern string

definition parse_pattern :: "string \<Rightarrow> agent_pattern option" where
  "parse_pattern raw =
     (let stars = length (filter (\<lambda>c. c = CHR ''*'') raw)
      in if stars = 0 then Some (Literal_pattern raw)
         else if stars = 1 \<and> last raw = CHR ''*'' then Some (Prefix_pattern (butlast raw))
         else None)"

fun pattern_matches :: "agent_pattern \<Rightarrow> string \<Rightarrow> bool" where
  "pattern_matches (Literal_pattern s) agent_id \<longleftrightarrow> s = agent_id"
| "pattern_matches (Prefix_pattern p) agent_id \<longleftrightarrow> starts_with p agent_id"

fun pattern_str :: "agent_pattern \<Rightarrow> string" where
  "pattern_str (Literal_pattern s) = s"
| "pattern_str (Prefix_pattern p) = p @ ''*''"

section \<open>The document\<close>

record 'f wire_unit =
  wu_id :: string
  wu_budget :: "'f option"
  wu_owner :: "string option"

record wire_key =
  wk_key_id :: string
  wk_unit :: string
  wk_agents :: "string list"
  wk_created :: "string option"
  wk_may_parent :: "string list"

record wire_prefix =
  wp_pattern :: string
  wp_unit :: string

record 'f wire_map =
  wm_units :: "'f wire_unit list"
  wm_keys :: "wire_key list"
  wm_prefixes :: "wire_prefix list"

record 'f float_ops =
  fo_usable :: "'f \<Rightarrow> bool"
  fo_microusd :: "'f \<Rightarrow> microusd"

section \<open>The map\<close>

record key_binding =
  kb_unit :: string
  kb_agents :: "agent_pattern list"
  kb_created :: "string option"
  kb_may_parent :: "string list"

record prefix_binding =
  pb_pattern :: agent_pattern
  pb_unit :: string

record identity_map =
  im_units :: "(string \<times> microusd option) list"
  im_keys :: "(string \<times> key_binding) list"
  im_prefixes :: "prefix_binding list"
  im_unit_owners :: "(string \<times> string) list"

definition empty_identity_map :: identity_map where
  "empty_identity_map = \<lparr>im_units = [], im_keys = [], im_prefixes = [], im_unit_owners = []\<rparr>"

datatype identity_load_error = Identity_io | Identity_parse | Identity_invalid string

text \<open>A blank text counts as absent, any other stays as it is.\<close>

definition nonblank :: "string option \<Rightarrow> string option" where
  "nonblank s = (case s of None \<Rightarrow> None | Some x \<Rightarrow> if trim x = [] then None else Some x)"

fun build_units ::
  "'f float_ops \<Rightarrow> 'f wire_unit list \<Rightarrow> (string \<times> microusd option) list \<Rightarrow> (string \<times> string) list \<Rightarrow>
     ((string \<times> microusd option) list \<times> (string \<times> string) list, identity_load_error) res" where
  "build_units fo [] units people = Inr (units, people)"
| "build_units fo (u # us) units people =
     (if trim (wu_id u) = [] then Inl (Identity_invalid (wu_id u))
      else if wu_id u \<in> fst ` set units then Inl (Identity_invalid (wu_id u))
      else case wu_budget u of
        Some v \<Rightarrow>
          if fo_usable fo v
          then build_units fo us (units @ [(wu_id u, Some (fo_microusd fo v))])
                 (people @ (case nonblank (wu_owner u) of None \<Rightarrow> [] | Some p \<Rightarrow> [(wu_id u, p)]))
          else Inl (Identity_invalid (wu_id u))
      | None \<Rightarrow>
          build_units fo us (units @ [(wu_id u, None)])
            (people @ (case nonblank (wu_owner u) of None \<Rightarrow> [] | Some p \<Rightarrow> [(wu_id u, p)])))"

fun parse_patterns :: "string list \<Rightarrow> (agent_pattern list, identity_load_error) res" where
  "parse_patterns [] = Inr []"
| "parse_patterns (p # ps) =
     (case parse_pattern p of
        None \<Rightarrow> Inl (Identity_invalid p)
      | Some q \<Rightarrow> (case parse_patterns ps of Inl e \<Rightarrow> Inl e | Inr qs \<Rightarrow> Inr (q # qs)))"

fun build_keys ::
  "(string \<times> microusd option) list \<Rightarrow> wire_key list \<Rightarrow> (string \<times> key_binding) list \<Rightarrow>
     ((string \<times> key_binding) list, identity_load_error) res" where
  "build_keys units [] keys = Inr keys"
| "build_keys units (k # ks) keys =
     (if trim (wk_key_id k) = [] then Inl (Identity_invalid (wk_key_id k))
      else if wk_key_id k \<in> fst ` set keys then Inl (Identity_invalid (wk_key_id k))
      else if wk_unit k \<notin> fst ` set units then Inl (Identity_invalid (wk_key_id k))
      else case parse_patterns (wk_agents k) of
        Inl e \<Rightarrow> Inl e
      | Inr agents \<Rightarrow>
          if list_ex (\<lambda>child. trim child = [] \<or> CHR ''*'' \<in> set child) (wk_may_parent k)
          then Inl (Identity_invalid (wk_key_id k))
          else build_keys units ks
            (keys @ [(wk_key_id k, \<lparr>kb_unit = wk_unit k, kb_agents = agents, kb_created = nonblank (wk_created k),
               kb_may_parent = wk_may_parent k\<rparr>)]))"

fun build_prefixes ::
  "(string \<times> microusd option) list \<Rightarrow> wire_prefix list \<Rightarrow> (prefix_binding list, identity_load_error) res" where
  "build_prefixes units [] = Inr []"
| "build_prefixes units (p # ps) =
     (if wp_unit p \<notin> fst ` set units then Inl (Identity_invalid (wp_pattern p))
      else case parse_pattern (wp_pattern p) of
        None \<Rightarrow> Inl (Identity_invalid (wp_pattern p))
      | Some q \<Rightarrow>
          (case build_prefixes units ps of
             Inl e \<Rightarrow> Inl e
           | Inr qs \<Rightarrow> Inr (\<lparr>pb_pattern = q, pb_unit = wp_unit p\<rparr> # qs)))"

definition build_identity_map :: "'f float_ops \<Rightarrow> 'f wire_map \<Rightarrow> (identity_map, identity_load_error) res" where
  "build_identity_map fo wire =
     (case build_units fo (wm_units wire) [] [] of
        Inl e \<Rightarrow> Inl e
      | Inr (units, people) \<Rightarrow>
          case build_keys units (wm_keys wire) [] of
            Inl e \<Rightarrow> Inl e
          | Inr keys \<Rightarrow>
              case build_prefixes units (wm_prefixes wire) of
                Inl e \<Rightarrow> Inl e
              | Inr prefixes \<Rightarrow>
                  Inr \<lparr>im_units = units, im_keys = keys, im_prefixes = prefixes, im_unit_owners = people\<rparr>)"

text \<open>\<open>from_path\<close>: the file, when it can be read, blank or as JSON.\<close>

definition identity_from_path ::
  "'f float_ops \<Rightarrow> (string \<Rightarrow> 'f wire_map option) \<Rightarrow> string option \<Rightarrow> (identity_map, identity_load_error) res" where
  "identity_from_path fo parse_json file =
     (case file of
        None \<Rightarrow> Inl Identity_io
      | Some raw \<Rightarrow>
          if trim raw = [] then Inr empty_identity_map
          else case parse_json (trim raw) of
            None \<Rightarrow> Inl Identity_parse
          | Some wire \<Rightarrow> build_identity_map fo wire)"

section \<open>Resolution\<close>

record resolution =
  rs_unit :: "string option"
  rs_mismatch :: "string option"

definition map_enabled :: "identity_map \<Rightarrow> bool" where
  "map_enabled m \<longleftrightarrow> im_units m \<noteq> [] \<or> im_keys m \<noteq> [] \<or> im_prefixes m \<noteq> []"

definition prefix_unit :: "identity_map \<Rightarrow> string \<Rightarrow> string option" where
  "prefix_unit m agent_id =
     map_option pb_unit (List.find (\<lambda>p. pattern_matches (pb_pattern p) agent_id) (im_prefixes m))"

definition resolve_identity :: "identity_map \<Rightarrow> string \<Rightarrow> string \<Rightarrow> resolution" where
  "resolve_identity m key_id agent_id =
     (if key_id \<noteq> [] then
        (case map_of (im_keys m) key_id of
           Some binding \<Rightarrow>
             if kb_agents binding = [] then \<lparr>rs_unit = Some (kb_unit binding), rs_mismatch = None\<rparr>
             else if agent_id = []
             then \<lparr>rs_unit = Some (kb_unit binding), rs_mismatch = Some ''agent_id_missing''\<rparr>
             else \<lparr>rs_unit = Some (kb_unit binding),
                   rs_mismatch = (if list_ex (\<lambda>p. pattern_matches p agent_id) (kb_agents binding) then None
                                  else Some ''agent_id_not_allowed'')\<rparr>
         | None \<Rightarrow>
             \<lparr>rs_unit = prefix_unit m agent_id,
              rs_mismatch =
                (if \<not> map_enabled m then None
                 else if prefix_unit m agent_id \<noteq> None then Some ''unit_chosen_by_agent_id''
                 else Some ''key_has_no_unit_binding'')\<rparr>)
      else \<lparr>rs_unit = prefix_unit m agent_id, rs_mismatch = None\<rparr>)"

definition map_unit_budget :: "identity_map \<Rightarrow> string \<Rightarrow> microusd option" where
  "map_unit_budget m unit = Option.bind (map_of (im_units m) unit) (\<lambda>b. b)"

definition map_unit_budgets :: "identity_map \<Rightarrow> (string \<times> microusd) list" where
  "map_unit_budgets m =
     concat (map (\<lambda>(id, b). case b of None \<Rightarrow> [] | Some x \<Rightarrow> [(id, x)]) (im_units m))"

definition map_unit_owner :: "identity_map \<Rightarrow> string \<Rightarrow> string option" where
  "map_unit_owner m unit = map_of (im_unit_owners m) unit"

definition map_key_ids :: "identity_map \<Rightarrow> string list" where
  "map_key_ids m = map fst (im_keys m)"

record key_binding_info =
  ki_unit :: string
  ki_agents :: "string list"
  ki_created :: "string option"

definition map_key_binding :: "identity_map \<Rightarrow> string \<Rightarrow> key_binding_info option" where
  "map_key_binding m key_id =
     map_option (\<lambda>b. \<lparr>ki_unit = kb_unit b, ki_agents = map pattern_str (kb_agents b), ki_created = kb_created b\<rparr>)
       (map_of (im_keys m) key_id)"

fun keep_first :: "'a list \<Rightarrow> 'a list \<Rightarrow> 'a list" where
  "keep_first seen [] = seen"
| "keep_first seen (x # xs) = keep_first (if x \<in> set seen then seen else seen @ [x]) xs"

definition units_naming :: "identity_map \<Rightarrow> string \<Rightarrow> string list" where
  "units_naming m agent_id =
     keep_first []
       (map (\<lambda>(_, b). kb_unit b)
          (filter (\<lambda>(_, b). list_ex (\<lambda>p. pattern_matches p agent_id) (kb_agents b)) (sort_key fst (im_keys m)))
        @ map pb_unit (filter (\<lambda>p. pattern_matches (pb_pattern p) agent_id) (im_prefixes m)))"

definition may_parent :: "identity_map \<Rightarrow> string \<Rightarrow> string \<Rightarrow> bool" where
  "may_parent m parent_key child_key \<longleftrightarrow>
     child_key \<noteq> []
     \<and> (case map_of (im_keys m) parent_key of None \<Rightarrow> False | Some b \<Rightarrow> child_key \<in> set (kb_may_parent b))"

section \<open>A map that loads\<close>

definition identity_ok :: "identity_map \<Rightarrow> bool" where
  "identity_ok m \<longleftrightarrow>
     distinct (map fst (im_units m)) \<and> distinct (map fst (im_keys m))
   \<and> (\<forall>(u, _) \<in> set (im_units m). trim u \<noteq> [])
   \<and> (\<forall>(k, b) \<in> set (im_keys m). trim k \<noteq> [] \<and> kb_unit b \<in> fst ` set (im_units m)
        \<and> (\<forall>child \<in> set (kb_may_parent b). trim child \<noteq> [] \<and> CHR ''*'' \<notin> set child))
   \<and> (\<forall>p \<in> set (im_prefixes m). pb_unit p \<in> fst ` set (im_units m))
   \<and> fst ` set (im_unit_owners m) \<subseteq> fst ` set (im_units m)"

lemma build_units_ok:
  "build_units fo us units people = Inr (units', people') \<Longrightarrow> distinct (map fst units) \<Longrightarrow>
     (\<forall>(u, _) \<in> set units. trim u \<noteq> []) \<Longrightarrow> fst ` set people \<subseteq> fst ` set units \<Longrightarrow>
     distinct (map fst units') \<and> (\<forall>(u, _) \<in> set units'. trim u \<noteq> []) \<and> fst ` set people' \<subseteq> fst ` set units'"
proof (induction fo us units people rule: build_units.induct)
  case (2 fo u us units people)
  from 2(3) have g: "trim (wu_id u) \<noteq> []" "wu_id u \<notin> fst ` set units" by (auto split: if_splits)
  let ?p = "people @ (case nonblank (wu_owner u) of None \<Rightarrow> [] | Some p \<Rightarrow> [(wu_id u, p)])"
  have p: "fst ` set ?p \<subseteq> insert (wu_id u) (fst ` set units)"
    using 2(6) by (auto split: option.splits)
  show ?case
  proof (cases "wu_budget u")
    case None
    show ?thesis by (rule 2(1) [OF g None]) (use 2(3-5) g None p in auto)
  next
    case (Some v)
    then have v: "fo_usable fo v" using 2(3) g by (auto split: if_splits)
    show ?thesis by (rule 2(2) [OF g Some]) (use 2(3-5) g Some v p in auto)
  qed
qed simp

lemma build_keys_ok:
  "build_keys units ks keys = Inr keys' \<Longrightarrow> distinct (map fst keys) \<Longrightarrow>
     (\<forall>(k, b) \<in> set keys. trim k \<noteq> [] \<and> kb_unit b \<in> fst ` set units
        \<and> (\<forall>child \<in> set (kb_may_parent b). trim child \<noteq> [] \<and> CHR ''*'' \<notin> set child)) \<Longrightarrow>
     distinct (map fst keys')
     \<and> (\<forall>(k, b) \<in> set keys'. trim k \<noteq> [] \<and> kb_unit b \<in> fst ` set units
        \<and> (\<forall>child \<in> set (kb_may_parent b). trim child \<noteq> [] \<and> CHR ''*'' \<notin> set child))"
proof (induction units ks keys rule: build_keys.induct)
  case (2 units k ks keys)
  from 2(2) obtain agents where g: "trim (wk_key_id k) \<noteq> []" "wk_key_id k \<notin> fst ` set keys"
    "wk_unit k \<in> fst ` set units" "parse_patterns (wk_agents k) = Inr agents"
    "\<not> list_ex (\<lambda>child. trim child = [] \<or> CHR ''*'' \<in> set child) (wk_may_parent k)"
    by (auto split: if_splits sum.splits)
  show ?case by (rule 2(1) [OF g(1,2) _ g(4,5)]) (use 2(2-4) g in \<open>auto simp: list_ex_iff\<close>)
qed simp

lemma build_prefixes_ok:
  "build_prefixes units ps = Inr qs \<Longrightarrow> \<forall>p \<in> set qs. pb_unit p \<in> fst ` set units"
  by (induction units ps arbitrary: qs rule: build_prefixes.induct)
    (force split: if_splits option.splits sum.splits)+

lemma build_identity_map_ok:
  assumes "build_identity_map fo wire = Inr m"
  shows "identity_ok m"
proof -
  from assms obtain units people keys prefixes where
    b: "build_units fo (wm_units wire) [] [] = Inr (units, people)"
       "build_keys units (wm_keys wire) [] = Inr keys" "build_prefixes units (wm_prefixes wire) = Inr prefixes"
       "m = \<lparr>im_units = units, im_keys = keys, im_prefixes = prefixes, im_unit_owners = people\<rparr>"
    by (auto simp: build_identity_map_def split: sum.splits)
  with build_units_ok [OF b(1)] build_keys_ok [OF b(2)] build_prefixes_ok [OF b(3)] show ?thesis
    by (simp add: identity_ok_def)
qed

section \<open>What a resolution says\<close>

lemma parse_pattern_str: "parse_pattern raw = Some p \<Longrightarrow> pattern_str p = raw"
  by (auto simp: parse_pattern_def Let_def split: if_splits)
    (metis append_butlast_last_id filter.simps(1) list.size(3) nat.simps(3))

text \<open>
  A resolution without a mismatch is one of three: a key bound to its unit and allowed to speak as the
  agent, a call no credential came with, or a gateway with no map.
\<close>

lemma resolve_no_mismatch:
  assumes "rs_mismatch (resolve_identity m key_id agent_id) = None"
  shows "key_id = [] \<or> \<not> map_enabled m
     \<or> (\<exists>b. map_of (im_keys m) key_id = Some b \<and> rs_unit (resolve_identity m key_id agent_id) = Some (kb_unit b)
          \<and> (kb_agents b = [] \<or> agent_id \<noteq> [] \<and> (\<exists>p \<in> set (kb_agents b). pattern_matches p agent_id)))"
  using assms by (auto simp: resolve_identity_def list_ex_iff split: if_splits option.splits)

lemma resolved_unit_declared:
  assumes "identity_ok m" and "rs_unit (resolve_identity m key_id agent_id) = Some u"
  shows "u \<in> fst ` set (im_units m)"
proof -
  have p: "prefix_unit m agent_id = Some u \<Longrightarrow> u \<in> fst ` set (im_units m)"
    using assms(1) by (auto simp: prefix_unit_def identity_ok_def find_Some_iff)
  show ?thesis using assms p
    by (auto simp: resolve_identity_def identity_ok_def dest!: map_of_SomeD split: if_splits option.splits)
qed

end
