(* ===== verification/Agent_Door.thy ===== *)
theory Agent_Door
  imports Delegation Revocation_List Client_Keys Identity_Map
begin

text \<open>
  \<open>crates/gateway/src/agenttoken.rs\<close> and \<open>crates/gateway/src/chainproof.rs\<close>: the door an agent's own
  token opens, and the chain a delegation token proves. What a verifier is configured with and the replay
  cache are the door's state; log lines, message texts and response bodies are left out.
\<close>

section \<open>The chain's door\<close>

record proving =
  pv_cfg :: delegation_config
  pv_origins :: "string list"

definition PROOF_HEADER :: string where "PROOF_HEADER = ''dpop''"

definition proving_url :: "jws_lib \<Rightarrow> proving \<Rightarrow> string option \<Rightarrow> string \<Rightarrow> string" where
  "proving_url lib p proof path = expected_url (jl_payload lib) (pv_origins p) proof path"

definition declared_chain :: "string option \<Rightarrow> (string list, nat) res" where
  "declared_chain raw =
     (let chain = filter (\<lambda>s. s \<noteq> []) (map trim (split_on (CHR '','') (case raw of None \<Rightarrow> [] | Some s \<Rightarrow> s)))
      in if MAX_CHAIN_ENTRIES < length chain then Inl (length chain) else Inr chain)"

definition dpop_credential :: "string option \<Rightarrow> string option" where
  "dpop_credential authorization =
     (case authorization of
        None \<Rightarrow> None
      | Some a \<Rightarrow>
          case (case strip_prefix ''DPoP '' (trim a) of
                  Some rest \<Rightarrow> Some rest | None \<Rightarrow> strip_prefix ''dpop '' (trim a)) of
            None \<Rightarrow> None
          | Some rest \<Rightarrow> if trim rest = [] then None else Some (trim rest))"

definition same_chain :: "string list \<Rightarrow> string list \<Rightarrow> bool" where
  "same_chain a b \<longleftrightarrow>
     (if length a \<noteq> length b \<or> a \<noteq> b then False else sort a = sort b)"

section \<open>The agent tokens\<close>

datatype token_mode = Tokens_off | Tokens_accept | Tokens_require

record agent_tokens =
  at_mode :: token_mode
  at_replay :: replay_cache
  at_allow :: "string list"

definition REPLAY_CAP :: nat where "REPLAY_CAP = 16384"
definition BROKER_KEY_ID :: string where "BROKER_KEY_ID = ''broker''"
definition TOKEN_FOR_PDP_CAP_BYTES :: nat where "TOKEN_FOR_PDP_CAP_BYTES = 4 * 1024"

definition with_static_keys :: "token_mode \<Rightarrow> string list \<Rightarrow> agent_tokens" where
  "with_static_keys mode allow = \<lparr>at_mode = mode, at_replay = new_replay_cache REPLAY_CAP, at_allow = allow\<rparr>"

definition first_use :: "string \<Rightarrow> int \<Rightarrow> agent_tokens \<Rightarrow> bool \<times> agent_tokens" where
  "first_use jti now t =
     (case check_and_record jti now (at_replay t) of (r, c) \<Rightarrow> (is_ok r, t\<lparr>at_replay := c\<rparr>))"

definition token_required :: "agent_tokens option \<Rightarrow> bool" where
  "token_required tokens = (case tokens of None \<Rightarrow> False | Some t \<Rightarrow> at_mode t = Tokens_require)"

definition static_key_listed :: "agent_tokens option \<Rightarrow> string \<Rightarrow> bool" where
  "static_key_listed tokens key_id =
     (case tokens of
        None \<Rightarrow> False
      | Some t \<Rightarrow> at_mode t = Tokens_require \<and> key_id \<noteq> [] \<and> key_id \<in> set (at_allow t))"

subsection \<open>Start-up\<close>

datatype start_refusal = Bad_switch | List_without_require | Unknown_entry nat | Empty_list | No_delegation_door
  | No_audience | Fails_open | No_revocation_list | Bad_revocation_list

fun read_static_entries :: "string list \<Rightarrow> string list \<Rightarrow> nat \<Rightarrow> string list \<Rightarrow> (string list, start_refusal) res" where
  "read_static_entries configured [] position out = Inr out"
| "read_static_entries configured (e # es) position out =
     (if e \<notin> set configured then Inl (Unknown_entry (position + 1))
      else read_static_entries configured es (position + 1) (List.insert e out))"

definition parse_static_keys ::
  "string option \<Rightarrow> string list \<Rightarrow> token_mode \<Rightarrow> (string list, start_refusal) res" where
  "parse_static_keys v configured mode =
     (case v of
        None \<Rightarrow> Inr []
      | Some s \<Rightarrow>
          if trim s = [] then Inr []
          else if mode \<noteq> Tokens_require then Inl List_without_require
          else case read_static_entries configured
                 (filter (\<lambda>e. e \<noteq> []) (map trim (split_on (CHR '','') (trim s)))) 0 [] of
            Inl e \<Rightarrow> Inl e
          | Inr out \<Rightarrow> if out = [] then Inl Empty_list else Inr out)"

definition read_token_mode :: "string option \<Rightarrow> (token_mode, start_refusal) res" where
  "read_token_mode v =
     (case v of
        None \<Rightarrow> Inr Tokens_off
      | Some s \<Rightarrow>
          if trim s = [] then Inr Tokens_off
          else let word = to_ascii_lowercase (trim s)
               in if word = ''off'' then Inr Tokens_off
                  else if word = ''accept'' then Inr Tokens_accept
                  else if word = ''require'' then Inr Tokens_require
                  else Inl Bad_switch)"

definition tokens_from_values ::
  "string option \<Rightarrow> proving option \<Rightarrow> wanted_list \<Rightarrow> string option \<Rightarrow> string list \<Rightarrow>
     (agent_tokens option, start_refusal) res" where
  "tokens_from_values v proving_door revs statics configured =
     (case read_token_mode v of
        Inl e \<Rightarrow> Inl e
      | Inr mode \<Rightarrow>
          case parse_static_keys statics configured mode of
            Inl e \<Rightarrow> Inl e
          | Inr allow \<Rightarrow>
              if mode = Tokens_off then Inr None
              else case proving_door of
                None \<Rightarrow> Inl No_delegation_door
              | Some p \<Rightarrow>
                  if trim (df_audience (pv_cfg p)) = [] then Inl No_audience
                  else case revs of
                    List_on _ _ _ Fail_closed \<Rightarrow> Inr (Some (with_static_keys mode allow))
                  | List_on _ _ _ Fail_open \<Rightarrow> Inl Fails_open
                  | List_off \<Rightarrow> Inl No_revocation_list
                  | List_refused \<Rightarrow> Inl Bad_revocation_list)"

section \<open>Resolving a chain\<close>

record delegation_proof =
  dp_jti :: string
  dp_jkt :: string
  dp_iss :: string
  dp_exp :: int

datatype chain_refusal = Bad_token token_refusal | Chain_contradicted | Proof_replayed

datatype chain_answer =
    Claimed_chain "string list"
  | Proven_chain "string list" delegation_proof
  | Refused_chain chain_refusal

text \<open>
  With agent tokens on, a proof that names an access token must name this one, and none is good twice;
  off, neither is asked.
\<close>

definition hold_to_token_rules ::
  "jws_lib \<Rightarrow> string \<Rightarrow> verified_delegation \<Rightarrow> int \<Rightarrow> agent_tokens option \<Rightarrow>
     chain_refusal option \<times> agent_tokens option" where
  "hold_to_token_rules lib token v now tokens =
     (case tokens of
        None \<Rightarrow> (None, None)
      | Some t \<Rightarrow>
          if (case vd_proof_ath v of None \<Rightarrow> False | Some ath \<Rightarrow> ath \<noteq> access_token_hash lib token)
          then (Some (Bad_token Wrong_key), tokens)
          else (case first_use (vd_proof_jti v) now t of (ok, t') \<Rightarrow>
            ((if ok then None else Some Proof_replayed), Some t')))"

definition resolve_chain ::
  "jws_lib \<Rightarrow> proving option \<Rightarrow> string option \<Rightarrow> string option \<Rightarrow> string \<Rightarrow> string \<Rightarrow> string list \<Rightarrow> int \<Rightarrow>
     revoked_check \<Rightarrow> agent_tokens option \<Rightarrow> chain_answer \<times> agent_tokens option" where
  "resolve_chain lib cfg token proof meth path declared now revoked tokens =
     (case (cfg, token) of
        (Some p, Some tok) \<Rightarrow>
          (case verify_delegation lib (pv_cfg p) tok proof meth (proving_url lib p proof path) now revoked of
             Inl reason \<Rightarrow> (Refused_chain (Bad_token reason), tokens)
           | Inr v \<Rightarrow>
               (case hold_to_token_rules lib tok v now tokens of
                  (Some why, tokens') \<Rightarrow> (Refused_chain why, tokens')
                | (None, tokens') \<Rightarrow>
                    if declared \<noteq> [] \<and> \<not> same_chain declared (vd_chain v)
                    then (Refused_chain Chain_contradicted, tokens')
                    else (Proven_chain (vd_chain v)
                            \<lparr>dp_jti = vd_jti v, dp_jkt = vd_jkt v, dp_iss = df_issuer (pv_cfg p),
                             dp_exp = vd_expires_at v\<rparr>, tokens')))
      | _ \<Rightarrow> (Claimed_chain declared, tokens))"

definition proven_actor :: "chain_answer \<Rightarrow> string option" where
  "proven_actor c =
     (case c of
        Proven_chain chain _ \<Rightarrow>
          if chain = [] then None
          else let leaf = trim (last chain) in if names_agent leaf then Some leaf else None
      | _ \<Rightarrow> None)"

section \<open>The agent's door\<close>

datatype door_why = Why_token token_refusal | Why_beside_a_key | Why_replayed | Why_not_canonical

datatype door_answer = Not_presented | Door_admitted verified_agent | Door_refused door_why

definition AGENT_ID_MAX_LENGTH :: nat where "AGENT_ID_MAX_LENGTH = 255"

text \<open>\<open>^agent://[a-z0-9.-]+/[a-z0-9._/-]+$\<close>: the host is the text up to the first slash.\<close>

definition host_char :: "char \<Rightarrow> bool" where
  "host_char c \<longleftrightarrow> (let n = of_char c :: nat in 97 \<le> n \<and> n \<le> 122 \<or> 48 \<le> n \<and> n \<le> 57) \<or> c = CHR ''.'' \<or> c = CHR ''-''"

definition is_canonical_agent_id :: "string \<Rightarrow> bool" where
  "is_canonical_agent_id agent_id \<longleftrightarrow>
     length agent_id \<le> AGENT_ID_MAX_LENGTH
   \<and> (case Option.bind (strip_prefix ''agent://'' agent_id) (split_once (CHR ''/'')) of
        None \<Rightarrow> False
      | Some (host, path) \<Rightarrow>
          host \<noteq> [] \<and> list_all host_char host
          \<and> path \<noteq> [] \<and> list_all (\<lambda>c. host_char c \<or> c = CHR ''_'' \<or> c = CHR ''/'') path)"

definition agent_token_in :: "jws_lib \<Rightarrow> headers \<Rightarrow> string option" where
  "agent_token_in lib h =
     (case dpop_credential (header_str h ''authorization'') of
        None \<Rightarrow> None
      | Some t \<Rightarrow> if is_agent_token lib t then Some t else None)"

definition door_admitted :: "agent_tokens \<Rightarrow> verified_agent \<Rightarrow> int \<Rightarrow> door_answer \<times> agent_tokens" where
  "door_admitted t agent now =
     (if \<not> is_canonical_agent_id (ag_subject agent) then (Door_refused Why_not_canonical, t)
      else if ag_proof_jti agent \<noteq> []
      then (case first_use (ag_proof_jti agent) now t of (ok, t') \<Rightarrow>
             ((if ok then Door_admitted agent else Door_refused Why_replayed), t'))
      else (Door_admitted agent, t))"

definition admit_agent ::
  "jws_lib \<Rightarrow> proving option \<Rightarrow> revocations option \<Rightarrow> headers \<Rightarrow> string \<Rightarrow> int \<Rightarrow> agent_tokens option \<Rightarrow>
     door_answer \<times> agent_tokens option" where
  "admit_agent lib cfg feed h path now tokens =
     (case (tokens, cfg) of
        (Some t, Some p) \<Rightarrow>
          (case agent_token_in lib h of
             None \<Rightarrow> (Not_presented, tokens)
           | Some token \<Rightarrow>
               if h CLIENT_KEY_HEADER \<noteq> None then (Door_refused Why_beside_a_key, tokens)
               else let proof = header_str h PROOF_HEADER
                    in case verify_agent_token lib (pv_cfg p) token proof ''POST'' (proving_url lib p proof path)
                           now (feed_hook feed now) of
                         Inl refusal \<Rightarrow> (Door_refused (Why_token refusal), tokens)
                       | Inr agent \<Rightarrow> map_prod (\<lambda>a. a) Some (door_admitted t agent now))
      | _ \<Rightarrow> (Not_presented, tokens))"

definition relayed_agent ::
  "jws_lib \<Rightarrow> proving option \<Rightarrow> revocations option \<Rightarrow> headers \<Rightarrow> int \<Rightarrow> agent_tokens option \<Rightarrow>
     door_answer \<times> agent_tokens option" where
  "relayed_agent lib cfg feed h now tokens =
     (case (tokens, cfg) of
        (Some t, Some p) \<Rightarrow>
          (case agent_token_in lib h of
             None \<Rightarrow> (Not_presented, tokens)
           | Some token \<Rightarrow>
               (case verify_relayed_agent_token lib (pv_cfg p) token now (feed_hook feed now) of
                  Inr agent \<Rightarrow> map_prod (\<lambda>a. a) Some (door_admitted t agent now)
                | Inl refusal \<Rightarrow> (Door_refused (Why_token refusal), tokens)))
      | _ \<Rightarrow> (Not_presented, tokens))"

definition carries_agent_token :: "jws_lib \<Rightarrow> headers \<Rightarrow> bool" where
  "carries_agent_token lib h \<longleftrightarrow> agent_token_in lib h \<noteq> None"

subsection \<open>What the rest of the gateway is told\<close>

definition token_for_pdp :: "jws_lib \<Rightarrow> headers \<Rightarrow> string option" where
  "token_for_pdp lib h =
     (case agent_token_in lib h of
        None \<Rightarrow> None
      | Some token \<Rightarrow>
          if \<not> is_agent_token lib token then None
          else if TOKEN_FOR_PDP_CAP_BYTES < length token then None else Some token)"

definition proof_for_pdp :: "headers \<Rightarrow> string option" where
  "proof_for_pdp h =
     (case header_str h PROOF_HEADER of
        None \<Rightarrow> None
      | Some proof \<Rightarrow> if TOKEN_FOR_PDP_CAP_BYTES < length proof then None else Some proof)"

definition identity_source :: "bool \<Rightarrow> bool \<Rightarrow> string" where
  "identity_source agent_token credential =
     (if agent_token then ''agent-token'' else if credential then ''client-key'' else ''none'')"

definition token_contradiction :: "identity_map \<Rightarrow> verified_agent \<Rightarrow> string \<Rightarrow> string option" where
  "token_contradiction m agent header_agent =
     (if trim header_agent \<noteq> [] \<and> trim header_agent \<noteq> ag_subject agent then Some ''agent_id_contradicts_token''
      else if units_naming m (ag_subject agent) \<noteq> [] \<and> ag_unit agent \<notin> set (units_naming m (ag_subject agent))
      then Some ''unit_contradicts_map'' else None)"

end
