(* ===== verification/Door_Facts.thy ===== *)
theory Door_Facts
  imports Agent_Door Delegation
begin

text \<open>
  The two doors a proof opens, as one run of requests against the shared cache, and everything an admitted
  agent token was held to.
\<close>

section \<open>Calls at the doors\<close>

text \<open>
  A request at the agent's door, or the resolution of a chain, with what each reads: headers or token and
  proof, the route, the declared chain, the clock, the revocation list.
\<close>

datatype door_call =
    Agent_call headers string "revocations option" int
  | Chain_call "string option" "string option" string string "string list" int "revocations option"

fun call_at :: "door_call \<Rightarrow> int" where
  "call_at (Agent_call h path feed now) = now"
| "call_at (Chain_call token proof meth path declared now feed) = now"

fun call_proof :: "door_call \<Rightarrow> string option" where
  "call_proof (Agent_call h path feed now) = header_str h PROOF_HEADER"
| "call_proof (Chain_call token proof meth path declared now feed) = proof"

fun run_call ::
  "jws_lib \<Rightarrow> proving option \<Rightarrow> door_call \<Rightarrow> agent_tokens option \<Rightarrow> bool \<times> agent_tokens option" where
  "run_call lib cfg (Agent_call h path feed now) tokens =
     (case admit_agent lib cfg feed h path now tokens of
        (Door_admitted agent, t) \<Rightarrow> (True, t) | (_, t) \<Rightarrow> (False, t))"
| "run_call lib cfg (Chain_call token proof meth path declared now feed) tokens =
     (case resolve_chain lib cfg token proof meth path declared now (feed_hook feed now) tokens of
        (Proven_chain chain p, t) \<Rightarrow> (True, t) | (_, t) \<Rightarrow> (False, t))"

fun run_calls ::
  "jws_lib \<Rightarrow> proving option \<Rightarrow> door_call list \<Rightarrow> agent_tokens option \<Rightarrow> agent_tokens option" where
  "run_calls lib cfg [] tokens = tokens"
| "run_calls lib cfg (c # cs) tokens = run_calls lib cfg cs (snd (run_call lib cfg c tokens))"

text \<open>What one call does to the cache: nothing, or one presentation at its clock.\<close>

definition cache_step :: "int \<Rightarrow> agent_tokens \<Rightarrow> agent_tokens \<Rightarrow> bool" where
  "cache_step now t t' \<longleftrightarrow>
     at_replay t' = at_replay t \<or> (\<exists>jti. at_replay t' = snd (check_and_record jti now (at_replay t)))"

lemma cache_step_refl [simp]: "cache_step now t t"
  by (simp add: cache_step_def)

lemma remembers_step:
  "cache_step now t u \<Longrightarrow> remembers s jti (at_replay t) \<Longrightarrow> in_clock now \<Longrightarrow> now \<le> s + GENERATION \<Longrightarrow>
     remembers s jti (at_replay u)"
  by (auto simp: cache_step_def intro: remembers_record)

lemma first_use_step: "first_use jti now t = (ok, t') \<Longrightarrow> cache_step now t t'"
  by (auto simp: first_use_def cache_step_def split: prod.splits intro: exI [of _ jti])

lemma first_use_ok: "first_use jti now t = (True, t') \<Longrightarrow> check_and_record jti now (at_replay t) = (Inr (), at_replay t')"
  by (auto simp: first_use_def is_ok_def split: prod.splits sum.splits)

lemma door_admitted_step: "door_admitted t agent now = (a, t') \<Longrightarrow> cache_step now t t'"
  by (auto simp: door_admitted_def first_use_step split: if_splits prod.splits)

lemma admit_agent_step:
  "admit_agent lib cfg feed h path now (Some t) = (a, t') \<Longrightarrow> \<exists>u. t' = Some u \<and> cache_step now t u"
  by (auto simp: admit_agent_def Let_def map_prod_def door_admitted_step
      split: option.splits if_splits sum.splits prod.splits)

lemma hold_to_token_rules_step:
  "hold_to_token_rules lib token v now (Some t) = (w, t') \<Longrightarrow> \<exists>u. t' = Some u \<and> cache_step now t u"
  by (auto simp: hold_to_token_rules_def first_use_step split: if_splits prod.splits)

lemma resolve_chain_step:
  "resolve_chain lib cfg token proof m path declared now revoked (Some t) = (a, t') \<Longrightarrow>
     \<exists>u. t' = Some u \<and> cache_step now t u"
  by (auto simp: resolve_chain_def
      dest!: hold_to_token_rules_step split: option.splits sum.splits prod.splits if_splits)

lemma run_call_step:
  "run_call lib cfg c (Some t) = (b, t') \<Longrightarrow> \<exists>u. t' = Some u \<and> cache_step (call_at c) t u"
  by (cases c)
    (auto split: prod.splits door_answer.splits chain_answer.splits dest: admit_agent_step resolve_chain_step)

section \<open>An accepted call presented a proof for the first time\<close>

lemma admit_agent_ok:
  assumes "admit_agent lib cfg feed h path now (Some t) = (Door_admitted agent, t')"
  obtains p token u where "cfg = Some p" "agent_token_in lib h = Some token" "h CLIENT_KEY_HEADER = None"
    and "verify_agent_token lib (pv_cfg p) token (header_str h PROOF_HEADER) ''POST''
           (proving_url lib p (header_str h PROOF_HEADER) path) now (feed_hook feed now) = Inr agent"
    and "is_canonical_agent_id (ag_subject agent)" "t' = Some u"
    and "ag_proof_jti agent \<noteq> [] \<longrightarrow> first_use (ag_proof_jti agent) now t = (True, u)"
  using assms
  by (auto simp: admit_agent_def Let_def map_prod_def door_admitted_def
      split: option.splits if_splits sum.splits prod.splits)

lemma resolve_chain_ok:
  assumes "resolve_chain lib cfg token proof m path declared now revoked (Some t) = (Proven_chain chain q, t')"
  obtains p tok v u where "cfg = Some p" "token = Some tok"
    and "verify_delegation lib (pv_cfg p) tok proof m (proving_url lib p proof path) now revoked = Inr v"
    and "first_use (vd_proof_jti v) now t = (True, u)" "t' = Some u" "chain = vd_chain v"
    and "declared = [] \<or> declared = chain"
  using assms
  by (auto simp: resolve_chain_def hold_to_token_rules_def same_chain_def
      split: option.splits if_splits sum.splits prod.splits)

lemma verify_agent_token_proof:
  assumes "verify_agent_token lib cfg token proof m u now revoked = Inr a"
  shows "\<exists>p v. proof = Some p \<and> verify_proof lib p m u now = Inr v \<and> ag_proof_jti a = vp_jti v \<and> vp_jti v \<noteq> []"
proof -
  from assms obtain c jkt v where "present_proof lib proof m u now = Inr v" "a = agent_of c jkt (vp_jti v)"
    unfolding verify_agent_token_ok by blast
  then obtain p where p: "proof = Some p" "verify_proof lib p m u now = Inr v" "ag_proof_jti a = vp_jti v"
    by (auto simp: present_proof_ok agent_of_def)
  from verify_proof_ok [OF p(2)] obtain k claims where "check_proof_claims lib k m u now claims = Inr v" .
  from check_proof_claims_ok [OF this] have "vp_jti v \<noteq> []" .
  with p show ?thesis by blast
qed

lemma verify_delegation_proof:
  assumes "verify_delegation lib cfg token proof m u now revoked = Inr v"
  shows "\<exists>p w. proof = Some p \<and> verify_proof lib p m u now = Inr w \<and> vd_proof_jti v = vp_jti w"
proof -
  from assms obtain c p where "present_proof lib proof m u now = Inr p" "vd_proof_jti v = vp_jti p"
    unfolding verify_delegation_ok by (metis verified_delegation.select_convs(7))
  then show ?thesis by (auto simp: present_proof_ok)
qed

lemma run_call_accepted:
  assumes "run_call lib cfg c (Some t) = (True, t')"
  obtains p v m u u' where "call_proof c = Some p" "verify_proof lib p m u (call_at c) = Inr v"
    and "t' = Some u'" "check_and_record (vp_jti v) (call_at c) (at_replay t) = (Inr (), at_replay u')"
proof (cases c)
  case (Agent_call h path feed now)
  with assms obtain agent where a: "admit_agent lib cfg feed h path now (Some t) = (Door_admitted agent, t')"
    by (auto split: prod.splits door_answer.splits)
  from admit_agent_ok [OF a] obtain q token u where
    q: "verify_agent_token lib (pv_cfg q) token (header_str h PROOF_HEADER) ''POST''
          (proving_url lib q (header_str h PROOF_HEADER) path) now (feed_hook feed now) = Inr agent" "t' = Some u"
       "ag_proof_jti agent \<noteq> [] \<longrightarrow> first_use (ag_proof_jti agent) now t = (True, u)" .
  from verify_agent_token_proof [OF q(1)] obtain r w where
    r: "header_str h PROOF_HEADER = Some r"
       "verify_proof lib r ''POST'' (proving_url lib q (header_str h PROOF_HEADER) path) now = Inr w"
       "ag_proof_jti agent = vp_jti w" "vp_jti w \<noteq> []" by blast
  with q(3) have "first_use (vp_jti w) now t = (True, u)" by simp
  from that [OF _ _ q(2)] r first_use_ok [OF this] show thesis by (simp add: Agent_call)
next
  case (Chain_call token pr meth path declared now feed)
  with assms obtain chain q where
    a: "resolve_chain lib cfg token pr meth path declared now (feed_hook feed now) (Some t) = (Proven_chain chain q, t')"
    by (auto split: prod.splits chain_answer.splits)
  from resolve_chain_ok [OF a] obtain p tok v u where
    q: "verify_delegation lib (pv_cfg p) tok pr meth (proving_url lib p pr path) now (feed_hook feed now) = Inr v"
       "first_use (vd_proof_jti v) now t = (True, u)" "t' = Some u" .
  from verify_delegation_proof [OF q(1)] obtain r w where
    r: "pr = Some r" "verify_proof lib r meth (proving_url lib p pr path) now = Inr w"
       "vd_proof_jti v = vp_jti w" by blast
  from that [OF _ _ q(3)] r first_use_ok [OF q(2)] show thesis by (simp add: Chain_call)
qed

section \<open>A remembered proof\<close>

lemma remembers_calls:
  "remembers s jti (at_replay t) \<Longrightarrow> list_all (\<lambda>c. in_clock (call_at c) \<and> call_at c \<le> s + GENERATION) cs \<Longrightarrow>
     \<exists>u. run_calls lib cfg cs (Some t) = Some u \<and> remembers s jti (at_replay u)"
proof (induction cs arbitrary: t)
  case (Cons c cs)
  obtain b t' where r: "run_call lib cfg c (Some t) = (b, t')" by force
  from run_call_step [OF r] obtain u where u: "t' = Some u" "cache_step (call_at c) t u" by blast
  then have "remembers s jti (at_replay u)" using Cons.prems remembers_step by simp
  from Cons.IH [OF this] Cons.prems(2) r u(1) show ?case by simp
qed simp

lemma run_calls_some: "\<exists>u. run_calls lib cfg cs (Some t) = Some u"
proof (induction cs arbitrary: t)
  case (Cons c cs)
  obtain b t' where r: "run_call lib cfg c (Some t) = (b, t')" by force
  from run_call_step [OF r] Cons.IH r show ?case by auto
qed simp

lemma proof_opens_once:
  assumes first: "run_call lib cfg c (Some t) = (True, t1)" and p: "call_proof c = Some p"
    and started: "ry_started (at_replay t) = I64_MIN \<or> in_clock (ry_started (at_replay t))"
    and clocks: "in_clock (call_at c)" "in_clock (call_at d)"
      "list_all (\<lambda>e. in_clock (call_at e) \<and> call_at e \<le> call_at d) cs"
    and again: "call_proof d = Some p"
  shows "\<not> fst (run_call lib cfg d (run_calls lib cfg cs t1))"
proof
  assume acc: "fst (run_call lib cfg d (run_calls lib cfg cs t1))"
  from run_call_accepted [OF first] obtain p' v m u t1' where
    v0: "call_proof c = Some p'" and v1: "verify_proof lib p' m u (call_at c) = Inr v" and
    v2: "t1 = Some t1'" "check_and_record (vp_jti v) (call_at c) (at_replay t) = (Inr (), at_replay t1')" .
  from v0 v1 v2 p have
    v: "verify_proof lib p m u (call_at c) = Inr v" "t1 = Some t1'"
       "check_and_record (vp_jti v) (call_at c) (at_replay t) = (Inr (), at_replay t1')"
    by simp_all
  have rem: "remembers (call_at c) (vp_jti v) (at_replay t1')"
    by (rule recorded_is_remembered [OF v(3) clocks(1) started])
  from run_calls_some obtain t2 where t2: "run_calls lib cfg cs (Some t1') = Some t2" by blast
  obtain t3 where d: "run_call lib cfg d (Some t2) = (True, t3)"
    using acc v(2) t2 by (metis prod.collapse)
  from run_call_accepted [OF d] obtain p'' w m' u' t3' where
    w0: "call_proof d = Some p''" and w1: "verify_proof lib p'' m' u' (call_at d) = Inr w" and w3: "t3 = Some t3'" and
    w2: "check_and_record (vp_jti w) (call_at d) (at_replay t2) = (Inr (), at_replay t3')" .
  from w0 w1 w2 again have
    w: "verify_proof lib p m' u' (call_at d) = Inr w"
       "check_and_record (vp_jti w) (call_at d) (at_replay t2) = (Inr (), at_replay t3')"
    by simp_all
  from same_proof_same_jti [OF v(1) w(1) clocks(1,2)]
  have j: "vp_jti w = vp_jti v" "call_at d \<le> call_at c + GENERATION" by simp_all
  have "remembers (call_at c) (vp_jti v) (at_replay t2)"
  proof -
    have "list_all (\<lambda>e. in_clock (call_at e) \<and> call_at e \<le> call_at c + GENERATION) cs"
      using clocks(3) j(2) by (auto simp: list_all_iff)
    from remembers_calls [OF rem this, of lib cfg] t2 show ?thesis by simp
  qed
  from remembered_is_seen [OF this clocks(2) j(2)] w(2) j(1) show False by simp
qed

end
