(* ===== verification/Run_Owners.thy ===== *)
theory Run_Owners
  imports Origin Journal_Facts
begin

text \<open>
  \<open>crates/gateway/src/runowners.rs\<close>: who opened a run. The map behind the mutex is an association list
  without repeated keys, the journal the bytes of its file, written and read as the journal of retained
  reservations is (\<open>Retained_Journal\<close>); serde's writing and reading of a line is an argument. A claim is two
  steps, because the append is made outside the map's lock.
\<close>

section \<open>Principals\<close>

definition KEY_PREFIX :: string where "KEY_PREFIX = ''key:''"
definition TOKEN_PREFIX :: string where "TOKEN_PREFIX = ''tok:''"

definition key_principal :: "string \<Rightarrow> string" where
  "key_principal key_id = (if key_id = [] then [] else KEY_PREFIX @ key_id)"

definition token_principal :: "string \<Rightarrow> string" where
  "token_principal subject = (if subject = [] then [] else TOKEN_PREFIX @ subject)"

definition key_of :: "string \<Rightarrow> string option" where
  "key_of who =
     (case strip_prefix KEY_PREFIX who of
        None \<Rightarrow> None | Some rest \<Rightarrow> if rest = [] then None else Some rest)"

definition is_principal :: "string \<Rightarrow> bool" where
  "is_principal s \<longleftrightarrow>
     list_ex (\<lambda>p. case strip_prefix p s of None \<Rightarrow> False | Some rest \<Rightarrow> rest \<noteq> []) [KEY_PREFIX, TOKEN_PREFIX]"

lemma key_principal_ok [simp]: "key_id \<noteq> [] \<Longrightarrow> is_principal (key_principal key_id)"
  by (simp add: is_principal_def key_principal_def strip_prefix_def starts_with_def KEY_PREFIX_def)

lemma token_principal_ok [simp]: "subject \<noteq> [] \<Longrightarrow> is_principal (token_principal subject)"
  by (simp add: is_principal_def token_principal_def strip_prefix_def starts_with_def TOKEN_PREFIX_def)

lemma key_of_key_principal: "key_of p = Some k \<longleftrightarrow> k \<noteq> [] \<and> p = key_principal k"
  by (auto simp: key_of_def key_principal_def strip_prefix_some split: option.splits)
    (auto simp: strip_prefix_def starts_with_def KEY_PREFIX_def)

text \<open>A key and a token that share a name are two principals.\<close>

lemma principals_disjoint: "k \<noteq> [] \<Longrightarrow> key_principal k \<noteq> token_principal s"
  by (simp add: key_principal_def token_principal_def KEY_PREFIX_def TOKEN_PREFIX_def)

section \<open>The map\<close>

datatype claim = Claim_unowned | Claim_opened | Claim_own | Claim_elsewhere string

record owner_record =
  ow_v :: nat
  ow_run_id :: string
  ow_owner :: string
  ow_at_millis :: int

type_synonym owner_map = "(string \<times> string) list"

definition record_is_valid :: "owner_record \<Rightarrow> bool" where
  "record_is_valid r \<longleftrightarrow> ow_run_id r \<noteq> [] \<and> is_principal (ow_owner r)"

text \<open>The part of \<open>claim\<close> under the lock.\<close>

definition claim_in_map :: "string \<Rightarrow> string \<Rightarrow> owner_map \<Rightarrow> claim \<times> owner_map" where
  "claim_in_map run_id who m =
     (if run_id = [] \<or> who = [] then (Claim_unowned, m)
      else case map_of m run_id of
        Some p \<Rightarrow> (if p = who then (Claim_own, m) else (Claim_elsewhere p, m))
      | None \<Rightarrow> (Claim_opened, (run_id, who) # m))"

definition first_claim_record :: "string \<Rightarrow> string \<Rightarrow> int \<Rightarrow> owner_record" where
  "first_claim_record run_id who at =
     \<lparr>ow_v = 1, ow_run_id = run_id, ow_owner = who, ow_at_millis = at\<rparr>"

definition run_owner :: "string \<Rightarrow> owner_map \<Rightarrow> string option" where
  "run_owner run_id m = map_of m run_id"

fun load_owners :: "owner_record list \<Rightarrow> owner_map \<Rightarrow> nat \<times> owner_map" where
  "load_owners [] m = (0, m)"
| "load_owners (r # rs) m =
     (if record_is_valid r \<and> map_of m (ow_run_id r) = None
      then (case load_owners rs ((ow_run_id r, ow_owner r) # m) of (n, m') \<Rightarrow> (Suc n, m'))
      else load_owners rs m)"

section \<open>The journal\<close>

record owner_codec =
  oc_write :: "owner_record \<Rightarrow> string option"
  oc_read :: "string \<Rightarrow> owner_record option"

definition append_owner ::
  "disk \<Rightarrow> owner_codec \<Rightarrow> owner_record \<Rightarrow> string \<Rightarrow> (unit, io_error) res \<times> string" where
  "append_owner d codec r jnl = append_line d (oc_write codec r) jnl"

text \<open>
  The rewrite serialises each record on the way; one that fails leaves the journal as it was, as any
  other failure does.
\<close>

fun serialize_all :: "owner_codec \<Rightarrow> owner_record list \<Rightarrow> string list option" where
  "serialize_all codec [] = Some []"
| "serialize_all codec (r # rs) =
     (case oc_write codec r of
        None \<Rightarrow> None
      | Some s \<Rightarrow> map_option (\<lambda>ss. s # ss) (serialize_all codec rs))"

definition rewrite_owners :: "bool \<Rightarrow> owner_codec \<Rightarrow> owner_record list \<Rightarrow> string \<Rightarrow> (unit, io_error) res \<times> string" where
  "rewrite_owners ok codec rs jnl =
     (case serialize_all codec rs of
        None \<Rightarrow> (Inl Serialize_failed, jnl)
      | Some ls \<Rightarrow> rewrite ok ls jnl)"

record owner_report =
  or_records :: "owner_record list"
  or_malformed :: nat
  or_oversized :: nat
  or_invalid :: nat

definition empty_owner_report :: owner_report where
  "empty_owner_report = \<lparr>or_records = [], or_malformed = 0, or_oversized = 0, or_invalid = 0\<rparr>"

definition add_owner_line :: "owner_codec \<Rightarrow> bool \<Rightarrow> string \<Rightarrow> owner_report \<Rightarrow> owner_report" where
  "add_owner_line codec oversized line rep =
     (if oversized then rep\<lparr>or_oversized := Suc (or_oversized rep)\<rparr>
      else let trimmed = trim_ascii line
      in if trimmed = [] then rep
      else case oc_read codec trimmed of
          Some r \<Rightarrow> if record_is_valid r then rep\<lparr>or_records := or_records rep @ [r]\<rparr>
                    else rep\<lparr>or_invalid := Suc (or_invalid rep)\<rparr>
        | None \<Rightarrow> rep\<lparr>or_malformed := Suc (or_malformed rep)\<rparr>)"

function parse_owners_from :: "owner_codec \<Rightarrow> fill list \<Rightarrow> owner_report \<Rightarrow> (owner_report, io_error) res" where
  "parse_owners_from codec fs rep =
     (case next_line fs of
        (Inl e, _, _) \<Rightarrow> Inl e
      | (Inr None, _, _) \<Rightarrow> Inr rep
      | (Inr (Some oversized), line, fs') \<Rightarrow> parse_owners_from codec fs' (add_owner_line codec oversized line rep))"
  by pat_completeness auto
termination
  by (relation "measure (\<lambda>(codec, fs, rep). sum_list (map fill_size fs))")
    (auto dest!: next_line_shrinks [OF sym])

declare parse_owners_from.simps [simp del]

definition parse_owners :: "owner_codec \<Rightarrow> fill list \<Rightarrow> (owner_report, io_error) res" where
  "parse_owners codec fs = parse_owners_from codec fs empty_owner_report"

fun distinct_from :: "string list \<Rightarrow> owner_record list \<Rightarrow> owner_record list \<times> nat" where
  "distinct_from seen [] = ([], 0)"
| "distinct_from seen (r # rs) =
     (if ow_run_id r \<in> set seen
      then (case distinct_from seen rs of (out, n) \<Rightarrow> (out, Suc n))
      else (case distinct_from (ow_run_id r # seen) rs of (out, n) \<Rightarrow> (r # out, n)))"

definition distinct_owners :: "owner_record list \<Rightarrow> owner_record list \<times> nat" where
  "distinct_owners rs = distinct_from [] rs"

record owner_restore =
  rr_read :: owner_report
  rr_loaded :: nat
  rr_duplicate :: nat

text \<open>
  What startup does with a journal that opened: the file as the reader finds it, whether the rewrite
  succeeds. \<open>read\<close> of a missing file is the empty report, as reading an empty one is.
\<close>

definition replay_owners_at_startup ::
  "owner_codec \<Rightarrow> fill list \<Rightarrow> bool \<Rightarrow> owner_map \<Rightarrow> string \<Rightarrow> (owner_restore, io_error) res \<times> owner_map \<times> string" where
  "replay_owners_at_startup codec fs ok m jnl =
     (case parse_owners codec fs of
        Inl e \<Rightarrow> (Inl e, m, jnl)
      | Inr rep \<Rightarrow>
          case distinct_owners (or_records rep) of (kept, dup) \<Rightarrow>
          case load_owners kept m of (loaded, m') \<Rightarrow>
            (Inr \<lparr>rr_read = rep, rr_loaded = loaded, rr_duplicate = dup\<rparr>, m',
             snd (rewrite_owners ok codec kept jnl)))"

section \<open>The first record of each run\<close>

text \<open>Of the records in a journal, the first that names a run decides its owner.\<close>

definition first_owner :: "owner_record list \<Rightarrow> string \<rightharpoonup> string" where
  "first_owner rs = map_of (map (\<lambda>r. (ow_run_id r, ow_owner r)) rs)"

lemma first_owner_simps [simp]:
  "first_owner [] = Map.empty"
  "first_owner (r # rs) = (first_owner rs)(ow_run_id r \<mapsto> ow_owner r)"
  "first_owner (rs @ qs) = first_owner qs ++ first_owner rs"
  by (simp_all add: first_owner_def)

lemma distinct_from_owner:
  "first_owner (fst (distinct_from seen rs)) x = (if x \<in> set seen then None else first_owner rs x)"
  by (induction seen rs rule: distinct_from.induct) (auto split: prod.splits)

lemma distinct_owners_owner [simp]: "first_owner (fst (distinct_owners rs)) = first_owner rs"
  by (simp add: distinct_owners_def distinct_from_owner fun_eq_iff)

lemma distinct_from_subset: "set (fst (distinct_from seen rs)) \<subseteq> set rs"
  by (induction seen rs rule: distinct_from.induct) (auto split: prod.splits)

lemma distinct_owners_subset: "set (fst (distinct_owners rs)) \<subseteq> set rs"
  by (simp add: distinct_owners_def distinct_from_subset)

lemma load_owners_map:
  "list_all record_is_valid rs \<Longrightarrow> map_of (snd (load_owners rs m)) = first_owner rs ++ map_of m"
  by (induction rs m rule: load_owners.induct)
    (auto simp: fun_eq_iff map_add_def split: prod.splits option.splits)

section \<open>Reading back\<close>

definition add_whole_owner_line :: "owner_codec \<Rightarrow> string \<Rightarrow> owner_report \<Rightarrow> owner_report" where
  "add_whole_owner_line codec line = add_owner_line codec (MAX_LINE_BYTES < length line) line"

definition parse_owner_bytes :: "owner_codec \<Rightarrow> string \<Rightarrow> owner_report" where
  "parse_owner_bytes codec bytes = fold (add_whole_owner_line codec) (split_on LF bytes) empty_owner_report"

lemma add_whole_owner_line_nil [simp]: "add_whole_owner_line codec [] = id"
  by (simp add: add_whole_owner_line_def add_owner_line_def trim_ascii_def fun_eq_iff)

lemma add_whole_owner_line_eq:
  "(\<not> MAX_LINE_BYTES < length l \<longrightarrow> line = l) \<Longrightarrow>
     add_owner_line codec (MAX_LINE_BYTES < length l) line = add_whole_owner_line codec l"
  by (cases "MAX_LINE_BYTES < length l") (simp_all add: add_whole_owner_line_def add_owner_line_def fun_eq_iff)

lemma parse_owners_from_chunks:
  "list_all fill_ok fs \<Longrightarrow>
     parse_owners_from codec fs rep = Inr (fold (add_whole_owner_line codec) (split_on LF (bytes_of fs)) rep)"
proof (induction codec fs rep rule: parse_owners_from.induct)
  case (1 codec fs rep)
  show ?case
  proof (cases "split_once LF (bytes_of fs)")
    case None
    from next_line_last [OF 1(2) None, of False "[]" False] obtain line where
      l: "next_line fs = (Inr (if bytes_of fs \<noteq> [] then Some (MAX_LINE_BYTES < length (bytes_of fs)) else None), line, [])"
         "\<not> MAX_LINE_BYTES < length (bytes_of fs) \<longrightarrow> line = bytes_of fs"
      unfolding next_line_def by (simp only: simp_thms list.size add_0 append.simps) blast
    have e: "parse_owners_from codec [] r = Inr r" for r
      by (simp add: parse_owners_from.simps [of _ "[]"] next_line_def)
    show ?thesis
      using l None e add_whole_owner_line_eq [OF l(2)]
      by (cases "bytes_of fs = []") (simp_all add: parse_owners_from.simps [of _ fs] split_on_once)
  next
    case (Some ar)
    then obtain a rest where ar: "split_once LF (bytes_of fs) = Some (a, rest)" by force
    from next_line_found [OF 1(2) ar, of "[]" False False] obtain line fs' where
      l: "next_line fs = (Inr (Some (MAX_LINE_BYTES < length a)), line, fs')"
         "\<not> MAX_LINE_BYTES < length a \<longrightarrow> line = a" "list_all fill_ok fs'" "bytes_of fs' = rest"
      by (auto simp: next_line_def)
    from 1(1) [OF l(1) [symmetric] refl refl refl l(3)] show ?thesis
      using l ar add_whole_owner_line_eq [OF l(2)]
      by (simp add: parse_owners_from.simps [of _ fs] split_on_once [of _ "bytes_of fs"])
  qed
qed

lemma parse_owners_chunks:
  "list_all fill_ok fs \<Longrightarrow> parse_owners codec fs = Inr (parse_owner_bytes codec (bytes_of fs))"
  by (simp add: parse_owners_def parse_owner_bytes_def parse_owners_from_chunks)

lemma parse_owner_bytes_add_line:
  "ends_line jnl \<Longrightarrow> LF \<notin> set s \<Longrightarrow>
     parse_owner_bytes codec (jnl @ s @ [LF]) = add_whole_owner_line codec s (parse_owner_bytes codec jnl)"
proof (cases jnl rule: rev_cases)
  case Nil
  assume "LF \<notin> set s"
  then show ?thesis
    using split_on_append [of LF s "[]"] by (simp add: Nil parse_owner_bytes_def split_on_none)
next
  case (snoc f c)
  assume a: "ends_line jnl" "LF \<notin> set s"
  then have c: "c = LF" by (simp add: snoc ends_line_def)
  show ?thesis
    using a(2) split_on_append [of LF f "s @ [LF]"] split_on_append [of LF s "[]"] split_on_append [of LF f "[]"]
    by (simp add: snoc c parse_owner_bytes_def split_on_none)
qed

lemma journal_open_owners:
  "journal_open Disk_ok jnl = (res, jnl') \<Longrightarrow>
     ends_line jnl' \<and> parse_owner_bytes codec jnl' = parse_owner_bytes codec jnl"
  using split_on_append [of LF jnl "[]"]
  by (auto simp: journal_open_def write_all_def ends_line_def parse_owner_bytes_def split: if_splits)

text \<open>What a reader needs of serde's line for one record.\<close>

definition owner_reads_back :: "owner_codec \<Rightarrow> owner_record \<Rightarrow> bool" where
  "owner_reads_back codec r =
     (case oc_write codec r of
        None \<Rightarrow> False
      | Some s \<Rightarrow> s \<noteq> [] \<and> LF \<notin> set s \<and> trim_ascii s = s \<and> oc_read codec s = Some r)"

lemma add_owner_reads_back:
  "owner_reads_back codec r \<Longrightarrow> record_is_valid r \<Longrightarrow> oc_write codec r = Some s \<Longrightarrow> length s < MAX_LINE_BYTES \<Longrightarrow>
     or_records (add_whole_owner_line codec s rep) = or_records rep @ [r]"
  by (simp add: owner_reads_back_def add_whole_owner_line_def add_owner_line_def)

text \<open>
  Histories of run ownership: claims at the door, appends that finish in any order, crashes and restarts.
  A run whose opening reached the journal keeps its owner through all of them.
\<close>

section \<open>Histories\<close>

text \<open>
  The map, the journal's bytes, the first claims not yet appended, and, as history, the openings whose
  append was answered.
\<close>

record owner_world =
  wo_map :: owner_map
  wo_file :: string
  wo_pending :: "owner_record list"
  wo_kept :: "(string \<times> string) list"

definition owner_start :: "string \<Rightarrow> owner_world" where
  "owner_start file = \<lparr>wo_map = [], wo_file = file, wo_pending = [], wo_kept = []\<rparr>"

definition names_run :: "string \<Rightarrow> string \<Rightarrow> int \<Rightarrow> owner_world \<Rightarrow> claim \<times> owner_world" where
  "names_run run who at w =
     (case claim_in_map run who (wo_map w) of (c, m) \<Rightarrow>
        (c, if c = Claim_opened
            then w\<lparr>wo_map := m, wo_pending := wo_pending w @ [first_claim_record run who at]\<rparr> else w))"

definition appends_claim :: "owner_codec \<Rightarrow> nat \<Rightarrow> disk \<Rightarrow> owner_world \<Rightarrow> owner_world" where
  "appends_claim codec i d w =
     (let r = wo_pending w ! i in
      case append_owner d codec r (wo_file w) of (res, file) \<Rightarrow>
        w\<lparr>wo_file := file, wo_pending := take i (wo_pending w) @ drop (Suc i) (wo_pending w),
          wo_kept := wo_kept w @ (if is_ok res then [(ow_run_id r, ow_owner r)] else [])\<rparr>)"

text \<open>A restart: the journal is opened and replayed; one that cannot be read starts no process.\<close>

definition restarts :: "owner_codec \<Rightarrow> fill list \<Rightarrow> bool \<Rightarrow> owner_world \<Rightarrow> owner_world option" where
  "restarts codec fs ok w =
     (case journal_open Disk_ok (wo_file w) of
        (Inl _, _) \<Rightarrow> None
      | (Inr _, file) \<Rightarrow>
          (case replay_owners_at_startup codec fs ok [] file of
             (Inl _, _, _) \<Rightarrow> None
           | (Inr _, m, file') \<Rightarrow> Some (w\<lparr>wo_map := m, wo_file := file', wo_pending := []\<rparr>)))"

inductive owner_reach :: "owner_codec \<Rightarrow> owner_world \<Rightarrow> bool" for codec where
  starts: "owner_reach codec w"
    if "w0 = owner_start file" "list_all fill_ok fs" "bytes_of fs = snd (journal_open Disk_ok file)"
       "restarts codec fs ok w0 = Some w"
| names: "owner_reach codec w'"
    if "owner_reach codec w" "who = [] \<or> is_principal who" "names_run run who at w = (c, w')"
| appended: "owner_reach codec (appends_claim codec i Disk_ok w)"
    if "owner_reach codec w" "i < length (wo_pending w)"
| restarted: "owner_reach codec w'"
    if "owner_reach codec w" "list_all fill_ok fs" "bytes_of fs = snd (journal_open Disk_ok (wo_file w))"
       "restarts codec fs ok w = Some w'"

inductive_cases owner_reach_cases: "owner_reach codec w"

section \<open>The journal's records\<close>

text \<open>
  What serde promises of the lines: a record reads back from its own line, and writing out what was read is
  never longer than what was read.
\<close>

definition owner_codec_ok :: "owner_codec \<Rightarrow> bool" where
  "owner_codec_ok codec \<longleftrightarrow>
     (\<forall>r. record_is_valid r \<longrightarrow> owner_reads_back codec r)
   \<and> (\<forall>s r s'. oc_read codec s = Some r \<and> oc_write codec r = Some s' \<longrightarrow> length s' \<le> length s)"

abbreviation file_records :: "owner_codec \<Rightarrow> string \<Rightarrow> owner_record list" where
  "file_records codec file \<equiv> or_records (parse_owner_bytes codec file)"

definition fits_line :: "owner_codec \<Rightarrow> owner_record \<Rightarrow> bool" where
  "fits_line codec r \<longleftrightarrow> record_is_valid r \<and> (\<exists>s. length s \<le> MAX_LINE_BYTES \<and> oc_read codec s = Some r)"

lemma length_trim_ascii: "length (trim_ascii s) \<le> length s"
  unfolding trim_ascii_def by (metis le_trans length_dropWhile_le length_rev)

lemma add_line_fits:
  "\<forall>r \<in> set (or_records rep). fits_line codec r \<Longrightarrow>
     \<forall>r \<in> set (or_records (add_whole_owner_line codec l rep)). fits_line codec r"
  using length_trim_ascii [of l]
  by (auto simp: add_whole_owner_line_def add_owner_line_def Let_def fits_line_def not_less
      split: option.splits intro: le_trans)

lemma file_records_fit: "\<forall>r \<in> set (file_records codec file). fits_line codec r"
proof -
  have "\<forall>r \<in> set (or_records rep). fits_line codec r \<Longrightarrow>
      \<forall>r \<in> set (or_records (fold (add_whole_owner_line codec) ls rep)). fits_line codec r" for ls rep
    by (induction ls arbitrary: rep) (auto dest: add_line_fits)
  from this [of empty_owner_report "split_on LF file"] show ?thesis
    by (simp add: parse_owner_bytes_def empty_owner_report_def)
qed

lemma written_line_fits:
  assumes "owner_codec_ok codec" and "fits_line codec r"
  obtains s where "oc_write codec r = Some s" "LF \<notin> set s" "length s \<le> MAX_LINE_BYTES"
    "\<And>rep. or_records (add_whole_owner_line codec s rep) = or_records rep @ [r]"
proof -
  from assms have rb: "owner_reads_back codec r" and v: "record_is_valid r"
    by (simp_all add: owner_codec_ok_def fits_line_def)
  then obtain s where s: "oc_write codec r = Some s" "s \<noteq> []" "LF \<notin> set s" "trim_ascii s = s" "oc_read codec s = Some r"
    by (auto simp: owner_reads_back_def split: option.splits)
  from assms obtain t where t: "length t \<le> MAX_LINE_BYTES" "oc_read codec t = Some r" by (auto simp: fits_line_def)
  have l: "length s \<le> MAX_LINE_BYTES" using assms(1) s(1) t unfolding owner_codec_ok_def by (meson le_trans)
  from that [OF s(1,3) l] s v l show thesis
    by (simp add: add_whole_owner_line_def add_owner_line_def)
qed

lemma rewritten_records:
  assumes "owner_codec_ok codec" and "\<forall>r \<in> set rs. fits_line codec r" and "serialize_all codec rs = Some ls"
  shows "file_records codec (concat (map (\<lambda>l. l @ [LF]) ls)) = rs \<and> ends_line (concat (map (\<lambda>l. l @ [LF]) ls))"
  using assms(2,3)
proof (induction rs arbitrary: ls rule: rev_induct)
  case Nil
  then show ?case by (simp add: parse_owner_bytes_def empty_owner_report_def ends_line_def)
next
  case (snoc r rs)
  have app: "serialize_all codec (rs @ [r]) = Some ls \<longleftrightarrow>
      (\<exists>s ms. serialize_all codec rs = Some ms \<and> oc_write codec r = Some s \<and> ls = ms @ [s])" for rs ls
    by (induction rs arbitrary: ls) (auto split: option.splits)
  from snoc.prems(2) obtain s ms where s: "serialize_all codec rs = Some ms" "oc_write codec r = Some s" "ls = ms @ [s]"
    using app by blast
  from snoc.prems(1) written_line_fits [OF assms(1), of r] s(2) have w: "LF \<notin> set s"
    "\<And>rep. or_records (add_whole_owner_line codec s rep) = or_records rep @ [r]" by auto
  from snoc.IH [OF _ s(1)] snoc.prems(1) have ih: "file_records codec (concat (map (\<lambda>l. l @ [LF]) ms)) = rs"
    "ends_line (concat (map (\<lambda>l. l @ [LF]) ms))" by auto
  from parse_owner_bytes_add_line [OF ih(2) w(1)] ih(1) w(2) s(3) show ?case
    by (simp add: ends_line_def)
qed

lemma serialize_all_fits:
  "owner_codec_ok codec \<Longrightarrow> \<forall>r \<in> set rs. fits_line codec r \<Longrightarrow> \<exists>ls. serialize_all codec rs = Some ls"
proof (induction rs)
  case (Cons r rs)
  from Cons.prems(2) have "fits_line codec r" by simp
  from written_line_fits [OF Cons.prems(1) this] obtain s where "oc_write codec r = Some s" by blast
  with Cons show ?case by auto
qed simp

section \<open>The invariant\<close>

definition owners_ok :: "owner_codec \<Rightarrow> owner_world \<Rightarrow> bool" where
  "owners_ok codec w \<longleftrightarrow>
     ends_line (wo_file w)
   \<and> (\<forall>run p. first_owner (file_records codec (wo_file w)) run = Some p \<longrightarrow> map_of (wo_map w) run = Some p)
   \<and> (\<forall>r \<in> set (wo_pending w). record_is_valid r \<and> map_of (wo_map w) (ow_run_id r) = Some (ow_owner r)
        \<and> first_owner (file_records codec (wo_file w)) (ow_run_id r) = None)
   \<and> distinct (map ow_run_id (wo_pending w))
   \<and> (\<forall>(run, p) \<in> set (wo_kept w). first_owner (file_records codec (wo_file w)) run = Some p)"

lemma owners_restart_ok:
  assumes codec: "owner_codec_ok codec"
    and kept: "\<forall>(run, p) \<in> set (wo_kept w). first_owner (file_records codec (wo_file w)) run = Some p"
    and fs: "list_all fill_ok fs" "bytes_of fs = snd (journal_open Disk_ok (wo_file w))"
    and r: "restarts codec fs ok w = Some w'"
  shows "owners_ok codec w'"
proof -
  obtain res jnl where o: "journal_open Disk_ok (wo_file w) = (res, jnl)" by force
  from journal_open_owners [OF o] have f: "ends_line jnl"
    "parse_owner_bytes codec jnl = parse_owner_bytes codec (wo_file w)" by blast+
  let ?R = "file_records codec (wo_file w)"
  let ?K = "fst (distinct_owners ?R)"
  have p: "parse_owners codec fs = Inr (parse_owner_bytes codec (wo_file w))"
    using parse_owners_chunks [OF fs(1), of codec] fs(2) o f(2) by simp
  have fit: "\<forall>x \<in> set ?K. fits_line codec x"
    using file_records_fit distinct_owners_subset by blast
  then have "list_all record_is_valid ?K" by (auto simp: list_all_iff fits_line_def)
  then have m: "map_of (snd (load_owners ?K [])) = first_owner ?R" by (simp add: load_owners_map)
  obtain ls where ls: "serialize_all codec ?K = Some ls" using serialize_all_fits [OF codec fit] by blast
  let ?f = "snd (rewrite_owners ok codec ?K jnl)"
  have "file_records codec ?f = (if ok then ?K else ?R) \<and> ends_line ?f"
    using rewritten_records [OF codec fit ls] f by (simp add: rewrite_owners_def rewrite_def ls)
  then have e: "first_owner (file_records codec ?f) = first_owner ?R" "ends_line ?f" by auto
  have "w' = w\<lparr>wo_map := snd (load_owners ?K []), wo_file := ?f, wo_pending := []\<rparr>"
    using r by (auto simp: restarts_def o replay_owners_at_startup_def p split: prod.splits sum.splits)
  with e m kept show ?thesis by (simp add: owners_ok_def)
qed

lemma names_ok:
  assumes "owners_ok codec w" and "who = [] \<or> is_principal who" and "names_run run who at w = (c, w')"
  shows "owners_ok codec w'"
proof (cases "c = Claim_opened")
  case True
  then have o: "run \<noteq> []" "who \<noteq> []" "map_of (wo_map w) run = None"
    "w' = w\<lparr>wo_map := (run, who) # wo_map w, wo_pending := wo_pending w @ [first_claim_record run who at]\<rparr>"
    using assms(3) by (auto simp: names_run_def claim_in_map_def split: if_splits option.splits prod.splits)
  let ?R = "first_owner (file_records codec (wo_file w))"
  have "?R run = None" using assms(1) o(3) by (cases "?R run") (auto simp: owners_ok_def)
  moreover have "run \<notin> ow_run_id ` set (wo_pending w)" using assms(1) o(3) by (auto simp: owners_ok_def)
  ultimately show ?thesis
    using assms(1,2) o by (auto simp: owners_ok_def first_claim_record_def record_is_valid_def)
next
  case False
  with assms show ?thesis by (auto simp: names_run_def split: prod.splits)
qed

lemma appended_ok:
  assumes codec: "owner_codec_ok codec" and w: "owners_ok codec w" and i: "i < length (wo_pending w)"
  shows "owners_ok codec (appends_claim codec i Disk_ok w)"
proof -
  define r where "r = wo_pending w ! i"
  define ps where "ps = take i (wo_pending w) @ drop (Suc i) (wo_pending w)"
  have split: "wo_pending w = take i (wo_pending w) @ r # drop (Suc i) (wo_pending w)"
    using i by (simp add: r_def id_take_nth_drop [symmetric])
  have sub: "set ps \<subseteq> set (wo_pending w)" "r \<in> set (wo_pending w)"
    using i by (auto simp: ps_def r_def dest: in_set_takeD in_set_dropD)
  have "distinct (map ow_run_id (take i (wo_pending w) @ r # drop (Suc i) (wo_pending w)))"
    using w split by (simp add: owners_ok_def)
  then have d: "distinct (map ow_run_id ps)" "ow_run_id r \<notin> ow_run_id ` set ps" by (auto simp: ps_def)
  from w sub(2) have v: "record_is_valid r" "map_of (wo_map w) (ow_run_id r) = Some (ow_owner r)"
    "first_owner (file_records codec (wo_file w)) (ow_run_id r) = None" by (auto simp: owners_ok_def)
  from codec v(1) obtain s where s: "oc_write codec r = Some s" "s \<noteq> []" "LF \<notin> set s" "trim_ascii s = s"
      "oc_read codec s = Some r"
    by (auto simp: owner_codec_ok_def owner_reads_back_def split: option.splits)
  let ?w = "appends_claim codec i Disk_ok w"
  show ?thesis
  proof (cases "MAX_LINE_BYTES < length (s @ [LF])")
    case True
    then have "?w = w\<lparr>wo_pending := ps\<rparr>"
      by (simp add: appends_claim_def append_owner_def append_line_def s(1) ps_def flip: r_def)
    with w sub(1) d(1) show ?thesis by (auto simp: owners_ok_def)
  next
    case False
    have e: "?w = w\<lparr>wo_file := wo_file w @ s @ [LF], wo_pending := ps,
        wo_kept := wo_kept w @ [(ow_run_id r, ow_owner r)]\<rparr>"
      using False by (simp add: appends_claim_def append_owner_def append_line_def write_all_def s(1) ps_def flip: r_def)
    have "ends_line (wo_file w)" using w by (simp add: owners_ok_def)
    from parse_owner_bytes_add_line [OF this s(3)] add_owner_reads_back [of codec r s] codec v(1) s False
    have "file_records codec (wo_file w @ s @ [LF]) = file_records codec (wo_file w) @ [r]"
      by (simp add: owner_codec_ok_def)
    with w v d sub(1) show ?thesis
      unfolding e by (auto simp: owners_ok_def ends_line_def map_add_def image_iff split: option.splits)
  qed
qed

lemma owner_reach_ok:
  assumes "owner_codec_ok codec" and "owner_reach codec w"
  shows "owners_ok codec w"
  using assms(2)
proof induction
  case (starts w0 jnl fs ok w)
  show ?case by (rule owners_restart_ok [OF assms(1) _ starts(2) _ starts(4)]) (use starts in \<open>simp_all add: owner_start_def\<close>)
next
  case (names w who run at c w')
  then show ?case using names_ok by blast
next
  case (appended w i)
  then show ?case using appended_ok [OF assms(1)] by blast
next
  case (restarted w fs ok w')
  then show ?case using owners_restart_ok [OF assms(1) _ restarted(2,3,4)] by (simp add: owners_ok_def)
qed

lemma kept_owner:
  assumes "owner_codec_ok codec" and "owner_reach codec w" and "(run, p) \<in> set (wo_kept w)"
  shows "map_of (wo_map w) run = Some p"
  using owner_reach_ok [OF assms(1,2)] assms(3) by (auto simp: owners_ok_def)

section \<open>Where the guarantee ends\<close>

text \<open>
  A second call of the opener is answered while the first one's append is under way; a crash then forgets
  the owner, and the run is another's after the restart.
\<close>

lemma own_before_durable:
  assumes "run \<noteq> []" and "p \<noteq> []" and "q \<noteq> []"
  shows "\<exists>w1 w2 w3. names_run run p t (owner_start []) = (Claim_opened, w1)
     \<and> names_run run p t w1 = (Claim_own, w2)
     \<and> restarts codec [] True w2 = Some w3
     \<and> fst (names_run run q t w3) = Claim_opened"
proof -
  have e: "parse_owners codec [] = Inr empty_owner_report"
    using parse_owners_chunks [of "[]" codec] by (simp add: parse_owner_bytes_def)
  let ?w1 = "\<lparr>wo_map = [(run, p)], wo_file = [], wo_pending = [first_claim_record run p t], wo_kept = []\<rparr>"
  let ?w3 = "\<lparr>wo_map = [], wo_file = [], wo_pending = [], wo_kept = []\<rparr>"
  have "names_run run p t (owner_start []) = (Claim_opened, ?w1)" "names_run run p t ?w1 = (Claim_own, ?w1)"
    using assms by (simp_all add: names_run_def claim_in_map_def owner_start_def)
  moreover have "restarts codec [] True ?w1 = Some ?w3"
    by (simp add: restarts_def journal_open_def replay_owners_at_startup_def e empty_owner_report_def
        distinct_owners_def rewrite_owners_def rewrite_def)
  moreover have "fst (names_run run q t ?w3) = Claim_opened"
    using assms by (simp add: names_run_def claim_in_map_def)
  ultimately show ?thesis by blast
qed

lemma parse_owner_bytes_nil [simp]: "parse_owner_bytes codec [] = empty_owner_report"
  by (simp add: parse_owner_bytes_def)

text \<open>
  A line written in part stays in the file, and the next append, answered as durable, is fused with it: a
  restart knows neither run.
\<close>

lemma torn_claim_swallows_next:
  assumes "oc_write codec r = Some s" and "oc_write codec r' = Some s'" and "LF \<notin> set s" and "LF \<notin> set s'"
    and "0 < n" and "n \<le> length s" and "n + length s' < MAX_LINE_BYTES" and "length s < MAX_LINE_BYTES"
    and "trim_ascii (take n s @ s') \<noteq> []" and "oc_read codec (trim_ascii (take n s @ s')) = None"
  shows "\<exists>f1 f2. append_owner (Disk_fails n) codec r [] = (Inl Write_failed, f1)
     \<and> append_owner Disk_ok codec r' f1 = (Inr (), f2) \<and> file_records codec f2 = []"
proof -
  have l: "append_owner (Disk_fails n) codec r [] = (Inl Write_failed, take n s)"
    "append_owner Disk_ok codec r' (take n s) = (Inr (), take n s @ s' @ [LF])"
    using assms by (simp_all add: append_owner_def append_line_def write_all_def)
  have "LF \<notin> set (take n s @ s')" using assms(3,4) by (auto dest: in_set_takeD)
  from parse_owner_bytes_add_line [OF _ this, of "[]" codec] assms(6,7,9,10)
  have "file_records codec (take n s @ s' @ [LF]) = []"
    by (simp add: ends_line_def add_whole_owner_line_def add_owner_line_def empty_owner_report_def)
  with l show ?thesis by blast
qed

end
