(* ===== verification/Refused_Keys.thy ===== *)
theory Refused_Keys
  imports Client_Keys Audit_Trail "HOL-Library.AList"
begin

text \<open>
  \<open>crates/gateway/src/refusedkeys.rs\<close>: what of the refused credentials goes on the event bus. The window
  behind the mutex is a record, its table an association list; the clock is an argument.
\<close>

section \<open>The limiter\<close>

definition PER_SOURCE_INTERVAL_MILLIS :: int where "PER_SOURCE_INTERVAL_MILLIS = 60000"
definition PER_MINUTE_CAP :: nat where "PER_MINUTE_CAP = 60"
definition SOURCES_CAP :: nat where "SOURCES_CAP = 4096"
definition UNIDENTIFIED_CALLER :: string where
  "UNIDENTIFIED_CALLER = ''agent://unidentified.invalid/caller''"

record refusal_window =
  rk_started :: int
  rk_emitted :: nat
  rk_sources :: "(string \<times> (int \<times> nat)) list"

definition new_window :: refusal_window where
  "new_window = \<lparr>rk_started = 0, rk_emitted = 0, rk_sources = []\<rparr>"

definition key_fingerprint :: "(string \<Rightarrow> nat list) \<Rightarrow> string \<Rightarrow> string" where
  "key_fingerprint sha presented = ''sha256:'' @ hex_lower (take 8 (sha presented))"

definition next_minute :: "int \<Rightarrow> refusal_window \<Rightarrow> refusal_window" where
  "next_minute now w =
     (if 60000 \<le> wrap_i64 (now - rk_started w) \<or> now < rk_started w
      then w\<lparr>rk_started := now, rk_emitted := 0\<rparr> else w)"

definition make_room :: "string \<Rightarrow> refusal_window \<Rightarrow> refusal_window" where
  "make_room source w =
     (if SOURCES_CAP \<le> length (rk_sources w) \<and> map_of (rk_sources w) source = None
      then w\<lparr>rk_sources := []\<rparr> else w)"

definition put_source :: "string \<Rightarrow> int \<times> nat \<Rightarrow> refusal_window \<Rightarrow> refusal_window" where
  "put_source source e w = w\<lparr>rk_sources := AList.update source e (rk_sources w)\<rparr>"

definition admit_refusal :: "string \<Rightarrow> int \<Rightarrow> refusal_window \<Rightarrow> nat option \<times> refusal_window" where
  "admit_refusal source now w =
     (let w = make_room source (next_minute now w);
          global_full = PER_MINUTE_CAP \<le> rk_emitted w;
          (last, held) = (case map_of (rk_sources w) source of None \<Rightarrow> (I64_MIN, 0) | Some e \<Rightarrow> e);
          due = (last = I64_MIN \<or> PER_SOURCE_INTERVAL_MILLIS \<le> wrap_i64 (now - last))
      in if \<not> due \<or> global_full then (None, put_source source (last, sat_u64 (held + 1)) w)
         else (Some held, (put_source source (now, 0) w)\<lparr>rk_emitted := rk_emitted w + 1\<rparr>))"

section \<open>The event\<close>

record refused_key_data =
  kd_reason :: string
  kd_fingerprint :: "string option"
  kd_agent_id :: "string option"
  kd_unreported :: nat
  kd_header :: "string option"

definition refused_key_data :: "string \<Rightarrow> string option \<Rightarrow> string \<Rightarrow> nat \<Rightarrow> refused_key_data" where
  "refused_key_data reason fp claimed unreported =
     \<lparr>kd_reason = reason, kd_fingerprint = fp, kd_agent_id = (if claimed = [] then None else Some claimed),
      kd_unreported = unreported, kd_header = None\<rparr>"

section \<open>Rates\<close>

fun admit_refusals :: "(string \<times> int) list \<Rightarrow> refusal_window \<Rightarrow> nat option list \<times> refusal_window" where
  "admit_refusals [] w = ([], w)"
| "admit_refusals ((source, now) # rs) w =
     (case admit_refusal source now w of (r, w') \<Rightarrow>
        case admit_refusals rs w' of (out, w'') \<Rightarrow> (r # out, w''))"

definition reported :: "nat option list \<Rightarrow> nat" where
  "reported out = length (filter (\<lambda>r. r \<noteq> None) out)"

lemma reported_simps [simp]:
  "reported [] = 0" "reported (r # out) = (if r \<noteq> None then Suc (reported out) else reported out)"
  by (simp_all add: reported_def)

lemma make_room_simps [simp]:
  "rk_started (make_room s w) = rk_started w" "rk_emitted (make_room s w) = rk_emitted w"
  by (simp_all add: make_room_def)

lemma put_source_simps [simp]:
  "rk_started (put_source s e w) = rk_started w" "rk_emitted (put_source s e w) = rk_emitted w"
  by (simp_all add: put_source_def)

text \<open>One refusal: it starts a minute or not, and is on the bus only while the minute has room.\<close>

lemma admit_refusal_window:
  assumes "admit_refusal source now w = (r, w')"
  shows "rk_started w' = rk_started (next_minute now w)"
    and "rk_emitted w' = rk_emitted (next_minute now w) + (if r \<noteq> None then 1 else 0)"
    and "r \<noteq> None \<Longrightarrow> rk_emitted (next_minute now w) < PER_MINUTE_CAP"
  using assms by (auto simp: admit_refusal_def Let_def not_le split: if_splits option.splits)

lemma wrap_clock: "0 \<le> a \<Longrightarrow> a < 2 ^ 62 \<Longrightarrow> 0 \<le> b \<Longrightarrow> b < 2 ^ 62 \<Longrightarrow> wrap_i64 (a - b) = a - b"
  by (intro wrap_i64_id) (simp add: in_i64_def machine_bounds)

definition millis :: "int \<Rightarrow> bool" where
  "millis t \<longleftrightarrow> 0 \<le> t \<and> t < 2 ^ 62"

lemma next_minute_eq:
  "millis now \<Longrightarrow> millis (rk_started w) \<Longrightarrow>
     next_minute now w =
       (if rk_started w \<le> now \<and> now < rk_started w + 60000 then w else w\<lparr>rk_started := now, rk_emitted := 0\<rparr>)"
  by (auto simp: next_minute_def millis_def wrap_clock)

text \<open>Within the minute of the window.\<close>

lemma reported_in_minute:
  assumes "admit_refusals rs w = (out, w')" and "millis (rk_started w)" and "rk_emitted w \<le> PER_MINUTE_CAP"
    and "\<forall>(_, now) \<in> set rs. millis now \<and> rk_started w \<le> now \<and> now < rk_started w + 60000"
  shows "reported out + rk_emitted w \<le> PER_MINUTE_CAP"
  using assms
proof (induction rs w arbitrary: out w' rule: admit_refusals.induct)
  case (2 source now rs w)
  obtain r w1 where a: "admit_refusal source now w = (r, w1)" by force
  with 2(2) obtain out' where o: "admit_refusals rs w1 = (out', w')" "out = r # out'"
    by (auto split: prod.splits)
  have n: "next_minute now w = w" using 2(3,5) by (simp add: next_minute_eq)
  note f = admit_refusal_window [OF a, unfolded n]
  from f 2(4) have "rk_emitted w1 \<le> PER_MINUTE_CAP" by (auto split: if_splits)
  then have "reported out' + rk_emitted w1 \<le> PER_MINUTE_CAP"
    using 2(3,5) f(1) by (intro 2(1) [OF a [symmetric] o(1)]) auto
  with f(2) o(2) show ?case by (auto split: if_splits)
qed simp

text \<open>
  In any sixty seconds of a clock that does not step back, at most two minutes' worth of refusals are
  reported: the window starts with a refusal, not with the interval asked about.
\<close>

lemma reported_in_interval:
  assumes "admit_refusals rs w = (out, w')" and "millis (rk_started w)" and "rk_emitted w \<le> PER_MINUTE_CAP"
    and "rk_started w \<le> t" and "sorted (map snd rs)"
    and "\<forall>(_, now) \<in> set rs. millis now \<and> t \<le> now \<and> now < t + 60000"
  shows "reported out + rk_emitted w \<le> 2 * PER_MINUTE_CAP"
  using assms
proof (induction rs w arbitrary: out w' rule: admit_refusals.induct)
  case (2 source now rs w)
  obtain r w1 where a: "admit_refusal source now w = (r, w1)" by force
  with 2(2) obtain out' where o: "admit_refusals rs w1 = (out', w')" "out = r # out'"
    by (auto split: prod.splits)
  note f = admit_refusal_window [OF a]
  show ?case
  proof (cases "now < rk_started w + 60000")
    case True
    then have n: "next_minute now w = w" using 2(3,5,7) by (auto simp: next_minute_eq)
    note g = f [unfolded n]
    from g 2(4) have "rk_emitted w1 \<le> PER_MINUTE_CAP" by (auto split: if_splits)
    then have "reported out' + rk_emitted w1 \<le> 2 * PER_MINUTE_CAP"
      using 2(3,5-7) g(1) by (intro 2(1) [OF a [symmetric] o(1)]) auto
    with g(2) o(2) show ?thesis by (auto split: if_splits)
  next
    case False
    then have n: "next_minute now w = w\<lparr>rk_started := now, rk_emitted := 0\<rparr>"
      using 2(3,7) by (auto simp: next_minute_eq)
    note g = f [unfolded n]
    have "reported out' + rk_emitted w1 \<le> PER_MINUTE_CAP"
      using 2(6,7) g by (intro reported_in_minute [OF o(1)]) (auto split: if_splits)
    with g(2) o(2) 2(4) show ?thesis by (auto split: if_splits)
  qed
qed simp

text \<open>And that many can be: sixty sources at the end of one window and sixty at the start of the next.\<close>

lemma fresh_source_reported:
  assumes "map_of (rk_sources w) s = None" and "length (rk_sources w) < SOURCES_CAP"
    and "rk_emitted (next_minute now w) < PER_MINUTE_CAP"
  shows "admit_refusal s now w
    = (Some 0, (next_minute now w)\<lparr>rk_sources := AList.update s (now, 0) (rk_sources w),
                 rk_emitted := rk_emitted (next_minute now w) + 1\<rparr>)"
proof -
  have "rk_sources (next_minute now w) = rk_sources w" by (simp add: next_minute_def)
  with assms show ?thesis by (simp add: admit_refusal_def Let_def make_room_def put_source_def)
qed

lemma length_fresh_update: "k \<notin> fst ` set al \<Longrightarrow> length (AList.update k v al) = Suc (length al)"
  by (induction al) auto

lemma fresh_sources_reported:
  assumes "distinct ss" and "\<forall>s \<in> set ss. map_of (rk_sources w) s = None"
    and "length (rk_sources w) + length ss \<le> SOURCES_CAP" and "rk_emitted w + length ss \<le> PER_MINUTE_CAP"
    and "rk_started w \<le> now" and "now < rk_started w + 60000" and "millis now" and "millis (rk_started w)"
  shows "\<exists>w'. admit_refusals (map (\<lambda>s. (s, now)) ss) w = (replicate (length ss) (Some 0), w')
    \<and> rk_started w' = rk_started w \<and> length (rk_sources w') = length (rk_sources w) + length ss
    \<and> (\<forall>x. x \<notin> set ss \<longrightarrow> map_of (rk_sources w') x = map_of (rk_sources w) x)"
  using assms
proof (induction ss arbitrary: w)
  case (Cons s ss)
  have n: "next_minute now w = w" using Cons.prems by (simp add: next_minute_eq)
  let ?w = "w\<lparr>rk_sources := AList.update s (now, 0) (rk_sources w), rk_emitted := rk_emitted w + 1\<rparr>"
  have a: "admit_refusal s now w = (Some 0, ?w)"
    using Cons.prems fresh_source_reported [of w s now] by (simp add: n)
  have l: "length (AList.update s (now, 0) (rk_sources w)) = Suc (length (rk_sources w))"
    using Cons.prems(2) by (simp add: map_of_eq_None_iff length_fresh_update)
  have p: "\<forall>x \<in> set ss. map_of (rk_sources ?w) x = None" using Cons.prems(1,2) by (auto simp: update_conv')
  from Cons.IH [OF _ p] Cons.prems l obtain w' where
    w: "admit_refusals (map (\<lambda>s. (s, now)) ss) ?w = (replicate (length ss) (Some 0), w')" "rk_started w' = rk_started w"
       "length (rk_sources w') = Suc (length (rk_sources w)) + length ss"
       "\<forall>x. x \<notin> set ss \<longrightarrow> map_of (rk_sources w') x = map_of (AList.update s (now, 0) (rk_sources w)) x"
    by (auto simp: update_conv')
  with a show ?case by (auto simp: update_conv')
qed auto

lemma admit_all_append:
  "admit_refusals (xs @ ys) w = (case admit_refusals xs w of (out, w1) \<Rightarrow> case admit_refusals ys w1 of (out', w2) \<Rightarrow> (out @ out', w2))"
  by (induction xs w rule: admit_refusals.induct) (auto split: prod.splits)

lemma reported_append [simp]: "reported (a @ b) = reported a + reported b"
  by (simp add: reported_def)

lemma reported_replicate [simp]: "reported (replicate n (Some k)) = n"
  by (simp add: reported_def)

lemma twice_the_cap_in_a_millisecond:
  assumes "distinct (as @ b # bs)" and "length as = 60" and "length bs = 59"
  shows "reported (fst (admit_refusals (map (\<lambda>s. (s, 59999)) as @ map (\<lambda>s. (s, 60000)) (b # bs)) new_window))
    = 2 * PER_MINUTE_CAP"
proof -
  have m: "millis 59999" "millis 60000" "millis (rk_started new_window)" by (simp_all add: millis_def new_window_def)
  from assms(1,2) m obtain w1 where
    w1: "admit_refusals (map (\<lambda>s. (s, 59999)) as) new_window = (replicate 60 (Some 0), w1)" "rk_started w1 = 0"
        "length (rk_sources w1) = 60" "\<forall>x. x \<notin> set as \<longrightarrow> map_of (rk_sources w1) x = None"
    using fresh_sources_reported [of as new_window 59999]
    by (auto simp: new_window_def SOURCES_CAP_def PER_MINUTE_CAP_def)
  have n: "next_minute 60000 w1 = w1\<lparr>rk_started := 60000, rk_emitted := 0\<rparr>"
    by (simp add: next_minute_def w1(2) wrap_i64_def)
  let ?w2 = "w1\<lparr>rk_started := 60000, rk_emitted := 1, rk_sources := AList.update b (60000, 0) (rk_sources w1)\<rparr>"
  have b: "map_of (rk_sources w1) b = None" using w1(4) assms(1) by simp
  then have a: "admit_refusal b 60000 w1 = (Some 0, ?w2)"
    using fresh_source_reported [of w1 b 60000] w1(3) by (simp add: n SOURCES_CAP_def PER_MINUTE_CAP_def)
  have "length (rk_sources ?w2) = 61"
    using b w1(3) by (simp add: map_of_eq_None_iff length_fresh_update)
  moreover have "\<forall>x \<in> set bs. map_of (rk_sources ?w2) x = None"
    using assms(1) w1(4) by (auto simp: update_conv')
  ultimately obtain w3 where "admit_refusals (map (\<lambda>s. (s, 60000)) bs) ?w2 = (replicate 59 (Some 0), w3)"
    using fresh_sources_reported [of bs ?w2 60000] assms(1,3) m
    by (auto simp: SOURCES_CAP_def PER_MINUTE_CAP_def)
  then show ?thesis
    using w1(1) a by (simp add: admit_all_append PER_MINUTE_CAP_def del: append.simps)
qed

text \<open>A table at its cap is emptied by one more source, and a source reported a second ago is reported again.\<close>

lemma emptied_table_reports_again:
  assumes "length (rk_sources w) = SOURCES_CAP" and "map_of (rk_sources w) fresh = None"
    and "map_of (rk_sources w) s = Some (now, 0)" and "s \<noteq> fresh" and "rk_emitted w < 58"
    and "rk_started w \<le> now" and "now < rk_started w + 60000" and "millis now" and "millis (rk_started w)"
    and "admit_refusal fresh now w = (r, w1)"
  shows "fst (admit_refusal s now w1) = Some 0"
proof -
  have n: "next_minute now w = w" using assms by (simp add: next_minute_eq)
  have "w1 = w\<lparr>rk_sources := [(fresh, (now, 0))], rk_emitted := rk_emitted w + 1\<rparr>"
    using assms(1,2,5,10) by (auto simp: admit_refusal_def Let_def n make_room_def put_source_def PER_MINUTE_CAP_def)
  moreover from this have "next_minute now w1 = w1" using assms by (simp add: next_minute_eq)
  ultimately show ?thesis
    using assms(4,5) by (simp add: admit_refusal_def Let_def make_room_def put_source_def PER_MINUTE_CAP_def SOURCES_CAP_def)
qed

end
