(* ===== verification/Caller_Door.thy ===== *)
theory Caller_Door
  imports Agent_Door Run_Owners Refused_Keys Managed_Call
begin

text \<open>
  The front of \<open>handle_call\<close> in \<open>crates/gateway/src/proxy.rs\<close>: who is calling, whose run it names, whose
  parent, what chain it proves and whether its credential may speak as its agent; with the counters of
  \<open>keystats.rs\<close>. Each function takes the door's state and gives the next. Events are listed as they are
  handed to the bus, refusals by name; log lines and response bodies are left out. The owners' journal is
  in \<open>Run_Owners\<close>.
\<close>

section \<open>Counters\<close>

record key_counters =
  kc_calls :: nat
  kc_mismatches :: nat
  kc_last_seen :: "int option"

record key_stats =
  ks_per_key :: "string \<rightharpoonup> key_counters"
  ks_unauthorized :: nat
  ks_last_unauthorized :: "int option"
  ks_truncated :: nat
  ks_last_truncated :: "int option"

definition no_counters :: key_counters where
  "no_counters = \<lparr>kc_calls = 0, kc_mismatches = 0, kc_last_seen = None\<rparr>"

definition counters_of :: "string \<Rightarrow> key_stats \<Rightarrow> key_counters" where
  "counters_of key_id s = (case ks_per_key s key_id of None \<Rightarrow> no_counters | Some c \<Rightarrow> c)"

definition stat_call :: "string \<Rightarrow> int \<Rightarrow> key_stats \<Rightarrow> key_stats" where
  "stat_call key_id now s =
     (if key_id = [] then s
      else s\<lparr>ks_per_key := (ks_per_key s)(key_id \<mapsto>
               (counters_of key_id s)\<lparr>kc_calls := wrap_succ_u64 (kc_calls (counters_of key_id s)),
                                      kc_last_seen := Some now\<rparr>)\<rparr>)"

definition stat_mismatch :: "string \<Rightarrow> key_stats \<Rightarrow> key_stats" where
  "stat_mismatch key_id s =
     (if key_id = [] then s
      else s\<lparr>ks_per_key := (ks_per_key s)(key_id \<mapsto>
               (counters_of key_id s)\<lparr>kc_mismatches := wrap_succ_u64 (kc_mismatches (counters_of key_id s))\<rparr>)\<rparr>)"

definition stat_unauthorized :: "int \<Rightarrow> key_stats \<Rightarrow> key_stats" where
  "stat_unauthorized now s =
     s\<lparr>ks_unauthorized := wrap_succ_u64 (ks_unauthorized s), ks_last_unauthorized := Some now\<rparr>"

definition stat_truncated :: "int \<Rightarrow> key_stats \<Rightarrow> key_stats" where
  "stat_truncated now s = s\<lparr>ks_truncated := wrap_succ_u64 (ks_truncated s), ks_last_truncated := Some now\<rparr>"

section \<open>The door's state\<close>

datatype agent_id_mode = Ids_off | Ids_warn | Ids_enforce

datatype door_event =
    Refused_key_event string "string option" refused_key_data
  | Foreign_run_event string "string option" string string string string "string option"
  | Chain_over_cap_event string string string nat
  | Mismatch_event string string string string string "string option"

record door =
  dr_keys :: client_keys
  dr_tokens :: "agent_tokens option"
  dr_proving :: "proving option"
  dr_feed :: "revocations option"
  dr_brokered :: bool
  dr_identity :: identity_map
  dr_strict :: strict_mode
  dr_id_mode :: agent_id_mode
  dr_require_run_id :: bool
  dr_owners :: owner_map
  dr_stats :: key_stats
  dr_window :: refusal_window
  dr_bus :: "door_event list"

record caller =
  cr_key_id :: string
  cr_principal :: string
  cr_agent :: "verified_agent option"

datatype refused_call =
    Provider_credential_refused
  | Agent_token_refused door_why
  | Agent_token_required
  | Unauthorized
  | Metering_required
  | Run_owned_elsewhere string
  | Parent_owned_elsewhere string
  | Agent_id_refused string
  | Chain_over_cap nat
  | Delegation_refused chain_refusal
  | Identity_refused string

text \<open>What the door is handed with a request: the library, SHA-256, the clock in milliseconds.\<close>

record door_env =
  de_lib :: jws_lib
  de_sha :: "string \<Rightarrow> nat list"
  de_now_millis :: int

definition de_now :: "door_env \<Rightarrow> int" where
  "de_now env = tdiv (de_now_millis env) 1000"

definition subject_or_unidentified :: "string \<Rightarrow> string" where
  "subject_or_unidentified agent = (if agent = [] then UNIDENTIFIED_CALLER else agent)"

definition put_on_bus :: "door_event \<Rightarrow> door \<Rightarrow> door" where
  "put_on_bus e dr = dr\<lparr>dr_bus := dr_bus dr @ [e]\<rparr>"

section \<open>Who is calling\<close>

definition resolve_client_key :: "door_env \<Rightarrow> headers \<Rightarrow> door \<Rightarrow> string option" where
  "resolve_client_key env h dr =
     (if \<not> keys_enabled (dr_keys dr) then Some []
      else let presented = or_else (header_str h CLIENT_KEY_HEADER) []
           in if trim presented = [] \<and> dr_brokered dr
              then gateway_credential_in_provider_headers (de_sha env) (dr_keys dr) h
              else resolve_key (de_sha env) (dr_keys dr) (trim presented))"

definition report_from_source ::
  "door_env \<Rightarrow> headers \<Rightarrow> string \<Rightarrow> (nat \<Rightarrow> refused_key_data) \<Rightarrow> door \<Rightarrow> door" where
  "report_from_source env h source data dr =
     (case admit_refusal source (de_now_millis env) (dr_window dr) of
        (None, w) \<Rightarrow> dr\<lparr>dr_window := w\<rparr>
      | (Some unreported, w) \<Rightarrow>
          put_on_bus
            (Refused_key_event (subject_or_unidentified (or_else (header_str h ''x-fuse-agent-id'') []))
               (header_str h ''x-fuse-run-id'') (data unreported))
            (dr\<lparr>dr_window := w\<rparr>))"

definition report_refused_key :: "door_env \<Rightarrow> headers \<Rightarrow> door \<Rightarrow> door" where
  "report_refused_key env h dr =
     (let presented = (case header_str h CLIENT_KEY_HEADER of
            None \<Rightarrow> None | Some k \<Rightarrow> if trim k = [] then None else Some (trim k));
          (reason, fp) = (case presented of
            None \<Rightarrow> (''missing_key'', None)
          | Some k \<Rightarrow> (''unknown_key'', Some (key_fingerprint (de_sha env) k)));
          claimed = or_else (header_str h ''x-fuse-agent-id'') []
      in report_from_source env h (or_else fp reason @ ''|'' @ claimed) (refused_key_data reason fp claimed) dr)"

definition report_caller_provider_credential :: "door_env \<Rightarrow> headers \<Rightarrow> string \<Rightarrow> door \<Rightarrow> door" where
  "report_caller_provider_credential env h header dr =
     (let claimed = or_else (header_str h ''x-fuse-agent-id'') []
      in report_from_source env h (''provider-credential|'' @ header @ ''|'' @ claimed)
           (\<lambda>n. (refused_key_data ''caller_sent_a_provider_key'' None claimed n)\<lparr>kd_header := Some header\<rparr>) dr)"

definition by_static_key :: "string \<Rightarrow> caller" where
  "by_static_key key_id = \<lparr>cr_key_id = key_id, cr_principal = key_principal key_id, cr_agent = None\<rparr>"

definition by_agent_token :: "verified_agent \<Rightarrow> caller" where
  "by_agent_token agent =
     \<lparr>cr_key_id = token_principal (ag_subject agent), cr_principal = token_principal (ag_subject agent),
      cr_agent = Some agent\<rparr>"

definition no_agent_token :: "door_env \<Rightarrow> headers \<Rightarrow> door \<Rightarrow> (caller, refused_call) res \<times> door" where
  "no_agent_token env h dr =
     (if token_required (dr_tokens dr)
      then (case resolve_client_key env h dr of
              Some key_id \<Rightarrow>
                if static_key_listed (dr_tokens dr) key_id then (Inr (by_static_key key_id), dr)
                else if key_id \<noteq> []
                then (Inl Agent_token_required, dr\<lparr>dr_stats := stat_unauthorized (de_now_millis env) (dr_stats dr)\<rparr>)
                else (let dr1 = report_refused_key env h dr in
                  (Inl Agent_token_required, dr1\<lparr>dr_stats := stat_unauthorized (de_now_millis env) (dr_stats dr1)\<rparr>))
            | None \<Rightarrow>
                (let dr1 = report_refused_key env h dr in
                  (Inl Agent_token_required, dr1\<lparr>dr_stats := stat_unauthorized (de_now_millis env) (dr_stats dr1)\<rparr>)))
      else (case resolve_client_key env h dr of
              Some key_id \<Rightarrow> (Inr (by_static_key key_id), dr)
            | None \<Rightarrow>
                (let dr1 = report_refused_key env h dr in
                  (Inl Unauthorized, dr1\<lparr>dr_stats := stat_unauthorized (de_now_millis env) (dr_stats dr1)\<rparr>))))"

definition resolve_caller :: "door_env \<Rightarrow> headers \<Rightarrow> string \<Rightarrow> bool \<Rightarrow> door \<Rightarrow> (caller, refused_call) res \<times> door" where
  "resolve_caller env h path relay dr =
     (let relaying = (relay \<and> carries_agent_token (de_lib env) h
                      \<and> resolve_client_key env h dr = Some BROKER_KEY_ID);
          (answer, tokens) =
            (if relaying
             then relayed_agent (de_lib env) (dr_proving dr) (dr_feed dr) h (de_now env) (dr_tokens dr)
             else admit_agent (de_lib env) (dr_proving dr) (dr_feed dr) h path (de_now env) (dr_tokens dr));
          dr = dr\<lparr>dr_tokens := tokens\<rparr>
      in case answer of
           Door_refused why \<Rightarrow>
             (Inl (Agent_token_refused why), dr\<lparr>dr_stats := stat_unauthorized (de_now_millis env) (dr_stats dr)\<rparr>)
         | Door_admitted agent \<Rightarrow> (Inr (by_agent_token agent), dr)
         | Not_presented \<Rightarrow> no_agent_token env h dr)"

section \<open>Whose run\<close>

definition foreign_run_refused ::
  "headers \<Rightarrow> caller \<Rightarrow> string \<Rightarrow> string \<Rightarrow> string option \<Rightarrow> door \<Rightarrow> door" where
  "foreign_run_refused h c run_id who parent dr =
     (let agent = or_else (header_str h ''x-fuse-agent-id'') []
      in put_on_bus
           (Foreign_run_event (subject_or_unidentified agent) (map_option (\<lambda>_. run_id) parent) (cr_key_id c)
              (cr_principal c) run_id who parent)
           (dr\<lparr>dr_stats := stat_mismatch (cr_key_id c) (dr_stats dr)\<rparr>))"

text \<open>Whose parent may not be rolled up into: the parent's owner, when it is neither the caller's nor open to it.\<close>

definition foreign_parent :: "caller \<Rightarrow> string \<Rightarrow> string \<Rightarrow> door \<Rightarrow> string option" where
  "foreign_parent c run_id parent dr =
     (if cr_principal c = [] \<or> parent = run_id then None
      else case run_owner parent (dr_owners dr) of
        None \<Rightarrow> None
      | Some who \<Rightarrow>
          let delegated = (case key_of who of
                None \<Rightarrow> False | Some parent_key \<Rightarrow> may_parent (dr_identity dr) parent_key (cr_key_id c))
          in if who = cr_principal c \<or> delegated then None else Some who)"

definition foreign_parent_refusal ::
  "headers \<Rightarrow> caller \<Rightarrow> string \<Rightarrow> string \<Rightarrow> door \<Rightarrow> refused_call option \<times> door" where
  "foreign_parent_refusal h c run_id parent dr =
     (case foreign_parent c run_id parent dr of
        None \<Rightarrow> (None, dr)
      | Some who \<Rightarrow> (Some (Parent_owned_elsewhere parent), foreign_run_refused h c run_id who (Some parent) dr))"

datatype door_result =
    Refused_at_door refused_call
  | Unmanaged_call caller
  | Call_admitted caller string

definition header_parent :: "headers \<Rightarrow> string option" where
  "header_parent h = (case header_str h ''x-fuse-parent-run-id'' of
     None \<Rightarrow> None | Some p \<Rightarrow> if p = [] then None else Some p)"

definition claim_and_parent :: "headers \<Rightarrow> caller \<Rightarrow> string \<Rightarrow> door \<Rightarrow> door_result \<times> door" where
  "claim_and_parent h c run_id dr =
     (case claim_in_map run_id (cr_principal c) (dr_owners dr) of
        (Claim_elsewhere who, _) \<Rightarrow>
          (Refused_at_door (Run_owned_elsewhere run_id), foreign_run_refused h c run_id who None dr)
      | (_, owners') \<Rightarrow>
          let dr1 = dr\<lparr>dr_owners := owners'\<rparr>
          in case header_parent h of
               None \<Rightarrow> (Call_admitted c run_id, dr1)
             | Some p \<Rightarrow>
                 (case foreign_parent_refusal h c run_id p dr1 of
                    (Some r, dr2) \<Rightarrow> (Refused_at_door r, dr2)
                  | (None, dr2) \<Rightarrow> (Call_admitted c run_id, dr2)))"

definition open_door :: "door_env \<Rightarrow> headers \<Rightarrow> string \<Rightarrow> door \<Rightarrow> door_result \<times> door" where
  "open_door env h path dr =
     (case refused_caller_credential (de_sha env) (dr_brokered dr) (dr_keys dr) h of
        Some header \<Rightarrow>
          (Refused_at_door Provider_credential_refused, report_caller_provider_credential env h header dr)
      | None \<Rightarrow>
          (case resolve_caller env h path False dr of
             (Inl r, dr1) \<Rightarrow> (Refused_at_door r, dr1)
           | (Inr c, dr1) \<Rightarrow>
               let dr2 = dr1\<lparr>dr_stats := stat_call (cr_key_id c) (de_now_millis env) (dr_stats dr1)\<rparr>
               in case header_str h ''x-fuse-run-id'' of
                    None \<Rightarrow>
                      if dr_require_run_id dr2 then (Refused_at_door Metering_required, dr2)
                      else (Unmanaged_call c, dr2)
                  | Some run_id \<Rightarrow> claim_and_parent h c run_id dr2))"

section \<open>Which agent, on whose behalf\<close>

text \<open>What the later stages are given: agent, unit, chain and its proof, and the note of a mismatch let through.\<close>

record vouched =
  vo_agent_id :: string
  vo_event_agent :: string
  vo_unit :: string
  vo_chain :: "string list"
  vo_proof :: "delegation_proof option"
  vo_note :: "string option"

definition call_agent_id :: "headers \<Rightarrow> caller \<Rightarrow> string" where
  "call_agent_id h c =
     (case cr_agent c of
        Some agent \<Rightarrow> ag_subject agent
      | None \<Rightarrow> or_else (header_str h ''x-fuse-agent-id'') [])"

definition identity_mismatch ::
  "headers \<Rightarrow> caller \<Rightarrow> string option \<Rightarrow> door \<Rightarrow> string \<times> string option" where
  "identity_mismatch h c actor dr =
     (let agent_id = call_agent_id h c;
          (unit, first) =
            (case cr_agent c of
               Some agent \<Rightarrow>
                 (ag_unit agent,
                  token_contradiction (dr_identity dr) agent (or_else (header_str h ''x-fuse-agent-id'') []))
             | None \<Rightarrow>
                 let r = resolve_identity (dr_identity dr) (cr_key_id c) agent_id
                 in (or_else (rs_unit r) [], rs_mismatch r))
      in (unit,
          case first of
            Some m \<Rightarrow> Some m
          | None \<Rightarrow>
              (case actor of
                 None \<Rightarrow> None
               | Some leaf \<Rightarrow>
                   if agent_id \<noteq> [] \<and> agent_id \<noteq> leaf then Some ''agent_id_contradicts_proven_chain'' else None)))"

definition call_strictness :: "caller \<Rightarrow> door \<Rightarrow> strict_mode" where
  "call_strictness c dr = (if cr_agent c \<noteq> None then Strict_enforce else dr_strict dr)"

definition chain_proofs :: "chain_answer \<Rightarrow> (string list \<times> delegation_proof option, chain_refusal) res" where
  "chain_proofs a =
     (case a of
        Refused_chain why \<Rightarrow> Inl why
      | Proven_chain chain proof \<Rightarrow> Inr (chain, Some proof)
      | Claimed_chain chain \<Rightarrow> Inr (chain, None))"

definition hold_identity ::
  "headers \<Rightarrow> caller \<Rightarrow> string \<Rightarrow> string option \<Rightarrow> string list \<Rightarrow> delegation_proof option \<Rightarrow> door
     \<Rightarrow> (vouched, refused_call) res \<times> door" where
  "hold_identity h c run_id actor chain proof dr =
     (case identity_mismatch h c actor dr of
        (unit, mismatch) \<Rightarrow>
          let agent_id = call_agent_id h c;
              event_agent = (if agent_id = [] then or_else actor [] else agent_id);
              v = \<lparr>vo_agent_id = agent_id, vo_event_agent = event_agent, vo_unit = unit,
                   vo_chain = chain, vo_proof = proof, vo_note = None\<rparr>;
              counted = dr\<lparr>dr_stats := stat_mismatch (cr_key_id c) (dr_stats dr)\<rparr>
          in case mismatch of
               None \<Rightarrow> (Inr v, dr)
             | Some reason \<Rightarrow>
                 (case call_strictness c dr of
                    Strict_off \<Rightarrow> (Inr v, dr)
                  | Strict_warn \<Rightarrow> (Inr (v\<lparr>vo_note := Some reason\<rparr>), counted)
                  | Strict_enforce \<Rightarrow>
                      (Inl (Identity_refused reason),
                       put_on_bus
                         (Mismatch_event event_agent run_id (cr_key_id c) agent_id reason
                            (if unit = [] then None else Some unit)) counted)))"

definition vouch_call ::
  "door_env \<Rightarrow> headers \<Rightarrow> string \<Rightarrow> string option \<Rightarrow> caller \<Rightarrow> string \<Rightarrow> door \<Rightarrow> (vouched, refused_call) res \<times> door" where
  "vouch_call env h path behalf c run_id dr =
     (let agent_id = call_agent_id h c
      in if agent_id \<noteq> [] \<and> \<not> is_canonical_agent_id agent_id \<and> dr_id_mode dr = Ids_enforce
         then (Inl (Agent_id_refused agent_id), dr)
         else case declared_chain behalf of
           Inl n \<Rightarrow>
             (Inl (Chain_over_cap n), put_on_bus (Chain_over_cap_event agent_id run_id (cr_key_id c) n) dr)
         | Inr declared \<Rightarrow>
             (case resolve_chain (de_lib env) (dr_proving dr)
                 (if cr_agent c \<noteq> None then None else dpop_credential (header_str h ''authorization''))
                 (header_str h PROOF_HEADER) ''POST'' path declared (de_now env) (feed_hook (dr_feed dr) (de_now env))
                 (dr_tokens dr) of
                (resolved, tokens) \<Rightarrow>
                  let dr1 = dr\<lparr>dr_tokens := tokens\<rparr>
                  in case chain_proofs resolved of
                       Inl why \<Rightarrow> (Inl (Delegation_refused why), dr1)
                     | Inr (chain, proof) \<Rightarrow>
                         hold_identity h c run_id (proven_actor resolved) chain proof dr1))"

section \<open>The whole call\<close>

text \<open>
  The door, then the money path (\<open>Managed_Call\<close>): its parent check is the door's, its attribution the
  door's answers, and a refusal by the identity check is a stage that answered the call. The trace row an
  identity refusal writes is left out, as the rows of the other stages are.
\<close>

datatype call_result =
    Not_called refused_call
  | Passed_through caller
  | Called caller string "(vouched, refused_call) res" answer "microusd option" "microusd option"

definition request_as ::
  "headers \<Rightarrow> caller \<Rightarrow> string \<Rightarrow> (vouched, refused_call) res \<Rightarrow> call_request \<Rightarrow> call_request" where
  "request_as h c run_id v q =
     q\<lparr>rq_run := run_id, rq_parent_header := header_str h ''x-fuse-parent-run-id'',
       rq_attr := (rq_attr q)\<lparr>ca_key_id := cr_key_id c,
         ca_unit := (case v of Inl _ \<Rightarrow> [] | Inr w \<Rightarrow> vo_unit w),
         ca_agent_id := call_agent_id h c,
         ca_identity_reason := (case v of Inl _ \<Rightarrow> None | Inr w \<Rightarrow> vo_note w)\<rparr>\<rparr>"

definition stages_behind :: "caller \<Rightarrow> string \<Rightarrow> (vouched, refused_call) res \<Rightarrow> door \<Rightarrow> stages \<Rightarrow> stages" where
  "stages_behind c run_id v dr stg =
     stg\<lparr>st_foreign_parent := \<lambda>p. foreign_parent c run_id p dr \<noteq> None,
         st_before_kill := \<not> is_ok v \<or> st_before_kill stg\<rparr>"

definition gateway_call ::
  "door_env \<Rightarrow> headers \<Rightarrow> string \<Rightarrow> string option \<Rightarrow> 'g call_env \<Rightarrow> stages \<Rightarrow> call_request \<Rightarrow> sent \<Rightarrow> door \<Rightarrow> 'g front
     \<Rightarrow> call_result \<times> door \<times> 'g front" where
  "gateway_call env h path behalf ce stg q outcome dr f =
     (case open_door env h path dr of
        (Refused_at_door r, dr1) \<Rightarrow> (Not_called r, dr1, f)
      | (Unmanaged_call c, dr1) \<Rightarrow> (Passed_through c, dr1, f)
      | (Call_admitted c run_id, dr1) \<Rightarrow>
          (case vouch_call env h path behalf c run_id dr1 of
             (v, dr2) \<Rightarrow>
               (case handle_call ce (stages_behind c run_id v dr1 stg) (request_as h c run_id v q) outcome f of
                  ((a, clamped, kept), f') \<Rightarrow>
                    (Called c run_id v a clamped kept,
                     (case a of
                        Foreign_parent p \<Rightarrow> snd (foreign_parent_refusal h c run_id p dr1)
                      | Seed_pending _ \<Rightarrow> dr1
                      | Parent_run_refused _ \<Rightarrow> dr1
                      | _ \<Rightarrow> dr2), f'))))"

end
