(* ===== verification/Door_Props.thy ===== *)
theory Door_Props
  imports Door_Facts Caller_Door Managed_Props
begin

text \<open>
  What the door promises: a proof opens it once, a token has one verifier, an agent is admitted against a
  list that is the newest offered, a run keeps its opener, and a call reaches the provider only after all of
  it.
\<close>

section \<open>The call behind the door\<close>

text \<open>An answer only the provider's side of the call gives.\<close>

definition reached_provider :: "answer \<Rightarrow> bool" where
  "reached_provider a = (case a of Upstream_error \<Rightarrow> True | Provider_answer _ _ \<Rightarrow> True | _ \<Rightarrow> False)"

lemma reached_provider_simps [simp]:
  "\<not> reached_provider (Foreign_parent p)" "\<not> reached_provider (Seed_pending r)"
  "\<not> reached_provider (Parent_run_refused e)" "\<not> reached_provider Other_stage" "\<not> reached_provider (Blocked v)"
  "reached_provider Upstream_error" "reached_provider (Provider_answer s n)"
  by (simp_all add: reached_provider_def)

lemma kill_gate_blocks: "kill_gate q b p t f = (Some a, f') \<Longrightarrow> \<not> reached_provider a"
  by (auto simp: kill_gate_def Let_def refuse_call_def split: if_splits)

lemma handle_call_reached:
  assumes "handle_call ce stg q outcome f = ((a, cl, kept), f')" and "reached_provider a"
  shows "\<exists>asked basis f1 b p f2. \<not> st_before_kill stg
     \<and> (\<forall>d. declared_parent q = Some d \<longrightarrow> \<not> st_foreign_parent stg d)
     \<and> resolve_budget q f = ((asked, basis, cl), f1)
     \<and> open_this_run (rq_run q) asked (declared_parent q) basis
           (first_sight_parent (rq_run q) (declared_parent q) f1) = (Inr (b, p, kept), f2)
     \<and> (declared_parent q = None \<and> p \<noteq> [] \<longrightarrow> \<not> st_foreign_parent stg p)"
  using assms
  by (auto simp: handle_call_def Let_def split: if_splits option.splits prod.splits sum.splits; blast)

lemma opened_under_declared:
  "open_this_run run asked (Some d) basis f = (Inr (b, p, kept), f2) \<Longrightarrow> p = d"
  by (auto simp: open_this_run_def open_run_as_def parent_decision_def Let_def
      split: prod.splits sum.splits option.splits if_splits)

lemma claimed_owner:
  "claim_in_map run who m = (cl, m') \<Longrightarrow> \<forall>p. cl \<noteq> Claim_elsewhere p \<Longrightarrow> run \<noteq> [] \<Longrightarrow> who \<noteq> [] \<Longrightarrow>
     run_owner run m' = Some who"
  by (auto simp: claim_in_map_def run_owner_def split: if_splits option.splits)

lemma foreign_parent_refusal_none:
  "foreign_parent_refusal h c run p dr = (None, dr') \<longleftrightarrow> foreign_parent c run p dr = None \<and> dr' = dr"
  by (auto simp: foreign_parent_refusal_def split: option.splits)

lemma claim_and_parent_admitted:
  assumes "claim_and_parent h c run dr = (Call_admitted c' run', dr')"
  shows "c' = c \<and> run' = run
     \<and> (cr_principal c \<noteq> [] \<and> run \<noteq> [] \<longrightarrow> run_owner run (dr_owners dr') = Some (cr_principal c))
     \<and> (\<forall>p. header_parent h = Some p \<longrightarrow> foreign_parent c run p dr' = None)"
  using assms claimed_owner [of run "cr_principal c" "dr_owners dr"]
  by (auto simp: claim_and_parent_def Let_def foreign_parent_refusal_none
      split: prod.splits claim.splits option.splits)

lemma open_door_admitted:
  assumes "open_door env h path dr = (Call_admitted c run, dr')"
  shows "(\<exists>dr0. resolve_caller env h path False dr = (Inr c, dr0)) \<and> header_str h ''x-fuse-run-id'' = Some run
     \<and> (cr_principal c \<noteq> [] \<and> run \<noteq> [] \<longrightarrow> run_owner run (dr_owners dr') = Some (cr_principal c))
     \<and> (\<forall>p. header_parent h = Some p \<longrightarrow> foreign_parent c run p dr' = None)"
  using assms
  by (auto simp: open_door_def Let_def dest!: claim_and_parent_admitted
      split: option.splits prod.splits sum.splits if_splits)

lemma foreign_parent_cong:
  "dr_owners dr' = dr_owners dr \<Longrightarrow> dr_identity dr' = dr_identity dr \<Longrightarrow>
     foreign_parent c run p dr' = foreign_parent c run p dr"
  by (simp add: foreign_parent_def split: option.split)

text \<open>The agent at the leaf of the chain a vouched call proved.\<close>

definition vouched_actor :: "vouched \<Rightarrow> string option" where
  "vouched_actor w = (case vo_proof w of None \<Rightarrow> None | Some p \<Rightarrow> proven_actor (Proven_chain (vo_chain w) p))"

lemma hold_identity_frame:
  assumes "hold_identity h c run actor chain proof' dr = (v, dr')"
  shows "dr_owners dr' = dr_owners dr \<and> dr_identity dr' = dr_identity dr \<and> dr_strict dr' = dr_strict dr"
  using assms
  by (auto simp: hold_identity_def Let_def put_on_bus_def split: prod.splits option.splits strict_mode.splits)

lemma hold_identity_ok:
  assumes "hold_identity h c run actor chain proof' dr = (Inr w, dr')"
  shows "vo_chain w = chain \<and> vo_proof w = proof'
     \<and> (call_strictness c dr = Strict_enforce \<longrightarrow> snd (identity_mismatch h c actor dr) = None)"
  using assms
  by (auto simp: hold_identity_def Let_def split: prod.splits option.splits strict_mode.splits)

lemma vouch_call_frame:
  assumes "vouch_call env h path behalf c run dr = (v, dr')"
  shows "dr_owners dr' = dr_owners dr \<and> dr_identity dr' = dr_identity dr \<and> dr_strict dr' = dr_strict dr"
  using assms
  by (auto simp: vouch_call_def Let_def put_on_bus_def dest!: hold_identity_frame
      split: if_splits sum.splits prod.splits)

lemma chain_proofs_actor:
  "chain_proofs a = Inr (chain, proof') \<Longrightarrow> vo_chain w = chain \<Longrightarrow> vo_proof w = proof' \<Longrightarrow> vouched_actor w = proven_actor a"
  by (cases a) (auto simp: chain_proofs_def vouched_actor_def proven_actor_def)

lemma identity_mismatch_cong:
  assumes "dr_identity dr' = dr_identity dr"
  shows "identity_mismatch h c actor dr' = identity_mismatch h c actor dr"
  by (simp only: identity_mismatch_def assms)

lemma vouch_call_ok:
  assumes "vouch_call env h path behalf c run dr = (Inr w, dr')"
  shows "call_strictness c dr' = Strict_enforce \<longrightarrow> snd (identity_mismatch h c (vouched_actor w) dr') = None"
proof -
  from assms obtain a chain proof' tokens where
    a: "chain_proofs a = Inr (chain, proof')"
       "hold_identity h c run (proven_actor a) chain proof' (dr\<lparr>dr_tokens := tokens\<rparr>) = (Inr w, dr')"
    by (auto simp: vouch_call_def Let_def split: if_splits sum.splits prod.splits)
  note f = hold_identity_frame [OF a(2)] and k = hold_identity_ok [OF a(2)]
  have "call_strictness c dr' = call_strictness c (dr\<lparr>dr_tokens := tokens\<rparr>)"
    using f by (simp add: call_strictness_def)
  moreover have "identity_mismatch h c (proven_actor a) dr' = identity_mismatch h c (proven_actor a) (dr\<lparr>dr_tokens := tokens\<rparr>)"
    using f by (intro identity_mismatch_cong) simp
  moreover have "vouched_actor w = proven_actor a" using chain_proofs_actor a(1) k by blast
  ultimately show ?thesis using k by simp
qed

lemma request_as_fields [simp]:
  "rq_run (request_as h c run v q) = run" "declared_parent (request_as h c run v q) = header_parent h"
  by (simp_all add: request_as_def declared_parent_def header_parent_def)

lemma stages_behind_fields [simp]:
  "st_foreign_parent (stages_behind c run v dr stg) p \<longleftrightarrow> foreign_parent c run p dr \<noteq> None"
  "st_before_kill (stages_behind c run v dr stg) \<longleftrightarrow> \<not> is_ok v \<or> st_before_kill stg"
  by (simp_all add: stages_behind_def)

lemma gateway_call_called:
  assumes "gateway_call env h path behalf ce stg q outcome dr f = (Called c run v a cl kept, dr', f')"
    and "reached_provider a"
  obtains dr1 where "open_door env h path dr = (Call_admitted c run, dr1)"
    and "vouch_call env h path behalf c run dr1 = (v, dr')"
    and "handle_call ce (stages_behind c run v dr1 stg) (request_as h c run v q) outcome f = ((a, cl, kept), f')"
  using assms by (auto simp: gateway_call_def split: prod.splits door_result.splits answer.splits)

text \<open>C1. A call that reached the provider came from a caller the door resolved, on a run whose recorded owner is that
  caller; the declared chain and the agent were vouched for, with no contradiction where the check enforces;
  and the parent the ledger opened the run under, declared or held, is not one that another principal owns and
  has not opened to the caller.\<close>

theorem forwarded_call_was_vouched:
  assumes "gateway_call env h path behalf ce stg q outcome dr f = (Called c run v a cl kept, dr', f')"
    and "reached_provider a"
  shows "(\<exists>dr0. resolve_caller env h path False dr = (Inr c, dr0)) \<and> header_str h ''x-fuse-run-id'' = Some run
     \<and> (cr_principal c \<noteq> [] \<and> run \<noteq> [] \<longrightarrow> run_owner run (dr_owners dr') = Some (cr_principal c))
     \<and> (\<exists>w. v = Inr w \<and> (call_strictness c dr' = Strict_enforce \<longrightarrow>
          snd (identity_mismatch h c (vouched_actor w) dr') = None))
     \<and> (\<exists>asked basis f1 b p f2.
          resolve_budget (request_as h c run v q) f = ((asked, basis, cl), f1)
        \<and> open_this_run run asked (header_parent h) basis (first_sight_parent run (header_parent h) f1)
            = (Inr (b, p, kept), f2)
        \<and> (p \<noteq> [] \<longrightarrow> foreign_parent c run p dr' = None))"
proof -
  from gateway_call_called [OF assms] obtain dr1 where
    d: "open_door env h path dr = (Call_admitted c run, dr1)" "vouch_call env h path behalf c run dr1 = (v, dr')"
       "handle_call ce (stages_behind c run v dr1 stg) (request_as h c run v q) outcome f = ((a, cl, kept), f')" .
  note o = open_door_admitted [OF d(1)]
  from vouch_call_frame [OF d(2)] have fr: "dr_owners dr' = dr_owners dr1" "dr_identity dr' = dr_identity dr1"
    by simp_all
  note fp = foreign_parent_cong [OF fr]
  from handle_call_reached [OF d(3) assms(2)] obtain asked basis f1 b p f2 where
    r: "is_ok v" "resolve_budget (request_as h c run v q) f = ((asked, basis, cl), f1)"
       "open_this_run run asked (header_parent h) basis (first_sight_parent run (header_parent h) f1)
          = (Inr (b, p, kept), f2)"
       "header_parent h = None \<and> p \<noteq> [] \<longrightarrow> foreign_parent c run p dr1 = None"
    by (simp only: request_as_fields stages_behind_fields not_not de_Morgan_disj) blast
  from r(1) obtain w where v: "v = Inr w" by (cases v) (auto simp: is_ok_def)
  have p: "p \<noteq> [] \<longrightarrow> foreign_parent c run p dr' = None"
  proof (cases "header_parent h")
    case None
    with r(4) fp show ?thesis by simp
  next
    case (Some d)
    with r(3) opened_under_declared have "p = d" by metis
    with o Some fp show ?thesis by simp
  qed
  from o fr r(2,3) p v vouch_call_ok [OF d(2) [unfolded v]] show ?thesis by auto
qed

section \<open>The door's credentials\<close>

text \<open>C2. A proof of possession opens a door once: after a call it was accepted for, whatever calls came between at clocks
  no later, the same proof is refused at either door.\<close>

theorem proof_opens_a_door_once:
  assumes "run_call lib cfg c (Some t) = (True, t1)" and "call_proof c = Some p"
    and "ry_started (at_replay t) = I64_MIN \<or> in_clock (ry_started (at_replay t))"
    and "in_clock (call_at c)" and "in_clock (call_at d)"
    and "list_all (\<lambda>e. in_clock (call_at e) \<and> call_at e \<le> call_at d) cs"
    and "call_proof d = Some p"
  shows "\<not> fst (run_call lib cfg d (run_calls lib cfg cs t1))"
  using proof_opens_once [OF assms] .

text \<open>Some configuration, clock, proof and list under which a verifier accepts the token.\<close>

definition verifies_as_delegation :: "jws_lib \<Rightarrow> string \<Rightarrow> bool" where
  "verifies_as_delegation lib t \<longleftrightarrow> (\<exists>cfg p m u now r v. verify_delegation lib cfg t p m u now r = Inr v)"

definition verifies_as_agent :: "jws_lib \<Rightarrow> string \<Rightarrow> bool" where
  "verifies_as_agent lib t \<longleftrightarrow>
     (\<exists>cfg p m u now r a. verify_agent_token lib cfg t p m u now r = Inr a \<or> verify_relayed_agent_token lib cfg t now r = Inr a)"

definition verifies_as_access :: "jws_lib \<Rightarrow> string \<Rightarrow> bool" where
  "verifies_as_access lib t \<longleftrightarrow> (\<exists>cfg now r v. verify_access_token lib cfg t now r = Inr v)"

text \<open>C3. A token is good for one verifier: none that verifies as a delegation, as an agent's own (at the door or
  relayed) or as an access token verifies as another of the three, whatever the keys, clocks, proofs and
  lists.\<close>

theorem one_verifier_per_token:
  assumes "decodes_payload lib"
  shows "\<not> (verifies_as_delegation lib t \<and> verifies_as_agent lib t)
     \<and> \<not> (verifies_as_delegation lib t \<and> verifies_as_access lib t)
     \<and> \<not> (verifies_as_agent lib t \<and> verifies_as_access lib t)"
  using delegation_not_agent delegation_not_access [OF assms] agent_not_access [OF assms]
  by (auto simp: verifies_as_delegation_def verifies_as_agent_def verifies_as_access_def
      verify_agent_token_ok verify_relayed_ok)

text \<open>C4. An agent admitted at the door, with a list that fails closed, brought one token and no key beside it: the
  token's claims were read from a signature under the configured keys, issuer and audience, it is within its
  time, it names a canonical agent, and a proof signed with its key for this request and this token came with
  it. It was judged against the newest list any fetch so far offered, no older than the maximum age,
  and no live entry of that list covers it.\<close>

theorem admitted_against_fresh_list:
  assumes "start_feed ll max_age Fail_closed t0 got = Some c0" and "feed = run_polls ll polls c0"
    and "admit_agent lib cfg (Some feed) h path now (Some t) = (Door_admitted agent, t')"
  shows "\<exists>p token proof v claims held fetched.
       cfg = Some p \<and> agent_token_in lib h = Some token \<and> h CLIENT_KEY_HEADER = None
     \<and> decode_claims lib (pv_cfg p) read_agent_claims token True = Inr claims
     \<and> gc_sub claims = ag_subject agent \<and> is_canonical_agent_id (ag_subject agent)
     \<and> now < sat_i64 (gc_exp claims + AGENT_TOKEN_LEEWAY_SECS) \<and> gc_iat claims \<le> sat_i64 (now + AGENT_TOKEN_LEEWAY_SECS)
     \<and> header_str h PROOF_HEADER = Some proof
     \<and> verify_proof lib proof ''POST'' (proving_url lib p (Some proof) path) now = Inr v
     \<and> gc_cnf claims = Some (vp_jkt v) \<and> vp_ath v = Some (access_token_hash lib token)
     \<and> (held, fetched) \<in> set (offered ll ((t0, got) # polls))
     \<and> (\<forall>(s, _) \<in> set (offered ll ((t0, got) # polls)). sn_as_of s \<le> sn_as_of held)
     \<and> wrap_i64 (now - fetched) \<le> max_age
     \<and> (\<forall>e \<in> set (sn_revocations held). revocation_live_at e now \<longrightarrow>
          \<not> revocation_covers e (gc_jti claims) (ag_subject agent) (gc_iat claims))"
proof -
  from start_feed_latest [OF assms(1)] have c0: "latest_held (offered ll [(t0, got)]) c0"
    "rl_max_age c0 = max_age" "rl_fail_mode c0 = Fail_closed" by blast+
  from run_polls_latest [OF c0(1), of ll polls] have l: "latest_held (offered ll ((t0, got) # polls)) feed"
    by (simp add: assms(2) offered_def)
  have fc: "rl_fail_mode feed = Fail_closed" "rl_max_age feed = max_age" using c0 assms(2) by simp_all
  from admit_agent_ok [OF assms(3)] obtain p token u where
    a: "cfg = Some p" "agent_token_in lib h = Some token" "h CLIENT_KEY_HEADER = None"
       "verify_agent_token lib (pv_cfg p) token (header_str h PROOF_HEADER) ''POST''
          (proving_url lib p (header_str h PROOF_HEADER) path) now (feed_hook (Some feed) now) = Inr agent"
       "is_canonical_agent_id (ag_subject agent)" .
  from a(4) obtain c jkt v where
    b: "agent_claims lib (pv_cfg p) token now = Inr (c, jkt)"
       "present_proof lib (header_str h PROOF_HEADER) ''POST'' (proving_url lib p (header_str h PROOF_HEADER) path) now = Inr v"
       "vp_jkt v = jkt" "vp_ath v = Some (access_token_hash lib token)"
       "\<not> feed_hook (Some feed) now (gc_jti c) (gc_sub c) (gc_iat c)" "agent = agent_of c jkt (vp_jti v)"
    unfolding verify_agent_token_ok by blast
  from not_revoked_closed [OF fc(1) b(5)] obtain held fetched where
    n: "rl_held feed = Some (held, fetched)" "wrap_i64 (now - fetched) \<le> rl_max_age feed"
       "\<forall>e \<in> set (sn_revocations held). revocation_live_at e now \<longrightarrow> \<not> revocation_covers e (gc_jti c) (gc_sub c) (gc_iat c)" .
  from b(2) obtain proof' where pr: "header_str h PROOF_HEADER = Some proof'"
    "verify_proof lib proof' ''POST'' (proving_url lib p (Some proof') path) now = Inr v"
    by (auto simp: present_proof_ok)
  have sub: "ag_subject agent = gc_sub c" using b(6) by (simp add: agent_of_def)
  from b(1) [unfolded agent_claims_ok] l n fc(2) a(1,2,3,5) b(3,4) pr sub show ?thesis
    unfolding latest_held_def by (intro exI [of _ p] exI [of _ token] exI [of _ proof'] exI [of _ v] exI [of _ c]
        exI [of _ held] exI [of _ fetched]) simp
qed

text \<open>C5. A run whose opening reached the journal belongs to the principal that opened it, through every later
  claim, append, crash and restart: that principal's calls own it and any other's are turned away with
  its name.\<close>

theorem run_belongs_to_opener:
  assumes "owner_codec_ok codec" and "owner_reach codec w" and "(run, p) \<in> set (wo_kept w)"
    and "run \<noteq> []" and "who \<noteq> []"
  shows "names_run run who at w = ((if who = p then Claim_own else Claim_elsewhere p), w)"
  using kept_owner [OF assms(1-3)] assms(4,5) by (simp add: names_run_def claim_in_map_def)

section \<open>One agent at the door\<close>

text \<open>A library that knows one token \<open>T\<close> and one proof \<open>P\<close>, and whose every digest is \<open>h\<close>.\<close>

definition sample_key :: jwk where
  "sample_key = \<lparr>jk_kid = Some ''k'', jk_params = RSA_params ''n'' ''e''\<rparr>"

definition sample_payload :: "string \<Rightarrow> jvalue option" where
  "sample_payload s =
     (if s = ''T'' then Some (JObj [(''sub'', JStr ''agent://acme/a''), (''client_id'', JStr ''agent://acme/a''),
        (''jti'', JStr ''t''), (''iat'', JNum (Whole 90)), (''exp'', JNum (Whole 200)),
        (''cnf'', JObj [(''jkt'', JStr ''h'')]), (''unit'', JStr ''ops''), (''org'', JStr ''acme'')])
      else if s = ''P'' then Some (JObj [(''htm'', JStr ''POST''), (''htu'', JStr ''http://gw/v1''),
        (''iat'', JNum (Whole 100)), (''jti'', JStr ''j''), (''ath'', JStr ''h'')])
      else None)"

definition sample_jws :: jws_lib where
  "sample_jws = \<lparr>
     jl_header = (\<lambda>s. if s = ''T'' then Some \<lparr>jh_typ = Some ''at+jwt'', jh_kid = Some ''k'', jh_jwk = None\<rparr>
       else if s = ''P'' then Some \<lparr>jh_typ = Some ''dpop+jwt'', jh_kid = None, jh_jwk = Some sample_key\<rparr> else None),
     jl_raw_header = (\<lambda>s. Some (JObj [(''jwk'', JObj [])])),
     jl_payload = sample_payload, jl_key_ok = (\<lambda>k. True),
     jl_decode = (\<lambda>v k s. case sample_payload s of None \<Rightarrow> Inl Other_error | Some c \<Rightarrow> Inr c),
     jl_sha = (\<lambda>s. [1]), jl_b64 = (\<lambda>d. ''h'')\<rparr>"

definition sample_proving :: proving where
  "sample_proving = \<lparr>pv_cfg = \<lparr>df_jwks = Fixed_keys [sample_key], df_issuer = ''iss'', df_audience = ''gw''\<rparr>,
     pv_origins = [''http://gw'']\<rparr>"

definition agent_headers :: headers where
  "agent_headers = [''authorization'' \<mapsto> Header_text ''DPoP T'', ''dpop'' \<mapsto> Header_text ''P'']"

definition sample_list_lib :: list_library where
  "sample_list_lib = \<lparr>ll_parse = (\<lambda>s. Some (JObj [(''revocations'', JArr []), (''as_of'', JNum (Whole 95))])),
     ll_utf8 = (\<lambda>s. True)\<rparr>"

definition sample_feed :: revocations where
  "sample_feed = \<lparr>rl_max_age = 60, rl_fail_mode = Fail_closed,
     rl_held = Some (\<lparr>sn_revocations = [], sn_as_of = 95\<rparr>, 96), rl_rejected_backwards = 0\<rparr>"

definition sample_agent :: verified_agent where
  "sample_agent = \<lparr>ag_subject = ''agent://acme/a'', ag_unit = ''ops'', ag_org = ''acme'', ag_jti = ''t'', ag_jkt = ''h'',
     ag_proof_jti = ''j'', ag_issued_at = 90, ag_expires_at = 200\<rparr>"

definition fresh_tokens :: agent_tokens where
  "fresh_tokens = with_static_keys Tokens_require []"

lemma sample_started: "start_feed sample_list_lib 60 Fail_closed 96 (List_answer 200 (Some ''x'')) = Some sample_feed"
  by (simp add: start_feed_def fetch_snapshot_def sample_list_lib_def MAX_SNAPSHOT_BYTES_def snapshot_from_json_def
      read_int_def install_list_def new_revocations_def sample_feed_def in_i64_def machine_bounds)

lemma sample_credential: "dpop_credential (header_str agent_headers ''authorization'') = Some ''T''"
  by (simp add: agent_headers_def header_str_def) code_simp

lemma sample_headers_simps [simp]: "header_str agent_headers PROOF_HEADER = Some ''P''" "agent_headers CLIENT_KEY_HEADER = None"
  by (simp_all add: agent_headers_def header_str_def PROOF_HEADER_def CLIENT_KEY_HEADER_def)

lemma sample_url: "proving_url sample_jws sample_proving (Some ''P'') ''/v1'' = ''http://gw/v1''"
  by code_simp

lemma sample_proof:
  "verify_proof sample_jws ''P'' ''POST'' ''http://gw/v1'' 100 = Inr \<lparr>vp_jkt = ''h'', vp_jti = ''j'', vp_ath = Some ''h''\<rparr>"
  by code_simp

lemma sample_claims:
  "agent_claims sample_jws (pv_cfg sample_proving) ''T'' 100
     = Inr (\<lparr>gc_sub = ''agent://acme/a'', gc_client_id = ''agent://acme/a'', gc_jti = ''t'', gc_iat = 90, gc_exp = 200,
         gc_cnf = Some ''h'', gc_act = None, gc_unit = ''ops'', gc_org = ''acme''\<rparr>, ''h'')"
  by code_simp

lemma sample_hash: "access_token_hash sample_jws t = ''h''"
  by (simp add: access_token_hash_def sample_jws_def)

lemma sample_admitted:
  "\<exists>t. admit_agent sample_jws (Some sample_proving) (Some sample_feed) agent_headers ''/v1'' 100 (Some fresh_tokens)
     = (Door_admitted sample_agent, Some t)"
proof -
  have tok: "agent_token_in sample_jws agent_headers = Some ''T''"
    by (simp add: agent_token_in_def sample_credential is_agent_token_def sample_jws_def AGENT_TOKEN_TYP_def)
  have v: "verify_agent_token sample_jws (pv_cfg sample_proving) ''T'' (Some ''P'') ''POST'' ''http://gw/v1'' 100
      (feed_hook (Some sample_feed) 100) = Inr sample_agent"
    by (simp add: verify_agent_token_def sample_claims present_proof_def sample_proof agent_of_def sample_agent_def
        sample_hash feed_hook_def check_revoked_def sample_feed_def wrap_i64_def)
  have c: "is_canonical_agent_id ''agent://acme/a''" by code_simp
  have "\<exists>t. first_use ''j'' 100 fresh_tokens = (True, t)"
    by (simp add: first_use_def check_and_record_def rotate_generations_def fresh_tokens_def with_static_keys_def
        new_replay_cache_def REPLAY_CAP_def is_ok_def)
  then show ?thesis
    using c by (auto simp: admit_agent_def tok sample_url v door_admitted_def sample_agent_def)
qed

theorem admitted_against_fresh_list_witness:
  "\<exists>t. admit_agent sample_jws (Some sample_proving) (Some sample_feed) agent_headers ''/v1'' 100 (Some fresh_tokens)
     = (Door_admitted sample_agent, t)
   \<and> (\<exists>p token v. agent_token_in sample_jws agent_headers = Some token
        \<and> verify_proof sample_jws ''P'' ''POST'' (proving_url sample_jws p (Some ''P'') ''/v1'') 100 = Inr v
        \<and> vp_ath v = Some (access_token_hash sample_jws token))"
proof -
  from sample_admitted obtain t where t: "admit_agent sample_jws (Some sample_proving) (Some sample_feed) agent_headers
      ''/v1'' 100 (Some fresh_tokens) = (Door_admitted sample_agent, Some t)" by blast
  have "sample_feed = run_polls sample_list_lib [] sample_feed" by simp
  from admitted_against_fresh_list [OF sample_started this t] t show ?thesis by (metis sample_headers_simps(1) option.inject)
qed

definition sample_visit :: door_call where
  "sample_visit = Agent_call agent_headers ''/v1'' (Some sample_feed) 100"

theorem proof_opens_a_door_once_witness:
  "\<exists>t. run_call sample_jws (Some sample_proving) sample_visit (Some fresh_tokens) = (True, Some t)
     \<and> \<not> fst (run_call sample_jws (Some sample_proving) sample_visit (Some t))"
proof -
  from sample_admitted obtain t where
    t: "run_call sample_jws (Some sample_proving) sample_visit (Some fresh_tokens) = (True, Some t)"
    by (auto simp: sample_visit_def)
  have "call_proof sample_visit = Some ''P''" "call_at sample_visit = 100" "in_clock 100"
    "ry_started (at_replay fresh_tokens) = I64_MIN"
    by (simp_all add: sample_visit_def in_clock_def machine_bounds fresh_tokens_def with_static_keys_def new_replay_cache_def)
  with proof_opens_a_door_once [OF t, of "''P''" sample_visit "[]"] t show ?thesis by simp
qed

theorem one_verifier_per_token_witness:
  "verifies_as_agent sample_jws ''T'' \<and> \<not> verifies_as_delegation sample_jws ''T'' \<and> \<not> verifies_as_access sample_jws ''T''"
proof -
  have "decodes_payload sample_jws"
    by (auto simp: decodes_payload_def sample_jws_def split: option.splits)
  moreover have "verify_relayed_agent_token sample_jws (pv_cfg sample_proving) ''T'' 100 (\<lambda>_ _ _. False)
      = Inr (agent_of (fst (\<lparr>gc_sub = ''agent://acme/a'', gc_client_id = ''agent://acme/a'', gc_jti = ''t'', gc_iat = 90,
          gc_exp = 200, gc_cnf = Some ''h'', gc_act = None, gc_unit = ''ops'', gc_org = ''acme''\<rparr>, ''h'')) ''h'' [])"
    by (simp add: verify_relayed_agent_token_def sample_claims)
  then have "verifies_as_agent sample_jws ''T''" unfolding verifies_as_agent_def by blast
  ultimately show ?thesis using one_verifier_per_token [of sample_jws "''T''"] by blast
qed

section \<open>One call through the door\<close>

definition key_headers :: headers where
  "key_headers = [''x-fuse-key'' \<mapsto> Header_text ''secret'', ''x-fuse-run-id'' \<mapsto> Header_text ''r'']"

definition keyed_door :: door where
  "keyed_door = \<lparr>dr_keys = \<lparr>ck_by_digest = [([6], ''team'')]\<rparr>, dr_tokens = None, dr_proving = None, dr_feed = None,
     dr_brokered = False, dr_identity = empty_identity_map, dr_strict = Strict_enforce, dr_id_mode = Ids_enforce,
     dr_require_run_id = True, dr_owners = [],
     dr_stats = \<lparr>ks_per_key = Map.empty, ks_unauthorized = 0, ks_last_unauthorized = None, ks_truncated = 0,
       ks_last_truncated = None\<rparr>,
     dr_window = new_window, dr_bus = []\<rparr>"

definition sample_door_env :: door_env where
  "sample_door_env = \<lparr>de_lib = undefined, de_sha = (\<lambda>s. [length s]), de_now_millis = 100000\<rparr>"

lemma key_headers_simps [simp]:
  "header_str key_headers ''x-fuse-key'' = Some ''secret''" "header_str key_headers ''x-fuse-run-id'' = Some ''r''"
  "header_str key_headers ''x-fuse-agent-id'' = None" "header_str key_headers ''x-fuse-parent-run-id'' = None"
  "header_str key_headers ''authorization'' = None" "header_str key_headers ''x-api-key'' = None"
  by (simp_all add: key_headers_def header_str_def)

lemma trim_secret: "trim ''secret'' = ''secret''" by code_simp

lemma sample_opened_door:
  "\<exists>dr1. open_door sample_door_env key_headers ''/v1/messages'' keyed_door = (Call_admitted (by_static_key ''team'') ''r'', dr1)
     \<and> dr_owners dr1 = [(''r'', ''key:team'')] \<and> dr_tokens dr1 = None \<and> dr_proving dr1 = None
     \<and> dr_identity dr1 = empty_identity_map"
  by (simp add: open_door_def keyed_door_def refused_caller_credential_def resolve_caller_def
      carries_agent_token_def agent_token_in_def dpop_credential_def admit_agent_def no_agent_token_def
      token_required_def resolve_client_key_def keys_enabled_def CLIENT_KEY_HEADER_def trim_secret
      resolve_key_def sample_door_env_def claim_and_parent_def by_static_key_def key_principal_def KEY_PREFIX_def
      claim_in_map_def header_parent_def or_else_def Let_def)

lemma sample_vouched:
  assumes "dr_tokens dr = None" and "dr_proving dr = None" and "dr_identity dr = empty_identity_map"
  shows "\<exists>w dr'. vouch_call env key_headers path None (by_static_key ''team'') ''r'' dr = (Inr w, dr')
     \<and> vo_unit w = [] \<and> vo_note w = None"
proof -
  have "declared_chain None = Inr []" by code_simp
  moreover have "identity_mismatch key_headers (by_static_key ''team'') None (dr\<lparr>dr_tokens := None\<rparr>) = ([], None)"
    using assms by (simp add: identity_mismatch_def call_agent_id_def by_static_key_def resolve_identity_def
        empty_identity_map_def prefix_unit_def map_enabled_def or_else_def Let_def)
  ultimately show ?thesis
    using assms
    by (simp add: vouch_call_def call_agent_id_def by_static_key_def resolve_chain_def chain_proofs_def proven_actor_def
        hold_identity_def or_else_def Let_def)
qed

lemma stages_behind_quiet:
  "dr_owners dr = [(''r'', ''key:team'')] \<Longrightarrow> stages_behind c ''r'' (Inr w) dr quiet_stages = quiet_stages"
  by (simp add: stages_behind_def quiet_stages_def foreign_parent_def run_owner_def is_ok_def fun_eq_iff)

lemma request_as_metered:
  "vo_unit w = [] \<Longrightarrow> vo_note w = None \<Longrightarrow>
     request_as key_headers (by_static_key ''team'') ''r'' (Inr w) metered_request = metered_request"
  by (simp add: request_as_def metered_request_def default_attribution_def by_static_key_def call_agent_id_def or_else_def)

theorem forwarded_call_was_vouched_witness:
  "\<exists>w dr' f' cl kept. gateway_call sample_door_env key_headers ''/v1/messages'' None sample_env quiet_stages metered_request
       (Sent 200 None None) keyed_door sample_front
     = (Called (by_static_key ''team'') ''r'' (Inr w) (Provider_answer 200 None) cl kept, dr', f')
   \<and> run_owner ''r'' (dr_owners dr') = Some ''key:team''"
proof -
  from sample_opened_door obtain dr1 where o:
    "open_door sample_door_env key_headers ''/v1/messages'' keyed_door = (Call_admitted (by_static_key ''team'') ''r'', dr1)"
    "dr_owners dr1 = [(''r'', ''key:team'')]" "dr_tokens dr1 = None" "dr_proving dr1 = None"
    "dr_identity dr1 = empty_identity_map" by blast
  from sample_vouched [OF o(3-5)] obtain w dr2 where
    v: "vouch_call sample_door_env key_headers ''/v1/messages'' None (by_static_key ''team'') ''r'' dr1 = (Inr w, dr2)"
       "vo_unit w = []" "vo_note w = None" by blast
  from sample_call obtain f' where "handle_call sample_env quiet_stages metered_request (Sent 200 None None) sample_front
      = ((Provider_answer 200 None, Some 900, None), f')" by blast
  with o v have g: "gateway_call sample_door_env key_headers ''/v1/messages'' None sample_env quiet_stages metered_request
       (Sent 200 None None) keyed_door sample_front
     = (Called (by_static_key ''team'') ''r'' (Inr w) (Provider_answer 200 None) (Some 900) None, dr2, f')"
    by (simp add: gateway_call_def stages_behind_quiet request_as_metered)
  have "cr_principal (by_static_key ''team'') = ''key:team''"
    by (simp add: by_static_key_def key_principal_def KEY_PREFIX_def)
  with forwarded_call_was_vouched [OF g] g show ?thesis by auto
qed

section \<open>One run's owner\<close>

text \<open>A codec that writes a record as four fields, each character of a text as two letters.\<close>

definition letters :: "string \<Rightarrow> string" where
  "letters s = concat (map (\<lambda>c. [char_of (65 + of_char c div 16 :: nat), char_of (65 + of_char c mod 16 :: nat)]) s)"

fun unletters :: "string \<Rightarrow> string" where
  "unletters (a # b # s) = char_of ((of_char a - 65) * 16 + (of_char b - 65) :: nat) # unletters s"
| "unletters _ = []"

definition int_letters :: "int \<Rightarrow> string" where
  "int_letters i = (if i < 0 then ''-'' else ''+'') @ replicate (nat \<bar>i\<bar>) CHR ''1''"

definition int_unletters :: "string \<Rightarrow> int" where
  "int_unletters s = (if take 1 s = ''-'' then - int (length s - 1) else int (length s - 1))"

definition write_fields :: "owner_record \<Rightarrow> string" where
  "write_fields r = replicate (ow_v r) (CHR ''v'') @ CHR '','' # letters (ow_run_id r) @ CHR '','' #
     letters (ow_owner r) @ CHR '','' # int_letters (ow_at_millis r)"

definition read_fields :: "string \<Rightarrow> owner_record option" where
  "read_fields s =
     (case split_on (CHR '','') s of
        [v, run, who, at] \<Rightarrow>
          let r = \<lparr>ow_v = length v, ow_run_id = unletters run, ow_owner = unletters who, ow_at_millis = int_unletters at\<rparr>
          in if write_fields r = s then Some r else None
      | _ \<Rightarrow> None)"

definition field_codec :: owner_codec where
  "field_codec = \<lparr>oc_write = (\<lambda>r. Some (write_fields r)), oc_read = read_fields\<rparr>"

lemma of_char_256: "(of_char (c :: char) :: nat) < 256"
  by (metis char_of_char mod_less_divisor of_char_of zero_less_numeral)

lemma unletters_letters: "unletters (letters s) = s"
proof (induction s)
  case (Cons c s)
  have b: "(of_char c :: nat) < 256" by (rule of_char_256)
  then have "(of_char c :: nat) div 16 < 16" by (simp add: less_mult_imp_div_less)
  then have "of_char (char_of (65 + of_char c div 16 :: nat)) = (65 + of_char c div 16 :: nat)"
    "of_char (char_of (65 + of_char c mod 16 :: nat)) = (65 + of_char c mod 16 :: nat)"
    by (simp_all add: of_char_of)
  then have "char_of ((of_char (char_of (65 + of_char c div 16 :: nat)) - 65) * 16
      + (of_char (char_of (65 + of_char c mod 16 :: nat)) - 65) :: nat) = c"
    by simp
  with Cons show ?case by (simp add: letters_def)
qed (simp add: letters_def)

lemma letters_chars: "c \<in> set (letters s) \<Longrightarrow> 65 \<le> (of_char c :: nat) \<and> (of_char c :: nat) < 81"
proof -
  have d: "(of_char x :: nat) div 16 < 16" for x :: char
    using of_char_256 [of x] by (simp add: less_mult_imp_div_less)
  have "(65 + (of_char x :: nat) div 16) mod 256 = 65 + of_char x div 16" for x :: char
    using d [of x] by simp
  with d show "c \<in> set (letters s) \<Longrightarrow> 65 \<le> (of_char c :: nat) \<and> (of_char c :: nat) < 81"
    by (auto simp: letters_def of_char_of)
qed

lemma int_letters_back: "int_unletters (int_letters i) = i"
  by (simp add: int_letters_def int_unletters_def)

lemma letters_clean: "CHR '','' \<notin> set (letters s)" "LF \<notin> set (letters s)"
  using letters_chars [of "CHR '',''" s] letters_chars [of LF s] by auto

lemma read_written: "read_fields (write_fields r) = Some r"
proof -
  have "CHR '','' \<notin> set (replicate (ow_v r) (CHR ''v''))" "CHR '','' \<notin> set (int_letters (ow_at_millis r))"
    by (auto simp: int_letters_def)
  then have "split_on (CHR '','') (write_fields r)
      = [replicate (ow_v r) (CHR ''v''), letters (ow_run_id r), letters (ow_owner r), int_letters (ow_at_millis r)]"
    by (simp add: write_fields_def split_on_append split_on_none letters_clean)
  moreover have "write_fields \<lparr>ow_v = ow_v r, ow_run_id = ow_run_id r, ow_owner = ow_owner r,
      ow_at_millis = ow_at_millis r\<rparr> = write_fields r"
    by (cases r) simp
  ultimately show ?thesis by (simp add: read_fields_def unletters_letters int_letters_back Let_def)
qed

lemma dropWhile_hd: "\<not> P (hd s) \<Longrightarrow> dropWhile P s = s"
  by (cases s) auto

lemma trim_ascii_id: "s \<noteq> [] \<Longrightarrow> \<not> ascii_white (hd s) \<Longrightarrow> \<not> ascii_white (last s) \<Longrightarrow> trim_ascii s = s"
  by (simp add: trim_ascii_def dropWhile_hd hd_rev)

lemma field_codec_ok: "owner_codec_ok field_codec"
proof -
  have "trim_ascii (write_fields r) = write_fields r" for r
    by (rule trim_ascii_id) (auto simp: write_fields_def int_letters_def ascii_white_def hd_append)
  moreover have "LF \<notin> set (write_fields r)" for r
    by (auto simp: write_fields_def int_letters_def letters_clean)
  moreover have "write_fields r \<noteq> []" for r by (simp add: write_fields_def)
  ultimately have "owner_reads_back field_codec r" for r
    by (simp add: owner_reads_back_def field_codec_def read_written)
  moreover have "read_fields s = Some r \<Longrightarrow> write_fields r = s" for s r
    by (auto simp: read_fields_def Let_def split: list.splits if_splits)
  ultimately show ?thesis by (auto simp: owner_codec_ok_def field_codec_def)
qed

definition kept_world :: owner_world where
  "kept_world = \<lparr>wo_map = [(''r'', ''key:a'')], wo_file = write_fields (first_claim_record ''r'' ''key:a'' 5) @ [LF],
     wo_pending = [], wo_kept = [(''r'', ''key:a'')]\<rparr>"

lemma kept_world_reached: "owner_reach field_codec kept_world"
proof -
  have "parse_owners field_codec [] = Inr empty_owner_report"
    using parse_owners_chunks [of "[]" field_codec] by simp
  then have "restarts field_codec [] True (owner_start []) = Some (owner_start [])"
    by (simp add: restarts_def journal_open_def replay_owners_at_startup_def empty_owner_report_def
        distinct_owners_def rewrite_owners_def rewrite_def owner_start_def)
  from owner_reach.starts [OF refl _ _ this] have "owner_reach field_codec (owner_start [])"
    by (simp add: journal_open_def)
  then have n: "owner_reach field_codec \<lparr>wo_map = [(''r'', ''key:a'')], wo_file = [],
      wo_pending = [first_claim_record ''r'' ''key:a'' 5], wo_kept = []\<rparr>"
    by (rule owner_reach.names [of _ _ "''key:a''" "''r''" 5 Claim_opened])
      (simp_all add: names_run_def owner_start_def claim_in_map_def is_principal_def strip_prefix_def starts_with_def
        KEY_PREFIX_def)
  have "length (write_fields (first_claim_record ''r'' ''key:a'' 5)) = 22"
    by (simp add: write_fields_def first_claim_record_def letters_def int_letters_def)
  then have e: "appends_claim field_codec 0 Disk_ok \<lparr>wo_map = [(''r'', ''key:a'')], wo_file = [],
      wo_pending = [first_claim_record ''r'' ''key:a'' 5], wo_kept = []\<rparr> = kept_world"
    by (simp add: appends_claim_def append_owner_def append_line_def write_all_def field_codec_def MAX_LINE_BYTES_def
        kept_world_def is_ok_def first_claim_record_def)
  from owner_reach.appended [OF n, of 0] show ?thesis by (simp add: e)
qed

theorem run_belongs_to_opener_witness:
  "names_run ''r'' ''tok:b'' 9 kept_world = (Claim_elsewhere ''key:a'', kept_world)
   \<and> names_run ''r'' ''key:a'' 9 kept_world = (Claim_own, kept_world)"
proof -
  have k: "(''r'', ''key:a'') \<in> set (wo_kept kept_world)" by (simp add: kept_world_def)
  show ?thesis
    using run_belongs_to_opener [OF field_codec_ok kept_world_reached k, of "''tok:b''" 9]
      run_belongs_to_opener [OF field_codec_ok kept_world_reached k, of "''key:a''" 9] by simp
qed

end
