(* ===== verification/Spec2Isabelle.thy ===== *)
theory Spec2Isabelle
  imports Ledger_Props Raft_Props Raft_Core Unit_Ledger Router Policy Loops Backtest Reports Audit_Trail
    Stream_Facts Closure_Props Managed_Props Usage_Props Cloud_Access Sink_Props Seed_Props
    Door_Props
begin

text \<open>
  A verification development for tokenfuse, a gateway that stands between agents and a language-model
  provider and holds every call against a budget.

  \<^bold>\<open>The program.\<close> A caller names a run and, perhaps, a parent run. Before a call is forwarded the
  gateway estimates its cost, reserves the estimate against the budgets of the run and of all its
  ancestors and against the monthly cap of the caller's unit, and forwards it only if both admit it
  (in the enforcing mode; shadow and warn record what would have been refused). When the call ends,
  a guard settles both reservations: at the cost of the usage the provider reported, at the estimate
  when it reported none, at nothing when the call was never sent. A call that may have reached the
  provider without an answer is neither charged nor released: it is retained, written to a journal,
  put back after a restart, and closed later with evidence. The run ledger is kept either in the
  process or replicated by raft. Around this core stand a price book and a model router, policy and
  loop checks, a firewall over tool calls, an audit chain, and reports over the recorded calls. Gateways
  push their recorded calls to a control plane, which keeps accounts per organisation, raises incidents
  and carries the operators' kills and budgets back.

  \<^bold>\<open>How the theories follow the code.\<close> Paths are under \<open>src/crates\<close>.

  \<^descr> \<open>Prelude\<close>, \<open>Text\<close>, \<open>Json\<close>: Rust's integer ranges with their saturating, wrapping and checked
    operations; the string methods the code uses, on UTF-8 bytes; a parsed JSON value.
  \<^descr> \<open>Money\<close>, \<open>Pricing\<close>, \<open>Estimate\<close>, \<open>Router\<close>: \<open>core/src/money.rs\<close>, \<open>core/src/pricing.rs\<close>,
    \<open>gateway/src/estimate.rs\<close>, \<open>gateway/src/router.rs\<close>. A price in microdollars is an \<open>int\<close> kept in
    the range of \<open>i64\<close> by the operations that clamp; the estimate's floating-point margin is exact
    rounding to 53 bits.
  \<^descr> \<open>Ledger\<close>: \<open>core/src/ledger.rs\<close>, the state behind the lock as a record and every operation on it.
    \<open>Ledger_Chain\<close> is the walk to the ancestors, \<open>Ledger_Facts\<close> each operation on every branch,
    \<open>Ledger_Reach\<close> the operations as a step relation with the accounting invariant, \<open>Ledger_Restore\<close>
    recovery, \<open>Ledger_Props\<close> the properties.
  \<^descr> \<open>Raft_Ledger\<close>, \<open>Raft_Store\<close>, \<open>Redb_Store\<close>: \<open>types.rs\<close>, \<open>store.rs\<close> and \<open>redbstore.rs\<close> of
    \<open>cluster/src\<close>: the replicated ledger as a deterministic state machine, the in-memory log and
    store, the durable one. \<open>Raft_Facts\<close> and \<open>Raft_Props\<close> hold their lemmas; \<open>Raft_Core\<close> compares the
    replicated ledger with the in-process one.
  \<^descr> \<open>Unit_Ledger\<close>, \<open>Timefmt\<close>: \<open>gateway/src/unitledger.rs\<close> and the calendar of
    \<open>core/src/timefmt.rs\<close> its windows are made of.
  \<^descr> \<open>Policy\<close>, \<open>Loops\<close>: \<open>policy.rs\<close>, \<open>breaker.rs\<close> and \<open>loops.rs\<close> of \<open>core/src\<close>.
  \<^descr> \<open>Retained_Journal\<close>, \<open>Settle\<close>, \<open>Replay\<close>, \<open>Closure\<close>: \<open>retainedjournal.rs\<close>, \<open>settle.rs\<close>,
    the startup half of \<open>retainedjournal.rs\<close>, and \<open>closure.rs\<close> of \<open>gateway/src\<close>. The record
    \<open>gateway\<close> gathers what the guard shares with the rest of the process: both ledgers, prices,
    registry and journal, recorded rows, emitted events. Their lemmas are in \<open>Journal_Facts\<close>,
    \<open>Settle_Props\<close>, \<open>Replay_Props\<close> and \<open>Closure_Props\<close>.
  \<^descr> \<open>Managed_Call\<close>: the money path of \<open>handle_call\<close> in \<open>gateway/src/proxy.rs\<close> and the parts of
    \<open>AppState\<close> (\<open>state.rs\<close>) it uses, composed from the components above in the order of the code;
    \<open>Managed_Props\<close> proves what holds of a whole call.
  \<^descr> \<open>Taint\<close>, \<open>Stream_Gate\<close>, \<open>Stream_Facts\<close>: the tool-call firewall of \<open>core/src/taint.rs\<close> and the
    gate of \<open>gateway/src/streamgate.rs\<close> that holds a streamed tool call until it is judged.
  \<^descr> \<open>Usage_Parser\<close>, \<open>Usage_Props\<close>: the usage parser of \<open>gateway/src/provider.rs\<close>, which reads what a
    guard charges out of the bytes of an answer, whole or streamed.
  \<^descr> \<open>Recency\<close>, \<open>Cloud_Records\<close>, \<open>Cloud_Ingest\<close>, \<open>Cloud_Store\<close>, \<open>Cloud_Detect\<close>, \<open>Cloud_Control\<close>,
    \<open>Cloud_Views\<close>: \<open>cloud/src/store.rs\<close>, in the order of the file: the recency index, the wire record and
    a run's aggregate, the accounting half of a push, the state and its incidents, the detectors, the
    operator's side with devices and the snapshot, the reads. A \<open>HashMap\<close> is an association list without
    repeated keys; the lock makes every method a function of the record \<open>store\<close>. \<open>Cloud_Steps\<close> makes the
    methods and a restart into histories; \<open>Cloud_Books\<close>, \<open>Cloud_Bounds\<close>, \<open>Cloud_Invariant\<close> and
    \<open>Cloud_Restart\<close> carry the invariant through each of them, \<open>Cloud_Frames\<close> and \<open>Cloud_Tenants\<close> say what
    each leaves alone, \<open>Cloud_History\<close> what a history leaves behind, and \<open>Cloud_Props\<close> and \<open>Cloud_Access\<close>
    state the properties.
  \<^descr> \<open>Cloud_Sink\<close>, \<open>Seed_Gate\<close>: \<open>gateway/src/cloudsink.rs\<close> and \<open>gateway/src/seedgate.rs\<close>, the way between a
    gateway and the control plane. The sink is a record of what its tasks share (buffer, queue, counters,
    log, the receiving side) and a list of threads, one for each call in progress of \<open>record\<close>, \<open>flush\<close>,
    \<open>ship\<close>, \<open>drain_replay\<close>, the heartbeat or the flush before exit; \<open>advance\<close> runs one thread up to its next
    shared access, and \<open>sink_run\<close> lets them interleave in any order. \<open>Sink_Facts\<close> describes each step,
    \<open>Sink_Runs\<close> carries the accounting invariant \<open>sink_ok\<close> through all of them, \<open>Sink_Order\<close> follows the order
    of the records, \<open>Sink_Exit\<close> the flush before exit, and \<open>Sink_Props\<close> states the properties and joins the sink
    to the control plane's store. \<open>Seed_Props\<close> does the same for the seed: what a gateway asks for before it
    admits its first call, and the gate that holds calls back until it was answered.
  \<^descr> \<open>Audit_Trail\<close>, \<open>Backtest\<close>, \<open>Reports\<close>: \<open>audit.rs\<close>, \<open>backtest.rs\<close>, \<open>savings.rs\<close> and
    \<open>outcomes.rs\<close> of \<open>core/src\<close>.

  A lock or a raft log makes each ledger operation atomic, so an operation is a function from the
  state to its result and the next state, and concurrency is the order of the steps. An error is the
  left of a sum, with the source's variants.

  \<^bold>\<open>Interfaces.\<close> \<open>Interfaces\<close> states the contracts components share as locales: \<open>parent_chain\<close> (the
  walk to the ancestors), \<open>admission_control\<close> (what an admission may do to the head room of the
  budgets it covers) and \<open>price_oracle\<close> (what the router needs of a price). Both ledgers interpret
  the first two on their own definitions, the estimate the third; the budget theorems of the two
  ledgers are one proof. \<open>Recency\<close> states what a table bounded by a recency index relies on
  (\<open>lru_index\<close>, extended by the two eviction rules \<open>lru_oldest\<close> and \<open>lru_protected\<close>) and interprets it on
  the index the store uses.

  \<^bold>\<open>What is shown.\<close>

  \<^enum> Budgets. No interleaving of admissions takes more than a budget's head room, in process or in the
    replicated log; the outstanding holds of the in-process ledger are exactly the reservations
    issued and not settled; under the enforcing discipline spend plus holds never passes a budget; a
    unit's monthly cap is hard.
  \<^enum> A managed call. On every path the call leaves no hold behind, unless its outcome is unknown; in
    enforce nothing reaches the provider that a gate refused; only the operator raises a budget;
    shadow and warn never stop a call for money.
  \<^enum> Settlement and recovery. The table of outcomes of a call; an answered call is never
    under-charged; the journal reads back what was appended; a restart puts back exactly the
    retained reservations that no closure names; a closure is applied once, needs a token over
    exactly its subject, and keeps its reservation out of later replays.
  \<^enum> Replication. The durable store survives a restart; lemmas show that it refines the in-memory log,
    that a snapshot brings a follower to the leader's ledger, and that the replicated ledger admits what
    the in-process one does, and where the two differ.
  \<^enum> Prices, as lemmas. The cost is the exact sum rounded up once; the estimate covers it; the router
    never picks a dearer model unless the class requires the tier.
  \<^enum> Telemetry. Every recorded call is in one place: the buffer, a thread's hands, the replay queue, the
    control plane, or the count of the dropped; the replay keeps the order of the records when flushes do
    not overlap; a drain that is answered empties the queue; the flush before exit reports what it leaves;
    the control plane's totals count what the gateway sent. Lemmas give runs in which overlapping flushes
    send records out of order, or a lost answer counts a batch twice.
  \<^enum> Start-up. Under the closed gate nothing is admitted before the seed was read, and an answer opens
    it.
  \<^enum> The control plane. Totals, counts and savings are exact over everything ever pushed, whatever the
    batches, the evictions and the restarts; every table stays bounded; a run over its alert line is not
    evicted while another is there to evict; one organisation's traffic changes nothing another reads; a
    kill lasts; every audit chain verifies; a used nonce is refused and a device is known only by a token
    that paired it; a saved store loads back.
  \<^enum> Firewall, stream, audit and reports. A label once on a run is not lost; no part of a streamed tool
    call is sent before it is judged; a changed entry of the audit chain is found unless the hash
    collides; the reports add up to what was recorded.

  \<^bold>\<open>Bounds.\<close> No fuel is used: every recursion is structural or ends by a measure (the ancestor walk
  by the cap of 64 links the code has, \<open>MAX_CHAIN_DEPTH\<close>). The caps are the code's: 8192 retained
  reservations, journal lines of 16 MiB, 8192 names in a log-once set. The counters of generations
  and reservations are \<open>u64\<close> and wrap in the model; a history of the control plane is bounded only so
  that the sequence counter of a recency index, a \<open>u64\<close>, does not wrap: fewer than \<open>2^64\<close> records and
  restart seedings in all. The accounting invariant assumes fewer than
  \<open>2^64 - 1\<close> of each, and for the unchecked reserve of shadow mode that a hold does not saturate
  \<open>i64\<close>.

  \<^bold>\<open>Arguments that stand for code outside the repository or for effects.\<close> SHA-256, HMAC-SHA256 and
  the hash of a tool call; rendering and reading a journal line as JSON (\<open>line_codec\<close>); lossy UTF-8
  decoding; the codec of the embedded database and whether its transaction commits; whether a disk
  write succeeds, fails or tears (\<open>disk\<close>); regular-expression scanners; floating-point comparison and
  printing; the clock. Where a theorem needs something of one, such as that a codec reads what it
  wrote, it is a hypothesis of that theorem, and its witness instantiates it. Of the network, whether and
  how a request is answered is the input of a step.

  \<^bold>\<open>Not modelled.\<close> HTTP, serving and configuration; the text scanners (\<open>dlp.rs\<close>, \<open>injection.rs\<close>), the
  semantic cache and compliance reports; the MCP broker and its session, exposure and declassification
  state; identity, key and token verification, which rest on signature libraries; the event envelope and canonical JSON of
  \<open>agent_event.rs\<close> and \<open>jcs.rs\<close>; the backend that forwards ledger calls to a raft node; the raft
  protocol itself and its transport; of the control plane the HTTP routes, the delivery of its live
  stream and push notices, OIDC and the signing of audit manifests; the command-line reports and the
  terminal interface. In \<open>Managed_Call\<close> the stages between the budget steps (identity, content
  scanning, cache, WASM and Wardryx policies) are arguments that say whether the stage answered the
  call, and the rows and events those stages write are left out.
\<close>

end
